(* ===== verification/JSBase.thy ===== *)
theory JSBase
  imports Complex_Main "HOL-Library.AList"
begin

text \<open>
  Prelude of the development: the parts of JavaScript the front end's modules use.

  \<^item> \<open>jsnum\<close> is the type of JavaScript numbers: the finite ones (as exact reals), the two
    infinities and \<open>NaN\<close>, with the comparison and arithmetic rules of the language for the special
    values. Rounding of finite results and the sign of zero are not modelled.
  \<^item> A JavaScript \<open>Set\<close> is its list of members in insertion order (\<open>set_add\<close>, \<open>set_delete\<close>), a
    \<open>Map\<close> an association list in insertion order (\<open>AList.update\<close>, \<open>AList.delete\<close>).
  \<^item> \<open>push_bounded\<close> is the idiom \<open>push\<close> then \<open>shift\<close> when too long, \<open>scan_min\<close> the linear search
    for a smallest value with a strict comparison.
  \<^item> \<open>js_int\<close> prints an integer as a template literal does.
  \<^item> The locale \<open>event_system\<close> is the contract of a component that reacts to events: a start state,
    a step relation labelled with events and an invariant that every step keeps; its theorem lifts
    the invariant to all reachable states.
\<close>

named_theorems js_defs \<open>definitions unfolded when a handler is evaluated\<close>
named_theorems js_num \<open>arithmetic of finite JavaScript numbers\<close>

section \<open>Numbers\<close>

datatype jsnum = NaN | PInf | NInf | Fin real

fun js_sign :: "jsnum \<Rightarrow> int" where
  "js_sign (Fin a) = (if a > 0 then 1 else if a < 0 then -1 else 0)"
| "js_sign PInf = 1"
| "js_sign NInf = -1"
| "js_sign NaN = 0"

definition js_inf :: "int \<Rightarrow> jsnum" where
  "js_inf s = (if s > 0 then PInf else if s < 0 then NInf else NaN)"

instantiation jsnum :: "{plus, minus, uminus, times, inverse, zero, one, ord}"
begin

fun plus_jsnum :: "jsnum \<Rightarrow> jsnum \<Rightarrow> jsnum" where
  "plus_jsnum (Fin a) (Fin b) = Fin (a + b)"
| "plus_jsnum NaN _ = NaN"
| "plus_jsnum _ NaN = NaN"
| "plus_jsnum PInf NInf = NaN"
| "plus_jsnum NInf PInf = NaN"
| "plus_jsnum PInf _ = PInf"
| "plus_jsnum _ PInf = PInf"
| "plus_jsnum NInf _ = NInf"
| "plus_jsnum _ NInf = NInf"

fun uminus_jsnum :: "jsnum \<Rightarrow> jsnum" where
  "uminus_jsnum (Fin a) = Fin (- a)"
| "uminus_jsnum PInf = NInf"
| "uminus_jsnum NInf = PInf"
| "uminus_jsnum NaN = NaN"

definition minus_jsnum :: "jsnum \<Rightarrow> jsnum \<Rightarrow> jsnum" where
  "minus_jsnum a b = a + (- b)"

fun times_jsnum :: "jsnum \<Rightarrow> jsnum \<Rightarrow> jsnum" where
  "times_jsnum (Fin a) (Fin b) = Fin (a * b)"
| "times_jsnum a b = (if a = NaN \<or> b = NaN then NaN else js_inf (js_sign a * js_sign b))"

fun divide_jsnum :: "jsnum \<Rightarrow> jsnum \<Rightarrow> jsnum" where
  "divide_jsnum (Fin a) (Fin b) = (if b = 0 then js_inf (js_sign (Fin a)) else Fin (a / b))"
| "divide_jsnum (Fin a) PInf = Fin 0"
| "divide_jsnum (Fin a) NInf = Fin 0"
| "divide_jsnum PInf (Fin b) = (if b < 0 then NInf else PInf)"
| "divide_jsnum NInf (Fin b) = (if b < 0 then PInf else NInf)"
| "divide_jsnum a b = NaN"

definition inverse_jsnum :: "jsnum \<Rightarrow> jsnum" where
  "inverse_jsnum a = Fin 1 div a"

definition zero_jsnum :: jsnum where
  "zero_jsnum = Fin 0"

definition one_jsnum :: jsnum where
  "one_jsnum = Fin 1"

fun less_jsnum :: "jsnum \<Rightarrow> jsnum \<Rightarrow> bool" where
  "less_jsnum (Fin a) (Fin b) = (a < b)"
| "less_jsnum (Fin a) PInf = True"
| "less_jsnum NInf (Fin b) = True"
| "less_jsnum NInf PInf = True"
| "less_jsnum _ _ = False"

fun less_eq_jsnum :: "jsnum \<Rightarrow> jsnum \<Rightarrow> bool" where
  "less_eq_jsnum NaN _ = False"
| "less_eq_jsnum _ NaN = False"
| "less_eq_jsnum (Fin a) (Fin b) = (a \<le> b)"
| "less_eq_jsnum NInf _ = True"
| "less_eq_jsnum _ PInf = True"
| "less_eq_jsnum _ _ = False"

instance ..

end

text \<open>Addition is associative, so numerals of type \<open>jsnum\<close> are available.\<close>

instance jsnum :: semigroup_add
proof
  fix a b c :: jsnum
  show "a + b + c = a + (b + c)"
    by (cases a; cases b; cases c) simp_all
qed

instance jsnum :: numeral ..

lemma numeral_jsnum [simp]: "(numeral k :: jsnum) = Fin (numeral k)"
proof (induction k)
  case One
  then show ?case by (simp add: one_jsnum_def)
next
  case (Bit0 k)
  have "(numeral (num.Bit0 k) :: jsnum) = numeral k + numeral k" by (rule numeral_Bit0)
  also have "\<dots> = Fin (numeral k + numeral k)" by (simp only: Bit0 plus_jsnum.simps)
  also have "numeral k + numeral k = (numeral (num.Bit0 k) :: real)" by (rule numeral_Bit0 [symmetric])
  finally show ?case .
next
  case (Bit1 k)
  have "(numeral (num.Bit1 k) :: jsnum) = numeral k + numeral k + 1" by (rule numeral_Bit1)
  also have "\<dots> = Fin (numeral k + numeral k + 1)" by (simp only: Bit1 plus_jsnum.simps one_jsnum_def)
  also have "numeral k + numeral k + 1 = (numeral (num.Bit1 k) :: real)"
    by (rule numeral_Bit1 [symmetric])
  finally show ?case .
qed

lemma zero_jsnum_Fin [simp]: "(0 :: jsnum) = Fin 0"
  by (simp add: zero_jsnum_def)

lemma one_jsnum_Fin [simp]: "(1 :: jsnum) = Fin 1"
  by (simp add: one_jsnum_def)

lemma minus_Fin [simp]: "Fin a - Fin b = Fin (a - b)"
  by (simp add: minus_jsnum_def)

lemma divide_Fin [simp]: "b \<noteq> 0 \<Longrightarrow> Fin a / Fin b = Fin (a / b)"
  by simp

definition is_finite :: "jsnum \<Rightarrow> bool" where
  "is_finite x = (case x of Fin _ \<Rightarrow> True | _ \<Rightarrow> False)"

lemma is_finite_simps [simp]:
  "is_finite (Fin a)" "\<not> is_finite NaN" "\<not> is_finite PInf" "\<not> is_finite NInf"
  by (simp_all add: is_finite_def)

lemma is_finite_iff: "is_finite x \<longleftrightarrow> (\<exists>a. x = Fin a)"
  by (cases x) simp_all

text \<open>\<open>!x\<close> for a number: zero and \<open>NaN\<close> are falsy.\<close>

definition falsy :: "jsnum \<Rightarrow> bool" where
  "falsy x \<longleftrightarrow> x = Fin 0 \<or> x = NaN"

definition js_or :: "jsnum \<Rightarrow> jsnum \<Rightarrow> jsnum" where
  "js_or x y = (if falsy x then y else x)"

definition js_min :: "jsnum \<Rightarrow> jsnum \<Rightarrow> jsnum" where
  "js_min a b = (if a = NaN \<or> b = NaN then NaN else if a \<le> b then a else b)"

definition js_max :: "jsnum \<Rightarrow> jsnum \<Rightarrow> jsnum" where
  "js_max a b = (if a = NaN \<or> b = NaN then NaN else if a \<le> b then b else a)"

lemma js_min_Fin [simp]: "js_min (Fin a) (Fin b) = Fin (min a b)"
  by (simp add: js_min_def min_def)

lemma js_max_Fin [simp]: "js_max (Fin a) (Fin b) = Fin (max a b)"
  by (simp add: js_max_def max_def)

lemma js_minmax_inf [simp]:
  "js_min PInf (Fin b) = Fin b" "js_max NInf (Fin b) = Fin b"
  "js_min (Fin b) PInf = Fin b" "js_max (Fin b) NInf = Fin b"
  by (simp_all add: js_min_def js_max_def)

text \<open>\<open>Math.min(hi, Math.max(lo, x))\<close>.\<close>

lemma clamp_Fin:
  assumes "lo \<le> hi"
  shows "\<exists>r. js_min (Fin hi) (js_max (Fin lo) (Fin x)) = Fin r \<and> lo \<le> r \<and> r \<le> hi"
  using assms by (auto simp: min_def max_def)

definition js_abs :: "jsnum \<Rightarrow> jsnum" where
  "js_abs x = (case x of Fin a \<Rightarrow> Fin \<bar>a\<bar> | NInf \<Rightarrow> PInf | _ \<Rightarrow> x)"

lemma js_abs_Fin [simp]: "js_abs (Fin a) = Fin \<bar>a\<bar>"
  by (simp add: js_abs_def)

text \<open>Mathematical functions of a finite argument; \<open>NaN\<close> where the language says so.\<close>

definition js_lift :: "(real \<Rightarrow> real) \<Rightarrow> jsnum \<Rightarrow> jsnum" where
  "js_lift f x = (case x of Fin a \<Rightarrow> Fin (f a) | _ \<Rightarrow> NaN)"

lemma js_lift_Fin [simp]: "js_lift f (Fin a) = Fin (f a)"
  by (simp add: js_lift_def)

definition js_sqrt :: "jsnum \<Rightarrow> jsnum" where
  "js_sqrt x = (case x of Fin a \<Rightarrow> (if a < 0 then NaN else Fin (sqrt a)) | PInf \<Rightarrow> PInf | _ \<Rightarrow> NaN)"

definition js_floor :: "jsnum \<Rightarrow> jsnum" where
  "js_floor x = (case x of Fin a \<Rightarrow> Fin (of_int \<lfloor>a\<rfloor>) | _ \<Rightarrow> x)"

definition js_ceil :: "jsnum \<Rightarrow> jsnum" where
  "js_ceil x = (case x of Fin a \<Rightarrow> Fin (of_int \<lceil>a\<rceil>) | _ \<Rightarrow> x)"

text \<open>\<open>Math.round\<close> rounds a half upwards.\<close>

definition js_round :: "jsnum \<Rightarrow> jsnum" where
  "js_round x = (case x of Fin a \<Rightarrow> Fin (of_int \<lfloor>a + 1 / 2\<rfloor>) | _ \<Rightarrow> x)"

lemma js_rounding_Fin [simp]:
  "js_floor (Fin a) = Fin (of_int \<lfloor>a\<rfloor>)" "js_ceil (Fin a) = Fin (of_int \<lceil>a\<rceil>)"
  "js_round (Fin a) = Fin (of_int \<lfloor>a + 1 / 2\<rfloor>)"
  by (simp_all add: js_floor_def js_ceil_def js_round_def)

text \<open>The remainder operator truncates towards zero: the result has the sign of the dividend.\<close>

definition js_rem :: "real \<Rightarrow> real \<Rightarrow> real" where
  "js_rem a b = (let q = a / b; t = (if q < 0 then of_int \<lceil>q\<rceil> else of_int \<lfloor>q\<rfloor>) in a - b * t)"

fun js_mod :: "jsnum \<Rightarrow> jsnum \<Rightarrow> jsnum" where
  "js_mod (Fin a) (Fin b) = (if b = 0 then NaN else Fin (js_rem a b))"
| "js_mod (Fin a) PInf = Fin a"
| "js_mod (Fin a) NInf = Fin a"
| "js_mod _ _ = NaN"

lemma js_rem_pos:
  assumes "0 \<le> a" "0 < b"
  shows "0 \<le> js_rem a b \<and> js_rem a b < b"
proof -
  have q: "a / b \<ge> 0" using assms by simp
  have ba: "b * (a / b) = a" using assms(2) by simp
  have "b * of_int \<lfloor>a / b\<rfloor> \<le> b * (a / b)"
    using assms(2) by (intro mult_left_mono) auto
  moreover have "b * (a / b) < b * (of_int \<lfloor>a / b\<rfloor> + 1)"
    using assms(2) by (intro mult_strict_left_mono) auto
  ultimately have "b * of_int \<lfloor>a / b\<rfloor> \<le> a" "a < b * (of_int \<lfloor>a / b\<rfloor> + 1)"
    unfolding ba by simp_all
  then show ?thesis using q by (simp add: js_rem_def algebra_simps)
qed

text \<open>Reading an array of numbers out of range gives \<open>undefined\<close>, which is \<open>NaN\<close> in arithmetic.\<close>

definition js_at :: "jsnum list \<Rightarrow> nat \<Rightarrow> jsnum" where
  "js_at xs i = (if i < length xs then xs ! i else NaN)"

lemma js_at_Cons [simp]:
  "js_at (x # xs) 0 = x" "js_at (x # xs) (Suc i) = js_at xs i" "js_at [] i = NaN"
  by (simp_all add: js_at_def)

section \<open>Sets and maps in insertion order\<close>

definition set_add :: "'a \<Rightarrow> 'a list \<Rightarrow> 'a list" where
  "set_add x xs = (if x \<in> set xs then xs else xs @ [x])"

definition set_delete :: "'a \<Rightarrow> 'a list \<Rightarrow> 'a list" where
  "set_delete x xs = filter (\<lambda>y. y \<noteq> x) xs"

definition set_add_all :: "'a list \<Rightarrow> 'a list \<Rightarrow> 'a list" where
  "set_add_all ys xs = foldl (\<lambda>acc y. set_add y acc) xs ys"

lemma set_set_add [simp]: "set (set_add x xs) = insert x (set xs)"
  by (auto simp: set_add_def)

lemma distinct_set_add [simp]: "distinct (set_add x xs) = distinct xs"
  by (simp add: set_add_def)

lemma set_set_delete [simp]: "set (set_delete x xs) = set xs - {x}"
  by (auto simp: set_delete_def)

lemma distinct_set_delete [simp]: "distinct xs \<Longrightarrow> distinct (set_delete x xs)"
  by (simp add: set_delete_def)

lemma set_set_add_all [simp]: "set (set_add_all ys xs) = set xs \<union> set ys"
  unfolding set_add_all_def by (induction ys arbitrary: xs) auto

lemma distinct_set_add_all [simp]: "distinct (set_add_all ys xs) = distinct xs"
  unfolding set_add_all_def by (induction ys arbitrary: xs) auto

lemma set_add_all_Nil [simp]: "set_add_all [] xs = xs"
  by (simp add: set_add_all_def)

lemma set_add_all_Cons [simp]: "set_add_all (y # ys) xs = set_add_all ys (set_add y xs)"
  by (simp add: set_add_all_def)

text \<open>The contract of a JavaScript \<open>Set\<close>, with what its clients use of it.\<close>

locale js_set =
  fixes add :: "'a \<Rightarrow> 's \<Rightarrow> 's" and delete :: "'a \<Rightarrow> 's \<Rightarrow> 's"
    and elems :: "'s \<Rightarrow> 'a set" and wf :: "'s \<Rightarrow> bool"
  assumes elems_add: "wf s \<Longrightarrow> elems (add x s) = insert x (elems s)"
    and elems_delete: "wf s \<Longrightarrow> elems (delete x s) = elems s - {x}"
    and wf_add: "wf s \<Longrightarrow> wf (add x s)"
    and wf_delete: "wf s \<Longrightarrow> wf (delete x s)"
begin

lemma move_keeps_union:
  assumes "wf s" "wf t" "x \<in> elems s"
  shows "elems (delete x s) \<union> elems (add x t) = elems s \<union> elems t"
  using assms by (auto simp: elems_add elems_delete)

lemma move_keeps_disjoint:
  assumes "wf s" "wf t" "elems s \<inter> elems t = {}"
  shows "elems (delete x s) \<inter> elems (add x t) = {}"
  using assms by (auto simp: elems_add elems_delete)

lemma fold_add:
  "wf s \<Longrightarrow> wf (foldl (\<lambda>acc y. add y acc) s ys) \<and>
     elems (foldl (\<lambda>acc y. add y acc) s ys) = elems s \<union> set ys"
  by (induction ys arbitrary: s) (auto simp: elems_add wf_add)

end

interpretation lset: js_set set_add set_delete set distinct
  by unfold_locales auto

text \<open>Maps as association lists.\<close>

lemma update_fresh: "k \<notin> fst ` set al \<Longrightarrow> AList.update k v al = al @ [(k, v)]"
  by (induction al) auto

lemma AList_update_same: "map_of al k = Some v \<Longrightarrow> AList.update k v al = al"
  by (induction al) auto

lemma set_alist_delete: "set (AList.delete k al) = {p \<in> set al. fst p \<noteq> k}"
  by (auto simp: AList.delete_eq)

lemma set_alist_replace: "set (AList.update k v (AList.delete k al)) = insert (k, v) {p \<in> set al. fst p \<noteq> k}"
  unfolding update_fresh [OF delete_notin_dom] by (auto simp: set_alist_delete)

text \<open>
  Grouping into a \<open>Map\<close>: \<open>let e = m.get(k); if (!e) { e = create(x); m.set(k, e); } extend(e, x);\<close> for every element,
  where elements without a key are skipped.
\<close>

definition group_add :: "('x \<Rightarrow> 'k option) \<Rightarrow> ('x \<Rightarrow> 'e) \<Rightarrow> ('x \<Rightarrow> 'e \<Rightarrow> 'e) \<Rightarrow> ('k \<times> 'e) list \<Rightarrow> 'x \<Rightarrow> ('k \<times> 'e) list" where
  "group_add key create extend m x =
     (case key x of
        None \<Rightarrow> m
      | Some k \<Rightarrow> AList.update k (extend x (case map_of m k of Some e \<Rightarrow> e | None \<Rightarrow> create x)) m)"

definition group_fold :: "('x \<Rightarrow> 'k option) \<Rightarrow> ('x \<Rightarrow> 'e) \<Rightarrow> ('x \<Rightarrow> 'e \<Rightarrow> 'e) \<Rightarrow> 'x list \<Rightarrow> ('k \<times> 'e) list" where
  "group_fold key create extend xs = foldl (group_add key create extend) [] xs"

definition group_entry :: "('x \<Rightarrow> 'e) \<Rightarrow> ('x \<Rightarrow> 'e \<Rightarrow> 'e) \<Rightarrow> 'x list \<Rightarrow> 'e option" where
  "group_entry create extend ys = (case ys of [] \<Rightarrow> None | y # _ \<Rightarrow> Some (foldl (\<lambda>e x. extend x e) (create y) ys))"

lemma group_entry_snoc:
  "group_entry create extend (ys @ [x]) =
     Some (extend x (case group_entry create extend ys of Some e \<Rightarrow> e | None \<Rightarrow> create x))"
  by (cases ys) (simp_all add: group_entry_def)

lemma group_fold_snoc: "group_fold key create extend (xs @ [x]) = group_add key create extend (group_fold key create extend xs) x"
  by (simp add: group_fold_def)

lemma group_fold_distinct [simp]: "distinct (map fst (group_fold key create extend xs))"
proof (induction xs rule: rev_induct)
  case (snoc x xs)
  then show ?case by (simp add: group_fold_snoc group_add_def distinct_update split: option.split)
qed (simp add: group_fold_def)

text \<open>The entry of a key is made from the elements with that key, in their order.\<close>

lemma group_fold_lookup:
  "map_of (group_fold key create extend xs) k = group_entry create extend (filter (\<lambda>x. key x = Some k) xs)"
proof (induction xs rule: rev_induct)
  case Nil
  then show ?case by (simp add: group_fold_def group_entry_def)
next
  case (snoc x xs)
  then show ?case
    by (cases "key x") (auto simp: group_fold_snoc group_add_def update_conv' group_entry_snoc)
qed

lemma group_fold_keys: "fst ` set (group_fold key create extend xs) = {k. \<exists>x \<in> set xs. key x = Some k}"
proof -
  have "k \<in> fst ` set (group_fold key create extend xs) \<longleftrightarrow> map_of (group_fold key create extend xs) k \<noteq> None" for k
    by (simp add: map_of_eq_None_iff)
  also have "\<dots> k \<longleftrightarrow> filter (\<lambda>x. key x = Some k) xs \<noteq> []" for k
    by (simp add: group_fold_lookup group_entry_def split: list.split)
  finally show ?thesis by (auto simp: filter_empty_conv)
qed

section \<open>Bounded histories and linear searches\<close>

text \<open>\<open>xs.push(x); if (xs.length > cap) xs.shift();\<close>\<close>

definition push_bounded :: "nat \<Rightarrow> 'a \<Rightarrow> 'a list \<Rightarrow> 'a list" where
  "push_bounded cap x xs = (let ys = xs @ [x] in if length ys > cap then tl ys else ys)"

lemma push_bounded_length: "length xs \<le> cap \<Longrightarrow> length (push_bounded cap x xs) \<le> cap"
  by (auto simp: push_bounded_def Let_def)

lemma push_bounded_set: "set (push_bounded cap x xs) \<subseteq> insert x (set xs)"
  by (cases xs) (auto simp: push_bounded_def Let_def)

lemma push_bounded_nonempty: "0 < cap \<Longrightarrow> push_bounded cap x xs \<noteq> []"
  by (cases xs) (auto simp: push_bounded_def Let_def)

lemma push_bounded_last: "0 < cap \<Longrightarrow> last (push_bounded cap x xs) = x"
  by (cases xs) (auto simp: push_bounded_def Let_def)

text \<open>
  \<open>for (i = from; ...) { if (d[i] < best) { best = d[i]; bestIndex = i; } }\<close>: the pair of the best
  value and its index after the scan. A \<open>NaN\<close> never replaces the best value.
\<close>

fun scan_min :: "nat \<Rightarrow> jsnum list \<Rightarrow> jsnum \<times> nat option \<Rightarrow> jsnum \<times> nat option" where
  "scan_min i [] acc = acc"
| "scan_min i (d # ds) (best, bi) =
     scan_min (Suc i) ds (if d < best then (d, Some i) else (best, bi))"

lemma jsnum_not_less_trans:
  fixes a b c :: jsnum
  assumes "b < c" "\<not> a < c" shows "\<not> a < b"
  using assms by (cases a; cases b; cases c) auto

lemma jsnum_not_less_refl [simp]: "\<not> (a :: jsnum) < a"
  by (cases a) auto

lemma scan_min_best:
  assumes "scan_min i ds (best, bi) = (m, k)"
  shows "(\<forall>d \<in> set ds. \<not> d < m) \<and> (\<forall>a. \<not> a < best \<longrightarrow> \<not> a < m)"
  using assms
proof (induction ds arbitrary: i best bi)
  case Nil
  then show ?case by simp
next
  case (Cons d ds)
  show ?case
  proof (cases "d < best")
    case True
    with Cons.prems have "scan_min (Suc i) ds (d, Some i) = (m, k)" by simp
    from Cons.IH [OF this] have IH: "\<forall>e \<in> set ds. \<not> e < m" "\<And>a. \<not> a < d \<Longrightarrow> \<not> a < m"
      by auto
    have "\<not> a < m" if "\<not> a < best" for a
      using IH(2) [of a] jsnum_not_less_trans [OF True that] by blast
    with IH show ?thesis by simp
  next
    case False
    with Cons.prems have "scan_min (Suc i) ds (best, bi) = (m, k)" by simp
    from Cons.IH [OF this] False show ?thesis by auto
  qed
qed

lemma scan_min_index:
  assumes "scan_min i ds (best, bi) = (m, k)"
  shows "k = bi \<and> m = best \<or>
    (\<exists>j < length ds. k = Some (i + j) \<and> m = ds ! j \<and> m < best)"
  using assms
proof (induction ds arbitrary: i best bi)
  case Nil
  then show ?case by simp
next
  case (Cons d ds)
  show ?case
  proof (cases "d < best")
    case True
    with Cons.prems have "scan_min (Suc i) ds (d, Some i) = (m, k)" by simp
    from Cons.IH [OF this] consider "k = Some i" "m = d"
      | j where "j < length ds" "k = Some (Suc i + j)" "m = ds ! j" "m < d" by blast
    then show ?thesis
    proof cases
      case 1
      then show ?thesis using True by auto
    next
      case (2 j)
      have "m < best" using 2(4) True by (cases m; cases d; cases best) auto
      then show ?thesis using 2 by (intro disjI2 exI [of _ "Suc j"]) auto
    qed
  next
    case False
    with Cons.prems have "scan_min (Suc i) ds (best, bi) = (m, k)" by simp
    from Cons.IH [OF this] show ?thesis by (auto intro: exI [of _ "Suc _"])
  qed
qed

section \<open>Printing integers\<close>

fun nat_digits :: "nat \<Rightarrow> string" where
  "nat_digits n = (if n < 10 then [char_of (48 + n)]
                   else nat_digits (n div 10) @ [char_of (48 + n mod 10)])"

declare nat_digits.simps [simp del]

definition js_int :: "int \<Rightarrow> string" where
  "js_int z = (if z < 0 then ''-'' @ nat_digits (nat (- z)) else nat_digits (nat z))"

fun digits_val :: "string \<Rightarrow> nat" where
  "digits_val cs = foldl (\<lambda>n c. 10 * n + (of_char c - 48)) 0 cs"

lemma digits_val_nat_digits: "digits_val (nat_digits n) = n"
proof (induction n rule: nat_digits.induct)
  case (1 n)
  show ?case
  proof (cases "n < 10")
    case True
    then show ?thesis by (subst nat_digits.simps) simp
  next
    case False
    with 1 have "digits_val (nat_digits (n div 10)) = n div 10" by simp
    with False show ?thesis by (subst nat_digits.simps) simp
  qed
qed

lemma nat_digits_inject [simp]: "nat_digits m = nat_digits n \<longleftrightarrow> m = n"
  by (metis digits_val_nat_digits)

lemma nat_digits_chars: "c \<in> set (nat_digits n) \<Longrightarrow> 48 \<le> (of_char c :: nat) \<and> (of_char c :: nat) \<le> 57"
proof (induction n rule: nat_digits.induct)
  case (1 n)
  show ?case
  proof (cases "n < 10")
    case True
    with "1.prems" show ?thesis by (subst (asm) nat_digits.simps) auto
  next
    case False
    with "1.prems" have "c \<in> set (nat_digits (n div 10)) \<or> c = char_of (48 + n mod 10)"
      by (subst (asm) nat_digits.simps) auto
    then show ?thesis using "1.IH" [OF False] by auto
  qed
qed

lemma nat_digits_no_sign: "''-'' @ xs \<noteq> nat_digits n" "nat_digits n \<noteq> ''-'' @ xs"
proof -
  have "CHR ''-'' \<notin> set (nat_digits n)" using nat_digits_chars by fastforce
  then show "''-'' @ xs \<noteq> nat_digits n" "nat_digits n \<noteq> ''-'' @ xs"
    by (metis append_Cons list.set_intros(1))+
qed

lemma js_int_inject [simp]: "js_int a = js_int b \<longleftrightarrow> a = b"
  using nat_digits_no_sign by (auto simp: js_int_def)

lemma js_int_no_comma: "CHR '','' \<notin> set (js_int z)"
  using nat_digits_chars [of "CHR '','' "] by (auto simp: js_int_def)

text \<open>\<open>s.includes(t)\<close> and \<open>s.startsWith(t)\<close> for strings.\<close>

definition starts_with :: "string \<Rightarrow> string \<Rightarrow> bool" where
  "starts_with s t \<longleftrightarrow> take (length t) s = t"

fun str_includes :: "string \<Rightarrow> string \<Rightarrow> bool" where
  "str_includes [] t = (t = [])"
| "str_includes (c # s) t = (starts_with (c # s) t \<or> str_includes s t)"

text \<open>\<open>s.toLowerCase()\<close> for the letters of ASCII.\<close>

definition to_lower :: "char \<Rightarrow> char" where
  "to_lower c = (let n = of_char c :: nat in if 65 \<le> n \<and> n \<le> 90 then char_of (n + 32) else c)"

definition str_lower :: "string \<Rightarrow> string" where
  "str_lower s = map to_lower s"

text \<open>\<open>s.trim()\<close> for the white space of ASCII.\<close>

definition is_space :: "char \<Rightarrow> bool" where
  "is_space c \<longleftrightarrow> (of_char c :: nat) \<in> {9, 10, 11, 12, 13, 32}"

definition trim :: "string \<Rightarrow> string" where
  "trim s = rev (dropWhile is_space (rev (dropWhile is_space s)))"

text \<open>Reading decimal numbers: digits, an optional sign, and \<open>Number.parseInt(s, 10)\<close> (\<open>None\<close> for \<open>NaN\<close>).\<close>

definition is_digit :: "char \<Rightarrow> bool" where
  "is_digit c \<longleftrightarrow> 48 \<le> (of_char c :: nat) \<and> (of_char c :: nat) \<le> 57"

fun read_sign :: "string \<Rightarrow> bool \<times> string" where
  "read_sign (c # s) = (if c = CHR ''-'' then (True, s) else if c = CHR ''+'' then (False, s) else (False, c # s))"
| "read_sign [] = (False, [])"

definition parse_int :: "string \<Rightarrow> int option" where
  "parse_int s0 =
     (let (neg, s) = read_sign (dropWhile is_space s0); ds = takeWhile is_digit s
      in if ds = [] then None else Some (if neg then - int (digits_val ds) else int (digits_val ds)))"

lemma nat_digits_nonempty [simp]: "nat_digits n \<noteq> []"
  by (subst nat_digits.simps) simp

lemma digit_char: "is_digit c \<Longrightarrow> \<not> is_space c \<and> c \<noteq> CHR ''-'' \<and> c \<noteq> CHR ''+''"
  by (auto simp: is_digit_def is_space_def)

lemma nat_digits_digits: "\<forall>c \<in> set (nat_digits n). is_digit c"
  using nat_digits_chars by (auto simp: is_digit_def)

lemma foldl_Fin: "foldl (+) (Fin a) (map Fin xs) = Fin (a + sum_list xs)"
  by (induction xs arbitrary: a) (simp_all add: add.assoc)

text \<open>\<open>s.padStart(n, c)\<close> for a single character.\<close>

definition pad_start :: "nat \<Rightarrow> char \<Rightarrow> string \<Rightarrow> string" where
  "pad_start n c s = replicate (n - length s) c @ s"

text \<open>\<open>s.split(c)\<close> for a single character.\<close>

fun split_at :: "char \<Rightarrow> string \<Rightarrow> string list" where
  "split_at c [] = [[]]"
| "split_at c (x # xs) =
     (if x = c then [] # split_at c xs
      else case split_at c xs of [] \<Rightarrow> [[x]] | w # ws \<Rightarrow> (x # w) # ws)"

text \<open>\<open>xs.join(c)\<close> for a single character.\<close>

fun join_with :: "char \<Rightarrow> string list \<Rightarrow> string" where
  "join_with c [] = []"
| "join_with c [x] = x"
| "join_with c (x # y # ys) = x @ c # join_with c (y # ys)"

lemma split_at_not_Nil [simp]: "split_at c s \<noteq> []"
  by (induction s) (auto split: list.split)

lemma split_at_prefix: "c \<notin> set x \<Longrightarrow> split_at c (x @ c # r) = x # split_at c r"
  by (induction x) auto

lemma split_at_plain: "c \<notin> set x \<Longrightarrow> split_at c x = [x]"
  by (induction x) auto

lemma split_join: "xs \<noteq> [] \<Longrightarrow> \<forall>x \<in> set xs. c \<notin> set x \<Longrightarrow> split_at c (join_with c xs) = xs"
  by (induction c xs rule: join_with.induct) (auto simp: split_at_prefix split_at_plain)

section \<open>Exceptions\<close>

text \<open>A handler that may throw: it ends normally, or with an error at the state reached so far.\<close>

datatype 's outcome = Done 's | Raised string 's

fun outcome_state :: "'s outcome \<Rightarrow> 's" where
  "outcome_state (Done s) = s"
| "outcome_state (Raised _ s) = s"

section \<open>Event systems\<close>

inductive reach :: "('s \<Rightarrow> bool) \<Rightarrow> ('s \<Rightarrow> 'e \<Rightarrow> 's \<Rightarrow> bool) \<Rightarrow> 's \<Rightarrow> bool"
  for init :: "'s \<Rightarrow> bool" and step :: "'s \<Rightarrow> 'e \<Rightarrow> 's \<Rightarrow> bool"
where
  reach_init: "init s \<Longrightarrow> reach init step s"
| reach_step: "reach init step s \<Longrightarrow> step s e t \<Longrightarrow> reach init step t"

locale event_system =
  fixes init :: "'s \<Rightarrow> bool" and step :: "'s \<Rightarrow> 'e \<Rightarrow> 's \<Rightarrow> bool" and inv :: "'s \<Rightarrow> bool"
  assumes init_inv: "init s \<Longrightarrow> inv s"
    and step_inv: "inv s \<Longrightarrow> step s e t \<Longrightarrow> inv t"
begin

theorem reachable_inv: "reach init step s \<Longrightarrow> inv s"
  by (induction rule: reach.induct) (auto intro: init_inv step_inv)

end

end
