(* ===== verification/GeoMath.thy ===== *)
theory GeoMath
  imports JSBase
begin

text \<open>
  The geometry of \<open>static/js/modules/utils/geo-math.js\<close> and
  \<open>static/js/modules/live-navigation/live-navigation-geo.js\<close>: distances, bearings, the local planar
  projection, the projection of a point on a segment, and the classification of turns.
  A coordinate is the array \<open>[lon, lat]\<close> of the source, a list of numbers; reading past its end is
  \<open>undefined\<close>, that is \<open>NaN\<close>.
  The lemmas show that the formulas are total on finite coordinates (no square root of a negative
  number), their ranges, and that the projection is the closest point of the segment.
\<close>

type_synonym coord = "jsnum list"

definition finite_coord :: "coord \<Rightarrow> bool" where
  "finite_coord c \<longleftrightarrow> is_finite (js_at c 0) \<and> is_finite (js_at c 1)"

section \<open>Definitions\<close>

fun atan2_real :: "real \<Rightarrow> real \<Rightarrow> real" where
  "atan2_real y x =
     (if x > 0 then arctan (y / x)
      else if x < 0 then (if y \<ge> 0 then arctan (y / x) + pi else arctan (y / x) - pi)
      else if y > 0 then pi / 2 else if y < 0 then - (pi / 2) else 0)"

fun js_atan2 :: "jsnum \<Rightarrow> jsnum \<Rightarrow> jsnum" where
  "js_atan2 (Fin y) (Fin x) = Fin (atan2_real y x)"
| "js_atan2 NaN _ = NaN"
| "js_atan2 _ NaN = NaN"
| "js_atan2 PInf (Fin x) = Fin (pi / 2)"
| "js_atan2 NInf (Fin x) = Fin (- (pi / 2))"
| "js_atan2 (Fin y) PInf = Fin 0"
| "js_atan2 (Fin y) NInf = Fin (if y \<ge> 0 then pi else - pi)"
| "js_atan2 PInf PInf = Fin (pi / 4)"
| "js_atan2 PInf NInf = Fin (3 * pi / 4)"
| "js_atan2 NInf PInf = Fin (- (pi / 4))"
| "js_atan2 NInf NInf = Fin (- (3 * pi / 4))"

fun js_hypot :: "jsnum \<Rightarrow> jsnum \<Rightarrow> jsnum" where
  "js_hypot (Fin a) (Fin b) = Fin (sqrt (a\<^sup>2 + b\<^sup>2))"
| "js_hypot a b = (if a = PInf \<or> a = NInf \<or> b = PInf \<or> b = NInf then PInf else NaN)"

definition EARTH_RADIUS_M :: jsnum where
  "EARTH_RADIUS_M = 6371000"

definition toRad :: "jsnum \<Rightarrow> jsnum" where
  "toRad deg = deg * (Fin pi / 180)"

definition toDeg :: "jsnum \<Rightarrow> jsnum" where
  "toDeg rad = rad * (180 / Fin pi)"

definition haversineDistance :: "jsnum \<Rightarrow> jsnum \<Rightarrow> jsnum \<Rightarrow> jsnum \<Rightarrow> jsnum" where
  "haversineDistance lat1 lon1 lat2 lon2 =
     (let dLat = toRad (lat2 - lat1);
          dLon = toRad (lon2 - lon1);
          rLat1 = toRad lat1;
          rLat2 = toRad lat2;
          h = js_lift sin (dLat / 2) * js_lift sin (dLat / 2) +
              js_lift cos rLat1 * js_lift cos rLat2 * js_lift sin (dLon / 2) * js_lift sin (dLon / 2)
      in 2 * EARTH_RADIUS_M * js_atan2 (js_sqrt h) (js_sqrt (1 - h)))"

definition bearing_deg :: "jsnum \<Rightarrow> jsnum \<Rightarrow> jsnum \<Rightarrow> jsnum \<Rightarrow> jsnum" where
  "bearing_deg lat1 lon1 lat2 lon2 =
     (let rLat1 = toRad lat1;
          rLat2 = toRad lat2;
          dLon = toRad (lon2 - lon1);
          y = js_lift sin dLon * js_lift cos rLat2;
          x = js_lift cos rLat1 * js_lift sin rLat2 -
              js_lift sin rLat1 * js_lift cos rLat2 * js_lift cos dLon
      in js_mod (toDeg (js_atan2 y x) + 360) 360)"

definition toXY :: "coord \<Rightarrow> jsnum \<Rightarrow> jsnum \<times> jsnum" where
  "toXY c refLat =
     (let lat = toRad (js_at c 1);
          lon = toRad (js_at c 0);
          x = lon * js_lift cos (toRad refLat) * EARTH_RADIUS_M;
          y = lat * EARTH_RADIUS_M
      in (x, y))"

record projection =
  proj_distance :: jsnum
  proj_t :: jsnum
  proj_point :: coord

definition projectToSegment :: "coord \<Rightarrow> coord \<Rightarrow> coord \<Rightarrow> projection" where
  "projectToSegment point a b =
     (let refLat = (js_at a 1 + js_at b 1) / 2;
          (px, py) = toXY point refLat;
          (p1x, p1y) = toXY a refLat;
          (p2x, p2y) = toXY b refLat;
          dx = p2x - p1x;
          dy = p2y - p1y;
          lenSq = dx * dx + dy * dy;
          t = (if lenSq > 0
               then js_min 1 (js_max 0 (((px - p1x) * dx + (py - p1y) * dy) / lenSq))
               else 0);
          projX = p1x + t * dx;
          projY = p1y + t * dy;
          distance = js_hypot (px - projX) (py - projY);
          projLng = js_at a 0 + t * (js_at b 0 - js_at a 0);
          projLat = js_at a 1 + t * (js_at b 1 - js_at a 1)
      in \<lparr>proj_distance = distance, proj_t = t, proj_point = [projLng, projLat]\<rparr>)"

definition angleDelta :: "jsnum \<Rightarrow> jsnum \<Rightarrow> jsnum" where
  "angleDelta from to = js_mod (to - from + 540) 360 - 180"

definition MPS_TO_MPH :: jsnum where
  "MPS_TO_MPH = Fin (223694 / 100000)"

definition MI_TO_M :: jsnum where
  "MI_TO_M = Fin (1609344 / 1000)"

definition distanceMeters :: "coord \<Rightarrow> coord \<Rightarrow> jsnum" where
  "distanceMeters a b = haversineDistance (js_at a 1) (js_at a 0) (js_at b 1) (js_at b 0)"

definition bearing :: "coord \<Rightarrow> coord \<Rightarrow> jsnum" where
  "bearing a b = bearing_deg (js_at a 1) (js_at a 0) (js_at b 1) (js_at b 0)"

definition distanceToLineString :: "coord \<Rightarrow> coord list \<Rightarrow> jsnum" where
  "distanceToLineString point lineCoords =
     foldl (\<lambda>minDistance i.
        let proj = projectToSegment point (lineCoords ! i) (lineCoords ! (i + 1))
        in if proj_distance proj < minDistance then proj_distance proj else minDistance)
       PInf [0 ..< length lineCoords - 1]"

definition classifyTurn :: "jsnum \<Rightarrow> string" where
  "classifyTurn delta =
     (let uturn = 150; sharp = 100; turn = 50; slight = 25; a = js_abs delta in
      if a > uturn then ''uturn''
      else if a > sharp then (if delta > 0 then ''sharp-right'' else ''sharp-left'')
      else if a > turn then (if delta > 0 then ''right'' else ''left'')
      else if a > slight then (if delta > 0 then ''slight-right'' else ''slight-left'')
      else ''straight'')"

definition INSTRUCTION_LABELS :: "(string \<times> string) list" where
  "INSTRUCTION_LABELS =
     [(''depart'', ''Head out on route''), (''arrive'', ''Arrive at destination''),
      (''sharp-left'', ''Sharp left''), (''sharp-right'', ''Sharp right''),
      (''left'', ''Turn left''), (''right'', ''Turn right''),
      (''slight-left'', ''Bear left''), (''slight-right'', ''Bear right''),
      (''uturn'', ''Make a U-turn''), (''straight'', ''Continue straight'')]"

definition TURN_ROTATIONS :: "(string \<times> int) list" where
  "TURN_ROTATIONS =
     [(''depart'', 0), (''straight'', 0), (''slight-left'', -45), (''slight-right'', 45),
      (''left'', -90), (''right'', 90), (''sharp-left'', -135), (''sharp-right'', 135),
      (''uturn'', 180), (''arrive'', 180)]"

definition getInstructionText :: "string \<Rightarrow> string" where
  "getInstructionText type =
     (case map_of INSTRUCTION_LABELS type of Some s \<Rightarrow> s | None \<Rightarrow> ''Continue'')"

definition getTurnRotation :: "string \<Rightarrow> int" where
  "getTurnRotation type = (case map_of TURN_ROTATIONS type of Some r \<Rightarrow> r | None \<Rightarrow> 0)"

section \<open>Reduction to the reals\<close>

definition rad :: "real \<Rightarrow> real" where
  "rad d = d * (pi / 180)"

lemma rad_diff: "rad (a - b) = rad a - rad b"
  unfolding rad_def by (rule left_diff_distrib)

lemma toRad_Fin [simp]: "toRad (Fin d) = Fin (rad d)"
  by (simp add: toRad_def rad_def)

lemma toDeg_Fin [simp]: "toDeg (Fin r) = Fin (r * (180 / pi))"
  by (simp add: toDeg_def)

definition hav :: "real \<Rightarrow> real \<Rightarrow> real \<Rightarrow> real \<Rightarrow> real" where
  "hav lat1 lon1 lat2 lon2 =
     (sin (rad (lat2 - lat1) / 2))\<^sup>2 +
     cos (rad lat1) * cos (rad lat2) * (sin (rad (lon2 - lon1) / 2))\<^sup>2"

text \<open>The angle between two unit vectors: their scalar product is at most one.\<close>

lemma unit_dot_bound:
  fixes a b k :: real
  assumes "\<bar>k\<bar> \<le> 1"
  shows "\<bar>sin a * sin b + cos a * cos b * k\<bar> \<le> 1"
proof -
  have tri: "\<bar>sin a * sin b + cos a * cos b * k\<bar> \<le> \<bar>sin a * sin b\<bar> + \<bar>cos a * cos b\<bar> * \<bar>k\<bar>"
    by (metis abs_mult abs_triangle_ineq)
  have "\<bar>cos a * cos b\<bar> * \<bar>k\<bar> \<le> \<bar>cos a * cos b\<bar>"
    using assms by (simp add: mult_left_le)
  moreover have "\<bar>sin a * sin b\<bar> + \<bar>cos a * cos b\<bar> = max \<bar>cos (a - b)\<bar> \<bar>cos (a + b)\<bar>"
    unfolding cos_diff cos_add by (auto simp: abs_if max_def)
  ultimately have "\<bar>sin a * sin b + cos a * cos b * k\<bar> \<le> max \<bar>cos (a - b)\<bar> \<bar>cos (a + b)\<bar>"
    using tri by linarith
  also have "\<dots> \<le> 1" by simp
  finally show ?thesis .
qed

lemma hav_dot:
  "1 - 2 * hav lat1 lon1 lat2 lon2 =
     sin (rad lat2) * sin (rad lat1) + cos (rad lat2) * cos (rad lat1) * cos (rad (lon2 - lon1))"
proof -
  have half: "(sin (x / 2))\<^sup>2 = (1 - cos x) / 2" for x :: real
    using cos_double_sin [of "x / 2"] by simp
  have d: "cos (rad (lat2 - lat1)) = cos (rad lat2) * cos (rad lat1) + sin (rad lat2) * sin (rad lat1)"
    unfolding rad_diff by (rule cos_diff)
  show ?thesis
    unfolding hav_def half d by (simp add: field_simps)
qed

lemma hav_range: "0 \<le> hav lat1 lon1 lat2 lon2" "hav lat1 lon1 lat2 lon2 \<le> 1"
proof -
  have "\<bar>1 - 2 * hav lat1 lon1 lat2 lon2\<bar> \<le> 1"
    unfolding hav_dot by (rule unit_dot_bound) simp
  then show "0 \<le> hav lat1 lon1 lat2 lon2" "hav lat1 lon1 lat2 lon2 \<le> 1" by linarith+
qed

definition hav_metres :: "real \<Rightarrow> real \<Rightarrow> real \<Rightarrow> real \<Rightarrow> real" where
  "hav_metres lat1 lon1 lat2 lon2 =
     (let h = hav lat1 lon1 lat2 lon2 in 2 * 6371000 * atan2_real (sqrt h) (sqrt (1 - h)))"

lemma haversine_Fin:
  "haversineDistance (Fin lat1) (Fin lon1) (Fin lat2) (Fin lon2) = Fin (hav_metres lat1 lon1 lat2 lon2)"
proof -
  let ?h = "hav lat1 lon1 lat2 lon2"
  have "0 \<le> ?h" "?h \<le> 1" by (rule hav_range)+
  then have "js_sqrt (Fin ?h) = Fin (sqrt ?h)" "js_sqrt (1 - Fin ?h) = Fin (sqrt (1 - ?h))"
    by (simp_all add: js_sqrt_def)
  moreover have "Fin (sin (rad (lat2 - lat1) / 2)) * Fin (sin (rad (lat2 - lat1) / 2)) +
      Fin (cos (rad lat1)) * Fin (cos (rad lat2)) * Fin (sin (rad (lon2 - lon1) / 2)) *
      Fin (sin (rad (lon2 - lon1) / 2)) = Fin ?h"
    by (simp add: hav_def power2_eq_square)
  ultimately show ?thesis
    by (simp add: haversineDistance_def EARTH_RADIUS_M_def hav_metres_def Let_def
      del: plus_jsnum.simps times_jsnum.simps(1)) simp
qed

lemma atan2_quadrant:
  assumes "0 \<le> y" "0 \<le> x"
  shows "0 \<le> atan2_real y x" "atan2_real y x \<le> pi / 2"
  using assms arctan_ubound [of "y / x"] by (auto simp: zero_le_arctan_iff intro: less_imp_le)

lemma hav_metres_range: "0 \<le> hav_metres a b c d" "hav_metres a b c d \<le> 6371000 * pi"
proof -
  let ?h = "hav a b c d"
  have h: "0 \<le> sqrt ?h" "0 \<le> sqrt (1 - ?h)" using hav_range [of a b c d] by simp_all
  show "0 \<le> hav_metres a b c d"
    using atan2_quadrant(1) [OF h] by (simp add: hav_metres_def Let_def del: atan2_real.simps)
  show "hav_metres a b c d \<le> 6371000 * pi"
    using atan2_quadrant(2) [OF h] by (simp add: hav_metres_def Let_def del: atan2_real.simps)
qed

lemma hav_sym: "hav lat1 lon1 lat2 lon2 = hav lat2 lon2 lat1 lon1"
proof -
  have "rad (x - y) / 2 = - (rad (y - x) / 2)" for x y
    by (metis minus_diff_eq divide_minus_left rad_diff)
  then have "(sin (rad (x - y) / 2))\<^sup>2 = (sin (rad (y - x) / 2))\<^sup>2" for x y
    by (metis power2_minus sin_minus)
  then show ?thesis unfolding hav_def by (metis mult.commute)
qed

lemma hav_metres_sym: "hav_metres lat1 lon1 lat2 lon2 = hav_metres lat2 lon2 lat1 lon1"
  unfolding hav_metres_def by (subst hav_sym) (rule refl)

lemma hav_metres_refl: "hav_metres lat lon lat lon = 0"
  by (simp add: hav_metres_def hav_def rad_def)

definition dist_m :: "coord \<Rightarrow> coord \<Rightarrow> real" where
  "dist_m a b = (case distanceMeters a b of Fin d \<Rightarrow> d | _ \<Rightarrow> 0)"

lemma distanceMeters_Fin:
  assumes "finite_coord a" "finite_coord b"
  shows "distanceMeters a b = Fin (dist_m a b)" "0 \<le> dist_m a b"
  using assms hav_metres_range(1)
  by (auto simp: finite_coord_def is_finite_iff distanceMeters_def dist_m_def haversine_Fin)


section \<open>Distances and bearings\<close>

text \<open>
  On finite coordinates \<open>distanceMeters\<close> is a finite number (neither square root of the
  haversine formula sees a negative argument), between 0 and half the circumference of the earth,
  symmetric, and 0 between a point and itself.
\<close>

theorem distanceMeters_metric:
  assumes "finite_coord a" "finite_coord b"
  shows "is_finite (distanceMeters a b) \<and> 0 \<le> distanceMeters a b \<and>
    distanceMeters a b \<le> EARTH_RADIUS_M * Fin pi \<and>
    distanceMeters a b = distanceMeters b a \<and> distanceMeters a a = 0"
  using assms hav_metres_range
  by (auto simp: finite_coord_def is_finite_iff distanceMeters_def haversine_Fin EARTH_RADIUS_M_def
      hav_metres_refl intro: hav_metres_sym)

theorem distanceMeters_metric_witness:
  "finite_coord [10, 20] \<and> finite_coord [11, 21] \<and> is_finite (distanceMeters [10, 20] [11, 21])"
proof -
  have f: "finite_coord [10, 20]" "finite_coord [11, 21]"
    by (simp_all add: finite_coord_def)
  show ?thesis using f distanceMeters_metric [OF f] by blast
qed

lemma atan2_range: "- pi < atan2_real y x" "atan2_real y x \<le> pi"
proof -
  have b: "- (pi / 2) < arctan (y / x)" "arctan (y / x) < pi / 2"
    by (rule arctan_bounded [THEN conjunct1] arctan_bounded [THEN conjunct2])+
  have s: "x < 0 \<Longrightarrow> y \<ge> 0 \<Longrightarrow> arctan (y / x) \<le> 0" "x < 0 \<Longrightarrow> y < 0 \<Longrightarrow> 0 < arctan (y / x)"
    by (simp_all add: arctan_le_zero_iff zero_less_arctan_iff divide_nonneg_neg divide_neg_neg)
  show "- pi < atan2_real y x" "atan2_real y x \<le> pi"
    using b s pi_gt_zero by (auto simp del: pi_gt_zero)
qed

lemma bearing_Fin:
  assumes "finite_coord a" "finite_coord b"
  shows "\<exists>r. bearing a b = Fin r \<and> 0 \<le> r \<and> r < 360"
proof -
  obtain y x where "bearing a b = js_mod (Fin (atan2_real y x * (180 / pi)) + 360) 360"
    using assms by (auto simp: finite_coord_def is_finite_iff bearing_def bearing_deg_def Let_def
      simp del: atan2_real.simps)
  moreover have "- 180 \<le> atan2_real y x * (180 / pi)"
    using atan2_range(1) [of y x] by (simp add: field_simps del: atan2_real.simps)
  ultimately show ?thesis
    using js_rem_pos [of "atan2_real y x * (180 / pi) + 360" 360] by (simp del: atan2_real.simps)
qed

lemma js_rem_cong: "b \<noteq> 0 \<Longrightarrow> \<exists>k :: int. js_rem a b = a + b * of_int k"
  by (auto simp: js_rem_def Let_def intro: exI [of _ "- \<lceil>a / b\<rceil>"] exI [of _ "- \<lfloor>a / b\<rfloor>"])

text \<open>
  The turn angle computed between two bearings of finite coordinates is in the range from -180
  (included) to 180 (excluded) degrees and differs from the difference of the bearings by a whole
  number of turns, so \<open>buildManeuvers\<close> classifies the signed angle of the turn itself.
\<close>

theorem angleDelta_bearings:
  assumes "finite_coord a" "finite_coord b" "finite_coord c" "finite_coord d"
  shows "\<exists>r p q (k :: int). bearing a b = Fin p \<and> bearing c d = Fin q \<and>
    angleDelta (bearing a b) (bearing c d) = Fin r \<and> - 180 \<le> r \<and> r < 180 \<and>
    r = q - p + 360 * of_int k"
proof -
  obtain p q where pq: "bearing a b = Fin p" "0 \<le> p" "p < 360"
      "bearing c d = Fin q" "0 \<le> q" "q < 360"
    using bearing_Fin [OF assms(1,2)] bearing_Fin [OF assms(3,4)] by blast
  obtain k :: int where "js_rem (q - p + 540) 360 = q - p + 540 + 360 * of_int k"
    using js_rem_cong [of 360 "q - p + 540"] by auto
  then have "js_rem (q - p + 540) 360 - 180 = q - p + 360 * of_int (k + 1)" by simp
  moreover have "0 \<le> js_rem (q - p + 540) 360 \<and> js_rem (q - p + 540) 360 < 360"
    using pq by (intro js_rem_pos) auto
  ultimately show ?thesis
    using pq by (intro exI [of _ "js_rem (q - p + 540) 360 - 180"] exI [of _ p] exI [of _ q]
      exI [of _ "k + 1"]) (simp add: angleDelta_def)
qed

theorem angleDelta_bearings_witness:
  "finite_coord [0, 0] \<and> finite_coord [0, 1] \<and> finite_coord [1, 1] \<and>
   (\<exists>r. angleDelta (bearing [0, 0] [0, 1]) (bearing [0, 1] [1, 1]) = Fin r \<and> r < 180)"
proof -
  have f: "finite_coord [0, 0]" "finite_coord [0, 1]" "finite_coord [1, 1]"
    by (simp_all add: finite_coord_def)
  show ?thesis using f angleDelta_bearings [OF f(1,2,2,3)] by blast
qed


section \<open>Projection on a segment\<close>

definition clamp_t :: "real \<Rightarrow> real \<Rightarrow> real \<Rightarrow> real \<Rightarrow> real" where
  "clamp_t ux uy dx dy =
     (let L = dx * dx + dy * dy in if L > 0 then min 1 (max 0 ((ux * dx + uy * dy) / L)) else 0)"

lemma clamp_t_range: "0 \<le> clamp_t ux uy dx dy" "clamp_t ux uy dx dy \<le> 1"
  by (simp_all add: clamp_t_def Let_def)

lemma clamped_quadratic:
  fixes q s :: real
  assumes "0 \<le> s" "s \<le> 1"
  defines "t \<equiv> min 1 (max 0 q)"
  shows "0 \<le> (s - t) * (s + t - 2 * q)"
proof -
  consider "q \<le> 0" | "q \<ge> 1" | "0 < q" "q < 1" by linarith
  then show ?thesis
  proof cases
    case 1
    then have "t = 0" by (simp add: t_def)
    then show ?thesis using 1 assms by simp
  next
    case 2
    then have "t = 1" by (simp add: t_def)
    then show ?thesis using 2 assms(1,2) by (simp add: mult_nonpos_nonpos)
  next
    case 3
    then have "t = q" by (simp add: t_def)
    then have "(s - t) * (s + t - 2 * q) = (s - q) * (s - q)" by simp
    then show ?thesis by simp
  qed
qed

lemma clamp_t_optimal:
  fixes ux uy dx dy s :: real
  assumes "0 \<le> s" "s \<le> 1"
  defines "t \<equiv> clamp_t ux uy dx dy"
  shows "(ux - t * dx)\<^sup>2 + (uy - t * dy)\<^sup>2 \<le> (ux - s * dx)\<^sup>2 + (uy - s * dy)\<^sup>2"
proof (cases "dx * dx + dy * dy > 0")
  case True
  define L where "L = dx * dx + dy * dy"
  define m where "m = ux * dx + uy * dy"
  have L: "L > 0" and t: "t = min 1 (max 0 (m / L))"
    using True by (simp_all add: L_def m_def t_def clamp_t_def Let_def)
  have "(ux - s * dx)\<^sup>2 + (uy - s * dy)\<^sup>2 - ((ux - t * dx)\<^sup>2 + (uy - t * dy)\<^sup>2)
      = (s - t) * ((s + t) * L - 2 * m)"
    by (simp add: L_def m_def power2_eq_square algebra_simps)
  also have "(s + t) * L - 2 * m = L * (s + t - 2 * (m / L))"
    using L by (simp add: field_simps)
  also have "(s - t) * (L * (s + t - 2 * (m / L))) = L * ((s - t) * (s + t - 2 * (m / L)))"
    by simp
  finally have eq: "(ux - s * dx)\<^sup>2 + (uy - s * dy)\<^sup>2 - ((ux - t * dx)\<^sup>2 + (uy - t * dy)\<^sup>2)
      = L * ((s - t) * (s + t - 2 * (m / L)))" .
  have "0 \<le> (s - t) * (s + t - 2 * (m / L))"
    unfolding t using assms(1,2) by (rule clamped_quadratic)
  then have "0 \<le> L * ((s - t) * (s + t - 2 * (m / L)))" using L by simp
  then show ?thesis using eq by linarith
next
  case False
  then have "dx = 0" "dy = 0"
    by (metis add_nonneg_eq_0_iff mult_eq_0_iff not_less order_antisym zero_le_square add_nonneg_nonneg)+
  then show ?thesis by simp
qed

text \<open>
  On finite coordinates \<open>projectToSegment\<close> returns a parameter between 0 and 1 and a finite
  distance that is the least planar distance (in the local projection at the segment's mean
  latitude) from the point to any point of the segment, also for a segment of length zero.
\<close>

theorem projectToSegment_closest:
  assumes "finite_coord point" "finite_coord a" "finite_coord b" "0 \<le> s" "s \<le> 1"
  shows "let refLat = (js_at a 1 + js_at b 1) / 2;
             P = toXY point refLat; A = toXY a refLat; B = toXY b refLat;
             r = projectToSegment point a b
         in 0 \<le> proj_t r \<and> proj_t r \<le> 1 \<and> is_finite (proj_distance r) \<and>
            proj_distance r \<le> js_hypot (fst P - (fst A + Fin s * (fst B - fst A)))
                                       (snd P - (snd A + Fin s * (snd B - snd A)))"
proof -
  define refLat where "refLat = (js_at a 1 + js_at b 1) / 2"
  have "is_finite refLat"
    using assms(2,3) by (auto simp: refLat_def finite_coord_def is_finite_def split: jsnum.splits)
  then have xy: "\<exists>x y. toXY c refLat = (Fin x, Fin y)" if "finite_coord c" for c
    using that by (auto simp: toXY_def finite_coord_def is_finite_iff EARTH_RADIUS_M_def)
  obtain px py ax ay bx "by" where v: "toXY point refLat = (Fin px, Fin py)"
      "toXY a refLat = (Fin ax, Fin ay)" "toXY b refLat = (Fin bx, Fin by)"
    using xy [OF assms(1)] xy [OF assms(2)] xy [OF assms(3)] by blast
  define t where "t = clamp_t (px - ax) (py - ay) (bx - ax) (by - ay)"
  have t: "proj_t (projectToSegment point a b) = Fin t"
    and d: "proj_distance (projectToSegment point a b) =
      Fin (sqrt ((px - (ax + t * (bx - ax)))\<^sup>2 + (py - (ay + t * (by - ay)))\<^sup>2))"
    using v unfolding projectToSegment_def refLat_def [symmetric]
    by (simp_all add: Let_def t_def clamp_t_def)
  have "(px - ax - t * (bx - ax))\<^sup>2 + (py - ay - t * (by - ay))\<^sup>2
      \<le> (px - ax - s * (bx - ax))\<^sup>2 + (py - ay - s * (by - ay))\<^sup>2"
    unfolding t_def using assms(4,5) by (rule clamp_t_optimal)
  then have "sqrt ((px - (ax + t * (bx - ax)))\<^sup>2 + (py - (ay + t * (by - ay)))\<^sup>2)
      \<le> sqrt ((px - (ax + s * (bx - ax)))\<^sup>2 + (py - (ay + s * (by - ay)))\<^sup>2)"
    by (simp add: diff_diff_eq)
  then show ?thesis
    using v t d clamp_t_range unfolding refLat_def [symmetric] by (simp add: Let_def t_def)
qed

theorem projectToSegment_closest_witness:
  "finite_coord [0, 0] \<and> finite_coord [1, 1] \<and> finite_coord [2, 0] \<and>
   is_finite (proj_distance (projectToSegment [0, 0] [1, 1] [2, 0]))"
proof -
  have f: "finite_coord [0, 0]" "finite_coord [1, 1]" "finite_coord [2, 0]"
    by (simp_all add: finite_coord_def)
  show ?thesis using f projectToSegment_closest [OF f, of "1 / 2"] by (simp add: Let_def)
qed

section \<open>The distance to a line string is a minimum\<close>

lemma foldl_min:
  fixes f :: "'a \<Rightarrow> jsnum"
  shows "foldl (\<lambda>m i. if f i < m then f i else m) m0 xs \<in> insert m0 (f ` set xs) \<and>
    \<not> m0 < foldl (\<lambda>m i. if f i < m then f i else m) m0 xs \<and>
    (\<forall>i \<in> set xs. \<not> f i < foldl (\<lambda>m i. if f i < m then f i else m) m0 xs)"
proof (induction xs rule: rev_induct)
  case Nil
  then show ?case by simp
next
  case (snoc x xs)
  let ?m = "foldl (\<lambda>m i. if f i < m then f i else m) m0 xs"
  show ?case
  proof (cases "f x < ?m")
    case True
    then show ?thesis using snoc jsnum_not_less_trans [OF True] by auto
  next
    case False
    then show ?thesis using snoc by auto
  qed
qed

lemma distanceToLineString_min:
  shows "i < length ls - 1 \<Longrightarrow>
    \<not> proj_distance (projectToSegment p (ls ! i) (ls ! (i + 1))) < distanceToLineString p ls"
    and "distanceToLineString p ls = PInf \<or>
      (\<exists>i < length ls - 1. distanceToLineString p ls =
         proj_distance (projectToSegment p (ls ! i) (ls ! (i + 1))))"
  using foldl_min [of "\<lambda>i. proj_distance (projectToSegment p (ls ! i) (ls ! (i + 1)))" PInf
      "[0 ..< length ls - 1]"]
  unfolding distanceToLineString_def Let_def by auto

section \<open>Classification of turns\<close>

definition mirror_turn :: "string \<Rightarrow> string" where
  "mirror_turn t =
     (if t = ''left'' then ''right'' else if t = ''right'' then ''left''
      else if t = ''sharp-left'' then ''sharp-right'' else if t = ''sharp-right'' then ''sharp-left''
      else if t = ''slight-left'' then ''slight-right''
      else if t = ''slight-right'' then ''slight-left'' else t)"

text \<open>
  Turns are classified symmetrically: the mirrored angle gets the mirrored class, whose icon is
  rotated by the opposite angle (a U-turn keeps its 180 degrees), and every class has an
  instruction text of its own, never the fallback \<open>Continue\<close>.
\<close>

theorem classifyTurn_mirror:
  "classifyTurn (- Fin d) = mirror_turn (classifyTurn (Fin d)) \<and>
   (classifyTurn (Fin d) \<noteq> ''uturn'' \<longrightarrow>
      getTurnRotation (classifyTurn (- Fin d)) = - getTurnRotation (classifyTurn (Fin d))) \<and>
   getInstructionText (classifyTurn (Fin d)) \<noteq> ''Continue''"
proof -
  consider "\<bar>d\<bar> > 150" | "\<bar>d\<bar> \<le> 150" "\<bar>d\<bar> > 100" "d > 0" | "\<bar>d\<bar> \<le> 150" "\<bar>d\<bar> > 100" "d < 0"
    | "\<bar>d\<bar> \<le> 100" "\<bar>d\<bar> > 50" "d > 0" | "\<bar>d\<bar> \<le> 100" "\<bar>d\<bar> > 50" "d < 0"
    | "\<bar>d\<bar> \<le> 50" "\<bar>d\<bar> > 25" "d > 0" | "\<bar>d\<bar> \<le> 50" "\<bar>d\<bar> > 25" "d < 0"
    | "\<bar>d\<bar> \<le> 25" by linarith
  then show ?thesis
    by cases (simp_all add: classifyTurn_def mirror_turn_def getTurnRotation_def
      getInstructionText_def TURN_ROTATIONS_def INSTRUCTION_LABELS_def)
qed

theorem classifyTurn_mirror_witness:
  "classifyTurn (- 60) = mirror_turn (classifyTurn 60) \<and> classifyTurn 60 = ''right''"
proof -
  have "classifyTurn 60 = ''right''" by (simp add: classifyTurn_def)
  then show ?thesis using classifyTurn_mirror [of 60] by simp
qed

end
