(* ===== verification/NavCoverage.thy ===== *)
theory NavCoverage
  imports GeoMath
begin

text \<open>
  Real-time coverage tracking: class \<open>LiveNavigationCoverage\<close> of
  \<open>static/js/modules/live-navigation/live-navigation-coverage.js\<close>.

  The record \<open>coverage\<close> holds the fields of the class; \<open>outs\<close> is the sequence of calls it makes to
  the callbacks, the browser and the API, newest last (console messages are left out). A timer
  field is \<open>Some d\<close> while a timeout of \<open>d\<close> milliseconds is pending and \<open>None\<close> after it fired or was
  cleared. An \<open>async\<close> method is split at its \<open>await\<close>: the part before it, which issues the request,
  and one part for each way the request can settle. \<open>cov_step\<close> interleaves these parts.
\<close>

section \<open>Data\<close>

record feature =
  segment_id :: "string option"
  seg_status :: "string option"
  length_miles :: "jsnum option"
  seg_coordinates :: "coord list option"

record cov_config =
  segmentMatchThresholdMeters :: jsnum
  spatialIndexCellSizeMeters :: jsnum
  persistDebounceMs :: int

record cov_stats =
  percentage :: jsnum
  drivenLength :: jsnum
  totalLength :: jsnum
  sessionIncrease :: jsnum
  sessionSegments :: nat

datatype persistence_issue =
    BaseFailed nat
  | RetryExhausted nat nat
  | RetryScheduled nat int nat

datatype cov_out =
    MapInit "feature list" "string list"
  | MapSegmentsDriven "string list"
  | CoverageUpdate cov_stats
  | PersistenceIssue persistence_issue
  | Vibrate "int list"
  | SegmentPopup nat
  | PostMarkDriven "string list" "string option"

record coverage =
  cov_cfg :: cov_config
  segmentIndex :: "(string \<times> feature) list"
  drivenSegmentIds :: "string list"
  undrivenSegmentIds :: "string list"
  totalSegmentLength :: jsnum
  drivenSegmentLength :: jsnum
  spatialGrid :: "(string \<times> string list) list"
  segmentCells :: "(string \<times> string list) list"
  cov_refLat :: "jsnum option"
  liveSegmentsCovered :: "string list"
  liveCoverageIncrease :: jsnum
  sessionSegmentsCompleted :: nat
  pendingSegmentUpdates :: "string list"
  persistSegmentsTimeout :: "int option"
  persistRetryTimeout :: "int option"
  cov_areaId :: "string option"
  consecutivePersistFailures :: nat
  completionPopupTimeout :: bool
  outs :: "cov_out list"

definition cov_defaults :: cov_config where
  "cov_defaults = \<lparr>segmentMatchThresholdMeters = 25, spatialIndexCellSizeMeters = 160,
     persistDebounceMs = 2000\<rparr>"

definition persistRetryBaseMs :: int where "persistRetryBaseMs = 5000"
definition persistRetryMaxMs :: int where "persistRetryMaxMs = 30000"
definition maxPersistRetries :: nat where "maxPersistRetries = 5"

definition new_coverage :: "cov_config \<Rightarrow> coverage" where
  "new_coverage cfg =
     \<lparr>cov_cfg = cfg, segmentIndex = [], drivenSegmentIds = [], undrivenSegmentIds = [],
      totalSegmentLength = 0, drivenSegmentLength = 0, spatialGrid = [], segmentCells = [],
      cov_refLat = None, liveSegmentsCovered = [], liveCoverageIncrease = 0,
      sessionSegmentsCompleted = 0, pendingSegmentUpdates = [], persistSegmentsTimeout = None,
      persistRetryTimeout = None, cov_areaId = None, consecutivePersistFailures = 0,
      completionPopupTimeout = False, outs = []\<rparr>"

definition emit :: "cov_out \<Rightarrow> coverage \<Rightarrow> coverage" where
  "emit x s = s\<lparr>outs := outs s @ [x]\<rparr>"

section \<open>The spatial index\<close>

definition gridKey :: "int \<Rightarrow> int \<Rightarrow> string" where
  "gridKey cx cy = js_int cx @ '','' @ js_int cy"

text \<open>The integer value of a finite result of \<open>Math.floor\<close> or \<open>Math.ceil\<close>.\<close>

definition int_of :: "jsnum \<Rightarrow> int" where
  "int_of x = (case x of Fin a \<Rightarrow> \<lfloor>a\<rfloor> | _ \<Rightarrow> 0)"

definition cellSize :: "coverage \<Rightarrow> jsnum" where
  "cellSize s = js_max 40 (js_or (spatialIndexCellSizeMeters (cov_cfg s)) 160)"

type_synonym bbox = "jsnum \<times> jsnum \<times> jsnum \<times> jsnum"

definition extend_bbox :: "jsnum \<Rightarrow> bbox \<Rightarrow> coord \<Rightarrow> bbox" where
  "extend_bbox refLat b c =
     (if length c < 2 then b
      else case b of (minX, minY, maxX, maxY) \<Rightarrow>
        (let (x, y) = toXY c refLat in
         if \<not> is_finite x \<or> \<not> is_finite y then b
         else (js_min minX x, js_min minY y, js_max maxX x, js_max maxY y)))"

definition segment_bbox :: "jsnum \<Rightarrow> coord list \<Rightarrow> bbox" where
  "segment_bbox refLat cs = foldl (extend_bbox refLat) (PInf, PInf, NInf, NInf) cs"

definition cell_keys :: "int \<Rightarrow> int \<Rightarrow> int \<Rightarrow> int \<Rightarrow> string list" where
  "cell_keys cx0 cx1 cy0 cy1 = concat (map (\<lambda>cx. map (\<lambda>cy. gridKey cx cy) [cy0..cy1]) [cx0..cx1])"

definition bucket :: "(string \<times> string list) list \<Rightarrow> string \<Rightarrow> string list" where
  "bucket g k = (case map_of g k of None \<Rightarrow> [] | Some b \<Rightarrow> b)"

definition grid_add :: "string \<Rightarrow> string list \<Rightarrow> (string \<times> string list) list \<Rightarrow> (string \<times> string list) list" where
  "grid_add sid keys g = foldl (\<lambda>g k. AList.update k (set_add sid (bucket g k)) g) g keys"

definition grid_remove :: "string \<Rightarrow> string list \<Rightarrow> (string \<times> string list) list \<Rightarrow> (string \<times> string list) list" where
  "grid_remove sid keys g =
     foldl (\<lambda>g k. case map_of g k of
         None \<Rightarrow> g
       | Some b \<Rightarrow> (let b' = set_delete sid b in
           if b' = [] then AList.delete k g else AList.update k b' g)) g keys"

definition index_refLat :: "jsnum option \<Rightarrow> coord list \<Rightarrow> jsnum" where
  "index_refLat r cs =
     (case r of
        Some l \<Rightarrow> (if is_finite l then l
                   else if length (hd cs) \<ge> 2 \<and> is_finite (js_at (hd cs) 1) then js_at (hd cs) 1 else 0)
      | None \<Rightarrow> (if length (hd cs) \<ge> 2 \<and> is_finite (js_at (hd cs) 1) then js_at (hd cs) 1 else 0))"

definition indexUndrivenSegment :: "string \<Rightarrow> coord list option \<Rightarrow> coverage \<Rightarrow> coverage" where
  "indexUndrivenSegment sid coords s =
     (case coords of
        None \<Rightarrow> s
      | Some cs \<Rightarrow>
          if sid = [] \<or> length cs < 2 then s
          else
            let refLat = index_refLat (cov_refLat s) cs;
                s1 = s\<lparr>cov_refLat := Some refLat\<rparr>;
                (minX, minY, maxX, maxY) = segment_bbox refLat cs
            in if \<not> is_finite minX \<or> \<not> is_finite minY then s1
               else
                 let cx0 = int_of (js_floor (minX / cellSize s1));
                     cy0 = int_of (js_floor (minY / cellSize s1));
                     cx1 = int_of (js_floor (maxX / cellSize s1));
                     cy1 = int_of (js_floor (maxY / cellSize s1));
                     keys = cell_keys cx0 cx1 cy0 cy1
                 in s1\<lparr>spatialGrid := grid_add sid keys (spatialGrid s1),
                       segmentCells := AList.update sid keys (segmentCells s1)\<rparr>)"

definition unindexSegment :: "string \<Rightarrow> coverage \<Rightarrow> coverage" where
  "unindexSegment sid s =
     (case map_of (segmentCells s) sid of
        None \<Rightarrow> s
      | Some keys \<Rightarrow> s\<lparr>spatialGrid := grid_remove sid keys (spatialGrid s),
                       segmentCells := AList.delete sid (segmentCells s)\<rparr>)"

section \<open>Persistence\<close>

definition notifyPersistenceIssue :: "persistence_issue \<Rightarrow> coverage \<Rightarrow> coverage" where
  "notifyPersistenceIssue i s = emit (PersistenceIssue i) s"

definition schedulePersistenceRetry :: "int \<Rightarrow> coverage \<Rightarrow> coverage" where
  "schedulePersistenceRetry delayMs s =
     s\<lparr>persistRetryTimeout := Some (max 1000 (min delayMs persistRetryMaxMs))\<rparr>"

definition queueSegmentPersistence :: "string list \<Rightarrow> coverage \<Rightarrow> coverage" where
  "queueSegmentPersistence ids s =
     s\<lparr>pendingSegmentUpdates := set_add_all ids (pendingSegmentUpdates s),
       persistRetryTimeout := None,
       persistSegmentsTimeout := Some (persistDebounceMs (cov_cfg s))\<rparr>"

text \<open>
  \<open>persistDrivenSegments\<close> up to its \<open>await\<close>: the request it issues, if any, is the pair of the
  identifiers and the area they are posted to.
\<close>

definition persist_begin :: "coverage \<Rightarrow> coverage \<times> (string list \<times> string option) option" where
  "persist_begin s =
     (if pendingSegmentUpdates s = [] then (s, None)
      else let ids = pendingSegmentUpdates s
           in (emit (PostMarkDriven ids (cov_areaId s)) (s\<lparr>pendingSegmentUpdates := []\<rparr>),
               Some (ids, cov_areaId s)))"

definition persist_succeeded :: "coverage \<Rightarrow> coverage" where
  "persist_succeeded s = s\<lparr>consecutivePersistFailures := 0, persistRetryTimeout := None\<rparr>"

definition retry_delay :: "nat \<Rightarrow> int" where
  "retry_delay failures = min (persistRetryBaseMs * 2 ^ (failures - 1)) persistRetryMaxMs"

definition persist_failed :: "string list \<Rightarrow> coverage \<Rightarrow> coverage" where
  "persist_failed ids s =
     (let s1 = notifyPersistenceIssue (BaseFailed (length ids)) s;
          s2 = s1\<lparr>pendingSegmentUpdates := set_add_all ids (pendingSegmentUpdates s1),
                  consecutivePersistFailures := consecutivePersistFailures s1 + 1\<rparr>;
          n = consecutivePersistFailures s2
      in if n \<ge> maxPersistRetries
         then notifyPersistenceIssue (RetryExhausted n (length ids)) (s2\<lparr>persistRetryTimeout := None\<rparr>)
         else notifyPersistenceIssue (RetryScheduled n (retry_delay n) (length ids))
                (schedulePersistenceRetry (retry_delay n) s2))"

section \<open>Marking segments\<close>

definition feature_length :: "feature \<Rightarrow> jsnum" where
  "feature_length f = (case length_miles f of None \<Rightarrow> 0 | Some l \<Rightarrow> js_or l 0) * MI_TO_M"

definition getCoverageStats :: "coverage \<Rightarrow> cov_stats" where
  "getCoverageStats s =
     \<lparr>percentage = (if totalSegmentLength s > 0
                    then drivenSegmentLength s / totalSegmentLength s * 100 else 0),
      drivenLength = drivenSegmentLength s, totalLength = totalSegmentLength s,
      sessionIncrease = liveCoverageIncrease s, sessionSegments = sessionSegmentsCompleted s\<rparr>"

definition showSegmentCompletionPopup :: "nat \<Rightarrow> coverage \<Rightarrow> coverage" where
  "showSegmentCompletionPopup n s =
     (if completionPopupTimeout s then s
      else emit (SegmentPopup n) (s\<lparr>completionPopupTimeout := True\<rparr>))"

definition onSegmentsCompleted :: "nat \<Rightarrow> coverage \<Rightarrow> coverage" where
  "onSegmentsCompleted n s =
     (if n = 0 then s
      else let s1 = s\<lparr>sessionSegmentsCompleted := sessionSegmentsCompleted s + n\<rparr>;
               s2 = emit (Vibrate (if n > 1 then [30, 20, 30] else [30])) s1
           in if n \<ge> 2 then showSegmentCompletionPopup n s2 else s2)"

definition mark_one :: "coverage \<times> string list \<Rightarrow> string \<Rightarrow> coverage \<times> string list" where
  "mark_one acc sid =
     (case acc of (s, newly) \<Rightarrow>
        if sid \<notin> set (undrivenSegmentIds s) then (s, newly)
        else case map_of (segmentIndex s) sid of
            None \<Rightarrow> (s, newly)
          | Some f \<Rightarrow>
              let s1 = s\<lparr>undrivenSegmentIds := set_delete sid (undrivenSegmentIds s),
                         drivenSegmentIds := set_add sid (drivenSegmentIds s),
                         liveSegmentsCovered := set_add sid (liveSegmentsCovered s)\<rparr>;
                  s2 = unindexSegment sid s1
              in (s2\<lparr>drivenSegmentLength := drivenSegmentLength s2 + feature_length f,
                     liveCoverageIncrease := liveCoverageIncrease s2 + feature_length f\<rparr>,
                  newly @ [sid]))"

definition markSegmentsDriven :: "string list \<Rightarrow> coverage \<Rightarrow> coverage" where
  "markSegmentsDriven ids s =
     (let (s1, newly) = foldl mark_one (s, []) ids
      in if newly = [] then s1
         else let s2 = emit (MapSegmentsDriven newly) s1;
                  s3 = emit (CoverageUpdate (getCoverageStats s2)) s2;
                  s4 = onSegmentsCompleted (length newly) s3
              in queueSegmentPersistence newly s4)"

definition candidates :: "coverage \<Rightarrow> int \<Rightarrow> int \<Rightarrow> int \<Rightarrow> string list" where
  "candidates s cx cy r =
     set_add_all (concat (map (\<lambda>dx. concat (map (\<lambda>dy. bucket (spatialGrid s) (gridKey (cx + dx) (cy + dy)))
       [- r .. r])) [- r .. r])) []"

definition radiusCells :: "coverage \<Rightarrow> int" where
  "radiusCells s = max 1 (int_of (js_ceil (segmentMatchThresholdMeters (cov_cfg s) / cellSize s)))"

text \<open>The candidates around a projected position.\<close>

definition nearby :: "coverage \<Rightarrow> jsnum \<Rightarrow> jsnum \<Rightarrow> string list" where
  "nearby s x y =
     (let cx = int_of (js_floor (x / cellSize s));
          cy = int_of (js_floor (y / cellSize s))
      in candidates s cx cy (radiusCells s))"

text \<open>
  The loop over the candidates; reading the coordinates of a feature without geometry throws.
\<close>

fun match_candidates :: "coverage \<Rightarrow> coord \<Rightarrow> string list \<Rightarrow> string list option" where
  "match_candidates s current [] = Some []"
| "match_candidates s current (sid # sids) =
     (if sid \<notin> set (undrivenSegmentIds s) then match_candidates s current sids
      else case map_of (segmentIndex s) sid of
          None \<Rightarrow> match_candidates s current sids
        | Some f \<Rightarrow>
            (case seg_coordinates f of
               None \<Rightarrow> None
             | Some cs \<Rightarrow>
                 map_option (\<lambda>rest.
                     if distanceToLineString current cs \<le> segmentMatchThresholdMeters (cov_cfg s)
                     then sid # rest else rest)
                   (match_candidates s current sids)))"

definition checkSegmentCoverage :: "jsnum \<Rightarrow> jsnum \<Rightarrow> coverage \<Rightarrow> coverage outcome" where
  "checkSegmentCoverage lon lat s =
     (if segmentIndex s = [] \<or> undrivenSegmentIds s = [] then Done s
      else
        let current = [lon, lat];
            refLat = (case cov_refLat s of
                        Some l \<Rightarrow> (if is_finite l then l else js_or lat 0)
                      | None \<Rightarrow> js_or lat 0);
            s1 = s\<lparr>cov_refLat := Some refLat\<rparr>;
            (x, y) = toXY current refLat
        in if \<not> is_finite x \<or> \<not> is_finite y then Done s1
           else
             case match_candidates s1 current (nearby s1 x y) of
               None \<Rightarrow> Raised ''TypeError'' s1
             | Some newlyDriven \<Rightarrow>
                 Done (if newlyDriven = [] then s1 else markSegmentsDriven newlyDriven s1))"

section \<open>Loading, reset, destruction\<close>

definition cov_reset :: "coverage \<Rightarrow> coverage" where
  "cov_reset s =
     s\<lparr>segmentIndex := [], drivenSegmentIds := [], undrivenSegmentIds := [],
       totalSegmentLength := 0, drivenSegmentLength := 0, spatialGrid := [], segmentCells := [],
       cov_refLat := None, liveSegmentsCovered := [], liveCoverageIncrease := 0,
       sessionSegmentsCompleted := 0, pendingSegmentUpdates := [],
       persistSegmentsTimeout := None, persistRetryTimeout := None,
       consecutivePersistFailures := 0\<rparr>"

definition load_begin :: "string \<Rightarrow> coverage \<Rightarrow> coverage" where
  "load_begin areaId s = cov_reset (s\<lparr>cov_areaId := Some areaId\<rparr>)"

definition driveable :: "feature \<Rightarrow> bool" where
  "driveable f \<longleftrightarrow> (case segment_id f of None \<Rightarrow> False | Some i \<Rightarrow> i \<noteq> []) \<and>
     seg_status f \<noteq> Some ''undriveable''"

definition load_feature :: "coverage \<Rightarrow> feature \<Rightarrow> coverage" where
  "load_feature s f =
     (if \<not> driveable f then s
      else let sid = the (segment_id f);
               s1 = s\<lparr>segmentIndex := AList.update sid f (segmentIndex s),
                      totalSegmentLength := totalSegmentLength s + feature_length f\<rparr>
           in if seg_status f = Some ''driven''
              then s1\<lparr>drivenSegmentIds := set_add sid (drivenSegmentIds s1),
                      drivenSegmentLength := drivenSegmentLength s1 + feature_length f\<rparr>
              else indexUndrivenSegment sid (seg_coordinates f)
                     (s1\<lparr>undrivenSegmentIds := set_add sid (undrivenSegmentIds s1)\<rparr>))"

definition load_succeeded :: "feature list \<Rightarrow> coverage \<Rightarrow> coverage" where
  "load_succeeded fs s =
     (let s1 = foldl load_feature s fs
      in emit (MapInit (filter driveable fs) (drivenSegmentIds s1)) s1)"

text \<open>A failed fetch of the segments is ignored.\<close>

definition load_failed :: "coverage \<Rightarrow> coverage" where
  "load_failed s = s"

text \<open>Destruction flushes the pending updates and resets; the popup's timer is cancelled, its field kept.\<close>

definition cov_destroy :: "coverage \<Rightarrow> coverage \<times> (string list \<times> string option) option" where
  "cov_destroy s =
     (let (s1, req) = persist_begin s
      in (cov_reset s1, req))"

section \<open>Lemmas on the spatial index\<close>

lemma bucket_update [simp]: "bucket (AList.update k v g) k' = (if k' = k then v else bucket g k')"
  by (simp add: bucket_def update_conv)

lemma bucket_delete [simp]: "bucket (AList.delete k g) k' = (if k' = k then [] else bucket g k')"
  by (simp add: bucket_def delete_conv)

lemma grid_add_bucket:
  "set (bucket (grid_add sid keys g) k) = set (bucket g k) \<union> (if k \<in> set keys then {sid} else {})"
  unfolding grid_add_def by (induction keys arbitrary: g) auto

lemma grid_add_no_empty:
  "(\<forall>k. map_of g k \<noteq> Some []) \<Longrightarrow> map_of (grid_add sid keys g) k \<noteq> Some []"
  unfolding grid_add_def
proof (induction keys arbitrary: g)
  case Nil
  then show ?case by simp
next
  case (Cons k' keys)
  have "map_of (AList.update k' (set_add sid (bucket g k')) g) k \<noteq> Some []" for k
    using Cons.prems by (auto simp: update_conv set_add_def)
  then show ?case using Cons.IH by simp
qed

lemma grid_remove_bucket:
  "set (bucket (grid_remove sid keys g) k) = set (bucket g k) - (if k \<in> set keys then {sid} else {})"
proof -
  let ?del = "\<lambda>g k. case map_of g k of None \<Rightarrow> g
       | Some b \<Rightarrow> (let b' = set_delete sid b in
           if b' = [] then AList.delete k g else AList.update k b' g)"
  have one: "set (bucket (?del g k') k) = set (bucket g k) - (if k = k' then {sid} else {})"
    for g k k'
  proof (cases "map_of g k'")
    case None
    then show ?thesis by (auto simp: bucket_def)
  next
    case (Some b)
    then have "bucket g k' = b" by (simp add: bucket_def)
    moreover have "set_delete sid b = [] \<Longrightarrow> set b - {sid} = {}"
      by (metis set_set_delete set_empty)
    ultimately show ?thesis using Some by (auto simp: Let_def)
  qed
  show ?thesis
    unfolding grid_remove_def
    by (induction keys arbitrary: g) (auto simp: one)
qed

lemma grid_remove_no_empty:
  "(\<forall>k. map_of g k \<noteq> Some []) \<Longrightarrow> map_of (grid_remove sid keys g) k \<noteq> Some []"
  unfolding grid_remove_def
proof (induction keys arbitrary: g)
  case Nil
  then show ?case by simp
next
  case (Cons k' keys)
  have "\<forall>k. map_of (case map_of g k' of None \<Rightarrow> g
       | Some b \<Rightarrow> (let b' = set_delete sid b in
           if b' = [] then AList.delete k' g else AList.update k' b' g)) k \<noteq> Some []"
    using Cons.prems by (auto simp: update_conv delete_conv Let_def split: option.split)
  then show ?case using Cons.IH by simp
qed

lemma gridKey_inject [simp]: "gridKey a b = gridKey c d \<longleftrightarrow> a = c \<and> b = d"
proof
  assume "gridKey a b = gridKey c d"
  then have eq: "js_int a @ CHR '','' # js_int b = js_int c @ CHR '','' # js_int d"
    by (simp add: gridKey_def)
  have "takeWhile (\<lambda>x. x \<noteq> CHR '','') (js_int z @ CHR '','' # w) = js_int z" for z w
    using js_int_no_comma [of z] by (subst takeWhile_append2) auto
  then have ac: "js_int a = js_int c" by (metis eq)
  with eq show "a = c \<and> b = d" by simp
qed simp

lemma cell_keys_iff:
  "k \<in> set (cell_keys cx0 cx1 cy0 cy1) \<longleftrightarrow>
    (\<exists>cx cy. k = gridKey cx cy \<and> cx0 \<le> cx \<and> cx \<le> cx1 \<and> cy0 \<le> cy \<and> cy \<le> cy1)"
  by (force simp: cell_keys_def)

section \<open>The invariant\<close>

definition seg_len :: "(string \<times> feature) list \<Rightarrow> string \<Rightarrow> real" where
  "seg_len idx i = (case map_of idx i of
      None \<Rightarrow> 0 | Some f \<Rightarrow> (case feature_length f of Fin r \<Rightarrow> r | _ \<Rightarrow> 0))"

definition nonneg_length :: "feature \<Rightarrow> bool" where
  "nonneg_length f \<longleftrightarrow> is_finite (feature_length f) \<and> 0 \<le> feature_length f"

text \<open>
  What every run keeps, also when the answers of two loads overlap: the indexed segments are the
  driven and the undriven ones together, and the live ones are driven.
\<close>

definition core_inv :: "coverage \<Rightarrow> bool" where
  "core_inv s \<longleftrightarrow>
     set (drivenSegmentIds s) \<union> set (undrivenSegmentIds s) = fst ` set (segmentIndex s) \<and>
     set (liveSegmentsCovered s) \<subseteq> set (drivenSegmentIds s)"

text \<open>Every driveable segment is either driven or undriven, and the live ones are driven.\<close>

definition partition_inv :: "coverage \<Rightarrow> bool" where
  "partition_inv s \<longleftrightarrow>
     distinct (drivenSegmentIds s) \<and> distinct (undrivenSegmentIds s) \<and>
     distinct (liveSegmentsCovered s) \<and> distinct (map fst (segmentIndex s)) \<and>
     set (drivenSegmentIds s) \<inter> set (undrivenSegmentIds s) = {} \<and>
     set (drivenSegmentIds s) \<union> set (undrivenSegmentIds s) = fst ` set (segmentIndex s) \<and>
     set (liveSegmentsCovered s) \<subseteq> set (drivenSegmentIds s)"

text \<open>The three running totals are the sums of the lengths of their segments.\<close>

definition length_inv :: "coverage \<Rightarrow> bool" where
  "length_inv s \<longleftrightarrow>
     (\<forall>f \<in> snd ` set (segmentIndex s). nonneg_length f) \<and>
     totalSegmentLength s = Fin (\<Sum>i \<in> fst ` set (segmentIndex s). seg_len (segmentIndex s) i) \<and>
     drivenSegmentLength s = Fin (\<Sum>i \<in> set (drivenSegmentIds s). seg_len (segmentIndex s) i) \<and>
     liveCoverageIncrease s = Fin (\<Sum>i \<in> set (liveSegmentsCovered s). seg_len (segmentIndex s) i)"

text \<open>The grid and the cell lists are converse to each other and hold undriven segments only.\<close>

definition grid_inv :: "coverage \<Rightarrow> bool" where
  "grid_inv s \<longleftrightarrow>
     (\<forall>k i. i \<in> set (bucket (spatialGrid s) k) \<longleftrightarrow>
        (\<exists>ks. map_of (segmentCells s) i = Some ks \<and> k \<in> set ks)) \<and>
     (\<forall>k. map_of (spatialGrid s) k \<noteq> Some []) \<and>
     (\<forall>i ks. map_of (segmentCells s) i = Some ks \<longrightarrow> i \<in> set (undrivenSegmentIds s) \<and>
        (\<exists>f cs. map_of (segmentIndex s) i = Some f \<and> seg_coordinates f = Some cs))"

definition cov_inv :: "coverage \<Rightarrow> bool" where
  "cov_inv s \<longleftrightarrow> partition_inv s \<and> length_inv s \<and> grid_inv s"

lemmas cov_inv_defs = cov_inv_def partition_inv_def length_inv_def grid_inv_def

lemma cov_inv_core: "cov_inv s \<Longrightarrow> core_inv s"
  by (simp add: cov_inv_def partition_inv_def core_inv_def)

lemma core_inv_indexed:
  assumes "core_inv s" "sid \<in> set (undrivenSegmentIds s)"
  obtains f where "map_of (segmentIndex s) sid = Some f"
proof -
  have "sid \<in> fst ` set (segmentIndex s)" using assms by (auto simp: core_inv_def)
  then show ?thesis using that by (cases "map_of (segmentIndex s) sid") (auto simp: map_of_eq_None_iff)
qed

lemma unindexSegment_frame [simp]:
  "segmentIndex (unindexSegment i s) = segmentIndex s"
  "drivenSegmentIds (unindexSegment i s) = drivenSegmentIds s"
  "undrivenSegmentIds (unindexSegment i s) = undrivenSegmentIds s"
  "liveSegmentsCovered (unindexSegment i s) = liveSegmentsCovered s"
  "totalSegmentLength (unindexSegment i s) = totalSegmentLength s"
  "drivenSegmentLength (unindexSegment i s) = drivenSegmentLength s"
  "liveCoverageIncrease (unindexSegment i s) = liveCoverageIncrease s"
  "pendingSegmentUpdates (unindexSegment i s) = pendingSegmentUpdates s"
  "persistSegmentsTimeout (unindexSegment i s) = persistSegmentsTimeout s"
  "persistRetryTimeout (unindexSegment i s) = persistRetryTimeout s"
  "consecutivePersistFailures (unindexSegment i s) = consecutivePersistFailures s"
  "cov_cfg (unindexSegment i s) = cov_cfg s" "cov_areaId (unindexSegment i s) = cov_areaId s"
  by (simp_all add: unindexSegment_def split: option.split)

lemma unindexSegment_grid:
  assumes "\<forall>k i. i \<in> set (bucket (spatialGrid s) k) \<longleftrightarrow>
      (\<exists>ks. map_of (segmentCells s) i = Some ks \<and> k \<in> set ks)"
    and "\<forall>k. map_of (spatialGrid s) k \<noteq> Some []"
  shows "\<forall>k i. i \<in> set (bucket (spatialGrid (unindexSegment sid s)) k) \<longleftrightarrow>
      (\<exists>ks. map_of (segmentCells (unindexSegment sid s)) i = Some ks \<and> k \<in> set ks)"
    and "\<forall>k. map_of (spatialGrid (unindexSegment sid s)) k \<noteq> Some []"
    and "map_of (segmentCells (unindexSegment sid s)) = (map_of (segmentCells s))(sid := None)"
  using assms
  by (auto simp: unindexSegment_def grid_remove_bucket grid_remove_no_empty delete_conv
      split: option.split)


lemma feature_length_seg_len:
  assumes "length_inv s" "map_of (segmentIndex s) i = Some f"
  shows "feature_length f = Fin (seg_len (segmentIndex s) i)" "0 \<le> seg_len (segmentIndex s) i"
proof -
  have "f \<in> snd ` set (segmentIndex s)"
    using map_of_SomeD [OF assms(2)] by (force simp: image_iff)
  then have "nonneg_length f" using assms(1) by (auto simp: length_inv_def)
  then show "feature_length f = Fin (seg_len (segmentIndex s) i)" "0 \<le> seg_len (segmentIndex s) i"
    using assms(2) by (auto simp: nonneg_length_def seg_len_def is_finite_iff)
qed

lemma mark_one_inv:
  assumes inv: "cov_inv s" shows "cov_inv (fst (mark_one (s, ns) sid))"
proof (cases "sid \<in> set (undrivenSegmentIds s)")
  case False
  then show ?thesis using inv by (simp add: mark_one_def)
next
  case True
  note P = inv [unfolded cov_inv_def, THEN conjunct1, unfolded partition_inv_def]
  note L = inv [unfolded cov_inv_def, THEN conjunct2, THEN conjunct1]
  note G = inv [unfolded cov_inv_def, THEN conjunct2, THEN conjunct2, unfolded grid_inv_def]
  have key: "sid \<in> fst ` set (segmentIndex s)" using True P by blast
  then obtain f where f: "map_of (segmentIndex s) sid = Some f"
    by (cases "map_of (segmentIndex s) sid") (auto simp: map_of_eq_None_iff)
  define s1 where "s1 = s\<lparr>undrivenSegmentIds := set_delete sid (undrivenSegmentIds s),
      drivenSegmentIds := set_add sid (drivenSegmentIds s),
      liveSegmentsCovered := set_add sid (liveSegmentsCovered s)\<rparr>"
  define t where "t = fst (mark_one (s, ns) sid)"
  have t: "t = (unindexSegment sid s1)
      \<lparr>drivenSegmentLength := drivenSegmentLength s + feature_length f,
       liveCoverageIncrease := liveCoverageIncrease s + feature_length f\<rparr>"
    using True f by (simp add: t_def mark_one_def s1_def Let_def)
  have nd: "sid \<notin> set (drivenSegmentIds s)" "sid \<notin> set (liveSegmentsCovered s)"
    using True P by auto
  have part: "partition_inv t"
    using P key nd by (auto simp: partition_inv_def t s1_def)
  have len: "length_inv t"
    using L nd feature_length_seg_len(1) [OF L f]
    by (simp add: length_inv_def t s1_def add.commute)
  have g1: "\<forall>k i. i \<in> set (bucket (spatialGrid s1) k) \<longleftrightarrow>
      (\<exists>ks. map_of (segmentCells s1) i = Some ks \<and> k \<in> set ks)"
    "\<forall>k. map_of (spatialGrid s1) k \<noteq> Some []"
    using G by (simp_all add: s1_def)
  have grid: "grid_inv t"
    using unindexSegment_grid [OF g1, of sid] G
    by (auto simp: grid_inv_def t s1_def split: if_splits)
  show ?thesis using part len grid by (simp add: cov_inv_def t_def)
qed

lemma mark_fold_inv: "cov_inv s \<Longrightarrow> cov_inv (fst (foldl mark_one (s, ns) ids))"
proof (induction ids arbitrary: s ns)
  case Nil
  then show ?case by simp
next
  case (Cons i ids)
  obtain t ms where t: "mark_one (s, ns) i = (t, ms)" by fastforce
  have "cov_inv t" using mark_one_inv [OF Cons.prems, of ns i] t by simp
  then show ?case using Cons.IH t by simp
qed

lemma mark_one_core:
  assumes inv: "core_inv s" shows "core_inv (fst (mark_one (s, ns) sid))"
proof (cases "sid \<in> set (undrivenSegmentIds s)")
  case False
  then show ?thesis using inv by (simp add: mark_one_def)
next
  case True
  from core_inv_indexed [OF inv True] obtain f where "map_of (segmentIndex s) sid = Some f" .
  moreover have "sid \<in> fst ` set (segmentIndex s)" using inv True by (auto simp: core_inv_def)
  ultimately show ?thesis using inv True by (auto simp: mark_one_def core_inv_def Let_def)
qed

lemma mark_fold_core: "core_inv s \<Longrightarrow> core_inv (fst (foldl mark_one (s, ns) ids))"
proof (induction ids arbitrary: s ns)
  case Nil
  then show ?case by simp
next
  case (Cons i ids)
  obtain t ms where t: "mark_one (s, ns) i = (t, ms)" by fastforce
  have "core_inv t" using mark_one_core [OF Cons.prems, of ns i] t by simp
  then show ?case using Cons.IH t by simp
qed

lemma core_inv_frame:
  assumes "segmentIndex t = segmentIndex s" "drivenSegmentIds t = drivenSegmentIds s"
    "undrivenSegmentIds t = undrivenSegmentIds s" "liveSegmentsCovered t = liveSegmentsCovered s"
  shows "core_inv t = core_inv s"
  using assms by (simp add: core_inv_def)

lemma cov_inv_frame:
  assumes "segmentIndex t = segmentIndex s" "drivenSegmentIds t = drivenSegmentIds s"
    "undrivenSegmentIds t = undrivenSegmentIds s" "liveSegmentsCovered t = liveSegmentsCovered s"
    "totalSegmentLength t = totalSegmentLength s" "drivenSegmentLength t = drivenSegmentLength s"
    "liveCoverageIncrease t = liveCoverageIncrease s" "spatialGrid t = spatialGrid s"
    "segmentCells t = segmentCells s"
  shows "cov_inv t = cov_inv s"
  using assms by (simp add: cov_inv_defs)

lemma emit_inv [simp]: "cov_inv (emit x s) = cov_inv s"
  by (rule cov_inv_frame) (simp_all add: emit_def)

lemma emit_core [simp]: "core_inv (emit x s) = core_inv s"
  by (rule core_inv_frame) (simp_all add: emit_def)

lemma emit_simps [simp]:
  "pendingSegmentUpdates (emit x s) = pendingSegmentUpdates s"
  "persistSegmentsTimeout (emit x s) = persistSegmentsTimeout s"
  "persistRetryTimeout (emit x s) = persistRetryTimeout s"
  "consecutivePersistFailures (emit x s) = consecutivePersistFailures s"
  "cov_areaId (emit x s) = cov_areaId s" "cov_cfg (emit x s) = cov_cfg s"
  "liveSegmentsCovered (emit x s) = liveSegmentsCovered s"
  "drivenSegmentIds (emit x s) = drivenSegmentIds s"
  "undrivenSegmentIds (emit x s) = undrivenSegmentIds s"
  "segmentIndex (emit x s) = segmentIndex s"
  "sessionSegmentsCompleted (emit x s) = sessionSegmentsCompleted s"
  by (simp_all add: emit_def)

lemma onSegmentsCompleted_inv [simp]: "cov_inv (onSegmentsCompleted n s) = cov_inv s"
  by (rule cov_inv_frame)
    (simp_all add: onSegmentsCompleted_def showSegmentCompletionPopup_def Let_def emit_def)

lemma onSegmentsCompleted_core [simp]: "core_inv (onSegmentsCompleted n s) = core_inv s"
  by (rule core_inv_frame)
    (simp_all add: onSegmentsCompleted_def showSegmentCompletionPopup_def Let_def emit_def)

lemma onSegmentsCompleted_simps [simp]:
  "pendingSegmentUpdates (onSegmentsCompleted n s) = pendingSegmentUpdates s"
  "liveSegmentsCovered (onSegmentsCompleted n s) = liveSegmentsCovered s"
  "drivenSegmentIds (onSegmentsCompleted n s) = drivenSegmentIds s"
  "undrivenSegmentIds (onSegmentsCompleted n s) = undrivenSegmentIds s"
  "consecutivePersistFailures (onSegmentsCompleted n s) = consecutivePersistFailures s"
  "sessionSegmentsCompleted (onSegmentsCompleted n s) = sessionSegmentsCompleted s + n"
  by (simp_all add: onSegmentsCompleted_def showSegmentCompletionPopup_def Let_def)

lemma queueSegmentPersistence_inv [simp]: "cov_inv (queueSegmentPersistence ids s) = cov_inv s"
  by (rule cov_inv_frame) (simp_all add: queueSegmentPersistence_def)

lemma queueSegmentPersistence_core [simp]: "core_inv (queueSegmentPersistence ids s) = core_inv s"
  by (rule core_inv_frame) (simp_all add: queueSegmentPersistence_def)

lemma markSegmentsDriven_core: "core_inv s \<Longrightarrow> core_inv (markSegmentsDriven ids s)"
  using mark_fold_core [of s "[]" ids]
  by (auto simp: markSegmentsDriven_def Let_def split: prod.splits)

lemma markSegmentsDriven_inv: "cov_inv s \<Longrightarrow> cov_inv (markSegmentsDriven ids s)"
  using mark_fold_inv [of s "[]" ids]
  by (auto simp: markSegmentsDriven_def Let_def split: prod.splits)

text \<open>What the loop of \<open>markSegmentsDriven\<close> moves.\<close>

lemma mark_fold_effect:
  assumes "core_inv s" "foldl mark_one (s, ns) ids = (t, ms)"
  shows "set (drivenSegmentIds t) = set (drivenSegmentIds s) \<union> (set ids \<inter> set (undrivenSegmentIds s))
    \<and> set (undrivenSegmentIds t) = set (undrivenSegmentIds s) - set ids
    \<and> set (liveSegmentsCovered t) = set (liveSegmentsCovered s) \<union> (set ids \<inter> set (undrivenSegmentIds s))
    \<and> set ms = set ns \<union> (set ids \<inter> set (undrivenSegmentIds s))
    \<and> pendingSegmentUpdates t = pendingSegmentUpdates s
    \<and> consecutivePersistFailures t = consecutivePersistFailures s"
  using assms
proof (induction ids arbitrary: s ns)
  case Nil
  then show ?case by simp
next
  case (Cons i ids)
  obtain s' ns' where m: "mark_one (s, ns) i = (s', ns')" by fastforce
  have inv': "core_inv s'" using mark_one_core [OF Cons.prems(1), of ns i] m by simp
  have "foldl mark_one (s', ns') ids = (t, ms)" using Cons.prems(2) m by simp
  note IH = Cons.IH [OF inv' this]
  show ?case
  proof (cases "i \<in> set (undrivenSegmentIds s)")
    case False
    then have "s' = s" "ns' = ns" using m by (simp_all add: mark_one_def)
    then show ?thesis using IH False by auto
  next
    case True
    from core_inv_indexed [OF Cons.prems(1) this]
    obtain f where "map_of (segmentIndex s) i = Some f" .
    then have "set (drivenSegmentIds s') = insert i (set (drivenSegmentIds s))"
      "set (undrivenSegmentIds s') = set (undrivenSegmentIds s) - {i}"
      "set (liveSegmentsCovered s') = insert i (set (liveSegmentsCovered s))"
      "ns' = ns @ [i]" "pendingSegmentUpdates s' = pendingSegmentUpdates s"
      "consecutivePersistFailures s' = consecutivePersistFailures s"
      using m True by (auto simp: mark_one_def Let_def)
    then show ?thesis using IH True by auto
  qed
qed


section \<open>Loading keeps the invariant\<close>

lemma indexUndrivenSegment_frame [simp]:
  "segmentIndex (indexUndrivenSegment i cs s) = segmentIndex s"
  "drivenSegmentIds (indexUndrivenSegment i cs s) = drivenSegmentIds s"
  "undrivenSegmentIds (indexUndrivenSegment i cs s) = undrivenSegmentIds s"
  "liveSegmentsCovered (indexUndrivenSegment i cs s) = liveSegmentsCovered s"
  "totalSegmentLength (indexUndrivenSegment i cs s) = totalSegmentLength s"
  "drivenSegmentLength (indexUndrivenSegment i cs s) = drivenSegmentLength s"
  "liveCoverageIncrease (indexUndrivenSegment i cs s) = liveCoverageIncrease s"
  "pendingSegmentUpdates (indexUndrivenSegment i cs s) = pendingSegmentUpdates s"
  "consecutivePersistFailures (indexUndrivenSegment i cs s) = consecutivePersistFailures s"
  "persistSegmentsTimeout (indexUndrivenSegment i cs s) = persistSegmentsTimeout s"
  "persistRetryTimeout (indexUndrivenSegment i cs s) = persistRetryTimeout s"
  by (simp_all add: indexUndrivenSegment_def Let_def split: option.split prod.split)

text \<open>Indexing either leaves grid and cells alone or adds the segment to all its cells.\<close>

lemma indexUndrivenSegment_cases:
  obtains "spatialGrid (indexUndrivenSegment i cs s) = spatialGrid s"
      "segmentCells (indexUndrivenSegment i cs s) = segmentCells s"
  | ks c where "cs = Some c" "spatialGrid (indexUndrivenSegment i cs s) = grid_add i ks (spatialGrid s)"
      "segmentCells (indexUndrivenSegment i cs s) = AList.update i ks (segmentCells s)"
proof (cases cs)
  case None
  then show ?thesis using that(1) by (simp add: indexUndrivenSegment_def)
next
  case (Some c)
  obtain a b d e where bb: "segment_bbox (index_refLat (cov_refLat s) c) c = (a, b, d, e)"
    by (metis prod_cases4)
  show ?thesis
  proof (cases "i = [] \<or> length c < 2 \<or> \<not> is_finite a \<or> \<not> is_finite b")
    case True
    then show ?thesis using that(1) Some bb by (auto simp: indexUndrivenSegment_def Let_def)
  next
    case False
    then show ?thesis using that(2) Some bb
      by (auto simp: indexUndrivenSegment_def Let_def cellSize_def)
  qed
qed

lemma indexUndrivenSegment_grid_inv:
  assumes "grid_inv s" "map_of (segmentCells s) i = None" "i \<in> set (undrivenSegmentIds s)"
    and "map_of (segmentIndex s) i = Some f"
  shows "grid_inv (indexUndrivenSegment i (seg_coordinates f) s)"
proof (cases rule: indexUndrivenSegment_cases [of i "seg_coordinates f" s])
  case 1
  then show ?thesis using assms(1) by (simp add: grid_inv_def)
next
  case (2 ks c)
  have "i \<notin> set (bucket (spatialGrid s) k)" for k
    using assms(1,2) by (auto simp: grid_inv_def)
  then show ?thesis using assms 2
    by (auto simp: grid_inv_def grid_add_bucket grid_add_no_empty update_conv split: if_splits)
qed

lemma sum_seg_len_update:
  assumes "sid \<notin> A"
  shows "(\<Sum>i \<in> A. seg_len (AList.update sid f idx) i) = (\<Sum>i \<in> A. seg_len idx i)"
  using assms by (intro sum.cong) (auto simp: seg_len_def update_conv)

lemma alist_update_fresh: "k \<notin> fst ` set al \<Longrightarrow> AList.update k v al = al @ [(k, v)]"
  by (induction al) auto

lemma load_feature_inv:
  assumes inv: "cov_inv s" and d: "driveable f" and sid: "segment_id f = Some sid"
    and fresh: "sid \<notin> fst ` set (segmentIndex s)" and len: "nonneg_length f"
  shows "cov_inv (load_feature s f)"
proof -
  note P = inv [unfolded cov_inv_def, THEN conjunct1, unfolded partition_inv_def]
  note L = inv [unfolded cov_inv_def, THEN conjunct2, THEN conjunct1, unfolded length_inv_def]
  note G = inv [unfolded cov_inv_def, THEN conjunct2, THEN conjunct2, unfolded grid_inv_def]
  define idx where "idx = AList.update sid f (segmentIndex s)"
  have nin: "sid \<notin> set (drivenSegmentIds s)" "sid \<notin> set (undrivenSegmentIds s)"
    "sid \<notin> set (liveSegmentsCovered s)"
    using P fresh by blast+
  have keys: "map fst idx = map fst (segmentIndex s) @ [sid]"
    unfolding idx_def update_keys using fresh by simp
  then have fsts: "fst ` set idx = insert sid (fst ` set (segmentIndex s))"
    by (metis list.set_map set_append list.simps(15) empty_set Un_insert_right sup_bot_right)
  have dist: "distinct (map fst idx)" using keys P fresh by simp
  have vals: "snd ` set idx \<subseteq> insert f (snd ` set (segmentIndex s))"
    unfolding idx_def alist_update_fresh [OF fresh] by auto
  have fl: "feature_length f = Fin (seg_len idx sid)"
    using len by (auto simp: seg_len_def idx_def update_conv nonneg_length_def is_finite_iff)
  have cells: "map_of (segmentCells s) sid = None"
    using G nin by (cases "map_of (segmentCells s) sid") auto
  define s1 where "s1 = s\<lparr>segmentIndex := idx,
      totalSegmentLength := totalSegmentLength s + feature_length f\<rparr>"
  have tot: "totalSegmentLength s + feature_length f = Fin (\<Sum>i \<in> fst ` set idx. seg_len idx i)"
    using L fl fresh sum_seg_len_update [OF fresh, of f "segmentIndex s"]
    by (simp add: fsts idx_def [symmetric])
  have sums: "(\<Sum>i \<in> set (drivenSegmentIds s). seg_len idx i) =
      (\<Sum>i \<in> set (drivenSegmentIds s). seg_len (segmentIndex s) i)"
    "(\<Sum>i \<in> set (liveSegmentsCovered s). seg_len idx i) =
      (\<Sum>i \<in> set (liveSegmentsCovered s). seg_len (segmentIndex s) i)"
    unfolding idx_def using nin by (simp_all add: sum_seg_len_update)
  have nn: "\<forall>g \<in> snd ` set idx. nonneg_length g" using vals L len by blast
  have other: "map_of idx i = map_of (segmentIndex s) i" if "i \<noteq> sid" for i
    using that by (simp add: idx_def update_conv)
  show ?thesis
  proof (cases "seg_status f = Some ''driven''")
    case True
    have eq: "load_feature s f = s1\<lparr>drivenSegmentIds := set_add sid (drivenSegmentIds s),
        drivenSegmentLength := drivenSegmentLength s + feature_length f\<rparr>"
      using d True sid by (simp add: load_feature_def s1_def idx_def Let_def)
    have "partition_inv (load_feature s f)"
      using P nin dist fsts by (auto simp: partition_inv_def eq s1_def)
    moreover have "length_inv (load_feature s f)"
      using L nin tot nn sums fl by (simp add: length_inv_def eq s1_def add.commute)
    moreover have "grid_inv (load_feature s f)"
      using G cells other unfolding grid_inv_def eq s1_def by (simp, metis option.distinct(1))
    ultimately show ?thesis by (simp add: cov_inv_def)
  next
    case False
    define s2 where "s2 = s1\<lparr>undrivenSegmentIds := set_add sid (undrivenSegmentIds s)\<rparr>"
    have eq: "load_feature s f = indexUndrivenSegment sid (seg_coordinates f) s2"
      using d False sid by (simp add: load_feature_def s2_def s1_def idx_def Let_def)
    have "partition_inv (load_feature s f)"
      using P nin dist fsts by (auto simp: partition_inv_def eq s2_def s1_def)
    moreover have "length_inv (load_feature s f)"
      using L nin tot nn sums fl by (simp add: length_inv_def eq s2_def s1_def)
    moreover have "grid_inv s2"
      using G cells other unfolding grid_inv_def s2_def s1_def by (simp, metis option.distinct(1))
    then have "grid_inv (load_feature s f)"
      unfolding eq
      by (rule indexUndrivenSegment_grid_inv)
        (auto simp: s2_def s1_def cells idx_def update_conv)
    ultimately show ?thesis by (simp add: cov_inv_def)
  qed
qed

text \<open>
  What the server promises of the segments of one area: an identifier occurs once among the
  driveable ones, and lengths are finite and not negative.
\<close>

definition seg_ids :: "feature list \<Rightarrow> string list" where
  "seg_ids fs = map (\<lambda>f. the (segment_id f)) (filter driveable fs)"

definition wf_features :: "feature list \<Rightarrow> bool" where
  "wf_features fs \<longleftrightarrow> distinct (seg_ids fs) \<and> (\<forall>f \<in> set fs. nonneg_length f)"

lemma load_feature_index:
  "fst ` set (segmentIndex (load_feature s f)) =
     fst ` set (segmentIndex s) \<union> (if driveable f then {the (segment_id f)} else {})"
  by (auto simp: load_feature_def Let_def dom_update)

lemma load_feature_core: "core_inv s \<Longrightarrow> core_inv (load_feature s f)"
  unfolding core_inv_def load_feature_index
  by (auto simp: load_feature_def Let_def)

lemma load_fold_core: "core_inv s \<Longrightarrow> core_inv (foldl load_feature s fs)"
  by (induction fs arbitrary: s) (auto intro: load_feature_core)

lemma load_fold_inv:
  assumes "cov_inv s" "wf_features fs" "set (seg_ids fs) \<inter> fst ` set (segmentIndex s) = {}"
  shows "cov_inv (foldl load_feature s fs)"
  using assms
proof (induction fs arbitrary: s)
  case Nil
  then show ?case by simp
next
  case (Cons f fs)
  have wf: "wf_features fs" using Cons.prems(2) by (auto simp: wf_features_def seg_ids_def split: if_splits)
  show ?case
  proof (cases "driveable f")
    case False
    then have "load_feature s f = s" by (simp add: load_feature_def)
    then show ?thesis using Cons wf False by (simp add: seg_ids_def)
  next
    case True
    then obtain sid where sid: "segment_id f = Some sid" by (auto simp: driveable_def split: option.splits)
    have "cov_inv (load_feature s f)"
      using Cons.prems True sid by (intro load_feature_inv) (auto simp: seg_ids_def wf_features_def)
    moreover have "set (seg_ids fs) \<inter> fst ` set (segmentIndex (load_feature s f)) = {}"
      using Cons.prems True sid by (auto simp: load_feature_index seg_ids_def wf_features_def)
    ultimately show ?thesis using Cons.IH wf by simp
  qed
qed

lemma cov_reset_inv: "cov_inv (cov_reset s)"
  by (simp add: cov_inv_defs cov_reset_def bucket_def)

lemma new_coverage_inv: "cov_inv (new_coverage cfg)"
  by (simp add: cov_inv_defs new_coverage_def bucket_def)


section \<open>The component and its requests\<close>

text \<open>
  The tracker together with its requests: those in flight (identifiers and area), the updates the
  server has acknowledged, and the number of calls of \<open>loadSegments\<close> waiting for their answer.
  Requests settle in any order; a timer fires only while it is armed. The answer of a load is
  applied whenever it arrives, to the tracker as it then is: nothing in the code stops a second load
  from starting before the first is answered.
\<close>

record cov_sys =
  cs :: coverage
  inflight :: "(string list \<times> string option) list"
  acked :: "(string \<times> string option) list"
  loads :: nat

datatype cov_event =
    ELoad string
  | ELoaded "feature list"
  | ELoadFailed
  | EPosition jsnum jsnum
  | EDebounce
  | ERetry
  | EFlush
  | EPersisted nat
  | EPersistFailed nat
  | EPopupEnd
  | EReset
  | EDestroy

definition add_request :: "coverage \<times> (string list \<times> string option) option \<Rightarrow> cov_sys \<Rightarrow> cov_sys" where
  "add_request r y = y\<lparr>cs := fst r, inflight := inflight y @ (case snd r of None \<Rightarrow> [] | Some q \<Rightarrow> [q])\<rparr>"

definition drop_nth :: "nat \<Rightarrow> 'a list \<Rightarrow> 'a list" where
  "drop_nth i xs = take i xs @ drop (Suc i) xs"

definition cov_init :: "cov_sys \<Rightarrow> bool" where
  "cov_init y \<longleftrightarrow> y = \<lparr>cs = new_coverage cov_defaults, inflight = [], acked = [], loads = 0\<rparr>"

inductive cov_step :: "cov_sys \<Rightarrow> cov_event \<Rightarrow> cov_sys \<Rightarrow> bool" where
  load: "cov_step y (ELoad a) (y\<lparr>cs := load_begin a (cs y), loads := loads y + 1\<rparr>)"
| loaded: "0 < loads y \<Longrightarrow>
    cov_step y (ELoaded fs) (y\<lparr>cs := load_succeeded fs (cs y), loads := loads y - 1\<rparr>)"
| load_fail: "0 < loads y \<Longrightarrow>
    cov_step y ELoadFailed (y\<lparr>cs := load_failed (cs y), loads := loads y - 1\<rparr>)"
| position: "cov_step y (EPosition lon lat)
    (y\<lparr>cs := outcome_state (checkSegmentCoverage lon lat (cs y))\<rparr>)"
| debounce: "persistSegmentsTimeout (cs y) \<noteq> None \<Longrightarrow>
    cov_step y EDebounce (add_request (persist_begin ((cs y)\<lparr>persistSegmentsTimeout := None\<rparr>)) y)"
| retry: "persistRetryTimeout (cs y) \<noteq> None \<Longrightarrow>
    cov_step y ERetry (add_request (persist_begin ((cs y)\<lparr>persistRetryTimeout := None\<rparr>)) y)"
| flush: "cov_step y EFlush (add_request (persist_begin (cs y)) y)"
| persisted: "i < length (inflight y) \<Longrightarrow> inflight y ! i = (ids, a) \<Longrightarrow>
    cov_step y (EPersisted i) (y\<lparr>cs := persist_succeeded (cs y), inflight := drop_nth i (inflight y),
      acked := acked y @ map (\<lambda>x. (x, a)) ids\<rparr>)"
| persist_fail: "i < length (inflight y) \<Longrightarrow> inflight y ! i = (ids, a) \<Longrightarrow>
    cov_step y (EPersistFailed i)
      (y\<lparr>cs := persist_failed ids (cs y), inflight := drop_nth i (inflight y)\<rparr>)"
| popup_end: "completionPopupTimeout (cs y) \<Longrightarrow>
    cov_step y EPopupEnd (y\<lparr>cs := (cs y)\<lparr>completionPopupTimeout := False\<rparr>\<rparr>)"
| reset: "cov_step y EReset (y\<lparr>cs := cov_reset (cs y)\<rparr>)"
| destroy: "cov_step y EDestroy (add_request (cov_destroy (cs y)) y)"

text \<open>
  Orderly runs: a load begins only when no other one waits for its answer, and the answers keep what
  the server promises.
\<close>

definition orderly :: "cov_event \<Rightarrow> cov_sys \<Rightarrow> bool" where
  "orderly e y = (case e of ELoad a \<Rightarrow> loads y = 0 | ELoaded fs \<Rightarrow> wf_features fs | _ \<Rightarrow> True)"

definition orderly_step :: "cov_sys \<Rightarrow> cov_event \<Rightarrow> cov_sys \<Rightarrow> bool" where
  "orderly_step y e z \<longleftrightarrow> cov_step y e z \<and> orderly e y"

lemma orderly_reach: "reach cov_init orderly_step y \<Longrightarrow> reach cov_init cov_step y"
  by (induction rule: reach.induct) (auto simp: orderly_step_def intro: reach.intros)

subsection \<open>The invariants are kept by every step\<close>

lemma core_inv_persist [simp]:
  "core_inv (fst (persist_begin s)) = core_inv s"
  "core_inv (persist_succeeded s) = core_inv s"
  "core_inv (persist_failed ids s) = core_inv s"
  "core_inv (s\<lparr>persistSegmentsTimeout := x\<rparr>) = core_inv s"
  "core_inv (s\<lparr>persistRetryTimeout := x\<rparr>) = core_inv s"
  "core_inv (s\<lparr>completionPopupTimeout := b\<rparr>) = core_inv s"
  "core_inv (s\<lparr>cov_refLat := r\<rparr>) = core_inv s"
  by (simp_all add: core_inv_def persist_begin_def persist_succeeded_def persist_failed_def
    notifyPersistenceIssue_def schedulePersistenceRetry_def Let_def)

lemma persist_begin_inv: "cov_inv s \<Longrightarrow> cov_inv (fst (persist_begin s))"
  by (subst cov_inv_frame [of _ s]) (simp_all add: persist_begin_def Let_def emit_def)

lemma persist_succeeded_inv: "cov_inv s \<Longrightarrow> cov_inv (persist_succeeded s)"
  by (subst cov_inv_frame [of _ s]) (simp_all add: persist_succeeded_def)

lemma persist_failed_inv: "cov_inv s \<Longrightarrow> cov_inv (persist_failed ids s)"
  by (subst cov_inv_frame [of _ s])
    (simp_all add: persist_failed_def Let_def notifyPersistenceIssue_def schedulePersistenceRetry_def
      emit_def)

lemma cov_inv_timers [simp]:
  "cov_inv (s\<lparr>persistSegmentsTimeout := x\<rparr>) = cov_inv s"
  "cov_inv (s\<lparr>persistRetryTimeout := x\<rparr>) = cov_inv s"
  "cov_inv (s\<lparr>completionPopupTimeout := b\<rparr>) = cov_inv s"
  "cov_inv (s\<lparr>cov_refLat := r\<rparr>) = cov_inv s"
  by (rule cov_inv_frame, simp_all)+

text \<open>
  Every outcome of a position update: nothing but the reference latitude changes, or the matched
  segments are marked, or the loop throws.
\<close>

lemma checkSegmentCoverage_cases:
  obtains r where "checkSegmentCoverage lon lat s = Done (s\<lparr>cov_refLat := r\<rparr>)"
  | r ids where "checkSegmentCoverage lon lat s = Done (markSegmentsDriven ids (s\<lparr>cov_refLat := r\<rparr>))"
  | r x y where
      "checkSegmentCoverage lon lat s = Raised ''TypeError'' (s\<lparr>cov_refLat := r\<rparr>)"
      "match_candidates (s\<lparr>cov_refLat := r\<rparr>) [lon, lat] (nearby (s\<lparr>cov_refLat := r\<rparr>) x y) = None"
proof (cases "segmentIndex s = [] \<or> undrivenSegmentIds s = []")
  case True
  then have "checkSegmentCoverage lon lat s = Done (s\<lparr>cov_refLat := cov_refLat s\<rparr>)"
    by (auto simp: checkSegmentCoverage_def)
  then show ?thesis by (rule that(1))
next
  case False
  define r where "r = (case cov_refLat s of
      Some l \<Rightarrow> (if is_finite l then l else js_or lat 0) | None \<Rightarrow> js_or lat 0)"
  let ?s = "s\<lparr>cov_refLat := Some r\<rparr>"
  obtain x y where xy: "toXY [lon, lat] r = (x, y)" by fastforce
  let ?c = "nearby ?s x y"
  note unf = checkSegmentCoverage_def [of lon lat s, folded r_def]
  show ?thesis
  proof (cases "is_finite x \<and> is_finite y")
    case True
    show ?thesis
    proof (cases "match_candidates ?s [lon, lat] ?c")
      case None
      with True False xy have "checkSegmentCoverage lon lat s = Raised ''TypeError'' ?s"
        unfolding unf by (simp add: Let_def)
      then show ?thesis using None by (rule that(3))
    next
      case (Some ids)
      with True False xy have "checkSegmentCoverage lon lat s =
          Done (if ids = [] then ?s else markSegmentsDriven ids ?s)"
        unfolding unf by (simp add: Let_def)
      then show ?thesis using that(1) [of "Some r"] that(2) [of ids "Some r"]
        by (cases "ids = []") auto
    qed
  next
    case nf: False
    with False xy have "checkSegmentCoverage lon lat s = Done ?s"
      unfolding unf by (auto simp: Let_def)
    then show ?thesis by (rule that(1))
  qed
qed

lemma checkSegmentCoverage_inv:
  "cov_inv s \<Longrightarrow> cov_inv (outcome_state (checkSegmentCoverage lon lat s))"
  by (cases rule: checkSegmentCoverage_cases [of lon lat s]) (auto intro: markSegmentsDriven_inv)

lemma checkSegmentCoverage_core:
  "core_inv s \<Longrightarrow> core_inv (outcome_state (checkSegmentCoverage lon lat s))"
  by (cases rule: checkSegmentCoverage_cases [of lon lat s]) (auto intro: markSegmentsDriven_core)

lemma cov_step_core:
  assumes inv: "core_inv (cs y)" and step: "cov_step y e z" shows "core_inv (cs z)"
  using step
proof (cases rule: cov_step.cases)
  case (loaded fs)
  then show ?thesis using load_fold_core [OF inv, of fs] by (simp add: load_succeeded_def Let_def)
qed (use inv in \<open>auto simp: add_request_def load_begin_def load_failed_def checkSegmentCoverage_core
      cov_destroy_def cov_inv_core [OF cov_reset_inv] split: prod.split\<close>)

text \<open>In orderly runs an answer meets an empty tracker: its load has reset it.\<close>

definition orderly_inv :: "cov_sys \<Rightarrow> bool" where
  "orderly_inv y \<longleftrightarrow> cov_inv (cs y) \<and> loads y \<le> 1 \<and> (0 < loads y \<longrightarrow> segmentIndex (cs y) = [])"

lemma persist_index [simp]:
  "segmentIndex (fst (persist_begin s)) = segmentIndex s"
  "segmentIndex (persist_succeeded s) = segmentIndex s"
  "segmentIndex (persist_failed ids s) = segmentIndex s"
  "segmentIndex (cov_reset s) = []"
  by (simp_all add: persist_begin_def persist_succeeded_def persist_failed_def Let_def
    notifyPersistenceIssue_def schedulePersistenceRetry_def cov_reset_def)

lemma orderly_step_inv:
  assumes inv: "orderly_inv y" and step: "orderly_step y e z" shows "orderly_inv z"
proof -
  have st: "cov_step y e z" and ord: "orderly e y" using step by (simp_all add: orderly_step_def)
  have cov: "cov_inv (cs y)" using inv by (simp add: orderly_inv_def)
  from st show ?thesis
  proof (cases rule: cov_step.cases)
    case (loaded fs)
    then have "wf_features fs" "segmentIndex (cs y) = []" "loads y = 1"
      using inv ord by (simp_all add: orderly_def orderly_inv_def)
    then show ?thesis
      using cov loaded load_fold_inv [of "cs y" fs]
      by (simp add: orderly_inv_def load_succeeded_def Let_def)
  next
    case (position lon lat)
    then show ?thesis
      using inv checkSegmentCoverage_inv [OF cov, of lon lat]
      by (auto simp: orderly_inv_def) (simp add: checkSegmentCoverage_def)
  qed (use inv ord in \<open>auto simp: orderly_inv_def orderly_def add_request_def load_begin_def
      cov_reset_inv load_failed_def cov_destroy_def persist_begin_inv persist_succeeded_inv
      persist_failed_inv split: prod.split\<close>)
qed

end
