(* ===== verification/CoverageRuns.thy ===== *)
theory CoverageRuns
  imports NavCoverage
begin

text \<open>
  Properties of the runs of the coverage tracker (\<open>NavCoverage\<close>): the data invariants, of all runs and
  of those whose loads do not overlap, the coverage statistics, position updates, the completeness of
  the spatial index, and what its persistence queue promises when requests fail, are retried and overlap.
\<close>

section \<open>The data invariant over all runs\<close>

text \<open>Every segment covered live is still queued, in a request, or acknowledged.\<close>

definition request_ids :: "(string list \<times> string option) list \<Rightarrow> string set" where
  "request_ids rs = (\<Union>r \<in> set rs. set (fst r))"

definition accounted :: "cov_sys \<Rightarrow> bool" where
  "accounted y \<longleftrightarrow> set (liveSegmentsCovered (cs y)) \<subseteq>
     set (pendingSegmentUpdates (cs y)) \<union> request_ids (inflight y) \<union> fst ` set (acked y)"

definition run_inv :: "cov_sys \<Rightarrow> bool" where
  "run_inv y \<longleftrightarrow> core_inv (cs y) \<and> accounted y"

lemma markSegmentsDriven_effect:
  fixes ids
  assumes "core_inv s"
  defines "new \<equiv> set ids \<inter> set (undrivenSegmentIds s)"
  shows "set (liveSegmentsCovered (markSegmentsDriven ids s)) = set (liveSegmentsCovered s) \<union> new"
    and "set (pendingSegmentUpdates (markSegmentsDriven ids s)) = set (pendingSegmentUpdates s) \<union> new"
    and "set (drivenSegmentIds (markSegmentsDriven ids s)) = set (drivenSegmentIds s) \<union> new"
    and "set (undrivenSegmentIds (markSegmentsDriven ids s)) = set (undrivenSegmentIds s) - new"
    and "consecutivePersistFailures (markSegmentsDriven ids s) = consecutivePersistFailures s"
    and "new \<noteq> {} \<Longrightarrow> persistSegmentsTimeout (markSegmentsDriven ids s) \<noteq> None"
proof -
  obtain t ms where t: "foldl mark_one (s, []) ids = (t, ms)" by fastforce
  note eff = mark_fold_effect [OF assms(1) t]
  show "set (liveSegmentsCovered (markSegmentsDriven ids s)) = set (liveSegmentsCovered s) \<union> new"
    "set (pendingSegmentUpdates (markSegmentsDriven ids s)) = set (pendingSegmentUpdates s) \<union> new"
    "set (drivenSegmentIds (markSegmentsDriven ids s)) = set (drivenSegmentIds s) \<union> new"
    "set (undrivenSegmentIds (markSegmentsDriven ids s)) = set (undrivenSegmentIds s) - new"
    "consecutivePersistFailures (markSegmentsDriven ids s) = consecutivePersistFailures s"
    using eff by (auto simp: markSegmentsDriven_def t Let_def queueSegmentPersistence_def new_def)
  show "new \<noteq> {} \<Longrightarrow> persistSegmentsTimeout (markSegmentsDriven ids s) \<noteq> None"
    using eff by (auto simp: markSegmentsDriven_def t Let_def queueSegmentPersistence_def new_def)
qed

lemma load_feature_frame [simp]:
  "liveSegmentsCovered (load_feature s f) = liveSegmentsCovered s"
  "pendingSegmentUpdates (load_feature s f) = pendingSegmentUpdates s"
  "consecutivePersistFailures (load_feature s f) = consecutivePersistFailures s"
  "persistSegmentsTimeout (load_feature s f) = persistSegmentsTimeout s"
  "persistRetryTimeout (load_feature s f) = persistRetryTimeout s"
  by (simp_all add: load_feature_def Let_def)

lemma load_succeeded_frame [simp]:
  "liveSegmentsCovered (load_succeeded fs s) = liveSegmentsCovered s"
  "pendingSegmentUpdates (load_succeeded fs s) = pendingSegmentUpdates s"
  "consecutivePersistFailures (load_succeeded fs s) = consecutivePersistFailures s"
  "persistSegmentsTimeout (load_succeeded fs s) = persistSegmentsTimeout s"
  "persistRetryTimeout (load_succeeded fs s) = persistRetryTimeout s"
proof -
  have "liveSegmentsCovered (foldl load_feature s fs) = liveSegmentsCovered s \<and>
    pendingSegmentUpdates (foldl load_feature s fs) = pendingSegmentUpdates s \<and>
    consecutivePersistFailures (foldl load_feature s fs) = consecutivePersistFailures s \<and>
    persistSegmentsTimeout (foldl load_feature s fs) = persistSegmentsTimeout s \<and>
    persistRetryTimeout (foldl load_feature s fs) = persistRetryTimeout s"
    by (induction fs arbitrary: s) auto
  then show "liveSegmentsCovered (load_succeeded fs s) = liveSegmentsCovered s"
    "pendingSegmentUpdates (load_succeeded fs s) = pendingSegmentUpdates s"
    "consecutivePersistFailures (load_succeeded fs s) = consecutivePersistFailures s"
    "persistSegmentsTimeout (load_succeeded fs s) = persistSegmentsTimeout s"
    "persistRetryTimeout (load_succeeded fs s) = persistRetryTimeout s"
    by (simp_all add: load_succeeded_def Let_def)
qed

lemma cov_reset_simps [simp]:
  "liveSegmentsCovered (cov_reset s) = []" "pendingSegmentUpdates (cov_reset s) = []"
  "persistSegmentsTimeout (cov_reset s) = None" "persistRetryTimeout (cov_reset s) = None"
  "consecutivePersistFailures (cov_reset s) = 0" "cov_areaId (cov_reset s) = cov_areaId s"
  by (simp_all add: cov_reset_def)

lemma persist_failed_simps [simp]:
  "liveSegmentsCovered (persist_failed ids s) = liveSegmentsCovered s"
  "pendingSegmentUpdates (persist_failed ids s) = set_add_all ids (pendingSegmentUpdates s)"
  "consecutivePersistFailures (persist_failed ids s) = consecutivePersistFailures s + 1"
  "persistSegmentsTimeout (persist_failed ids s) = persistSegmentsTimeout s"
  "cov_areaId (persist_failed ids s) = cov_areaId s"
  by (simp_all add: persist_failed_def notifyPersistenceIssue_def schedulePersistenceRetry_def Let_def)

lemma drop_nth_set: "i < length xs \<Longrightarrow> set xs \<subseteq> insert (xs ! i) (set (drop_nth i xs))"
proof -
  assume i: "i < length xs"
  have "set xs = set (take i xs @ xs ! i # drop (Suc i) xs)"
    by (simp only: id_take_nth_drop [OF i, symmetric])
  then show ?thesis by (auto simp: drop_nth_def)
qed

lemma request_ids_drop:
  assumes "i < length rs" "rs ! i = (ids, a)"
  shows "request_ids rs \<subseteq> set ids \<union> request_ids (drop_nth i rs)"
  using drop_nth_set [OF assms(1)] assms(2) by (fastforce simp: request_ids_def)

lemma request_ids_simps [simp]:
  "request_ids [] = {}" "request_ids (rs @ [(ids, a)]) = request_ids rs \<union> set ids"
  by (auto simp: request_ids_def)

lemma checkSegmentCoverage_accounted:
  assumes "core_inv s" "t = outcome_state (checkSegmentCoverage lon lat s)"
  shows "set (liveSegmentsCovered t) - set (pendingSegmentUpdates t) \<subseteq>
      set (liveSegmentsCovered s) - set (pendingSegmentUpdates s) \<and>
    set (pendingSegmentUpdates s) \<subseteq> set (pendingSegmentUpdates t)"
proof (cases rule: checkSegmentCoverage_cases [of lon lat s])
  case (2 r ids)
  have "core_inv (s\<lparr>cov_refLat := r\<rparr>)" using assms(1) by simp
  note eff = markSegmentsDriven_effect [OF this, of ids]
  show ?thesis using 2 assms(2) eff(1,2) by auto
qed (use assms(2) in auto)

lemma accounted_step:
  assumes inv: "core_inv (cs y)" and acc: "accounted y" and step: "cov_step y e z"
  shows "accounted z"
  using step
proof (cases rule: cov_step.cases)
  case (position lon lat)
  then show ?thesis
    using acc checkSegmentCoverage_accounted [OF inv refl, of lon lat] by (auto simp: accounted_def)
next
  case (persisted i ids a)
  then have "liveSegmentsCovered (cs z) = liveSegmentsCovered (cs y)"
    "pendingSegmentUpdates (cs z) = pendingSegmentUpdates (cs y)"
    "inflight z = drop_nth i (inflight y)" "fst ` set (acked z) = fst ` set (acked y) \<union> set ids"
    by (simp_all add: persist_succeeded_def image_Un image_image)
  then show ?thesis
    using acc request_ids_drop [OF persisted(3,4)] unfolding accounted_def by auto
next
  case (persist_fail i ids a)
  then have "liveSegmentsCovered (cs z) = liveSegmentsCovered (cs y)"
    "set (pendingSegmentUpdates (cs z)) = set (pendingSegmentUpdates (cs y)) \<union> set ids"
    "inflight z = drop_nth i (inflight y)" "acked z = acked y"
    by auto
  then show ?thesis
    using acc request_ids_drop [OF persist_fail(3,4)] unfolding accounted_def by auto
qed (use acc in \<open>auto simp: accounted_def add_request_def persist_begin_def load_begin_def
      load_failed_def cov_destroy_def Let_def split: if_splits\<close>)

interpretation cov: event_system cov_init cov_step run_inv
proof unfold_locales
  show "cov_init y \<Longrightarrow> run_inv y" for y
    unfolding cov_init_def run_inv_def
    using cov_inv_core [OF new_coverage_inv] by (auto simp: accounted_def) (simp add: new_coverage_def)
next
  show "run_inv y \<Longrightarrow> cov_step y e z \<Longrightarrow> run_inv z" for y e z
    unfolding run_inv_def using cov_step_core accounted_step by blast
qed

interpretation ordered: event_system cov_init orderly_step orderly_inv
proof unfold_locales
  show "cov_init y \<Longrightarrow> orderly_inv y" for y
    using new_coverage_inv by (auto simp: cov_init_def orderly_inv_def)
next
  show "orderly_inv y \<Longrightarrow> orderly_step y e z \<Longrightarrow> orderly_inv z" for y e z
    by (rule orderly_step_inv)
qed

lemma orderly_cov_inv: "reach cov_init orderly_step y \<Longrightarrow> cov_inv (cs y)"
  using ordered.reachable_inv by (simp add: orderly_inv_def)


text \<open>
  C1. In every reachable state of the tracker, whatever loads overlap, the indexed segments are the
  driven and the undriven ones together and the segments covered live are driven ones. If moreover
  the run was orderly, that is, each call of \<open>loadSegments\<close> was made with no earlier one waiting for
  its answer, and the answers repeat no identifier and carry finite lengths that are not negative,
  then no segment is both driven and undriven, and the total, driven and live lengths are the sums
  of the lengths of their segments. Overlapping loads do break the second part
  (\<open>overlapping_loads_double_total\<close> below and \<open>overlapping_loads_break_partition\<close> in
  \<open>CoverageStall\<close>).
\<close>

theorem coverage_partition:
  assumes "reach cov_init cov_step y"
  shows "set (drivenSegmentIds (cs y)) \<union> set (undrivenSegmentIds (cs y)) = fst ` set (segmentIndex (cs y)) \<and>
    set (liveSegmentsCovered (cs y)) \<subseteq> set (drivenSegmentIds (cs y)) \<and>
    (reach cov_init orderly_step y \<longrightarrow>
      set (drivenSegmentIds (cs y)) \<inter> set (undrivenSegmentIds (cs y)) = {} \<and>
      totalSegmentLength (cs y) =
        Fin (\<Sum>i \<in> fst ` set (segmentIndex (cs y)). seg_len (segmentIndex (cs y)) i) \<and>
      drivenSegmentLength (cs y) =
        Fin (\<Sum>i \<in> set (drivenSegmentIds (cs y)). seg_len (segmentIndex (cs y)) i) \<and>
      liveCoverageIncrease (cs y) =
        Fin (\<Sum>i \<in> set (liveSegmentsCovered (cs y)). seg_len (segmentIndex (cs y)) i))"
proof -
  have "core_inv (cs y)" using cov.reachable_inv [OF assms] by (simp add: run_inv_def)
  moreover have "cov_inv (cs y)" if "reach cov_init orderly_step y" using orderly_cov_inv [OF that] .
  ultimately show ?thesis by (simp add: core_inv_def cov_inv_def partition_inv_def length_inv_def)
qed

text \<open>A concrete run used by the witnesses: an area with one undriven segment is loaded.\<close>

definition demo_feature :: "string \<Rightarrow> jsnum \<Rightarrow> feature" where
  "demo_feature i lat = \<lparr>segment_id = Some i, seg_status = Some ''undriven'', length_miles = Some 1,
     seg_coordinates = Some [[0, lat], [0, lat]]\<rparr>"

definition demo_start :: cov_sys where
  "demo_start = \<lparr>cs = new_coverage cov_defaults, inflight = [], acked = [], loads = 0\<rparr>"

definition demo_loaded :: "feature list \<Rightarrow> cov_sys" where
  "demo_loaded fs = demo_start\<lparr>cs := load_succeeded fs (load_begin ''A'' (cs demo_start))\<rparr>"

lemmas cov_reach_step = reach_step [where init = cov_init and step = cov_step]

lemma demo_steps:
  fixes fs
  defines "y \<equiv> demo_start\<lparr>cs := load_begin ''A'' (cs demo_start), loads := 1\<rparr>"
  shows "cov_init demo_start" "cov_step demo_start (ELoad ''A'') y"
    "cov_step y (ELoad ''A'') (y\<lparr>loads := 2\<rparr>)"
    "cov_step y (ELoaded fs) (demo_loaded fs)"
    "cov_step (y\<lparr>loads := 2\<rparr>) (ELoaded fs) ((demo_loaded fs)\<lparr>loads := 1\<rparr>)"
proof -
  show "cov_init demo_start" by (simp add: cov_init_def demo_start_def)
  show "cov_step demo_start (ELoad ''A'') y"
    using cov_step.load [of demo_start "''A''"] by (simp add: y_def demo_start_def)
  show "cov_step y (ELoad ''A'') (y\<lparr>loads := 2\<rparr>)"
    using cov_step.load [of y "''A''"] by (simp add: y_def load_begin_def cov_reset_def demo_start_def numeral_2_eq_2)
  show "cov_step y (ELoaded fs) (demo_loaded fs)"
    using cov_step.loaded [of y fs] by (simp add: y_def demo_loaded_def demo_start_def)
  show "cov_step (y\<lparr>loads := 2\<rparr>) (ELoaded fs) ((demo_loaded fs)\<lparr>loads := 1\<rparr>)"
    using cov_step.loaded [of "y\<lparr>loads := 2\<rparr>" fs] by (simp add: y_def demo_loaded_def demo_start_def)
qed

lemma demo_loaded_orderly:
  assumes "wf_features fs" shows "reach cov_init orderly_step (demo_loaded fs)"
proof -
  let ?y = "demo_start\<lparr>cs := load_begin ''A'' (cs demo_start), loads := 1\<rparr>"
  have "orderly_step demo_start (ELoad ''A'') ?y"
    using demo_steps(2) by (simp add: orderly_step_def orderly_def demo_start_def)
  moreover have "reach cov_init orderly_step demo_start" by (rule reach_init) (rule demo_steps(1))
  ultimately have "reach cov_init orderly_step ?y" by (rule reach_step [rotated])
  moreover have "orderly_step ?y (ELoaded fs) (demo_loaded fs)"
    using demo_steps(4) assms by (simp add: orderly_step_def orderly_def)
  ultimately show ?thesis by (rule reach_step)
qed

lemmas demo_loaded_reach = orderly_reach [OF demo_loaded_orderly]

text \<open>The same area loaded twice, both loads before either answer; one answer has arrived.\<close>

lemma demo_overlap_reach: "reach cov_init cov_step ((demo_loaded fs)\<lparr>loads := 1\<rparr>)"
  using demo_steps(1,2,3,5) by (blast intro: reach.intros)

lemma demo_wf: "wf_features [demo_feature ''s1'' 0]" "wf_features [demo_feature ''s1'' 0, demo_feature ''s2'' 1]"
  by (simp_all add: wf_features_def seg_ids_def driveable_def demo_feature_def nonneg_length_def
    feature_length_def js_or_def falsy_def MI_TO_M_def)

theorem coverage_partition_witness:
  "reach cov_init orderly_step (demo_loaded [demo_feature ''s1'' 0]) \<and>
   set (drivenSegmentIds (cs (demo_loaded [demo_feature ''s1'' 0]))) \<inter>
     set (undrivenSegmentIds (cs (demo_loaded [demo_feature ''s1'' 0]))) = {}"
  using coverage_partition [OF demo_loaded_reach [OF demo_wf(1)]] demo_loaded_orderly [OF demo_wf(1)]
  by blast

text \<open>
  Two overlapping loads of one area are both applied: there is a run after which the total length is
  twice the sum of the lengths of the segments.
\<close>

theorem overlapping_loads_double_total:
  "\<exists>y. reach cov_init cov_step y \<and> fst ` set (segmentIndex (cs y)) = {''s1''} \<and>
     (\<exists>r > 0. feature_length (demo_feature ''s1'' 0) = Fin r \<and>
        seg_len (segmentIndex (cs y)) ''s1'' = r \<and> totalSegmentLength (cs y) = Fin (2 * r))"
proof -
  let ?fs = "[demo_feature ''s1'' 0]"
  define y where "y = (demo_loaded ?fs)\<lparr>loads := 1\<rparr>"
  define z where "z = y\<lparr>cs := load_succeeded ?fs (cs y), loads := 0\<rparr>"
  have "cov_step y (ELoaded ?fs) z"
    using cov_step.loaded [of y ?fs] by (simp add: y_def z_def)
  then have "reach cov_init cov_step z"
    using demo_overlap_reach [of ?fs] unfolding y_def by (rule cov_reach_step [rotated])
  moreover have "segmentIndex (cs z) = [(''s1'', demo_feature ''s1'' 0)]"
    "totalSegmentLength (cs z) = feature_length (demo_feature ''s1'' 0) + feature_length (demo_feature ''s1'' 0)"
    by (simp_all add: z_def y_def demo_loaded_def load_succeeded_def load_feature_def Let_def driveable_def
      load_begin_def cov_reset_def emit_def demo_feature_def feature_length_def js_or_def falsy_def MI_TO_M_def)
  moreover have "feature_length (demo_feature ''s1'' 0) = Fin (201168 / 125)"
    by (simp add: feature_length_def demo_feature_def js_or_def falsy_def MI_TO_M_def)
  ultimately show ?thesis
    by (intro exI [of _ z] conjI exI [of _ "201168 / 125"]) (simp_all add: seg_len_def)
qed

section \<open>The statistics\<close>

lemma driven_sum_le_total:
  assumes "cov_inv s"
  shows "0 \<le> (\<Sum>i \<in> set (drivenSegmentIds s). seg_len (segmentIndex s) i) \<and>
    (\<Sum>i \<in> set (drivenSegmentIds s). seg_len (segmentIndex s) i) \<le>
    (\<Sum>i \<in> fst ` set (segmentIndex s). seg_len (segmentIndex s) i)"
proof -
  have L: "length_inv s" and P: "partition_inv s" using assms by (simp_all add: cov_inv_def)
  have nn: "0 \<le> seg_len (segmentIndex s) i" for i
    using feature_length_seg_len(2) [OF L, of i]
    by (cases "map_of (segmentIndex s) i") (auto simp: seg_len_def)
  have "set (drivenSegmentIds s) \<subseteq> fst ` set (segmentIndex s)"
    using P by (auto simp: partition_inv_def)
  then show ?thesis using nn by (auto intro: sum_nonneg sum_mono2)
qed

text \<open>
  The percentage reported by \<open>getCoverageStats\<close> is a finite number from 0 to 100 in every
  state of an orderly run, also for an area without length, and it is 100 when no segment is left undriven
  and the area has a positive length.
\<close>

theorem coverage_percentage_bounds:
  assumes "reach cov_init orderly_step y"
  shows "\<exists>p. percentage (getCoverageStats (cs y)) = Fin p \<and> 0 \<le> p \<and> p \<le> 100 \<and>
    (undrivenSegmentIds (cs y) = [] \<and> totalSegmentLength (cs y) > 0 \<longrightarrow> p = 100)"
proof -
  let ?s = "cs y"
  define T where "T = (\<Sum>i \<in> fst ` set (segmentIndex ?s). seg_len (segmentIndex ?s) i)"
  define D where "D = (\<Sum>i \<in> set (drivenSegmentIds ?s). seg_len (segmentIndex ?s) i)"
  have inv: "cov_inv ?s" using orderly_cov_inv [OF assms] .
  then have len: "totalSegmentLength ?s = Fin T" "drivenSegmentLength ?s = Fin D"
    by (simp_all add: cov_inv_def length_inv_def T_def D_def)
  have DT: "0 \<le> D" "D \<le> T" using driven_sum_le_total [OF inv] by (simp_all add: T_def D_def)
  have full: "D = T" if "undrivenSegmentIds ?s = []"
    using inv that by (simp add: cov_inv_def partition_inv_def T_def D_def)
  show ?thesis
  proof (cases "T > 0")
    case True
    then have "percentage (getCoverageStats ?s) = Fin (D / T * 100)"
      by (simp add: getCoverageStats_def len)
    moreover have "0 \<le> D / T * 100" "D / T * 100 \<le> 100"
      using True DT by (simp_all add: divide_le_eq)
    moreover have "undrivenSegmentIds ?s = [] \<longrightarrow> D / T * 100 = 100" using full True by simp
    ultimately show ?thesis by blast
  next
    case False
    then show ?thesis by (intro exI [of _ 0]) (simp add: getCoverageStats_def len)
  qed
qed

theorem coverage_percentage_bounds_witness:
  "reach cov_init orderly_step (demo_loaded [demo_feature ''s1'' 0]) \<and>
   (\<exists>p. percentage (getCoverageStats (cs (demo_loaded [demo_feature ''s1'' 0]))) = Fin p \<and> p \<le> 100)"
  using demo_loaded_orderly [OF demo_wf(1)] coverage_percentage_bounds [OF demo_loaded_orderly [OF demo_wf(1)]]
  by blast

section \<open>Position updates\<close>

lemma candidates_iff:
  "sid \<in> set (candidates s cx cy r) \<longleftrightarrow>
    (\<exists>dx dy. - r \<le> dx \<and> dx \<le> r \<and> - r \<le> dy \<and> dy \<le> r \<and>
       sid \<in> set (bucket (spatialGrid s) (gridKey (cx + dx) (cy + dy))))"
  by (auto simp: candidates_def Bex_def)

lemma match_candidates_total:
  assumes "\<And>sid f. sid \<in> set cands \<Longrightarrow> map_of (segmentIndex s) sid = Some f \<Longrightarrow> seg_coordinates f \<noteq> None"
  shows "match_candidates s p cands \<noteq> None"
  using assms by (induction cands) (force split: option.split)+

text \<open>
  In a state of an orderly run a position update never throws: every candidate the grid yields has
  coordinates, so \<open>feature.geometry.coordinates\<close> is never read from a feature without geometry.
\<close>

theorem checkSegmentCoverage_no_throw:
  assumes "reach cov_init orderly_step y"
  shows "\<exists>t. checkSegmentCoverage lon lat (cs y) = Done t"
proof (cases rule: checkSegmentCoverage_cases [of lon lat "cs y"])
  case (3 r x' y')
  have G: "grid_inv (cs y)" using orderly_cov_inv [OF assms] by (simp add: cov_inv_def)
  have "match_candidates ((cs y)\<lparr>cov_refLat := r\<rparr>) [lon, lat] (nearby ((cs y)\<lparr>cov_refLat := r\<rparr>) x' y') \<noteq> None"
    using G by (intro match_candidates_total) (auto simp: nearby_def Let_def candidates_iff grid_inv_def)
  with 3 show ?thesis by simp
qed auto

theorem checkSegmentCoverage_no_throw_witness:
  "reach cov_init orderly_step (demo_loaded [demo_feature ''s1'' 0]) \<and>
   (\<exists>t. checkSegmentCoverage 0 0 (cs (demo_loaded [demo_feature ''s1'' 0])) = Done t)"
  using demo_loaded_orderly [OF demo_wf(1)] checkSegmentCoverage_no_throw [OF demo_loaded_orderly [OF demo_wf(1)]]
  by blast


text \<open>A segment within the matching threshold of a position.\<close>

definition close_to :: "coverage \<Rightarrow> coord \<Rightarrow> string \<Rightarrow> bool" where
  "close_to s p sid \<longleftrightarrow> (\<exists>f c. map_of (segmentIndex s) sid = Some f \<and> seg_coordinates f = Some c \<and>
     distanceToLineString p c \<le> segmentMatchThresholdMeters (cov_cfg s))"

lemma match_candidates_set:
  "match_candidates s p cands = Some ids \<Longrightarrow>
   set ids = {sid \<in> set cands. sid \<in> set (undrivenSegmentIds s) \<and> close_to s p sid}"
proof (induction cands arbitrary: ids)
  case Nil
  then show ?case by simp
next
  case (Cons c cands)
  show ?case
  proof (cases "c \<in> set (undrivenSegmentIds s) \<and> map_of (segmentIndex s) c \<noteq> None")
    case True
    then obtain f where f: "map_of (segmentIndex s) c = Some f" by blast
    then obtain cc rest where cc: "seg_coordinates f = Some cc"
      and rest: "match_candidates s p cands = Some rest"
      and ids: "ids = (if distanceToLineString p cc \<le> segmentMatchThresholdMeters (cov_cfg s)
        then c # rest else rest)"
      using Cons.prems True by (auto split: option.splits)
    show ?thesis using Cons.IH [OF rest] ids True f cc by (auto simp: close_to_def)
  next
    case False
    then have "match_candidates s p cands = Some ids"
      using Cons.prems by (auto split: if_splits option.splits)
    from Cons.IH [OF this] False show ?thesis by (auto simp: close_to_def)
  qed
qed

lemma nearby_refLat [simp]: "nearby (s\<lparr>cov_refLat := r\<rparr>) = nearby s"
  by (simp add: nearby_def candidates_def radiusCells_def cellSize_def fun_eq_iff)

lemma close_to_refLat [simp]: "close_to (s\<lparr>cov_refLat := r\<rparr>) = close_to s"
  by (simp add: close_to_def fun_eq_iff)

text \<open>
  The undriven segments near a position whose feature has no coordinates: the loop over the
  candidates throws when it meets one.
\<close>

definition bare_near :: "coverage \<Rightarrow> jsnum \<Rightarrow> jsnum \<Rightarrow> string set" where
  "bare_near s x y = {sid \<in> set (nearby s x y). sid \<in> set (undrivenSegmentIds s) \<and>
     (\<exists>f. map_of (segmentIndex s) sid = Some f \<and> seg_coordinates f = None)}"

lemma match_candidates_None:
  "match_candidates s p cands = None \<longleftrightarrow>
    (\<exists>sid \<in> set cands. sid \<in> set (undrivenSegmentIds s) \<and>
       (\<exists>f. map_of (segmentIndex s) sid = Some f \<and> seg_coordinates f = None))"
  by (induction cands) (auto split: option.splits)

lemma cov_inv_bare: "cov_inv s \<Longrightarrow> bare_near s (Fin x) (Fin y) = {}"
  by (fastforce simp: bare_near_def nearby_def Let_def candidates_iff cov_inv_def grid_inv_def)

lemma checkSegmentCoverage_result:
  assumes inv: "core_inv s" and r: "cov_refLat s = Some (Fin l)"
    and xy: "toXY [lon, lat] (Fin l) = (Fin x, Fin y)"
  shows "if bare_near s (Fin x) (Fin y) \<noteq> {} then checkSegmentCoverage lon lat s = Raised ''TypeError'' s
    else \<exists>t. checkSegmentCoverage lon lat s = Done t \<and>
    (let new = {sid \<in> set (nearby s (Fin x) (Fin y)). sid \<in> set (undrivenSegmentIds s) \<and>
          close_to s [lon, lat] sid}
     in set (drivenSegmentIds t) = set (drivenSegmentIds s) \<union> new \<and>
        set (undrivenSegmentIds t) = set (undrivenSegmentIds s) - new \<and>
        set (liveSegmentsCovered t) = set (liveSegmentsCovered s) \<union> new \<and>
        set (pendingSegmentUpdates t) = set (pendingSegmentUpdates s) \<union> new \<and>
        (new \<noteq> {} \<longrightarrow> persistSegmentsTimeout t \<noteq> None))"
proof (cases "segmentIndex s = [] \<or> undrivenSegmentIds s = []")
  case True
  then have "bare_near s (Fin x) (Fin y) = {}" by (auto simp: bare_near_def)
  with True show ?thesis by (auto simp: checkSegmentCoverage_def close_to_def Let_def)
next
  case False
  have s_eq: "s\<lparr>cov_refLat := Some (Fin l)\<rparr> = s" using r by simp
  let ?m = "match_candidates s [lon, lat] (nearby s (Fin x) (Fin y))"
  have unf: "checkSegmentCoverage lon lat s = (case ?m of None \<Rightarrow> Raised ''TypeError'' s
      | Some ids \<Rightarrow> Done (if ids = [] then s else markSegmentsDriven ids s))"
    using False r xy by (simp add: checkSegmentCoverage_def s_eq)
  have bare: "bare_near s (Fin x) (Fin y) \<noteq> {} \<longleftrightarrow> ?m = None"
    unfolding match_candidates_None by (auto simp: bare_near_def)
  show ?thesis
  proof (cases ?m)
    case None
    then show ?thesis using bare unf by simp
  next
    case (Some ids)
    have new: "set ids = {sid \<in> set (nearby s (Fin x) (Fin y)). sid \<in> set (undrivenSegmentIds s) \<and>
        close_to s [lon, lat] sid}"
      using match_candidates_set [OF Some] by simp
    have sub: "set ids \<inter> set (undrivenSegmentIds s) = set ids" using new by auto
    note eff = markSegmentsDriven_effect [OF inv, of ids, unfolded sub]
    have nb: "\<not> bare_near s (Fin x) (Fin y) \<noteq> {}" using bare Some by simp
    show ?thesis
      unfolding Let_def new [symmetric] if_not_P [OF nb]
      by (rule exI [of _ "if ids = [] then s else markSegmentsDriven ids s"])
        (use unf Some eff in auto)
  qed
qed

lemma checkSegmentCoverage_marks:
  assumes inv: "cov_inv s" and r: "cov_refLat s = Some (Fin l)"
    and xy: "toXY [lon, lat] (Fin l) = (Fin x, Fin y)"
  shows "\<exists>t. checkSegmentCoverage lon lat s = Done t \<and>
    (let new = {sid \<in> set (nearby s (Fin x) (Fin y)). sid \<in> set (undrivenSegmentIds s) \<and>
          close_to s [lon, lat] sid}
     in set (drivenSegmentIds t) = set (drivenSegmentIds s) \<union> new \<and>
        set (undrivenSegmentIds t) = set (undrivenSegmentIds s) - new \<and>
        set (liveSegmentsCovered t) = set (liveSegmentsCovered s) \<union> new \<and>
        set (pendingSegmentUpdates t) = set (pendingSegmentUpdates s) \<union> new \<and>
        (new \<noteq> {} \<longrightarrow> persistSegmentsTimeout t \<noteq> None))"
  using checkSegmentCoverage_result [OF cov_inv_core [OF inv] r xy] cov_inv_bare [OF inv, of x y] by simp

text \<open>
  C4. In every reachable state a position update at a finite position drives exactly the right
  segments. Unless an undriven segment near the position has lost its coordinates, it ends normally:
  the driven, live and pending sets grow, and the undriven set shrinks, by precisely the undriven
  segments near the position's grid cell whose line is within the matching threshold, and if there
  is one the debounced write to the server is armed. If there is a segment without coordinates
  (only a second, overlapping answer can replace a feature by one without geometry), it throws
  before anything is moved; in orderly runs this never happens.
\<close>

theorem checkSegmentCoverage_spec:
  assumes "reach cov_init cov_step y" "cov_refLat (cs y) = Some (Fin l)"
    and "toXY [lon, lat] (Fin l) = (Fin x, Fin x')"
  shows "(if bare_near (cs y) (Fin x) (Fin x') \<noteq> {}
     then checkSegmentCoverage lon lat (cs y) = Raised ''TypeError'' (cs y)
     else \<exists>t. checkSegmentCoverage lon lat (cs y) = Done t \<and>
      (let new = {sid \<in> set (nearby (cs y) (Fin x) (Fin x')). sid \<in> set (undrivenSegmentIds (cs y)) \<and>
            close_to (cs y) [lon, lat] sid}
       in set (drivenSegmentIds t) = set (drivenSegmentIds (cs y)) \<union> new \<and>
          set (undrivenSegmentIds t) = set (undrivenSegmentIds (cs y)) - new \<and>
          set (liveSegmentsCovered t) = set (liveSegmentsCovered (cs y)) \<union> new \<and>
          set (pendingSegmentUpdates t) = set (pendingSegmentUpdates (cs y)) \<union> new \<and>
          (new \<noteq> {} \<longrightarrow> persistSegmentsTimeout t \<noteq> None))) \<and>
    (reach cov_init orderly_step y \<longrightarrow> bare_near (cs y) (Fin x) (Fin x') = {})"
proof (intro conjI impI)
  show "bare_near (cs y) (Fin x) (Fin x') = {}" if "reach cov_init orderly_step y"
    using cov_inv_bare [OF orderly_cov_inv [OF that]] .
  have "core_inv (cs y)" using cov.reachable_inv [OF assms(1)] by (simp add: run_inv_def)
  from checkSegmentCoverage_result [OF this assms(2,3)]
  show "if bare_near (cs y) (Fin x) (Fin x') \<noteq> {}
     then checkSegmentCoverage lon lat (cs y) = Raised ''TypeError'' (cs y)
     else \<exists>t. checkSegmentCoverage lon lat (cs y) = Done t \<and>
      (let new = {sid \<in> set (nearby (cs y) (Fin x) (Fin x')). sid \<in> set (undrivenSegmentIds (cs y)) \<and>
            close_to (cs y) [lon, lat] sid}
       in set (drivenSegmentIds t) = set (drivenSegmentIds (cs y)) \<union> new \<and>
          set (undrivenSegmentIds t) = set (undrivenSegmentIds (cs y)) - new \<and>
          set (liveSegmentsCovered t) = set (liveSegmentsCovered (cs y)) \<union> new \<and>
          set (pendingSegmentUpdates t) = set (pendingSegmentUpdates (cs y)) \<union> new \<and>
          (new \<noteq> {} \<longrightarrow> persistSegmentsTimeout t \<noteq> None))" .
qed

section \<open>Completeness of the spatial index\<close>

lemma toXY_Fin:
  assumes "finite_coord c" obtains x y where "toXY c (Fin l) = (Fin x, Fin y)"
  using assms by (auto simp: toXY_def finite_coord_def is_finite_iff EARTH_RADIUS_M_def)

definition good_coord :: "coord \<Rightarrow> bool" where
  "good_coord c \<longleftrightarrow> 2 \<le> length c \<and> finite_coord c"

lemma segment_bbox_bounds:
  fixes cs :: "coord list"
  assumes "cs \<noteq> []" "\<forall>c \<in> set cs. good_coord c"
  shows "\<exists>a b c d. segment_bbox (Fin l) cs = (Fin a, Fin b, Fin c, Fin d) \<and>
    (\<forall>p \<in> set cs. \<forall>x y. toXY p (Fin l) = (Fin x, Fin y) \<longrightarrow> a \<le> x \<and> x \<le> c \<and> b \<le> y \<and> y \<le> d)"
  using assms
proof (induction cs rule: rev_nonempty_induct)
  case (single p)
  then have "finite_coord p" by (simp add: good_coord_def)
  then obtain x y where "toXY p (Fin l) = (Fin x, Fin y)" by (rule toXY_Fin)
  then show ?case using single by (simp add: segment_bbox_def extend_bbox_def good_coord_def)
next
  case (snoc p cs)
  then have "finite_coord p" by (simp add: good_coord_def)
  then obtain x y where xy: "toXY p (Fin l) = (Fin x, Fin y)" by (rule toXY_Fin)
  from snoc obtain a b c d where bb: "segment_bbox (Fin l) cs = (Fin a, Fin b, Fin c, Fin d)"
    and in_bb: "\<forall>p \<in> set cs. \<forall>x y. toXY p (Fin l) = (Fin x, Fin y) \<longrightarrow> a \<le> x \<and> x \<le> c \<and> b \<le> y \<and> y \<le> d"
    by auto
  have "segment_bbox (Fin l) (cs @ [p]) = (Fin (min a x), Fin (min b y), Fin (max c x), Fin (max d y))"
    using bb xy snoc.prems by (simp add: segment_bbox_def extend_bbox_def good_coord_def)
  moreover have "\<forall>q \<in> set (cs @ [p]). \<forall>u v. toXY q (Fin l) = (Fin u, Fin v) \<longrightarrow>
      min a x \<le> u \<and> u \<le> max c x \<and> min b y \<le> v \<and> v \<le> max d y"
    using in_bb xy by fastforce
  ultimately show ?case by blast
qed

lemma floor_near:
  fixes x X C :: real and r :: int
  assumes "0 < C" "\<bar>x - X\<bar> \<le> C * of_int r"
  shows "\<bar>\<lfloor>X / C\<rfloor> - \<lfloor>x / C\<rfloor>\<bar> \<le> r"
proof -
  have "X / C \<le> x / C + of_int r" "x / C \<le> X / C + of_int r"
    using assms by (simp_all add: field_simps abs_le_iff)
  then have "\<lfloor>X / C\<rfloor> \<le> \<lfloor>x / C + of_int r\<rfloor>" "\<lfloor>x / C\<rfloor> \<le> \<lfloor>X / C + of_int r\<rfloor>"
    by (simp_all only: floor_mono)
  then show ?thesis by simp
qed

lemma convex_between:
  fixes a b lo hi t :: real
  assumes "lo \<le> a" "a \<le> hi" "lo \<le> b" "b \<le> hi" "0 \<le> t" "t \<le> 1"
  shows "lo \<le> a + t * (b - a)" "a + t * (b - a) \<le> hi"
proof -
  have eq: "a + t * (b - a) = (1 - t) * a + t * b" by (simp add: algebra_simps)
  have "(1 - t) * lo + t * lo \<le> (1 - t) * a + t * b" "(1 - t) * a + t * b \<le> (1 - t) * hi + t * hi"
    using assms by (intro add_mono mult_left_mono; simp)+
  then show "lo \<le> a + t * (b - a)" "a + t * (b - a) \<le> hi" unfolding eq by (simp_all add: algebra_simps)
qed

lemma default_cells: "cov_cfg s = cov_defaults \<Longrightarrow> cellSize s = Fin 160 \<and> radiusCells s = 1"
  by (simp add: cellSize_def radiusCells_def cov_defaults_def js_or_def falsy_def int_of_def ceiling_le_iff)

lemma indexUndrivenSegment_cfg [simp]: "cov_cfg (indexUndrivenSegment i c s) = cov_cfg s"
  by (simp add: indexUndrivenSegment_def Let_def split: option.split prod.split)

text \<open>
  C5. The spatial index misses no segment: with the default configuration, after a segment is
  indexed, a position within 160 metres (a cell; in particular within the matching threshold of
  25 metres) of any point of the segment, measured along both axes of the index's projection, has
  the segment among the candidates that \<open>checkSegmentCoverage\<close> examines.
\<close>

theorem spatial_index_complete:
  fixes cs :: "coord list"
  assumes "cov_cfg s = cov_defaults" "cov_refLat s = Some (Fin l)" "sid \<noteq> []"
    and "\<forall>c \<in> set cs. good_coord c" "i + 1 < length cs" "0 \<le> t" "t \<le> 1"
    and "toXY (cs ! i) (Fin l) = (Fin ax, Fin ay)" "toXY (cs ! (i + 1)) (Fin l) = (Fin bx, Fin yb)"
    and "\<bar>x - (ax + t * (bx - ax))\<bar> \<le> 160" "\<bar>y - (ay + t * (yb - ay))\<bar> \<le> 160"
  shows "sid \<in> set (nearby (indexUndrivenSegment sid (Some cs) s) (Fin x) (Fin y))"
proof -
  let ?s' = "indexUndrivenSegment sid (Some cs) s"
  have ne: "cs \<noteq> []" using assms(5) by auto
  obtain a b c d where bb: "segment_bbox (Fin l) cs = (Fin a, Fin b, Fin c, Fin d)"
    and in_bb: "\<forall>p \<in> set cs. \<forall>x y. toXY p (Fin l) = (Fin x, Fin y) \<longrightarrow> a \<le> x \<and> x \<le> c \<and> b \<le> y \<and> y \<le> d"
    using segment_bbox_bounds [OF ne assms(4)] by blast
  define X where "X = ax + t * (bx - ax)"
  define Y where "Y = ay + t * (yb - ay)"
  have mem: "cs ! i \<in> set cs" "cs ! (i + 1) \<in> set cs" using assms(5) by simp_all
  have corners: "a \<le> ax" "ax \<le> c" "b \<le> ay" "ay \<le> d" "a \<le> bx" "bx \<le> c" "b \<le> yb" "yb \<le> d"
    using in_bb mem assms(8,9) by blast+
  have box: "a \<le> X" "X \<le> c" "b \<le> Y" "Y \<le> d"
    unfolding X_def Y_def using corners assms(6,7) by (auto intro: convex_between)
  have cells: "\<lfloor>a / 160\<rfloor> \<le> \<lfloor>X / 160\<rfloor>" "\<lfloor>X / 160\<rfloor> \<le> \<lfloor>c / 160\<rfloor>"
    "\<lfloor>b / 160\<rfloor> \<le> \<lfloor>Y / 160\<rfloor>" "\<lfloor>Y / 160\<rfloor> \<le> \<lfloor>d / 160\<rfloor>"
    using box by (auto intro!: floor_mono divide_right_mono)
  have near: "\<bar>\<lfloor>X / 160\<rfloor> - \<lfloor>x / 160\<rfloor>\<bar> \<le> 1" "\<bar>\<lfloor>Y / 160\<rfloor> - \<lfloor>y / 160\<rfloor>\<bar> \<le> 1"
    using assms(10,11) unfolding X_def Y_def by (auto intro!: floor_near)
  have cfg: "cellSize (s\<lparr>cov_refLat := Some (Fin l)\<rparr>) = Fin 160"
    using assms(1) default_cells [of "s\<lparr>cov_refLat := Some (Fin l)\<rparr>"] by simp
  have grid: "spatialGrid ?s' = grid_add sid (cell_keys \<lfloor>a / 160\<rfloor> \<lfloor>c / 160\<rfloor> \<lfloor>b / 160\<rfloor> \<lfloor>d / 160\<rfloor>) (spatialGrid s)"
    using assms(2,3,5) bb cfg by (simp add: indexUndrivenSegment_def index_refLat_def int_of_def Let_def)
  have "gridKey \<lfloor>X / 160\<rfloor> \<lfloor>Y / 160\<rfloor> \<in> set (cell_keys \<lfloor>a / 160\<rfloor> \<lfloor>c / 160\<rfloor> \<lfloor>b / 160\<rfloor> \<lfloor>d / 160\<rfloor>)"
    using cells by (auto simp: cell_keys_iff)
  then have "sid \<in> set (bucket (spatialGrid ?s') (gridKey (\<lfloor>x / 160\<rfloor> + (\<lfloor>X / 160\<rfloor> - \<lfloor>x / 160\<rfloor>))
      (\<lfloor>y / 160\<rfloor> + (\<lfloor>Y / 160\<rfloor> - \<lfloor>y / 160\<rfloor>))))"
    by (simp add: grid grid_add_bucket)
  then have "sid \<in> set (candidates ?s' \<lfloor>x / 160\<rfloor> \<lfloor>y / 160\<rfloor> 1)"
    unfolding candidates_iff using near
    by (intro exI [of _ "\<lfloor>X / 160\<rfloor> - \<lfloor>x / 160\<rfloor>"] exI [of _ "\<lfloor>Y / 160\<rfloor> - \<lfloor>y / 160\<rfloor>"])
      (auto simp: abs_le_iff)
  then show ?thesis
    using default_cells [of ?s'] assms(1) by (simp add: nearby_def int_of_def)
qed

theorem spatial_index_complete_witness:
  "''s1'' \<in> set (nearby (indexUndrivenSegment ''s1'' (Some [[0, 0], [0, 0]])
     ((new_coverage cov_defaults)\<lparr>cov_refLat := Some (Fin 0)\<rparr>)) (Fin 25) (Fin 25))"
  by (rule spatial_index_complete [where l = 0 and i = 0 and t = 0 and ax = 0 and ay = 0 and bx = 0 and yb = 0])
    (auto simp: new_coverage_def good_coord_def finite_coord_def toXY_def rad_def EARTH_RADIUS_M_def
      less_Suc_eq)


section \<open>Persistence\<close>

text \<open>
  C2. No covered segment is forgotten by the persistence queue: in every reachable state, whatever
  requests fail, succeed or overlap, each segment covered live since the last reset is still
  pending, in a request in flight, or acknowledged by the server.
\<close>

theorem persistence_no_lost_update:
  assumes "reach cov_init cov_step y" "sid \<in> set (liveSegmentsCovered (cs y))"
  shows "sid \<in> set (pendingSegmentUpdates (cs y)) \<or> (\<exists>r \<in> set (inflight y). sid \<in> set (fst r)) \<or>
    sid \<in> fst ` set (acked y)"
  using cov.reachable_inv [OF assms(1)] assms(2)
  unfolding run_inv_def accounted_def request_ids_def by blast

text \<open>
  The delay of every scheduled retry is between 5 and 30 seconds and doubles from one failure to
  the next until the cap; a retry is scheduled exactly for the first four failures in a row, the
  fifth stops the retries and is reported as exhausted; in all cases the failed segments are queued
  again.
\<close>

theorem persist_failed_backoff:
  "set (pendingSegmentUpdates (persist_failed ids s)) = set (pendingSegmentUpdates s) \<union> set ids \<and>
    (consecutivePersistFailures s < 4 \<longrightarrow>
       (\<exists>d. persistRetryTimeout (persist_failed ids s) = Some d \<and>
          d = min (5000 * 2 ^ consecutivePersistFailures s) 30000 \<and> 5000 \<le> d \<and> d \<le> 30000 \<and>
          last (outs (persist_failed ids s)) =
            PersistenceIssue (RetryScheduled (consecutivePersistFailures s + 1) d (length ids)))) \<and>
    (4 \<le> consecutivePersistFailures s \<longrightarrow> persistRetryTimeout (persist_failed ids s) = None \<and>
       last (outs (persist_failed ids s)) =
         PersistenceIssue (RetryExhausted (consecutivePersistFailures s + 1) (length ids)))"
proof -
  have pow: "(1 :: int) \<le> 2 ^ n" for n :: nat by simp
  have low: "5000 \<le> min (5000 * 2 ^ n) (30000 :: int)"
    "max 1000 (min (5000 * 2 ^ n) 30000) = min (5000 * 2 ^ n) (30000 :: int)" for n :: nat
    using pow [of n] by linarith+
  show ?thesis
    by (simp add: persist_failed_def Let_def notifyPersistenceIssue_def schedulePersistenceRetry_def
        emit_def maxPersistRetries_def retry_delay_def persistRetryBaseMs_def persistRetryMaxMs_def low
        del: min.bounded_iff min.assoc min.left_idem min.right_idem)
qed

theorem persist_failed_backoff_witness:
  "persistRetryTimeout (persist_failed [''s1''] (new_coverage cov_defaults)) = Some 5000"
  using persist_failed_backoff [of "[''s1'']" "new_coverage cov_defaults"]
  by (simp add: new_coverage_def)

subsection \<open>Progress when requests do not overlap\<close>

text \<open>The runs in which a timer fires, and navigation flushes, only while no request is in flight.\<close>

definition calm :: "cov_event \<Rightarrow> cov_sys \<Rightarrow> bool" where
  "calm e y \<longleftrightarrow> (e \<in> {EDebounce, ERetry, EFlush, EDestroy} \<longrightarrow> inflight y = [])"

definition calm_step :: "cov_sys \<Rightarrow> cov_event \<Rightarrow> cov_sys \<Rightarrow> bool" where
  "calm_step y e z \<longleftrightarrow> cov_step y e z \<and> calm e y"

definition progress_inv :: "cov_sys \<Rightarrow> bool" where
  "progress_inv y \<longleftrightarrow> core_inv (cs y) \<and> length (inflight y) \<le> 1 \<and>
     (pendingSegmentUpdates (cs y) \<noteq> [] \<longrightarrow> persistSegmentsTimeout (cs y) \<noteq> None \<or>
        inflight y = [] \<and> (persistRetryTimeout (cs y) \<noteq> None \<or>
          maxPersistRetries \<le> consecutivePersistFailures (cs y)))"

lemma markSegmentsDriven_progress:
  assumes "core_inv s"
  shows "persistSegmentsTimeout (markSegmentsDriven ids s) \<noteq> None \<or>
    pendingSegmentUpdates (markSegmentsDriven ids s) = pendingSegmentUpdates s \<and>
    persistSegmentsTimeout (markSegmentsDriven ids s) = persistSegmentsTimeout s \<and>
    persistRetryTimeout (markSegmentsDriven ids s) = persistRetryTimeout s \<and>
    consecutivePersistFailures (markSegmentsDriven ids s) = consecutivePersistFailures s"
proof -
  obtain t ms where t: "foldl mark_one (s, []) ids = (t, ms)" by fastforce
  have timers: "persistSegmentsTimeout t = persistSegmentsTimeout s \<and>
      persistRetryTimeout t = persistRetryTimeout s"
    if "foldl mark_one (s, ns) ids = (t, ms)" for s ns
    using that
  proof (induction ids arbitrary: s ns)
    case Nil
    then show ?case by simp
  next
    case (Cons i ids)
    obtain s' ns' where m: "mark_one (s, ns) i = (s', ns')" by fastforce
    then have "persistSegmentsTimeout s' = persistSegmentsTimeout s \<and>
        persistRetryTimeout s' = persistRetryTimeout s"
      by (auto simp: mark_one_def Let_def split: if_splits option.splits)
    then show ?case using Cons m by auto
  qed
  show ?thesis
    using mark_fold_effect [OF assms t] timers [OF t]
    by (auto simp: markSegmentsDriven_def t Let_def queueSegmentPersistence_def)
qed

lemma persist_failed_timer:
  "persistRetryTimeout (persist_failed ids s) \<noteq> None \<or>
   maxPersistRetries \<le> consecutivePersistFailures (persist_failed ids s)"
  by (simp add: persist_failed_def Let_def notifyPersistenceIssue_def schedulePersistenceRetry_def)

lemma progress_position:
  assumes "progress_inv y" shows "progress_inv (y\<lparr>cs := outcome_state (checkSegmentCoverage lon lat (cs y))\<rparr>)"
proof (cases rule: checkSegmentCoverage_cases [of lon lat "cs y"])
  case (2 r ids)
  have inv: "core_inv ((cs y)\<lparr>cov_refLat := r\<rparr>)" using assms by (simp add: progress_inv_def)
  show ?thesis
    using assms 2 markSegmentsDriven_progress [OF inv, of ids] markSegmentsDriven_core [OF inv, of ids]
    by (auto simp: progress_inv_def)
qed (use assms in \<open>auto simp: progress_inv_def\<close>)

lemma progress_step:
  assumes inv: "progress_inv y" and step: "calm_step y e z" shows "progress_inv z"
proof -
  have cov: "core_inv (cs z)"
    using inv step cov_step_core by (auto simp: progress_inv_def calm_step_def)
  have st: "cov_step y e z" and cl: "calm e y" using step by (simp_all add: calm_step_def)
  from st show ?thesis
  proof (cases rule: cov_step.cases)
    case (position lon lat)
    then show ?thesis using progress_position [OF inv] by simp
  next
    case (persisted i ids a)
    have "drop_nth i (inflight y) = []"
      using persisted inv by (cases "inflight y") (auto simp: progress_inv_def drop_nth_def)
    then show ?thesis using persisted inv cov
      by (auto simp: progress_inv_def persist_succeeded_def)
  next
    case (persist_fail i ids a)
    have "drop_nth i (inflight y) = []"
      using persist_fail inv by (cases "inflight y") (auto simp: progress_inv_def drop_nth_def)
    then show ?thesis using persist_fail cov persist_failed_timer [of ids "cs y"]
      by (auto simp: progress_inv_def)
  qed (use inv cov cl in \<open>auto simp: progress_inv_def calm_def add_request_def persist_begin_def
        load_begin_def load_failed_def cov_destroy_def Let_def split: if_splits\<close>)
qed

interpretation calm: event_system cov_init calm_step progress_inv
proof unfold_locales
  show "cov_init y \<Longrightarrow> progress_inv y" for y
    unfolding cov_init_def progress_inv_def
    using cov_inv_core [OF new_coverage_inv] by (auto simp: new_coverage_def)
next
  show "progress_inv y \<Longrightarrow> calm_step y e z \<Longrightarrow> progress_inv z" for y e z
    by (rule progress_step)
qed

text \<open>
  C16. The queue makes progress as long as requests do not overlap: in every such run, pending
  segments are waiting for an armed timer, or a request is in flight and the debounce timer is
  armed, or five failures in a row have paused the retries.
\<close>

theorem persistence_progress:
  assumes "reach cov_init calm_step y" "pendingSegmentUpdates (cs y) \<noteq> []"
  shows "persistSegmentsTimeout (cs y) \<noteq> None \<or>
    inflight y = [] \<and> (persistRetryTimeout (cs y) \<noteq> None \<or>
      maxPersistRetries \<le> consecutivePersistFailures (cs y))"
  using calm.reachable_inv [OF assms(1)] assms(2) by (simp add: progress_inv_def)


end
