(* ===== verification/CoverageStall.thy ===== *)
theory CoverageStall
  imports CoverageRuns
begin

text \<open>
  Defects of the coverage tracker, each shown by a run: the answers of two overlapping loads make a
  segment driven and undriven at once, overlapping requests can leave pending segments with no timer
  armed, and a request that fails after the area was changed queues its segments for the wrong area.
\<close>

section \<open>Facts that position updates keep\<close>

lemma grid_remove_other:
  "i \<noteq> sid \<Longrightarrow> i \<in> set (bucket (grid_remove sid keys g) k) \<longleftrightarrow> i \<in> set (bucket g k)"
  by (simp add: grid_remove_bucket)

lemma mark_one_frame:
  assumes "mark_one (s, ns) sid = (t, ms)"
  shows "segmentIndex t = segmentIndex s" "cov_cfg t = cov_cfg s" "cov_refLat t = cov_refLat s"
    "cov_areaId t = cov_areaId s" "persistRetryTimeout t = persistRetryTimeout s"
    "i \<noteq> sid \<Longrightarrow> i \<in> set (bucket (spatialGrid t) k) \<longleftrightarrow> i \<in> set (bucket (spatialGrid s) k)"
  using assms
  by (auto simp: mark_one_def Let_def unindexSegment_def grid_remove_other
      split: if_splits option.splits)

lemma mark_fold_frame:
  "foldl mark_one (s, ns) ids = (t, ms) \<Longrightarrow>
   segmentIndex t = segmentIndex s \<and> cov_cfg t = cov_cfg s \<and> cov_refLat t = cov_refLat s \<and>
   cov_areaId t = cov_areaId s \<and> persistRetryTimeout t = persistRetryTimeout s \<and>
   (\<forall>i k. i \<notin> set ids \<longrightarrow> (i \<in> set (bucket (spatialGrid t) k) \<longleftrightarrow> i \<in> set (bucket (spatialGrid s) k)))"
proof (induction ids arbitrary: s ns)
  case Nil
  then show ?case by simp
next
  case (Cons i ids)
  obtain s' ns' where m: "mark_one (s, ns) i = (s', ns')" by fastforce
  then show ?case using Cons mark_one_frame [OF m] by auto
qed

lemma markSegmentsDriven_frame:
  shows "segmentIndex (markSegmentsDriven ids s) = segmentIndex s"
    "cov_cfg (markSegmentsDriven ids s) = cov_cfg s"
    "cov_refLat (markSegmentsDriven ids s) = cov_refLat s"
    "cov_areaId (markSegmentsDriven ids s) = cov_areaId s"
    "persistRetryTimeout s = None \<Longrightarrow> persistRetryTimeout (markSegmentsDriven ids s) = None"
    "i \<notin> set ids \<Longrightarrow> i \<in> set (bucket (spatialGrid (markSegmentsDriven ids s)) k) \<longleftrightarrow>
       i \<in> set (bucket (spatialGrid s) k)"
proof -
  obtain t ms where t: "foldl mark_one (s, []) ids = (t, ms)" by fastforce
  note f = mark_fold_frame [OF t]
  show "segmentIndex (markSegmentsDriven ids s) = segmentIndex s"
    "cov_cfg (markSegmentsDriven ids s) = cov_cfg s"
    "cov_refLat (markSegmentsDriven ids s) = cov_refLat s"
    "cov_areaId (markSegmentsDriven ids s) = cov_areaId s"
    "persistRetryTimeout s = None \<Longrightarrow> persistRetryTimeout (markSegmentsDriven ids s) = None"
    "i \<notin> set ids \<Longrightarrow> i \<in> set (bucket (spatialGrid (markSegmentsDriven ids s)) k) \<longleftrightarrow>
       i \<in> set (bucket (spatialGrid s) k)"
    using f by (simp_all add: markSegmentsDriven_def t Let_def queueSegmentPersistence_def
      onSegmentsCompleted_def showSegmentCompletionPopup_def emit_def)
qed

text \<open>
  What the run below needs of a tracker: the segment is undriven, indexed near the point and close
  to it.
\<close>

definition hit :: "coverage \<Rightarrow> jsnum \<Rightarrow> jsnum \<Rightarrow> string \<Rightarrow> bool" where
  "hit s lon lat sid \<longleftrightarrow> (\<exists>x y. toXY [lon, lat] (Fin 0) = (Fin x, Fin y) \<and>
     sid \<in> set (nearby s (Fin x) (Fin y)) \<and> sid \<in> set (undrivenSegmentIds s) \<and>
     close_to s [lon, lat] sid)"

definition quiet :: "coverage \<Rightarrow> bool" where
  "quiet s \<longleftrightarrow> cov_inv s \<and> cov_refLat s = Some (Fin 0) \<and> pendingSegmentUpdates s = [] \<and>
     persistRetryTimeout s = None \<and> consecutivePersistFailures s = 0"

lemma position_hit:
  assumes q: "quiet s" and h: "hit s lon lat sid"
  obtains t where "checkSegmentCoverage lon lat s = Done t" "pendingSegmentUpdates t \<noteq> []"
    "persistSegmentsTimeout t \<noteq> None" "quiet (t\<lparr>pendingSegmentUpdates := []\<rparr>)"
    "\<And>lon' lat' i. hit s lon' lat' i \<Longrightarrow> \<not> close_to s [lon, lat] i \<Longrightarrow> hit t lon' lat' i"
proof -
  obtain x y where xy: "toXY [lon, lat] (Fin 0) = (Fin x, Fin y)" using h by (auto simp: hit_def)
  have inv: "cov_inv s" and r: "cov_refLat s = Some (Fin 0)" using q by (simp_all add: quiet_def)
  define new where "new = {sid \<in> set (nearby s (Fin x) (Fin y)). sid \<in> set (undrivenSegmentIds s) \<and>
      close_to s [lon, lat] sid}"
  obtain t where t: "checkSegmentCoverage lon lat s = Done t"
    and pend: "set (pendingSegmentUpdates t) = set (pendingSegmentUpdates s) \<union> new"
    and timer: "new \<noteq> {} \<longrightarrow> persistSegmentsTimeout t \<noteq> None"
    using checkSegmentCoverage_marks [OF inv r xy] by (auto simp: Let_def new_def)
  have mem: "sid \<in> new" using h xy by (auto simp: new_def hit_def)
  have s_eq: "s\<lparr>cov_refLat := Some (Fin 0)\<rparr> = s" using r by simp
  have ne: "segmentIndex s \<noteq> []" "undrivenSegmentIds s \<noteq> []"
    using h by (auto simp: hit_def close_to_def)
  obtain ids where ids: "match_candidates s [lon, lat] (nearby s (Fin x) (Fin y)) = Some ids"
    and t_eq: "t = (if ids = [] then s else markSegmentsDriven ids s)"
    using t ne r xy by (auto simp: checkSegmentCoverage_def s_eq split: option.splits)
  have set_ids: "set ids = new" using match_candidates_set [OF ids] by (simp add: new_def)
  then have t_eq': "t = markSegmentsDriven ids s" using t_eq mem by auto
  note fr = markSegmentsDriven_frame [where ids = ids and s = s]
    and eff = markSegmentsDriven_effect [OF cov_inv_core [OF inv], of ids]
  have "cov_inv (t\<lparr>pendingSegmentUpdates := []\<rparr>)"
    using markSegmentsDriven_inv [OF inv, of ids]
    by (subst cov_inv_frame [of _ t]) (simp_all add: t_eq')
  then have q': "quiet (t\<lparr>pendingSegmentUpdates := []\<rparr>)"
    using q fr(3,5) eff(5) by (simp add: quiet_def t_eq')
  have keep: "hit t lon' lat' i" if hi: "hit s lon' lat' i" "\<not> close_to s [lon, lat] i" for lon' lat' i
  proof -
    have ni: "i \<notin> set ids" using hi(2) set_ids by (auto simp: new_def)
    have cell: "cellSize t = cellSize s" "radiusCells t = radiusCells s"
      using fr(2) by (simp_all add: cellSize_def radiusCells_def t_eq')
    have "i \<in> set (nearby t a b) \<longleftrightarrow> i \<in> set (nearby s a b)" for a b
      using fr(6) [OF ni] unfolding nearby_def Let_def candidates_iff cell by (simp add: t_eq')
    moreover have "close_to t p i \<longleftrightarrow> close_to s p i" for p
      using fr(1,2) by (simp add: close_to_def t_eq')
    moreover have "i \<in> set (undrivenSegmentIds t) \<longleftrightarrow> i \<in> set (undrivenSegmentIds s)"
      using eff(4) ni by (auto simp: t_eq')
    ultimately show ?thesis using hi(1) by (simp add: hit_def)
  qed
  show ?thesis
    using that [OF t _ _ q' keep] pend timer mem by fastforce
qed

section \<open>Overlapping requests\<close>

lemma hit_persist [simp]:
  "hit (emit a s) lon lat sid = hit s lon lat sid"
  "hit (s\<lparr>pendingSegmentUpdates := ps\<rparr>) lon lat sid = hit s lon lat sid"
  "hit (s\<lparr>persistSegmentsTimeout := tm\<rparr>) lon lat sid = hit s lon lat sid"
  by (simp_all add: hit_def nearby_def candidates_def cellSize_def radiusCells_def close_to_def emit_def)

lemma quiet_emit [simp]: "quiet (emit a s) = quiet s"
  by (simp add: quiet_def) (simp add: emit_def)

lemma quiet_timer [simp]: "quiet (s\<lparr>persistSegmentsTimeout := tm\<rparr>) = quiet s"
  by (simp add: quiet_def)

text \<open>A position update that hits a segment, and the debounced request that follows it.\<close>

lemma position_then_debounce:
  assumes reach: "reach cov_init cov_step y" and q: "quiet (cs y)" and h: "hit (cs y) lon lat sid"
  obtains z ids where "reach cov_init cov_step z" "quiet (cs z)" "ids \<noteq> []"
    "inflight z = inflight y @ [(ids, cov_areaId (cs z))]" "persistSegmentsTimeout (cs z) = None"
    "\<And>lon' lat' i. hit (cs y) lon' lat' i \<Longrightarrow> \<not> close_to (cs y) [lon, lat] i \<Longrightarrow> hit (cs z) lon' lat' i"
proof -
  obtain t where t: "checkSegmentCoverage lon lat (cs y) = Done t" "pendingSegmentUpdates t \<noteq> []"
    "persistSegmentsTimeout t \<noteq> None" "quiet (t\<lparr>pendingSegmentUpdates := []\<rparr>)"
    and keep: "\<And>lon' lat' i. hit (cs y) lon' lat' i \<Longrightarrow> \<not> close_to (cs y) [lon, lat] i \<Longrightarrow> hit t lon' lat' i"
    using position_hit [OF q h] by blast
  let ?y = "y\<lparr>cs := t\<rparr>"
  let ?z = "add_request (persist_begin ((cs ?y)\<lparr>persistSegmentsTimeout := None\<rparr>)) ?y"
  have "cov_step y (EPosition lon lat) ?y" using cov_step.position [of y lon lat] t(1) by simp
  with reach have r: "reach cov_init cov_step ?y" by (rule cov_reach_step)
  have "cov_step ?y EDebounce ?z" by (rule cov_step.debounce) (simp add: t(3))
  with r have rz: "reach cov_init cov_step ?z" by (rule cov_reach_step)
  have csz: "cs ?z = emit (PostMarkDriven (pendingSegmentUpdates t) (cov_areaId t))
      (t\<lparr>persistSegmentsTimeout := None, pendingSegmentUpdates := []\<rparr>)"
    using t(2) by (simp add: add_request_def persist_begin_def Let_def)
  have swap: "t\<lparr>persistSegmentsTimeout := None, pendingSegmentUpdates := []\<rparr> =
      t\<lparr>pendingSegmentUpdates := [], persistSegmentsTimeout := None\<rparr>" by simp
  have qz: "quiet (cs ?z)" unfolding csz swap using t(4) by simp
  have fl: "inflight ?z = inflight y @ [(pendingSegmentUpdates t, cov_areaId (cs ?z))]"
    using t(2) by (simp add: add_request_def persist_begin_def Let_def)
  have tm: "persistSegmentsTimeout (cs ?z) = None" unfolding csz by simp
  have hz: "hit (cs ?z) lon' lat' i" if "hit (cs y) lon' lat' i" "\<not> close_to (cs y) [lon, lat] i"
    for lon' lat' i
    unfolding csz using keep [OF that] by simp
  show ?thesis by (rule that [OF rz qz t(2) fl tm hz])
qed


section \<open>The run\<close>

lemma nearby_mono:
  assumes "cov_cfg t = cov_cfg s" "\<And>k. set (bucket (spatialGrid s) k) \<subseteq> set (bucket (spatialGrid t) k)"
  shows "set (nearby s a b) \<subseteq> set (nearby t a b)"
proof -
  have "cellSize t = cellSize s" "radiusCells t = radiusCells s"
    using assms(1) by (simp_all add: cellSize_def radiusCells_def)
  then show ?thesis using assms(2) by (auto simp: nearby_def Let_def candidates_iff) blast
qed

lemma indexUndrivenSegment_mono:
  "set (bucket (spatialGrid s) k) \<subseteq> set (bucket (spatialGrid (indexUndrivenSegment i c s)) k)"
  by (cases rule: indexUndrivenSegment_cases [of i c s]) (auto simp: grid_add_bucket)

text \<open>Distances and planar coordinates of the two segments of the run, both a single point.\<close>

lemma toXY_demo: "toXY [0, Fin l] (Fin 0) = (Fin 0, Fin (rad l * 6371000))"
  by (simp add: toXY_def EARTH_RADIUS_M_def) (simp add: rad_def)

lemma distance_demo:
  "distanceToLineString [0, Fin a] [[0, Fin b], [0, Fin b]] = Fin \<bar>rad a * 6371000 - rad b * 6371000\<bar>"
  by (simp add: distanceToLineString_def projectToSegment_def toXY_def EARTH_RADIUS_M_def Let_def
    rad_def)

lemma rad_one_far: "25 < \<bar>rad 0 * 6371000 - rad 1 * 6371000\<bar>"
  using pi_ge_two by (simp add: rad_def)

lemma demo_Fin: "demo_feature i 0 = demo_feature i (Fin 0)" "demo_feature i 1 = demo_feature i (Fin 1)"
  by simp_all

lemma load_demo:
  assumes "cov_cfg s = cov_defaults" "cov_refLat s = Some (Fin 0) \<or> (cov_refLat s = None \<and> l = 0)"
    and "i \<noteq> []"
  defines "t \<equiv> load_feature s (demo_feature i (Fin l))"
  shows "cov_cfg t = cov_defaults" "cov_refLat t = Some (Fin 0)"
    "undrivenSegmentIds t = set_add i (undrivenSegmentIds s)"
    "segmentIndex t = AList.update i (demo_feature i (Fin l)) (segmentIndex s)"
    "i \<in> set (nearby t (Fin 0) (Fin (rad l * 6371000)))"
    "set (nearby s a b) \<subseteq> set (nearby t a b)"
proof -
  define s1 where "s1 = s\<lparr>segmentIndex := AList.update i (demo_feature i (Fin l)) (segmentIndex s),
      totalSegmentLength := totalSegmentLength s + feature_length (demo_feature i (Fin l)),
      undrivenSegmentIds := set_add i (undrivenSegmentIds s)\<rparr>"
  have t: "t = indexUndrivenSegment i (Some [[0, Fin l], [0, Fin l]]) s1"
    using assms(3) by (simp add: t_def load_feature_def driveable_def s1_def Let_def)
      (simp add: demo_feature_def)
  define s2 where "s2 = s1\<lparr>cov_refLat := Some (Fin 0)\<rparr>"
  have r: "index_refLat (cov_refLat s1) [[0, Fin l], [0, Fin l]] = Fin 0"
    using assms(2) by (auto simp: index_refLat_def s1_def)
  have t': "t = indexUndrivenSegment i (Some [[0, Fin l], [0, Fin l]]) s2"
    unfolding t indexUndrivenSegment_def using r assms(3) by (simp add: s2_def index_refLat_def)
  show "cov_cfg t = cov_defaults" "undrivenSegmentIds t = set_add i (undrivenSegmentIds s)"
    "segmentIndex t = AList.update i (demo_feature i (Fin l)) (segmentIndex s)"
    using assms(1) by (simp_all add: t s1_def)
  show "cov_refLat t = Some (Fin 0)"
    unfolding t' indexUndrivenSegment_def
    by (simp add: Let_def index_refLat_def s2_def assms(3) split: prod.split)
  show "i \<in> set (nearby t (Fin 0) (Fin (rad l * 6371000)))"
    unfolding t'
    by (rule spatial_index_complete [where l = 0 and i = 0 and t = 0])
      (use assms(1,3) in \<open>auto simp: s2_def s1_def good_coord_def finite_coord_def toXY_demo
        toXY_demo [simplified] less_Suc_eq\<close>)
  show "set (nearby s a b) \<subseteq> set (nearby t a b)"
    using assms(1) indexUndrivenSegment_mono [of s1 _ i] unfolding t
    by (intro nearby_mono) (simp_all add: s1_def)
qed


definition demo_two :: cov_sys where
  "demo_two = demo_loaded [demo_feature ''s1'' 0, demo_feature ''s2'' 1]"

lemma demo_two_hits:
  "quiet (cs demo_two)" "hit (cs demo_two) 0 0 ''s1''" "hit (cs demo_two) 0 1 ''s2''"
  "\<not> close_to (cs demo_two) [0, 0] ''s2''" "persistSegmentsTimeout (cs demo_two) = None"
  "inflight demo_two = []"
proof -
  define s0 where "s0 = load_begin ''A'' (cs demo_start)"
  define s1 where "s1 = load_feature s0 (demo_feature ''s1'' (Fin 0))"
  define s2 where "s2 = load_feature s1 (demo_feature ''s2'' (Fin 1))"
  have s0: "cov_cfg s0 = cov_defaults" "cov_refLat s0 = None \<and> (0 :: real) = 0"
    "undrivenSegmentIds s0 = []" "segmentIndex s0 = []"
    by (simp_all add: s0_def load_begin_def cov_reset_def demo_start_def new_coverage_def)
  have names: "''s1'' \<noteq> []" "''s2'' \<noteq> []" by simp_all
  note l1 = load_demo [OF s0(1) disjI2 [OF s0(2)] names(1), folded s1_def]
  note l2 = load_demo [where l = 1, OF l1(1) disjI1 [OF l1(2)] names(2), folded s2_def]
  have cs2: "cs demo_two = emit (MapInit [demo_feature ''s1'' (Fin 0), demo_feature ''s2'' (Fin 1)]
      (drivenSegmentIds s2)) s2"
    by (simp add: demo_two_def demo_loaded_def load_succeeded_def Let_def s2_def s1_def s0_def
      driveable_def) (simp add: demo_feature_def)
  have inv: "cov_inv (cs demo_two)"
    unfolding demo_two_def by (rule orderly_cov_inv [OF demo_loaded_orderly [OF demo_wf(2)]])
  have persist: "pendingSegmentUpdates (cs demo_two) = []" "persistRetryTimeout (cs demo_two) = None"
    "consecutivePersistFailures (cs demo_two) = 0" "persistSegmentsTimeout (cs demo_two) = None"
    by (simp_all add: demo_two_def demo_loaded_def load_begin_def)
  show "quiet (cs demo_two)"
    using inv persist l2(2) by (simp add: quiet_def cs2) (simp add: emit_def)
  have und: "undrivenSegmentIds s2 = [''s1'', ''s2'']"
    using l2(3) l1(3) s0(3) by (simp add: set_add_def)
  have idx: "map_of (segmentIndex s2) ''s1'' = Some (demo_feature ''s1'' (Fin 0))"
    "map_of (segmentIndex s2) ''s2'' = Some (demo_feature ''s2'' (Fin 1))"
    using l2(4) l1(4) s0(4) by (simp_all add: update_conv)
  have close: "close_to s2 [0, Fin a] ''s1'' \<longleftrightarrow> \<bar>rad a * 6371000 - rad 0 * 6371000\<bar> \<le> 25"
    "close_to s2 [0, Fin a] ''s2'' \<longleftrightarrow> \<bar>rad a * 6371000 - rad 1 * 6371000\<bar> \<le> 25" for a
    using idx l2(1) distance_demo [of a] by (simp_all add: close_to_def demo_feature_def cov_defaults_def)
  have near: "''s1'' \<in> set (nearby s2 (Fin 0) (Fin (rad 0 * 6371000)))"
    "''s2'' \<in> set (nearby s2 (Fin 0) (Fin (rad 1 * 6371000)))"
    using l1(5) l2(5) l2(6) by blast+
  have z: "(0 :: jsnum) = Fin 0" "(1 :: jsnum) = Fin 1" by simp_all
  show "hit (cs demo_two) 0 0 ''s1''" "hit (cs demo_two) 0 1 ''s2''"
    unfolding cs2 hit_persist unfolding hit_def using und near close toXY_demo by (auto simp: z)
  show "\<not> close_to (cs demo_two) [0, 0] ''s2''"
    unfolding cs2 using close(2) [of 0] rad_one_far by (simp add: close_to_def emit_def)
  show "persistSegmentsTimeout (cs demo_two) = None" by (rule persist(4))
  show "inflight demo_two = []" by (simp add: demo_two_def demo_loaded_def demo_start_def)
qed

definition stalled :: "cov_sys \<Rightarrow> bool" where
  "stalled y \<longleftrightarrow> pendingSegmentUpdates (cs y) \<noteq> [] \<and> persistSegmentsTimeout (cs y) = None \<and>
     persistRetryTimeout (cs y) = None \<and> inflight y = [] \<and> consecutivePersistFailures (cs y) = 0"

lemma set_add_all_nonempty: "ids \<noteq> [] \<Longrightarrow> set_add_all ids xs \<noteq> []"
  by (metis Un_empty set_empty set_set_add_all)

lemma fail_then_succeed_stalls:
  assumes fl: "inflight y = [(ids1, a1), (ids2, a2)]" and ne: "ids1 \<noteq> []"
    and tm: "persistSegmentsTimeout (cs y) = None"
  obtains z w where "cov_step y (EPersistFailed 0) z" "cov_step z (EPersisted 0) w" "stalled w"
proof -
  define z where "z = y\<lparr>cs := persist_failed ids1 (cs y), inflight := drop_nth 0 (inflight y)\<rparr>"
  define w where "w = z\<lparr>cs := persist_succeeded (cs z), inflight := drop_nth 0 (inflight z),
      acked := acked z @ map (\<lambda>x. (x, a2)) ids2\<rparr>"
  have "cov_step y (EPersistFailed 0) z"
    unfolding z_def by (rule cov_step.persist_fail [where a = a1]) (simp_all add: fl)
  moreover have "cov_step z (EPersisted 0) w"
    unfolding w_def by (rule cov_step.persisted) (simp_all add: z_def fl drop_nth_def)
  moreover have "stalled w"
    using ne tm by (simp add: stalled_def w_def z_def fl drop_nth_def persist_succeeded_def
      set_add_all_nonempty)
  ultimately show ?thesis by (rule that)
qed

text \<open>
  Overlapping requests defeat the retry: there is a run in which a segment's request fails and is
  scheduled for a retry, then an overlapping later request succeeds and clears that retry timer. The
  tracker is left with pending segments, no timer, no request in flight and no failure recorded, so
  the segments stay unsaved until some other segment is driven.
\<close>

theorem overlap_stalls_persistence: "\<exists>y. reach cov_init cov_step y \<and> stalled y"
proof -
  have r0: "reach cov_init cov_step demo_two"
    unfolding demo_two_def by (rule demo_loaded_reach [OF demo_wf(2)])
  obtain z1 ids1 where z1: "reach cov_init cov_step z1" "quiet (cs z1)" "ids1 \<noteq> []"
    "inflight z1 = [(ids1, cov_areaId (cs z1))]" "hit (cs z1) 0 1 ''s2''"
    using position_then_debounce [OF r0 demo_two_hits(1,2)] demo_two_hits(3,4,6)
    by (metis append_Nil)
  obtain z2 ids2 where z2: "reach cov_init cov_step z2"
    "inflight z2 = [(ids1, cov_areaId (cs z1)), (ids2, cov_areaId (cs z2))]"
    "persistSegmentsTimeout (cs z2) = None"
    using position_then_debounce [OF z1(1,2,5)] z1(4) by (metis append_Cons append_Nil)
  obtain v w where "cov_step z2 (EPersistFailed 0) v" "cov_step v (EPersisted 0) w" "stalled w"
    using fail_then_succeed_stalls [OF z2(2) z1(3) z2(3)] .
  then show ?thesis using z2(1) cov_reach_step by blast
qed


section \<open>Overlapping loads\<close>

text \<open>
  A position update drives a segment between the answers of two overlapping loads of one area; the
  second answer, still calling it undriven, adds it to the undriven ones without taking it from the
  driven ones. It is then driven and undriven, and would be counted a second time.
\<close>

theorem overlapping_loads_break_partition:
  "\<exists>y. reach cov_init cov_step y \<and>
     ''s1'' \<in> set (drivenSegmentIds (cs y)) \<inter> set (undrivenSegmentIds (cs y)) \<and>
     ''s1'' \<in> set (liveSegmentsCovered (cs y))"
proof -
  let ?fs = "[demo_feature ''s1'' 0]"
  define y where "y = demo_two\<lparr>loads := 1\<rparr>"
  have r: "reach cov_init cov_step y" unfolding y_def demo_two_def by (rule demo_overlap_reach)
  have cy: "cs y = cs demo_two" by (simp add: y_def)
  have inv: "cov_inv (cs demo_two)" and ref: "cov_refLat (cs demo_two) = Some (Fin 0)"
    using demo_two_hits(1) by (simp_all add: quiet_def)
  obtain x x' where xy: "toXY [0, 0] (Fin 0) = (Fin x, Fin x')"
    and h: "''s1'' \<in> set (nearby (cs demo_two) (Fin x) (Fin x'))"
      "''s1'' \<in> set (undrivenSegmentIds (cs demo_two))" "close_to (cs demo_two) [0, 0] ''s1''"
    using demo_two_hits(2) by (auto simp: hit_def)
  obtain t where t: "checkSegmentCoverage 0 0 (cs demo_two) = Done t"
    "''s1'' \<in> set (liveSegmentsCovered t)" "''s1'' \<in> set (drivenSegmentIds t)"
    using checkSegmentCoverage_marks [OF inv ref xy] h by (auto simp: Let_def)
  define z where "z = y\<lparr>cs := t\<rparr>"
  define w where "w = z\<lparr>cs := load_succeeded ?fs t, loads := 0\<rparr>"
  have "cov_step y (EPosition 0 0) z" using cov_step.position [of y 0 0] t(1) by (simp add: z_def cy)
  with r have rz: "reach cov_init cov_step z" by (rule cov_reach_step)
  have "cov_step z (ELoaded ?fs) w"
    using cov_step.loaded [of z ?fs] by (simp add: z_def w_def y_def)
  with rz have "reach cov_init cov_step w" by (rule cov_reach_step)
  moreover have "''s1'' \<in> set (drivenSegmentIds (cs w)) \<and> ''s1'' \<in> set (undrivenSegmentIds (cs w))
      \<and> ''s1'' \<in> set (liveSegmentsCovered (cs w))"
    using t(2,3) by (simp add: w_def z_def load_succeeded_def load_feature_def Let_def driveable_def demo_feature_def)
  ultimately show ?thesis by blast
qed

text \<open>The witnesses of the properties on runs that cover a segment.\<close>

theorem persistence_no_lost_update_witness:
  "\<exists>y sid. reach cov_init cov_step y \<and> sid \<in> set (liveSegmentsCovered (cs y)) \<and>
     (sid \<in> set (pendingSegmentUpdates (cs y)) \<or> (\<exists>r \<in> set (inflight y). sid \<in> set (fst r)) \<or>
      sid \<in> fst ` set (acked y))"
proof -
  have r0: "reach cov_init cov_step demo_two"
    unfolding demo_two_def by (rule demo_loaded_reach [OF demo_wf(2)])
  have inv: "cov_inv (cs demo_two)" and ref: "cov_refLat (cs demo_two) = Some (Fin 0)"
    using demo_two_hits(1) by (simp_all add: quiet_def)
  obtain x x' where xy: "toXY [0, 0] (Fin 0) = (Fin x, Fin x')"
    and h: "''s1'' \<in> set (nearby (cs demo_two) (Fin x) (Fin x'))"
      "''s1'' \<in> set (undrivenSegmentIds (cs demo_two))" "close_to (cs demo_two) [0, 0] ''s1''"
    using demo_two_hits(2) by (auto simp: hit_def)
  obtain t where t: "checkSegmentCoverage 0 0 (cs demo_two) = Done t" "''s1'' \<in> set (liveSegmentsCovered t)"
    using checkSegmentCoverage_marks [OF inv ref xy] h by (auto simp: Let_def)
  have "cov_step demo_two (EPosition 0 0) (demo_two\<lparr>cs := t\<rparr>)"
    using cov_step.position [of demo_two 0 0] t(1) by simp
  with r0 have r: "reach cov_init cov_step (demo_two\<lparr>cs := t\<rparr>)" by (rule cov_reach_step)
  have l: "''s1'' \<in> set (liveSegmentsCovered (cs (demo_two\<lparr>cs := t\<rparr>)))" using t(2) by simp
  show ?thesis using r l persistence_no_lost_update [OF r l] by blast
qed

theorem checkSegmentCoverage_spec_witness:
  "reach cov_init orderly_step demo_two \<and> cov_refLat (cs demo_two) = Some (Fin 0) \<and>
   (\<exists>t. checkSegmentCoverage 0 0 (cs demo_two) = Done t)"
proof -
  have o: "reach cov_init orderly_step demo_two"
    unfolding demo_two_def by (rule demo_loaded_orderly [OF demo_wf(2)])
  have ref: "cov_refLat (cs demo_two) = Some (Fin 0)" using demo_two_hits(1) by (simp add: quiet_def)
  obtain x x' where xy: "toXY [0, 0] (Fin 0) = (Fin x, Fin x')" using demo_two_hits(2) by (auto simp: hit_def)
  show ?thesis using o ref checkSegmentCoverage_spec [OF orderly_reach [OF o] ref xy] by auto
qed

lemma calm_reach_step: "reach cov_init calm_step y \<Longrightarrow> cov_step y e z \<Longrightarrow> calm e y \<Longrightarrow> reach cov_init calm_step z"
  by (rule reach_step [where step = calm_step]) (simp_all add: calm_step_def)

lemma demo_two_calm: "reach cov_init calm_step demo_two"
proof -
  let ?y = "demo_start\<lparr>cs := load_begin ''A'' (cs demo_start), loads := 1\<rparr>"
  have "reach cov_init calm_step demo_start" by (rule reach_init) (rule demo_steps(1))
  then have "reach cov_init calm_step ?y"
    using demo_steps(2) by (rule calm_reach_step) (simp add: calm_def)
  then show ?thesis
    unfolding demo_two_def using demo_steps(4) by (rule calm_reach_step) (simp add: calm_def)
qed

theorem persistence_progress_witness:
  "\<exists>y. reach cov_init calm_step y \<and> pendingSegmentUpdates (cs y) \<noteq> [] \<and>
    (persistSegmentsTimeout (cs y) \<noteq> None \<or> inflight y = [])"
proof -
  obtain t where t: "checkSegmentCoverage 0 0 (cs demo_two) = Done t" "pendingSegmentUpdates t \<noteq> []"
    using position_hit [OF demo_two_hits(1,2)] by metis
  have "cov_step demo_two (EPosition 0 0) (demo_two\<lparr>cs := t\<rparr>)"
    using cov_step.position [of demo_two 0 0] t(1) by simp
  with demo_two_calm have r: "reach cov_init calm_step (demo_two\<lparr>cs := t\<rparr>)"
    by (rule calm_reach_step) (simp add: calm_def)
  have p: "pendingSegmentUpdates (cs (demo_two\<lparr>cs := t\<rparr>)) \<noteq> []" using t(2) by simp
  show ?thesis using r p persistence_progress [OF r p] by blast
qed

section \<open>Changing the area\<close>

text \<open>
  A request of one area that fails after another area was loaded queues its segments for the new
  area: the segments become pending, and the retry posts them to the new area's endpoint.
\<close>

theorem failed_request_changes_area:
  fixes ids :: "string list"
  assumes "ids \<noteq> []"
  shows "let s1 = persist_failed ids (load_begin newArea s)
         in persistRetryTimeout s1 \<noteq> None \<and>
            (\<exists>req. snd (persist_begin (s1\<lparr>persistRetryTimeout := None\<rparr>)) = Some (req, Some newArea) \<and>
               set req = set ids)"
proof -
  let ?s1 = "persist_failed ids (load_begin newArea s)"
  have "pendingSegmentUpdates ?s1 = set_add_all ids []" "cov_areaId ?s1 = Some newArea"
    by (simp_all add: load_begin_def)
  then have "snd (persist_begin (?s1\<lparr>persistRetryTimeout := None\<rparr>)) = Some (set_add_all ids [], Some newArea)"
    using set_add_all_nonempty [OF assms, of "[]"] by (simp add: persist_begin_def Let_def)
  moreover have "persistRetryTimeout ?s1 \<noteq> None"
    using persist_failed_timer [of ids "load_begin newArea s"]
    by (auto simp: load_begin_def maxPersistRetries_def)
  ultimately show ?thesis by (simp add: Let_def)
qed

theorem failed_request_changes_area_witness:
  "\<exists>req. snd (persist_begin ((persist_failed [''s1''] (load_begin ''B'' (cs demo_two)))
      \<lparr>persistRetryTimeout := None\<rparr>)) = Some (req, Some ''B'') \<and> set req = {''s1''}"
  using failed_request_changes_area [of "[''s1'']" "''B''" "cs demo_two"] by (simp add: Let_def)

text \<open>
  Switching the area (\<open>resetRouteState\<close> and \<open>loadSegments\<close> both reset the tracker) drops the
  segments still waiting for the debounced write: they are no longer pending, no request was issued
  for them, and no timer is left; the destructor, in contrast, first issues a request for them all.
\<close>

theorem reset_drops_pending:
  "pendingSegmentUpdates (load_begin a s) = [] \<and> outs (load_begin a s) = outs s \<and>
   persistSegmentsTimeout (load_begin a s) = None \<and> persistRetryTimeout (load_begin a s) = None \<and>
   snd (cov_destroy s) = (if pendingSegmentUpdates s = [] then None
     else Some (pendingSegmentUpdates s, cov_areaId s))"
  by (simp add: load_begin_def cov_reset_def cov_destroy_def persist_begin_def Let_def)

end
