(* ===== verification/GenerationStream.thy ===== *)
theory GenerationStream
  imports JSBase
begin

text \<open>
  The progress stream of route generation in \<open>static/js/modules/live-navigation/live-navigation-api.js\<close>:
  \<open>connectProgressSSE\<close> listens to an \<open>EventSource\<close> and falls back to \<open>_pollProgress\<close> when it fails.

  \<^item> The closure variables of the two functions are the record \<open>gen_stream\<close>; \<open>calls\<close> is the list
    of the callbacks made so far, and \<open>poll_requests\<close> the number of poll requests in flight (the
    interval does not wait for them).
  \<^item> An \<open>EventSource\<close> dispatches nothing after \<open>close()\<close> and an interval does not fire after
    \<open>clearInterval\<close>: the guards of the steps. Poll responses arrive in any order, also after a
    cancellation.
  \<^item> Shown for every interleaving: at most one terminal callback, nothing after it, and nothing after
    the returned handle is closed; with the connection lost, fifteen failed polls end the wait.
\<close>

section \<open>Definitions\<close>

record progress_data =
  gd_status :: string
  gd_stage :: string
  gd_progress :: jsnum
  gd_error :: string
  gd_message :: string

datatype gen_call = OnProgress | OnComplete | OnError string

record gen_stream =
  sseOpen :: bool
  pollHandle :: bool
  poll_started :: bool
  poll_cancelled :: bool
  poll_failures :: nat
  poll_requests :: nat
  gen_calls :: "gen_call list"

definition connectProgressSSE :: gen_stream where
  "connectProgressSSE = \<lparr>sseOpen = True, pollHandle = False, poll_started = False,
     poll_cancelled = False, poll_failures = 0, poll_requests = 0, gen_calls = []\<rparr>"

definition call :: "gen_call \<Rightarrow> gen_stream \<Rightarrow> gen_stream" where
  "call c g = g\<lparr>gen_calls := gen_calls g @ [c]\<rparr>"

text \<open>\<open>cancel\<close> of the handle that \<open>_pollProgress\<close> returns.\<close>

definition poll_cancel :: "gen_stream \<Rightarrow> gen_stream" where
  "poll_cancel g = g\<lparr>poll_cancelled := True\<rparr>"

definition closeConnection :: "gen_stream \<Rightarrow> gen_stream" where
  "closeConnection g =
     (let g1 = (if sseOpen g then g\<lparr>sseOpen := False\<rparr> else g)
      in if pollHandle g1 then (poll_cancel g1)\<lparr>pollHandle := False\<rparr> else g1)"

definition is_complete :: "progress_data \<Rightarrow> bool" where
  "is_complete d \<longleftrightarrow> str_lower (gd_status d) = ''completed'' \<or> str_lower (gd_stage d) = ''complete'' \<or>
     gd_progress d \<ge> 100"

definition is_failed :: "progress_data \<Rightarrow> bool" where
  "is_failed d \<longleftrightarrow> str_lower (gd_status d) = ''failed'' \<or> str_lower (gd_status d) = ''error''"

definition str_or :: "string \<Rightarrow> string \<Rightarrow> string" where
  "str_or s t = (if s = [] then t else s)"

text \<open>\<open>es.onmessage\<close>; data that does not parse only logs an error.\<close>

definition sse_onmessage :: "progress_data option \<Rightarrow> gen_stream \<Rightarrow> gen_stream" where
  "sse_onmessage data g =
     (case data of None \<Rightarrow> g
      | Some d \<Rightarrow>
        if is_complete d then call OnComplete (closeConnection g)
        else if is_failed d then
          call (OnError (str_or (gd_error d) (str_or (gd_message d) ''Route generation failed'')))
            (closeConnection g)
        else if str_lower (gd_status d) = ''cancelled'' then
          call (OnError ''Generation cancelled'') (closeConnection g)
        else call OnProgress g)"

definition sse_onerror :: "gen_stream \<Rightarrow> gen_stream" where
  "sse_onerror g =
     (if pollHandle g then g
      else (if sseOpen g then g\<lparr>sseOpen := False\<rparr> else g)
             \<lparr>pollHandle := True, poll_started := True, poll_cancelled := False, poll_failures := 0\<rparr>)"

text \<open>The interval of \<open>_pollProgress\<close> fires; the request is sent unless the poll was cancelled.\<close>

definition poll_tick :: "gen_stream \<Rightarrow> gen_stream" where
  "poll_tick g = (if poll_cancelled g then g else g\<lparr>poll_requests := Suc (poll_requests g)\<rparr>)"

text \<open>A terminal callback of the poll goes through the wrappers of \<open>es.onerror\<close>.\<close>

definition poll_finish :: "gen_call \<Rightarrow> gen_stream \<Rightarrow> gen_stream" where
  "poll_finish c g = call c (closeConnection (poll_cancel g))"

definition poll_response :: "progress_data option \<Rightarrow> gen_stream \<Rightarrow> gen_stream" where
  "poll_response resp g0 =
     (let g = g0\<lparr>poll_requests := poll_requests g0 - 1\<rparr> in
      if poll_cancelled g then g
      else case resp of
        Some d \<Rightarrow>
          if is_complete d then poll_finish OnComplete g
          else if is_failed d then poll_finish (OnError (str_or (gd_error d) ''Generation failed'')) g
          else if str_lower (gd_status d) = ''cancelled''
            then poll_finish (OnError ''Generation cancelled'') g
          else call OnProgress (g\<lparr>poll_failures := 0\<rparr>)
      | None \<Rightarrow>
          (let g1 = g\<lparr>poll_failures := Suc (poll_failures g)\<rparr>
           in if poll_failures g1 \<ge> 15 then poll_finish (OnError ''Connection lost'') g1 else g1))"

datatype gen_event =
    SMessage "progress_data option" | SDone | SError | PTick | PResponse "progress_data option" | Close

inductive gen_step :: "gen_stream \<Rightarrow> gen_event \<Rightarrow> gen_stream \<Rightarrow> bool" where
  "sseOpen g \<Longrightarrow> gen_step g (SMessage d) (sse_onmessage d g)"
| "sseOpen g \<Longrightarrow> gen_step g SDone (closeConnection g)"
| "sseOpen g \<Longrightarrow> gen_step g SError (sse_onerror g)"
| "poll_started g \<Longrightarrow> \<not> poll_cancelled g \<Longrightarrow> gen_step g PTick (poll_tick g)"
| "0 < poll_requests g \<Longrightarrow> gen_step g (PResponse r) (poll_response r g)"
| "gen_step g Close (closeConnection g)"

inductive_cases gen_step_elim: "gen_step g e h"

definition gen_init :: "gen_stream \<Rightarrow> bool" where
  "gen_init g \<longleftrightarrow> g = connectProgressSSE"

section \<open>At most one terminal callback\<close>

fun terminal :: "gen_call \<Rightarrow> bool" where
  "terminal OnProgress = False" | "terminal OnComplete = True" | "terminal (OnError _) = True"

definition ended :: "gen_stream \<Rightarrow> bool" where
  "ended g \<longleftrightarrow> \<not> sseOpen g \<and> \<not> pollHandle g \<and> (poll_started g \<longrightarrow> poll_cancelled g)"

definition conn_inv :: "gen_stream \<Rightarrow> bool" where
  "conn_inv g \<longleftrightarrow>
     (sseOpen g \<longrightarrow> \<not> poll_started g \<and> \<not> pollHandle g) \<and>
     (poll_started g \<longrightarrow> pollHandle g = (\<not> poll_cancelled g)) \<and>
     (pollHandle g \<longrightarrow> poll_started g) \<and> (0 < poll_requests g \<longrightarrow> poll_started g) \<and>
     (\<not> poll_cancelled g \<longrightarrow> poll_failures g < 15)"

definition calls_inv :: "gen_stream \<Rightarrow> bool" where
  "calls_inv g \<longleftrightarrow> filter terminal (gen_calls g) = [] \<or>
     ended g \<and> (\<exists>cs c. gen_calls g = cs @ [c] \<and> terminal c \<and> filter terminal cs = [])"

definition gen_inv :: "gen_stream \<Rightarrow> bool" where
  "gen_inv g \<longleftrightarrow> conn_inv g \<and> calls_inv g"

lemmas gen_defs = ended_def closeConnection_def poll_cancel_def call_def sse_onmessage_def
  sse_onerror_def poll_tick_def poll_finish_def poll_response_def Let_def

lemma conn_step_inv:
  assumes "conn_inv g" "gen_step g e h"
  shows "conn_inv h"
  using assms(2,1)
  by (cases rule: gen_step.cases) (auto simp: gen_defs conn_inv_def split: option.split)

text \<open>Once ended, a step makes no callback and stays ended.\<close>

lemma ended_silent:
  assumes "conn_inv g" "ended g" "gen_step g e h"
  shows "gen_calls h = gen_calls g \<and> ended h"
  using assms(3,1,2) by (cases rule: gen_step.cases) (auto simp: gen_defs conn_inv_def)

lemma closed_ended: "conn_inv g \<Longrightarrow> ended (closeConnection g)"
  "conn_inv g \<Longrightarrow> ended (closeConnection (poll_cancel g))"
  by (auto simp: gen_defs conn_inv_def)

lemma closed_calls [simp]:
  "gen_calls (closeConnection g) = gen_calls g" "gen_calls (poll_cancel g) = gen_calls g"
  "gen_calls (call c g) = gen_calls g @ [c]" "ended (call c g) = ended g"
  by (simp_all add: gen_defs)

text \<open>Each handler makes no call, a progress call, or a terminal call that ends the stream.\<close>

definition one_call :: "gen_stream \<Rightarrow> gen_stream \<Rightarrow> bool" where
  "one_call g h \<longleftrightarrow> gen_calls h = gen_calls g \<or> gen_calls h = gen_calls g @ [OnProgress] \<or>
     ended h \<and> (\<exists>c. gen_calls h = gen_calls g @ [c])"

lemma sse_onmessage_one: "conn_inv g \<Longrightarrow> one_call g (sse_onmessage d g)"
  by (simp add: one_call_def sse_onmessage_def closed_ended split: option.split)

lemma poll_response_one: "conn_inv g \<Longrightarrow> one_call g (poll_response r g)"
proof -
  assume inv: "conn_inv g"
  have *: "conn_inv (g\<lparr>poll_requests := n\<rparr>)" if "n \<le> poll_requests g" for n
    using inv that by (auto simp: conn_inv_def)
  have "ended (closeConnection (poll_cancel (g\<lparr>poll_requests := n, poll_failures := k\<rparr>)))" for n k
    using inv by (auto simp: gen_defs conn_inv_def)
  then show ?thesis
    by (simp add: one_call_def poll_response_def poll_finish_def Let_def * closed_ended split: option.split)
qed

lemma gen_step_one:
  assumes "conn_inv g" "gen_step g e h"
  shows "one_call g h"
  using assms(2,1)
  by (cases rule: gen_step.cases)
    (simp_all add: sse_onmessage_one poll_response_one, simp_all add: one_call_def sse_onerror_def poll_tick_def)

lemma gen_step_inv:
  assumes "gen_inv g" "gen_step g e h"
  shows "gen_inv h"
proof -
  have inv: "conn_inv g" "calls_inv g" using assms(1) by (simp_all add: gen_inv_def)
  have "calls_inv h"
  proof (cases "filter terminal (gen_calls g) = []")
    case True
    then show ?thesis using gen_step_one [OF inv(1) assms(2)]
      by (auto simp: one_call_def calls_inv_def split: if_splits)
  next
    case False
    then show ?thesis using ended_silent [OF inv(1) _ assms(2)] inv(2) by (auto simp: calls_inv_def)
  qed
  then show ?thesis using conn_step_inv [OF inv(1) assms(2)] by (simp add: gen_inv_def)
qed

lemma gen_init_inv: "gen_init g \<Longrightarrow> gen_inv g"
  by (simp add: gen_init_def connectProgressSSE_def gen_inv_def conn_inv_def calls_inv_def)

interpretation gen: event_system gen_init gen_step gen_inv
  by unfold_locales (auto intro: gen_init_inv gen_step_inv)

text \<open>
  C14. In every reachable state of a progress stream at most one terminal callback (completion or
  error) has been made, it is the last call of all, and once it has been made the source is closed,
  the polling is cancelled, and no further step makes any callback.
\<close>

theorem generation_terminal_once:
  assumes "reach gen_init gen_step g"
  shows "length (filter terminal (gen_calls g)) \<le> 1 \<and>
    (filter terminal (gen_calls g) \<noteq> [] \<longrightarrow> terminal (last (gen_calls g)) \<and>
      (\<forall>e h. gen_step g e h \<longrightarrow> gen_calls h = gen_calls g))"
proof -
  have inv: "conn_inv g" "calls_inv g"
    using gen.reachable_inv [OF assms] by (simp_all add: gen_inv_def)
  show ?thesis
  proof (cases "filter terminal (gen_calls g) = []")
    case False
    then have "ended g" "terminal (last (gen_calls g))" "length (filter terminal (gen_calls g)) \<le> 1"
      using inv(2) by (auto simp: calls_inv_def)
    then show ?thesis using ended_silent [OF inv(1)] by blast
  qed simp
qed

text \<open>
  C15. Closing is final: after the handle's \<open>close\<close> (or \<open>cancel\<close>) in any reachable state, no
  sequence of further events makes a callback, whatever poll requests are still in flight.
\<close>

theorem close_is_final:
  assumes "reach gen_init gen_step g" "reach (\<lambda>s. s = closeConnection g) gen_step h"
  shows "gen_calls h = gen_calls g"
proof -
  have g: "conn_inv g" using gen.reachable_inv [OF assms(1)] by (simp add: gen_inv_def)
  have "conn_inv h \<and> ended h \<and> gen_calls h = gen_calls g"
    using assms(2)
  proof (induction rule: reach.induct)
    case (reach_init s)
    then show ?case using conn_step_inv [OF g gen_step.intros(6)] closed_ended(1) [OF g] by simp
  next
    case (reach_step s e t)
    then show ?case using ended_silent [of s e t] conn_step_inv [of s e t] by simp
  qed
  then show ?thesis by simp
qed

definition sample_done :: progress_data where
  "sample_done = \<lparr>gd_status = [], gd_stage = [], gd_progress = 100, gd_error = [],
     gd_message = []\<rparr>"

lemma sample_reach: "reach gen_init gen_step (sse_onmessage (Some sample_done) connectProgressSSE)"
proof -
  have "reach gen_init gen_step connectProgressSSE" by (rule reach_init) (simp add: gen_init_def)
  then show ?thesis
    by (rule reach_step [where step = gen_step])
      (rule gen_step.intros, simp add: connectProgressSSE_def)
qed

theorem generation_terminal_once_witness:
  "let g = sse_onmessage (Some sample_done) connectProgressSSE in
   gen_calls g = [OnComplete] \<and> (\<forall>e h. gen_step g e h \<longrightarrow> gen_calls h = [OnComplete])"
proof -
  have "is_complete sample_done" by (simp add: is_complete_def sample_done_def)
  then have c: "gen_calls (sse_onmessage (Some sample_done) connectProgressSSE) = [OnComplete]"
    by (simp add: sse_onmessage_def connectProgressSSE_def)
  then have "filter terminal (gen_calls (sse_onmessage (Some sample_done) connectProgressSSE)) \<noteq> []"
    by simp
  with generation_terminal_once [OF sample_reach] c show ?thesis unfolding Let_def by metis
qed

theorem close_is_final_witness:
  "gen_calls (closeConnection (sse_onmessage (Some sample_done) connectProgressSSE)) =
   gen_calls (sse_onmessage (Some sample_done) connectProgressSSE)"
proof (rule close_is_final [OF sample_reach])
  show "reach (\<lambda>s. s = closeConnection (sse_onmessage (Some sample_done) connectProgressSSE)) gen_step
     (closeConnection (sse_onmessage (Some sample_done) connectProgressSSE))"
    by (rule reach_init) simp
qed

section \<open>Fifteen failed polls end the wait\<close>

definition failed_poll :: "gen_stream \<Rightarrow> gen_stream" where
  "failed_poll g = poll_response None (poll_tick g)"

lemma failed_poll_simp:
  assumes "\<not> poll_cancelled g" "pollHandle g"
  shows "failed_poll g =
    (if Suc (poll_failures g) \<ge> 15
     then call (OnError ''Connection lost'') (g\<lparr>poll_failures := Suc (poll_failures g), sseOpen := False,
       poll_cancelled := True, pollHandle := False\<rparr>)
     else g\<lparr>poll_failures := Suc (poll_failures g)\<rparr>)"
  using assms by (simp add: failed_poll_def gen_defs)

lemma failed_polls:
  assumes "\<not> poll_cancelled g" "pollHandle g" "poll_failures g + n < 15"
  shows "(failed_poll ^^ n) g = g\<lparr>poll_failures := poll_failures g + n\<rparr>"
  using assms(3)
proof (induction n)
  case (Suc n)
  then show ?case using assms(1,2) by (simp add: failed_poll_simp)
qed simp

text \<open>
  When the event source fails, the stream falls back to polling; fourteen polls that fail in a
  row make no callback, and the fifteenth reports the lost connection and cancels the polling.
\<close>

theorem connection_lost_after_15:
  "n < 15 \<Longrightarrow> gen_calls ((failed_poll ^^ n) (sse_onerror connectProgressSSE)) = [] \<and>
   gen_calls ((failed_poll ^^ 15) (sse_onerror connectProgressSSE)) = [OnError ''Connection lost''] \<and>
   ended ((failed_poll ^^ 15) (sse_onerror connectProgressSSE))"
proof -
  let ?g = "sse_onerror connectProgressSSE"
  have g: "\<not> poll_cancelled ?g" "pollHandle ?g" "poll_failures ?g = 0" "gen_calls ?g = []"
    by (simp_all add: sse_onerror_def connectProgressSSE_def)
  have upto: "(failed_poll ^^ n) ?g = ?g\<lparr>poll_failures := n\<rparr>" if "n < 15" for n
    using failed_polls [OF g(1,2), of n] g(3) that by simp
  have "(failed_poll ^^ 15) ?g = failed_poll ((failed_poll ^^ 14) ?g)"
    using funpow.simps(2) [of 14 failed_poll] by (simp only: comp_apply eval_nat_numeral)
  also have "\<dots> = failed_poll (?g\<lparr>poll_failures := 14\<rparr>)" by (subst upto) simp_all
  finally have last: "(failed_poll ^^ 15) ?g = failed_poll (?g\<lparr>poll_failures := 14\<rparr>)" .
  assume "n < 15"
  then show ?thesis using upto [of n] g unfolding last
    by (simp add: failed_poll_simp call_def ended_def)
qed

theorem connection_lost_after_15_witness:
  "gen_calls ((failed_poll ^^ 14) (sse_onerror connectProgressSSE)) = []"
  using connection_lost_after_15 [of 14] by simp

end
