(* ===== verification/NavState.thy ===== *)
theory NavState
  imports GeoMath
begin

text \<open>
  The state machine of live navigation, \<open>static/js/modules/live-navigation/live-navigation-state.js\<close>
  (class \<open>LiveNavigationState\<close>), with the states and thresholds of \<open>live-navigation-config.js\<close>.

  \<^item> The fields of the class are the record \<open>nav_machine\<close>; one definition per method.
  \<^item> The callback \<open>onStateChange\<close> belongs to the controller, so \<open>transitionTo\<close> returns whether it
    is called, and \<open>handleNavigationStateTransitions\<close> takes the controller's transition and its
    resume offer as arguments.
  \<^item> The lemmas describe the two searches along the route: the smart start is the first vertex
    nearest to the user, and the search ahead returns the first nearest vertex within the radius, or
    nothing exactly when there is none.
\<close>

section \<open>Data\<close>

datatype NAV_STATE =
    SETUP | GENERATING | ROUTE_PREVIEW | NAVIGATING_TO_START | ARRIVED_AT_START
  | ACTIVE_NAVIGATION | OFF_ROUTE | RESUME_AHEAD | ARRIVED

record position =
  pos_lat :: jsnum
  pos_lon :: jsnum

record state_config =
  startThresholdMeters :: jsnum
  offRouteThresholdMeters :: jsnum
  resumeSearchRadiusMeters :: jsnum

definition state_defaults :: state_config where
  "state_defaults = \<lparr>startThresholdMeters = 50, offRouteThresholdMeters = 60,
     resumeSearchRadiusMeters = 500\<rparr>"

record resume_data =
  res_index :: nat
  res_point :: coord
  res_distance :: jsnum
  res_duration :: jsnum

record nav_machine =
  sconfig :: state_config
  currentState :: NAV_STATE
  previousState :: "NAV_STATE option"
  smartStartIndex :: nat
  smartStartPoint :: "coord option"
  smartStartDistance :: "jsnum option"
  resumeAheadData :: "resume_data option"

definition new_state :: "state_config \<Rightarrow> nav_machine" where
  "new_state cfg = \<lparr>sconfig = cfg, currentState = SETUP, previousState = None, smartStartIndex = 0,
     smartStartPoint = None, smartStartDistance = None, resumeAheadData = None\<rparr>"

section \<open>Operations\<close>

definition transitionTo :: "NAV_STATE \<Rightarrow> nav_machine \<Rightarrow> nav_machine \<times> bool" where
  "transitionTo newState s =
     (if currentState s = newState then (s, False)
      else (s\<lparr>previousState := Some (currentState s), currentState := newState\<rparr>, True))"

definition handleNavigationStateTransitions ::
  "(NAV_STATE \<Rightarrow> 'c \<Rightarrow> 'c) \<Rightarrow> ('c \<Rightarrow> nav_machine) \<Rightarrow> ('c \<Rightarrow> 'c) \<Rightarrow>
   jsnum \<Rightarrow> bool \<Rightarrow> jsnum \<Rightarrow> 'c \<Rightarrow> 'c" where
  "handleNavigationStateTransitions transition machine offerResume remaining offRoute distance c =
     (if remaining < 25 \<and> currentState (machine c) \<noteq> ARRIVED then transition ARRIVED c
      else if offRoute \<and> currentState (machine c) = ACTIVE_NAVIGATION then
        (if distance > resumeSearchRadiusMeters (sconfig (machine c)) then offerResume c
         else transition OFF_ROUTE c)
      else if \<not> offRoute \<and> currentState (machine c) = OFF_ROUTE then transition ACTIVE_NAVIGATION c
      else c)"

record smart_start =
  ss_index :: nat
  ss_point :: "coord option"
  ss_distanceFromUser :: jsnum
  ss_isAtStart :: bool

definition findSmartStartPoint ::
  "position option \<Rightarrow> coord list \<Rightarrow> nav_machine \<Rightarrow> nav_machine \<times> smart_start" where
  "findSmartStartPoint userPosition routeCoords s =
     (case userPosition of
        None \<Rightarrow> (s, \<lparr>ss_index = 0, ss_point = (if routeCoords = [] then None else Some (hd routeCoords)),
                 ss_distanceFromUser = PInf, ss_isAtStart = False\<rparr>)
      | Some p \<Rightarrow>
        if routeCoords = [] then
          (s, \<lparr>ss_index = 0, ss_point = None, ss_distanceFromUser = PInf, ss_isAtStart = False\<rparr>)
        else
          let userCoord = [pos_lon p, pos_lat p];
              (bestDistance, found) =
                scan_min 0 (map (distanceMeters userCoord) routeCoords) (PInf, None);
              bestIndex = (case found of Some i \<Rightarrow> i | None \<Rightarrow> 0);
              point = Some (routeCoords ! bestIndex)
          in (s\<lparr>smartStartIndex := bestIndex, smartStartPoint := point,
                smartStartDistance := Some bestDistance\<rparr>,
              \<lparr>ss_index = bestIndex, ss_point = point, ss_distanceFromUser = bestDistance,
               ss_isAtStart = (bestDistance \<le> startThresholdMeters (sconfig s))\<rparr>))"

text \<open>The loop of \<open>findNearestPointAhead\<close>, from index \<open>i\<close> on.\<close>

fun ahead_scan :: "jsnum \<Rightarrow> nat \<Rightarrow> jsnum list \<Rightarrow> jsnum \<times> nat option \<Rightarrow> jsnum \<times> nat option" where
  "ahead_scan radius i [] acc = acc"
| "ahead_scan radius i (d # ds) (best, bi) =
     ahead_scan radius (Suc i) ds (if d < best \<and> d < radius then (d, Some i) else (best, bi))"

definition findNearestPointAhead ::
  "coord \<Rightarrow> coord list \<Rightarrow> nat \<Rightarrow> nav_machine \<Rightarrow> (nat \<times> coord \<times> jsnum) option" where
  "findNearestPointAhead userCoord routeCoords lastClosestIndex s =
     (case ahead_scan (resumeSearchRadiusMeters (sconfig s)) lastClosestIndex
             (map (distanceMeters userCoord) (drop lastClosestIndex routeCoords)) (PInf, None) of
        (d, Some i) \<Rightarrow> Some (i, routeCoords ! i, d)
      | (_, None) \<Rightarrow> None)"

definition setResumeAheadData :: "resume_data \<Rightarrow> nav_machine \<Rightarrow> nav_machine" where
  "setResumeAheadData d s = s\<lparr>resumeAheadData := Some d\<rparr>"

definition clearResumeAheadData :: "nav_machine \<Rightarrow> nav_machine" where
  "clearResumeAheadData s = s\<lparr>resumeAheadData := None\<rparr>"

definition isGenerating :: "nav_machine \<Rightarrow> bool" where
  "isGenerating s \<longleftrightarrow> currentState s = GENERATING"

definition state_reset :: "nav_machine \<Rightarrow> nav_machine" where
  "state_reset s = s\<lparr>currentState := SETUP, previousState := None, smartStartIndex := 0,
     smartStartPoint := None, smartStartDistance := None, resumeAheadData := None\<rparr>"

section \<open>Lemmas\<close>

lemma jsnum_less_trans: "(a :: jsnum) < b \<Longrightarrow> b < c \<Longrightarrow> a < c"
  by (cases a; cases b; cases c) auto

lemma jsnum_less_PInf: "(a :: jsnum) < b \<Longrightarrow> a < PInf"
  by (cases a; cases b) auto

text \<open>Once a vertex is found its distance is below the radius, so the loop is a plain search.\<close>

lemma ahead_scan_found:
  assumes "best < radius"
  shows "ahead_scan radius i ds (best, Some k) = scan_min i ds (best, Some k)"
  using assms
proof (induction ds arbitrary: i best k)
  case (Cons d ds)
  have "d < best \<Longrightarrow> d < radius" using Cons.prems by (rule jsnum_less_trans [rotated])
  then show ?case using Cons by simp
qed simp

lemma ahead_scan_eq:
  "ahead_scan radius i ds (PInf, None) =
     (case scan_min i ds (radius, None) of
        (m, Some k) \<Rightarrow> (m, Some k) | (_, None) \<Rightarrow> (PInf, None))"
proof (induction ds arbitrary: i)
  case (Cons d ds)
  show ?case
  proof (cases "d < radius")
    case True
    moreover obtain m j where "scan_min (Suc i) ds (d, Some i) = (m, Some j)"
    proof -
      obtain m k where mk: "scan_min (Suc i) ds (d, Some i) = (m, k)" by fastforce
      from scan_min_index [OF this] have "k \<noteq> None" by auto
      with mk that show ?thesis by auto
    qed
    ultimately show ?thesis using jsnum_less_PInf [OF True] by (simp add: ahead_scan_found)
  next
    case False
    then show ?thesis using Cons by simp
  qed
qed simp

text \<open>
  The search ahead: when some vertex at or after the last matched one is closer to the user than
  the search radius, \<open>findNearestPointAhead\<close> returns such a vertex, at or after the last matched
  one, with its distance, and no vertex ahead is closer; otherwise it returns \<open>null\<close>.
\<close>

theorem findNearestPointAhead_spec:
  fixes s :: nav_machine and u :: coord and route :: "coord list" and k :: nat
  shows "(case findNearestPointAhead u route k s of
     None \<Rightarrow> \<not> (\<exists>i. k \<le> i \<and> i < length route \<and>
        distanceMeters u (route ! i) < resumeSearchRadiusMeters (sconfig s))
   | Some (i, p, d) \<Rightarrow> k \<le> i \<and> i < length route \<and> p = route ! i \<and> d = distanceMeters u p \<and>
        d < resumeSearchRadiusMeters (sconfig s) \<and>
        \<not> (\<exists>j. k \<le> j \<and> j < length route \<and> distanceMeters u (route ! j) < d))"
proof -
  let ?r = "resumeSearchRadiusMeters (sconfig s)"
  let ?ds = "map (distanceMeters u) (drop k route)"
  obtain m f where mf: "scan_min k ?ds (?r, None) = (m, f)" by fastforce
  note best = scan_min_best [OF mf] and index = scan_min_index [OF mf]
  have ahead: "route ! j \<in> set (drop k route)" if "k \<le> j" "j < length route" for j
    using that by (auto simp: in_set_conv_nth intro!: exI [of _ "j - k"])
  show ?thesis
  proof (cases f)
    case None
    then have "m = ?r" using index by simp
    then show ?thesis using None mf best ahead
      by (auto simp: findNearestPointAhead_def ahead_scan_eq)
  next
    case (Some i)
    then obtain j where j: "j < length ?ds" "i = k + j" "m = ?ds ! j" "m < ?r" using index by auto
    have "findNearestPointAhead u route k s = Some (i, route ! i, m)"
      using mf Some by (simp add: findNearestPointAhead_def ahead_scan_eq)
    moreover have "k \<le> i" "i < length route" "m = distanceMeters u (route ! i)"
      using j by (auto simp: less_diff_conv add.commute)
    ultimately show ?thesis using j best ahead by auto
  qed
qed

definition route_near :: "jsnum \<Rightarrow> position \<Rightarrow> coord list \<Rightarrow> bool" where
  "route_near r p route \<longleftrightarrow> (\<exists>c \<in> set route. distanceMeters [pos_lon p, pos_lat p] c \<le> r)"

text \<open>
  The smart start: for finite coordinates, \<open>findSmartStartPoint\<close> stores and returns a vertex of the
  route with its distance, no vertex is closer to the user, and it reports the user on the route
  exactly when some vertex is within the start threshold.
\<close>

theorem findSmartStartPoint_spec:
  assumes "route \<noteq> []" "finite_coord [pos_lon p, pos_lat p]" "\<forall>c \<in> set route. finite_coord c"
    and "findSmartStartPoint (Some p) route s = (s', r)"
  shows "ss_index r < length route \<and> ss_point r = Some (route ! ss_index r) \<and>
    ss_distanceFromUser r = distanceMeters [pos_lon p, pos_lat p] (route ! ss_index r) \<and>
    (\<forall>c \<in> set route. ss_distanceFromUser r \<le> distanceMeters [pos_lon p, pos_lat p] c) \<and>
    smartStartPoint s' = ss_point r \<and> smartStartDistance s' = Some (ss_distanceFromUser r) \<and>
    ss_isAtStart r = route_near (startThresholdMeters (sconfig s)) p route"
proof -
  let ?u = "[pos_lon p, pos_lat p]"
  let ?ds = "map (distanceMeters ?u) route"
  have fin: "distanceMeters ?u c = Fin (dist_m ?u c)" if "c \<in> set route" for c
    using assms that by (intro distanceMeters_Fin) auto
  obtain m f where mf: "scan_min 0 ?ds (PInf, None) = (m, f)" by fastforce
  note best = scan_min_best [OF mf] and index = scan_min_index [OF mf]
  have "\<not> (f = None \<and> m = PInf)"
  proof
    assume "f = None \<and> m = PInf"
    moreover have "distanceMeters ?u (hd route) < PInf" using assms(1) fin [of "hd route"] by simp
    ultimately show False using best assms(1) by auto
  qed
  then obtain i where i: "i < length route" "f = Some i" "m = distanceMeters ?u (route ! i)"
    using index by auto
  have le: "m \<le> distanceMeters ?u c" if "c \<in> set route" for c
    using best that i fin [of "route ! i"] fin [OF that] by (auto simp: not_less)
  have near: "m \<le> t \<longleftrightarrow> route_near t p route" for t
  proof
    show "m \<le> t \<Longrightarrow> route_near t p route" using i by (auto simp: route_near_def)
    assume "route_near t p route"
    then obtain c where "c \<in> set route" "distanceMeters ?u c \<le> t" by (auto simp: route_near_def)
    then show "m \<le> t" using le [of c] fin [of c] fin [of "route ! i"] i by (cases t) auto
  qed
  have "s' = s\<lparr>smartStartIndex := i, smartStartPoint := Some (route ! i), smartStartDistance := Some m\<rparr>"
    "r = \<lparr>ss_index = i, ss_point = Some (route ! i), ss_distanceFromUser = m,
       ss_isAtStart = (m \<le> startThresholdMeters (sconfig s))\<rparr>"
    using assms(1,4) mf i by (simp_all add: findSmartStartPoint_def Let_def)
  then show ?thesis using i le near by simp
qed

theorem findSmartStartPoint_spec_witness:
  "smartStartPoint (fst (findSmartStartPoint (Some \<lparr>pos_lat = 30, pos_lon = 10\<rparr>) [[10, 30]]
     (new_state state_defaults))) = Some [10, 30]"
proof -
  let ?p = "\<lparr>pos_lat = 30, pos_lon = 10\<rparr>"
  obtain s' r where sr: "findSmartStartPoint (Some ?p) [[10, 30]] (new_state state_defaults) = (s', r)"
    by fastforce
  have "finite_coord [pos_lon ?p, pos_lat ?p]" "\<forall>c \<in> set [[10, 30]]. finite_coord c"
    by (simp_all add: finite_coord_def)
  from findSmartStartPoint_spec [OF _ this sr] have "ss_index r = 0" "smartStartPoint s' = ss_point r"
    "ss_point r = Some ([[10, 30]] ! ss_index r)"
    by simp_all
  then show ?thesis using sr by simp
qed

lemma transitionTo_fields [simp]:
  "sconfig (fst (transitionTo n s)) = sconfig s" "currentState (fst (transitionTo n s)) = n"
  "smartStartPoint (fst (transitionTo n s)) = smartStartPoint s"
  "resumeAheadData (fst (transitionTo n s)) = resumeAheadData s"
  by (simp_all add: transitionTo_def)

end
