(* ===== verification/NavGps.thy ===== *)
theory NavGps
  imports NavState
begin

text \<open>
  Geolocation of the live navigation: \<open>static/js/modules/geolocation-service.js\<close> (the shared service
  around \<open>navigator.geolocation\<close>) and \<open>static/js/modules/live-navigation/live-navigation-gps.js\<close>
  (class \<open>LiveNavigationGPS\<close>: watching, heading, speed and progress smoothing).

  \<^item> \<open>geo\<close> is the service with the browser's active watches; the browser's watch identifiers are
    fresh numbers. \<open>gps\<close> is the state of the class. \<open>Date.now()\<close> is an argument.
  \<^item> The lemmas show that the client never has more than one active watch, that the sample windows
    are bounded and finite, that the average speed lies between its samples, and what the smoothing
    of the progress guarantees.
\<close>

section \<open>The geolocation service\<close>

record geo_error =
  err_message :: string
  err_code :: "int option"
  err_PERMISSION_DENIED :: "int option"

text \<open>\<open>new Error(message)\<close> has neither a \<open>code\<close> nor a \<open>PERMISSION_DENIED\<close> property.\<close>

definition js_error :: "string \<Rightarrow> geo_error" where
  "js_error m = \<lparr>err_message = m, err_code = None, err_PERMISSION_DENIED = None\<rparr>"

definition geo_handleError :: "int option \<Rightarrow> geo_error" where
  "geo_handleError code = js_error
     (if code = Some 1 then ''Location access denied. Please enable location permissions.''
      else if code = Some 2 then ''Location unavailable. Please check your device settings.''
      else if code = Some 3 then ''Location request timeout. Please try again.''
      else ''An unknown geolocation error occurred'')"

record geo =
  supported :: bool
  svc_watchId :: "nat option"
  svc_isWatching :: bool
  browser_watches :: "nat list"
  browser_next :: nat

definition new_geo :: "bool \<Rightarrow> geo" where
  "new_geo ok = \<lparr>supported = ok, svc_watchId = None, svc_isWatching = False, browser_watches = [],
     browser_next = 1\<rparr>"

definition isSupported :: "geo \<Rightarrow> bool" where
  "isSupported g = supported g"

definition svc_clearWatch :: "geo \<Rightarrow> geo" where
  "svc_clearWatch g =
     (case svc_watchId g of
        None \<Rightarrow> g
      | Some w \<Rightarrow> g\<lparr>browser_watches := set_delete w (browser_watches g), svc_watchId := None,
                   svc_isWatching := False\<rparr>)"

definition svc_watchPosition :: "geo \<Rightarrow> (geo \<times> nat) option" where
  "svc_watchPosition g =
     (if \<not> isSupported g then None
      else let g1 = (if svc_isWatching g then svc_clearWatch g else g);
               w = browser_next g1
           in Some (g1\<lparr>browser_watches := browser_watches g1 @ [w], browser_next := Suc w,
                       svc_watchId := Some w\<rparr>, w))"

text \<open>The success callback of a watch marks the service as watching before it calls the client.\<close>

definition svc_on_position :: "geo \<Rightarrow> geo" where
  "svc_on_position g = g\<lparr>svc_isWatching := True\<rparr>"

record raw_position =
  raw_latitude :: jsnum
  raw_longitude :: jsnum
  raw_accuracy :: "jsnum option"
  raw_heading :: "jsnum option"
  raw_speed :: "jsnum option"
  raw_timestamp :: jsnum

section \<open>The GPS handler\<close>

record gps_config =
  maxProgressHistoryLength :: nat
  maxReverseJumpMeters :: jsnum
  maxSpeedMps :: jsnum
  maxSpeedSamples :: nat

definition gps_defaults :: gps_config where
  "gps_defaults = \<lparr>maxProgressHistoryLength = 5, maxReverseJumpMeters = 50, maxSpeedMps = 50,
     maxSpeedSamples = 6\<rparr>"

record gps_fix =
  fix_lat :: jsnum
  fix_lon :: jsnum
  fix_accuracy :: "jsnum option"
  fix_heading :: "jsnum option"
  fix_speed :: "jsnum option"
  fix_timestamp :: jsnum

record gps =
  gconfig :: gps_config
  watchId :: "nat option"
  lastPosition :: "position option"
  lastPositionTime :: "jsnum option"
  lastHeading :: "jsnum option"
  speedSamples :: "jsnum list"
  progressHistory :: "jsnum list"
  lastValidProgress :: jsnum
  lastProgressTime :: jsnum

definition new_gps :: "gps_config \<Rightarrow> jsnum \<Rightarrow> gps" where
  "new_gps cfg now = \<lparr>gconfig = cfg, watchId = None, lastPosition = None, lastPositionTime = None,
     lastHeading = None, speedSamples = [], progressHistory = [], lastValidProgress = 0,
     lastProgressTime = now\<rparr>"

definition gps_stopGeolocation :: "geo \<times> gps \<Rightarrow> geo \<times> gps" where
  "gps_stopGeolocation = (\<lambda>(g, p).
     if watchId p \<noteq> None then (svc_clearWatch g, p\<lparr>watchId := None\<rparr>) else (g, p))"

text \<open>The second component is the error passed to \<open>onError\<close> at once, if any.\<close>

definition gps_startGeolocation :: "geo \<times> gps \<Rightarrow> (geo \<times> gps) \<times> geo_error option" where
  "gps_startGeolocation gp =
     (let (g, p) = gps_stopGeolocation gp in
      case svc_watchPosition g of
        None \<Rightarrow> ((g, p), Some (js_error ''Geolocation not available''))
      | Some (g', w) \<Rightarrow> ((g', p\<lparr>watchId := Some w\<rparr>), None))"

definition raw_to_fix :: "raw_position \<Rightarrow> jsnum \<Rightarrow> gps_fix option" where
  "raw_to_fix r now =
     (if \<not> is_finite (raw_latitude r) \<or> \<not> is_finite (raw_longitude r) then None
      else Some \<lparr>fix_lat = raw_latitude r, fix_lon = raw_longitude r, fix_accuracy = raw_accuracy r,
        fix_heading = raw_heading r, fix_speed = raw_speed r,
        fix_timestamp = js_or (raw_timestamp r) now\<rparr>)"

text \<open>\<open>!heading\<close> for a number or \<open>null\<close>.\<close>

definition no_heading :: "jsnum option \<Rightarrow> bool" where
  "no_heading h = (case h of None \<Rightarrow> True | Some x \<Rightarrow> falsy x)"

definition finite_or_null :: "jsnum option \<Rightarrow> jsnum option" where
  "finite_or_null x = (case x of Some v \<Rightarrow> (if is_finite v then Some v else None) | None \<Rightarrow> None)"

definition resolveHeading :: "gps_fix \<Rightarrow> nat \<Rightarrow> coord list \<Rightarrow> gps \<Rightarrow> gps \<times> jsnum option" where
  "resolveHeading f closestIndex routeCoords p =
     (let h0 = finite_or_null (fix_heading f);
          h1 = (case lastPosition p of
                  Some q \<Rightarrow> if no_heading h0
                    then Some (bearing [pos_lon q, pos_lat q] [fix_lon f, fix_lat f]) else h0
                | None \<Rightarrow> h0);
          h2 = (if no_heading h1 \<and> int closestIndex < int (length routeCoords) - 1
                then Some (bearing (routeCoords ! closestIndex) (routeCoords ! (closestIndex + 1)))
                else h1)
      in (p\<lparr>lastHeading := h2\<rparr>, h2))"

definition getAverageSpeed :: "gps \<Rightarrow> jsnum option" where
  "getAverageSpeed p =
     (if speedSamples p = [] then None
      else Some (foldl (+) 0 (speedSamples p) / Fin (real (length (speedSamples p)))))"

definition measured_speed :: "gps_fix \<Rightarrow> gps \<Rightarrow> jsnum option" where
  "measured_speed f p =
     (case finite_or_null (fix_speed f) of
        Some v \<Rightarrow> Some v
      | None \<Rightarrow>
        (case (lastPosition p, lastPositionTime p) of
           (Some q, Some t) \<Rightarrow>
             if falsy t then None
             else let deltaTime = (fix_timestamp f - t) / 1000
                  in if deltaTime > 0
                     then Some (distanceMeters [pos_lon q, pos_lat q] [fix_lon f, fix_lat f] / deltaTime)
                     else None
         | _ \<Rightarrow> None))"

definition resolveSpeed :: "gps_fix \<Rightarrow> gps \<Rightarrow> gps \<times> jsnum option" where
  "resolveSpeed f p =
     (let p1 = (case measured_speed f p of
                  Some v \<Rightarrow> if is_finite v
                    then p\<lparr>speedSamples := push_bounded (maxSpeedSamples (gconfig p)) v (speedSamples p)\<rparr>
                    else p
                | None \<Rightarrow> p);
          p2 = p1\<lparr>lastPosition := Some \<lparr>pos_lat = fix_lat f, pos_lon = fix_lon f\<rparr>,
                  lastPositionTime := Some (fix_timestamp f)\<rparr>
      in (p2, getAverageSpeed p2))"

definition smoothProgress :: "jsnum \<Rightarrow> jsnum \<Rightarrow> gps \<Rightarrow> gps \<times> jsnum" where
  "smoothProgress now rawProgress p =
     (let timeDelta = (now - lastProgressTime p) / 1000;
          history = push_bounded (maxProgressHistoryLength (gconfig p)) rawProgress (progressHistory p);
          p1 = p\<lparr>progressHistory := history\<rparr>;
          last = lastValidProgress p;
          jump = maxReverseJumpMeters (gconfig p);
          reverseCount = length (filter (\<lambda>q. q < last - jump) history)
      in if last - rawProgress > jump \<and> reverseCount < 3 then (p1, last)
         else
           let maxForward = maxSpeedMps (gconfig p) * timeDelta;
               clampedProgress =
                 (if rawProgress - last > maxForward \<and> timeDelta > 0 then last + maxForward
                  else rawProgress);
               avg = foldl (+) 0 history / Fin (real (length history));
               smoothed = clampedProgress * Fin (7 / 10) + avg * Fin (3 / 10)
           in (p1\<lparr>lastValidProgress := smoothed, lastProgressTime := now\<rparr>, smoothed))"

definition resetSmoothing :: "jsnum \<Rightarrow> gps \<Rightarrow> gps" where
  "resetSmoothing now p = p\<lparr>progressHistory := [], lastValidProgress := 0, lastProgressTime := now\<rparr>"

definition gps_reset :: "jsnum \<Rightarrow> geo \<times> gps \<Rightarrow> geo \<times> gps" where
  "gps_reset now gp =
     (let (g, p) = gps_stopGeolocation gp
      in (g, resetSmoothing now (p\<lparr>lastPosition := None, lastPositionTime := None, lastHeading := None,
             speedSamples := []\<rparr>)))"

section \<open>Averages\<close>

lemma finite_list_reals:
  assumes "\<forall>x \<in> set xs. is_finite x"
  obtains rs where "xs = map Fin rs"
  using assms
proof (induction xs arbitrary: thesis)
  case (Cons x xs)
  then obtain rs where "xs = map Fin rs" by auto
  moreover obtain r where "x = Fin r" using Cons.prems(2) by (auto simp: is_finite_iff)
  ultimately show ?case using Cons.prems(1) [of "r # rs"] by simp
qed simp

lemma sum_list_bounds:
  fixes rs :: "real list"
  assumes "\<forall>r \<in> set rs. lo \<le> r \<and> r \<le> hi"
  shows "lo * real (length rs) \<le> sum_list rs" "sum_list rs \<le> hi * real (length rs)"
  using assms by (induction rs) (force simp: algebra_simps)+

lemma average_Fin:
  assumes "rs \<noteq> []"
  shows "foldl (+) 0 (map Fin rs) / Fin (real (length rs)) = Fin (sum_list rs / real (length rs))"
  using assms by (simp add: foldl_Fin)

lemma average_bounds:
  fixes rs :: "real list"
  assumes "rs \<noteq> []" "\<forall>r \<in> set rs. lo \<le> r \<and> r \<le> hi"
  shows "lo \<le> sum_list rs / real (length rs)" "sum_list rs / real (length rs) \<le> hi"
  using sum_list_bounds [OF assms(2)] assms(1) by (simp_all add: le_divide_eq divide_le_eq)

lemma filter_Fin_less: "filter (\<lambda>q. q < Fin a) (map Fin rs) = map Fin (filter (\<lambda>r. r < a) rs)"
  by (induction rs) simp_all

lemma push_bounded_map: "push_bounded n (f x) (map f xs) = map f (push_bounded n x xs)"
  by (simp add: push_bounded_def Let_def map_tl)

section \<open>Progress smoothing\<close>

text \<open>The smoothing as a function of real numbers, for the thresholds of the configuration.\<close>

definition progress_ok :: "real \<Rightarrow> gps \<Rightarrow> bool" where
  "progress_ok len p \<longleftrightarrow>
     (\<exists>hist lst. progressHistory p = map Fin hist \<and> lastValidProgress p = Fin lst \<and>
        0 \<le> lst \<and> lst \<le> len \<and> (\<forall>h \<in> set hist. 0 \<le> h \<and> h \<le> len)) \<and>
     is_finite (lastProgressTime p) \<and>
     length (progressHistory p) \<le> maxProgressHistoryLength (gconfig p) \<and>
     gconfig p = gps_defaults"

lemma progress_ok_reset:
  "gconfig p = gps_defaults \<Longrightarrow> 0 \<le> len \<Longrightarrow> is_finite now \<Longrightarrow> progress_ok len (resetSmoothing now p)"
  by (auto simp: progress_ok_def resetSmoothing_def gps_defaults_def)

text \<open>Everything \<open>smoothProgress\<close> does, on real numbers and the default configuration.\<close>

lemma smoothProgress_reals:
  assumes "gconfig p = gps_defaults" "progressHistory p = map Fin hist" "lastValidProgress p = Fin lst"
    and "lastProgressTime p = Fin t0"
  shows "smoothProgress (Fin now) (Fin raw) p =
    (let history = push_bounded 5 raw hist; dt = (now - t0) / 1000;
         p1 = p\<lparr>progressHistory := map Fin history\<rparr>
     in if lst - raw > 50 \<and> length (filter (\<lambda>q. q < lst - 50) history) < 3 then (p1, Fin lst)
        else let c = (if raw - lst > 50 * dt \<and> dt > 0 then lst + 50 * dt else raw);
                 r = c * (7 / 10) + sum_list history / real (length history) * (3 / 10)
             in (p1\<lparr>lastValidProgress := Fin r, lastProgressTime := Fin now\<rparr>, Fin r))"
proof -
  let ?h = "push_bounded 5 raw hist"
  have h: "push_bounded 5 (Fin raw) (map Fin hist) = map Fin ?h" by (rule push_bounded_map)
  have "?h \<noteq> []" by (rule push_bounded_nonempty) simp
  note avg = average_Fin [OF this]
  show ?thesis
    by (simp add: smoothProgress_def Let_def assms gps_defaults_def h filter_Fin_less avg [simplified]
        del: filter_map)
qed

text \<open>
  C17. Smoothed progress stays on the route: while raw progress, the accepted progress and the history
  lie between 0 and the length of the route, and the clock is finite, \<open>smoothProgress\<close> returns a
  number in that range, keeps it as the accepted progress, and keeps at most five samples.
\<close>

theorem smoothProgress_on_route:
  assumes "progress_ok len p" "0 \<le> raw" "raw \<le> len" "smoothProgress (Fin now) (Fin raw) p = (p', r)"
  shows "progress_ok len p' \<and> r = lastValidProgress p' \<and> (\<exists>v. r = Fin v \<and> 0 \<le> v \<and> v \<le> len)"
proof -
  obtain hist lst t0 where st: "gconfig p = gps_defaults" "progressHistory p = map Fin hist"
      "lastValidProgress p = Fin lst" "lastProgressTime p = Fin t0"
    and b: "0 \<le> lst" "lst \<le> len" "\<forall>h \<in> set hist. 0 \<le> h \<and> h \<le> len" "length hist \<le> 5"
    using assms(1) by (auto simp: progress_ok_def is_finite_iff gps_defaults_def)
  define h where "h = push_bounded 5 raw hist"
  define avg where "avg = sum_list h / real (length h)"
  define dt where "dt = (now - t0) / 1000"
  define c where "c = (if raw - lst > 50 * dt \<and> dt > 0 then lst + 50 * dt else raw)"
  define v where "v = c * (7 / 10) + avg * (3 / 10)"
  have h_ok: "\<forall>x \<in> set h. 0 \<le> x \<and> x \<le> len" "h \<noteq> []" "length h \<le> 5"
    using b assms(2,3) push_bounded_set [of 5 raw hist] push_bounded_nonempty [of 5 raw hist]
      push_bounded_length [of hist 5 raw] by (auto simp: h_def)
  have "0 \<le> avg" "avg \<le> len" using average_bounds [OF h_ok(2,1)] by (simp_all add: avg_def)
  moreover have "0 \<le> c" "c \<le> len" using b assms(2,3) by (auto simp: c_def)
  ultimately have v: "0 \<le> v" "v \<le> len" by (auto simp: v_def)
  have "(p', r) = (if lst - raw > 50 \<and> length (filter (\<lambda>q. q < lst - 50) h) < 3
      then (p\<lparr>progressHistory := map Fin h\<rparr>, Fin lst)
      else (p\<lparr>progressHistory := map Fin h, lastValidProgress := Fin v, lastProgressTime := Fin now\<rparr>,
            Fin v))"
    unfolding assms(4) [symmetric] smoothProgress_reals [OF st] Let_def
    by (simp only: h_def [symmetric] dt_def [symmetric] c_def [symmetric] avg_def [symmetric]
        v_def [symmetric])
  then show ?thesis using v b h_ok st
    by (auto simp: progress_ok_def gps_defaults_def split: if_splits)
qed

definition gps_at :: "real \<Rightarrow> real list \<Rightarrow> real \<Rightarrow> gps" where
  "gps_at v hist t = (new_gps gps_defaults (Fin t))\<lparr>lastValidProgress := Fin v, progressHistory := map Fin hist\<rparr>"

theorem smoothProgress_on_route_witness:
  "progress_ok 1000 (gps_at 100 [100] 0) \<and>
   snd (smoothProgress (Fin 1000) (Fin 120) (gps_at 100 [100] 0)) = Fin 117"
proof -
  have ok: "progress_ok 1000 (gps_at 100 [100] 0)"
    by (simp add: progress_ok_def gps_at_def new_gps_def gps_defaults_def exI [of _ "[100]"])
  obtain p' r where pr: "smoothProgress (Fin 1000) (Fin 120) (gps_at 100 [100] 0) = (p', r)" by fastforce
  have "r = Fin 117"
    using pr by (auto simp: gps_at_def smoothProgress_def new_gps_def gps_defaults_def push_bounded_def Let_def)
  then show ?thesis using ok pr smoothProgress_on_route [OF ok _ _ pr] by simp
qed

text \<open>
  Reverse jumps: when raw progress falls more than 50 metres behind the accepted progress and
  fewer than three of the last five samples (this one included) confirm it, \<open>smoothProgress\<close>
  returns the accepted progress unchanged; so two such samples in a row after three good ones are
  ignored.
\<close>

theorem smoothProgress_rejects_reverse:
  assumes "gconfig p = gps_defaults" "progressHistory p = map Fin hist" "lastValidProgress p = Fin lst"
    and "lastProgressTime p = Fin t0" "raw < lst - 50"
    and "length (filter (\<lambda>q. q < lst - 50) hist) \<le> 1"
  shows "snd (smoothProgress (Fin now) (Fin raw) p) = Fin lst \<and>
    lastValidProgress (fst (smoothProgress (Fin now) (Fin raw) p)) = Fin lst \<and>
    progressHistory (fst (smoothProgress (Fin now) (Fin raw) p)) = map Fin (push_bounded 5 raw hist)"
proof -
  let ?P = "\<lambda>q. q < lst - 50"
  have "length (filter ?P (push_bounded 5 raw hist)) \<le> length (filter ?P (hist @ [raw]))"
    by (cases hist) (auto simp: push_bounded_def Let_def)
  also have "\<dots> \<le> 2" using assms(6) by simp
  finally show ?thesis using assms(5) unfolding smoothProgress_reals [OF assms(1-4)]
    by (simp add: Let_def assms(3))
qed

theorem smoothProgress_rejects_reverse_witness:
  "snd (smoothProgress (Fin 1000) (Fin 10) (gps_at 100 [98, 99, 100] 0)) = Fin 100"
  using smoothProgress_rejects_reverse [of "gps_at 100 [98, 99, 100] 0" "[98, 99, 100]" 100 0 10 1000]
  by (simp add: gps_at_def new_gps_def)

text \<open>
  Rule 2 of \<open>smoothProgress\<close> is meant to keep forward jumps physically possible, but the
  average of rule 3 is taken over the raw samples: one sample 10 km ahead, one second after the
  start, moves the accepted progress by more than 3 km although 50 metres are possible.
\<close>

theorem smoothProgress_exceeds_max_speed:
  "snd (smoothProgress (Fin 1000) (Fin 10000) (resetSmoothing (Fin 0) (new_gps gps_defaults (Fin 0)))) =
     Fin 3035 \<and>
   Fin 3035 > maxSpeedMps gps_defaults * Fin 1"
  by (simp add: smoothProgress_def resetSmoothing_def new_gps_def gps_defaults_def push_bounded_def Let_def)

section \<open>Speed and heading\<close>

definition samples_ok :: "gps \<Rightarrow> bool" where
  "samples_ok p \<longleftrightarrow> (\<forall>x \<in> set (speedSamples p). is_finite x) \<and>
     length (speedSamples p) \<le> maxSpeedSamples (gconfig p)"

lemma samples_ok_new: "samples_ok (new_gps cfg now)"
  by (simp add: samples_ok_def new_gps_def)

lemma resolveSpeed_samples:
  "samples_ok p \<Longrightarrow> samples_ok (fst (resolveSpeed f p))"
  using push_bounded_length [of "speedSamples p" "maxSpeedSamples (gconfig p)"]
  by (auto simp: samples_ok_def resolveSpeed_def Let_def split: option.splits
      dest!: set_mp [OF push_bounded_set])

text \<open>
  The reported speed: over finite samples \<open>getAverageSpeed\<close> is a finite number between any
  lower and upper bound of the samples, and resolving the speed of a fix keeps the samples finite
  and at most \<open>maxSpeedSamples\<close> many.
\<close>

theorem average_speed_bounds:
  assumes "samples_ok p" "resolveSpeed f p = (p', v)" "\<forall>x \<in> set (speedSamples p'). Fin lo \<le> x \<and> x \<le> Fin hi"
  shows "samples_ok p' \<and>
    (case v of None \<Rightarrow> speedSamples p' = [] | Some a \<Rightarrow> is_finite a \<and> Fin lo \<le> a \<and> a \<le> Fin hi)"
proof -
  have ok: "samples_ok p'" using resolveSpeed_samples [OF assms(1), of f] assms(2) by simp
  then obtain rs where rs: "speedSamples p' = map Fin rs"
    using finite_list_reals by (metis samples_ok_def)
  have v: "v = getAverageSpeed p'" using assms(2) by (auto simp: resolveSpeed_def Let_def)
  show ?thesis
  proof (cases "rs = []")
    case True
    then show ?thesis using ok v rs by (simp add: getAverageSpeed_def)
  next
    case False
    have "v = Some (Fin (sum_list rs / real (length rs)))"
      using v rs False average_Fin [OF False] by (simp add: getAverageSpeed_def)
    then show ?thesis using ok average_bounds [OF False, of lo hi] assms(3) rs by auto
  qed
qed

definition one_sample_fix :: gps_fix where
  "one_sample_fix = \<lparr>fix_lat = 30, fix_lon = 10, fix_accuracy = None, fix_heading = None,
     fix_speed = Some 20, fix_timestamp = 1000\<rparr>"

theorem average_speed_bounds_witness:
  "\<exists>v. snd (resolveSpeed one_sample_fix (new_gps gps_defaults 0)) = Some v \<and> Fin 15 \<le> v \<and> v \<le> Fin 25"
proof -
  obtain p' v where pv: "resolveSpeed one_sample_fix (new_gps gps_defaults 0) = (p', v)" by fastforce
  then have s: "speedSamples p' = [20]"
    by (auto simp: resolveSpeed_def measured_speed_def finite_or_null_def one_sample_fix_def new_gps_def
        gps_defaults_def push_bounded_def Let_def)
  then have "\<forall>x \<in> set (speedSamples p'). Fin 15 \<le> x \<and> x \<le> Fin 25" by simp
  from average_speed_bounds [OF samples_ok_new pv this] show ?thesis
    using pv s by (simp split: option.splits)
qed

text \<open>
  The test \<open>!heading\<close> takes due north (0 degrees) for a missing heading: the reported heading is
  then the bearing from the previous position, whatever the device says.
\<close>

lemma resolveHeading_north:
  assumes "fix_heading f = Some 0" "lastPosition p = Some q"
    and "\<not> falsy (bearing [pos_lon q, pos_lat q] [fix_lon f, fix_lat f])"
  shows "snd (resolveHeading f i route p) = Some (bearing [pos_lon q, pos_lat q] [fix_lon f, fix_lat f])"
  using assms by (simp add: resolveHeading_def no_heading_def finite_or_null_def falsy_def Let_def)

section \<open>Watches\<close>

text \<open>The handler with the service and the browser; fixes and errors come from active watches.\<close>

datatype watch_event = WStart | WStop | WReset jsnum | WPosition nat

definition watch_init :: "geo \<times> gps \<Rightarrow> bool" where
  "watch_init gp \<longleftrightarrow> (\<exists>ok now. gp = (new_geo ok, new_gps gps_defaults now))"

inductive watch_step :: "geo \<times> gps \<Rightarrow> watch_event \<Rightarrow> geo \<times> gps \<Rightarrow> bool" where
  "watch_step gp WStart (fst (gps_startGeolocation gp))"
| "watch_step gp WStop (gps_stopGeolocation gp)"
| "watch_step gp (WReset now) (gps_reset now gp)"
| "w \<in> set (browser_watches g) \<Longrightarrow> watch_step (g, p) (WPosition w) (svc_on_position g, p)"

inductive_cases watch_step_elim: "watch_step gp e gp'"

definition watch_inv :: "geo \<times> gps \<Rightarrow> bool" where
  "watch_inv gp \<longleftrightarrow> svc_watchId (fst gp) = watchId (snd gp) \<and>
     browser_watches (fst gp) = (case watchId (snd gp) of None \<Rightarrow> [] | Some w \<Rightarrow> [w])"

lemma stop_inv: "watch_inv gp \<Longrightarrow> watch_inv (gps_stopGeolocation gp) \<and>
    watchId (snd (gps_stopGeolocation gp)) = None"
  by (cases gp) (auto simp: watch_inv_def gps_stopGeolocation_def svc_clearWatch_def set_delete_def
      split: option.splits)

lemma start_inv: "watch_inv gp \<Longrightarrow> watch_inv (fst (gps_startGeolocation gp))"
  using stop_inv [of gp]
  by (cases "gps_stopGeolocation gp")
    (auto simp: gps_startGeolocation_def svc_watchPosition_def watch_inv_def svc_clearWatch_def Let_def
      split: option.splits)

lemma reset_inv: "watch_inv gp \<Longrightarrow> watch_inv (gps_reset now gp)"
  using stop_inv [of gp]
  by (cases "gps_stopGeolocation gp") (simp add: gps_reset_def resetSmoothing_def watch_inv_def)

interpretation watch: event_system watch_init watch_step watch_inv
proof
  show "watch_inv gp" if "watch_init gp" for gp
    using that by (auto simp: watch_init_def watch_inv_def new_geo_def new_gps_def)
  show "watch_inv gp'" if "watch_inv gp" "watch_step gp e gp'" for gp e gp'
    using that(2)
  proof (cases rule: watch_step.cases)
    case (4 w g p)
    then show ?thesis using that(1) by (simp add: watch_inv_def svc_on_position_def)
  qed (use that(1) start_inv stop_inv reset_inv in auto)
qed

text \<open>
  No leaked watches: however starts, stops, resets and fixes interleave, the browser has at most
  one active watch, the one both the handler and the service know; after a stop it has none.
\<close>

theorem single_active_watch:
  assumes "reach watch_init watch_step gp"
  shows "browser_watches (fst gp) = (case watchId (snd gp) of None \<Rightarrow> [] | Some w \<Rightarrow> [w]) \<and>
    browser_watches (fst (gps_stopGeolocation gp)) = []"
proof -
  have inv: "watch_inv gp" using assms by (rule watch.reachable_inv)
  then show ?thesis using stop_inv [OF inv] by (auto simp: watch_inv_def)
qed

theorem single_active_watch_witness:
  "browser_watches (fst (fst (gps_startGeolocation (new_geo True, new_gps gps_defaults 0)))) = [1]"
proof -
  let ?i = "(new_geo True, new_gps gps_defaults 0)"
  have "reach watch_init watch_step ?i" by (rule reach_init) (auto simp: watch_init_def)
  then have "reach watch_init watch_step (fst (gps_startGeolocation ?i))"
    by (rule reach_step [where step = watch_step]) (rule watch_step.intros)
  from single_active_watch [OF this] show ?thesis
    by (simp add: gps_startGeolocation_def gps_stopGeolocation_def svc_watchPosition_def new_geo_def
        new_gps_def isSupported_def)
qed

end
