(* ===== verification/NavRoute.thy ===== *)
theory NavRoute
  imports NavGps
begin

text \<open>
  The route computations of the controller, \<open>static/js/modules/live-navigation/live-navigation-navigator.js\<close>,
  as functions of the route: reading the GPX document, distances along the route, the list of
  maneuvers, the matching of a position to the route, the next maneuver, the camera zoom, the
  displayed coverage percentage; and the area cache of \<open>features/navigation-core/coverage-areas.js\<close>.

  The XML document is given by what the code reads of it (\<open>gpx\<close>): whether it has a
  \<open>parsererror\<close>, the numbers \<open>parseFloat\<close> reads from the attributes of its track and route
  points, and the trimmed text of the first name node.
\<close>

section \<open>Reading the route\<close>

record gpx =
  gpx_parsererror :: bool
  gpx_trkpt :: "(jsnum \<times> jsnum) list"
  gpx_rtept :: "(jsnum \<times> jsnum) list"
  gpx_name :: "string option"

definition parseGpx :: "gpx \<Rightarrow> string \<Rightarrow> (coord list \<times> string) option" where
  "parseGpx xml routeName =
     (if gpx_parsererror xml then None
      else let points = (if gpx_trkpt xml = [] then gpx_rtept xml else gpx_trkpt xml);
               coords = map (\<lambda>(lat, lon). [lon, lat])
                          (filter (\<lambda>(lat, lon). is_finite lat \<and> is_finite lon) points);
               name = (case gpx_name xml of None \<Rightarrow> routeName
                       | Some t \<Rightarrow> if t = [] then routeName else t)
           in Some (coords, name))"

section \<open>Distances along the route\<close>

record metrics =
  routeDistances :: "jsnum list"
  segmentLengths :: "jsnum list"
  totalDistance :: jsnum

definition metric_step :: "coord list \<Rightarrow> metrics \<Rightarrow> nat \<Rightarrow> metrics" where
  "metric_step routeCoords m i =
     (let dist = distanceMeters (routeCoords ! (i - 1)) (routeCoords ! i);
          t = totalDistance m + dist
      in \<lparr>routeDistances = routeDistances m @ [t], segmentLengths = segmentLengths m @ [dist],
          totalDistance = t\<rparr>)"

definition buildRouteMetrics :: "coord list \<Rightarrow> metrics" where
  "buildRouteMetrics routeCoords =
     foldl (metric_step routeCoords) \<lparr>routeDistances = [0], segmentLengths = [], totalDistance = 0\<rparr>
       [1 ..< length routeCoords]"

section \<open>Maneuvers\<close>

record maneuver =
  man_index :: int
  distanceAlong :: jsnum
  man_delta :: jsnum
  man_type :: string

definition minTurnDistance :: jsnum where "minTurnDistance = 40"
definition minTurnAngle :: jsnum where "minTurnAngle = 28"

definition maneuver_step ::
  "coord list \<Rightarrow> metrics \<Rightarrow> maneuver list \<times> jsnum \<Rightarrow> nat \<Rightarrow> maneuver list \<times> jsnum" where
  "maneuver_step routeCoords m = (\<lambda>(maneuvers, lastDistance) i.
     let inbound = bearing (routeCoords ! (i - 1)) (routeCoords ! i);
         outbound = bearing (routeCoords ! i) (routeCoords ! (i + 1));
         delta = angleDelta inbound outbound;
         absDelta = js_abs delta;
         along = js_at (routeDistances m) i
     in if absDelta < minTurnAngle then (maneuvers, lastDistance)
        else if along - lastDistance < minTurnDistance then (maneuvers, lastDistance)
        else if js_at (segmentLengths m) (i - 1) < 8 \<or> js_at (segmentLengths m) i < 8
          then (maneuvers, lastDistance)
        else (maneuvers @ [\<lparr>man_index = int i, distanceAlong = along, man_delta = delta,
                man_type = classifyTurn delta\<rparr>], along))"

definition turns :: "coord list \<Rightarrow> metrics \<Rightarrow> maneuver list" where
  "turns routeCoords m = fst (foldl (maneuver_step routeCoords m) ([], 0) [1 ..< length routeCoords - 1])"

definition buildManeuvers :: "coord list \<Rightarrow> metrics \<Rightarrow> maneuver list" where
  "buildManeuvers routeCoords m =
     [\<lparr>man_index = 0, distanceAlong = 0, man_delta = 0, man_type = ''depart''\<rparr>] @ turns routeCoords m @
     [\<lparr>man_index = int (length routeCoords) - 1, distanceAlong = totalDistance m, man_delta = 0,
       man_type = ''arrive''\<rparr>]"

definition getNextManeuver :: "maneuver list \<Rightarrow> jsnum \<Rightarrow> maneuver option" where
  "getNextManeuver maneuvers progressDistance =
     List.find (\<lambda>m. distanceAlong m > progressDistance + 5) maneuvers"

section \<open>Matching a position to the route\<close>

record closest =
  cl_index :: nat
  cl_distance :: jsnum
  cl_point :: coord
  cl_along :: jsnum

definition closest_at :: "coord \<Rightarrow> coord list \<Rightarrow> metrics \<Rightarrow> nat \<Rightarrow> closest" where
  "closest_at current routeCoords m i =
     (let proj = projectToSegment current (routeCoords ! i) (routeCoords ! (i + 1))
      in \<lparr>cl_index = i, cl_distance = proj_distance proj, cl_point = proj_point proj,
          cl_along = js_at (routeDistances m) i + proj_t proj * js_at (segmentLengths m) i\<rparr>)"

text \<open>\<open>searchRange(from, to)\<close>, with the end of the range excluded.\<close>

definition searchRange :: "coord \<Rightarrow> coord list \<Rightarrow> metrics \<Rightarrow> nat \<Rightarrow> nat \<Rightarrow> closest option" where
  "searchRange current routeCoords m from to =
     foldl (\<lambda>best i. let c = closest_at current routeCoords m i in
        case best of None \<Rightarrow> Some c
        | Some b \<Rightarrow> if cl_distance c < cl_distance b then Some c else best) None [from ..< to]"

definition search_window :: "nat \<Rightarrow> nat \<Rightarrow> nat \<times> nat" where
  "search_window lastClosestIndex totalSegments =
     (if lastClosestIndex \<noteq> 0
      then (lastClosestIndex - 120, min totalSegments (lastClosestIndex + 241))
      else (0, totalSegments))"

definition findClosestPoint :: "coord \<Rightarrow> coord list \<Rightarrow> metrics \<Rightarrow> nat \<Rightarrow> nat \<times> closest option" where
  "findClosestPoint current routeCoords m lastClosestIndex =
     (if routeCoords = [] then (lastClosestIndex, None)
      else
        let totalSegments = length routeCoords - 1;
            (startIndex, endIndex) = search_window lastClosestIndex totalSegments;
            first = searchRange current routeCoords m startIndex endIndex;
            best = (case first of
                      None \<Rightarrow> searchRange current routeCoords m 0 totalSegments
                    | Some b \<Rightarrow> if cl_distance b > 250
                        then searchRange current routeCoords m 0 totalSegments else first)
        in (case best of None \<Rightarrow> lastClosestIndex | Some b \<Rightarrow> cl_index b, best))"

section \<open>Display values\<close>

definition getDynamicZoom :: "jsnum option \<Rightarrow> jsnum" where
  "getDynamicZoom speedMps =
     (let speedMph = (case speedMps of None \<Rightarrow> 0
                      | Some v \<Rightarrow> if falsy v then 0 else v * MPS_TO_MPH)
      in if speedMph > 55 then Fin (145 / 10) else if speedMph > 35 then Fin (152 / 10)
         else if speedMph > 20 then Fin (158 / 10) else Fin (165 / 10))"

definition clamp_percent :: "jsnum \<Rightarrow> jsnum" where
  "clamp_percent x = js_min 100 (js_max 0 x)"

definition resolveLiveCoveragePercent :: "jsnum \<Rightarrow> (jsnum \<times> jsnum) option \<Rightarrow> jsnum" where
  "resolveLiveCoveragePercent baseline stats =
     (let safeBaseline = (if is_finite baseline then clamp_percent baseline else 0)
      in case stats of None \<Rightarrow> safeBaseline
         | Some (totalLength, livePercent) \<Rightarrow>
             if totalLength > 0 \<and> is_finite livePercent then clamp_percent livePercent
             else safeBaseline)"

text \<open>The stale banner: the number of days it shows, when it is shown.\<close>

definition checkRouteStale :: "jsnum option \<Rightarrow> jsnum \<Rightarrow> jsnum option" where
  "checkRouteStale generatedTime now =
     (case generatedTime of None \<Rightarrow> None
      | Some t \<Rightarrow>
        if \<not> is_finite t then None
        else let ageMs = now - t; ageHours = ageMs / (1000 * 60 * 60)
             in if ageHours > 24 then Some (js_floor (ageHours / 24)) else None)"

section \<open>Coverage areas\<close>

record area =
  area_id :: string
  display_name :: string

definition findCoverageAreaById :: "string \<Rightarrow> area list \<Rightarrow> area option" where
  "findCoverageAreaById areaId areas =
     (if areaId = [] then None else List.find (\<lambda>a. area_id a = areaId) areas)"

text \<open>An error of a request: its status, when it has one, and its message.\<close>

record request_error =
  re_status :: "int option"
  re_message :: string

definition isNotFoundError :: "request_error \<Rightarrow> bool" where
  "isNotFoundError e =
     (if re_status e = Some 404 then True
      else let message = str_lower (re_message e)
           in str_includes message ''404'' \<or> str_includes message ''not found'')"

text \<open>The window cache of \<open>loadCoverageAreasWithCache\<close>.\<close>

datatype areas_response = RespList "area list" | RespObject "area list option"

definition readCoverageAreasCache :: "area list option \<Rightarrow> area list option" where
  "readCoverageAreasCache cache =
     (case cache of Some xs \<Rightarrow> if xs = [] then None else Some xs | None \<Rightarrow> None)"

definition writeCoverageAreasCache :: "area list \<Rightarrow> area list option \<Rightarrow> area list option" where
  "writeCoverageAreasCache areas cache = (if areas = [] then cache else Some areas)"

definition loadCoverageAreasWithCache ::
  "(string + areas_response) \<Rightarrow> bool \<Rightarrow> area list option \<Rightarrow> area list option \<times> (string + area list)" where
  "loadCoverageAreasWithCache fetched force cache =
     (case (if force then None else readCoverageAreasCache cache) of
        Some xs \<Rightarrow> (cache, Inr xs)
      | None \<Rightarrow>
        (case fetched of
           Inl e \<Rightarrow> (cache, Inl e)
         | Inr (RespList xs) \<Rightarrow> (writeCoverageAreasCache xs cache, Inr xs)
         | Inr (RespObject (Some xs)) \<Rightarrow> (writeCoverageAreasCache xs cache, Inr xs)
         | Inr (RespObject None) \<Rightarrow> (cache, Inl ''Invalid coverage areas response.'')))"

definition clearCoverageAreasCache :: "area list option \<Rightarrow> area list option" where
  "clearCoverageAreasCache cache = None"

definition finiteNonNegative :: "jsnum option \<Rightarrow> jsnum option" where
  "finiteNonNegative v =
     (case v of None \<Rightarrow> None | Some x \<Rightarrow> if is_finite x \<and> x \<ge> 0 then Some x else None)"

definition getDriveableMiles :: "jsnum option \<Rightarrow> jsnum option" where
  "getDriveableMiles driveable_length = finiteNonNegative driveable_length"

definition getRemainingDriveableMiles :: "jsnum option \<Rightarrow> jsnum option \<Rightarrow> jsnum option" where
  "getRemainingDriveableMiles driveable_length driven_length =
     (case (getDriveableMiles driveable_length, finiteNonNegative driven_length) of
        (Some a, Some b) \<Rightarrow> Some (js_max 0 (a - b)) | _ \<Rightarrow> None)"

definition getDriveableSegments :: "jsnum option \<Rightarrow> jsnum option \<Rightarrow> jsnum option" where
  "getDriveableSegments total_segments undriveable_segments =
     (case (finiteNonNegative total_segments, finiteNonNegative undriveable_segments) of
        (Some a, Some b) \<Rightarrow> Some (js_max 0 (a - b)) | _ \<Rightarrow> None)"

section \<open>Lemmas\<close>

definition finite_route :: "coord list \<Rightarrow> bool" where
  "finite_route cs \<longleftrightarrow> cs \<noteq> [] \<and> (\<forall>c \<in> set cs. finite_coord c)"

lemma parseGpx_finite: "parseGpx xml n = Some (cs, nm) \<Longrightarrow> \<forall>c \<in> set cs. finite_coord c"
  by (auto simp: parseGpx_def Let_def finite_coord_def split: if_splits)

subsection \<open>Distances\<close>

text \<open>The metrics as real numbers: cumulative distances \<open>ds\<close> and segment lengths \<open>ls\<close>.\<close>

definition metrics_are :: "coord list \<Rightarrow> nat \<Rightarrow> real list \<Rightarrow> real list \<Rightarrow> metrics \<Rightarrow> bool" where
  "metrics_are cs n ds ls m \<longleftrightarrow>
     m = \<lparr>routeDistances = map Fin ds, segmentLengths = map Fin ls, totalDistance = Fin (ds ! n)\<rparr> \<and>
     length ds = Suc n \<and> length ls = n \<and> ds ! 0 = 0 \<and>
     (\<forall>i < n. ls ! i = dist_m (cs ! i) (cs ! (i + 1)) \<and> 0 \<le> ls ! i \<and> ds ! (i + 1) = ds ! i + ls ! i)"

lemma metrics_areD:
  assumes "metrics_are cs n ds ls m"
  shows "routeDistances m = map Fin ds" "segmentLengths m = map Fin ls" "totalDistance m = Fin (ds ! n)"
    "length ds = Suc n" "length ls = n" "ds ! 0 = 0"
    "i < n \<Longrightarrow> ls ! i = dist_m (cs ! i) (cs ! (i + 1))" "i < n \<Longrightarrow> 0 \<le> ls ! i"
    "i < n \<Longrightarrow> ds ! Suc i = ds ! i + ls ! i"
  using assms by (auto simp: metrics_are_def)

lemma metric_step_are:
  assumes m: "metrics_are cs n ds ls m" and "finite_route cs" "Suc n < length cs"
  shows "\<exists>ds ls. metrics_are cs (Suc n) ds ls (metric_step cs m (Suc n))"
proof -
  let ?d = "dist_m (cs ! n) (cs ! Suc n)"
  have "finite_coord (cs ! n)" "finite_coord (cs ! Suc n)" using assms(2,3) by (auto simp: finite_route_def)
  note d = distanceMeters_Fin [OF this]
  note M = metrics_areD [OF m]
  have "metrics_are cs (Suc n) (ds @ [ds ! n + ?d]) (ls @ [?d]) (metric_step cs m (Suc n))"
    unfolding metrics_are_def
  proof (intro conjI allI impI)
    show "metric_step cs m (Suc n) = \<lparr>routeDistances = map Fin (ds @ [ds ! n + ?d]),
        segmentLengths = map Fin (ls @ [?d]), totalDistance = Fin ((ds @ [ds ! n + ?d]) ! Suc n)\<rparr>"
      using M d by (simp add: metric_step_def Let_def nth_append)
    fix i assume "i < Suc n"
    then consider "i < n" | "i = n" by linarith
    then show "(ls @ [?d]) ! i = dist_m (cs ! i) (cs ! (i + 1))" "0 \<le> (ls @ [?d]) ! i"
      "(ds @ [ds ! n + ?d]) ! (i + 1) = (ds @ [ds ! n + ?d]) ! i + (ls @ [?d]) ! i"
      using M d by (cases; simp add: nth_append)+
  qed (use M in \<open>simp_all add: nth_append\<close>)
  then show ?thesis by blast
qed

lemma metrics_upto:
  assumes "finite_route cs" "n < length cs"
  shows "\<exists>ds ls. metrics_are cs n ds ls (foldl (metric_step cs)
    \<lparr>routeDistances = [0], segmentLengths = [], totalDistance = 0\<rparr> [1 ..< Suc n])"
  using assms(2)
proof (induction n)
  case 0
  show ?case by (intro exI [of _ "[0]"] exI [of _ "[]"]) (simp add: metrics_are_def)
next
  case (Suc n)
  then show ?case using metric_step_are [OF _ assms(1), of n] by fastforce
qed

lemma metrics_exist:
  assumes "finite_route cs"
  obtains ds ls where "metrics_are cs (length cs - 1) ds ls (buildRouteMetrics cs)"
proof -
  have "Suc (length cs - 1) = length cs" using assms by (cases cs) (auto simp: finite_route_def)
  then show ?thesis using metrics_upto [OF assms, of "length cs - 1"] that
    unfolding buildRouteMetrics_def by auto
qed

lemma metrics_mono:
  assumes "metrics_are cs n ds ls m" "i \<le> j" "j \<le> n"
  shows "ds ! i \<le> ds ! j"
  using assms(2,3)
proof (induction j rule: dec_induct)
  case (step k)
  then have "ds ! k \<le> ds ! Suc k" using metrics_areD(8,9) [OF assms(1), of k] by simp
  then show ?case using step by simp
qed simp

lemma metrics_nonneg: "metrics_are cs n ds ls m \<Longrightarrow> i \<le> n \<Longrightarrow> 0 \<le> ds ! i"
  using metrics_mono [of cs n ds ls m 0 i] metrics_areD(6) [of cs n ds ls m] by simp

text \<open>
  The route metrics: for a route of finite coordinates there is one cumulative distance per
  vertex and one length per segment, the first distance is 0 and the last one the total, each
  distance is the previous one plus the length of the segment between them, and they never
  decrease.
\<close>

theorem buildRouteMetrics_spec:
  assumes "finite_route cs"
  shows "let m = buildRouteMetrics cs in
    length (routeDistances m) = length cs \<and> length (segmentLengths m) = length cs - 1 \<and>
    routeDistances m ! 0 = 0 \<and> routeDistances m ! (length cs - 1) = totalDistance m \<and>
    (\<forall>i < length cs - 1. segmentLengths m ! i = distanceMeters (cs ! i) (cs ! (i + 1)) \<and>
       routeDistances m ! (i + 1) = routeDistances m ! i + segmentLengths m ! i) \<and>
    (\<forall>i j. i \<le> j \<longrightarrow> j < length cs \<longrightarrow> routeDistances m ! i \<le> routeDistances m ! j)"
proof -
  obtain ds ls where m: "metrics_are cs (length cs - 1) ds ls (buildRouteMetrics cs)"
    by (rule metrics_exist [OF assms])
  note M = metrics_areD [OF m]
  have len: "length ds = length cs" "0 < length cs" using M(4) assms by (auto simp: finite_route_def)
  have dist: "distanceMeters (cs ! i) (cs ! Suc i) = Fin (dist_m (cs ! i) (cs ! Suc i))"
    if "i < length cs - 1" for i
    using assms that by (intro distanceMeters_Fin) (auto simp: finite_route_def)
  have mono: "ds ! i \<le> ds ! j" if "i \<le> j" "j < length cs" for i j
    using metrics_mono [OF m that(1)] that(2) by simp
  show ?thesis using M len dist mono by (auto simp: Let_def)
qed

theorem buildRouteMetrics_spec_witness:
  "finite_route [[0, 0], [0, 1]] \<and> routeDistances (buildRouteMetrics [[0, 0], [0, 1]]) ! 1 =
     totalDistance (buildRouteMetrics [[0, 0], [0, 1]])"
proof -
  have f: "finite_route [[0, 0], [0, 1]]" by (simp add: finite_route_def finite_coord_def)
  show ?thesis using f buildRouteMetrics_spec [OF f] by (simp add: Let_def)
qed

subsection \<open>Maneuvers\<close>

definition depart :: maneuver where
  "depart = \<lparr>man_index = 0, distanceAlong = 0, man_delta = 0, man_type = ''depart''\<rparr>"

text \<open>Two maneuvers at least the minimal turn distance apart, in the order of the route.\<close>

definition spaced :: "maneuver \<Rightarrow> maneuver \<Rightarrow> bool" where
  "spaced a b \<longleftrightarrow> is_finite (distanceAlong a) \<and> is_finite (distanceAlong b) \<and>
     distanceAlong a + minTurnDistance \<le> distanceAlong b"

lemma spaced_trans: "spaced a b \<Longrightarrow> spaced b c \<Longrightarrow> spaced a c"
  by (auto simp: spaced_def is_finite_iff minTurnDistance_def)

definition turn_ok :: "coord list \<Rightarrow> metrics \<Rightarrow> maneuver \<Rightarrow> bool" where
  "turn_ok cs m t \<longleftrightarrow>
     (\<exists>i. 0 < i \<and> i < length cs - 1 \<and> man_index t = int i \<and> distanceAlong t = routeDistances m ! i \<and>
        man_delta t = angleDelta (bearing (cs ! (i - 1)) (cs ! i)) (bearing (cs ! i) (cs ! (i + 1)))) \<and>
     minTurnAngle \<le> js_abs (man_delta t) \<and> man_type t = classifyTurn (man_delta t) \<and>
     man_type t \<noteq> ''straight''"

lemma classifyTurn_not_straight:
  "is_finite d \<Longrightarrow> \<not> js_abs d < minTurnAngle \<Longrightarrow>
     minTurnAngle \<le> js_abs d \<and> classifyTurn d \<noteq> ''straight''"
  by (auto simp: is_finite_iff classifyTurn_def minTurnAngle_def Let_def)

lemma angleDelta_finite:
  assumes "finite_coord a" "finite_coord b" "finite_coord c"
  shows "is_finite (angleDelta (bearing a b) (bearing b c))"
  using bearing_Fin [OF assms(1,2)] bearing_Fin [OF assms(2,3)] by (auto simp: angleDelta_def)

definition man_inv :: "coord list \<Rightarrow> metrics \<Rightarrow> maneuver list \<times> jsnum \<Rightarrow> bool" where
  "man_inv cs m = (\<lambda>(ms, d). sorted_wrt spaced (depart # ms) \<and> d = distanceAlong (last (depart # ms)) \<and>
     (\<forall>t \<in> set (depart # ms). is_finite (distanceAlong t)) \<and> (\<forall>t \<in> set ms. turn_ok cs m t))"

lemma sorted_spaced_snoc:
  assumes "sorted_wrt spaced xs" "xs \<noteq> []" "spaced (last xs) y"
  shows "sorted_wrt spaced (xs @ [y])"
proof -
  have "spaced x y" if "x \<in> set xs" for x
  proof (cases "x = last xs")
    case False
    then have "x \<in> set (butlast xs)" using that assms(2)
      by (metis append_butlast_last_id in_set_butlastD rotate1.simps(2) set_ConsD set_rotate1)
    moreover have "sorted_wrt spaced (butlast xs @ [last xs])" using assms(1,2) by simp
    ultimately have "spaced x (last xs)" by (simp add: sorted_wrt_append)
    then show ?thesis using assms(3) by (rule spaced_trans)
  qed (use assms(3) in simp)
  then show ?thesis using assms(1) by (simp add: sorted_wrt_append)
qed

lemma maneuver_step_inv:
  assumes route: "finite_route cs" and i: "0 < i" "i < length cs - 1"
    and inv: "man_inv cs (buildRouteMetrics cs) acc"
  shows "man_inv cs (buildRouteMetrics cs) (maneuver_step cs (buildRouteMetrics cs) acc i)"
proof -
  obtain ms d where acc: "acc = (ms, d)" by fastforce
  obtain ds ls where m: "metrics_are cs (length cs - 1) ds ls (buildRouteMetrics cs)"
    by (rule metrics_exist [OF route])
  note M = metrics_areD [OF m]
  let ?\<delta> = "angleDelta (bearing (cs ! (i - 1)) (cs ! i)) (bearing (cs ! i) (cs ! (i + 1)))"
  let ?t = "\<lparr>man_index = int i, distanceAlong = js_at (routeDistances (buildRouteMetrics cs)) i,
    man_delta = ?\<delta>, man_type = classifyTurn ?\<delta>\<rparr>"
  have along: "js_at (routeDistances (buildRouteMetrics cs)) i = Fin (ds ! i)"
    "routeDistances (buildRouteMetrics cs) ! i = Fin (ds ! i)" using M i by (simp_all add: js_at_def)
  show ?thesis
  proof (cases "maneuver_step cs (buildRouteMetrics cs) acc i = acc")
    case True
    then show ?thesis using inv by simp
  next
    case False
    then have keep: "\<not> js_abs ?\<delta> < minTurnAngle" "\<not> Fin (ds ! i) - d < minTurnDistance"
      and eq: "maneuver_step cs (buildRouteMetrics cs) acc i = (ms @ [?t], Fin (ds ! i))"
      using along(1) unfolding acc maneuver_step_def Let_def prod.case
      by (simp_all split: if_splits)
    have "is_finite ?\<delta>" using route i by (intro angleDelta_finite) (auto simp: finite_route_def)
    from classifyTurn_not_straight [OF this keep(1)] have "turn_ok cs (buildRouteMetrics cs) ?t"
      using i along by (auto simp: turn_ok_def)
    moreover obtain x where x: "distanceAlong (last (depart # ms)) = Fin x" "d = Fin x"
      using inv acc last_in_set [of "depart # ms"] unfolding man_inv_def is_finite_iff by fastforce
    then have "spaced (last (depart # ms)) ?t"
      using keep(2) along by (simp add: spaced_def minTurnDistance_def del: last.simps)
    then have "sorted_wrt spaced ((depart # ms) @ [?t])"
      using inv acc by (intro sorted_spaced_snoc) (auto simp: man_inv_def)
    ultimately show ?thesis using inv acc along unfolding eq
      by (auto simp: man_inv_def)
  qed
qed

lemma turns_inv:
  assumes "finite_route cs" "k \<le> length cs - 1"
  shows "man_inv cs (buildRouteMetrics cs)
    (foldl (maneuver_step cs (buildRouteMetrics cs)) ([], 0) [1 ..< k])"
  using assms(2)
proof (induction k)
  case (Suc k)
  show ?case
  proof (cases "k = 0")
    case False
    then show ?thesis using Suc maneuver_step_inv [OF assms(1), of k] by simp
  qed (simp add: man_inv_def depart_def)
qed (simp add: man_inv_def depart_def)

text \<open>
  C7. The maneuver list: it starts with the departure at distance 0 and ends with the arrival at the
  total distance; the departure and the turns are in route order, at least 40 metres apart and not
  beyond the arrival; each turn is at an inner vertex, at that vertex's distance along the route,
  with the signed angle of the route there, of at least 28 degrees, and it is never classified as
  \<open>straight\<close>.
\<close>

theorem buildManeuvers_spec:
  assumes "finite_route cs"
  shows "let m = buildRouteMetrics cs; ms = buildManeuvers cs m in
    hd ms = depart \<and> man_type (last ms) = ''arrive'' \<and> distanceAlong (last ms) = totalDistance m \<and>
    sorted_wrt spaced (depart # turns cs m) \<and> ms = depart # turns cs m @ [last ms] \<and>
    (\<forall>t \<in> set (turns cs m). turn_ok cs m t \<and> distanceAlong t \<le> totalDistance m)"
proof -
  obtain ds ls where m: "metrics_are cs (length cs - 1) ds ls (buildRouteMetrics cs)"
    by (rule metrics_exist [OF assms])
  note M = metrics_areD [OF m]
  have inv: "sorted_wrt spaced (depart # turns cs (buildRouteMetrics cs))"
      "\<forall>t \<in> set (turns cs (buildRouteMetrics cs)). turn_ok cs (buildRouteMetrics cs) t"
    using turns_inv [OF assms order_refl] by (auto simp: man_inv_def turns_def split: prod.splits)
  have "distanceAlong t \<le> totalDistance (buildRouteMetrics cs)"
    if "t \<in> set (turns cs (buildRouteMetrics cs))" for t
  proof -
    have "turn_ok cs (buildRouteMetrics cs) t" using inv(2) that by blast
    then obtain i where "i < length cs - 1" "distanceAlong t = routeDistances (buildRouteMetrics cs) ! i"
      by (auto simp: turn_ok_def)
    then show ?thesis using M metrics_mono [OF m, of i "length cs - 1"] by simp
  qed
  then show ?thesis using inv by (simp add: Let_def buildManeuvers_def depart_def)
qed

theorem buildManeuvers_spec_witness:
  "finite_route [[0, 0], [0, 1]] \<and>
   man_type (last (buildManeuvers [[0, 0], [0, 1]] (buildRouteMetrics [[0, 0], [0, 1]]))) = ''arrive''"
proof -
  have f: "finite_route [[0, 0], [0, 1]]" by (simp add: finite_route_def finite_coord_def)
  show ?thesis using f buildManeuvers_spec [OF f] unfolding Let_def by blast
qed

lemma along_le_total:
  assumes "finite_route cs" "mv \<in> set (buildManeuvers cs (buildRouteMetrics cs))"
  shows "distanceAlong mv \<le> totalDistance (buildRouteMetrics cs)"
proof -
  obtain ds ls where m: "metrics_are cs (length cs - 1) ds ls (buildRouteMetrics cs)"
    by (rule metrics_exist [OF assms(1)])
  note M = metrics_areD [OF m]
  have inv: "\<forall>t \<in> set (turns cs (buildRouteMetrics cs)). turn_ok cs (buildRouteMetrics cs) t"
    using turns_inv [OF assms(1) order_refl] by (auto simp: man_inv_def turns_def split: prod.splits)
  consider "mv \<in> set (turns cs (buildRouteMetrics cs))" | "distanceAlong mv = 0"
    | "distanceAlong mv = totalDistance (buildRouteMetrics cs)"
    using assms(2) by (auto simp: buildManeuvers_def)
  then show ?thesis
  proof cases
    case 1
    then have "turn_ok cs (buildRouteMetrics cs) mv" using inv by blast
    then obtain i where "i < length cs - 1" "distanceAlong mv = routeDistances (buildRouteMetrics cs) ! i"
      by (auto simp: turn_ok_def)
    then show ?thesis using M metrics_mono [OF m, of i "length cs - 1"] by simp
  qed (use M metrics_nonneg [OF m, of "length cs - 1"] in simp_all)
qed

text \<open>
  Guidance never runs dry before the end: while more than five metres of the route remain,
  \<open>getNextManeuver\<close> returns a maneuver more than five metres ahead, and every earlier one of the
  list is not; in the last five metres it returns nothing.
\<close>

theorem getNextManeuver_spec:
  assumes "finite_route cs"
  shows "let m = buildRouteMetrics cs; ms = buildManeuvers cs m in
    (if Fin p + 5 < totalDistance m
     then \<exists>i < length ms. getNextManeuver ms (Fin p) = Some (ms ! i) \<and> Fin p + 5 < distanceAlong (ms ! i) \<and>
       (\<forall>j < i. \<not> Fin p + 5 < distanceAlong (ms ! j))
     else getNextManeuver ms (Fin p) = None)"
proof -
  define m where "m = buildRouteMetrics cs"
  define ms where "ms = buildManeuvers cs m"
  have last: "distanceAlong (last ms) = totalDistance m" "last ms \<in> set ms"
    by (simp_all add: ms_def buildManeuvers_def)
  show ?thesis
  proof (cases "Fin p + 5 < totalDistance m")
    case True
    then have "getNextManeuver ms (Fin p) \<noteq> None"
      using last unfolding getNextManeuver_def find_None_iff by metis
    then obtain x where x: "getNextManeuver ms (Fin p) = Some x" by blast
    with True show ?thesis
      unfolding m_def [symmetric] ms_def [symmetric] Let_def
      by (auto simp: getNextManeuver_def find_Some_iff)
  next
    case False
    have "\<not> Fin p + 5 < distanceAlong mv" if "mv \<in> set ms" for mv
    proof -
      have "distanceAlong mv \<le> totalDistance m"
        using along_le_total [OF assms] that by (simp add: ms_def m_def)
      then show ?thesis using False by (cases "distanceAlong mv"; cases "totalDistance m") auto
    qed
    then have "getNextManeuver ms (Fin p) = None" by (simp add: getNextManeuver_def find_None_iff)
    with False show ?thesis unfolding m_def [symmetric] ms_def [symmetric] Let_def by simp
  qed
qed

theorem getNextManeuver_spec_witness:
  "finite_route [[0, 0]] \<and>
   getNextManeuver (buildManeuvers [[0, 0]] (buildRouteMetrics [[0, 0]])) (Fin 1) = None"
proof -
  have f: "finite_route [[0, 0]]" by (simp add: finite_route_def finite_coord_def)
  have "\<not> Fin 1 + 5 < totalDistance (buildRouteMetrics [[0, 0]])"
    by (simp add: buildRouteMetrics_def)
  then show ?thesis using f getNextManeuver_spec [OF f, of 1] by (simp add: Let_def)
qed

subsection \<open>Matching\<close>

lemma projectToSegment_Fin:
  assumes "finite_coord p" "finite_coord a" "finite_coord b"
  shows "\<exists>t d. proj_t (projectToSegment p a b) = Fin t \<and> 0 \<le> t \<and> t \<le> 1 \<and>
    proj_distance (projectToSegment p a b) = Fin d"
proof -
  define refLat where "refLat = (js_at a 1 + js_at b 1) / 2"
  have "is_finite refLat"
    using assms(2,3) by (auto simp: refLat_def finite_coord_def is_finite_def split: jsnum.splits)
  then have xy: "\<exists>x y. toXY c refLat = (Fin x, Fin y)" if "finite_coord c" for c
    using that by (auto simp: toXY_def finite_coord_def is_finite_iff EARTH_RADIUS_M_def)
  obtain px py ax ay bx bY where v: "toXY p refLat = (Fin px, Fin py)"
      "toXY a refLat = (Fin ax, Fin ay)" "toXY b refLat = (Fin bx, Fin bY)"
    using xy [OF assms(1)] xy [OF assms(2)] xy [OF assms(3)] by blast
  then show ?thesis
    using clamp_t_range [of "px - ax" "py - ay" "bx - ax" "bY - ay"]
    unfolding projectToSegment_def refLat_def [symmetric]
    by (simp add: Let_def clamp_t_def)
qed

lemma searchRange_best:
  assumes "from < to"
  shows "\<exists>c. searchRange p cs m from to = Some c \<and> from \<le> cl_index c \<and> cl_index c < to \<and>
    c = closest_at p cs m (cl_index c) \<and>
    (\<forall>j. from \<le> j \<and> j < to \<longrightarrow> \<not> cl_distance (closest_at p cs m j) < cl_distance c)"
  using assms
proof (induction "to")
  case (Suc n)
  let ?c = "closest_at p cs m"
  have ix: "cl_index (?c i) = i" for i by (simp add: closest_at_def Let_def)
  show ?case
  proof (cases "from = n")
    case True
    have "n \<le> j \<and> j < Suc n \<longleftrightarrow> j = n" for j by auto
    then show ?thesis using True ix
      by (intro exI [of _ "?c n"]) (simp add: searchRange_def Let_def)
  next
    case False
    with Suc obtain b where b: "searchRange p cs m from n = Some b" "from \<le> cl_index b" "cl_index b < n"
      "b = ?c (cl_index b)" "\<And>j. from \<le> j \<Longrightarrow> j < n \<Longrightarrow> \<not> cl_distance (?c j) < cl_distance b" by auto
    have step: "searchRange p cs m from (Suc n) =
        Some (if cl_distance (?c n) < cl_distance b then ?c n else b)"
      using b(1) Suc.prems False by (simp add: searchRange_def Let_def)
    show ?thesis
    proof (cases "cl_distance (?c n) < cl_distance b")
      case True
      have "\<not> cl_distance (?c j) < cl_distance (?c n)" if "from \<le> j" "j < Suc n" for j
        using that b(5) [of j] jsnum_not_less_trans [OF True] by (cases "j = n") auto
      then show ?thesis using True step ix Suc.prems by (intro exI [of _ "?c n"]) auto
    next
      case False
      then show ?thesis using step b by (intro exI [of _ b]) (auto simp: less_Suc_eq)
    qed
  qed
qed simp

lemma searchRange_empty: "to \<le> from \<Longrightarrow> searchRange p cs m from to = None"
  by (simp add: searchRange_def)

lemma closest_along:
  assumes "finite_route cs" "finite_coord p" "i < length cs - 1"
  shows "0 \<le> cl_along (closest_at p cs (buildRouteMetrics cs) i) \<and>
    cl_along (closest_at p cs (buildRouteMetrics cs) i) \<le> totalDistance (buildRouteMetrics cs) \<and>
    is_finite (cl_distance (closest_at p cs (buildRouteMetrics cs) i))"
proof -
  obtain ds ls where m: "metrics_are cs (length cs - 1) ds ls (buildRouteMetrics cs)"
    by (rule metrics_exist [OF assms(1)])
  note M = metrics_areD [OF m]
  have "finite_coord (cs ! i)" "finite_coord (cs ! (i + 1))" using assms by (auto simp: finite_route_def)
  then obtain t d where t: "proj_t (projectToSegment p (cs ! i) (cs ! (i + 1))) = Fin t" "0 \<le> t" "t \<le> 1"
      "proj_distance (projectToSegment p (cs ! i) (cs ! (i + 1))) = Fin d"
    using projectToSegment_Fin [OF assms(2)] by blast
  have "t * ls ! i \<le> ls ! i" "0 \<le> t * ls ! i"
    using t M(8) [OF assms(3)] by (simp_all add: mult_left_le_one_le)
  moreover have "ds ! i + ls ! i \<le> ds ! (length cs - 1)"
    using metrics_mono [OF m, of "Suc i" "length cs - 1"] M(9) [OF assms(3)] assms(3) by simp
  moreover have "0 \<le> ds ! i" using metrics_nonneg [OF m, of i] assms(3) by simp
  ultimately show ?thesis using M t assms(3) by (simp add: closest_at_def Let_def js_at_def)
qed

text \<open>
  C6. Matching a position: on a route of at least two finite points, \<open>findClosestPoint\<close> returns a
  segment of the route and stores its index; the distance along the route lies between 0 and the
  total; no segment from 120 before to 240 after the previous match is closer; and when there was
  no previous match, or the returned distance exceeds 250 metres, no segment of the whole route is
  closer.
\<close>

theorem findClosestPoint_spec:
  assumes "finite_route cs" "2 \<le> length cs" "finite_coord p"
  shows "\<exists>c. findClosestPoint p cs (buildRouteMetrics cs) k = (cl_index c, Some c) \<and>
    cl_index c < length cs - 1 \<and> c = closest_at p cs (buildRouteMetrics cs) (cl_index c) \<and>
    0 \<le> cl_along c \<and> cl_along c \<le> totalDistance (buildRouteMetrics cs) \<and> is_finite (cl_distance c) \<and>
    (\<forall>j < length cs - 1. (k - 120 \<le> j \<and> j \<le> k + 240 \<or> k = 0 \<or> cl_distance c > 250) \<longrightarrow>
       \<not> cl_distance (closest_at p cs (buildRouteMetrics cs) j) < cl_distance c)"
proof -
  let ?n = "length cs - 1" and ?m = "buildRouteMetrics cs"
  let ?c = "closest_at p cs ?m"
  obtain a b where w: "search_window k ?n = (a, b)" by fastforce
  have win: "b \<le> ?n" "\<And>j. j < ?n \<Longrightarrow> k - 120 \<le> j \<and> j \<le> k + 240 \<or> k = 0 \<Longrightarrow> a \<le> j \<and> j < b"
    using w by (auto simp: search_window_def split: if_splits)
  have "0 < ?n" using assms(2) by simp
  from searchRange_best [OF this, of p cs ?m] obtain g where g: "searchRange p cs ?m 0 ?n = Some g"
    "cl_index g < ?n" "g = ?c (cl_index g)" "\<And>j. j < ?n \<Longrightarrow> \<not> cl_distance (?c j) < cl_distance g" by auto
  have "\<exists>c. findClosestPoint p cs ?m k = (cl_index c, Some c) \<and> cl_index c < ?n \<and> c = ?c (cl_index c) \<and>
    (\<forall>j < ?n. (k - 120 \<le> j \<and> j \<le> k + 240 \<or> k = 0 \<or> cl_distance c > 250) \<longrightarrow>
       \<not> cl_distance (?c j) < cl_distance c)"
  proof (cases "a < b")
    case True
    from searchRange_best [OF this, of p cs ?m] obtain f where f: "searchRange p cs ?m a b = Some f"
      "cl_index f < b" "f = ?c (cl_index f)"
      "\<And>j. a \<le> j \<Longrightarrow> j < b \<Longrightarrow> \<not> cl_distance (?c j) < cl_distance f" by auto
    show ?thesis
    proof (cases "cl_distance f > 250")
      case True
      then have "findClosestPoint p cs ?m k = (cl_index g, Some g)"
        using assms(1) w f(1) g(1) by (simp add: findClosestPoint_def finite_route_def Let_def)
      then show ?thesis using g by blast
    next
      case False
      then have "findClosestPoint p cs ?m k = (cl_index f, Some f)"
        using assms(1) w f(1) by (simp add: findClosestPoint_def finite_route_def Let_def)
      moreover have "cl_index f < ?n" using f(2) win(1) by simp
      moreover have "\<not> cl_distance (?c j) < cl_distance f"
        if "j < ?n" "k - 120 \<le> j \<and> j \<le> k + 240 \<or> k = 0" for j
        using win(2) [OF that] f(4) by blast
      ultimately show ?thesis using f(3) False by blast
    qed
  next
    case False
    then have "findClosestPoint p cs ?m k = (cl_index g, Some g)"
      using assms(1) w g(1) searchRange_empty [of b a p cs ?m]
      by (simp add: findClosestPoint_def finite_route_def Let_def)
    then show ?thesis using g by blast
  qed
  then obtain c where c: "findClosestPoint p cs ?m k = (cl_index c, Some c)" "cl_index c < ?n"
    "c = ?c (cl_index c)" "\<forall>j < ?n. (k - 120 \<le> j \<and> j \<le> k + 240 \<or> k = 0 \<or> cl_distance c > 250) \<longrightarrow>
       \<not> cl_distance (?c j) < cl_distance c" by blast
  have "0 \<le> cl_along c \<and> cl_along c \<le> totalDistance ?m \<and> is_finite (cl_distance c)"
    using closest_along [OF assms(1,3) c(2)] c(3) by simp
  then show ?thesis using c by blast
qed

theorem findClosestPoint_spec_witness:
  "\<exists>c. findClosestPoint [0, 1] [[0, 0], [0, 2]] (buildRouteMetrics [[0, 0], [0, 2]]) 0 = (0, Some c)"
proof -
  have f: "finite_route [[0, 0], [0, 2]]" "2 \<le> length [[0, 0], [0, 2 :: jsnum]]" "finite_coord [0, 1]"
    by (simp_all add: finite_route_def finite_coord_def)
  from findClosestPoint_spec [OF f, of 0] obtain c where
    "findClosestPoint [0, 1] [[0, 0], [0, 2]] (buildRouteMetrics [[0, 0], [0, 2]]) 0 = (cl_index c, Some c)"
    "cl_index c < length [[0, 0], [0, 2 :: jsnum]] - 1" by blast
  then show ?thesis by auto
qed

lemma clamp_percent_range: "\<exists>v. clamp_percent (Fin x) = Fin v \<and> 0 \<le> v \<and> v \<le> 100"
  using clamp_Fin [of 0 100 x] by (simp add: clamp_percent_def)

lemma resolveLiveCoveragePercent_range:
  "\<exists>v. resolveLiveCoveragePercent b st = Fin v \<and> 0 \<le> v \<and> v \<le> 100"
  using clamp_percent_range
  by (auto simp: resolveLiveCoveragePercent_def Let_def is_finite_iff split: option.splits)

end
