(* ===== verification/Navigator.thy ===== *)
theory Navigator
  imports NavRoute NavCoverage
begin

text \<open>
  The live navigation controller, class \<open>LiveNavigationNavigator\<close> of
  \<open>static/js/modules/live-navigation/live-navigation-navigator.js\<close>.

  \<^item> \<open>nav\<close> is the controller with its sub-modules: the geolocation service and GPS handler, the state
    machine, the coverage tracker with its requests, the browser's storage and address, and the
    clock. \<open>nav_outs\<close> is the sequence of calls to the UI and the map, which the model does not look
    into; a formatted text is represented by the numbers it is made from.
  \<^item> An async method is split at its awaits: what waits is a \<open>cont\<close> in \<open>waiting\<close>, and \<open>settle\<close> runs
    the rest of the method with the \<open>response\<close> of the request. Several methods may wait at once and
    are settled in any order. An await of something already settled continues at once.
  \<^item> \<open>openStreams\<close> are the progress streams that are not closed; \<open>generationEventSource\<close> is the one
    the controller refers to.
  \<^item> The listener for live tracking events is taken to be registered from the start; it does nothing
    unless navigation is on.
  \<^item> The field \<open>optimalRouteStats\<close>, which nothing reads, is left out.
\<close>

section \<open>Data\<close>

datatype state_data =
    SDGenerating | SDPreview jsnum "jsnum option" nat jsnum | SDToStart "jsnum option" | SDNone

datatype nav_out =
    UpdateForState NAV_STATE state_data
  | SetNavStatus string bool
  | SetSetupStatus string bool
  | ShowBeginButton
  | ShowNavigateToStartButton
  | UpdateStartStatus string "jsnum option" "jsnum option"
  | SetLoadRouteLoading bool
  | SetLoadRouteEnabled bool
  | SetStartEnabled bool
  | SetNavToStartLoading bool
  | SetAreaSelectValue string
  | ShowSetupPanel
  | HideSetupPanel
  | ResetGuidanceUI
  | HideStaleBanner
  | ShowStaleBanner jsnum
  | PopulateAreaSelect "area list"
  | UpdateControlStates bool bool
  | UpdateSetupSummary jsnum nat jsnum
  | UpdateRouteProgress jsnum jsnum string
  | UpdateCoverageProgress jsnum jsnum
  | InitializeCoverageDisplay jsnum
  | UpdateRemaining jsnum
  | UpdateEta jsnum "jsnum option"
  | UpdateSpeed "jsnum option"
  | UpdateInstruction string jsnum string bool
  | UpdateSignal "jsnum option"
  | DistanceToStart jsnum
  | UpdateResumeDistance jsnum jsnum
  | UpdateGenerationProgress
  | MapRouteLayers "coord list"
  | MapRouteMarkers coord coord
  | MapFitBounds "coord list"
  | MapClearRouteLayers
  | MapClearNavigateToStartRoute
  | MapSetNavigateToStartRoute string
  | MapPositionMarker coord
  | MapProgressLine "coord list"
  | MapMarkerHeading "jsnum option"
  | MapCamera coord "jsnum option" jsnum
  | MapDestroy
  | CancelRequest string

record cov_area =
  has_optimal_route :: "bool option"
  coverage_percentage :: jsnum

record directions =
  dir_distance :: jsnum
  dir_duration :: jsnum
  dir_geometry :: "string option"

text \<open>The route details: the time the route was generated at, in milliseconds, if present.\<close>

record route_data =
  generated_at :: "jsnum option"

datatype cancel_kont = KNone | KArea "string option"

text \<open>A request for an area carries the identifier it was made for.\<close>

datatype cont =
    CInitMap
  | CAreas
  | CActiveTask
  | CFetchArea string
  | CFetchRoute "string option" cov_area
  | CSegments "route_data option"
  | CEta "route_data option"
  | CGenStart bool
  | CCancel cancel_kont
  | CStartPosition
  | CStartDirections smart_start
  | CNavToStart
  | CEndPersist
  | CEndArea
  | CResume nat coord

datatype response =
    RError request_error
  | ROk
  | RAreas areas_response
  | RActive "string option"
  | RArea cov_area
  | RRoute gpx "route_data option"
  | RFeatures "feature list"
  | RDuration "jsnum option"
  | RTask string
  | RPosition position
  | RDirections "directions option"

record nav =
  map_ready :: bool
  n_geo :: geo
  n_gps :: gps
  n_machine :: nav_machine
  n_cov :: cov_sys
  coverageAreas :: "area list"
  selectedAreaId :: "string option"
  selectedAreaName :: "string option"
  routeCoords :: "coord list"
  n_metrics :: metrics
  maneuvers :: "maneuver list"
  routeName :: string
  coverageBaseline :: jsnum
  routeLoaded :: bool
  isNavigating :: bool
  followMode :: bool
  overviewMode :: bool
  needsStartSeed :: bool
  estimatedDriveTime :: "jsnum option"
  navigateToStartRoute :: "string option"
  generationTaskId :: "string option"
  generationEventSource :: "string option"
  lastClosestIndex :: nat
  openStreams :: "string list"
  ui_area :: "string \<times> string"
  stored_area :: "string option"
  url_area :: "string option"
  areas_cache :: "area list option"
  start_timers :: nat
  clock :: jsnum
  waiting :: "cont list"
  nav_outs :: "nav_out list"

definition no_metrics :: metrics where
  "no_metrics = \<lparr>routeDistances = [], segmentLengths = [], totalDistance = 0\<rparr>"

definition new_nav :: "bool \<Rightarrow> jsnum \<Rightarrow> string option \<Rightarrow> string option \<Rightarrow> area list option \<Rightarrow> nav" where
  "new_nav gps_ok now stored url cache =
     \<lparr>map_ready = False, n_geo = new_geo gps_ok, n_gps = new_gps gps_defaults now,
      n_machine = new_state state_defaults,
      n_cov = \<lparr>cs = new_coverage cov_defaults, inflight = [], acked = [], loads = 0\<rparr>,
      coverageAreas = [], selectedAreaId = None, selectedAreaName = None, routeCoords = [],
      n_metrics = no_metrics, maneuvers = [], routeName = ''Coverage Route'', coverageBaseline = 0,
      routeLoaded = False, isNavigating = False, followMode = True, overviewMode = False,
      needsStartSeed = False, estimatedDriveTime = None, navigateToStartRoute = None,
      generationTaskId = None, generationEventSource = None, lastClosestIndex = 0, openStreams = [],
      ui_area = ([], []), stored_area = stored, url_area = url, areas_cache = cache,
      start_timers = 0, clock = now, waiting = [], nav_outs = []\<rparr>"

definition put :: "nav_out list \<Rightarrow> nav \<Rightarrow> nav" where
  "put os s = s\<lparr>nav_outs := nav_outs s @ os\<rparr>"

definition wait :: "cont \<Rightarrow> nav \<Rightarrow> nav" where
  "wait k s = s\<lparr>waiting := waiting s @ [k]\<rparr>"

definition gps_pair :: "nav \<Rightarrow> geo \<times> gps" where
  "gps_pair s = (n_geo s, n_gps s)"

definition set_gps :: "geo \<times> gps \<Rightarrow> nav \<Rightarrow> nav" where
  "set_gps gp s = s\<lparr>n_geo := fst gp, n_gps := snd gp\<rparr>"

section \<open>State changes\<close>

definition getStateData :: "NAV_STATE \<Rightarrow> nav \<Rightarrow> state_data" where
  "getStateData st s =
     (case st of
        GENERATING \<Rightarrow> SDGenerating
      | ROUTE_PREVIEW \<Rightarrow> SDPreview (totalDistance (n_metrics s)) (estimatedDriveTime s)
          (length (maneuvers s) - 2) (coverageBaseline s)
      | NAVIGATING_TO_START \<Rightarrow> SDToStart (smartStartDistance (n_machine s))
      | _ \<Rightarrow> SDNone)"

text \<open>\<open>getCurrentPosition\<close> throws without geolocation; the catch branch of the caller then runs.\<close>

definition start_unknown :: "nav \<Rightarrow> nav" where
  "start_unknown s = put [UpdateStartStatus ''unknown'' None None, ShowBeginButton] s"

definition checkStartProximity :: "nav \<Rightarrow> nav" where
  "checkStartProximity s =
     (if \<not> routeLoaded s \<or> length (routeCoords s) < 2 then s
      else if isSupported (n_geo s) then wait CStartPosition s
      else start_unknown s)"

definition onStateChange :: "NAV_STATE \<Rightarrow> nav \<Rightarrow> nav" where
  "onStateChange newState s =
     (let s1 = put [UpdateForState newState (getStateData newState s)] s;
          s2 = (if newState = ROUTE_PREVIEW then checkStartProximity (put [ShowBeginButton] s1) else s1)
      in if newState = GENERATING then put [SetNavStatus ''Generating route...'' False] s2 else s2)"

definition transition :: "NAV_STATE \<Rightarrow> nav \<Rightarrow> nav" where
  "transition newState s =
     (let (m, notified) = transitionTo newState (n_machine s);
          s1 = s\<lparr>n_machine := m\<rparr>
      in if notified then onStateChange newState s1 else s1)"

definition handlePersistenceIssue :: "persistence_issue \<Rightarrow> nav \<Rightarrow> nav" where
  "handlePersistenceIssue issue s =
     (case issue of
        RetryScheduled failures delay _ \<Rightarrow>
          put [SetNavStatus (''Coverage sync retry '' @ js_int (if failures = 0 then 1 else int failures) @
                '' in '' @ js_int (max 1 (\<lfloor>real_of_int delay / 1000 + 1 / 2\<rfloor>)) @ ''s.'') True] s
      | RetryExhausted _ _ \<Rightarrow>
          put [SetNavStatus ''Coverage sync paused after repeated failures. Check network or server health.''
                True] s
      | BaseFailed _ \<Rightarrow> s)"

section \<open>Reset and invalidation\<close>

definition resetRouteState :: "nav \<Rightarrow> nav" where
  "resetRouteState s =
     (let s1 = s\<lparr>routeCoords := [], n_metrics := no_metrics, maneuvers := [], routeLoaded := False,
                lastClosestIndex := 0\<rparr>;
          s2 = set_gps (gps_reset (clock s1) (gps_pair s1)) s1;
          s3 = s2\<lparr>n_machine := state_reset (n_machine s2),
                  n_cov := (n_cov s2)\<lparr>cs := cov_reset (cs (n_cov s2))\<rparr>,
                  isNavigating := False, navigateToStartRoute := None, needsStartSeed := False\<rparr>;
          s4 = put [MapClearRouteLayers, MapClearNavigateToStartRoute, ResetGuidanceUI, HideStaleBanner,
                    SetNavStatus ''Waiting for route'' False] s3
      in transition SETUP s4)"

definition clearPersistedAreaSelection :: "string option \<Rightarrow> nav \<Rightarrow> nav" where
  "clearPersistedAreaSelection areaId s =
     (case areaId of None \<Rightarrow> s
      | Some target \<Rightarrow>
        if target = [] then s
        else s\<lparr>stored_area := (if stored_area s = Some target then None else stored_area s),
               url_area := (if url_area s = Some target then None else url_area s)\<rparr>)"

definition invalidateSelectedArea :: "string option \<Rightarrow> nav \<Rightarrow> nav" where
  "invalidateSelectedArea areaId s =
     (let s1 = clearPersistedAreaSelection areaId s;
          s2 = put [SetAreaSelectValue []] (s1\<lparr>selectedAreaId := None, selectedAreaName := None,
                 ui_area := ([], [])\<rparr>)
      in put [SetLoadRouteEnabled False, SetStartEnabled False,
              SetSetupStatus ''Selected coverage area is no longer available.'' True,
              SetNavStatus ''Select an area to continue.'' True] (resetRouteState s2))"

section \<open>Route generation\<close>

definition finally_load :: "bool \<Rightarrow> nav \<Rightarrow> nav" where
  "finally_load inLoad s = (if inLoad then put [SetLoadRouteLoading False] s else s)"

definition autoGenerateRoute :: "bool \<Rightarrow> nav \<Rightarrow> nav" where
  "autoGenerateRoute inLoad s =
     (case selectedAreaId s of None \<Rightarrow> finally_load inLoad s | Some a \<Rightarrow> wait (CGenStart inLoad) s)"

definition connect_stream :: "string \<Rightarrow> nav \<Rightarrow> nav" where
  "connect_stream taskId s =
     (transition GENERATING (s\<lparr>generationTaskId := Some taskId\<rparr>))
       \<lparr>generationEventSource := Some taskId, openStreams := openStreams s @ [taskId]\<rparr>"

definition generation_started :: "bool \<Rightarrow> response \<Rightarrow> nav \<Rightarrow> nav" where
  "generation_started inLoad r s =
     (case r of
        RTask taskId \<Rightarrow> finally_load inLoad (connect_stream taskId s)
      | RError e \<Rightarrow> finally_load inLoad (transition SETUP
          (put [SetSetupStatus (''Failed to start generation: '' @ re_message e) True,
                SetNavStatus (re_message e) True] s))
      | _ \<Rightarrow> s)"

definition close_source :: "nav \<Rightarrow> nav" where
  "close_source s =
     (case generationEventSource s of None \<Rightarrow> s
      | Some t \<Rightarrow> s\<lparr>openStreams := remove1 t (openStreams s)\<rparr>)"

definition reconnectToGeneration :: "string \<Rightarrow> nav \<Rightarrow> nav" where
  "reconnectToGeneration taskId s = connect_stream taskId (close_source s)"

definition handleGenerationError :: "string \<Rightarrow> nav \<Rightarrow> nav" where
  "handleGenerationError msg s =
     transition SETUP (put [SetSetupStatus msg True, SetNavStatus msg True]
       (s\<lparr>generationTaskId := None, generationEventSource := None\<rparr>))"

section \<open>Loading a route\<close>

definition loadRoute :: "nav \<Rightarrow> nav" where
  "loadRoute s =
     (case selectedAreaId s of
        None \<Rightarrow> put [SetSetupStatus ''Select a coverage area first.'' True] s
      | Some a \<Rightarrow>
        wait (CFetchArea a) (put [ResetGuidanceUI]
          ((put [SetSetupStatus ''Loading route...'' False, SetNavStatus ''Loading route...'' False,
                 SetLoadRouteLoading True, SetStartEnabled False] s)\<lparr>routeLoaded := False\<rparr>)))"

definition handleGenerationComplete :: "nav \<Rightarrow> nav" where
  "handleGenerationComplete s =
     loadRoute (s\<lparr>generationTaskId := None, generationEventSource := None\<rparr>)"

definition loadRoute_failed :: "request_error \<Rightarrow> nav \<Rightarrow> nav" where
  "loadRoute_failed e s =
     (let s1 = (put [MapClearRouteLayers, ResetGuidanceUI] s)\<lparr>routeLoaded := False\<rparr>
      in if isNotFoundError e
         then finally_load True (invalidateSelectedArea (selectedAreaId s1) s1)
         else if str_includes (re_message e) ''No optimal route'' \<and> selectedAreaId s1 \<noteq> None
         then autoGenerateRoute True (put [SetLoadRouteLoading False] s1)
         else finally_load True
           (put [SetSetupStatus (re_message e) True, SetNavStatus (re_message e) True] s1))"

definition plain_error :: "string \<Rightarrow> request_error" where
  "plain_error m = \<lparr>re_status = None, re_message = m\<rparr>"

definition loadRoute_area :: "response \<Rightarrow> nav \<Rightarrow> nav" where
  "loadRoute_area r s =
     (case r of
        RError e \<Rightarrow> loadRoute_failed e s
      | RArea d \<Rightarrow>
          if has_optimal_route d = Some False then autoGenerateRoute True s
          else wait (CFetchRoute (selectedAreaId s) d) s
      | _ \<Rightarrow> s)"

text \<open>\<open>null\<close> in a template literal or in the storage becomes the text \<open>null\<close>.\<close>

definition id_text :: "string option \<Rightarrow> string" where
  "id_text a = (case a of None \<Rightarrow> ''null'' | Some i \<Rightarrow> i)"

definition choose_name :: "string option \<Rightarrow> string \<Rightarrow> string" where
  "choose_name selected gpxName =
     (case selected of
        Some n \<Rightarrow> if n = [] then (if gpxName = [] then ''Coverage Route'' else gpxName) else n
      | None \<Rightarrow> if gpxName = [] then ''Coverage Route'' else gpxName)"

definition install_route :: "cov_area \<Rightarrow> coord list \<Rightarrow> string \<Rightarrow> nav \<Rightarrow> nav" where
  "install_route d coords name s =
     (let m = buildRouteMetrics coords; ms = buildManeuvers coords m;
          base = js_or (coverage_percentage d) 0; nm = choose_name (selectedAreaName s) name
      in s\<lparr>coverageBaseline := base, routeCoords := coords, routeName := nm, n_metrics := m,
           maneuvers := ms, routeLoaded := True, lastClosestIndex := 0,
           stored_area := Some (id_text (selectedAreaId s)),
           n_cov := (n_cov s)\<lparr>cs := load_begin (id_text (selectedAreaId s)) (cs (n_cov s)),
             loads := loads (n_cov s) + 1\<rparr>,
           nav_outs := nav_outs s @
             [MapRouteLayers coords, MapRouteMarkers (hd coords) (last coords),
              UpdateSetupSummary (totalDistance m) (length ms - 2) base, SetStartEnabled True,
              SetSetupStatus ''Route loaded. Ready to navigate.'' False,
              SetNavStatus ''Route loaded.'' False,
              UpdateRouteProgress 0 (totalDistance m) nm, UpdateRemaining (totalDistance m)] @
             (if map_ready s then [MapFitBounds coords] else []) @ [InitializeCoverageDisplay base]\<rparr>)"

definition loadRoute_route :: "cov_area \<Rightarrow> response \<Rightarrow> nav \<Rightarrow> nav" where
  "loadRoute_route d r s =
     (case r of
        RError e \<Rightarrow> loadRoute_failed e s
      | RRoute xml routeData \<Rightarrow>
          (case parseGpx xml (routeName s) of
             None \<Rightarrow> loadRoute_failed (plain_error ''Invalid GPX file.'') s
           | Some (coords, name) \<Rightarrow>
               if length coords < 2 then loadRoute_failed (plain_error ''GPX route is empty.'') s
               else wait (CSegments routeData) (install_route d coords name s))
      | _ \<Rightarrow> s)"

definition show_stale :: "route_data option \<Rightarrow> nav \<Rightarrow> nav" where
  "show_stale routeData s =
     (let s1 = put [HideStaleBanner] s in
      case routeData of None \<Rightarrow> s1
      | Some d \<Rightarrow> (case checkRouteStale (generated_at d) (clock s) of
                    None \<Rightarrow> s1 | Some days \<Rightarrow> put [ShowStaleBanner days] s1))"

definition eta_known :: "route_data option \<Rightarrow> jsnum option \<Rightarrow> nav \<Rightarrow> nav" where
  "eta_known routeData duration s =
     (let eta = (case duration of
                   Some d \<Rightarrow> if falsy d then totalDistance (n_metrics s) / MI_TO_M / 25 * 3600 else d
                 | None \<Rightarrow> totalDistance (n_metrics s) / MI_TO_M / 25 * 3600)
      in finally_load True
           (show_stale routeData (transition ROUTE_PREVIEW (s\<lparr>estimatedDriveTime := Some eta\<rparr>))))"

definition loadRoute_segments :: "route_data option \<Rightarrow> response \<Rightarrow> nav \<Rightarrow> nav" where
  "loadRoute_segments routeData r s =
     (let s1 = (case r of
                  RFeatures fs \<Rightarrow> s\<lparr>n_cov := (n_cov s)\<lparr>cs := load_succeeded fs (cs (n_cov s)),
                    loads := loads (n_cov s) - 1\<rparr>\<rparr>
                | _ \<Rightarrow> s\<lparr>n_cov := (n_cov s)\<lparr>cs := load_failed (cs (n_cov s)),
                    loads := loads (n_cov s) - 1\<rparr>\<rparr>)
      in if length (routeCoords s1) < 2 then eta_known routeData None s1
         else wait (CEta routeData) s1)"

definition loadRoute_eta :: "route_data option \<Rightarrow> response \<Rightarrow> nav \<Rightarrow> nav" where
  "loadRoute_eta routeData r s =
     eta_known routeData (case r of RDuration d \<Rightarrow> d | _ \<Rightarrow> None) s"

definition regenerateRoute :: "nav \<Rightarrow> nav" where
  "regenerateRoute s = autoGenerateRoute False (resetRouteState (put [HideStaleBanner] s))"

section \<open>Area selection\<close>

definition area_change_tail :: "string option \<Rightarrow> nav \<Rightarrow> nav" where
  "area_change_tail selected s0 =
     (let s = resetRouteState s0 in
      case selected of
        None \<Rightarrow> put [SetLoadRouteEnabled False, SetStartEnabled False,
                  SetSetupStatus ''Select an area to continue.'' False]
                  (s\<lparr>selectedAreaId := None, selectedAreaName := None\<rparr>)
      | Some v \<Rightarrow> loadRoute (put [SetLoadRouteEnabled True]
                    (s\<lparr>selectedAreaId := Some v, selectedAreaName := Some (snd (ui_area s)),
                       stored_area := Some v\<rparr>)))"

definition cancel_tail :: "cancel_kont \<Rightarrow> nav \<Rightarrow> nav" where
  "cancel_tail k s0 =
     (let s = (if isGenerating (n_machine s0) then transition SETUP s0 else s0) in
      case k of KNone \<Rightarrow> s | KArea a \<Rightarrow> area_change_tail a s)"

definition cancelGeneration :: "cancel_kont \<Rightarrow> nav \<Rightarrow> nav" where
  "cancelGeneration k s =
     (let s1 = (close_source s)\<lparr>generationEventSource := None\<rparr> in
      case generationTaskId s1 of
        Some t \<Rightarrow> wait (CCancel k) (put [CancelRequest t] s1)
      | None \<Rightarrow> cancel_tail k s1)"

definition handleAreaChange :: "nav \<Rightarrow> nav" where
  "handleAreaChange s =
     (let v = fst (ui_area s) in cancelGeneration (KArea (if v = [] then None else Some v)) s)"

definition applyInitialSelection :: "nav \<Rightarrow> nav" where
  "applyInitialSelection s =
     (let q = (case url_area s of Some a \<Rightarrow> a | None \<Rightarrow> []);
          areaId = (if q = [] then (case stored_area s of Some a \<Rightarrow> a | None \<Rightarrow> []) else q)
      in if areaId = [] then s
         else case findCoverageAreaById areaId (coverageAreas s) of
           None \<Rightarrow> invalidateSelectedArea (Some areaId) s
         | Some a \<Rightarrow> wait CActiveTask (put [SetAreaSelectValue (area_id a)]
             (s\<lparr>ui_area := (area_id a, display_name a), selectedAreaId := Some (area_id a),
                selectedAreaName := Some (display_name a)\<rparr>)))"

definition active_task_checked :: "response \<Rightarrow> nav \<Rightarrow> nav" where
  "active_task_checked r s =
     (case r of RActive (Some taskId) \<Rightarrow> reconnectToGeneration taskId s | _ \<Rightarrow> loadRoute s)"

definition areas_loaded :: "(string + area list) \<Rightarrow> nav \<Rightarrow> nav" where
  "areas_loaded r s =
     (let s1 = (case r of
                  Inr xs \<Rightarrow> put [PopulateAreaSelect xs] (s\<lparr>coverageAreas := xs\<rparr>)
                | Inl e \<Rightarrow> put [SetSetupStatus (''Unable to load areas: '' @ e) True] s)
      in applyInitialSelection (put [UpdateControlStates (overviewMode s1) (followMode s1)] s1))"

definition loadCoverageAreas :: "nav \<Rightarrow> nav" where
  "loadCoverageAreas s =
     (case readCoverageAreasCache (areas_cache s) of
        Some xs \<Rightarrow> areas_loaded (Inr xs) s | None \<Rightarrow> wait CAreas s)"

text \<open>The cache was read, and found empty, before the request.\<close>

definition areas_fetched :: "response \<Rightarrow> nav \<Rightarrow> nav" where
  "areas_fetched r s =
     (let (cache, result) = loadCoverageAreasWithCache
            (case r of RAreas x \<Rightarrow> Inr x | RError e \<Rightarrow> Inl (re_message e) | _ \<Rightarrow> Inl []) True
            (areas_cache s)
      in areas_loaded result (s\<lparr>areas_cache := cache\<rparr>))"

definition init_map_done :: "response \<Rightarrow> nav \<Rightarrow> nav" where
  "init_map_done r s =
     (case r of
        ROk \<Rightarrow> loadCoverageAreas s
      | RError e \<Rightarrow> put [SetSetupStatus (re_message e) True] s
      | _ \<Rightarrow> s)"

definition nav_init :: "nav \<Rightarrow> nav" where
  "nav_init s = wait CInitMap s"

section \<open>Starting and ending navigation\<close>

definition isValidCoord :: "coord \<Rightarrow> bool" where
  "isValidCoord c \<longleftrightarrow> length c = 2 \<and> is_finite (js_at c 0) \<and> is_finite (js_at c 1)"

definition validDirections :: "coord \<Rightarrow> coord option \<Rightarrow> bool" where
  "validDirections origin destination \<longleftrightarrow>
     isValidCoord origin \<and> (case destination of None \<Rightarrow> False | Some d \<Rightarrow> isValidCoord d)"

definition resp_directions :: "response \<Rightarrow> directions option" where
  "resp_directions r = (case r of RDirections d \<Rightarrow> d | _ \<Rightarrow> None)"

definition start_directions :: "smart_start \<Rightarrow> directions option \<Rightarrow> nav \<Rightarrow> nav" where
  "start_directions info d s =
     (case d of
        Some x \<Rightarrow> put [UpdateStartStatus ''away'' (Some (dir_distance x)) (Some (dir_duration x)),
                    ShowNavigateToStartButton] (s\<lparr>navigateToStartRoute := dir_geometry x\<rparr>)
      | None \<Rightarrow> put [UpdateStartStatus ''away'' (Some (ss_distanceFromUser info)) None,
                  ShowNavigateToStartButton] s)"

definition start_position :: "response \<Rightarrow> nav \<Rightarrow> nav" where
  "start_position r s =
     (case r of
        RPosition p \<Rightarrow>
          let s1 = s\<lparr>n_gps := (n_gps s)\<lparr>lastPosition := Some p\<rparr>\<rparr>;
              (m, info) = findSmartStartPoint (Some p) (routeCoords s1) (n_machine s1);
              s2 = s1\<lparr>n_machine := m\<rparr>
          in if ss_isAtStart info then put [UpdateStartStatus ''at-start'' None None, ShowBeginButton] s2
             else if validDirections [pos_lon p, pos_lat p] (ss_point info)
             then wait (CStartDirections info) s2
             else start_directions info None s2
      | _ \<Rightarrow> start_unknown s)"

definition handleGeolocationError :: "geo_error \<Rightarrow> nav \<Rightarrow> nav" where
  "handleGeolocationError e s =
     (let msg = (if err_code e = err_PERMISSION_DENIED e
                 then ''Location permission denied. Waiting for live tracking.''
                 else ''Unable to fetch location.'');
          s1 = (put [SetNavStatus msg True] s)\<lparr>isNavigating := False\<rparr>
      in put [ShowSetupPanel] (set_gps (gps_stopGeolocation (gps_pair s1)) s1))"

definition startGeolocation :: "nav \<Rightarrow> nav" where
  "startGeolocation s =
     (let s1 = put [SetNavStatus ''Waiting for GPS...'' False] s;
          (gp, err) = gps_startGeolocation (gps_pair s1);
          s2 = set_gps gp s1
      in case err of None \<Rightarrow> s2 | Some e \<Rightarrow> handleGeolocationError e s2)"

definition startNavigation :: "nav \<Rightarrow> nav" where
  "startNavigation s =
     (if \<not> routeLoaded s then put [SetNavStatus ''Load a route first.'' True] s
      else
        let s1 = s\<lparr>needsStartSeed := True, n_gps := resetSmoothing (clock s) (n_gps s),
                   isNavigating := True, followMode := True, overviewMode := False\<rparr>;
            s2 = put [UpdateControlStates False True, HideSetupPanel] s1
        in if \<not> isSupported (n_geo s)
           then put [SetNavStatus ''Device GPS unavailable. Waiting for live tracking.'' True] s2
           else startGeolocation s2)"

definition beginNavigation :: "nav \<Rightarrow> nav" where
  "beginNavigation s = startNavigation (transition ACTIVE_NAVIGATION s)"

definition nav_to_start_tail :: "nav \<Rightarrow> nav" where
  "nav_to_start_tail s =
     (let s1 = (case navigateToStartRoute s of None \<Rightarrow> s
                | Some g \<Rightarrow> put [MapSetNavigateToStartRoute g] s);
          s2 = (transition NAVIGATING_TO_START s1)\<lparr>isNavigating := True\<rparr>
      in put [SetNavToStartLoading False] (startGeolocation s2))"

definition startNavigatingToStart :: "nav \<Rightarrow> nav" where
  "startNavigatingToStart s =
     (case (lastPosition (n_gps s), smartStartPoint (n_machine s)) of
        (Some p, Some q) \<Rightarrow>
          let s1 = put [SetNavToStartLoading True]
                (s\<lparr>needsStartSeed := True, n_gps := resetSmoothing (clock s) (n_gps s)\<rparr>)
          in if navigateToStartRoute s1 = None \<and> validDirections [pos_lon p, pos_lat p] (Some q)
             then wait CNavToStart s1 else nav_to_start_tail s1
      | _ \<Rightarrow> beginNavigation s)"

definition nav_to_start_directions :: "response \<Rightarrow> nav \<Rightarrow> nav" where
  "nav_to_start_directions r s =
     nav_to_start_tail (case resp_directions r of None \<Rightarrow> s
       | Some d \<Rightarrow> s\<lparr>navigateToStartRoute := dir_geometry d\<rparr>)"

definition endNavigation :: "nav \<Rightarrow> nav" where
  "endNavigation s =
     (let s1 = s\<lparr>isNavigating := False\<rparr>;
          s2 = put [ShowSetupPanel, SetNavStatus ''Navigation ended.'' False]
                 (set_gps (gps_stopGeolocation (gps_pair s1)) s1);
          s3 = transition SETUP s2
      in wait CEndPersist (s3\<lparr>n_cov := add_request (persist_begin (cs (n_cov s3))) (n_cov s3)\<rparr>))"

definition end_persisted :: "nav \<Rightarrow> nav" where
  "end_persisted s = (if selectedAreaId s = None then s else wait CEndArea s)"

definition end_area :: "response \<Rightarrow> nav \<Rightarrow> nav" where
  "end_area r s =
     (case r of
        RArea d \<Rightarrow> let base = js_or (coverage_percentage d) 0
                   in put [InitializeCoverageDisplay base] (s\<lparr>coverageBaseline := base\<rparr>)
      | _ \<Rightarrow> s)"

section \<open>Resume ahead\<close>

definition offerResumeFromAhead :: "nav \<Rightarrow> nav" where
  "offerResumeFromAhead s =
     (case lastPosition (n_gps s) of
        None \<Rightarrow> transition OFF_ROUTE s
      | Some p \<Rightarrow>
        let current = [pos_lon p, pos_lat p] in
        (case findNearestPointAhead current (routeCoords s) (lastClosestIndex s) (n_machine s) of
           None \<Rightarrow> transition OFF_ROUTE s
         | Some (i, q, _) \<Rightarrow>
             if validDirections current (Some q) then wait (CResume i q) s
             else transition OFF_ROUTE s))"

definition resume_directions :: "nat \<Rightarrow> coord \<Rightarrow> response \<Rightarrow> nav \<Rightarrow> nav" where
  "resume_directions i q r s =
     (case resp_directions r of
        None \<Rightarrow> transition OFF_ROUTE s
      | Some d \<Rightarrow>
          let s1 = s\<lparr>n_machine := setResumeAheadData \<lparr>res_index = i, res_point = q,
                     res_distance = dir_distance d, res_duration = dir_duration d\<rparr> (n_machine s)\<rparr>
          in transition RESUME_AHEAD (put [UpdateResumeDistance (dir_distance d) (dir_duration d)] s1))"

definition resumeFromAhead :: "nav \<Rightarrow> nav" where
  "resumeFromAhead s =
     (case resumeAheadData (n_machine s) of
        None \<Rightarrow> s
      | Some d \<Rightarrow>
          let v = js_at (routeDistances (n_metrics s)) (res_index d);
              s1 = s\<lparr>lastClosestIndex := res_index d,
                     n_gps := (n_gps s)\<lparr>lastValidProgress := v, progressHistory := [v]\<rparr>,
                     n_machine := clearResumeAheadData (n_machine s)\<rparr>
          in transition ACTIVE_NAVIGATION s1)"

definition dismissResumePrompt :: "nav \<Rightarrow> nav" where
  "dismissResumePrompt s = transition OFF_ROUTE (s\<lparr>n_machine := clearResumeAheadData (n_machine s)\<rparr>)"

section \<open>The navigation update\<close>

text \<open>
  The branch of \<open>updateNavigation\<close> for the way to the start; without a start point reading its
  coordinates throws.
\<close>

definition update_to_start :: "coord \<Rightarrow> nav \<Rightarrow> nav outcome" where
  "update_to_start current s =
     (case smartStartPoint (n_machine s) of
        None \<Rightarrow> Raised ''TypeError'' s
      | Some q \<Rightarrow>
        let d = distanceMeters current q;
            s1 = put [DistanceToStart d] (s\<lparr>n_machine := (n_machine s)\<lparr>smartStartDistance := Some d\<rparr>\<rparr>)
        in Done (if d \<le> startThresholdMeters (sconfig (n_machine s))
                 then (transition ARRIVED_AT_START s1)\<lparr>start_timers := Suc (start_timers s1)\<rparr>
                 else s1))"

definition start_timer :: "nav \<Rightarrow> nav" where
  "start_timer s0 =
     (let s = s0\<lparr>start_timers := start_timers s0 - 1\<rparr> in
      if currentState (n_machine s) = ARRIVED_AT_START
      then transition ACTIVE_NAVIGATION (put [MapClearNavigateToStartRoute] s) else s)"

definition seed_start :: "closest \<Rightarrow> nav \<Rightarrow> nav" where
  "seed_start c s =
     s\<lparr>n_gps := (n_gps s)\<lparr>lastValidProgress := cl_along c, progressHistory := [cl_along c],
                 lastProgressTime := clock s\<rparr>, needsStartSeed := False\<rparr>"

text \<open>Progress line, progress bar, coverage, remaining distance, heading, speed, instruction, camera.\<close>

definition update_display :: "gps_fix \<Rightarrow> closest \<Rightarrow> jsnum \<Rightarrow> jsnum \<Rightarrow> bool \<Rightarrow> nav \<Rightarrow> nav" where
  "update_display f c smoothed remaining offRoute s =
     (let current = [fix_lon f, fix_lat f];
          stats = getCoverageStats (cs (n_cov s));
          base = js_or (coverageBaseline s) 0;
          live = resolveLiveCoveragePercent base (Some (totalLength stats, percentage stats));
          s1 = put [MapProgressLine (take (cl_index c + 1) (routeCoords s) @ [cl_point c]),
                    UpdateRouteProgress smoothed (totalDistance (n_metrics s)) (routeName s),
                    UpdateCoverageProgress base live, UpdateRemaining remaining] s;
          (g1, heading) = resolveHeading f (cl_index c) (routeCoords s1) (n_gps s1);
          (g2, speed) = resolveSpeed f g1;
          s2 = put [UpdateEta remaining speed, UpdateSpeed speed] (s1\<lparr>n_gps := g2\<rparr>);
          s3 = (case getNextManeuver (maneuvers s2) smoothed of
                  None \<Rightarrow> s2
                | Some mv \<Rightarrow> put [UpdateInstruction (man_type mv)
                    (js_max (distanceAlong mv - smoothed) 0) (routeName s2) offRoute] s2);
          s4 = put [MapMarkerHeading heading] s3
      in if followMode s4 \<and> \<not> overviewMode s4
         then put [MapCamera current heading (getDynamicZoom speed)] s4 else s4)"

text \<open>The rest of the update for a matched position; \<open>seed\<close> is \<open>shouldSeedStart\<close>.\<close>

definition advance_route :: "bool \<Rightarrow> gps_fix \<Rightarrow> closest \<Rightarrow> nav \<Rightarrow> nav" where
  "advance_route seed f c s =
     (let s3 = (if seed then seed_start c s else s);
          raw = js_min (cl_along c) (totalDistance (n_metrics s3));
          (g, smoothed) = smoothProgress (clock s3) raw (n_gps s3);
          s4 = s3\<lparr>n_gps := g\<rparr>;
          remaining = js_max (totalDistance (n_metrics s4) - smoothed) 0;
          offRoute = (cl_distance c > offRouteThresholdMeters (sconfig (n_machine s4)));
          s5 = handleNavigationStateTransitions transition n_machine offerResumeFromAhead
                 remaining offRoute (cl_distance c) s4
      in update_display f c smoothed remaining offRoute s5)"

definition update_route :: "gps_fix \<Rightarrow> nav \<Rightarrow> nav" where
  "update_route f s =
     (let seed = (needsStartSeed s \<and> currentState (n_machine s) = ACTIVE_NAVIGATION);
          s1 = (if seed then s\<lparr>lastClosestIndex := 0\<rparr> else s);
          (k, found) = findClosestPoint [fix_lon f, fix_lat f] (routeCoords s1) (n_metrics s1)
                         (lastClosestIndex s1);
          s2 = s1\<lparr>lastClosestIndex := k\<rparr>
      in case found of None \<Rightarrow> s2 | Some c \<Rightarrow> advance_route seed f c s2)"

definition updateNavigation :: "gps_fix \<Rightarrow> nav \<Rightarrow> nav outcome" where
  "updateNavigation f s =
     (if \<not> map_ready s \<or> \<not> routeLoaded s then Done s
      else
        let current = [fix_lon f, fix_lat f];
            s1 = put [MapPositionMarker current] s;
            put_cov = (\<lambda>c. s1\<lparr>n_cov := (n_cov s1)\<lparr>cs := c\<rparr>\<rparr>)
        in case checkSegmentCoverage (fix_lon f) (fix_lat f) (cs (n_cov s1)) of
             Raised e c \<Rightarrow> Raised e (put_cov c)
           | Done c \<Rightarrow>
               let s2 = put_cov c in
               if currentState (n_machine s2) = NAVIGATING_TO_START then update_to_start current s2
               else Done (update_route f s2))"

definition handlePosition :: "gps_fix \<Rightarrow> nav \<Rightarrow> nav outcome" where
  "handlePosition f s = updateNavigation f (put [UpdateSignal (fix_accuracy f)] s)"

text \<open>A live tracking event carries the trip's coordinates: latitude, longitude, timestamp.\<close>

definition handleLiveTrackingUpdate :: "(jsnum \<times> jsnum \<times> jsnum) list \<Rightarrow> nav \<Rightarrow> nav outcome" where
  "handleLiveTrackingUpdate coords s =
     (if \<not> isNavigating s \<or> watchId (n_gps s) \<noteq> None \<or> coords = [] then Done s
      else let (lat, lon, t) = last coords in
        if \<not> is_finite lat \<or> \<not> is_finite lon then Done s
        else updateNavigation \<lparr>fix_lat = lat, fix_lon = lon, fix_accuracy = None, fix_heading = None,
               fix_speed = None, fix_timestamp = js_or t (clock s)\<rparr> s)"

section \<open>View controls and destruction\<close>

definition last_camera :: "nav \<Rightarrow> nav_out list" where
  "last_camera s =
     (case lastPosition (n_gps s) of None \<Rightarrow> []
      | Some p \<Rightarrow> [MapCamera [pos_lon p, pos_lat p] (lastHeading (n_gps s)) (Fin (165 / 10))])"

definition toggleOverview :: "nav \<Rightarrow> nav" where
  "toggleOverview s =
     (if \<not> map_ready s \<or> \<not> routeLoaded s then s
      else
        let s1 = s\<lparr>overviewMode := \<not> overviewMode s\<rparr>;
            s2 = (if overviewMode s1 then put [MapFitBounds (routeCoords s1)] (s1\<lparr>followMode := False\<rparr>)
                  else if lastPosition (n_gps s1) \<noteq> None then put (last_camera s1) (s1\<lparr>followMode := True\<rparr>)
                  else s1)
        in put [UpdateControlStates (overviewMode s2) (followMode s2)] s2)"

definition recenter :: "nav \<Rightarrow> nav" where
  "recenter s =
     (if lastPosition (n_gps s) = None then s
      else put (UpdateControlStates False True # last_camera s)
             (s\<lparr>followMode := True, overviewMode := False\<rparr>))"

definition map_interaction :: "nav \<Rightarrow> nav" where
  "map_interaction s =
     put [UpdateControlStates False False] (s\<lparr>followMode := False, overviewMode := False\<rparr>)"

definition nav_destroy :: "nav \<Rightarrow> nav" where
  "nav_destroy s =
     (let s1 = cancelGeneration KNone s;
          s2 = set_gps (gps_reset (clock s1) (gps_pair s1)) s1;
          s3 = s2\<lparr>n_cov := add_request (cov_destroy (cs (n_cov s2))) (n_cov s2)\<rparr>
      in put [MapDestroy] s3)"

section \<open>Continuations\<close>

definition settle :: "cont \<Rightarrow> response \<Rightarrow> nav \<Rightarrow> nav" where
  "settle k r s =
     (case k of
        CInitMap \<Rightarrow> init_map_done r s
      | CAreas \<Rightarrow> areas_fetched r s
      | CActiveTask \<Rightarrow> active_task_checked r s
      | CFetchArea _ \<Rightarrow> loadRoute_area r s
      | CFetchRoute _ d \<Rightarrow> loadRoute_route d r s
      | CSegments rd \<Rightarrow> loadRoute_segments rd r s
      | CEta rd \<Rightarrow> loadRoute_eta rd r s
      | CGenStart inLoad \<Rightarrow> generation_started inLoad r s
      | CCancel k' \<Rightarrow> cancel_tail k' (s\<lparr>generationTaskId := None\<rparr>)
      | CStartPosition \<Rightarrow> start_position r s
      | CStartDirections info \<Rightarrow> start_directions info (resp_directions r) s
      | CNavToStart \<Rightarrow> nav_to_start_directions r s
      | CEndPersist \<Rightarrow> end_persisted s
      | CEndArea \<Rightarrow> end_area r s
      | CResume i q \<Rightarrow> resume_directions i q r s)"

section \<open>Events\<close>

datatype command =
    Init | MapLoaded | SelectArea string string | LoadRoute | BeginNavigation | EndNavigation
  | ToggleOverview | Recenter | NavigateToStart | ShowSetup | ResumeFromAhead | DismissResume
  | CancelGeneration | RegenerateRoute | DismissStale | DragMap | SetClock jsnum
  | LiveTracking "(jsnum \<times> jsnum \<times> jsnum) list" | Destroy

definition run_command :: "command \<Rightarrow> nav \<Rightarrow> nav" where
  "run_command c s =
     (case c of
        Init \<Rightarrow> nav_init s
      | MapLoaded \<Rightarrow> s\<lparr>map_ready := True\<rparr>
      | SelectArea v n \<Rightarrow> handleAreaChange (s\<lparr>ui_area := (v, n)\<rparr>)
      | LoadRoute \<Rightarrow> loadRoute s
      | BeginNavigation \<Rightarrow> beginNavigation s
      | EndNavigation \<Rightarrow> endNavigation s
      | ToggleOverview \<Rightarrow> toggleOverview s
      | Recenter \<Rightarrow> recenter s
      | NavigateToStart \<Rightarrow> startNavigatingToStart s
      | ShowSetup \<Rightarrow> transition SETUP s
      | ResumeFromAhead \<Rightarrow> resumeFromAhead s
      | DismissResume \<Rightarrow> dismissResumePrompt s
      | CancelGeneration \<Rightarrow> cancelGeneration KNone s
      | RegenerateRoute \<Rightarrow> regenerateRoute s
      | DismissStale \<Rightarrow> put [HideStaleBanner] s
      | DragMap \<Rightarrow> map_interaction s
      | SetClock t \<Rightarrow> s\<lparr>clock := t\<rparr>
      | LiveTracking coords \<Rightarrow> outcome_state (handleLiveTrackingUpdate coords s)
      | Destroy \<Rightarrow> nav_destroy s)"

datatype stream_call = StreamProgress | StreamComplete | StreamError string

definition stream_callback :: "string \<Rightarrow> stream_call \<Rightarrow> nav \<Rightarrow> nav" where
  "stream_callback t c s =
     (case c of
        StreamProgress \<Rightarrow> put [UpdateGenerationProgress] s
      | StreamComplete \<Rightarrow> handleGenerationComplete (s\<lparr>openStreams := remove1 t (openStreams s)\<rparr>)
      | StreamError m \<Rightarrow> handleGenerationError m (s\<lparr>openStreams := remove1 t (openStreams s)\<rparr>))"

definition watch_position :: "raw_position \<Rightarrow> nav \<Rightarrow> nav" where
  "watch_position raw s0 =
     (let s = s0\<lparr>n_geo := svc_on_position (n_geo s0)\<rparr> in
      case raw_to_fix raw (clock s) of None \<Rightarrow> s | Some f \<Rightarrow> outcome_state (handlePosition f s))"

text \<open>Calls of \<open>onPersistenceIssue\<close> reach the controller; \<open>n\<close> outputs were made before.\<close>

definition relay_issues :: "nat \<Rightarrow> nav \<Rightarrow> nav" where
  "relay_issues n s =
     foldl (\<lambda>t out. case out of PersistenceIssue i \<Rightarrow> handlePersistenceIssue i t | _ \<Rightarrow> t) s
       (drop n (outs (cs (n_cov s))))"

definition own_event :: "cov_event \<Rightarrow> bool" where
  "own_event e = (case e of EDebounce \<Rightarrow> True | ERetry \<Rightarrow> True | EPersisted _ \<Rightarrow> True
     | EPersistFailed _ \<Rightarrow> True | EPopupEnd \<Rightarrow> True | _ \<Rightarrow> False)"

datatype nav_event =
    Command command | Position raw_position | GeoError "int option" | StartTimer
  | Settle nat response | Stream string stream_call | Tracker cov_event

inductive nav_step :: "nav \<Rightarrow> nav_event \<Rightarrow> nav \<Rightarrow> bool" where
  command: "nav_step s (Command c) (run_command c s)"
| position: "browser_watches (n_geo s) \<noteq> [] \<Longrightarrow> nav_step s (Position raw) (watch_position raw s)"
| geo_error: "browser_watches (n_geo s) \<noteq> [] \<Longrightarrow>
    nav_step s (GeoError code) (handleGeolocationError (geo_handleError code) s)"
| timer: "0 < start_timers s \<Longrightarrow> nav_step s StartTimer (start_timer s)"
| settle: "i < length (waiting s) \<Longrightarrow>
    nav_step s (Settle i r) (settle (waiting s ! i) r (s\<lparr>waiting := drop_nth i (waiting s)\<rparr>))"
| stream: "t \<in> set (openStreams s) \<Longrightarrow> nav_step s (Stream t c) (stream_callback t c s)"
| tracker: "own_event e \<Longrightarrow> cov_step (n_cov s) e y \<Longrightarrow>
    nav_step s (Tracker e) (relay_issues (length (outs (cs (n_cov s)))) (s\<lparr>n_cov := y\<rparr>))"

definition nav_start :: "nav \<Rightarrow> bool" where
  "nav_start s \<longleftrightarrow> (\<exists>ok now stored url cache. s = new_nav ok now stored url cache)"

end
