(* ===== verification/NavRuns.thy ===== *)
theory NavRuns
  imports Navigator
begin

text \<open>
  What the controller of \<open>live-navigation-navigator.js\<close> guarantees in every reachable state: the
  loaded route, its metrics and its maneuvers belong together, the browser's watch is the one the
  controller knows, and a position update moves the state machine only along its edges. Also what
  ending the navigation does, and behaviours of the code that its comments do not announce: the
  silent reset, the classification of location errors, and routes that arrive late.
\<close>

section \<open>The invariant and what it depends on\<close>

definition route_ok :: "nav \<Rightarrow> bool" where
  "route_ok s \<longleftrightarrow> (routeLoaded s \<longrightarrow>
     finite_route (routeCoords s) \<and> 2 \<le> length (routeCoords s) \<and>
     n_metrics s = buildRouteMetrics (routeCoords s) \<and>
     maneuvers s = buildManeuvers (routeCoords s) (n_metrics s))"

definition nav_inv :: "nav \<Rightarrow> bool" where
  "nav_inv s \<longleftrightarrow> route_ok s \<and> sconfig (n_machine s) = state_defaults \<and>
     gconfig (n_gps s) = gps_defaults \<and> watch_inv (gps_pair s)"

definition nview :: "nav \<Rightarrow> coord list \<times> metrics \<times> maneuver list \<times> bool \<times> state_config \<times> gps_config \<times>
    nat option \<times> nat list \<times> nat option" where
  "nview s = (routeCoords s, n_metrics s, maneuvers s, routeLoaded s, sconfig (n_machine s),
     gconfig (n_gps s), svc_watchId (n_geo s), browser_watches (n_geo s), watchId (n_gps s))"

lemma nav_inv_cong: "nview t = nview s \<Longrightarrow> nav_inv t = nav_inv s"
  by (simp add: nview_def nav_inv_def route_ok_def watch_inv_def gps_pair_def)

lemma nview_put [simp]: "nview (put os s) = nview s"
  by (simp add: put_def nview_def)

lemma nview_wait [simp]: "nview (wait k s) = nview s"
  by (simp add: wait_def nview_def)

lemma nview_onStateChange [simp]: "nview (onStateChange n t) = nview t"
  by (simp add: onStateChange_def Let_def checkStartProximity_def start_unknown_def)

lemma nview_transition [simp]: "nview (transition n s) = nview s"
proof (cases "transitionTo n (n_machine s)")
  case (Pair m b)
  have "sconfig m = sconfig (n_machine s)" using transitionTo_fields(1) [of n "n_machine s"] Pair by simp
  then have "nview (s\<lparr>n_machine := m\<rparr>) = nview s" by (simp add: nview_def)
  then show ?thesis by (simp add: transition_def Pair Let_def)
qed

text \<open>Invariant of one handler from the invariant of the state it is called in.\<close>

lemma inv_same: "nav_inv s \<Longrightarrow> nview t = nview s \<Longrightarrow> nav_inv t"
  using nav_inv_cong by blast

lemma nav_inv_ops [simp]:
  "nav_inv (put os s) = nav_inv s" "nav_inv (wait k s) = nav_inv s"
  "nav_inv (transition n s) = nav_inv s" "nav_inv (finally_load b s) = nav_inv s"
  by (rule nav_inv_cong, simp add: finally_load_def)+

lemma nav_inv_fields [simp]:
  "nav_inv (s\<lparr>isNavigating := a5\<rparr>) = nav_inv s" "nav_inv (s\<lparr>n_cov := c4\<rparr>) = nav_inv s"
  "nav_inv (s\<lparr>generationTaskId := b2\<rparr>) = nav_inv s" "nav_inv (s\<lparr>generationEventSource := b3\<rparr>) = nav_inv s"
  "nav_inv (s\<lparr>waiting := c3\<rparr>) = nav_inv s" "nav_inv (s\<lparr>openStreams := b5\<rparr>) = nav_inv s"
  "nav_inv (s\<lparr>lastClosestIndex := b4\<rparr>) = nav_inv s" "nav_inv (s\<lparr>start_timers := c1\<rparr>) = nav_inv s"
  by (simp_all add: nav_inv_def route_ok_def gps_pair_def)

lemma nav_inv_fields2 [simp]:
  "nav_inv (s\<lparr>navigateToStartRoute := b1\<rparr>) = nav_inv s" "nav_inv (s\<lparr>estimatedDriveTime := a9\<rparr>) = nav_inv s"
  "nav_inv (s\<lparr>coverageBaseline := a4\<rparr>) = nav_inv s" "nav_inv (s\<lparr>coverageAreas := a1\<rparr>) = nav_inv s"
  "nav_inv (s\<lparr>areas_cache := b9\<rparr>) = nav_inv s" "nav_inv (s\<lparr>ui_area := b6\<rparr>) = nav_inv s"
  "nav_inv (s\<lparr>map_ready := c5\<rparr>) = nav_inv s" "nav_inv (s\<lparr>clock := c2\<rparr>) = nav_inv s"
  by (simp_all add: nav_inv_def route_ok_def gps_pair_def)

lemma nav_inv_fields3 [simp]:
  "nav_inv (s\<lparr>selectedAreaId := a2\<rparr>) = nav_inv s" "nav_inv (s\<lparr>selectedAreaName := a3\<rparr>) = nav_inv s"
  "nav_inv (s\<lparr>followMode := a6\<rparr>) = nav_inv s" "nav_inv (s\<lparr>overviewMode := a7\<rparr>) = nav_inv s"
  "nav_inv (s\<lparr>needsStartSeed := a8\<rparr>) = nav_inv s" "nav_inv (s\<lparr>stored_area := b7\<rparr>) = nav_inv s"
  "nav_inv (s\<lparr>url_area := b8\<rparr>) = nav_inv s" "nav_inv (s\<lparr>nav_outs := c6\<rparr>) = nav_inv s"
  by (simp_all add: nav_inv_def route_ok_def gps_pair_def)

lemma nav_inv_unload: "nav_inv s \<Longrightarrow> nav_inv (s\<lparr>routeLoaded := False\<rparr>)"
  by (simp add: nav_inv_def route_ok_def gps_pair_def)

lemma nav_inv_gps [simp]:
  "gconfig g = gconfig (n_gps s) \<Longrightarrow> watchId g = watchId (n_gps s) \<Longrightarrow> nav_inv (s\<lparr>n_gps := g\<rparr>) = nav_inv s"
  by (rule nav_inv_cong) (simp_all add: nview_def)

lemma nav_inv_machine [simp]:
  "sconfig m = sconfig (n_machine s) \<Longrightarrow> nav_inv (s\<lparr>n_machine := m\<rparr>) = nav_inv s"
  by (rule nav_inv_cong) (simp_all add: nview_def)

lemma gps_ops_config:
  "gconfig (snd (gps_stopGeolocation gp)) = gconfig (snd gp)"
  "gconfig (snd (fst (gps_startGeolocation gp))) = gconfig (snd gp)"
  "gconfig (snd (gps_reset now gp)) = gconfig (snd gp)"
  by (cases gp, auto simp: gps_stopGeolocation_def gps_startGeolocation_def gps_reset_def
      resetSmoothing_def Let_def split: option.split prod.split)+

lemma nav_inv_set_gps:
  assumes "nav_inv s" "watch_inv gp" "gconfig (snd gp) = gps_defaults"
  shows "nav_inv (set_gps gp s)"
  using assms by (simp add: nav_inv_def route_ok_def set_gps_def gps_pair_def)

lemma stop_nav_inv: "nav_inv s \<Longrightarrow> nav_inv (set_gps (gps_stopGeolocation (gps_pair s)) s)"
  using stop_inv by (intro nav_inv_set_gps) (auto simp: gps_ops_config gps_pair_def nav_inv_def)

lemma reset_gps_nav_inv: "nav_inv s \<Longrightarrow> nav_inv (set_gps (gps_reset now (gps_pair s)) s)"
  using reset_inv by (intro nav_inv_set_gps) (auto simp: gps_ops_config gps_pair_def nav_inv_def)

lemma start_nav_inv: "nav_inv s \<Longrightarrow> nav_inv (set_gps (fst (gps_startGeolocation (gps_pair s))) s)"
  using start_inv by (intro nav_inv_set_gps) (auto simp: gps_ops_config gps_pair_def nav_inv_def)

section \<open>Every handler keeps the invariant\<close>

lemma resetRouteState_inv: "nav_inv s \<Longrightarrow> nav_inv (resetRouteState s)"
proof -
  assume inv: "nav_inv s"
  let ?s1 = "s\<lparr>routeCoords := [], n_metrics := no_metrics, maneuvers := [], routeLoaded := False,
    lastClosestIndex := 0\<rparr>"
  have "nav_inv ?s1" using inv by (simp add: nav_inv_def route_ok_def gps_pair_def)
  then have "nav_inv (set_gps (gps_reset (clock ?s1) (gps_pair ?s1)) ?s1)" by (rule reset_gps_nav_inv)
  then show ?thesis
    by (simp add: resetRouteState_def Let_def state_reset_def)
qed

lemma invalidate_inv: "nav_inv s \<Longrightarrow> nav_inv (invalidateSelectedArea a s)"
  by (simp add: invalidateSelectedArea_def Let_def resetRouteState_inv clearPersistedAreaSelection_def
      split: option.split)

lemma autoGenerateRoute_inv [simp]: "nav_inv (autoGenerateRoute b s) = nav_inv s"
  by (simp add: autoGenerateRoute_def split: option.split)

lemma connect_stream_inv [simp]: "nav_inv (connect_stream t s) = nav_inv s"
  by (simp add: connect_stream_def)

lemma close_source_inv [simp]: "nav_inv (close_source s) = nav_inv s"
  by (simp add: close_source_def split: option.split)

lemma loadRoute_inv: "nav_inv s \<Longrightarrow> nav_inv (loadRoute s)"
  by (simp add: loadRoute_def nav_inv_unload split: option.split)

lemma loadRoute_failed_inv: "nav_inv s \<Longrightarrow> nav_inv (loadRoute_failed e s)"
  by (simp add: loadRoute_failed_def Let_def nav_inv_unload invalidate_inv)

lemma install_route_inv:
  assumes "nav_inv s" "\<forall>c \<in> set route. finite_coord c" "2 \<le> length route"
  shows "nav_inv (install_route d route n s)"
  using assms
  by (auto simp: install_route_def Let_def nav_inv_def route_ok_def gps_pair_def finite_route_def)

lemma loadRoute_route_inv: "nav_inv s \<Longrightarrow> nav_inv (loadRoute_route d r s)"
  using parseGpx_finite
  by (auto simp: loadRoute_route_def loadRoute_failed_inv install_route_inv not_less
      split: response.split option.split)

lemma eta_known_inv [simp]: "nav_inv (eta_known rd d s) = nav_inv s"
  by (simp add: eta_known_def show_stale_def Let_def split: option.split)

lemma area_change_tail_inv: "nav_inv s \<Longrightarrow> nav_inv (area_change_tail a s)"
  by (simp add: area_change_tail_def Let_def loadRoute_inv resetRouteState_inv split: option.split)

lemma cancel_tail_inv: "nav_inv s \<Longrightarrow> nav_inv (cancel_tail k s)"
  by (auto simp: cancel_tail_def Let_def area_change_tail_inv split: cancel_kont.split)

lemma cancelGeneration_inv: "nav_inv s \<Longrightarrow> nav_inv (cancelGeneration k s)"
  by (simp add: cancelGeneration_def Let_def cancel_tail_inv split: option.split)

lemma applyInitialSelection_inv: "nav_inv s \<Longrightarrow> nav_inv (applyInitialSelection s)"
  by (simp add: applyInitialSelection_def Let_def invalidate_inv split: option.split)

lemma areas_loaded_inv: "nav_inv s \<Longrightarrow> nav_inv (areas_loaded r s)"
  by (simp add: areas_loaded_def Let_def applyInitialSelection_inv split: sum.split)

lemma handleGeolocationError_inv: "nav_inv s \<Longrightarrow> nav_inv (handleGeolocationError e s)"
  by (simp add: handleGeolocationError_def Let_def stop_nav_inv)

lemma startGeolocation_inv: "nav_inv s \<Longrightarrow> nav_inv (startGeolocation s)"
proof -
  assume inv: "nav_inv s"
  let ?s = "put [SetNavStatus ''Waiting for GPS...'' False] s"
  obtain gp err where e: "gps_startGeolocation (gps_pair ?s) = (gp, err)" by fastforce
  have "nav_inv (set_gps gp ?s)" using start_nav_inv [of ?s] inv e by simp
  then show ?thesis using e
    by (simp add: startGeolocation_def Let_def handleGeolocationError_inv split: option.split)
qed

lemma startNavigation_inv: "nav_inv s \<Longrightarrow> nav_inv (startNavigation s)"
  by (simp add: startNavigation_def Let_def resetSmoothing_def startGeolocation_inv)

lemma nav_to_start_tail_inv: "nav_inv s \<Longrightarrow> nav_inv (nav_to_start_tail s)"
  by (simp add: nav_to_start_tail_def Let_def startGeolocation_inv split: option.split)

lemma startNavigatingToStart_inv: "nav_inv s \<Longrightarrow> nav_inv (startNavigatingToStart s)"
  by (simp add: startNavigatingToStart_def Let_def beginNavigation_def startNavigation_inv
      resetSmoothing_def nav_to_start_tail_inv split: option.split)

lemma findSmartStartPoint_config [simp]: "sconfig (fst (findSmartStartPoint p r m)) = sconfig m"
  by (auto simp: findSmartStartPoint_def Let_def split: option.split prod.split)

lemma start_directions_inv: "nav_inv s \<Longrightarrow> nav_inv (start_directions i d s)"
  by (auto simp: start_directions_def split: option.split)

lemma start_position_inv: "nav_inv s \<Longrightarrow> nav_inv (start_position r s)"
proof -
  assume inv: "nav_inv s"
  have c: "sconfig m = sconfig (n_machine s)" if "findSmartStartPoint p rt (n_machine s) = (m, i)" for p rt m i
    using findSmartStartPoint_config [of p rt "n_machine s"] that by simp
  show ?thesis using inv c
    by (simp add: start_position_def Let_def start_unknown_def start_directions_inv
        split: response.split prod.split)
qed

lemma endNavigation_inv: "nav_inv s \<Longrightarrow> nav_inv (endNavigation s)"
  by (simp add: endNavigation_def Let_def stop_nav_inv)

lemma offerResume_inv [simp]: "nav_inv (offerResumeFromAhead s) = nav_inv s"
  by (simp add: offerResumeFromAhead_def Let_def split: option.split prod.split)

lemma resume_directions_inv: "nav_inv s \<Longrightarrow> nav_inv (resume_directions i q r s)"
  by (simp add: resume_directions_def Let_def setResumeAheadData_def split: option.split)

lemma resumeFromAhead_inv: "nav_inv s \<Longrightarrow> nav_inv (resumeFromAhead s)"
  by (simp add: resumeFromAhead_def Let_def clearResumeAheadData_def split: option.split)

lemma gps_of_resolve:
  "gconfig (fst (resolveHeading f i r g)) = gconfig g" "watchId (fst (resolveHeading f i r g)) = watchId g"
  "gconfig (fst (resolveSpeed f g)) = gconfig g" "watchId (fst (resolveSpeed f g)) = watchId g"
  "gconfig (fst (smoothProgress t x g)) = gconfig g" "watchId (fst (smoothProgress t x g)) = watchId g"
  by (simp_all add: resolveHeading_def resolveSpeed_def smoothProgress_def Let_def split: option.split)

lemma update_display_inv: "nav_inv s \<Longrightarrow> nav_inv (update_display f c x y b s)"
proof -
  assume inv: "nav_inv s"
  obtain g1 h where h: "resolveHeading f (cl_index c) (routeCoords s) (n_gps s) = (g1, h)" by fastforce
  obtain g2 v where v: "resolveSpeed f g1 = (g2, v)" by fastforce
  have "gconfig g2 = gconfig (n_gps s)" "watchId g2 = watchId (n_gps s)"
    using gps_of_resolve(1,2) [of f "cl_index c" "routeCoords s" "n_gps s"] gps_of_resolve(3,4) [of f g1]
    unfolding h v by simp_all
  then show ?thesis using inv
    by (simp add: update_display_def Let_def put_def h v split: option.split)
qed

lemma handleTransitions_inv:
  "nav_inv (handleNavigationStateTransitions transition n_machine offerResumeFromAhead r b d s) = nav_inv s"
  by (simp add: handleNavigationStateTransitions_def)

text \<open>The states a matched position passes through.\<close>

lemma smoothProgress_result: "snd (smoothProgress t x g) = lastValidProgress (fst (smoothProgress t x g))"
  by (simp add: smoothProgress_def Let_def)

lemma advance_route_cases:
  obtains u v r b where
    "nview u = nview s" "n_machine u = n_machine s" "lastValidProgress (n_gps u) = v"
    "b = (cl_distance c > offRouteThresholdMeters (sconfig (n_machine s)))"
    "r = js_max (totalDistance (n_metrics s) - v) 0"
    "advance_route seed f c s = update_display f c v r b
       (handleNavigationStateTransitions transition n_machine offerResumeFromAhead r b (cl_distance c) u)"
proof -
  define s3 where "s3 = (if seed then seed_start c s else s)"
  obtain g v where gv: "smoothProgress (clock s3) (js_min (cl_along c) (totalDistance (n_metrics s3)))
      (n_gps s3) = (g, v)" by fastforce
  have g: "gconfig g = gconfig (n_gps s3)" "watchId g = watchId (n_gps s3)" "v = lastValidProgress g"
    using gps_of_resolve(5,6) [of "clock s3" _ "n_gps s3"] smoothProgress_result gv
    by (metis fst_conv snd_conv)+
  have s3: "n_metrics s3 = n_metrics s" "n_machine s3 = n_machine s" "nview s3 = nview s"
    by (simp_all add: s3_def seed_start_def nview_def)
  have "nview (s3\<lparr>n_gps := g\<rparr>) = nview s3" using g by (simp add: nview_def)
  then show ?thesis
    using that [of "s3\<lparr>n_gps := g\<rparr>" v "cl_distance c > offRouteThresholdMeters (sconfig (n_machine s))"
        "js_max (totalDistance (n_metrics s) - v) 0"] gv g s3
    unfolding advance_route_def s3_def [symmetric] Let_def by simp
qed

lemma advance_route_inv: "nav_inv s \<Longrightarrow> nav_inv (advance_route seed f c s)"
proof -
  assume inv: "nav_inv s"
  obtain u v r b where u: "nview u = nview s" "advance_route seed f c s = update_display f c v r b
       (handleNavigationStateTransitions transition n_machine offerResumeFromAhead r b (cl_distance c) u)"
    by (rule advance_route_cases)
  have "nav_inv u" using inv u(1) by (rule inv_same)
  then show ?thesis unfolding u(2) by (intro update_display_inv) (simp only: handleTransitions_inv)
qed

lemma update_route_inv: "nav_inv s \<Longrightarrow> nav_inv (update_route f s)"
  by (simp add: update_route_def Let_def advance_route_inv split: prod.split option.split)

lemma updateNavigation_inv: "nav_inv s \<Longrightarrow> nav_inv (outcome_state (updateNavigation f s))"
  by (simp add: updateNavigation_def update_to_start_def Let_def update_route_inv
      split: outcome.split option.split)

lemma handleLive_inv: "nav_inv s \<Longrightarrow> nav_inv (outcome_state (handleLiveTrackingUpdate x s))"
  by (simp add: handleLiveTrackingUpdate_def updateNavigation_inv split: prod.split)

lemma watch_position_inv: "nav_inv s \<Longrightarrow> nav_inv (watch_position raw s)"
proof -
  assume "nav_inv s"
  then have "nav_inv (s\<lparr>n_geo := svc_on_position (n_geo s)\<rparr>)"
    by (rule inv_same) (simp add: nview_def svc_on_position_def)
  then show ?thesis
    by (simp add: watch_position_def Let_def handlePosition_def updateNavigation_inv split: option.split)
qed

lemma nav_destroy_inv: "nav_inv s \<Longrightarrow> nav_inv (nav_destroy s)"
  by (simp add: nav_destroy_def Let_def reset_gps_nav_inv cancelGeneration_inv)

lemma run_command_inv: "nav_inv s \<Longrightarrow> nav_inv (run_command c s)"
  by (cases c)
    (simp_all add: run_command_def nav_init_def handleAreaChange_def cancelGeneration_inv loadRoute_inv
      beginNavigation_def startNavigation_inv endNavigation_inv toggleOverview_def recenter_def Let_def
      startNavigatingToStart_inv resumeFromAhead_inv dismissResumePrompt_def clearResumeAheadData_def
      regenerateRoute_def resetRouteState_inv map_interaction_def handleLive_inv nav_destroy_inv)

lemma settle_inv: "nav_inv s \<Longrightarrow> nav_inv (settle k r s)"
  by (cases k)
    (simp_all add: settle_def init_map_done_def loadCoverageAreas_def areas_loaded_inv areas_fetched_def
      active_task_checked_def reconnectToGeneration_def loadRoute_inv loadRoute_area_def
      loadRoute_failed_inv loadRoute_route_inv loadRoute_segments_def loadRoute_eta_def Let_def
      generation_started_def cancel_tail_inv start_position_inv start_directions_inv
      nav_to_start_directions_def nav_to_start_tail_inv end_persisted_def end_area_def
      resume_directions_inv split: response.split option.split prod.split)

lemma handlePersistenceIssue_inv [simp]: "nav_inv (handlePersistenceIssue i s) = nav_inv s"
  by (simp add: handlePersistenceIssue_def split: persistence_issue.split)

lemma relay_issues_inv: "nav_inv s \<Longrightarrow> nav_inv (relay_issues n s)"
proof -
  have "nav_inv t \<Longrightarrow> nav_inv (foldl (\<lambda>t out. case out of PersistenceIssue i \<Rightarrow> handlePersistenceIssue i t
      | _ \<Rightarrow> t) t xs)" for t xs
    by (induction xs arbitrary: t) (simp_all split: cov_out.split)
  then show "nav_inv s \<Longrightarrow> nav_inv (relay_issues n s)" by (simp add: relay_issues_def)
qed

lemma nav_step_inv:
  assumes "nav_inv s" "nav_step s e t"
  shows "nav_inv t"
  using assms(2)
proof (cases rule: nav_step.cases)
  case (stream ts c)
  then show ?thesis using assms(1)
    by (cases c) (simp_all add: stream_callback_def handleGenerationComplete_def loadRoute_inv
        handleGenerationError_def)
qed (use assms(1) in \<open>simp_all add: run_command_inv watch_position_inv handleGeolocationError_inv
    start_timer_def Let_def settle_inv relay_issues_inv\<close>)

lemma nav_start_inv: "nav_start s \<Longrightarrow> nav_inv s"
  by (auto simp: nav_start_def new_nav_def nav_inv_def route_ok_def new_state_def new_gps_def new_geo_def
      watch_inv_def gps_pair_def)

interpretation navigation: event_system nav_start nav_step nav_inv
  by unfold_locales (auto intro: nav_start_inv nav_step_inv)

lemma matched_on_route:
  assumes "finite_route route" "2 \<le> length route"
  shows "\<exists>c. snd (findClosestPoint p route m k) = Some c"
proof -
  let ?n = "length route - 1"
  obtain a b where w: "search_window k ?n = (a, b)" by fastforce
  have "0 < ?n" using assms(2) by simp
  then obtain g where g: "searchRange p route m 0 ?n = Some g" using searchRange_best [of 0 ?n p route m] by auto
  show ?thesis
    using assms(1) w g
    by (cases "searchRange p route m a b") (auto simp: findClosestPoint_def finite_route_def Let_def)
qed

section \<open>Reachable states\<close>

text \<open>
  C3. In every reachable state of the controller, however its requests, timers, fixes, errors and user
  actions interleave: a loaded route has at least two finite points, and its distances and
  maneuvers are the ones computed from exactly these points; and the browser has no active watch but
  the one the controller holds.
\<close>

theorem navigator_route_consistent:
  assumes "reach nav_start nav_step s"
  shows "(routeLoaded s \<longrightarrow> finite_route (routeCoords s) \<and> 2 \<le> length (routeCoords s) \<and>
      n_metrics s = buildRouteMetrics (routeCoords s) \<and>
      maneuvers s = buildManeuvers (routeCoords s) (n_metrics s)) \<and>
    browser_watches (n_geo s) = (case watchId (n_gps s) of None \<Rightarrow> [] | Some w \<Rightarrow> [w])"
  using navigation.reachable_inv [OF assms]
  by (simp add: nav_inv_def route_ok_def watch_inv_def gps_pair_def)

lemma transition_state [simp]: "currentState (n_machine (transition n s)) = n"
proof -
  have "n_machine (onStateChange k t) = n_machine t" for k t
    by (simp add: onStateChange_def Let_def checkStartProximity_def start_unknown_def put_def wait_def)
  then show ?thesis
    using transitionTo_fields(2) [of n "n_machine s"]
    by (cases "transitionTo n (n_machine s)") (simp add: transition_def Let_def)
qed

lemma machine_put [simp]: "n_machine (put os s) = n_machine s" "n_machine (wait k s) = n_machine s"
  by (simp_all add: put_def wait_def)

lemma update_display_machine [simp]: "n_machine (update_display f c x y b s) = n_machine s"
  by (simp add: update_display_def Let_def split: option.split prod.split)

lemma gps_put [simp]: "n_gps (put os s) = n_gps s" "n_gps (wait k s) = n_gps s"
  by (simp_all add: put_def wait_def)

lemma gps_transition [simp]: "n_gps (transition n s) = n_gps s"
  by (simp add: transition_def onStateChange_def Let_def checkStartProximity_def start_unknown_def
      split: prod.split)

lemma gps_handleTransitions [simp]:
  "n_gps (handleNavigationStateTransitions transition n_machine offerResumeFromAhead r b d s) = n_gps s"
  by (simp add: handleNavigationStateTransitions_def offerResumeFromAhead_def Let_def
      split: option.split prod.split)

lemma resolve_progress:
  "lastValidProgress (fst (resolveHeading f i r g)) = lastValidProgress g"
  "lastValidProgress (fst (resolveSpeed f g)) = lastValidProgress g"
  by (simp_all add: resolveHeading_def resolveSpeed_def Let_def split: option.split)

lemma update_display_progress [simp]:
  "lastValidProgress (n_gps (update_display f c x y b s)) = lastValidProgress (n_gps s)"
proof -
  obtain g1 h where h: "resolveHeading f (cl_index c) (routeCoords s) (n_gps s) = (g1, h)" by fastforce
  obtain g2 v where v: "resolveSpeed f g1 = (g2, v)" by fastforce
  have "lastValidProgress g2 = lastValidProgress (n_gps s)"
    using resolve_progress(1) [of f "cl_index c" "routeCoords s" "n_gps s"] resolve_progress(2) [of f g1]
    unfolding h v by simp
  then show ?thesis by (simp add: update_display_def Let_def put_def h v split: option.split)
qed

lemma offerResume_state:
  "currentState (n_machine (offerResumeFromAhead s)) \<in> {currentState (n_machine s), OFF_ROUTE}"
  by (simp add: offerResumeFromAhead_def Let_def split: option.split prod.split)

text \<open>The moves of the state machine on the route.\<close>

definition moves :: "NAV_STATE \<Rightarrow> NAV_STATE \<Rightarrow> bool" where
  "moves a b \<longleftrightarrow> b = a \<or> b = ARRIVED \<or> a = ACTIVE_NAVIGATION \<and> b = OFF_ROUTE \<or>
     a = OFF_ROUTE \<and> b = ACTIVE_NAVIGATION"

lemma handleTransitions_state:
  "moves (currentState (n_machine s)) (currentState (n_machine
     (handleNavigationStateTransitions transition n_machine offerResumeFromAhead r b d s)))"
  "currentState (n_machine (handleNavigationStateTransitions transition n_machine offerResumeFromAhead r b d s))
     = ARRIVED \<longleftrightarrow> r < 25 \<or> currentState (n_machine s) = ARRIVED"
  using offerResume_state [of s] unfolding handleNavigationStateTransitions_def moves_def
  by auto

lemma advance_route_state:
  "moves (currentState (n_machine s)) (currentState (n_machine (advance_route seed f c s)))"
proof -
  obtain u v r b where u: "n_machine u = n_machine s" "advance_route seed f c s = update_display f c v r b
       (handleNavigationStateTransitions transition n_machine offerResumeFromAhead r b (cl_distance c) u)"
    by (rule advance_route_cases)
  show ?thesis
    unfolding u(2) update_display_machine u(1) [symmetric] by (rule handleTransitions_state(1))
qed

lemma update_route_cases:
  obtains u seed k where "n_machine u = n_machine t" "nview u = nview t"
    "update_route f t = (case snd (findClosestPoint [fix_lon f, fix_lat f] (routeCoords t) (n_metrics t) k)
       of None \<Rightarrow> u | Some c \<Rightarrow> advance_route seed f c u)"
proof -
  let ?seed = "needsStartSeed t \<and> currentState (n_machine t) = ACTIVE_NAVIGATION"
  define s1 where "s1 = (if ?seed then t\<lparr>lastClosestIndex := 0\<rparr> else t)"
  have eq: "routeCoords s1 = routeCoords t" "n_metrics s1 = n_metrics t" by (simp_all add: s1_def)
  obtain k found where kf: "findClosestPoint [fix_lon f, fix_lat f] (routeCoords t) (n_metrics t)
      (lastClosestIndex s1) = (k, found)" by fastforce
  have "update_route f t = (case found of None \<Rightarrow> s1\<lparr>lastClosestIndex := k\<rparr>
      | Some c \<Rightarrow> advance_route ?seed f c (s1\<lparr>lastClosestIndex := k\<rparr>))"
    using kf unfolding update_route_def Let_def s1_def [symmetric] eq by simp
  moreover have "n_machine (s1\<lparr>lastClosestIndex := k\<rparr>) = n_machine t"
    "nview (s1\<lparr>lastClosestIndex := k\<rparr>) = nview t" by (simp_all add: s1_def nview_def)
  moreover have "found = snd (findClosestPoint [fix_lon f, fix_lat f] (routeCoords t) (n_metrics t)
      (lastClosestIndex s1))" using kf by simp
  ultimately show ?thesis by (metis that)
qed

lemma update_route_state:
  "moves (currentState (n_machine t)) (currentState (n_machine (update_route f t)))"
proof -
  obtain u seed k where u: "n_machine u = n_machine t"
    "update_route f t = (case snd (findClosestPoint [fix_lon f, fix_lat f] (routeCoords t) (n_metrics t) k)
       of None \<Rightarrow> u | Some c \<Rightarrow> advance_route seed f c u)"
    by (rule update_route_cases)
  show ?thesis
    unfolding u(2) u(1) [symmetric] using advance_route_state by (auto simp: moves_def split: option.split)
qed

lemma update_to_start_state:
  "currentState (n_machine (outcome_state (update_to_start p t))) \<in>
     {currentState (n_machine t), ARRIVED_AT_START}"
  by (simp add: update_to_start_def Let_def split: option.split)

text \<open>The ways through \<open>updateNavigation\<close>.\<close>

lemma updateNavigation_cases:
  obtains (idle) "\<not> map_ready s \<or> \<not> routeLoaded s" "updateNavigation f s = Done s"
  | (throws) u where "n_machine u = n_machine s" "nview u = nview s"
      "updateNavigation f s = Raised ''TypeError'' u"
      "\<exists>c. checkSegmentCoverage (fix_lon f) (fix_lat f) (cs (n_cov s)) = Raised ''TypeError'' c"
  | (to_start) u where "n_machine u = n_machine s" "nview u = nview s"
      "currentState (n_machine s) = NAVIGATING_TO_START"
      "updateNavigation f s = update_to_start [fix_lon f, fix_lat f] u"
  | (on_route) u where "n_machine u = n_machine s" "nview u = nview s"
      "currentState (n_machine s) \<noteq> NAVIGATING_TO_START" "updateNavigation f s = Done (update_route f u)"
proof (cases "\<not> map_ready s \<or> \<not> routeLoaded s")
  case True
  then show ?thesis by (intro idle) (simp_all add: updateNavigation_def)
next
  case False
  define s1 where "s1 = put [MapPositionMarker [fix_lon f, fix_lat f]] s"
  have s1: "n_cov s1 = n_cov s" "n_machine s1 = n_machine s" by (simp_all add: s1_def put_def)
  define u where "u c = s1\<lparr>n_cov := (n_cov s)\<lparr>cs := c\<rparr>\<rparr>" for c
  have u: "n_machine (u c) = n_machine s" "nview (u c) = nview s" for c
    by (simp_all add: u_def s1_def nview_def put_def)
  have unf: "updateNavigation f s = (case checkSegmentCoverage (fix_lon f) (fix_lat f) (cs (n_cov s)) of
      Raised e c \<Rightarrow> Raised e (u c)
    | Done c \<Rightarrow> if currentState (n_machine s) = NAVIGATING_TO_START
        then update_to_start [fix_lon f, fix_lat f] (u c) else Done (update_route f (u c)))"
    using False s1 unfolding updateNavigation_def Let_def s1_def [symmetric] u_def
    by (simp split: outcome.split)
  show ?thesis
  proof (cases "checkSegmentCoverage (fix_lon f) (fix_lat f) (cs (n_cov s))")
    case (Done c)
    then show ?thesis
      using to_start [of "u c"] on_route [of "u c"] u unf
      by (cases "currentState (n_machine s) = NAVIGATING_TO_START") simp_all
  next
    case (Raised e c)
    moreover have "e = ''TypeError''"
      using Raised by (cases rule: checkSegmentCoverage_cases [of "fix_lon f" "fix_lat f" "cs (n_cov s)"]) auto
    ultimately show ?thesis using throws [of "u c"] u unf by simp
  qed
qed

text \<open>
  C13. A position update moves the navigation state only along the edges of its state machine: it stays,
  goes from the way to the start to the start, switches between active and off-route, or arrives
  (never from the way to the start).
\<close>

theorem updateNavigation_edges:
  "let a = currentState (n_machine s); b = currentState (n_machine (outcome_state (updateNavigation f s))) in
   b = a \<or> b = ARRIVED \<and> a \<noteq> NAVIGATING_TO_START \<or>
   (a, b) \<in> {(NAVIGATING_TO_START, ARRIVED_AT_START), (ACTIVE_NAVIGATION, OFF_ROUTE),
     (OFF_ROUTE, ACTIVE_NAVIGATION)}"
proof (cases rule: updateNavigation_cases [of s f])
  case (to_start u)
  then show ?thesis using update_to_start_state [of "[fix_lon f, fix_lat f]" u] by auto
next
  case (on_route u)
  then show ?thesis using update_route_state [of u f] by (auto simp: moves_def)
qed simp_all

text \<open>
  C8. Arrival: when a finite fix reaches a controller that is neither on the way to the start nor
  already arrived, with the route loaded and the map ready, and the coverage check does not throw,
  the state afterwards is arrival exactly when less than 25 metres remain beyond the accepted
  progress.
\<close>

theorem arrival_iff_25_metres:
  assumes "reach nav_start nav_step s" "map_ready s" "routeLoaded s"
    and "currentState (n_machine s) \<notin> {NAVIGATING_TO_START, ARRIVED}"
    and "finite_coord [fix_lon f, fix_lat f]" "updateNavigation f s = Done t"
  shows "currentState (n_machine t) = ARRIVED \<longleftrightarrow>
    js_max (totalDistance (n_metrics s) - lastValidProgress (n_gps t)) 0 < 25"
  using assms(4)
proof (cases rule: updateNavigation_cases [of s f])
  case (on_route u)
  have inv: "nav_inv s" using assms(1) by (rule navigation.reachable_inv)
  have u: "routeCoords u = routeCoords s" "n_metrics u = n_metrics s" "n_machine u = n_machine s"
    using on_route(1,2) by (simp_all add: nview_def)
  obtain w seed k where w: "n_machine w = n_machine u" "nview w = nview u"
    "update_route f u = (case snd (findClosestPoint [fix_lon f, fix_lat f] (routeCoords u) (n_metrics u) k)
       of None \<Rightarrow> w | Some c \<Rightarrow> advance_route seed f c w)"
    by (rule update_route_cases)
  have "\<exists>c. snd (findClosestPoint [fix_lon f, fix_lat f] (routeCoords u) (n_metrics u) k) = Some c"
    using inv assms(3,5) u matched_on_route [of "routeCoords s" "[fix_lon f, fix_lat f]" "n_metrics s" k]
    by (simp add: nav_inv_def route_ok_def)
  then obtain c where "update_route f u = advance_route seed f c w" using w(3) by auto
  moreover obtain x v r b where x: "n_machine x = n_machine w" "lastValidProgress (n_gps x) = v"
    "r = js_max (totalDistance (n_metrics w) - v) 0"
    "advance_route seed f c w = update_display f c v r b
       (handleNavigationStateTransitions transition n_machine offerResumeFromAhead r b (cl_distance c) x)"
    by (rule advance_route_cases)
  ultimately have t: "t = update_display f c v r b
       (handleNavigationStateTransitions transition n_machine offerResumeFromAhead r b (cl_distance c) x)"
    using on_route(4) assms(6) by simp
  have "n_metrics w = n_metrics s" using w(2) u(2) by (simp add: nview_def)
  moreover have "lastValidProgress (n_gps t) = v" unfolding t using x(2) by simp
  moreover have "currentState (n_machine x) \<noteq> ARRIVED" using x(1) w(1) u(3) assms(4) by simp
  ultimately show ?thesis
    unfolding t update_display_machine using handleTransitions_state(2) [of r b "cl_distance c" x] x(3)
    by simp
qed (use assms in auto)

section \<open>Ending navigation\<close>

lemma geo_put [simp]: "n_geo (put os s) = n_geo s" "n_cov (put os s) = n_cov s" "isNavigating (put os s) = isNavigating s"
  "n_geo (wait k s) = n_geo s" "n_cov (wait k s) = n_cov s" "isNavigating (wait k s) = isNavigating s"
  by (simp_all add: put_def wait_def)

lemma geo_transition [simp]: "n_geo (transition n s) = n_geo s" "n_cov (transition n s) = n_cov s"
  "isNavigating (transition n s) = isNavigating s"
  by (simp_all add: transition_def onStateChange_def Let_def checkStartProximity_def start_unknown_def
      split: prod.split)

text \<open>
  Ending the navigation in a reachable state leaves the controller in setup, not navigating, with
  no active location watch; every pending segment has left the queue, in one request for the
  tracker's area that is now in flight.
\<close>

theorem endNavigation_flushes:
  assumes "reach nav_start nav_step s"
  shows "let t = endNavigation s in
    currentState (n_machine t) = SETUP \<and> \<not> isNavigating t \<and> browser_watches (n_geo t) = [] \<and>
    pendingSegmentUpdates (cs (n_cov t)) = [] \<and>
    inflight (n_cov t) = inflight (n_cov s) @
      (if pendingSegmentUpdates (cs (n_cov s)) = [] then []
       else [(pendingSegmentUpdates (cs (n_cov s)), cov_areaId (cs (n_cov s)))])"
proof -
  have "watch_inv (gps_pair s)" using navigation.reachable_inv [OF assms] by (simp add: nav_inv_def)
  from stop_inv [OF this] have "browser_watches (fst (gps_stopGeolocation (gps_pair s))) = []"
    by (simp add: watch_inv_def)
  then show ?thesis
    by (simp add: endNavigation_def Let_def set_gps_def gps_pair_def add_request_def persist_begin_def
        emit_def)
qed

section \<open>Behaviours the code does not announce\<close>

text \<open>
  The reset of the route is silent: \<open>resetRouteState\<close> first resets the state machine, so its own
  transition to setup finds the state already there. Whatever the state before, the UI is never told
  to show the setup state.
\<close>

theorem resetRouteState_silent:
  "currentState (n_machine (resetRouteState s)) = SETUP \<and>
   nav_outs (resetRouteState s) = nav_outs s @ [MapClearRouteLayers, MapClearNavigateToStartRoute,
     ResetGuidanceUI, HideStaleBanner, SetNavStatus ''Waiting for route'' False]"
  by (simp add: resetRouteState_def Let_def transition_def transitionTo_def state_reset_def put_def set_gps_def)

text \<open>
  Every location error, a timeout or an unavailable position as well, is reported as a denied
  permission: the service passes on a plain \<open>Error\<close>, whose \<open>code\<close> and \<open>PERMISSION_DENIED\<close> are both
  undefined.
\<close>

theorem geolocation_error_reported_as_denied:
  "nav_outs (handleGeolocationError (geo_handleError code) s) =
     nav_outs s @ [SetNavStatus ''Location permission denied. Waiting for live tracking.'' True,
       ShowSetupPanel]"
  by (simp add: handleGeolocationError_def geo_handleError_def js_error_def Let_def set_gps_def put_def)

subsection \<open>A route that arrives late\<close>

definition late_gpx :: gpx where
  "late_gpx = \<lparr>gpx_parsererror = False, gpx_trkpt = [(30, 10), (31, 10)], gpx_rtept = [],
     gpx_name = None\<rparr>"

definition late_area :: cov_area where
  "late_area = \<lparr>has_optimal_route = None, coverage_percentage = 5\<rparr>"

definition late_start :: nav where
  "late_start = new_nav True 0 None None None"

definition late1 :: nav where "late1 = run_command (SelectArea ''A'' ''North'') late_start"
definition late2 :: nav where "late2 = settle (CFetchArea ''A'') (RArea late_area) (late1\<lparr>waiting := []\<rparr>)"
definition late3 :: nav where "late3 = run_command (SelectArea ''B'' ''South'') late2"
definition late4 :: nav where
  "late4 = settle (CFetchRoute (Some ''A'') late_area) (RRoute late_gpx None)
     (late3\<lparr>waiting := [CFetchArea ''B'']\<rparr>)"

lemmas nav_run_defs = run_command_def handleAreaChange_def cancelGeneration_def close_source_def
  cancel_tail_def isGenerating_def area_change_tail_def resetRouteState_def loadRoute_def put_def wait_def
  transition_def transitionTo_def state_reset_def set_gps_def gps_pair_def gps_reset_def
  gps_stopGeolocation_def resetSmoothing_def settle_def loadRoute_area_def loadRoute_route_def Let_def

lemma late1_fields: "waiting late1 = [CFetchArea ''A'']" "selectedAreaId late1 = Some ''A''"
  "generationEventSource late1 = None" "generationTaskId late1 = None" "currentState (n_machine late1) = SETUP"
  by (simp_all add: late1_def late_start_def new_nav_def new_state_def new_gps_def new_geo_def nav_run_defs)

lemma late2_fields: "waiting late2 = [CFetchRoute (Some ''A'') late_area]" "generationEventSource late2 = None"
  "generationTaskId late2 = None" "currentState (n_machine late2) = SETUP"
  using late1_fields by (simp_all add: late2_def settle_def loadRoute_area_def wait_def late_area_def)

lemma late3_fields: "waiting late3 = [CFetchRoute (Some ''A'') late_area, CFetchArea ''B'']"
  "selectedAreaId late3 = Some ''B''"
  using late2_fields by (simp_all add: late3_def nav_run_defs split: prod.split)

lemma late_reach: "reach nav_start nav_step late3" "nav_step late3 (Settle 0 (RRoute late_gpx None)) late4"
    "reach nav_start nav_step late4"
proof -
  note step = reach_step [where step = nav_step and init = nav_start]
  have "nav_start late_start" unfolding nav_start_def late_start_def by blast
  then have "reach nav_start nav_step late_start" by (rule reach_init)
  then have 1: "reach nav_start nav_step late1"
    unfolding late1_def by (rule step) (rule nav_step.command)
  have "nav_step late1 (Settle 0 (RArea late_area)) late2"
    using nav_step.settle [of 0 late1 "RArea late_area"] late1_fields(1) by (simp add: late2_def drop_nth_def)
  with 1 have 2: "reach nav_start nav_step late2" by (rule step)
  then show 3: "reach nav_start nav_step late3"
    unfolding late3_def by (rule step) (rule nav_step.command)
  show 4: "nav_step late3 (Settle 0 (RRoute late_gpx None)) late4"
    using nav_step.settle [of 0 late3 "RRoute late_gpx None"] late3_fields(1)
    by (simp add: late4_def drop_nth_def)
  show "reach nav_start nav_step late4" using 3 4 by (rule step)
qed

lemma late4_fields: "routeLoaded late4" "selectedAreaId late4 = Some ''B''"
  "routeCoords late4 = [[10, 30], [10, 31]]" "cov_areaId (cs (n_cov late4)) = Some ''B''"
  using late3_fields
  by (simp_all add: late4_def settle_def loadRoute_route_def parseGpx_def late_gpx_def Let_def wait_def
      install_route_def id_text_def load_begin_def cov_reset_def)

text \<open>
  \<open>loadRoute\<close> does not check after its awaits that the area is still selected: there is a run in
  which area A is selected, then area B, and the route requested for A, arriving late, is installed
  and navigable while B is selected and the segments of B are being tracked.
\<close>

theorem late_route_installed_for_other_area:
  "\<exists>s t. reach nav_start nav_step s \<and> CFetchRoute (Some ''A'') late_area \<in> set (waiting s) \<and>
     selectedAreaId s = Some ''B'' \<and> nav_step s (Settle 0 (RRoute late_gpx None)) t \<and>
     routeLoaded t \<and> routeCoords t = [[10, 30], [10, 31]] \<and> selectedAreaId t = Some ''B'' \<and>
     cov_areaId (cs (n_cov t)) = Some ''B''"
  using late_reach(1,2) late3_fields late4_fields by (intro exI [of _ late3] exI [of _ late4]) simp

section \<open>Witnesses\<close>

theorem navigator_route_consistent_witness:
  "routeLoaded late4 \<and> n_metrics late4 = buildRouteMetrics [[10, 30], [10, 31]]"
  using navigator_route_consistent [OF late_reach(3)] late4_fields by simp

theorem endNavigation_flushes_witness:
  "currentState (n_machine (endNavigation late4)) = SETUP \<and> browser_watches (n_geo (endNavigation late4)) = []"
  using endNavigation_flushes [OF late_reach(3)] by (simp add: Let_def)

definition late5 :: nav where "late5 = run_command MapLoaded late4"

definition late_fix :: gps_fix where
  "late_fix = \<lparr>fix_lat = 30, fix_lon = 10, fix_accuracy = None, fix_heading = None, fix_speed = None,
     fix_timestamp = 1000\<rparr>"

lemma late5_fields: "map_ready late5" "routeLoaded late5" "currentState (n_machine late5) = SETUP"
    "segmentIndex (cs (n_cov late5)) = []"
proof -
  have "currentState (n_machine late3) = SETUP"
    using late2_fields by (simp add: late3_def nav_run_defs split: prod.split)
  then show "map_ready late5" "routeLoaded late5" "currentState (n_machine late5) = SETUP"
    "segmentIndex (cs (n_cov late5)) = []"
    using late4_fields(1)
    by (simp_all add: late5_def run_command_def late4_def settle_def loadRoute_route_def parseGpx_def
        late_gpx_def Let_def wait_def install_route_def load_begin_def cov_reset_def)
qed

theorem arrival_iff_25_metres_witness:
  "\<exists>t. updateNavigation late_fix late5 = Done t \<and> (currentState (n_machine t) = ARRIVED \<longleftrightarrow>
     js_max (totalDistance (n_metrics late5) - lastValidProgress (n_gps t)) 0 < 25)"
proof -
  have r: "reach nav_start nav_step late5"
    unfolding late5_def using late_reach(3)
    by (rule reach_step [where step = nav_step and init = nav_start]) (rule nav_step.command)
  have f: "finite_coord [fix_lon late_fix, fix_lat late_fix]" by (simp add: late_fix_def finite_coord_def)
  have "checkSegmentCoverage (fix_lon late_fix) (fix_lat late_fix) (cs (n_cov late5)) =
      Done (cs (n_cov late5))"
    using late5_fields(4) by (simp add: checkSegmentCoverage_def)
  then obtain t where t: "updateNavigation late_fix late5 = Done t"
    using late5_fields by (cases rule: updateNavigation_cases [of late5 late_fix]) auto
  from late5_fields(3) have "currentState (n_machine late5) \<notin> {NAVIGATING_TO_START, ARRIVED}" by simp
  from arrival_iff_25_metres [OF r late5_fields(1,2) this f t] t show ?thesis by blast
qed

end
