(* ===== verification/RequestPool.thy ===== *)
theory RequestPool
  imports JSBase
begin

text \<open>
  \<open>settleWithConcurrency\<close> of \<open>static/js/modules/features/server-logs/request-pool.js\<close>: a fixed number of
  workers maps the items, each worker taking the next index when its current one has settled.

  The state holds the next index, the indices being mapped (one per busy worker) and the results.
  \<open>out i\<close> is what mapping item \<open>i\<close> settles with, fulfilled or
  rejected. Items settle in any order. Shown: never more
  than the allowed number in flight, no index mapped twice, exactly as many steps as items, and at the
  end every item's own result at its own index.
\<close>

record 'r pool =
  nextIndex :: nat
  running :: "nat list"
  results :: "'r option list"

definition workerCount :: "nat \<Rightarrow> nat \<Rightarrow> nat" where
  "workerCount concurrency n = min (max 1 concurrency) n"

text \<open>Every worker runs up to its first await when it is created.\<close>

definition pool_start :: "nat \<Rightarrow> nat \<Rightarrow> 'r pool" where
  "pool_start concurrency n =
     (let w = workerCount concurrency n
      in \<lparr>nextIndex = w, running = [0 ..< w], results = replicate n None\<rparr>)"

text \<open>The mapping of an index settles; its worker takes the next index, or ends.\<close>

definition worker_settles :: "nat \<Rightarrow> 'r \<Rightarrow> 'r pool \<Rightarrow> 'r pool" where
  "worker_settles i r p =
     (let p1 = p\<lparr>results := (results p)[i := Some r], running := remove1 i (running p)\<rparr>
      in if nextIndex p1 < length (results p1)
         then p1\<lparr>running := running p1 @ [nextIndex p1], nextIndex := Suc (nextIndex p1)\<rparr> else p1)"

inductive pool_step :: "(nat \<Rightarrow> 'r) \<Rightarrow> 'r pool \<Rightarrow> nat \<Rightarrow> 'r pool \<Rightarrow> bool" for out where
  "i \<in> set (running p) \<Longrightarrow> pool_step out p i (worker_settles i (out i) p)"

inductive_simps pool_step_iff: "pool_step out p i q"

definition pool_inv :: "(nat \<Rightarrow> 'r) \<Rightarrow> nat \<Rightarrow> nat \<Rightarrow> 'r pool \<Rightarrow> bool" where
  "pool_inv out w n p \<longleftrightarrow> length (results p) = n \<and> nextIndex p \<le> n \<and> distinct (running p) \<and>
     set (running p) \<subseteq> {..< nextIndex p} \<and> length (running p) \<le> w \<and>
     (nextIndex p < n \<longrightarrow> length (running p) = w) \<and>
     (\<forall>i < n. results p ! i = (if i < nextIndex p \<and> i \<notin> set (running p) then Some (out i) else None))"

lemma pool_start_inv: "pool_inv out (workerCount c n) n (pool_start c n)"
  by (auto simp: pool_inv_def pool_start_def Let_def workerCount_def)

lemma pool_step_inv:
  assumes "pool_inv out w n p" "pool_step out p i q"
  shows "pool_inv out w n q"
proof -
  have i: "i \<in> set (running p)" and q: "q = worker_settles i (out i) p"
    using assms(2) by (auto simp: pool_step_iff)
  have inv: "length (results p) = n" "nextIndex p \<le> n" "distinct (running p)" "i < nextIndex p"
    "set (running p) \<subseteq> {..< nextIndex p}" "length (running p) \<le> w" "nextIndex p < n \<Longrightarrow> length (running p) = w"
    "\<And>j. j < n \<Longrightarrow> results p ! j = (if j < nextIndex p \<and> j \<notin> set (running p) then Some (out j) else None)"
    using assms(1) i by (auto simp: pool_inv_def)
  have pos: "0 < length (running p)" using i by (cases "running p") auto
  have res: "(results p)[i := Some (out i)] ! j =
      (if j < nextIndex p \<and> j \<notin> set (remove1 i (running p)) then Some (out j) else None)" if "j < n" for j
    using that inv(1,3,4) inv(8) [OF that] by (cases "j = i") auto
  show ?thesis
  proof (cases "nextIndex p < n")
    case True
    have "nextIndex p \<notin> set (running p)" using inv(5) by auto
    then show ?thesis
      using True inv(1,3,5) inv(7) [OF True] i pos res unfolding q pool_inv_def worker_settles_def Let_def
      by (auto simp: length_remove1 less_Suc_eq)
  next
    case False
    then show ?thesis
      using inv(1-3,5,6) i pos res unfolding q pool_inv_def worker_settles_def Let_def
      by (auto simp: length_remove1)
  qed
qed

text \<open>Reachability after \<open>k\<close> settled items.\<close>

inductive pool_run :: "(nat \<Rightarrow> 'r) \<Rightarrow> nat \<Rightarrow> nat \<Rightarrow> nat \<Rightarrow> 'r pool \<Rightarrow> bool" for out c n where
  "pool_run out c n 0 (pool_start c n)"
| "pool_run out c n k p \<Longrightarrow> pool_step out p i q \<Longrightarrow> pool_run out c n (Suc k) q"

lemma pool_run_inv:
  assumes "pool_run out c n k p"
  shows "pool_inv out (workerCount c n) n p \<and> k + length (running p) = nextIndex p"
  using assms
proof (induction rule: pool_run.induct)
  case 1
  then show ?case by (simp add: pool_start_inv) (simp add: pool_start_def Let_def)
next
  case (2 k p i q)
  have i: "i \<in> set (running p)" and q: "q = worker_settles i (out i) p"
    using 2(2) by (auto simp: pool_step_iff)
  obtain l where l: "length (running p) = Suc l" using i by (cases "running p") auto
  then have "Suc k + length (running q) = nextIndex q"
    using 2(3) i unfolding q worker_settles_def by (auto simp: Let_def length_remove1 l)
  then show ?case using 2(2,3) pool_step_inv by blast
qed

text \<open>
  C24. The pool: after any number \<open>k\<close> of items have settled, in any order, at most the allowed number of
  items (at least one) is being mapped, none of them twice; the pool has stopped exactly when all
  \<open>n\<close> items have settled, and then the results are those of the items, each at its own index.
\<close>

theorem settleWithConcurrency_spec:
  assumes "pool_run out c n k p"
  shows "length (running p) \<le> max 1 c \<and> distinct (running p) \<and> k \<le> n \<and>
    (running p = [] \<longleftrightarrow> k = n) \<and> (running p = [] \<longrightarrow> results p = map (\<lambda>i. Some (out i)) [0 ..< n])"
proof -
  have inv: "pool_inv out (workerCount c n) n p" and k: "k + length (running p) = nextIndex p"
    using pool_run_inv [OF assms] by simp_all
  then have P: "length (results p) = n" "nextIndex p \<le> n" "distinct (running p)"
    "length (running p) \<le> workerCount c n" "nextIndex p < n \<Longrightarrow> length (running p) = workerCount c n"
    "\<And>i. i < n \<Longrightarrow> results p ! i = (if i < nextIndex p \<and> i \<notin> set (running p) then Some (out i) else None)"
    by (simp_all add: pool_inv_def)
  have empty: "nextIndex p = n" if "running p = []"
    using that P(2,5) by (cases "nextIndex p < n") (auto simp: workerCount_def)
  have "results p = map (\<lambda>i. Some (out i)) [0 ..< n]" if "running p = []"
    using that empty [OF that] P(1,6) by (intro nth_equalityI) auto
  moreover have "running p = []" if "k = n"
  proof -
    have "length (running p) = 0" using k P(2) that by linarith
    then show ?thesis by simp
  qed
  then have "running p = [] \<longleftrightarrow> k = n" using k empty by auto
  moreover have "workerCount c n \<le> max 1 c" by (simp add: workerCount_def)
  ultimately show ?thesis using P k by auto
qed

theorem settleWithConcurrency_spec_witness:
  "results (worker_settles 0 7 (worker_settles 1 8 (pool_start 2 2 :: nat pool))) = [Some 7, Some 8]"
proof -
  let ?out = "\<lambda>i. if i = 0 then 7 else (8 :: nat)"
  let ?p0 = "pool_start 2 2 :: nat pool"
  let ?p1 = "worker_settles 1 8 ?p0"
  have s1: "pool_step ?out ?p0 1 ?p1"
    using pool_step.intros [of 1 ?p0 ?out] by (simp add: pool_start_def workerCount_def)
  have s2: "pool_step ?out ?p1 0 (worker_settles 0 7 ?p1)"
    using pool_step.intros [of 0 ?p1 ?out]
    by (simp add: pool_start_def workerCount_def worker_settles_def Let_def upt_rec)
  have "pool_run ?out 2 2 (Suc (Suc 0)) (worker_settles 0 7 ?p1)"
    by (rule pool_run.intros(2) [OF pool_run.intros(2) [OF pool_run.intros(1) s1] s2])
  from settleWithConcurrency_spec [OF this] show ?thesis
    by (simp add: upt_rec)
qed

end
