(* ===== verification/Store.thy ===== *)
theory Store
  imports JSBase
begin

text \<open>
  The application state of \<open>static/js/modules/core/store.js\<close> (class \<open>ESStore\<close>, its session state part) with
  \<open>core/url-state.js\<close>: a tree of values addressed by dotted paths, kept in the session storage and
  synchronised with the query parameters of the address.

  \<^item> A value is a \<open>jv\<close>; the state tree has no arrays on its paths. \<open>undefined\<close> is \<open>None\<close>.
    The filters are null or texts, as their callers set them; only texts are written to the address.
  \<^item> The address is its list of query parameters; encoding and decoding them is the browser's.
    Storing in the session storage and reading back gives the value stored.
  \<^item> \<open>emitted\<close> are the events dispatched on the document, \<open>pushed\<close> the addresses pushed to the history.
  \<^item> Shown: reading a path after writing it, independence of other paths, and what survives a reload
    of the address the store has written.
\<close>

section \<open>Values and paths\<close>

datatype jv = JNull | JBool bool | JNum jsnum | JStr string | JObj "(string \<times> jv) list"

fun truthy :: "jv \<Rightarrow> bool" where
  "truthy JNull = False"
| "truthy (JBool b) = b"
| "truthy (JNum x) = (\<not> falsy x)"
| "truthy (JStr s) = (s \<noteq> [])"
| "truthy (JObj _) = True"

fun field_of :: "jv \<Rightarrow> string \<Rightarrow> jv option" where
  "field_of (JObj al) k = map_of al k"
| "field_of _ k = None"

definition get_step :: "jv option \<Rightarrow> string \<Rightarrow> jv option" where
  "get_step acc key = (case acc of None \<Rightarrow> None | Some v \<Rightarrow> if truthy v then field_of v key else None)"

definition getByPath :: "jv \<Rightarrow> string \<Rightarrow> jv option" where
  "getByPath obj path =
     (if path = [] then None else foldl get_step (Some obj) (split_at CHR ''.'' path))"

definition child :: "(string \<times> jv) list \<Rightarrow> string \<Rightarrow> jv" where
  "child al k = (case map_of al k of Some (JObj bl) \<Rightarrow> JObj bl | _ \<Rightarrow> JObj [])"

fun set_parts :: "string list \<Rightarrow> jv \<Rightarrow> jv \<Rightarrow> jv" where
  "set_parts [k] v (JObj al) = JObj (AList.update k v al)"
| "set_parts (k # ks) v (JObj al) = JObj (AList.update k (set_parts ks v (child al k)) al)"
| "set_parts _ v x = x"

definition setByPath :: "jv \<Rightarrow> string \<Rightarrow> jv \<Rightarrow> jv" where
  "setByPath obj path v = set_parts (split_at CHR ''.'' path) v obj"

section \<open>Query parameters\<close>

type_synonym params = "(string \<times> string) list"

fun params_replace :: "string \<Rightarrow> string \<Rightarrow> params \<Rightarrow> params" where
  "params_replace k v [] = []"
| "params_replace k v ((k', v') # ps) =
     (if k' = k then (k, v) # filter (\<lambda>p. fst p \<noteq> k) ps else (k', v') # params_replace k v ps)"

definition params_set :: "string \<Rightarrow> string \<Rightarrow> params \<Rightarrow> params" where
  "params_set k v ps = (if k \<in> fst ` set ps then params_replace k v ps else ps @ [(k, v)])"

definition params_delete :: "string \<Rightarrow> params \<Rightarrow> params" where
  "params_delete k ps = filter (\<lambda>p. fst p \<noteq> k) ps"

subsection \<open>Numbers in texts\<close>

text \<open>The exponent part: its value, when there is one with digits.\<close>

definition read_exponent :: "string \<Rightarrow> int" where
  "read_exponent s =
     (case s of
        c # r \<Rightarrow>
          if c = CHR ''e'' \<or> c = CHR ''E'' then
            let (neg, t) = read_sign r; ds = takeWhile is_digit t
            in if ds = [] then 0 else (if neg then - int (digits_val ds) else int (digits_val ds))
          else 0
      | [] \<Rightarrow> 0)"

definition pow10 :: "int \<Rightarrow> real" where
  "pow10 e = (if e \<ge> 0 then 10 ^ nat e else 1 / 10 ^ nat (- e))"

definition parseFloat :: "string \<Rightarrow> jsnum" where
  "parseFloat s0 =
     (let (neg, s) = read_sign (dropWhile is_space s0);
          sgn = (\<lambda>x. if neg then - x else x)
      in if starts_with s ''Infinity'' then sgn PInf
         else let ds = takeWhile is_digit s; r = dropWhile is_digit s;
                  (fs, r') = (case r of
                     c # t \<Rightarrow> if c = CHR ''.'' then (takeWhile is_digit t, dropWhile is_digit t) else ([], r)
                   | [] \<Rightarrow> ([], []))
              in if ds = [] \<and> fs = [] then NaN
                 else sgn (Fin ((real (digits_val ds) + real (digits_val fs) / 10 ^ length fs) *
                        pow10 (read_exponent r'))))"

text \<open>\<open>Number.parseFloat(null)\<close> is \<open>NaN\<close>.\<close>

definition param_number :: "string \<Rightarrow> params \<Rightarrow> jsnum" where
  "param_number k ps = (case map_of ps k of None \<Rightarrow> NaN | Some t \<Rightarrow> parseFloat t)"

definition getExplicitMapViewFromUrl :: "params \<Rightarrow> jv option" where
  "getExplicitMapViewFromUrl ps =
     (if map_of ps ''map_view'' \<noteq> Some ''1'' then None
      else
        let lat = param_number ''lat'' ps; lng = param_number ''lng'' ps; zoom = param_number ''zoom'' ps;
            isValid = (is_finite lat \<and> lat \<ge> Fin (- 90) \<and> lat \<le> 90 \<and> is_finite lng \<and>
              lng \<ge> Fin (- 180) \<and> lng \<le> 180 \<and> is_finite zoom \<and> zoom \<ge> 0 \<and> zoom \<le> 22)
        in if isValid then Some (JObj [(''center'', JObj [(''0'', JNum lng), (''1'', JNum lat)]), (''zoom'', JNum zoom)])
           else None)"

section \<open>The store\<close>

definition DEFAULT_STATE :: jv where
  "DEFAULT_STATE = JObj
     [(''version'', JNum 1),
      (''filters'', JObj [(''startDate'', JNull), (''endDate'', JNull), (''vehicle'', JNull)]),
      (''map'', JObj [(''view'', JNull), (''style'', JNull), (''selectedLocation'', JNull),
         (''streetViewMode'', JNull)]),
      (''layers'', JObj [(''visibility'', JObj []), (''settings'', JObj [])]),
      (''ui'', JObj [(''controlsMinimized'', JBool False), (''filtersOpen'', JBool False),
         (''lastFilterPreset'', JNull)])]"

definition URL_PARAM_MAP :: "(string \<times> string) list" where
  "URL_PARAM_MAP =
     [(''start'', ''filters.startDate''), (''end'', ''filters.endDate''),
      (''start_date'', ''filters.startDate''), (''end_date'', ''filters.endDate''),
      (''vehicle'', ''filters.vehicle'')]"

datatype emission = EmitFilters jv "string option" | EmitApplied jv | EmitMapView jv "string option" | EmitLayers jv "string option"

record es_store =
  es_state :: jv
  es_ui :: "(string \<times> jv) list"
  es_initialized :: bool
  session_state :: "jv option"
  ui_storage :: "jv option"
  url_params :: params
  pushed :: "params list"
  emitted :: "emission list"

definition emit_event :: "emission \<Rightarrow> es_store \<Rightarrow> es_store" where
  "emit_event e s = s\<lparr>emitted := emitted s @ [e]\<rparr>"

definition persist :: "es_store \<Rightarrow> es_store" where
  "persist s = s\<lparr>session_state := Some (es_state s)\<rparr>"

text \<open>\<open>{ ...a, ...b }\<close>.\<close>

definition spread :: "(string \<times> jv) list \<Rightarrow> (string \<times> jv) list \<Rightarrow> (string \<times> jv) list" where
  "spread a b = foldl (\<lambda>acc (k, v). AList.update k v acc) a b"

fun obj_fields :: "jv \<Rightarrow> (string \<times> jv) list" where
  "obj_fields (JObj al) = al" | "obj_fields _ = []"

definition sub :: "string \<Rightarrow> jv \<Rightarrow> (string \<times> jv) list" where
  "sub k v = (case field_of v k of Some x \<Rightarrow> obj_fields x | None \<Rightarrow> [])"

text \<open>\<open>partial[k] ?? fallback\<close>.\<close>

definition nullish :: "jv option \<Rightarrow> jv option \<Rightarrow> jv option" where
  "nullish a b = (case a of None \<Rightarrow> b | Some JNull \<Rightarrow> b | _ \<Rightarrow> a)"

definition with_field :: "string \<Rightarrow> jv option \<Rightarrow> (string \<times> jv) list" where
  "with_field k v = (case v of None \<Rightarrow> [] | Some x \<Rightarrow> [(k, x)])"

definition ui_keys :: "string list" where
  "ui_keys = [''controlsMinimized'', ''filtersOpen'', ''lastFilterPreset'']"

definition applyUIState :: "(string \<times> jv) list \<Rightarrow> es_store \<Rightarrow> es_store" where
  "applyUIState partial s =
     (let ui = sub ''ui'' (es_state s);
          nxt = concat (map (\<lambda>k. with_field k (nullish (map_of partial k) (map_of ui k))) ui_keys)
      in s\<lparr>es_state := set_parts [''ui''] (JObj (spread ui nxt)) (es_state s), es_ui := spread (filter (\<lambda>p. fst p \<notin> set ui_keys) (es_ui s)) nxt\<rparr>)"

definition saveUIState :: "es_store \<Rightarrow> es_store" where
  "saveUIState s =
     s\<lparr>ui_storage := Some (JObj (concat (map (\<lambda>k. with_field k (map_of (es_ui s) k)) ui_keys)))\<rparr>"

definition loadPersistedUIState :: "es_store \<Rightarrow> es_store" where
  "loadPersistedUIState s =
     (case ui_storage s of Some (JObj al) \<Rightarrow> applyUIState al s | _ \<Rightarrow> s)"

definition apply_param :: "params \<Rightarrow> jv \<times> bool \<Rightarrow> string \<times> string \<Rightarrow> jv \<times> bool" where
  "apply_param ps = (\<lambda>(st, changed) (param, path).
     case map_of ps param of
       None \<Rightarrow> (st, changed)
     | Some value \<Rightarrow>
         if Some (JStr value) \<noteq> getByPath st path
         then (setByPath st path (JStr value), changed \<or> starts_with path ''filters'')
         else (st, changed))"

definition layers_visibility :: "string \<Rightarrow> jv" where
  "layers_visibility t =
     JObj (foldl (\<lambda>acc n. AList.update n (JBool True) acc) []
       (filter (\<lambda>n. n \<noteq> []) (map trim (split_at CHR '','' t))))"

record url_options =
  uo_persist :: bool
  uo_emit :: bool
  uo_source :: "string option"

definition applyUrlParams :: "params \<Rightarrow> url_options \<Rightarrow> es_store \<Rightarrow> es_store" where
  "applyUrlParams ps opts s =
     (let (st1, filtersChanged) = foldl (apply_param ps) (es_state s, False) URL_PARAM_MAP;
          view = getExplicitMapViewFromUrl ps;
          st2 = (case view of None \<Rightarrow> st1 | Some v \<Rightarrow> set_parts [''map'', ''view''] v st1);
          st3 = (case map_of ps ''layers'' of None \<Rightarrow> st2
                 | Some t \<Rightarrow> set_parts [''layers'', ''visibility''] (layers_visibility t) st2);
          s1 = s\<lparr>es_state := st3\<rparr>;
          s2 = (if uo_persist opts then persist s1 else s1);
          src = (case uo_source opts of None \<Rightarrow> ''url'' | Some x \<Rightarrow> if x = [] then ''url'' else x);
          s3 = (if filtersChanged \<and> uo_emit opts
                then emit_event (EmitApplied (JObj (sub ''filters'' st3)))
                       (emit_event (EmitFilters (JObj (sub ''filters'' st3)) (Some src)) s2) else s2)
      in if view \<noteq> None \<and> uo_emit opts
         then emit_event (EmitMapView (the (field_of (JObj (sub ''map'' st3)) ''view'')) (Some src)) s3 else s3)"

definition sync_param :: "string \<Rightarrow> jv option \<Rightarrow> params \<Rightarrow> params" where
  "sync_param k v ps =
     (case v of Some (JStr t) \<Rightarrow> if t \<noteq> [] then params_set k t ps else params_delete k ps
      | _ \<Rightarrow> params_delete k ps)"

definition visible_layers :: "jv \<Rightarrow> string list" where
  "visible_layers st =
     (let vis = (case field_of (JObj (sub ''layers'' st)) ''visibility'' of Some v \<Rightarrow> obj_fields v | None \<Rightarrow> [])
      in map fst (filter (\<lambda>(k, v). truthy v) vis))"

definition synced_params :: "jv \<Rightarrow> params \<Rightarrow> params" where
  "synced_params st ps0 =
     (let f = sub ''filters'' st;
          ps1 = sync_param ''vehicle'' (map_of f ''vehicle'') (sync_param ''end'' (map_of f ''endDate'')
                  (sync_param ''start'' (map_of f ''startDate'') ps0));
          ps2 = (if getExplicitMapViewFromUrl ps1 = None
                 then params_delete ''zoom'' (params_delete ''lng'' (params_delete ''lat''
                        (params_delete ''map_view'' ps1))) else ps1);
          ls = visible_layers st
      in if ls \<noteq> [] then params_set ''layers'' (join_with CHR '','' ls) ps2 else params_delete ''layers'' ps2)"

definition syncUrl :: "bool \<Rightarrow> es_store \<Rightarrow> es_store" where
  "syncUrl push s =
     (let ps = synced_params (es_state s) (url_params s)
      in if push then s\<lparr>url_params := ps, pushed := pushed s @ [ps]\<rparr> else s\<lparr>url_params := ps\<rparr>)"

definition store_init :: "es_store \<Rightarrow> es_store" where
  "store_init s =
     (if es_initialized s then s
      else
        let st = (case session_state s of
                    Some (JObj saved) \<Rightarrow> JObj (spread (obj_fields DEFAULT_STATE) saved)
                  | _ \<Rightarrow> DEFAULT_STATE);
            s1 = s\<lparr>es_state := st\<rparr>;
            s2 = applyUIState (sub ''ui'' st) s1;
            s3 = applyUrlParams (url_params s2) \<lparr>uo_persist = True, uo_emit = False, uo_source = None\<rparr> s2
        in (persist s3)\<lparr>es_initialized := True\<rparr>)"

definition store_get :: "string \<Rightarrow> es_store \<Rightarrow> jv option" where
  "store_get path s = getByPath (es_state s) path"

definition store_set :: "string \<Rightarrow> jv \<Rightarrow> es_store \<Rightarrow> es_store" where
  "store_set path v s =
     (let s1 = s\<lparr>es_state := setByPath (es_state s) path v\<rparr>
      in persist (if starts_with path ''ui.'' then applyUIState (sub ''ui'' (es_state s1)) s1 else s1))"

record update_options =
  up_persist :: bool
  up_syncUrl :: bool
  up_push :: bool
  up_emit :: bool
  up_source :: "string option"

definition default_update :: update_options where
  "default_update = \<lparr>up_persist = True, up_syncUrl = True, up_push = False, up_emit = True, up_source = None\<rparr>"

definition updateFilters :: "(string \<times> jv) list \<Rightarrow> update_options \<Rightarrow> es_store \<Rightarrow> es_store" where
  "updateFilters filters opts s =
     (let nextFilters = JObj (spread (sub ''filters'' (es_state s)) filters);
          s1 = s\<lparr>es_state := set_parts [''filters''] nextFilters (es_state s)\<rparr>;
          s2 = (if up_persist opts then persist s1 else s1);
          s3 = (if up_syncUrl opts then syncUrl (up_push opts) s2 else s2)
      in if up_emit opts
         then emit_event (EmitApplied nextFilters) (emit_event (EmitFilters nextFilters (up_source opts)) s3)
         else s3)"

definition updateMapView :: "jv \<Rightarrow> update_options \<Rightarrow> es_store \<Rightarrow> es_store" where
  "updateMapView view opts s =
     (let s1 = s\<lparr>es_state := set_parts [''map'', ''view''] view (es_state s)\<rparr>;
          s2 = (if up_persist opts then persist s1 else s1)
      in if up_emit opts then emit_event (EmitMapView view (up_source opts)) s2 else s2)"

definition updateLayerVisibility :: "(string \<times> jv) list \<Rightarrow> update_options \<Rightarrow> es_store \<Rightarrow> es_store" where
  "updateLayerVisibility visibility opts s =
     (let s1 = s\<lparr>es_state := set_parts [''layers'', ''visibility''] (JObj visibility) (es_state s)\<rparr>;
          s2 = (if up_persist opts then persist s1 else s1);
          s3 = (if up_syncUrl opts then syncUrl False s2 else s2)
      in if up_emit opts then emit_event (EmitLayers (JObj visibility) (up_source opts)) s3 else s3)"


section \<open>Paths: writing and reading back\<close>

lemma get_step_None [simp]: "get_step None k = None" "foldl get_step None ks = None"
  by (simp_all add: get_step_def) (induction ks, auto simp: get_step_def)

lemma get_step_JObj [simp]: "get_step (Some (JObj al)) k = map_of al k"
  by (simp add: get_step_def)

lemma set_parts_Cons:
  "ks \<noteq> [] \<Longrightarrow> set_parts (k # ks) v (JObj al) = JObj (AList.update k (set_parts ks v (child al k)) al)"
  by (cases ks) auto

lemma child_JObj: obtains bl where "child al k = JObj bl"
  by (cases "map_of al k"; cases "the (map_of al k)") (auto simp: child_def)

lemma get_set_parts: "ks \<noteq> [] \<Longrightarrow> foldl get_step (Some (set_parts ks v (JObj al))) ks = Some v"
proof (induction ks arbitrary: al)
  case (Cons k ks)
  show ?case
  proof (cases "ks = []")
    case True
    then show ?thesis by (simp add: update_conv)
  next
    case False
    obtain bl where bl: "child al k = JObj bl" by (rule child_JObj)
    show ?thesis using Cons.IH [OF False, of bl] False bl
      by (simp add: set_parts_Cons update_conv)
  qed
qed simp

definition diverge :: "string list \<Rightarrow> string list \<Rightarrow> bool" where
  "diverge ps qs \<longleftrightarrow> take (length ps) qs \<noteq> ps \<and> take (length qs) ps \<noteq> qs"

lemma diverge_Cons: "diverge (k # ps) (l # qs) \<longleftrightarrow> k \<noteq> l \<or> diverge ps qs"
  by (auto simp: diverge_def)

lemma diverge_Nil [simp]: "\<not> diverge [] qs" "\<not> diverge ps []"
  by (auto simp: diverge_def)

lemma foldl_child:
  "qs \<noteq> [] \<Longrightarrow> foldl get_step (Some (child al k)) qs = foldl get_step (map_of al k) qs"
proof (cases "map_of al k")
  case None
  assume "qs \<noteq> []"
  then obtain q qs' where "qs = q # qs'" by (cases qs) auto
  with None show ?thesis by (simp add: child_def)
next
  case (Some x)
  assume "qs \<noteq> []"
  then obtain q qs' where "qs = q # qs'" by (cases qs) auto
  with Some show ?thesis by (cases x) (simp_all add: child_def get_step_def)
qed

lemma get_set_other:
  "diverge ps qs \<Longrightarrow> foldl get_step (Some (set_parts ps v (JObj al))) qs = foldl get_step (Some (JObj al)) qs"
proof (induction ps arbitrary: al qs)
  case (Cons k ps)
  then obtain l qs' where qs: "qs = l # qs'" by (cases qs) auto
  show ?case
  proof (cases "k = l")
    case False
    then show ?thesis by (cases ps) (simp_all add: qs update_conv)
  next
    case True
    with Cons.prems qs have d: "diverge ps qs'" by (simp add: diverge_Cons)
    then have ne: "ps \<noteq> []" "qs' \<noteq> []" by auto
    obtain bl where bl: "child al k = JObj bl" by (rule child_JObj)
    have "foldl get_step (Some (set_parts ps v (JObj bl))) qs' = foldl get_step (Some (JObj bl)) qs'"
      by (rule Cons.IH [OF d])
    then show ?thesis using True ne bl foldl_child [OF ne(2), of al k]
      by (simp add: qs set_parts_Cons update_conv)
  qed
qed simp

lemma set_parts_object: "set_parts ks v (JObj al) = JObj (obj_fields (set_parts ks v (JObj al)))"
  by (cases ks rule: remdups_adj.cases) auto

subsection \<open>The store's own get and set\<close>

lemma spread_same:
  "(\<And>k v. (k, v) \<in> set b \<Longrightarrow> map_of a k = Some v) \<Longrightarrow> spread a b = a"
proof (induction b)
  case Nil
  then show ?case by (simp add: spread_def)
next
  case (Cons p b)
  obtain k v where p: "p = (k, v)" by (cases p)
  have "AList.update k v a = a" using Cons.prems p by (intro AList_update_same) auto
  moreover have "spread a b = a" using Cons by auto
  ultimately show ?case by (simp add: spread_def p)
qed

lemma nullish_same [simp]: "nullish x x = x"
  by (auto simp: nullish_def split: option.split jv.split)

lemma sub_JObj: "map_of al k = Some (JObj u) \<Longrightarrow> sub k (JObj al) = u"
  by (simp add: sub_def)

lemma applyUIState_own:
  assumes st: "es_state s = JObj al" and ui: "map_of al ''ui'' = Some (JObj u)"
  shows "es_state (applyUIState u s) = es_state s"
proof -
  have "spread u (concat (map (\<lambda>k. with_field k (map_of u k)) ui_keys)) = u"
    by (rule spread_same) (auto simp: with_field_def ui_keys_def split: option.splits)
  with st ui show ?thesis
    by (simp add: applyUIState_def Let_def sub_JObj AList_update_same)
qed

lemma split_at_ui:
  assumes "starts_with path ''ui.''"
  obtains ks where "split_at CHR ''.'' path = ''ui'' # ks" "ks \<noteq> []"
proof -
  from assms obtain r where "path = ''ui.'' @ r"
    unfolding starts_with_def by (metis append_take_drop_id)
  then show ?thesis using that [of "split_at CHR ''.'' r"] by simp
qed

lemma store_set_state:
  assumes "es_state s = JObj al"
  shows "es_state (store_set path v s) = setByPath (JObj al) path v"
    "session_state (store_set path v s) = Some (setByPath (JObj al) path v)"
proof -
  let ?st = "setByPath (JObj al) path v" and ?s1 = "s\<lparr>es_state := setByPath (es_state s) path v\<rparr>"
  have "es_state (applyUIState (sub ''ui'' ?st) ?s1) = ?st" if ui: "starts_with path ''ui.''"
  proof -
    from ui obtain ks where ks: "split_at CHR ''.'' path = ''ui'' # ks" "ks \<noteq> []" by (rule split_at_ui)
    obtain bl where "child al ''ui'' = JObj bl" by (rule child_JObj)
    then obtain u where u: "set_parts ks v (child al ''ui'') = JObj u" by (metis set_parts_object)
    let ?al = "AList.update ''ui'' (JObj u) al"
    have st: "?st = JObj ?al" using ks u by (simp add: setByPath_def set_parts_Cons)
    have m: "map_of ?al ''ui'' = Some (JObj u)" by (simp add: update_conv)
    show ?thesis using applyUIState_own [of ?s1 ?al u] assms st m by (simp add: sub_JObj)
  qed
  then show "es_state (store_set path v s) = ?st" "session_state (store_set path v s) = Some ?st"
    using assms by (auto simp: store_set_def persist_def Let_def)
qed

text \<open>
  Reading a path of the store after writing it gives the value written, every path that is neither an
  extension nor a prefix of it reads as before, and the session storage holds the new state.
\<close>

theorem store_get_set:
  assumes "es_state s = JObj al" "path \<noteq> []"
  shows "store_get path (store_set path v s) = Some v \<and>
    session_state (store_set path v s) = Some (es_state (store_set path v s)) \<and>
    (\<forall>q. diverge (split_at CHR ''.'' path) (split_at CHR ''.'' q) \<longrightarrow>
       store_get q (store_set path v s) = store_get q s)"
  using assms store_set_state [OF assms(1), of path v]
  by (auto simp: store_get_def getByPath_def setByPath_def get_set_parts get_set_other)

theorem store_get_set_witness:
  "let s = \<lparr>es_state = DEFAULT_STATE, es_ui = [], es_initialized = True, session_state = None, ui_storage = None,
       url_params = [], pushed = [], emitted = []\<rparr>
   in store_get ''ui.filtersOpen'' (store_set ''ui.filtersOpen'' (JBool True) s) = Some (JBool True) \<and>
      store_get ''filters.vehicle'' (store_set ''ui.filtersOpen'' (JBool True) s) = store_get ''filters.vehicle'' s"
  using store_get_set [of "\<lparr>es_state = DEFAULT_STATE, es_ui = [], es_initialized = True, session_state = None,
    ui_storage = None, url_params = [], pushed = [], emitted = []\<rparr>" "obj_fields DEFAULT_STATE"
    "''ui.filtersOpen''" "JBool True"]
  by (simp add: DEFAULT_STATE_def diverge_def)

section \<open>The address: writing it and loading it\<close>

lemma map_of_filter_key: "map_of (filter (\<lambda>p. fst p \<noteq> k) ps) = (map_of ps)(k := None)"
  by (rule ext) (induction ps, auto)

lemma map_of_params_replace: "k \<in> fst ` set ps \<Longrightarrow> map_of (params_replace k v ps) = (map_of ps)(k \<mapsto> v)"
proof (induction ps)
  case (Cons p ps)
  obtain k' v' where p: "p = (k', v')" by (cases p)
  show ?case
  proof (cases "k' = k")
    case True
    then show ?thesis by (auto simp: p map_of_filter_key fun_eq_iff)
  next
    case False
    with Cons p have "map_of (params_replace k v ps) = (map_of ps)(k \<mapsto> v)" by auto
    with False p show ?thesis by (auto simp: fun_eq_iff)
  qed
qed simp

lemma map_of_snoc_fresh: "k \<notin> fst ` set ps \<Longrightarrow> map_of (ps @ [(k, v)]) = (map_of ps)(k \<mapsto> v)"
  by (induction ps) (auto simp: fun_upd_twist)

lemma map_of_params_set [simp]: "map_of (params_set k v ps) = (map_of ps)(k \<mapsto> v)"
  by (simp add: params_set_def map_of_params_replace map_of_snoc_fresh del: map_of_append)

lemma map_of_params_delete [simp]: "map_of (params_delete k ps) = (map_of ps)(k := None)"
  by (simp add: params_delete_def map_of_filter_key)

fun link_text :: "jv option \<Rightarrow> string option" where
  "link_text (Some (JStr t)) = (if t \<noteq> [] then Some t else None)"
| "link_text _ = None"

lemma map_of_sync_param [simp]: "map_of (sync_param k v ps) = (map_of ps)(k := link_text v)"
  by (cases v rule: link_text.cases) (auto simp: sync_param_def)

lemma map_of_drop_view:
  "k \<notin> {''map_view'', ''lat'', ''lng'', ''zoom''} \<Longrightarrow>
     map_of (if b then params_delete ''zoom'' (params_delete ''lng'' (params_delete ''lat''
       (params_delete ''map_view'' ps))) else ps) k = map_of ps k"
  by simp

definition layers_text :: "jv \<Rightarrow> string option" where
  "layers_text st = (if visible_layers st = [] then None else Some (join_with CHR '','' (visible_layers st)))"

lemma map_of_synced_params:
  assumes "k \<notin> {''map_view'', ''lat'', ''lng'', ''zoom''}"
  shows "map_of (synced_params st ps) k =
    ((map_of ps)(''start'' := link_text (map_of (sub ''filters'' st) ''startDate''),
       ''end'' := link_text (map_of (sub ''filters'' st) ''endDate''),
       ''vehicle'' := link_text (map_of (sub ''filters'' st) ''vehicle''), ''layers'' := layers_text st)) k"
proof -
  define ps1 where "ps1 = sync_param ''vehicle'' (map_of (sub ''filters'' st) ''vehicle'')
    (sync_param ''end'' (map_of (sub ''filters'' st) ''endDate'')
      (sync_param ''start'' (map_of (sub ''filters'' st) ''startDate'') ps))"
  define ps2 where "ps2 = (if getExplicitMapViewFromUrl ps1 = None
    then params_delete ''zoom'' (params_delete ''lng'' (params_delete ''lat'' (params_delete ''map_view'' ps1)))
    else ps1)"
  have "synced_params st ps = (if visible_layers st \<noteq> []
      then params_set ''layers'' (join_with CHR '','' (visible_layers st)) ps2 else params_delete ''layers'' ps2)"
    unfolding synced_params_def Let_def ps2_def ps1_def by (rule refl)
  then have "map_of (synced_params st ps) = (map_of ps2)(''layers'' := layers_text st)"
    by (simp add: layers_text_def)
  moreover have "map_of ps2 k = map_of ps1 k" unfolding ps2_def by (rule map_of_drop_view [OF assms])
  ultimately show ?thesis by (simp add: ps1_def)
qed

lemma synced_params_filters:
  "map_of (synced_params st ps) ''start'' = link_text (map_of (sub ''filters'' st) ''startDate'')"
  "map_of (synced_params st ps) ''end'' = link_text (map_of (sub ''filters'' st) ''endDate'')"
  "map_of (synced_params st ps) ''vehicle'' = link_text (map_of (sub ''filters'' st) ''vehicle'')"
  "map_of (synced_params st ps) ''start_date'' = map_of ps ''start_date''"
  "map_of (synced_params st ps) ''end_date'' = map_of ps ''end_date''"
  "map_of (synced_params st ps) ''layers'' = layers_text st"
  by (simp_all add: map_of_synced_params)

subsection \<open>Lists of layers\<close>

definition plain_name :: "string \<Rightarrow> bool" where
  "plain_name n \<longleftrightarrow> n \<noteq> [] \<and> CHR '','' \<notin> set n \<and> trim n = n"

lemma foldl_update_names:
  "distinct (map fst acc @ ns) \<Longrightarrow>
     foldl (\<lambda>acc n. AList.update n v acc) acc ns = acc @ map (\<lambda>n. (n, v)) ns"
proof (induction ns arbitrary: acc)
  case (Cons n ns)
  then have "AList.update n v acc = acc @ [(n, v)]" by (intro update_fresh) auto
  then show ?case using Cons.IH [of "acc @ [(n, v)]"] Cons.prems by simp
qed simp

lemma layers_visibility_join:
  assumes "ns \<noteq> []" "distinct ns" "\<forall>n \<in> set ns. plain_name n"
  shows "layers_visibility (join_with CHR '','' ns) = JObj (map (\<lambda>n. (n, JBool True)) ns)"
proof -
  have "map trim ns = ns" using assms(3) by (simp add: plain_name_def map_idI)
  moreover have "filter (\<lambda>n. n \<noteq> []) ns = ns" using assms(3) by (auto simp: plain_name_def filter_id_conv)
  moreover have "split_at CHR '','' (join_with CHR '','' ns) = ns"
    using assms by (intro split_join) (auto simp: plain_name_def)
  ultimately show ?thesis using assms(2) foldl_update_names [of "[]" ns] by (simp add: layers_visibility_def)
qed

subsection \<open>Applying the parameters\<close>

definition is_obj :: "jv \<Rightarrow> bool" where
  "is_obj v \<longleftrightarrow> (\<exists>al. v = JObj al)"

lemma is_obj_JObj [simp]: "is_obj (JObj al)"
  by (simp add: is_obj_def)

lemma is_obj_set_parts [simp]: "is_obj st \<Longrightarrow> is_obj (set_parts ks v st)"
  unfolding is_obj_def by (metis set_parts_object)

lemma getByPath_set_parts:
  assumes "is_obj st" "q \<noteq> []"
  shows "split_at CHR ''.'' q = ks \<Longrightarrow> getByPath (set_parts ks v st) q = Some v"
    and "diverge ks (split_at CHR ''.'' q) \<Longrightarrow> getByPath (set_parts ks v st) q = getByPath st q"
  using assms by (auto simp: is_obj_def getByPath_def get_set_parts get_set_other)

lemma apply_param_obj: "is_obj st \<Longrightarrow> is_obj (fst (apply_param ps (st, c) (p, path)))"
  by (auto simp: apply_param_def setByPath_def split: option.split)

lemma apply_param_get:
  assumes "is_obj st" "q \<noteq> []"
  shows "path = q \<Longrightarrow> getByPath (fst (apply_param ps (st, c) (p, path))) q =
      (case map_of ps p of None \<Rightarrow> getByPath st q | Some t \<Rightarrow> Some (JStr t))"
    and "diverge (split_at CHR ''.'' path) (split_at CHR ''.'' q) \<Longrightarrow>
      getByPath (fst (apply_param ps (st, c) (p, path))) q = getByPath st q"
  using assms by (auto simp: apply_param_def setByPath_def getByPath_set_parts split: option.split)

definition param_value :: "params \<Rightarrow> string \<Rightarrow> jv option \<Rightarrow> string \<times> string \<Rightarrow> jv option" where
  "param_value ps q v = (\<lambda>(p, path). if path = q
     then (case map_of ps p of None \<Rightarrow> v | Some t \<Rightarrow> Some (JStr t)) else v)"

lemma fold_params_get:
  assumes "is_obj st" "q \<noteq> []"
    "\<forall>(p, path) \<in> set E. path = q \<or> diverge (split_at CHR ''.'' path) (split_at CHR ''.'' q)"
  shows "is_obj (fst (foldl (apply_param ps) (st, c) E)) \<and>
    getByPath (fst (foldl (apply_param ps) (st, c) E)) q = foldl (param_value ps q) (getByPath st q) E"
  using assms
proof (induction E arbitrary: st c)
  case (Cons e E)
  obtain p path where e: "e = (p, path)" by (cases e)
  obtain st' c' where st': "apply_param ps (st, c) e = (st', c')" by fastforce
  have o: "is_obj st'" using apply_param_obj [OF Cons.prems(1), of ps c p path] st' e by simp
  have "getByPath st' q = param_value ps q (getByPath st q) e"
  proof (cases "path = q")
    case True
    then show ?thesis using apply_param_get(1) [OF Cons.prems(1,2) True, of ps c p] st' e
      by (simp add: param_value_def)
  next
    case False
    with Cons.prems(3) e have "diverge (split_at CHR ''.'' path) (split_at CHR ''.'' q)" by auto
    from apply_param_get(2) [OF Cons.prems(1,2) this, of ps c p] False st' e show ?thesis
      by (simp add: param_value_def)
  qed
  moreover have "\<forall>(p, path) \<in> set E. path = q \<or> diverge (split_at CHR ''.'' path) (split_at CHR ''.'' q)"
    using Cons.prems(3) by simp
  ultimately show ?case using Cons.IH [OF o Cons.prems(2)] st' by simp
qed simp

lemma applyUrlParams_state:
  assumes "is_obj (es_state s)"
  obtains st2 where
    "es_state (applyUrlParams ps opts s) = (case map_of ps ''layers'' of None \<Rightarrow> st2
       | Some t \<Rightarrow> set_parts [''layers'', ''visibility''] (layers_visibility t) st2)"
    "is_obj st2"
    "\<And>q. q \<in> {''filters.startDate'', ''filters.endDate'', ''filters.vehicle'', ''layers.visibility''} \<Longrightarrow>
       getByPath st2 q = foldl (param_value ps q) (getByPath (es_state s) q) URL_PARAM_MAP"
proof -
  obtain st1 fc where f: "foldl (apply_param ps) (es_state s, False) URL_PARAM_MAP = (st1, fc)" by fastforce
  define st2 where "st2 = (case getExplicitMapViewFromUrl ps of None \<Rightarrow> st1
    | Some v \<Rightarrow> set_parts [''map'', ''view''] v st1)"
  have st: "es_state (applyUrlParams ps opts s) = (case map_of ps ''layers'' of None \<Rightarrow> st2
       | Some t \<Rightarrow> set_parts [''layers'', ''visibility''] (layers_visibility t) st2)"
    unfolding st2_def by (simp add: applyUrlParams_def f Let_def persist_def emit_event_def)
  have g: "is_obj st1 \<and> getByPath st1 q = foldl (param_value ps q) (getByPath (es_state s) q) URL_PARAM_MAP"
    if "q \<in> {''filters.startDate'', ''filters.endDate'', ''filters.vehicle'', ''layers.visibility''}" for q
    using fold_params_get [OF assms, of q URL_PARAM_MAP ps False] that f
    by (auto simp: URL_PARAM_MAP_def diverge_def)
  then have "is_obj st1" by blast
  then have "is_obj st2" by (simp add: st2_def split: option.split)
  moreover have "getByPath st2 q = getByPath st1 q"
    if "q \<in> {''filters.startDate'', ''filters.endDate'', ''filters.vehicle'', ''layers.visibility''}" for q
    unfolding st2_def using that \<open>is_obj st1\<close>
    by (auto split: option.split intro!: getByPath_set_parts(2) simp: diverge_def)
  ultimately show ?thesis using that [OF st] g by metis
qed

section \<open>Opening the address in a new tab\<close>

text \<open>A new store on an address, with empty storages.\<close>

definition fresh_store :: "params \<Rightarrow> es_store" where
  "fresh_store ps = loadPersistedUIState
     \<lparr>es_state = DEFAULT_STATE, es_ui = [(''controlsMinimized'', JBool False), (''filtersOpen'', JBool False),
        (''lastFilterPreset'', JNull)], es_initialized = False, session_state = None, ui_storage = None,
      url_params = ps, pushed = [], emitted = []\<rparr>"

lemma fresh_store_simps [simp]:
  "es_initialized (fresh_store ps) = False" "session_state (fresh_store ps) = None"
  "url_params (fresh_store ps) = ps"
  by (simp_all add: fresh_store_def loadPersistedUIState_def)

lemma url_params_applyUIState [simp]: "url_params (applyUIState p s) = url_params s"
  by (simp add: applyUIState_def Let_def)

lemma init_fresh:
  "\<exists>s. es_state s = DEFAULT_STATE \<and> es_state (store_init (fresh_store ps)) =
     es_state (applyUrlParams ps \<lparr>uo_persist = True, uo_emit = False, uo_source = None\<rparr> s)"
proof -
  let ?s1 = "(fresh_store ps)\<lparr>es_state := DEFAULT_STATE\<rparr>"
  let ?s2 = "applyUIState (sub ''ui'' DEFAULT_STATE) ?s1"
  obtain u where ui: "map_of (obj_fields DEFAULT_STATE) ''ui'' = Some (JObj u)" by (simp add: DEFAULT_STATE_def)
  have d: "DEFAULT_STATE = JObj (obj_fields DEFAULT_STATE)" by (simp add: DEFAULT_STATE_def)
  then have u: "sub ''ui'' DEFAULT_STATE = u" using sub_JObj [OF ui] by simp
  have "es_state ?s2 = DEFAULT_STATE" unfolding u using applyUIState_own [of ?s1, OF _ ui] d by simp
  then show ?thesis by (intro exI [of _ ?s2]) (simp add: store_init_def Let_def persist_def)
qed

lemma default_paths:
  "getByPath DEFAULT_STATE ''filters.startDate'' = Some JNull"
  "getByPath DEFAULT_STATE ''filters.endDate'' = Some JNull"
  "getByPath DEFAULT_STATE ''filters.vehicle'' = Some JNull"
  "getByPath DEFAULT_STATE ''layers.visibility'' = Some (JObj [])"
  by (simp_all add: getByPath_def DEFAULT_STATE_def)

lemma opened_link:
  fixes ps
  defines "s \<equiv> store_init (fresh_store ps)"
  shows "store_get ''filters.startDate'' s = Some (case map_of ps ''start_date'' of Some t \<Rightarrow> JStr t
      | None \<Rightarrow> (case map_of ps ''start'' of Some t \<Rightarrow> JStr t | None \<Rightarrow> JNull))"
    and "store_get ''filters.endDate'' s = Some (case map_of ps ''end_date'' of Some t \<Rightarrow> JStr t
      | None \<Rightarrow> (case map_of ps ''end'' of Some t \<Rightarrow> JStr t | None \<Rightarrow> JNull))"
    and "store_get ''filters.vehicle'' s = Some (case map_of ps ''vehicle'' of Some t \<Rightarrow> JStr t | None \<Rightarrow> JNull)"
    and "store_get ''layers.visibility'' s =
      Some (case map_of ps ''layers'' of None \<Rightarrow> JObj [] | Some t \<Rightarrow> layers_visibility t)"
proof -
  let ?opts = "\<lparr>uo_persist = True, uo_emit = False, uo_source = None\<rparr>"
  obtain s0 where s0: "es_state s0 = DEFAULT_STATE" "es_state s = es_state (applyUrlParams ps ?opts s0)"
    using init_fresh s_def by blast
  have "is_obj (es_state s0)" by (simp add: s0 DEFAULT_STATE_def)
  then obtain st2 where st: "es_state s = (case map_of ps ''layers'' of None \<Rightarrow> st2
       | Some t \<Rightarrow> set_parts [''layers'', ''visibility''] (layers_visibility t) st2)"
    and o: "is_obj st2"
    and g: "\<And>q. q \<in> {''filters.startDate'', ''filters.endDate'', ''filters.vehicle'', ''layers.visibility''} \<Longrightarrow>
       getByPath st2 q = foldl (param_value ps q) (getByPath DEFAULT_STATE q) URL_PARAM_MAP"
    unfolding s0(2) by (rule applyUrlParams_state [of s0 ps ?opts]) (simp add: s0(1))
  have f: "store_get q s = getByPath st2 q"
    if "q \<in> {''filters.startDate'', ''filters.endDate'', ''filters.vehicle''}" for q
    unfolding store_get_def st using that o
    by (auto split: option.split intro!: getByPath_set_parts(2) simp: diverge_def)
  show "store_get ''filters.startDate'' s = Some (case map_of ps ''start_date'' of Some t \<Rightarrow> JStr t
      | None \<Rightarrow> (case map_of ps ''start'' of Some t \<Rightarrow> JStr t | None \<Rightarrow> JNull))"
    by (simp add: f g URL_PARAM_MAP_def param_value_def default_paths split: option.split)
  show "store_get ''filters.endDate'' s = Some (case map_of ps ''end_date'' of Some t \<Rightarrow> JStr t
      | None \<Rightarrow> (case map_of ps ''end'' of Some t \<Rightarrow> JStr t | None \<Rightarrow> JNull))"
    by (simp add: f g URL_PARAM_MAP_def param_value_def default_paths split: option.split)
  show "store_get ''filters.vehicle'' s = Some (case map_of ps ''vehicle'' of Some t \<Rightarrow> JStr t | None \<Rightarrow> JNull)"
    by (simp add: f g URL_PARAM_MAP_def param_value_def default_paths split: option.split)
  show "store_get ''layers.visibility'' s =
      Some (case map_of ps ''layers'' of None \<Rightarrow> JObj [] | Some t \<Rightarrow> layers_visibility t)"
  proof (cases "map_of ps ''layers''")
    case None
    then show ?thesis unfolding store_get_def st
      by (simp add: g URL_PARAM_MAP_def param_value_def default_paths)
  next
    case (Some t)
    then show ?thesis unfolding store_get_def st using o by (simp add: getByPath_set_parts(1))
  qed
qed

lemma visible_layers_path:
  assumes "getByPath st ''layers.visibility'' = Some (JObj vis)"
  shows "visible_layers st = map fst (filter (\<lambda>(k, v). truthy v) vis)"
proof -
  from assms obtain l where l: "field_of st ''layers'' = Some l" "truthy l" "field_of l ''visibility'' = Some (JObj vis)"
    by (auto simp: getByPath_def get_step_def split: option.splits if_splits)
  then show ?thesis by (cases l) (simp_all add: visible_layers_def sub_def)
qed

text \<open>What of a filter the address carries: a non-empty text, else nothing.\<close>

definition link_value :: "jv option \<Rightarrow> jv" where
  "link_value v = (case link_text v of None \<Rightarrow> JNull | Some t \<Rightarrow> JStr t)"

text \<open>
  C22. What the address written by \<open>syncUrl\<close> gives when it is opened in a new tab. The vehicle is the
  same (an empty text becoming null). The start date is the same, unless the address already had a
  \<open>start_date\<close> parameter: \<open>syncUrl\<close> leaves that one in place and it wins over the date written
  (\<open>stale_date_wins\<close>); likewise the end date with \<open>end_date\<close>. If the visible layers have distinct names
  that are not empty and have no commas and no outer spaces, the new store has the same visible layers in
  the same order.
\<close>

theorem address_roundtrip:
  "let t = store_init (fresh_store (url_params (syncUrl push s))); f = sub ''filters'' (es_state s)
   in store_get ''filters.startDate'' t = Some (case map_of (url_params s) ''start_date'' of
          None \<Rightarrow> link_value (map_of f ''startDate'') | Some d \<Rightarrow> JStr d) \<and>
      store_get ''filters.endDate'' t = Some (case map_of (url_params s) ''end_date'' of
          None \<Rightarrow> link_value (map_of f ''endDate'') | Some d \<Rightarrow> JStr d) \<and>
      store_get ''filters.vehicle'' t = Some (link_value (map_of f ''vehicle'')) \<and>
      (distinct (visible_layers (es_state s)) \<and> (\<forall>n \<in> set (visible_layers (es_state s)). plain_name n) \<longrightarrow>
        visible_layers (es_state t) = visible_layers (es_state s))"
proof -
  let ?ps = "url_params (syncUrl push s)" and ?ls = "visible_layers (es_state s)"
  let ?t = "store_init (fresh_store ?ps)"
  have ps: "?ps = synced_params (es_state s) (url_params s)" by (simp add: syncUrl_def Let_def)
  note l = opened_link [of ?ps, unfolded ps synced_params_filters, folded ps]
  have "visible_layers (es_state ?t) = ?ls" if "distinct ?ls" "\<forall>n \<in> set ?ls. plain_name n"
  proof -
    have "getByPath (es_state ?t) ''layers.visibility'' = Some (JObj (map (\<lambda>n. (n, JBool True)) ?ls))"
      using l(4) layers_visibility_join [OF _ that] by (auto simp: store_get_def layers_text_def)
    then show ?thesis by (simp add: visible_layers_path filter_map o_def)
  qed
  with l(1-3) show ?thesis by (simp add: Let_def link_value_def split: option.split)
qed

theorem address_roundtrip_witness:
  "let s = (fresh_store [(''tab'', ''map'')])\<lparr>es_state := JObj
        [(''filters'', JObj [(''startDate'', JStr ''2024-01-01''), (''endDate'', JNull), (''vehicle'', JStr ''imei'')]),
         (''layers'', JObj [(''visibility'', JObj [(''trips'', JBool True), (''streets'', JBool False),
            (''matchedTrips'', JBool True)])])]\<rparr>;
       t = store_init (fresh_store (url_params (syncUrl False s)))
   in store_get ''filters.startDate'' t = Some (JStr ''2024-01-01'') \<and>
      store_get ''filters.endDate'' t = Some JNull \<and> store_get ''filters.vehicle'' t = Some (JStr ''imei'') \<and>
      visible_layers (es_state t) = [''trips'', ''matchedTrips'']"
  using address_roundtrip [of False "(fresh_store [(''tab'', ''map'')])\<lparr>es_state := JObj
        [(''filters'', JObj [(''startDate'', JStr ''2024-01-01''), (''endDate'', JNull), (''vehicle'', JStr ''imei'')]),
         (''layers'', JObj [(''visibility'', JObj [(''trips'', JBool True), (''streets'', JBool False),
            (''matchedTrips'', JBool True)])])]\<rparr>"]
  by (simp add: visible_layers_def sub_def plain_name_def trim_def is_space_def link_value_def Let_def)

text \<open>
  The parameters \<open>start_date\<close> and \<open>end_date\<close> of an address are read after \<open>start\<close> and \<open>end\<close> and
  never removed: once a page was opened with \<open>start_date=d\<close>, changing the start date writes the new
  date into the address, but opening that address again gives the old date \<open>d\<close>.
\<close>

theorem stale_date_wins:
  assumes "map_of (url_params s) ''start_date'' = Some d"
    and "es_state s = JObj al" "map_of al ''filters'' = Some (JObj f)" "new \<noteq> []"
  shows "let t = updateFilters [(''startDate'', JStr new)] default_update s
    in store_get ''filters.startDate'' t = Some (JStr new) \<and> map_of (url_params t) ''start'' = Some new \<and>
       store_get ''filters.startDate'' (store_init (fresh_store (url_params t))) = Some (JStr d)"
proof -
  define st where "st = set_parts [''filters''] (JObj (spread f [(''startDate'', JStr new)])) (es_state s)"
  let ?t = "updateFilters [(''startDate'', JStr new)] default_update s"
  have t: "es_state ?t = st" "url_params ?t = synced_params st (url_params s)"
    using assms by (simp_all add: updateFilters_def default_update_def Let_def syncUrl_def persist_def
      emit_event_def st_def sub_JObj)
  have sf: "sub ''filters'' st = AList.update ''startDate'' (JStr new) f"
    using assms by (simp add: st_def spread_def sub_def update_conv)
  have 1: "store_get ''filters.startDate'' ?t = Some (JStr new)"
    using assms by (simp add: store_get_def t getByPath_def) (simp add: st_def spread_def update_conv)
  have 2: "map_of (url_params ?t) ''start'' = Some new"
    using assms by (simp add: t synced_params_filters sf update_conv)
  have "map_of (url_params ?t) ''start_date'' = Some d" by (simp add: t synced_params_filters assms)
  then have 3: "store_get ''filters.startDate'' (store_init (fresh_store (url_params ?t))) = Some (JStr d)"
    by (simp add: opened_link)
  from 1 2 3 show ?thesis by (simp add: Let_def)
qed

theorem stale_date_wins_witness:
  "let s = store_init (fresh_store [(''start_date'', ''2020-01-01'')]);
       t = updateFilters [(''startDate'', JStr ''2024-05-05'')] default_update s
   in store_get ''filters.startDate'' t = Some (JStr ''2024-05-05'') \<and>
      store_get ''filters.startDate'' (store_init (fresh_store (url_params t))) = Some (JStr ''2020-01-01'')"
proof -
  let ?s = "store_init (fresh_store [(''start_date'', ''2020-01-01'')])"
  have "url_params ?s = [(''start_date'', ''2020-01-01'')] \<and> (\<exists>al f. es_state ?s = JObj al \<and>
      map_of al ''filters'' = Some (JObj f))"
    by (simp add: store_init_def fresh_store_def loadPersistedUIState_def persist_def applyUrlParams_def
      URL_PARAM_MAP_def apply_param_def getExplicitMapViewFromUrl_def emit_event_def applyUIState_def
      DEFAULT_STATE_def getByPath_def setByPath_def child_def starts_with_def Let_def)
  then obtain al f where "url_params ?s = [(''start_date'', ''2020-01-01'')]" "es_state ?s = JObj al"
    "map_of al ''filters'' = Some (JObj f)" by blast
  then show ?thesis using stale_date_wins [of ?s "''2020-01-01''" al f "''2024-05-05''"] by (simp add: Let_def)
qed

end
