(* ===== verification/StoreShape.thy ===== *)
theory StoreShape
  imports Store
begin

text \<open>
  The shape of the state tree of \<open>core/store.js\<close>. The methods of \<open>ESStore\<close> read \<open>this.state.filters.x\<close>,
  \<open>this.state.ui.x\<close>, \<open>this.state.map\<close> and \<open>this.state.layers.visibility\<close> without a test; the shape
  says that those reads never fail. It is kept by every operation, across page loads that find the state
  of an earlier page in the session storage, as long as no caller of \<open>set\<close> replaces one of these objects
  by something else.
\<close>

section \<open>The shape and the writes that keep it\<close>

definition shape_paths :: "string list list" where
  "shape_paths = [[''filters''], [''map''], [''layers''], [''ui''], [''layers'', ''visibility'']]"

fun keys_distinct :: "jv \<Rightarrow> bool" where
  "keys_distinct (JObj al) = distinct (map fst al)"
| "keys_distinct _ = True"

definition shape :: "jv \<Rightarrow> bool" where
  "shape st \<longleftrightarrow> is_obj st \<and> keys_distinct st \<and>
     (\<forall>q \<in> set shape_paths. \<exists>v. foldl get_step (Some st) q = Some v \<and> is_obj v)"

definition safe_parts :: "string list \<Rightarrow> jv \<Rightarrow> bool" where
  "safe_parts p v \<longleftrightarrow> (\<forall>q \<in> set shape_paths.
     diverge p q \<or> take (length q) p = q \<and> length q < length p \<or> p = q \<and> is_obj v)"

lemma get_set_below:
  "ks \<noteq> [] \<Longrightarrow> r \<noteq> [] \<Longrightarrow> \<exists>u. foldl get_step (Some (set_parts (ks @ r) v (JObj al))) ks = Some u \<and> is_obj u"
proof (induction ks arbitrary: al)
  case (Cons k ks)
  obtain bl where bl: "child al k = JObj bl" by (rule child_JObj)
  show ?case
  proof (cases "ks = []")
    case True
    with Cons.prems bl show ?thesis by (simp add: set_parts_Cons update_conv)
  next
    case False
    with Cons.IH [of bl] Cons.prems bl show ?thesis by (simp add: set_parts_Cons update_conv)
  qed
qed simp

lemma keys_distinct_set_parts: "keys_distinct (JObj al) \<Longrightarrow> keys_distinct (set_parts p v (JObj al))"
  by (cases p rule: remdups_adj.cases) (auto intro: distinct_update)

lemma shape_set_parts:
  assumes "shape st" "safe_parts p v"
  shows "shape (set_parts p v st)"
proof -
  from assms(1) obtain al where st: "st = JObj al" by (auto simp: shape_def is_obj_def)
  have "\<exists>u. foldl get_step (Some (set_parts p v st)) q = Some u \<and> is_obj u" if q: "q \<in> set shape_paths" for q
  proof -
    have ne: "q \<noteq> []" using q by (auto simp: shape_paths_def)
    from q assms(2) consider "diverge p q" | "take (length q) p = q" "length q < length p" | "p = q" "is_obj v"
      by (auto simp: safe_parts_def)
    then show ?thesis
    proof cases
      case 1
      then show ?thesis using assms(1) q by (simp add: st get_set_other shape_def)
    next
      case 2
      then have "p = q @ drop (length q) p" "drop (length q) p \<noteq> []" by (metis append_take_drop_id) (use 2 in simp)
      then show ?thesis unfolding st using get_set_below [OF ne] by metis
    next
      case 3
      then show ?thesis using ne by (simp add: st get_set_parts)
    qed
  qed
  moreover have "keys_distinct (set_parts p v st)" using assms(1) keys_distinct_set_parts by (simp add: st shape_def)
  ultimately show ?thesis using st by (simp add: shape_def)
qed

lemma safe_filters [simp]: "safe_parts [''filters''] (JObj f)" "safe_parts [''filters'', k] v"
  and safe_ui [simp]: "safe_parts [''ui''] (JObj f)"
  and safe_view [simp]: "safe_parts [''map'', ''view''] v"
  and safe_visibility [simp]: "safe_parts [''layers'', ''visibility''] (JObj f)"
  by (simp_all add: safe_parts_def shape_paths_def diverge_def)

lemma shape_default: "shape DEFAULT_STATE"
  by (simp add: shape_def shape_paths_def DEFAULT_STATE_def)

lemma map_of_spread: "distinct (map fst b) \<Longrightarrow> map_of (spread a b) k = (case map_of b k of None \<Rightarrow> map_of a k | Some v \<Rightarrow> Some v)"
proof (induction b arbitrary: a)
  case Nil
  then show ?case by (simp add: spread_def)
next
  case (Cons p b)
  obtain k' v' where p: "p = (k', v')" by (cases p)
  have "map_of (spread a (p # b)) k = map_of (spread (AList.update k' v' a) b) k" by (simp add: spread_def p)
  also have "\<dots> = (case map_of b k of None \<Rightarrow> map_of (AList.update k' v' a) k | Some v \<Rightarrow> Some v)"
    using Cons by simp
  finally have *: "map_of (spread a (p # b)) k =
    (case map_of b k of None \<Rightarrow> map_of (AList.update k' v' a) k | Some v \<Rightarrow> Some v)" .
  have "k = k' \<Longrightarrow> map_of b k = None" using Cons.prems p by (simp add: map_of_eq_None_iff)
  then show ?case unfolding * by (cases "k = k'") (auto simp: p update_conv split: option.split)
qed

lemma distinct_spread: "distinct (map fst a) \<Longrightarrow> distinct (map fst (spread a b))"
  by (induction b arbitrary: a) (auto simp: spread_def distinct_update)

lemma shape_spread:
  assumes "shape (JObj b)" "distinct (map fst a)"
  shows "shape (JObj (spread a b))"
proof -
  have d: "distinct (map fst b)" using assms(1) by (simp add: shape_def)
  have "foldl get_step (Some (JObj (spread a b))) q = foldl get_step (Some (JObj b)) q"
    if q: "q \<in> set shape_paths" for q
  proof -
    obtain k r where kr: "q = k # r" using q by (auto simp: shape_paths_def)
    have "map_of b k \<noteq> None"
    proof
      assume "map_of b k = None"
      then have "foldl get_step (Some (JObj b)) q = None" by (simp add: kr)
      with assms(1) q show False by (auto simp: shape_def)
    qed
    then show ?thesis using d by (auto simp: kr map_of_spread)
  qed
  then show ?thesis using assms by (simp add: shape_def distinct_spread)
qed

section \<open>Sequences of operations\<close>

text \<open>A new page on an address: the session storage and the local storage are those of the last page.\<close>

definition reload :: "params \<Rightarrow> es_store \<Rightarrow> es_store" where
  "reload ps s = store_init (loadPersistedUIState
     ((fresh_store ps)\<lparr>session_state := session_state s, ui_storage := ui_storage s\<rparr>))"

datatype store_op =
    OpSet string jv
  | OpFilters "(string \<times> jv) list" update_options
  | OpMapView jv update_options
  | OpLayers "(string \<times> jv) list" update_options
  | OpUrl params url_options
  | OpSaveUI
  | OpReload params

fun store_step :: "es_store \<Rightarrow> store_op \<Rightarrow> es_store" where
  "store_step s (OpSet path v) = store_set path v s"
| "store_step s (OpFilters f opts) = updateFilters f opts s"
| "store_step s (OpMapView v opts) = updateMapView v opts s"
| "store_step s (OpLayers vis opts) = updateLayerVisibility vis opts s"
| "store_step s (OpUrl ps opts) = applyUrlParams ps opts s"
| "store_step s OpSaveUI = saveUIState s"
| "store_step s (OpReload ps) = reload ps s"

fun safe_op :: "store_op \<Rightarrow> bool" where
  "safe_op (OpSet path v) = safe_parts (split_at CHR ''.'' path) v"
| "safe_op _ = True"

definition good_store :: "es_store \<Rightarrow> bool" where
  "good_store s \<longleftrightarrow> shape (es_state s) \<and> (\<forall>v. session_state s = Some v \<longrightarrow> shape v)"

lemma good_persist: "good_store s \<Longrightarrow> good_store (persist s)"
  by (simp add: good_store_def persist_def)

lemma good_emit: "good_store (emit_event e s) = good_store s"
  by (simp add: good_store_def emit_event_def)

lemma good_syncUrl: "good_store (syncUrl push s) = good_store s"
  by (simp add: good_store_def syncUrl_def Let_def)

lemma good_write: "good_store s \<Longrightarrow> safe_parts p v \<Longrightarrow> good_store (s\<lparr>es_state := set_parts p v (es_state s)\<rparr>)"
  by (simp add: good_store_def shape_set_parts)

lemma good_applyUIState: "good_store s \<Longrightarrow> good_store (applyUIState p s)"
  by (simp add: applyUIState_def Let_def good_store_def shape_set_parts)

lemma good_loadPersisted: "good_store s \<Longrightarrow> good_store (loadPersistedUIState s)"
  by (auto simp: loadPersistedUIState_def good_applyUIState split: option.split jv.split)

lemma shape_apply_param:
  assumes "shape st" "\<exists>k. split_at CHR ''.'' path = [''filters'', k]"
  shows "shape (fst (apply_param ps (st, c) (p, path)))"
  using assms by (auto simp: apply_param_def setByPath_def shape_set_parts split: option.split)

lemma shape_fold_params:
  "shape st \<Longrightarrow> \<forall>(p, path) \<in> set E. \<exists>k. split_at CHR ''.'' path = [''filters'', k] \<Longrightarrow>
     shape (fst (foldl (apply_param ps) (st, c) E))"
proof (induction E arbitrary: st c)
  case (Cons e E)
  obtain p path where e: "e = (p, path)" by (cases e)
  obtain st' c' where st': "apply_param ps (st, c) e = (st', c')" by fastforce
  have "shape st'" using shape_apply_param [of st path ps c p] Cons.prems st' e by auto
  then show ?case using Cons st' by simp
qed simp

lemma url_paths: "\<forall>(p, path) \<in> set URL_PARAM_MAP. \<exists>k. split_at CHR ''.'' path = [''filters'', k]"
  by (simp add: URL_PARAM_MAP_def)

lemma good_applyUrlParams: assumes "good_store s" shows "good_store (applyUrlParams ps opts s)"
proof -
  obtain st1 fc where f: "foldl (apply_param ps) (es_state s, False) URL_PARAM_MAP = (st1, fc)" by fastforce
  have 1: "shape st1" using shape_fold_params [OF _ url_paths, of "es_state s" ps False] assms f
    by (simp add: good_store_def)
  define st2 where "st2 = (case getExplicitMapViewFromUrl ps of None \<Rightarrow> st1
    | Some v \<Rightarrow> set_parts [''map'', ''view''] v st1)"
  define st3 where "st3 = (case map_of ps ''layers'' of None \<Rightarrow> st2
    | Some t \<Rightarrow> set_parts [''layers'', ''visibility''] (layers_visibility t) st2)"
  have "shape st2" unfolding st2_def using 1 by (simp add: shape_set_parts split: option.split)
  then have "shape st3" unfolding st3_def by (simp add: shape_set_parts layers_visibility_def split: option.split)
  then have "good_store (s\<lparr>es_state := st3\<rparr>)" using assms by (simp add: good_store_def)
  then show ?thesis
    unfolding applyUrlParams_def f Let_def prod.case st2_def [symmetric] st3_def [symmetric]
    by (simp add: good_emit good_persist)
qed

lemma good_init: assumes "\<forall>v. session_state s = Some v \<longrightarrow> shape v" "good_store s" shows "good_store (store_init s)"
proof (cases "es_initialized s")
  case False
  define st where "st = (case session_state s of
    Some (JObj saved) \<Rightarrow> JObj (spread (obj_fields DEFAULT_STATE) saved) | _ \<Rightarrow> DEFAULT_STATE)"
  have "distinct (map fst (obj_fields DEFAULT_STATE))" by (simp add: DEFAULT_STATE_def)
  then have "shape st" using assms(1) by (auto simp: st_def shape_default intro: shape_spread split: option.split jv.split)
  then have "good_store (s\<lparr>es_state := st\<rparr>)" using assms(1) by (simp add: good_store_def)
  then have "good_store (persist (applyUrlParams ps opts (applyUIState u (s\<lparr>es_state := st\<rparr>))))" for ps opts u
    by (intro good_persist good_applyUrlParams good_applyUIState)
  moreover have "good_store (x\<lparr>es_initialized := b\<rparr>) = good_store x" for x b by (simp add: good_store_def)
  ultimately show ?thesis using False unfolding store_init_def st_def Let_def by simp
qed (use assms in \<open>simp add: store_init_def\<close>)

lemma good_fresh: "good_store (fresh_store ps)"
  by (simp add: fresh_store_def good_store_def loadPersistedUIState_def shape_default)

lemma good_reload: assumes "good_store s" shows "good_store (reload ps s)"
proof -
  have "good_store ((fresh_store ps)\<lparr>session_state := session_state s, ui_storage := ui_storage s\<rparr>)"
    using assms good_fresh [of ps] by (simp add: good_store_def)
  from good_loadPersisted [OF this] show ?thesis unfolding reload_def by (intro good_init) (auto simp: good_store_def)
qed

lemma good_set:
  assumes "good_store s" "safe_parts (split_at CHR ''.'' path) v"
  shows "good_store (store_set path v s)"
proof -
  have "good_store (s\<lparr>es_state := setByPath (es_state s) path v\<rparr>)"
    unfolding setByPath_def by (rule good_write [OF assms])
  then show ?thesis unfolding store_set_def Let_def by (auto intro!: good_persist good_applyUIState)
qed

lemma good_saveUI: "good_store (saveUIState s) = good_store s"
  by (simp add: good_store_def saveUIState_def)

lemma good_updateFilters: "good_store s \<Longrightarrow> good_store (updateFilters f opts s)"
  unfolding updateFilters_def Let_def by (simp add: good_emit good_syncUrl good_persist good_write)

lemma good_updateMapView: "good_store s \<Longrightarrow> good_store (updateMapView v opts s)"
  unfolding updateMapView_def Let_def by (simp add: good_emit good_persist good_write)

lemma good_updateLayerVisibility: "good_store s \<Longrightarrow> good_store (updateLayerVisibility vis opts s)"
  unfolding updateLayerVisibility_def Let_def by (simp add: good_emit good_syncUrl good_persist good_write)

lemma good_step: "good_store s \<Longrightarrow> safe_op op \<Longrightarrow> good_store (store_step s op)"
  by (cases op) (simp_all add: good_set good_reload good_applyUrlParams good_updateFilters good_updateMapView
      good_updateLayerVisibility good_saveUI)

text \<open>Stores and the operations that keep their shape, as an event system.\<close>

definition store_start :: "es_store \<Rightarrow> bool" where
  "store_start s \<longleftrightarrow> (\<exists>ps. s = fresh_store ps)"

definition store_event :: "es_store \<Rightarrow> store_op \<Rightarrow> es_store \<Rightarrow> bool" where
  "store_event s op t \<longleftrightarrow> safe_op op \<and> t = store_step s op"

interpretation store_events: event_system store_start store_event good_store
  by unfold_locales (auto simp: store_start_def store_event_def good_fresh good_step)

lemma run_reach:
  "list_all safe_op ops \<Longrightarrow> reach store_start store_event s \<Longrightarrow>
     reach store_start store_event (foldl store_step s ops)"
proof (induction ops arbitrary: s)
  case (Cons op ops)
  have "store_event s op (store_step s op)" using Cons.prems(1) by (simp add: store_event_def)
  with Cons.prems(2) have "reach store_start store_event (store_step s op)" by (rule reach_step)
  then show ?case using Cons by simp
qed simp

text \<open>
  C23. The state tree keeps its type: after any sequence of filter, map view, layer and path updates, address
  changes and page loads, \<open>filters\<close>, \<open>map\<close>, \<open>layers\<close>, \<open>ui\<close> and \<open>layers.visibility\<close> are objects, in the
  store and in the session storage, provided no \<open>set\<close> overwrites one of them with a non-object.
\<close>

theorem store_shape_kept:
  assumes "list_all safe_op ops" "q \<in> {''filters'', ''map'', ''layers'', ''ui'', ''layers.visibility''}"
  shows "\<exists>al. store_get q (foldl store_step (fresh_store ps) ops) = Some (JObj al)"
proof -
  have "good_store (foldl store_step (fresh_store ps) ops)"
    by (rule store_events.reachable_inv, rule run_reach [OF assms(1)], rule reach_init) (auto simp: store_start_def)
  then show ?thesis using assms(2)
    by (auto simp: good_store_def shape_def shape_paths_def store_get_def getByPath_def is_obj_def)
qed

theorem store_shape_kept_witness:
  "\<exists>al. store_get ''layers.visibility'' (foldl store_step (fresh_store [(''layers'', ''trips'')])
     [OpReload [(''layers'', ''trips'')], OpSet ''map.style'' (JStr ''dark''),
      OpLayers [(''trips'', JBool False)] default_update, OpReload []]) = Some (JObj al)"
  by (rule store_shape_kept) (simp_all add: safe_parts_def shape_paths_def diverge_def)

end
