(* ===== verification/ApiClient.thy ===== *)
theory ApiClient
  imports JSBase
begin

text \<open>
  The HTTP client of the front end, \<open>static/js/modules/core/api-client.js\<close> (class \<open>APIClient\<close>), and
  the request of the route's GPX text of \<open>live-navigation-api.js\<close> that goes through it.

  \<^item> The network is a parameter: \<open>net i\<close> is what the \<open>i\<close>-th call of \<open>fetch\<close> of one request gives, a
    response, a network failure (a \<open>TypeError\<close> with the browser's message) or an abort.
  \<^item> A response carries its status, content type, the text of its body (when it can be read) and what
    \<open>JSON.parse\<close> makes of it (when it parses): a value of the type \<open>'d\<close>, of which the client only
    reads the three error fields.
  \<^item> \<open>late\<close> says that the timeout fired before the request settled; \<open>fetch\<close> then gives an abort. An
    abort while the body is read, and the parser's own message, are not modelled.
\<close>

section \<open>Data\<close>

record 'd http_response =
  status :: nat
  statusText :: string
  content_type :: "string option"
  body_text :: "string option"
  body_json :: "'d option"

datatype 'd fetch_result = Response "'d http_response" | NetworkError string | Aborted

record api_error =
  ae_name :: string
  ae_message :: string
  ae_status :: "nat option"

datatype 'd payload = Json 'd | PText string | PBlob | PNull

record 'd cache_entry =
  ce_data :: "'d payload"
  ce_timestamp :: int
  ce_duration :: int

text \<open>Whether the data in the cache is truthy: an empty text is not, and of the parsed values \<open>'d\<close> those
  the parameter \<open>tr\<close> says.\<close>

fun payload_truthy :: "('d \<Rightarrow> bool) \<Rightarrow> 'd payload \<Rightarrow> bool" where
  "payload_truthy tr (Json d) = tr d"
| "payload_truthy tr (PText t) = (t \<noteq> [])"
| "payload_truthy tr PBlob = True"
| "payload_truthy tr PNull = False"

definition retryAttempts :: nat where "retryAttempts = 3"
definition retryDelay :: nat where "retryDelay = 1000"
definition defaultCacheDuration :: int where "defaultCacheDuration = 5 * 60 * 1000"

definition response_ok :: "'d http_response \<Rightarrow> bool" where
  "response_ok r \<longleftrightarrow> 200 \<le> status r \<and> status r \<le> 299"

definition network_failure :: "string \<Rightarrow> api_error" where
  "network_failure m = \<lparr>ae_name = ''TypeError'', ae_message = m, ae_status = None\<rparr>"

definition abort_error :: api_error where
  "abort_error = \<lparr>ae_name = ''AbortError'', ae_message = ''The operation was aborted.'', ae_status = None\<rparr>"

section \<open>Retries\<close>

text \<open>
  \<open>_fetchWithRetry\<close> from attempt \<open>i\<close> on: the result and the delays waited before further attempts.
\<close>

function fetchFrom ::
  "(nat \<Rightarrow> 'd fetch_result) \<Rightarrow> nat \<Rightarrow> nat \<Rightarrow> (api_error + 'd http_response) \<times> nat list" where
  "fetchFrom net attempts i =
     (if i < attempts then
        (case net i of
           Response r \<Rightarrow>
             if response_ok r \<or> (400 \<le> status r \<and> status r < 500) then (Inr r, [])
             else if i < attempts - 1 then
               let (res, ds) = fetchFrom net attempts (Suc i) in (res, retryDelay * 2 ^ i # ds)
             else (Inr r, [])
         | NetworkError m \<Rightarrow>
             if i < attempts - 1 then
               let (res, ds) = fetchFrom net attempts (Suc i) in (res, retryDelay * 2 ^ i # ds)
             else (Inl (network_failure m), [])
         | Aborted \<Rightarrow> (Inl abort_error, []))
      else (Inl \<lparr>ae_name = ''Error'', ae_message = ''Retry attempts exhausted'', ae_status = None\<rparr>, []))"
  by pat_completeness auto
termination by (relation "measure (\<lambda>(net, attempts, i). attempts - i)") auto

declare fetchFrom.simps [simp del]

definition fetchWithRetry ::
  "(nat \<Rightarrow> 'd fetch_result) \<Rightarrow> nat \<Rightarrow> (api_error + 'd http_response) \<times> nat list" where
  "fetchWithRetry net attempts = fetchFrom net attempts 0"

section \<open>Responses and errors\<close>

text \<open>\<open>efs\<close> gives the texts of \<open>detail\<close>, \<open>error\<close> and \<open>message\<close> of a parsed error body.\<close>

fun first_nonempty :: "string list \<Rightarrow> string \<Rightarrow> string" where
  "first_nonempty [] d = d"
| "first_nonempty (s # ss) d = (if s \<noteq> [] then s else first_nonempty ss d)"

definition errorDetail :: "('d \<Rightarrow> string list) \<Rightarrow> 'd http_response \<Rightarrow> string" where
  "errorDetail efs r =
     (let dflt = ''HTTP '' @ nat_digits (status r) in
      if (case content_type r of None \<Rightarrow> False | Some c \<Rightarrow> str_includes c ''application/json'')
      then (case body_json r of None \<Rightarrow> dflt | Some d \<Rightarrow> first_nonempty (efs d) dflt)
      else (case body_text r of None \<Rightarrow> dflt | Some t \<Rightarrow> if t = [] then dflt else t))"

definition js_blank :: "string \<Rightarrow> bool" where
  "js_blank t \<longleftrightarrow> (\<forall>c \<in> set t. c \<in> {CHR '' '', CHR 0x09, CHR 0x0A, CHR 0x0D})"

definition handleResponse ::
  "('d \<Rightarrow> string list) \<Rightarrow> 'd http_response \<Rightarrow> api_error + 'd payload" where
  "handleResponse efs r =
     (if \<not> response_ok r then
        Inl \<lparr>ae_name = ''Error'', ae_message = errorDetail efs r, ae_status = Some (status r)\<rparr>
      else case content_type r of
        None \<Rightarrow> Inr PNull
      | Some c \<Rightarrow>
          if c = [] then Inr PNull
          else if str_includes c ''application/json'' \<or> str_includes c ''geo+json'' then
            (case body_text r of
               None \<Rightarrow> Inl \<lparr>ae_name = ''Error'', ae_message = ''Failed to parse JSON response: '',
                         ae_status = None\<rparr>
             | Some t \<Rightarrow>
                 if js_blank t then Inr PNull
                 else (case body_json r of
                         Some d \<Rightarrow> Inr (Json d)
                       | None \<Rightarrow> Inl \<lparr>ae_name = ''Error'',
                           ae_message = ''Failed to parse JSON response: '', ae_status = None\<rparr>))
          else if str_includes c ''text/'' then
            (case body_text r of Some t \<Rightarrow> Inr (PText t)
             | None \<Rightarrow> Inl (network_failure ''Failed to read body''))
          else Inr PBlob)"

definition handleError :: "api_error \<Rightarrow> api_error" where
  "handleError e =
     (if ae_name e = ''AbortError'' then e
      else if ae_name e = ''TypeError'' \<and> str_includes (ae_message e) ''Failed to fetch'' then
        \<lparr>ae_name = ''Error'', ae_message = ''Network error - please check your connection'',
         ae_status = None\<rparr>
      else e)"

definition timeoutError :: "string \<Rightarrow> api_error" where
  "timeoutError url = \<lparr>ae_name = ''TimeoutError'', ae_message = ''Request timeout: '' @ url, ae_status = None\<rparr>"

definition final_error :: "bool \<Rightarrow> string \<Rightarrow> api_error \<Rightarrow> api_error" where
  "final_error late url e =
     (if late \<and> ae_name e = ''AbortError'' then timeoutError url else handleError e)"

section \<open>Cache and headers\<close>

type_synonym 'd cache = "(string \<times> 'd cache_entry) list"

definition getFromCache :: "string \<Rightarrow> int \<Rightarrow> 'd cache \<Rightarrow> 'd cache \<times> 'd payload option" where
  "getFromCache key now c =
     (case map_of c key of
        None \<Rightarrow> (c, None)
      | Some e \<Rightarrow> if now - ce_timestamp e > ce_duration e then (AList.delete key c, None)
                  else (c, Some (ce_data e)))"

definition setCache :: "string \<Rightarrow> 'd payload \<Rightarrow> int \<Rightarrow> int \<Rightarrow> 'd cache \<Rightarrow> 'd cache" where
  "setCache key data now duration c =
     AList.update key \<lparr>ce_data = data, ce_timestamp = now, ce_duration = duration\<rparr> c"

definition applyCsrfHeader ::
  "string option \<Rightarrow> string \<Rightarrow> (string \<times> string) list \<Rightarrow> (string \<times> string) list" where
  "applyCsrfHeader token verb headers =
     (if verb \<in> {''GET'', ''HEAD'', ''OPTIONS''} then headers
      else case token of
        None \<Rightarrow> headers
      | Some t \<Rightarrow>
          if t = [] \<or> (case map_of headers ''X-CSRF-Token'' of None \<Rightarrow> False | Some v \<Rightarrow> v \<noteq> [])
          then headers else AList.update ''X-CSRF-Token'' t headers)"

section \<open>Requests\<close>

text \<open>
  The options of one request; \<open>parse\<close> is the caller's \<open>parseResponse\<close>, if given. The times are those
  when the request starts and when its data is stored.
\<close>

record 'd request_options =
  ro_method :: string
  ro_retry :: bool
  ro_cache :: bool
  ro_duration :: int
  ro_parse :: "('d http_response \<Rightarrow> api_error + 'd payload) option"

definition default_options :: "'d request_options" where
  "default_options = \<lparr>ro_method = ''GET'', ro_retry = True, ro_cache = False,
     ro_duration = defaultCacheDuration, ro_parse = None\<rparr>"

text \<open>The part of \<open>request\<close> after the cache check; the last component are the delays of the retries.\<close>

definition api_fetch ::
  "('d \<Rightarrow> string list) \<Rightarrow> (nat \<Rightarrow> 'd fetch_result) \<Rightarrow> bool \<Rightarrow> int \<Rightarrow> string \<Rightarrow> 'd request_options \<Rightarrow>
   'd cache \<Rightarrow> 'd cache \<times> (api_error + 'd payload) \<times> nat list" where
  "api_fetch efs net late stored url opts c =
     (let (res, delays) = fetchWithRetry net (if ro_retry opts then retryAttempts else 1) in
      case res of
        Inl e \<Rightarrow> (c, Inl (final_error late url e), delays)
      | Inr r \<Rightarrow>
          (case (case ro_parse opts of None \<Rightarrow> handleResponse efs r | Some p \<Rightarrow> p r) of
             Inl e \<Rightarrow> (c, Inl (final_error late url e), delays)
           | Inr d \<Rightarrow>
               (if ro_method opts = ''GET'' \<and> ro_cache opts
                then setCache url d stored (ro_duration opts) c else c, Inr d, delays)))"

text \<open>\<open>None\<close> in the last component: no network access at all.\<close>

definition api_request ::
  "('d \<Rightarrow> bool) \<Rightarrow> ('d \<Rightarrow> string list) \<Rightarrow> (nat \<Rightarrow> 'd fetch_result) \<Rightarrow> bool \<Rightarrow> int \<Rightarrow> int \<Rightarrow> string \<Rightarrow>
   'd request_options \<Rightarrow> 'd cache \<Rightarrow> 'd cache \<times> (api_error + 'd payload) \<times> nat list option" where
  "api_request tr efs net late now stored url opts c =
     (let (c1, hit) = (if ro_method opts = ''GET'' \<and> ro_cache opts then getFromCache url now c else (c, None));
          go = (let (c2, res, ds) = api_fetch efs net late stored url opts c1 in (c2, res, Some ds))
      in case hit of
           Some d \<Rightarrow> if payload_truthy tr d then (c1, Inr d, None) else go
         | None \<Rightarrow> go)"

text \<open>\<open>get\<close>, \<open>post\<close>, \<open>patch\<close> and \<open>delete\<close> are \<open>request\<close> with the verb filled in; the body goes to the network.\<close>

definition with_verb :: "string \<Rightarrow> 'd request_options \<Rightarrow> 'd request_options" where
  "with_verb verb opts = opts\<lparr>ro_method := verb\<rparr>"

text \<open>\<open>raw\<close> returns the response itself.\<close>

definition api_raw ::
  "(nat \<Rightarrow> 'd fetch_result) \<Rightarrow> bool \<Rightarrow> string \<Rightarrow> bool \<Rightarrow> (api_error + 'd http_response) \<times> nat list" where
  "api_raw net late url retry =
     (let (res, delays) = fetchWithRetry net (if retry then retryAttempts else 1) in
      (case res of Inl e \<Rightarrow> Inl (final_error late url e) | Inr r \<Rightarrow> Inr r, delays))"

text \<open>The GPX text of a route: \<open>parseResponse\<close> reads the text whatever the status.\<close>

definition gpx_options :: "'d request_options" where
  "gpx_options = default_options\<lparr>ro_parse := Some (\<lambda>r. case body_text r of
      Some t \<Rightarrow> Inr (PText t) | None \<Rightarrow> Inl (network_failure ''Failed to read body''))\<rparr>"

definition fetchOptimalRouteGpx ::
  "('d \<Rightarrow> bool) \<Rightarrow> ('d \<Rightarrow> string list) \<Rightarrow> (nat \<Rightarrow> 'd fetch_result) \<Rightarrow> bool \<Rightarrow> int \<Rightarrow> string \<Rightarrow> 'd cache \<Rightarrow>
   api_error + 'd payload" where
  "fetchOptimalRouteGpx tr efs net late now areaId c =
     (case fst (snd (api_request tr efs net late now now
              (''/api/coverage/areas/'' @ areaId @ ''/optimal-route/gpx'') gpx_options c)) of
        Inr d \<Rightarrow> Inr d
      | Inl e \<Rightarrow>
          if str_includes (ae_message e) ''404''
          then Inl \<lparr>ae_name = ''Error'', ae_message = ''No optimal route found. Generate one first.'',
                 ae_status = None\<rparr>
          else Inl e)"

section \<open>Properties\<close>

definition retryable :: "'d fetch_result \<Rightarrow> bool" where
  "retryable x = (case x of
     Response r \<Rightarrow> \<not> response_ok r \<and> \<not> (400 \<le> status r \<and> status r < 500)
   | NetworkError _ \<Rightarrow> True | Aborted \<Rightarrow> False)"

definition settled :: "'d fetch_result \<Rightarrow> api_error + 'd http_response" where
  "settled x = (case x of Response r \<Rightarrow> Inr r | NetworkError m \<Rightarrow> Inl (network_failure m)
     | Aborted \<Rightarrow> Inl abort_error)"

lemma fetchFrom_step:
  assumes "i < attempts"
  shows "fetchFrom net attempts i =
    (if retryable (net i) \<and> Suc i < attempts
     then (fst (fetchFrom net attempts (Suc i)), retryDelay * 2 ^ i # snd (fetchFrom net attempts (Suc i)))
     else (settled (net i), []))"
  using assms
  by (subst fetchFrom.simps) (auto simp: retryable_def settled_def split: fetch_result.split prod.split)

lemma fetchFrom_spec:
  assumes "i < attempts"
  shows "\<exists>n. i \<le> n \<and> n < attempts \<and> (\<forall>j. i \<le> j \<and> j < n \<longrightarrow> retryable (net j)) \<and>
    (retryable (net n) \<longrightarrow> Suc n = attempts) \<and>
    fetchFrom net attempts i = (settled (net n), map (\<lambda>j. retryDelay * 2 ^ j) [i ..< n])"
  using assms
proof (induction "attempts - i" arbitrary: i)
  case (Suc k)
  show ?case
  proof (cases "retryable (net i) \<and> Suc i < attempts")
    case True
    then have "k = attempts - Suc i" "Suc i < attempts" using Suc.hyps(2) by simp_all
    from Suc.hyps(1) [OF this] obtain n where n: "Suc i \<le> n" "n < attempts"
      "\<forall>j. Suc i \<le> j \<and> j < n \<longrightarrow> retryable (net j)" "retryable (net n) \<longrightarrow> Suc n = attempts"
      "fetchFrom net attempts (Suc i) = (settled (net n), map (\<lambda>j. retryDelay * 2 ^ j) [Suc i ..< n])"
      by blast
    have "retryable (net j)" if "i \<le> j" "j < n" for j
      using that n(3) True by (cases "i = j") auto
    moreover have "[i ..< n] = i # [Suc i ..< n]" using n(1) by (simp add: upt_conv_Cons)
    ultimately show ?thesis using n True Suc.prems by (intro exI [of _ n]) (simp add: fetchFrom_step)
  next
    case False
    then show ?thesis using Suc.prems by (intro exI [of _ i]) (auto simp: fetchFrom_step)
  qed
qed simp

text \<open>
  C25. Retries: with at least one attempt allowed, \<open>_fetchWithRetry\<close> makes some number \<open>n + 1\<close> of calls, at
  most the allowed number; all but the last were server errors or network failures, each followed
  by a delay of one second doubled per attempt; the result is what the last call gave, and it is a
  server error or network failure only when the attempts are used up. A client error or an abort
  is never retried, and the fallback error after the loop is never thrown.
\<close>

theorem fetchWithRetry_spec:
  assumes "0 < attempts"
  shows "\<exists>n < attempts. (\<forall>j < n. retryable (net j)) \<and> (retryable (net n) \<longrightarrow> Suc n = attempts) \<and>
    fetchWithRetry net attempts = (settled (net n), map (\<lambda>j. 1000 * 2 ^ j) [0 ..< n])"
  using fetchFrom_spec [OF assms, of net] by (auto simp: fetchWithRetry_def retryDelay_def)

theorem fetchWithRetry_spec_witness:
  "fetchWithRetry (\<lambda>_. Aborted :: nat fetch_result) 3 = (Inl abort_error, [])"
proof -
  from fetchWithRetry_spec [of 3 "\<lambda>_. Aborted :: nat fetch_result"] obtain n where
    n: "\<forall>j < n. retryable (Aborted :: nat fetch_result)"
      "fetchWithRetry (\<lambda>_. Aborted :: nat fetch_result) 3 =
        (settled Aborted, map (\<lambda>j. 1000 * 2 ^ j) [0 ..< n])" by auto
  from n(1) have "n = 0" by (auto simp: retryable_def)
  then show ?thesis using n(2) by (simp add: settled_def)
qed

text \<open>
  The response cache: after a cacheable GET stored truthy data, the same request within the
  duration returns that data without any network access and leaves the cache as it is; after the
  duration it goes to the network again.
\<close>

theorem cache_serves_until_expiry:
  assumes "ro_method opts = ''GET''" "ro_cache opts" "payload_truthy tr d"
  shows "let c = setCache url d t0 (ro_duration opts) c0;
             r = api_request tr efs net late now stored url opts c
         in if now - t0 \<le> ro_duration opts then r = (c, Inr d, None) else snd (snd r) \<noteq> None"
proof -
  define c where "c = setCache url d t0 (ro_duration opts) c0"
  have m: "map_of c url = Some \<lparr>ce_data = d, ce_timestamp = t0, ce_duration = ro_duration opts\<rparr>"
    by (simp add: c_def setCache_def update_conv)
  have hit: "now - t0 \<le> ro_duration opts \<Longrightarrow>
      api_request tr efs net late now stored url opts c = (c, Inr d, None)"
    using assms m by (simp add: api_request_def getFromCache_def Let_def)
  have miss: "\<not> now - t0 \<le> ro_duration opts \<Longrightarrow>
      snd (snd (api_request tr efs net late now stored url opts c)) \<noteq> None"
    using assms m by (simp add: api_request_def getFromCache_def Let_def split: prod.split)
  show ?thesis using hit miss unfolding Let_def c_def [symmetric] by simp
qed

definition cached_get :: "nat request_options" where
  "cached_get = default_options\<lparr>ro_cache := True\<rparr>"

theorem cache_serves_until_expiry_witness:
  "let c = setCache ''/api'' (Json (7 :: nat)) 0 (ro_duration cached_get) [] in
   api_request (\<lambda>n. 0 < n) (\<lambda>_. []) (\<lambda>_. Aborted) False 1000 1000 ''/api'' cached_get c = (c, Inr (Json 7), None)"
proof -
  have o: "ro_method cached_get = ''GET''" "ro_cache cached_get" "ro_duration cached_get = 300000"
    by (simp_all add: cached_get_def default_options_def defaultCacheDuration_def)
  show ?thesis
    using cache_serves_until_expiry [OF o(1,2), of "\<lambda>n. 0 < n" "Json 7" "''/api''" 0 "[]" "\<lambda>_. []"
        "\<lambda>_. Aborted" False 1000 1000] o(3)
    by (simp add: Let_def)
qed

text \<open>
  The GPX request never sees an HTTP error: on any response that is not a server error, a 404 as
  well, \<open>fetchOptimalRouteGpx\<close> returns the text of the body as the GPX document, so its branch for a
  missing route is not taken.
\<close>

theorem gpx_accepts_error_responses:
  assumes "net 0 = Response r" "status r < 500" "400 \<le> status r" "body_text r = Some t"
  shows "fetchOptimalRouteGpx tr efs net late now a c = Inr (PText t)"
proof -
  have "fetchWithRetry net retryAttempts = (Inr r, [])"
    using assms by (simp add: fetchWithRetry_def fetchFrom_step retryAttempts_def retryable_def settled_def)
  then show ?thesis
    using assms(4) by (simp add: fetchOptimalRouteGpx_def api_request_def api_fetch_def gpx_options_def
        default_options_def Let_def)
qed

definition not_found :: "nat http_response" where
  "not_found = \<lparr>status = 404, statusText = ''Not Found'', content_type = Some ''application/json'',
     body_text = Some ''missing'', body_json = None\<rparr>"

theorem gpx_accepts_error_responses_witness:
  "fetchOptimalRouteGpx (\<lambda>_. True) (\<lambda>_. []) (\<lambda>_. Response not_found) False 0 ''a'' [] = Inr (PText ''missing'')"
  by (rule gpx_accepts_error_responses [of _ not_found]) (simp_all add: not_found_def)

text \<open>The token goes with every method that may change something, and with no other.\<close>

lemma csrf_header:
  assumes "t \<noteq> []" "map_of headers ''X-CSRF-Token'' = None"
  shows "map_of (applyCsrfHeader (Some t) verb headers) ''X-CSRF-Token'' =
    (if verb \<in> {''GET'', ''HEAD'', ''OPTIONS''} then None else Some t)"
  using assms by (simp add: applyCsrfHeader_def update_conv)

text \<open>An error after the timeout is reported as a timeout, any other abort as an abort.\<close>

lemma timeout_or_abort:
  "final_error late url abort_error = (if late then timeoutError url else abort_error)"
  by (simp add: final_error_def abort_error_def handleError_def)

end
