(* ===== verification/StoreRequests.thy ===== *)
theory StoreRequests
  imports ApiClient
begin

text \<open>
  The request management of \<open>core/store.js\<close> (abort controllers by key, pending requests, the response
  cache, \<open>reset\<close>) with \<open>fetchWithRetry\<close> of \<open>utils/data.js\<close>, which uses it, and \<open>optimisticAction\<close>.

  \<^item> Controllers are numbers; \<open>aborted\<close> holds those that were aborted.
  \<^item> A request is out between its start and its answer. The answer of \<open>apiClient.request\<close> is part of the
    event; its parsed data has the type \<open>'d\<close>. \<open>opts\<close> is the JSON text of the options.
  \<^item> \<open>search-manager.js\<close> calls \<open>createAbortController\<close> itself and never tells the store that its request
    has ended. \<open>direct\<close> lists the controllers handed out this way, with their keys.
  \<^item> Shown: every pending address belongs to a request that is out; every registered controller belongs to
    one or was handed to a direct caller, and those stay registered until their key is taken again or
    cancelled; and two places where the bookkeeping by key and by address forgets a request that is still out.
\<close>

section \<open>State\<close>

record 'd cached =
  ca_data :: 'd
  ca_timestamp :: int

record out_request =
  rq_url :: string
  rq_cacheKey :: string
  rq_abortKey :: "string option"
  rq_controller :: nat
  rq_timedOut :: bool

record 'd req_store =
  abortControllers :: "(string \<times> nat) list"
  aborted :: "nat list"
  next_controller :: nat
  pendingRequests :: "string list"
  apiCache :: "(string \<times> 'd cached) list"
  out_requests :: "out_request list"
  direct :: "(string \<times> nat) list"

definition no_requests :: "'d req_store" where
  "no_requests = \<lparr>abortControllers = [], aborted = [], next_controller = 0, pendingRequests = [], apiCache = [],
     out_requests = [], direct = []\<rparr>"

section \<open>Controllers and pending requests\<close>

definition abort_controller :: "nat \<Rightarrow> 'd req_store \<Rightarrow> 'd req_store" where
  "abort_controller c s = s\<lparr>aborted := set_add c (aborted s)\<rparr>"

definition cancelRequest :: "string \<Rightarrow> 'd req_store \<Rightarrow> 'd req_store" where
  "cancelRequest key s =
     (case map_of (abortControllers s) key of
        None \<Rightarrow> s
      | Some c \<Rightarrow> (abort_controller c s)\<lparr>abortControllers := AList.delete key (abortControllers s)\<rparr>)"

definition new_controller :: "'d req_store \<Rightarrow> nat \<times> 'd req_store" where
  "new_controller s = (next_controller s, s\<lparr>next_controller := Suc (next_controller s)\<rparr>)"

definition createAbortController :: "string \<Rightarrow> 'd req_store \<Rightarrow> nat \<times> 'd req_store" where
  "createAbortController key s =
     (let (c, s1) = new_controller (cancelRequest key s)
      in (c, s1\<lparr>abortControllers := AList.update key c (abortControllers s1)\<rparr>))"

text \<open>A caller that registers a controller for a request of its own.\<close>

definition direct_controller :: "string \<Rightarrow> 'd req_store \<Rightarrow> 'd req_store" where
  "direct_controller key s =
     (let (c, s1) = createAbortController key s in s1\<lparr>direct := direct s1 @ [(key, c)]\<rparr>)"

definition cancelAllRequests :: "'d req_store \<Rightarrow> 'd req_store" where
  "cancelAllRequests s =
     (foldl (\<lambda>u (k, c). abort_controller c u) s (abortControllers s))
       \<lparr>abortControllers := [], pendingRequests := [], apiCache := []\<rparr>"

definition trackRequest :: "string \<Rightarrow> 'd req_store \<Rightarrow> 'd req_store" where
  "trackRequest url s = s\<lparr>pendingRequests := set_add url (pendingRequests s)\<rparr>"

definition completeRequest :: "string \<Rightarrow> 'd req_store \<Rightarrow> 'd req_store" where
  "completeRequest url s = s\<lparr>pendingRequests := set_delete url (pendingRequests s)\<rparr>"

definition hasPendingRequests :: "'d req_store \<Rightarrow> bool" where
  "hasPendingRequests s \<longleftrightarrow> length (pendingRequests s) > 0"

section \<open>fetchWithRetry of the data utilities\<close>

definition isAbortError :: "api_error \<Rightarrow> bool" where
  "isAbortError e \<longleftrightarrow> ae_name e = ''AbortError''"

definition cache_key :: "string \<Rightarrow> string \<Rightarrow> string" where
  "cache_key url opts = url @ ''_'' @ opts"

text \<open>The part of \<open>fetchWithRetry\<close> that starts the request.\<close>

definition fetch_out :: "string \<Rightarrow> string \<Rightarrow> string option \<Rightarrow> 'd req_store \<Rightarrow> 'd req_store" where
  "fetch_out url opts abortKey s =
     (let key = (case abortKey of Some k \<Rightarrow> if k = [] then None else Some k | None \<Rightarrow> None);
          (c, s1) = (case key of Some k \<Rightarrow> createAbortController k s | None \<Rightarrow> new_controller s);
          s2 = trackRequest url s1
      in s2\<lparr>out_requests := out_requests s2 @ [\<lparr>rq_url = url, rq_cacheKey = cache_key url opts, rq_abortKey = key,
            rq_controller = c, rq_timedOut = False\<rparr>]\<rparr>)"

text \<open>Up to the request: data from the cache, or a request that is out.\<close>

definition fetch_begin ::
  "string \<Rightarrow> string \<Rightarrow> int \<Rightarrow> string option \<Rightarrow> int \<Rightarrow> 'd req_store \<Rightarrow> 'd option \<times> 'd req_store" where
  "fetch_begin url opts cacheTime abortKey now s =
     (case map_of (apiCache s) (cache_key url opts) of
        Some c \<Rightarrow> if now - ca_timestamp c < cacheTime then (Some (ca_data c), s)
                  else (None, fetch_out url opts abortKey s)
      | None \<Rightarrow> (None, fetch_out url opts abortKey s))"

definition fetch_timeout :: "out_request \<Rightarrow> 'd req_store \<Rightarrow> 'd req_store" where
  "fetch_timeout r s =
     (abort_controller (rq_controller r) s)
       \<lparr>out_requests := map (\<lambda>q. if q = r then q\<lparr>rq_timedOut := True\<rparr> else q) (out_requests s)\<rparr>"

definition fetch_finally :: "out_request \<Rightarrow> 'd req_store \<Rightarrow> 'd req_store" where
  "fetch_finally r s =
     (let s1 = completeRequest (rq_url r) s
      in case rq_abortKey r of None \<Rightarrow> s1
         | Some k \<Rightarrow> s1\<lparr>abortControllers := AList.delete k (abortControllers s1)\<rparr>)"

text \<open>The answer of \<open>apiClient.request\<close> and what the caller gets.\<close>

definition fetch_answered ::
  "out_request \<Rightarrow> api_error + 'd \<Rightarrow> int \<Rightarrow> 'd req_store \<Rightarrow> (api_error + 'd) \<times> 'd req_store" where
  "fetch_answered r res now s =
     (let s1 = s\<lparr>out_requests := remove1 r (out_requests s)\<rparr>
      in case res of
           Inr d \<Rightarrow> (Inr d, fetch_finally r
             (s1\<lparr>apiCache := AList.update (rq_cacheKey r) \<lparr>ca_data = d, ca_timestamp = now\<rparr> (apiCache s1)\<rparr>))
         | Inl e \<Rightarrow> (Inl (if rq_timedOut r \<and> isAbortError e then timeoutError (rq_url r) else e), fetch_finally r s1))"

section \<open>Reset\<close>

record 'd runtime =
  requests :: "'d req_store"
  map_object :: "nat option"
  removed_maps :: "nat list"
  mapInitialized :: bool
  selectedTripId :: "string option"
  selectedTripLayer :: "string option"
  undrivenStreetsLoaded :: bool
  drivenStreetsLoaded :: bool
  allStreetsLoaded :: bool
  street_layers :: "nat option list"
  dom_cache :: "(string \<times> nat) list"
  loadingStates :: "string list"
  layerLoadPromises :: "string list"

definition store_reset :: "'d runtime \<Rightarrow> 'd runtime" where
  "store_reset r =
     (let q = cancelAllRequests (requests r) in
      \<lparr>requests = q\<lparr>pendingRequests := []\<rparr>, map_object = None,
        removed_maps = removed_maps r @ (case map_object r of None \<Rightarrow> [] | Some m \<Rightarrow> [m]),
        mapInitialized = False, selectedTripId = None, selectedTripLayer = None,
        undrivenStreetsLoaded = False, drivenStreetsLoaded = False, allStreetsLoaded = False,
        street_layers = street_layers r, dom_cache = [], loadingStates = [], layerLoadPromises = []\<rparr>)"

text \<open>The layers of the undriven, driven and all streets, in this order.\<close>

definition resetStreetCache :: "'d runtime \<Rightarrow> 'd runtime" where
  "resetStreetCache r = r\<lparr>undrivenStreetsLoaded := False, drivenStreetsLoaded := False, allStreetsLoaded := False,
     street_layers := [None, None, None]\<rparr>"

text \<open>
  Elements of the page are numbers; \<open>attached\<close> and \<open>query\<close> are \<open>isConnected\<close> and \<open>document.querySelector\<close>.
\<close>

definition lookup_element :: "(string \<Rightarrow> nat option) \<Rightarrow> string \<Rightarrow> 'd runtime \<Rightarrow> nat option \<times> 'd runtime" where
  "lookup_element query selector r =
     (let q = (if starts_with selector ''#'' \<or> str_includes selector '' '' \<or> starts_with selector ''.''
               then selector else ''#'' @ selector)
      in case query q of None \<Rightarrow> (None, r)
         | Some e \<Rightarrow> (Some e, r\<lparr>dom_cache := AList.update selector e (dom_cache r)\<rparr>))"

definition getElement :: "(nat \<Rightarrow> bool) \<Rightarrow> (string \<Rightarrow> nat option) \<Rightarrow> string \<Rightarrow> 'd runtime \<Rightarrow> nat option \<times> 'd runtime" where
  "getElement attached query selector r =
     (case map_of (dom_cache r) selector of
        Some e \<Rightarrow> if attached e then (Some e, r) else lookup_element query selector (r\<lparr>dom_cache := AList.delete selector (dom_cache r)\<rparr>)
      | None \<Rightarrow> lookup_element query selector r)"

definition clearElementCache :: "'d runtime \<Rightarrow> 'd runtime" where
  "clearElementCache r = r\<lparr>dom_cache := []\<rparr>"

text \<open>An element taken from the cache is still part of the page; one that is not is looked up again.\<close>

lemma getElement_connected:
  assumes "\<And>q e. query q = Some e \<Longrightarrow> attached e" "getElement attached query selector r = (Some e, r')"
  shows "attached e"
  using assms by (auto simp: getElement_def lookup_element_def split: option.splits if_splits)

section \<open>Optimistic actions\<close>

text \<open>
  The callbacks change the caller's state \<open>'s\<close> and may throw. The snapshot is \<open>None\<close> (\<open>null\<close>) until
  \<open>optimistic\<close> has returned.
\<close>

record ('s, 'n, 'a) action =
  act_optimistic :: "('s \<Rightarrow> 's \<times> (api_error + 'n)) option"
  act_request :: "'s \<Rightarrow> 's \<times> (api_error + 'a)"
  act_commit :: "('a \<Rightarrow> 'n option \<Rightarrow> 's \<Rightarrow> 's \<times> api_error option) option"
  act_rollback :: "('n option \<Rightarrow> api_error \<Rightarrow> 's \<Rightarrow> 's) option"

definition act_failed ::
  "('s, 'n, 'a) action \<Rightarrow> 'n option \<Rightarrow> api_error \<Rightarrow> 's \<Rightarrow> 's \<times> (api_error + 'a)" where
  "act_failed act snapshot e s =
     (case act_rollback act of None \<Rightarrow> (s, Inl e) | Some rb \<Rightarrow> (rb snapshot e s, Inl e))"

definition optimisticAction :: "('s, 'n, 'a) action \<Rightarrow> 's \<Rightarrow> 's \<times> (api_error + 'a)" where
  "optimisticAction act s =
     (let (s1, snap) = (case act_optimistic act of
            None \<Rightarrow> (s, Inr None)
          | Some f \<Rightarrow> (case f s of (t, Inl e) \<Rightarrow> (t, Inl e) | (t, Inr n) \<Rightarrow> (t, Inr (Some n))))
      in case snap of
           Inl e \<Rightarrow> act_failed act None e s1
         | Inr snapshot \<Rightarrow>
             (case act_request act s1 of
                (s2, Inl e) \<Rightarrow> act_failed act snapshot e s2
              | (s2, Inr a) \<Rightarrow>
                  (case act_commit act of
                     None \<Rightarrow> (s2, Inr a)
                   | Some f \<Rightarrow> (case f a snapshot s2 of
                        (s3, None) \<Rightarrow> (s3, Inr a)
                      | (s3, Some e) \<Rightarrow> act_failed act snapshot e s3))))"

section \<open>Events\<close>

datatype 'd req_event =
    FetchCall string string int "string option" int
  | FetchTimeout out_request
  | FetchAnswer out_request "api_error + 'd" int
  | CancelKey string
  | CancelAll
  | DirectCall string
  | DirectEnd nat

text \<open>The end of a direct caller's request changes nothing in the store.\<close>

fun req_step :: "'d req_store \<Rightarrow> 'd req_event \<Rightarrow> 'd req_store option" where
  "req_step s (FetchCall url opts ct k now) = Some (snd (fetch_begin url opts ct k now s))"
| "req_step s (FetchTimeout r) = (if r \<in> set (out_requests s) then Some (fetch_timeout r s) else None)"
| "req_step s (FetchAnswer r res now) =
     (if r \<in> set (out_requests s) then Some (snd (fetch_answered r res now s)) else None)"
| "req_step s (CancelKey k) = Some (cancelRequest k s)"
| "req_step s CancelAll = Some (cancelAllRequests s)"
| "req_step s (DirectCall k) = Some (direct_controller k s)"
| "req_step s (DirectEnd c) = (if c \<in> snd ` set (direct s) then Some s else None)"

fun req_run :: "'d req_store \<Rightarrow> 'd req_event list \<Rightarrow> 'd req_store option" where
  "req_run s [] = Some s"
| "req_run s (e # es) = (case req_step s e of None \<Rightarrow> None | Some t \<Rightarrow> req_run t es)"

section \<open>No request is leaked\<close>

definition booked :: "'d req_store \<Rightarrow> bool" where
  "booked s \<longleftrightarrow> set (pendingRequests s) \<subseteq> rq_url ` set (out_requests s) \<and>
     distinct (map fst (abortControllers s)) \<and>
     (\<forall>(k, c) \<in> set (abortControllers s).
        (\<exists>r \<in> set (out_requests s). rq_abortKey r = Some k \<and> rq_controller r = c) \<or> (k, c) \<in> set (direct s))"

lemma booked_intro:
  assumes "\<And>u. u \<in> set (pendingRequests s) \<Longrightarrow> \<exists>r \<in> set (out_requests s). rq_url r = u"
    and "distinct (map fst (abortControllers s))"
    and "\<And>k c. (k, c) \<in> set (abortControllers s) \<Longrightarrow>
      (\<exists>r \<in> set (out_requests s). rq_abortKey r = Some k \<and> rq_controller r = c) \<or> (k, c) \<in> set (direct s)"
  shows "booked s"
  using assms by (force simp: booked_def image_iff)

lemma bookedD:
  assumes "booked s"
  shows "u \<in> set (pendingRequests s) \<Longrightarrow> \<exists>r \<in> set (out_requests s). rq_url r = u"
    and "distinct (map fst (abortControllers s))"
    and "(k, c) \<in> set (abortControllers s) \<Longrightarrow>
      (\<exists>r \<in> set (out_requests s). rq_abortKey r = Some k \<and> rq_controller r = c) \<or> (k, c) \<in> set (direct s)"
  using assms by (force simp: booked_def image_iff)+

lemma cancelRequest_fields:
  "out_requests (cancelRequest k s) = out_requests s" "pendingRequests (cancelRequest k s) = pendingRequests s"
  "abortControllers (cancelRequest k s) = AList.delete k (abortControllers s)"
  "direct (cancelRequest k s) = direct s"
  by (auto simp: cancelRequest_def abort_controller_def delete_idem map_of_eq_None_iff split: option.split
      intro!: delete_id [symmetric])

lemma booked_cancelRequest: assumes "booked s" shows "booked (cancelRequest k s)"
proof (rule booked_intro)
  note a = bookedD [OF assms]
  show "distinct (map fst (abortControllers (cancelRequest k s)))"
    using a(2) by (simp add: cancelRequest_fields distinct_delete)
qed (use bookedD [OF assms] in \<open>auto simp: cancelRequest_fields set_alist_delete\<close>)

lemma cancelAll_fields:
  "out_requests (cancelAllRequests s) = out_requests s" "pendingRequests (cancelAllRequests s) = []"
  "abortControllers (cancelAllRequests s) = []" "apiCache (cancelAllRequests s) = []"
  "direct (cancelAllRequests s) = direct s"
  "set (aborted (cancelAllRequests s)) = set (aborted s) \<union> snd ` set (abortControllers s)"
proof -
  have f: "out_requests (foldl (\<lambda>u (k, c). abort_controller c u) s al) = out_requests s"
    "direct (foldl (\<lambda>u (k, c). abort_controller c u) s al) = direct s"
    "set (aborted (foldl (\<lambda>u (k, c). abort_controller c u) s al)) = set (aborted s) \<union> snd ` set al" for al
    by (induction al arbitrary: s) (auto simp: abort_controller_def)
  show "out_requests (cancelAllRequests s) = out_requests s" "direct (cancelAllRequests s) = direct s"
    "set (aborted (cancelAllRequests s)) = set (aborted s) \<union> snd ` set (abortControllers s)"
    by (simp_all add: cancelAllRequests_def f)
qed (simp_all add: cancelAllRequests_def)

lemma fetch_out_fields:
  obtains key c where
    "out_requests (fetch_out url opts ak s) = out_requests s @
       [\<lparr>rq_url = url, rq_cacheKey = cache_key url opts, rq_abortKey = key, rq_controller = c, rq_timedOut = False\<rparr>]"
    "pendingRequests (fetch_out url opts ak s) = set_add url (pendingRequests s)"
    "abortControllers (fetch_out url opts ak s) = (case key of None \<Rightarrow> abortControllers s
       | Some k \<Rightarrow> AList.update k c (AList.delete k (abortControllers s)))"
    "direct (fetch_out url opts ak s) = direct s"
proof -
  define key where "key = (case ak of Some k \<Rightarrow> if k = [] then None else Some k | None \<Rightarrow> None)"
  show ?thesis
  proof (cases key)
    case None
    then show ?thesis
      by (intro that [of None "next_controller s"])
        (simp_all add: fetch_out_def key_def [symmetric] new_controller_def trackRequest_def Let_def)
  next
    case (Some k)
    then show ?thesis
      by (intro that [of "Some k" "next_controller (cancelRequest k s)"])
        (simp_all add: fetch_out_def key_def [symmetric] new_controller_def createAbortController_def
          trackRequest_def cancelRequest_fields Let_def)
  qed
qed

lemma booked_fetch_out: assumes "booked s" shows "booked (fetch_out url opts ak s)"
proof -
  obtain key c where f: "out_requests (fetch_out url opts ak s) = out_requests s @
       [\<lparr>rq_url = url, rq_cacheKey = cache_key url opts, rq_abortKey = key, rq_controller = c, rq_timedOut = False\<rparr>]"
    "pendingRequests (fetch_out url opts ak s) = set_add url (pendingRequests s)"
    "abortControllers (fetch_out url opts ak s) = (case key of None \<Rightarrow> abortControllers s
       | Some k \<Rightarrow> AList.update k c (AList.delete k (abortControllers s)))"
    "direct (fetch_out url opts ak s) = direct s"
    by (rule fetch_out_fields)
  note a = bookedD [OF assms]
  show ?thesis
  proof (rule booked_intro)
    show "distinct (map fst (abortControllers (fetch_out url opts ak s)))"
      using a(2) f(3) by (auto simp: distinct_update distinct_delete split: option.split)
    fix k d assume "(k, d) \<in> set (abortControllers (fetch_out url opts ak s))"
    then consider "key = Some k" "d = c" | "(k, d) \<in> set (abortControllers s)"
      using f(3) by (auto simp: set_alist_replace split: option.splits)
    then show "(\<exists>r \<in> set (out_requests (fetch_out url opts ak s)). rq_abortKey r = Some k \<and> rq_controller r = d) \<or>
        (k, d) \<in> set (direct (fetch_out url opts ak s))"
      using a(3) f(1,4) by cases auto
  qed (use a(1) f(1,2) in auto)
qed

lemma booked_finally:
  assumes "booked s"
  shows "booked (fetch_finally r (s\<lparr>out_requests := remove1 r (out_requests s), apiCache := x\<rparr>))"
proof (rule booked_intro)
  let ?t = "fetch_finally r (s\<lparr>out_requests := remove1 r (out_requests s), apiCache := x\<rparr>)"
  note a = bookedD [OF assms]
  have f: "out_requests ?t = remove1 r (out_requests s)" "set (pendingRequests ?t) = set (pendingRequests s) - {rq_url r}"
    "abortControllers ?t = (case rq_abortKey r of None \<Rightarrow> abortControllers s | Some k \<Rightarrow> AList.delete k (abortControllers s))"
    "direct ?t = direct s"
    by (auto simp: fetch_finally_def completeRequest_def Let_def split: option.split)
  show "distinct (map fst (abortControllers ?t))"
    using a(2) f(3) by (simp add: distinct_delete split: option.split)
  show "\<exists>q \<in> set (out_requests ?t). rq_url q = u" if "u \<in> set (pendingRequests ?t)" for u
    using that a(1) [of u] f(1,2) by (metis DiffE in_set_remove1 insertI1)
  show "(\<exists>q \<in> set (out_requests ?t). rq_abortKey q = Some k \<and> rq_controller q = c) \<or> (k, c) \<in> set (direct ?t)"
    if "(k, c) \<in> set (abortControllers ?t)" for k c
  proof -
    have "(k, c) \<in> set (abortControllers s)" "rq_abortKey r \<noteq> Some k"
      using that f(3) by (auto simp: set_alist_delete split: option.splits)
    then show ?thesis using a(3) [of k c] f(1,4) by (metis in_set_remove1)
  qed
qed

lemma booked_timeout: assumes "booked s" shows "booked (fetch_timeout r s)"
proof (rule booked_intro)
  note a = bookedD [OF assms]
  let ?g = "\<lambda>q. if q = r then q\<lparr>rq_timedOut := True\<rparr> else q"
  have f: "out_requests (fetch_timeout r s) = map ?g (out_requests s)" "pendingRequests (fetch_timeout r s) = pendingRequests s"
    "abortControllers (fetch_timeout r s) = abortControllers s" "direct (fetch_timeout r s) = direct s"
    by (simp_all add: fetch_timeout_def abort_controller_def)
  have g: "rq_url (?g q) = rq_url q" "rq_abortKey (?g q) = rq_abortKey q" "rq_controller (?g q) = rq_controller q" for q
    by simp_all
  show "distinct (map fst (abortControllers (fetch_timeout r s)))" using a(2) f(3) by simp
  show "\<exists>q \<in> set (out_requests (fetch_timeout r s)). rq_url q = u" if "u \<in> set (pendingRequests (fetch_timeout r s))" for u
  proof -
    from that a(1) [of u] f(2) obtain q where "q \<in> set (out_requests s)" "rq_url q = u" by auto
    then show ?thesis unfolding f by (intro bexI [of _ "?g q"]) (auto simp: g)
  qed
  show "(\<exists>q \<in> set (out_requests (fetch_timeout r s)). rq_abortKey q = Some k \<and> rq_controller q = c) \<or>
      (k, c) \<in> set (direct (fetch_timeout r s))"
    if "(k, c) \<in> set (abortControllers (fetch_timeout r s))" for k c
  proof (cases "(k, c) \<in> set (direct s)")
    case False
    with that a(3) [of k c] f(3) obtain q where "q \<in> set (out_requests s)" "rq_abortKey q = Some k" "rq_controller q = c"
      by auto
    then have "\<exists>q \<in> set (out_requests (fetch_timeout r s)). rq_abortKey q = Some k \<and> rq_controller q = c"
      unfolding f by (intro bexI [of _ "?g q"]) (auto simp: g)
    then show ?thesis ..
  qed (simp add: f)
qed

lemma direct_controller_fields:
  obtains c where "out_requests (direct_controller k s) = out_requests s"
    "pendingRequests (direct_controller k s) = pendingRequests s"
    "abortControllers (direct_controller k s) = AList.update k c (AList.delete k (abortControllers s))"
    "direct (direct_controller k s) = direct s @ [(k, c)]" "aborted (direct_controller k s) = aborted (cancelRequest k s)"
  by (rule that [of "next_controller (cancelRequest k s)"])
    (simp_all add: direct_controller_def createAbortController_def new_controller_def cancelRequest_fields Let_def)

lemma booked_direct: assumes "booked s" shows "booked (direct_controller k s)"
proof -
  obtain c where f: "out_requests (direct_controller k s) = out_requests s"
    "pendingRequests (direct_controller k s) = pendingRequests s"
    "abortControllers (direct_controller k s) = AList.update k c (AList.delete k (abortControllers s))"
    "direct (direct_controller k s) = direct s @ [(k, c)]"
    by (rule direct_controller_fields)
  note a = bookedD [OF assms]
  show ?thesis
  proof (rule booked_intro)
    show "distinct (map fst (abortControllers (direct_controller k s)))"
      using a(2) f(3) by (simp add: distinct_update distinct_delete)
    fix k' d assume "(k', d) \<in> set (abortControllers (direct_controller k s))"
    then have "(k', d) = (k, c) \<or> (k', d) \<in> set (abortControllers s)"
      using f(3) by (auto simp: set_alist_replace)
    then show "(\<exists>r \<in> set (out_requests (direct_controller k s)). rq_abortKey r = Some k' \<and> rq_controller r = d) \<or>
        (k', d) \<in> set (direct (direct_controller k s))"
      using a(3) [of k' d] f(1,4) by auto
  qed (use a(1) f(1,2) in auto)
qed

lemma booked_step: assumes "booked s" "req_step s e = Some t" shows "booked t"
proof (cases e)
  case (FetchCall url opts ct ak now)
  then have "t = s \<or> t = fetch_out url opts ak s" using assms(2) by (auto simp: fetch_begin_def split: option.splits if_splits)
  then show ?thesis using assms(1) booked_fetch_out by blast
next
  case (FetchTimeout r)
  then show ?thesis using assms booked_timeout by (auto split: if_splits)
next
  case (FetchAnswer r res now)
  then obtain x where "t = fetch_finally r (s\<lparr>out_requests := remove1 r (out_requests s), apiCache := x\<rparr>)"
    using assms(2) by (auto simp: fetch_answered_def Let_def split: if_splits sum.splits) (metis req_store.surjective req_store.update_convs(5))
  then show ?thesis using booked_finally [OF assms(1)] by simp
next
  case (CancelKey k)
  then show ?thesis using assms booked_cancelRequest by auto
next
  case CancelAll
  then show ?thesis using assms(2) by (auto intro!: booked_intro simp: cancelAll_fields)
next
  case (DirectCall k)
  then show ?thesis using assms booked_direct by auto
next
  case (DirectEnd c)
  then show ?thesis using assms by (auto split: if_splits)
qed

interpretation req_events: event_system "\<lambda>s. s = no_requests" "\<lambda>s e t. req_step s e = Some t" booked
proof unfold_locales
  fix s :: "'d req_store" assume "s = no_requests"
  then show "booked s" by (simp add: no_requests_def booked_def)
next
  fix s t :: "'d req_store" and e assume "booked s" "req_step s e = Some t"
  then show "booked t" by (rule booked_step)
qed

lemma req_run_reach:
  "req_run s es = Some t \<Longrightarrow> reach (\<lambda>s. s = no_requests) (\<lambda>s e t. req_step s e = Some t) s \<Longrightarrow>
     reach (\<lambda>s. s = no_requests) (\<lambda>s e t. req_step s e = Some t) t"
proof (induction es arbitrary: s)
  case (Cons e es)
  from Cons.prems(1) obtain u where u: "req_step s e = Some u" "req_run u es = Some t" by (auto split: option.splits)
  have "reach (\<lambda>s. s = no_requests) (\<lambda>s e t. req_step s e = Some t) u"
    by (rule reach_step [where step = "\<lambda>s e t. req_step s e = Some t" and e = e, OF Cons.prems(2) u(1)])
  with Cons.IH [OF u(2)] show ?case by blast
qed simp

text \<open>
  A key that only direct callers use: every controller handed out for it was aborted or is the one
  registered now.
\<close>

definition key_kept :: "string \<Rightarrow> 'd req_store \<Rightarrow> bool" where
  "key_kept k s \<longleftrightarrow> (\<forall>r \<in> set (out_requests s). rq_abortKey r \<noteq> Some k) \<and>
     (\<forall>c. (k, c) \<in> set (direct s) \<longrightarrow> c \<in> set (aborted s) \<or> map_of (abortControllers s) k = Some c)"

lemma cancelRequest_aborts:
  "set (aborted (cancelRequest k s)) = set (aborted s) \<union> set_option (map_of (abortControllers s) k)"
  by (auto simp: cancelRequest_def abort_controller_def split: option.split)

lemma key_kept_step:
  assumes "key_kept k s" "req_step s e = Some t" "\<And>url opts ct now. e \<noteq> FetchCall url opts ct (Some k) now"
  shows "key_kept k t"
proof (cases e)
  case (FetchCall url opts ct ak now)
  define key where "key = (case ak of Some k \<Rightarrow> if k = [] then None else Some k | None \<Rightarrow> None)"
  have key: "key \<noteq> Some k" using assms(3) FetchCall by (auto simp: key_def split: option.splits if_splits)
  consider "t = s" | "t = fetch_out url opts ak s"
    using assms(2) FetchCall by (auto simp: fetch_begin_def split: option.splits if_splits)
  then show ?thesis
  proof cases
    case 2
    then show ?thesis using assms(1) key
      by (cases key) (auto simp: key_kept_def fetch_out_def key_def [symmetric] new_controller_def trackRequest_def
          createAbortController_def cancelRequest_fields cancelRequest_aborts update_conv delete_conv Let_def)
  qed (use assms(1) in simp)
next
  case (FetchTimeout r)
  then show ?thesis using assms(1,2)
    by (auto simp: key_kept_def fetch_timeout_def abort_controller_def split: if_splits)
next
  case (FetchAnswer r res now)
  then obtain x where t: "t = fetch_finally r (s\<lparr>out_requests := remove1 r (out_requests s), apiCache := x\<rparr>)"
    and r: "r \<in> set (out_requests s)"
    using assms(2) by (auto simp: fetch_answered_def Let_def split: if_splits sum.splits) (metis req_store.surjective req_store.update_convs(5))
  then have "rq_abortKey r \<noteq> Some k" using assms(1) by (simp add: key_kept_def)
  then show ?thesis using assms(1) set_remove1_subset [of r "out_requests s"] unfolding t
    by (auto simp: key_kept_def fetch_finally_def completeRequest_def delete_conv Let_def split: option.split)
next
  case (CancelKey k')
  then show ?thesis using assms(1,2)
    by (cases "k = k'") (auto simp: key_kept_def cancelRequest_fields cancelRequest_aborts delete_conv)
next
  case CancelAll
  have "c \<in> snd ` set (abortControllers s)" if "map_of (abortControllers s) k = Some c" for c
    using map_of_SomeD [OF that] by (force simp: image_iff)
  then show ?thesis using CancelAll assms(1,2) by (auto simp: key_kept_def cancelAll_fields)
next
  case (DirectCall k')
  obtain c where "out_requests (direct_controller k' s) = out_requests s"
    "abortControllers (direct_controller k' s) = AList.update k' c (AList.delete k' (abortControllers s))"
    "direct (direct_controller k' s) = direct s @ [(k', c)]"
    "aborted (direct_controller k' s) = aborted (cancelRequest k' s)"
    using direct_controller_fields [of k' s] by metis
  then show ?thesis using DirectCall assms(1,2)
    by (auto simp: key_kept_def cancelRequest_aborts update_conv delete_conv)
next
  case (DirectEnd c)
  then show ?thesis using assms(1,2) by (auto split: if_splits)
qed

lemma key_kept_run:
  "req_run s es = Some t \<Longrightarrow> key_kept k s \<Longrightarrow> (\<And>url opts ct now. FetchCall url opts ct (Some k) now \<notin> set es) \<Longrightarrow>
     key_kept k t"
proof (induction es arbitrary: s)
  case (Cons e es)
  from Cons.prems(1) obtain u where u: "req_step s e = Some u" "req_run u es = Some t" by (auto split: option.splits)
  have "key_kept k u" using Cons.prems(2) u(1) by (rule key_kept_step) (use Cons.prems(3) in auto)
  then show ?case using Cons.IH [OF u(2)] Cons.prems(3) by auto
qed simp

text \<open>
  C21. What the bookkeeping of requests keeps, after any sequence of calls, answers, timeouts and
  cancellations of \<open>fetchWithRetry\<close> and of callers that only take a controller (the searches): every
  address listed as pending belongs to a request that is still out; every registered controller
  belongs to a request that is out on its key, or was handed to a direct caller; so when all requests of
  \<open>fetchWithRetry\<close> have been answered nothing is pending and only controllers of direct callers are
  registered. For a key that \<open>fetchWithRetry\<close> never used, every controller handed out was aborted or is
  the registered one, so at most one search of a key is live and \<open>cancelRequest\<close> reaches it.
  Nothing stronger holds for direct callers: the end of their request leaves the controller registered
  (\<open>direct_controller_stays\<close>).
\<close>

theorem requests_not_leaked:
  assumes "req_run no_requests es = Some s"
  shows "(\<forall>u \<in> set (pendingRequests s). \<exists>r \<in> set (out_requests s). rq_url r = u) \<and>
    (\<forall>(k, c) \<in> set (abortControllers s).
       (\<exists>r \<in> set (out_requests s). rq_abortKey r = Some k \<and> rq_controller r = c) \<or> (k, c) \<in> set (direct s)) \<and>
    (out_requests s = [] \<longrightarrow> \<not> hasPendingRequests s \<and> set (abortControllers s) \<subseteq> set (direct s)) \<and>
    (\<forall>k c. (k, c) \<in> set (direct s) \<and> (\<forall>url opts ct now. FetchCall url opts ct (Some k) now \<notin> set es) \<longrightarrow>
       c \<in> set (aborted s) \<or> map_of (abortControllers s) k = Some c)"
proof -
  have "booked s"
    by (rule req_events.reachable_inv, rule req_run_reach [OF assms], rule reach_init) (rule refl)
  note a = bookedD [OF this]
  have "set (abortControllers s) \<subseteq> set (direct s)" if "out_requests s = []"
    using a(3) that by auto
  moreover have "pendingRequests s = []" if "out_requests s = []"
    using a(1) that by (metis list.set_intros(1) empty_iff empty_set neq_Nil_conv)
  moreover have "c \<in> set (aborted s) \<or> map_of (abortControllers s) k = Some c"
    if "(k, c) \<in> set (direct s)" "\<forall>url opts ct now. FetchCall url opts ct (Some k) now \<notin> set es" for k c
  proof -
    have "key_kept k no_requests" by (simp add: key_kept_def no_requests_def)
    from key_kept_run [OF assms this] that show ?thesis by (auto simp: key_kept_def)
  qed
  moreover have "\<forall>(k, c) \<in> set (abortControllers s).
      (\<exists>r \<in> set (out_requests s). rq_abortKey r = Some k \<and> rq_controller r = c) \<or> (k, c) \<in> set (direct s)"
    using a(3) by blast
  ultimately show ?thesis using a(1) by (simp add: hasPendingRequests_def)
qed

definition trips_request :: "nat \<Rightarrow> out_request" where
  "trips_request c = \<lparr>rq_url = ''/api/trips'', rq_cacheKey = ''/api/trips_{}'', rq_abortKey = Some ''trips'',
     rq_controller = c, rq_timedOut = False\<rparr>"

lemmas req_exec = fetch_begin_def fetch_out_def createAbortController_def new_controller_def cancelRequest_def
  abort_controller_def trackRequest_def completeRequest_def fetch_answered_def fetch_finally_def cache_key_def
  no_requests_def trips_request_def set_add_def set_delete_def

theorem requests_not_leaked_witness:
  "\<exists>s :: nat req_store. req_run no_requests [FetchCall ''/api/trips'' ''{}'' 30000 (Some ''trips'') 0,
      DirectCall ''searchStreets'', FetchAnswer (trips_request 0) (Inr 7) 10] = Some s \<and> \<not> hasPendingRequests s \<and>
     set (abortControllers s) \<subseteq> {(''searchStreets'', 1)}"
proof -
  obtain s :: "nat req_store" where s: "req_run no_requests [FetchCall ''/api/trips'' ''{}'' 30000 (Some ''trips'') 0,
      DirectCall ''searchStreets'', FetchAnswer (trips_request 0) (Inr 7) 10] = Some s" "out_requests s = []"
    "direct s = [(''searchStreets'', 1)]"
    by (simp add: req_exec direct_controller_def Let_def)
  from requests_not_leaked [OF s(1)] s show ?thesis by auto
qed

section \<open>What the bookkeeping forgets\<close>

definition live_on :: "string \<Rightarrow> 'd req_store \<Rightarrow> out_request list" where
  "live_on k s = filter (\<lambda>r. rq_abortKey r = Some k \<and> rq_controller r \<notin> set (aborted s)) (out_requests s)"

text \<open>
  An abort key does not keep its requests apart: the end of a request that was aborted by a second one
  removes the second one's controller, so that a third call with the same key leaves the second request
  running, and two live requests of one key are out.
\<close>

theorem two_live_requests_on_a_key:
  "\<exists>s :: nat req_store. req_run no_requests
     [FetchCall ''/api/trips'' ''{}'' 30000 (Some ''trips'') 0, FetchCall ''/api/trips'' ''{}'' 30000 (Some ''trips'') 1,
      FetchAnswer (trips_request 0) (Inl abort_error) 2, FetchCall ''/api/trips'' ''{}'' 30000 (Some ''trips'') 3] = Some s \<and>
     length (live_on ''trips'' s) = 2"
  by (simp add: req_exec live_on_def abort_error_def Let_def)

text \<open>
  The end of a direct caller's request leaves its controller registered: with nothing out any more, the
  four searches of the search manager leave four controllers behind.
\<close>

lemma direct_controller_stays:
  "\<exists>s :: nat req_store. req_run no_requests
     [DirectCall ''searchStreets'', DirectCall ''searchGeocode'', DirectCall ''searchMapbox'', DirectCall ''streetGeometry'',
      DirectEnd 0, DirectEnd 1, DirectEnd 2, DirectEnd 3] = Some s \<and>
     out_requests s = [] \<and> length (abortControllers s) = 4"
  by (simp add: req_exec direct_controller_def Let_def)

text \<open>Pending requests are listed by address: the first of two answers clears both.\<close>

lemma pending_forgets_request:
  "\<exists>s :: nat req_store. req_run no_requests
     [FetchCall ''/api/trips'' ''{}'' 30000 None 0, FetchCall ''/api/trips'' ''{}'' 30000 None 1,
      FetchAnswer ((trips_request 0)\<lparr>rq_abortKey := None\<rparr>) (Inr 7) 2] = Some s \<and>
     \<not> hasPendingRequests s \<and> out_requests s \<noteq> []"
  by (simp add: req_exec hasPendingRequests_def Let_def)

section \<open>Optimistic actions\<close>

text \<open>
  An optimistic action is all or nothing: when its snapshot is the state it started from and its rollback
  puts the snapshot back, the state after a failure of any of its parts, the commit included, is the
  state before the action.
\<close>

theorem optimisticAction_atomic:
  assumes "act_optimistic act = Some (\<lambda>s. (f s, Inr s))"
    and "act_rollback act = Some (\<lambda>snap e t. case snap of Some n \<Rightarrow> n | None \<Rightarrow> t)"
  shows "case optimisticAction act s of
      (t, Inl e) \<Rightarrow> t = s
    | (t, Inr a) \<Rightarrow> \<exists>u. act_request act (f s) = (u, Inr a) \<and>
        (case act_commit act of None \<Rightarrow> t = u | Some g \<Rightarrow> g a (Some s) u = (t, None))"
  using assms by (auto simp: optimisticAction_def act_failed_def split: sum.splits prod.splits option.splits)

theorem optimisticAction_atomic_witness:
  "fst (optimisticAction \<lparr>act_optimistic = Some (\<lambda>s. (s + 1, Inr s)), act_request = (\<lambda>s. (s, Inr ())),
     act_commit = Some (\<lambda>a n s. (s * 2, Some abort_error)),
     act_rollback = Some (\<lambda>snap e t. case snap of Some n \<Rightarrow> n | None \<Rightarrow> t)\<rparr> (5 :: nat)) = 5"
  using optimisticAction_atomic [of "\<lparr>act_optimistic = Some (\<lambda>s. (s + 1, Inr s)), act_request = (\<lambda>s. (s, Inr ())),
     act_commit = Some (\<lambda>a n s. (s * 2, Some abort_error)),
     act_rollback = Some (\<lambda>snap e t. case snap of Some n \<Rightarrow> n | None \<Rightarrow> t)\<rparr>" "\<lambda>s. s + 1" "5 :: nat"]
  by (simp add: optimisticAction_def act_failed_def)

end
