(* ===== verification/DataUtils.thy ===== *)
theory DataUtils
  imports ApiClient
begin

text \<open>
  The utilities of \<open>utils/data.js\<close>: \<open>debounce\<close> and \<open>throttle\<close>, the local storage helpers and the
  reporting of errors.

  \<^item> A debounced or throttled function is driven by the list of its calls with their times; its timer
    fires when its time has come, before a call at that time.
  \<^item> The local storage is the list of its items in order; \<open>fits\<close> says whether the browser accepts the
    items (its quota), and \<open>setItem\<close> throws when it does not. Reading and removing items never throws.
  \<^item> \<open>parse\<close> and \<open>stringify\<close> are the browser's \<open>JSON.parse\<close> and \<open>JSON.stringify\<close>.
  \<^item> Shown: both call limiters agree with a direct description of which calls run, writing to the storage
    and reading back, what a full storage loses, and which message a network failure is reported with.
\<close>

section \<open>Debounce\<close>

record 'a debouncer =
  db_timeout :: "(int \<times> 'a) option"
  db_runs :: "(int \<times> 'a) list"

definition db_fire :: "int \<Rightarrow> 'a debouncer \<Rightarrow> 'a debouncer" where
  "db_fire now s =
     (case db_timeout s of
        Some (due, a) \<Rightarrow> if due \<le> now then s\<lparr>db_timeout := None, db_runs := db_runs s @ [(due, a)]\<rparr> else s
      | None \<Rightarrow> s)"

text \<open>One call of the debounced function: \<open>clearTimeout\<close> and a new timer.\<close>

definition executedFunction :: "int \<Rightarrow> int \<Rightarrow> 'a \<Rightarrow> 'a debouncer \<Rightarrow> 'a debouncer" where
  "executedFunction wait now a s = s\<lparr>db_timeout := Some (now + wait, a)\<rparr>"

fun debounce_go :: "int \<Rightarrow> 'a debouncer \<Rightarrow> (int \<times> 'a) list \<Rightarrow> (int \<times> 'a) list" where
  "debounce_go wait s [] = (case db_timeout s of None \<Rightarrow> db_runs s | Some r \<Rightarrow> db_runs s @ [r])"
| "debounce_go wait s ((t, a) # calls) = debounce_go wait (executedFunction wait t a (db_fire t s)) calls"

text \<open>The calls of \<open>func\<close> with their times, for the calls of \<open>debounce(func, wait)\<close>.\<close>

definition debounce :: "int \<Rightarrow> (int \<times> 'a) list \<Rightarrow> (int \<times> 'a) list" where
  "debounce wait calls = debounce_go wait \<lparr>db_timeout = None, db_runs = []\<rparr> calls"

text \<open>The calls followed by silence.\<close>

fun quiet_calls :: "int \<Rightarrow> (int \<times> 'a) list \<Rightarrow> (int \<times> 'a) list" where
  "quiet_calls wait [] = []"
| "quiet_calls wait [(t, a)] = [(t + wait, a)]"
| "quiet_calls wait ((t, a) # (u, b) # cs) =
     (if t + wait \<le> u then (t + wait, a) # quiet_calls wait ((u, b) # cs) else quiet_calls wait ((u, b) # cs))"

lemma debounce_go_quiet:
  "debounce_go wait \<lparr>db_timeout = Some (t + wait, a), db_runs = rs\<rparr> calls = rs @ quiet_calls wait ((t, a) # calls)"
  by (induction calls arbitrary: t a rs) (auto simp: db_fire_def executedFunction_def)

text \<open>
  C39. A debounced function runs exactly for the calls that are followed by at least the waiting time of
  silence, at the end of that time and with that call's arguments; in particular never at the call itself.
\<close>

theorem debounce_equiv: "debounce wait calls = quiet_calls wait calls"
proof (cases calls)
  case (Cons c cs)
  obtain t a where "c = (t, a)" by (cases c)
  with Cons show ?thesis using debounce_go_quiet [of wait t a "[]" cs]
    by (simp add: debounce_def db_fire_def executedFunction_def)
qed (simp add: debounce_def)

section \<open>Throttle\<close>

record ('a, 'r) throttler =
  inThrottle :: "int option"
  lastResult :: "'r option"
  th_runs :: "(int \<times> 'a) list"

definition th_release :: "int \<Rightarrow> ('a, 'r) throttler \<Rightarrow> ('a, 'r) throttler" where
  "th_release now s =
     (case inThrottle s of Some due \<Rightarrow> if due \<le> now then s\<lparr>inThrottle := None\<rparr> else s | None \<Rightarrow> s)"

definition throttledFunction ::
  "('a \<Rightarrow> 'r) \<Rightarrow> int \<Rightarrow> int \<Rightarrow> 'a \<Rightarrow> ('a, 'r) throttler \<Rightarrow> ('a, 'r) throttler \<times> 'r option" where
  "throttledFunction func limit now a s =
     (let s1 = (if inThrottle s = None
                then s\<lparr>lastResult := Some (func a), inThrottle := Some (now + limit), th_runs := th_runs s @ [(now, a)]\<rparr>
                else s)
      in (s1, lastResult s1))"

fun throttle_go ::
  "('a \<Rightarrow> 'r) \<Rightarrow> int \<Rightarrow> ('a, 'r) throttler \<Rightarrow> (int \<times> 'a) list \<Rightarrow> ('a, 'r) throttler \<times> 'r option list" where
  "throttle_go func limit s [] = (s, [])"
| "throttle_go func limit s ((t, a) # calls) =
     (let (s1, r) = throttledFunction func limit t a (th_release t s);
          (s2, rs) = throttle_go func limit s1 calls
      in (s2, r # rs))"

text \<open>The calls of \<open>func\<close> and the values returned, for the calls of \<open>throttle(func, limit)\<close>.\<close>

definition throttle :: "('a \<Rightarrow> 'r) \<Rightarrow> int \<Rightarrow> (int \<times> 'a) list \<Rightarrow> (int \<times> 'a) list \<times> 'r option list" where
  "throttle func limit calls =
     (let (s, rs) = throttle_go func limit \<lparr>inThrottle = None, lastResult = None, th_runs = []\<rparr> calls in (th_runs s, rs))"

text \<open>The calls that lead: the first one, then the first one after each time limit.\<close>

function leading_calls :: "int \<Rightarrow> (int \<times> 'a) list \<Rightarrow> (int \<times> 'a) list" where
  "leading_calls limit [] = []"
| "leading_calls limit ((t, a) # cs) = (t, a) # leading_calls limit (dropWhile (\<lambda>(u, _). u < t + limit) cs)"
  by pat_completeness auto
termination
  by (relation "measure (\<lambda>(limit, cs). length cs)") (auto simp: less_Suc_eq_le length_dropWhile_le)

text \<open>The value each call returns: that of the leading call before it.\<close>

function leading_results :: "('a \<Rightarrow> 'r) \<Rightarrow> int \<Rightarrow> (int \<times> 'a) list \<Rightarrow> 'r list" where
  "leading_results func limit [] = []"
| "leading_results func limit ((t, a) # cs) =
     replicate (Suc (length (takeWhile (\<lambda>(u, _). u < t + limit) cs))) (func a) @
       leading_results func limit (dropWhile (\<lambda>(u, _). u < t + limit) cs)"
  by pat_completeness auto
termination
  by (relation "measure (\<lambda>(func, limit, cs). length cs)") (auto simp: less_Suc_eq_le length_dropWhile_le)

lemma throttle_go_held:
  "inThrottle s = Some due \<Longrightarrow>
     throttle_go func limit s calls =
       (let (s2, rs) = throttle_go func limit s (dropWhile (\<lambda>(u, _). u < due) calls)
        in (s2, replicate (length (takeWhile (\<lambda>(u, _). u < due) calls)) (lastResult s) @ rs))"
proof (induction calls)
  case (Cons c calls)
  obtain t a where c: "c = (t, a)" by (cases c)
  show ?case
  proof (cases "t < due")
    case True
    then have "throttledFunction func limit t a (th_release t s) = (s, lastResult s)"
      using Cons.prems by (simp add: throttledFunction_def th_release_def)
    then show ?thesis using Cons True by (simp add: c Let_def split: prod.split)
  next
    case False
    then show ?thesis by (simp add: c split: prod.split)
  qed
qed (simp add: Let_def)

lemma throttle_go_leading:
  "(\<forall>due. inThrottle s = Some due \<longrightarrow> (\<forall>(t, a) \<in> set (take 1 calls). due \<le> t)) \<Longrightarrow>
     th_runs (fst (throttle_go func limit s calls)) = th_runs s @ leading_calls limit calls \<and>
     snd (throttle_go func limit s calls) = map Some (leading_results func limit calls)"
proof (induction limit calls arbitrary: s rule: leading_calls.induct)
  case (2 limit t a cs)
  let ?r = "dropWhile (\<lambda>(u, _). u < t + limit) cs"
  define s1 where "s1 = s\<lparr>lastResult := Some (func a), inThrottle := Some (t + limit), th_runs := th_runs s @ [(t, a)]\<rparr>"
  have "th_release t s = s\<lparr>inThrottle := None\<rparr>" using 2(2) by (auto simp: th_release_def split: option.split)
  then have step: "throttledFunction func limit t a (th_release t s) = (s1, Some (func a))"
    by (simp add: throttledFunction_def s1_def)
  have held: "inThrottle s1 = Some (t + limit)" by (simp add: s1_def)
  have first: "\<forall>due. inThrottle s1 = Some due \<longrightarrow> (\<forall>(u, b) \<in> set (take 1 ?r). due \<le> u)"
  proof (cases ?r)
    case (Cons c r)
    then have "\<not> (\<lambda>(u, _). u < t + limit) c" by (metis (no_types, lifting) dropWhile_eq_Cons_conv)
    with Cons show ?thesis by (auto simp: held)
  next
    case Nil
    show ?thesis unfolding Nil by simp
  qed
  obtain s2 rs where g: "throttle_go func limit s1 ?r = (s2, rs)" by fastforce
  have "throttle_go func limit s ((t, a) # cs) =
      (s2, Some (func a) # replicate (length (takeWhile (\<lambda>(u, _). u < t + limit) cs)) (lastResult s1) @ rs)"
    using throttle_go_held [OF held, of func limit cs] by (simp add: step g)
  with 2(1) [OF first] g show ?case by (simp add: s1_def)
qed simp

text \<open>
  C38. A throttled function runs at its first call and then at the first call after each time limit, and
  every call returns the value of the run that leads it; the runs are the leading calls.
\<close>

theorem throttle_equiv:
  "throttle func limit calls = (leading_calls limit calls, map Some (leading_results func limit calls))"
proof -
  let ?s = "\<lparr>inThrottle = None, lastResult = None, th_runs = []\<rparr>"
  obtain s rs where "throttle_go func limit ?s calls = (s, rs)" by fastforce
  with throttle_go_leading [of ?s calls func limit] show ?thesis by (simp add: throttle_def)
qed

section \<open>Local storage\<close>

type_synonym storage = "(string \<times> string) list"

datatype 'v stored = SText string | SJson 'v

definition setItem :: "(storage \<Rightarrow> bool) \<Rightarrow> string \<Rightarrow> string \<Rightarrow> storage \<Rightarrow> storage option" where
  "setItem fits key text st = (let st' = AList.update key text st in if fits st' then Some st' else None)"

definition clearOldCache :: "storage \<Rightarrow> storage" where
  "clearOldCache st =
     (let cacheKeys = filter (\<lambda>k. starts_with k ''cache_'') (map fst st)
      in foldl (\<lambda>u k. AList.delete k u) st (take (length cacheKeys div 2) cacheKeys))"

fun stored_text :: "('v \<Rightarrow> string) \<Rightarrow> 'v stored \<Rightarrow> string" where
  "stored_text stringify (SText t) = t"
| "stored_text stringify (SJson v) = stringify v"

definition setStorage ::
  "(storage \<Rightarrow> bool) \<Rightarrow> ('v \<Rightarrow> string) \<Rightarrow> string \<Rightarrow> 'v stored \<Rightarrow> storage \<Rightarrow> bool \<times> storage" where
  "setStorage fits stringify key v st =
     (case setItem fits key (stored_text stringify v) st of
        Some st' \<Rightarrow> (True, st')
      | None \<Rightarrow>
          let st1 = clearOldCache st in
          case setItem fits key (stored_text stringify v) st1 of Some st' \<Rightarrow> (True, st') | None \<Rightarrow> (False, st1))"

definition getStorage :: "(string \<Rightarrow> 'v option) \<Rightarrow> string \<Rightarrow> 'v stored option \<Rightarrow> storage \<Rightarrow> 'v stored option" where
  "getStorage parse key dflt st =
     (case map_of st key of
        None \<Rightarrow> dflt
      | Some text \<Rightarrow> (case parse text of Some v \<Rightarrow> Some (SJson v) | None \<Rightarrow> Some (SText text)))"

definition removeStorage :: "string \<Rightarrow> storage \<Rightarrow> storage" where
  "removeStorage key st = AList.delete key st"

lemma map_of_foldl_delete:
  "map_of (foldl (\<lambda>u k. AList.delete k u) st ks) x = (if x \<in> set ks then None else map_of st x)"
  by (induction ks arbitrary: st) (auto simp: delete_conv')

lemma clearOldCache_keeps:
  "\<not> starts_with x ''cache_'' \<Longrightarrow> map_of (clearOldCache st) x = map_of st x"
  by (auto simp: clearOldCache_def Let_def map_of_foldl_delete dest: in_set_takeD)

text \<open>
  Writing to the storage and reading back: a successful \<open>setStorage\<close> makes \<open>getStorage\<close> return an object
  as it was written, but a text only when it is not itself readable as JSON, in which case its parsed
  value comes back. Whether or not it succeeds, no other item is touched unless it is a cache item.
\<close>

theorem setStorage_roundtrip:
  assumes "\<And>v. parse (stringify v) = Some v" "setStorage fits stringify key x st = (ok, st')"
  shows "(ok \<longrightarrow> getStorage parse key dflt st' = Some (case x of
       SJson v \<Rightarrow> SJson v | SText t \<Rightarrow> (case parse t of None \<Rightarrow> SText t | Some v \<Rightarrow> SJson v))) \<and>
    (\<forall>k. k \<noteq> key \<and> \<not> starts_with k ''cache_'' \<longrightarrow> map_of st' k = map_of st k) \<and>
    (\<not> ok \<and> \<not> starts_with key ''cache_'' \<longrightarrow> map_of st' key = map_of st key)"
proof -
  let ?t = "stored_text stringify x"
  from assms(2) consider "ok" "st' = AList.update key ?t st" | "ok" "st' = AList.update key ?t (clearOldCache st)"
    | "\<not> ok" "st' = clearOldCache st"
    by (auto simp: setStorage_def setItem_def Let_def split: if_splits)
  then show ?thesis
    using assms(1) by cases (auto simp: getStorage_def update_conv clearOldCache_keeps split: stored.split option.split)
qed

definition digit_parse :: "string \<Rightarrow> nat option" where
  "digit_parse t = (if t \<noteq> [] \<and> t = nat_digits (digits_val t) then Some (digits_val t) else None)"

theorem setStorage_roundtrip_witness:
  "getStorage digit_parse ''zip'' None (snd (setStorage (\<lambda>_. True) nat_digits ''zip'' (SText ''7'') [])) = Some (SJson 7)"
proof -
  have 1: "digit_parse (nat_digits v) = Some v" for v
  proof -
    have "nat_digits v \<noteq> []" by (subst nat_digits.simps) simp
    then show ?thesis by (simp add: digit_parse_def digits_val_nat_digits del: digits_val.simps)
  qed
  have 2: "setStorage (\<lambda>_. True) nat_digits ''zip'' (SText ''7'') [] = (True, [(''zip'', ''7'')])"
    by (simp add: setStorage_def setItem_def)
  have 3: "digit_parse ''7'' = Some 7" by (simp add: digit_parse_def nat_digits.simps char_of_def bit_0)
  from setStorage_roundtrip [OF 1 2, of None] 2 3 show ?thesis by simp
qed

section \<open>Error reports\<close>

definition userMessage :: "string \<Rightarrow> api_error \<Rightarrow> string" where
  "userMessage context e =
     (let m = ae_message e in
      if ae_name e = ''NetworkError'' \<or> str_includes m ''fetch'' \<or> str_includes m ''network''
      then ''Network error: Please check your connection and try again.''
      else if str_includes m ''timeout'' then ''The operation timed out. Please try again.''
      else if str_includes m ''permission'' then ''Permission denied: You don't have access to this resource.''
      else if str_includes m ''not found'' \<or> ae_status e = Some 404
      then ''Resource not found: The requested item doesn't exist.''
      else if (case ae_status e of Some n \<Rightarrow> n \<ge> 500 | None \<Rightarrow> False) then ''Server error: Please try again later.''
      else ''Error in '' @ context @ '': '' @ m)"

text \<open>The notification shown, if any, for an error of a level.\<close>

definition reportError :: "string \<Rightarrow> string \<Rightarrow> api_error \<Rightarrow> (string \<times> string) option" where
  "reportError context level e =
     (if level = ''error'' \<or> level = ''warn''
      then Some (userMessage context e, if level = ''error'' then ''danger'' else ''warning'') else None)"

text \<open>
  A failed connection reported by the HTTP client is not recognised as one: the client replaces the
  browser's message by \<open>Network error - please check your connection\<close>, and the error reporter, which
  looks for \<open>fetch\<close> and \<open>network\<close> in lower case, shows its generic message. The browser's own error would
  have been recognised.
\<close>

theorem network_failure_not_recognised:
  "reportError context ''error'' (ApiClient.handleError (network_failure ''Failed to fetch'')) =
     Some (''Error in '' @ context @ '': Network error - please check your connection'', ''danger'') \<and>
   reportError context ''error'' (network_failure ''Failed to fetch'') =
     Some (''Network error: Please check your connection and try again.'', ''danger'')"
  by (simp add: reportError_def userMessage_def ApiClient.handleError_def network_failure_def starts_with_def)

end
