(* ===== verification/JobTracker.thy ===== *)
theory JobTracker
  imports Store
begin

text \<open>
  The tracker of coverage jobs, \<open>static/js/modules/ui/global-job-tracker.js\<close>: one active job, followed by
  a stream of server events and, at the same time, by polling, kept in the local storage so that a new
  page can go on with it.

  \<^item> The state are the module's variables. Handlers are split at their awaits: a poll, a resume or a
    cancellation whose request is out is an element of a list, and its answer is a later event.
  \<^item> Timers keep running until they are cleared by the identifier last stored, as in the code.
  \<^item> \<open>undefined\<close> and \<open>null\<close> in the server's data are both \<open>None\<close>. The times are those of the clock.
  \<^item> Calls to the page, notifications and dispatched events are recorded in order. The text of the
    success message is recorded as its title and the result object it is made from.
  \<^item> Shown: the stored job is always the active one, polling gives up after five failures, and what
    the delayed handling of the end of a job does to the job's title and to a job started meanwhile.
\<close>

section \<open>Data\<close>

record server_job =
  sj_status :: "string option"
  sj_progress :: "jsnum option"
  sj_message :: "string option"
  sj_stage :: "string option"
  sj_error :: "string option"
  sj_started :: "string option"
  sj_result :: "jv option"
  sj_type :: "string option"

record job_event =
  ev_stage :: "string option"
  ev_progress :: "jsnum option"
  ev_message :: "string option"
  ev_status :: "string option"
  ev_metrics :: "(string \<times> jv) list option"
  ev_result :: "jv option"
  ev_error :: "string option"

record tracked_job =
  tj_id :: string
  tj_type :: string
  tj_areaId :: "string option"
  tj_areaName :: "string option"
  tj_message :: "string option"
  tj_progress :: "jsnum option"
  tj_status :: "string option"
  tj_minimized :: bool
  tj_stage :: "string option"
  tj_error :: "string option"
  tj_startedAt :: "string option"
  tj_result :: "jv option"

record job_config =
  jc_id :: string
  jc_type :: "string option"
  jc_areaId :: "string option"
  jc_areaName :: "string option"
  jc_message :: "string option"

datatype job_output =
    RenderModal | ShowModal | HideModal | ShowBadge | HideBadge | UpdateUI
  | Notify string string
  | NotifyDone string "jv option"
  | JobFinished job_event bool
  | StoredJobFinished server_job bool
  | JobCancelled string

text \<open>A poll that waits for its answer or for its timer: the job it was started for and its error count.\<close>

record poll_token =
  pt_job :: string
  pt_errors :: nat

record tracker =
  activeJob :: "tracked_job option"
  eventSource :: "string option"
  pollTimeout :: "nat option"
  timers :: "(nat \<times> poll_token) list"
  timer_waits :: "nat list"
  next_timer :: nat
  polls :: "poll_token list"
  done_timeouts :: "job_event list"
  resumes :: "tracked_job list"
  cancels :: "string list"
  stageMetrics :: "(string \<times> (string \<times> jv) list) list"
  activeStageKey :: "string option"
  completedStages :: "string list"
  stageStartTimes :: "(string \<times> int) list"
  elapsedTimer :: bool
  pipelineStartTime :: "int option"
  stored_job :: "tracked_job option"
  outputs :: "job_output list"

definition JOB_POLL_INTERVAL_MS :: nat where "JOB_POLL_INTERVAL_MS = 2000"
definition MAX_POLL_ERRORS :: nat where "MAX_POLL_ERRORS = 5"

text \<open>A new page: the module's variables as declared, with what the local storage holds.\<close>

definition new_tracker :: "tracked_job option \<Rightarrow> tracker" where
  "new_tracker stored = \<lparr>activeJob = None, eventSource = None, pollTimeout = None, timers = [],
     timer_waits = [], next_timer = 0, polls = [], done_timeouts = [], resumes = [], cancels = [],
     stageMetrics = [], activeStageKey = None, completedStages = [], stageStartTimes = [],
     elapsedTimer = False, pipelineStartTime = None, stored_job = stored, outputs = []\<rparr>"

text \<open>The texts that count as given: not undefined, not null and not empty.\<close>

definition given :: "string option \<Rightarrow> string option" where
  "given t = (if t = Some [] then None else t)"

definition or_else :: "string option \<Rightarrow> string option \<Rightarrow> string option" where
  "or_else a b = (if given a = None then b else a)"

text \<open>How a template prints a value.\<close>

definition shown :: "string option \<Rightarrow> string" where
  "shown t = (case t of None \<Rightarrow> ''undefined'' | Some s \<Rightarrow> s)"

definition out :: "job_output \<Rightarrow> tracker \<Rightarrow> tracker" where
  "out e s = s\<lparr>outputs := outputs s @ [e]\<rparr>"

section \<open>Utilities\<close>

definition getJobTitle :: "string option \<Rightarrow> string" where
  "getJobTitle type =
     (if type = Some ''area_rebuild'' then ''Rebuilding Area''
      else if type = Some ''area_backfill'' then ''Backfill Coverage''
      else ''Setting Up Area'')"

definition isJobActive :: "string option \<Rightarrow> bool" where
  "isJobActive status \<longleftrightarrow> status \<in> {Some ''pending'', Some ''running''}"

text \<open>\<open>{ ...j, ...mapJobToState(job) }\<close>.\<close>

definition mapJobToState :: "server_job \<Rightarrow> tracked_job \<Rightarrow> tracked_job" where
  "mapJobToState job j = j\<lparr>tj_status := sj_status job, tj_progress := sj_progress job,
     tj_message := sj_message job, tj_stage := sj_stage job, tj_error := sj_error job,
     tj_startedAt := sj_started job, tj_result := sj_result job\<rparr>"

section \<open>Storage and page\<close>

definition saveJobState :: "tracker \<Rightarrow> tracker" where
  "saveJobState s = s\<lparr>stored_job := activeJob s\<rparr>"

definition clearJobState :: "tracker \<Rightarrow> tracker" where
  "clearJobState s = s\<lparr>activeJob := None, stored_job := None\<rparr>"

definition updateUI :: "tracker \<Rightarrow> tracker" where
  "updateUI s = (if activeJob s = None then s else out UpdateUI s)"

definition renderProgressModal :: "tracker \<Rightarrow> tracker" where
  "renderProgressModal s = updateUI ((out RenderModal s)\<lparr>elapsedTimer := True\<rparr>)"

section \<open>Connection and polling\<close>

definition disconnectSSE :: "tracker \<Rightarrow> tracker" where
  "disconnectSSE s = s\<lparr>eventSource := None\<rparr>"

definition clearPoll :: "tracker \<Rightarrow> tracker" where
  "clearPoll s = s\<lparr>timers := filter (\<lambda>(i, _). Some i \<noteq> pollTimeout s) (timers s)\<rparr>"

text \<open>\<open>pollTimeout = setTimeout(poll, wait)\<close>.\<close>

definition schedule_poll :: "nat \<Rightarrow> poll_token \<Rightarrow> tracker \<Rightarrow> tracker" where
  "schedule_poll wait t s = s\<lparr>timers := timers s @ [(next_timer s, t)], pollTimeout := Some (next_timer s),
     next_timer := Suc (next_timer s), timer_waits := timer_waits s @ [wait]\<rparr>"

text \<open>The start of \<open>poll\<close>, up to its request.\<close>

definition poll_begin :: "poll_token \<Rightarrow> tracker \<Rightarrow> tracker" where
  "poll_begin t s =
     (case activeJob s of
        None \<Rightarrow> s
      | Some j \<Rightarrow> if tj_id j \<noteq> pt_job t then s else s\<lparr>polls := polls s @ [t]\<rparr>)"

definition startPolling :: "string \<Rightarrow> tracker \<Rightarrow> tracker" where
  "startPolling jobId s = poll_begin \<lparr>pt_job = jobId, pt_errors = 0\<rparr> (clearPoll s)"

text \<open>\<open>sse\<close>: whether the browser can open an \<open>EventSource\<close>.\<close>

definition connectSSE :: "bool \<Rightarrow> string \<Rightarrow> tracker \<Rightarrow> tracker" where
  "connectSSE sse jobId s =
     (let s1 = startPolling jobId (disconnectSSE s)
      in if sse then s1\<lparr>eventSource := Some jobId\<rparr> else startPolling jobId s1)"

definition sse_lost :: "tracker \<Rightarrow> tracker" where
  "sse_lost s = (case eventSource s of None \<Rightarrow> s | Some jobId \<Rightarrow> startPolling jobId (disconnectSSE s))"

definition stopTracking :: "tracker \<Rightarrow> tracker" where
  "stopTracking s =
     out HideBadge (out HideModal (saveJobState
       ((clearPoll (disconnectSSE s))\<lparr>elapsedTimer := False, activeJob := None, stageMetrics := [],
          activeStageKey := None, completedStages := [], stageStartTimes := [], pipelineStartTime := None\<rparr>)))"

section \<open>Progress\<close>

definition with_progress :: "jsnum option \<Rightarrow> string option \<Rightarrow> tracked_job \<Rightarrow> tracked_job" where
  "with_progress p t j =
     (let j1 = (case p of None \<Rightarrow> j | Some x \<Rightarrow> j\<lparr>tj_progress := Some x\<rparr>)
      in if given t = None then j1 else j1\<lparr>tj_message := t\<rparr>)"

text \<open>The stage that ends, with the time it took.\<close>

definition complete_stage :: "string \<Rightarrow> int \<Rightarrow> tracker \<Rightarrow> tracker" where
  "complete_stage k now s =
     (let s1 = s\<lparr>completedStages := set_add k (completedStages s)\<rparr>;
          t0 = (case map_of (stageStartTimes s) k of None \<Rightarrow> 0 | Some t \<Rightarrow> t);
          old = (case map_of (stageMetrics s) k of None \<Rightarrow> [] | Some al \<Rightarrow> al)
      in if t0 \<noteq> 0
         then s1\<lparr>stageMetrics := AList.update k (AList.update ''elapsed_ms'' (JNum (Fin (of_int (now - t0)))) old)
                (stageMetrics s)\<rparr>
         else s1)"

definition handleStageTransition ::
  "int \<Rightarrow> string option \<Rightarrow> jsnum option \<Rightarrow> string option \<Rightarrow> tracker \<Rightarrow> tracker" where
  "handleStageTransition now stage progress message s =
     (case (activeJob s, given stage) of
        (Some j, Some newStage) \<Rightarrow>
          let s1 = (case given (activeStageKey s) of
                      Some k \<Rightarrow> if k \<noteq> newStage then complete_stage k now s else s
                    | None \<Rightarrow> s);
              s2 = s1\<lparr>activeStageKey := Some newStage,
                     stageStartTimes := AList.update newStage now (stageStartTimes s1),
                     activeJob := Some (with_progress progress message j)\<rparr>
          in updateUI (saveJobState s2)
      | _ \<Rightarrow> s)"

definition with_event :: "job_event \<Rightarrow> tracked_job \<Rightarrow> tracked_job" where
  "with_event d j =
     (let j1 = with_progress (ev_progress d) (ev_message d) j;
          j2 = (if given (ev_status d) = None then j1 else j1\<lparr>tj_status := ev_status d\<rparr>)
      in if given (ev_stage d) = None then j2 else j2\<lparr>tj_stage := ev_stage d\<rparr>)"

definition with_metrics :: "job_event \<Rightarrow> tracker \<Rightarrow> tracker" where
  "with_metrics d s =
     (case (ev_metrics d, given (ev_stage d)) of
        (Some ms, Some k) \<Rightarrow>
          let old = (case map_of (stageMetrics s) k of None \<Rightarrow> [] | Some al \<Rightarrow> al)
          in s\<lparr>stageMetrics := AList.update k (spread old ms) (stageMetrics s)\<rparr>
      | _ \<Rightarrow> s)"

definition handleProgressEvent :: "int \<Rightarrow> job_event \<Rightarrow> tracker \<Rightarrow> tracker" where
  "handleProgressEvent now d s =
     (if activeJob s = None then s
      else
        let s1 = (if given (ev_stage d) \<noteq> None \<and> ev_stage d \<noteq> activeStageKey s
                  then handleStageTransition now (ev_stage d) (ev_progress d) (ev_message d) s else s);
            s2 = with_metrics d (s1\<lparr>activeJob := map_option (with_event d) (activeJob s1)\<rparr>)
        in updateUI (saveJobState s2))"

section \<open>The end of a job\<close>

definition handleDoneEvent :: "job_event \<Rightarrow> tracker \<Rightarrow> tracker" where
  "handleDoneEvent d s =
     (case activeJob s of
        None \<Rightarrow> s
      | Some j \<Rightarrow>
          let s1 = (case given (activeStageKey s) of
                      Some k \<Rightarrow> s\<lparr>completedStages := set_add k (completedStages s)\<rparr> | None \<Rightarrow> s);
              j' = j\<lparr>tj_status := or_else (ev_status d) (Some ''completed''), tj_progress := Some 100,
                     tj_result := ev_result d\<rparr>
          in (updateUI (s1\<lparr>activeJob := Some j'\<rparr>))\<lparr>done_timeouts := done_timeouts s @ [d]\<rparr>)"

text \<open>What \<open>handleDoneEvent\<close> does 800 ms later.\<close>

definition done_timeout :: "job_event \<Rightarrow> tracker \<Rightarrow> tracker" where
  "done_timeout d s =
     (let s1 = stopTracking (s\<lparr>done_timeouts := remove1 d (done_timeouts s)\<rparr>);
          title = getJobTitle (map_option tj_type (activeJob s1));
          success = (ev_status d = Some ''completed'');
          note = (if success then NotifyDone title (ev_result d)
                  else Notify (title @ '' '' @ shown (ev_status d) @ '': '' @
                    shown (or_else (ev_error d) (or_else (ev_message d) (Some ''Unknown error'')))) ''danger'')
      in out (JobFinished d success) (out note s1))"

definition handleJobFinished :: "server_job \<Rightarrow> tracker \<Rightarrow> tracker" where
  "handleJobFinished job s =
     (let success = (sj_status job = Some ''completed'');
          title = getJobTitle (sj_type job);
          msg = (if success then ''completed successfully''
                 else ''failed: '' @ shown (or_else (sj_error job) (sj_message job)))
      in out (StoredJobFinished job success)
           (out (Notify (title @ '' '' @ msg) (if success then ''success'' else ''danger'')) (stopTracking s)))"

section \<open>Answers of polls\<close>

definition poll_failed :: "nat option \<Rightarrow> poll_token \<Rightarrow> tracker \<Rightarrow> tracker" where
  "poll_failed status t s =
     (let n = Suc (pt_errors t)
      in if status = Some 404 \<or> n \<ge> MAX_POLL_ERRORS then stopTracking s
         else schedule_poll (min (JOB_POLL_INTERVAL_MS * 2 ^ n) 30000) (t\<lparr>pt_errors := n\<rparr>) s)"

definition job_event_of :: "server_job \<Rightarrow> job_event" where
  "job_event_of job = \<lparr>ev_stage = None, ev_progress = None, ev_message = sj_message job, ev_status = sj_status job,
     ev_metrics = None, ev_result = sj_result job, ev_error = sj_error job\<rparr>"

text \<open>When the active job is gone, reading its stage throws, and the error is handled as a failed poll.\<close>

definition poll_answered :: "int \<Rightarrow> server_job \<Rightarrow> poll_token \<Rightarrow> tracker \<Rightarrow> tracker" where
  "poll_answered now job t0 s =
     (let t = t0\<lparr>pt_errors := 0\<rparr> in
      case activeJob s of
        None \<Rightarrow> poll_failed None t s
      | Some j \<Rightarrow>
          let s1 = s\<lparr>activeJob := Some (mapJobToState job j)\<rparr>;
              s2 = (if given (sj_stage job) \<noteq> None \<and> sj_stage job \<noteq> tj_stage j
                    then handleStageTransition now (sj_stage job) (sj_progress job) None s1 else s1);
              s3 = saveJobState s2
          in if isJobActive (sj_status job) then schedule_poll JOB_POLL_INTERVAL_MS t (updateUI s3)
             else handleDoneEvent (job_event_of job) s3)"

section \<open>Actions\<close>

definition startGlobalTracking :: "bool \<Rightarrow> int \<Rightarrow> job_config \<Rightarrow> tracker \<Rightarrow> tracker" where
  "startGlobalTracking sse now c s =
     (let j = \<lparr>tj_id = jc_id c, tj_type = shown (or_else (jc_type c) (Some ''unknown'')),
                tj_areaId = jc_areaId c, tj_areaName = jc_areaName c,
                tj_message = or_else (jc_message c) (Some ''Starting...''), tj_progress = Some 0,
                tj_status = Some ''pending'', tj_minimized = False, tj_stage = None, tj_error = None,
                tj_startedAt = None, tj_result = None\<rparr>;
          s1 = s\<lparr>activeJob := Some j, stageMetrics := [], activeStageKey := None, completedStages := [],
                 stageStartTimes := [], pipelineStartTime := Some now\<rparr>
      in connectSSE sse (jc_id c) (out ShowModal (renderProgressModal (saveJobState s1))))"

text \<open>The listener of \<open>coverage:job-started\<close>.\<close>

definition job_started :: "bool \<Rightarrow> int \<Rightarrow> job_config \<Rightarrow> tracker \<Rightarrow> tracker" where
  "job_started sse now c s = (if jc_id c = [] then s else startGlobalTracking sse now c s)"

definition resumeJobTracking :: "tracker \<Rightarrow> tracker" where
  "resumeJobTracking s =
     (case stored_job s of
        Some j \<Rightarrow> if tj_id j \<noteq> [] then s\<lparr>resumes := resumes s @ [j]\<rparr> else s
      | None \<Rightarrow> s)"

definition resume_answered :: "bool \<Rightarrow> server_job \<Rightarrow> tracked_job \<Rightarrow> tracker \<Rightarrow> tracker" where
  "resume_answered sse job stored s =
     (if isJobActive (sj_status job) then
        let j = mapJobToState job stored;
            s1 = saveJobState (s\<lparr>activeJob := Some j\<rparr>);
            s2 = (if tj_minimized j then out ShowBadge s1 else out ShowModal (renderProgressModal s1))
        in connectSSE sse (tj_id j) s2
      else handleJobFinished job s)"

definition cancelActiveJob :: "tracker \<Rightarrow> tracker" where
  "cancelActiveJob s = (case activeJob s of None \<Rightarrow> s | Some j \<Rightarrow> s\<lparr>cancels := cancels s @ [tj_id j]\<rparr>)"

definition cancel_answered :: "string \<Rightarrow> tracker \<Rightarrow> tracker" where
  "cancel_answered jobId s = out (JobCancelled jobId) (out (Notify ''Job cancelled'' ''info'') (stopTracking s))"

definition cancel_failed :: "tracker \<Rightarrow> tracker" where
  "cancel_failed s = out (Notify ''Failed to cancel job'' ''danger'') s"

definition minimizeJob :: "tracker \<Rightarrow> tracker" where
  "minimizeJob s =
     (case activeJob s of None \<Rightarrow> s
      | Some j \<Rightarrow> out ShowBadge (out HideModal (saveJobState (s\<lparr>activeJob := Some (j\<lparr>tj_minimized := True\<rparr>)\<rparr>))))"

definition restoreJobModal :: "tracker \<Rightarrow> tracker" where
  "restoreJobModal s =
     (case activeJob s of None \<Rightarrow> s
      | Some j \<Rightarrow> out ShowModal (renderProgressModal (out HideBadge
          (saveJobState (s\<lparr>activeJob := Some (j\<lparr>tj_minimized := False\<rparr>)\<rparr>)))))"

section \<open>Events\<close>

datatype tracker_event =
    Started bool int job_config | Stopped | PageLoad
  | SseProgress int job_event | SseStage int job_event | SseDone job_event | SseLost
  | PollTimer nat
  | PollAnswer int server_job poll_token | PollFailure "nat option" poll_token
  | DoneTimeout job_event
  | ResumeAnswer bool server_job tracked_job | ResumeFailure tracked_job
  | CancelClick | CancelAnswer string | CancelFailure string
  | Minimize | Restore

text \<open>An event and the state after it, if the event can happen.\<close>

fun tracker_step :: "tracker \<Rightarrow> tracker_event \<Rightarrow> tracker option" where
  "tracker_step s (Started sse now c) = Some (job_started sse now c s)"
| "tracker_step s Stopped = Some (stopTracking s)"
| "tracker_step s PageLoad = Some (resumeJobTracking (new_tracker (stored_job s)))"
| "tracker_step s (SseProgress now d) = (if eventSource s = None then None else Some (handleProgressEvent now d s))"
| "tracker_step s (SseStage now d) = (if eventSource s = None then None
     else Some (handleStageTransition now (ev_stage d) (ev_progress d) (ev_message d) s))"
| "tracker_step s (SseDone d) = (if eventSource s = None then None else Some (handleDoneEvent d s))"
| "tracker_step s SseLost = (if eventSource s = None then None else Some (sse_lost s))"
| "tracker_step s (PollTimer i) = (case map_of (timers s) i of None \<Rightarrow> None
     | Some t \<Rightarrow> Some (poll_begin t (s\<lparr>timers := filter (\<lambda>(k, _). k \<noteq> i) (timers s)\<rparr>)))"
| "tracker_step s (PollAnswer now job t) = (if t \<in> set (polls s)
     then Some (poll_answered now job t (s\<lparr>polls := remove1 t (polls s)\<rparr>)) else None)"
| "tracker_step s (PollFailure status t) = (if t \<in> set (polls s)
     then Some (poll_failed status t (s\<lparr>polls := remove1 t (polls s)\<rparr>)) else None)"
| "tracker_step s (DoneTimeout d) = (if d \<in> set (done_timeouts s) then Some (done_timeout d s) else None)"
| "tracker_step s (ResumeAnswer sse job j) = (if j \<in> set (resumes s)
     then Some (resume_answered sse job j (s\<lparr>resumes := remove1 j (resumes s)\<rparr>)) else None)"
| "tracker_step s (ResumeFailure j) = (if j \<in> set (resumes s)
     then Some (clearJobState (s\<lparr>resumes := remove1 j (resumes s)\<rparr>)) else None)"
| "tracker_step s CancelClick = Some (cancelActiveJob s)"
| "tracker_step s (CancelAnswer i) = (if i \<in> set (cancels s)
     then Some (cancel_answered i (s\<lparr>cancels := remove1 i (cancels s)\<rparr>)) else None)"
| "tracker_step s (CancelFailure i) = (if i \<in> set (cancels s)
     then Some (cancel_failed (s\<lparr>cancels := remove1 i (cancels s)\<rparr>)) else None)"
| "tracker_step s Minimize = Some (minimizeJob s)"
| "tracker_step s Restore = Some (restoreJobModal s)"

fun tracker_run :: "tracker \<Rightarrow> tracker_event list \<Rightarrow> tracker option" where
  "tracker_run s [] = Some s"
| "tracker_run s (e # es) = (case tracker_step s e of None \<Rightarrow> None | Some t \<Rightarrow> tracker_run t es)"

end
