(* ===== verification/JobRuns.thy ===== *)
theory JobRuns
  imports JobTracker
begin

text \<open>
  Runs of the job tracker of \<^verbatim>\<open>ui/global-job-tracker.js\<close>: the agreement of the active job with the stored one
  over every sequence of events, the end of failing polls, and the delayed handling of the end of a job.
\<close>

section \<open>The stored job is the active one\<close>

definition same_job :: "tracked_job \<Rightarrow> tracked_job \<Rightarrow> bool" where
  "same_job a b \<longleftrightarrow> tj_id a = tj_id b \<and> tj_type a = tj_type b \<and> tj_areaId a = tj_areaId b \<and>
     tj_areaName a = tj_areaName b \<and> tj_minimized a = tj_minimized b"

definition mirror :: "tracker \<Rightarrow> bool" where
  "mirror s \<longleftrightarrow> (\<forall>j. activeJob s = Some j \<longrightarrow> tj_id j \<noteq> [] \<and> (\<exists>k. stored_job s = Some k \<and> same_job k j)) \<and>
     (\<forall>k. activeJob s = None \<and> stored_job s = Some k \<longrightarrow> k \<in> set (resumes s)) \<and>
     (\<forall>k \<in> set (resumes s). tj_id k \<noteq> [])"

lemma same_job_refl [simp]: "same_job j j"
  by (simp add: same_job_def)

text \<open>The operations that leave the active job, the stored job and the resumptions alone.\<close>

definition core :: "tracker \<Rightarrow> tracked_job option \<times> tracked_job option \<times> tracked_job list" where
  "core s = (activeJob s, stored_job s, resumes s)"

lemma mirror_core: "core t = core s \<Longrightarrow> mirror t = mirror s"
  by (simp add: core_def mirror_def)

named_theorems core_simps

lemma core_basic [core_simps]:
  "core (out e s) = core s" "core (updateUI s) = core s" "core (renderProgressModal s) = core s"
  "core (disconnectSSE s) = core s" "core (clearPoll s) = core s" "core (schedule_poll w t s) = core s"
  "core (poll_begin t s) = core s" "core (cancel_failed s) = core s" "core (with_metrics d s) = core s"
  "core (complete_stage k now s) = core s"
  by (simp_all add: core_def out_def updateUI_def renderProgressModal_def disconnectSSE_def clearPoll_def
      schedule_poll_def poll_begin_def cancel_failed_def with_metrics_def complete_stage_def Let_def
      split: option.split)

lemma core_startPolling [core_simps]: "core (startPolling i s) = core s"
  by (simp add: startPolling_def core_simps)

lemma core_connectSSE [core_simps]: "core (connectSSE sse i s) = core s"
proof -
  have "core (u\<lparr>eventSource := x\<rparr>) = core u" for u x by (simp add: core_def)
  then show ?thesis by (simp add: connectSSE_def Let_def core_simps)
qed

lemma core_sse_lost [core_simps]: "core (sse_lost s) = core s"
  by (simp add: sse_lost_def core_simps split: option.split)

lemma core_cancelActiveJob [core_simps]: "core (cancelActiveJob s) = core s"
  by (simp add: cancelActiveJob_def core_def split: option.split)

lemma core_stopTracking: "core (stopTracking s) = (None, None, resumes s)"
  by (simp add: stopTracking_def core_basic) (simp add: core_def saveJobState_def clearPoll_def disconnectSSE_def)

lemma core_parts:
  assumes "core s = (a, b, r)" shows "activeJob s = a" "stored_job s = b" "resumes s = r"
  using assms by (simp_all add: core_def)

lemma mirror_stopTracking: "mirror s \<Longrightarrow> mirror (stopTracking s)"
  using core_parts [OF core_stopTracking [of s]] by (simp add: mirror_def)

text \<open>After a save the two jobs are equal.\<close>

lemma mirror_saved:
  assumes "activeJob s = Some j" "tj_id j \<noteq> []" "\<forall>k \<in> set (resumes s). tj_id k \<noteq> []"
  shows "mirror (saveJobState s)"
  using assms by (simp add: mirror_def saveJobState_def)

lemma tj_kept [simp]:
  "tj_id (with_progress p t j) = tj_id j" "tj_id (with_event d j) = tj_id j" "tj_id (mapJobToState job j) = tj_id j"
  by (simp_all add: with_progress_def with_event_def mapJobToState_def Let_def split: option.split)

lemma mirror_activeD: "mirror s \<Longrightarrow> activeJob s = Some j \<Longrightarrow> tj_id j \<noteq> [] \<and> (\<forall>k \<in> set (resumes s). tj_id k \<noteq> [])"
  by (simp add: mirror_def)

lemma stage_transition_core:
  "core (handleStageTransition now st p m s) =
     (case (activeJob s, given st) of
        (Some j, Some _) \<Rightarrow> (Some (with_progress p m j), Some (with_progress p m j), resumes s) | _ \<Rightarrow> core s)"
proof (cases "activeJob s")
  case (Some j)
  have "resumes (complete_stage k now s) = resumes s" for k
    using core_basic(10) [of k now s] by (simp add: core_def)
  then show ?thesis using Some
    by (simp add: handleStageTransition_def Let_def core_basic split: option.split) (simp add: core_def saveJobState_def)
qed (simp add: handleStageTransition_def)

lemma mirror_saved_core:
  assumes "core s = (Some j, Some j, r)" "tj_id j \<noteq> []" "\<forall>k \<in> set r. tj_id k \<noteq> []"
  shows "mirror s"
  using core_parts [OF assms(1)] assms(2,3) by (simp add: mirror_def)

lemma mirror_stage: assumes "mirror s" shows "mirror (handleStageTransition now st p m s)"
proof (cases "activeJob s = None \<or> given st = None")
  case True
  then have "core (handleStageTransition now st p m s) = core s"
    by (auto simp: stage_transition_core split: option.split)
  then show ?thesis using assms mirror_core by blast
next
  case False
  then obtain j k where j: "activeJob s = Some j" "given st = Some k" by auto
  then show ?thesis using mirror_activeD [OF assms j(1)]
    by (intro mirror_saved_core [of _ "with_progress p m j" "resumes s"]) (simp_all add: stage_transition_core)
qed

lemma mirror_progress: assumes "mirror s" shows "mirror (handleProgressEvent now d s)"
proof (cases "activeJob s")
  case None
  then show ?thesis using assms by (simp add: handleProgressEvent_def)
next
  case (Some j)
  define s1 where "s1 = (if given (ev_stage d) \<noteq> None \<and> ev_stage d \<noteq> activeStageKey s
    then handleStageTransition now (ev_stage d) (ev_progress d) (ev_message d) s else s)"
  have m1: "mirror s1" unfolding s1_def using assms mirror_stage by simp
  have "activeJob s1 \<noteq> None" unfolding s1_def
    using stage_transition_core [of now "ev_stage d" "ev_progress d" "ev_message d" s] Some
    by (auto split: option.splits simp: core_def)
  then obtain j1 where j1: "activeJob s1 = Some j1" by blast
  define s2 where "s2 = with_metrics d (s1\<lparr>activeJob := map_option (with_event d) (activeJob s1)\<rparr>)"
  have c2: "core s2 = (Some (with_event d j1), stored_job s1, resumes s1)"
    unfolding s2_def core_basic by (simp add: core_def j1)
  have "mirror (saveJobState s2)"
    using core_parts [OF c2] mirror_activeD [OF m1 j1] by (intro mirror_saved [of _ "with_event d j1"]) simp_all
  then have "mirror (updateUI (saveJobState s2))" using mirror_core core_basic(2) by blast
  then show ?thesis unfolding handleProgressEvent_def Let_def s1_def [symmetric] s2_def [symmetric]
    using assms by simp
qed

lemma mirror_done: assumes "mirror s" shows "mirror (handleDoneEvent d s)"
proof (cases "activeJob s")
  case None
  then show ?thesis using assms by (simp add: handleDoneEvent_def)
next
  case (Some j)
  then show ?thesis using assms
    by (auto simp: handleDoneEvent_def mirror_def Let_def updateUI_def out_def same_job_def split: option.split)
qed

lemma mirror_poll_failed: "mirror s \<Longrightarrow> mirror (poll_failed st t s)"
  using mirror_core [OF core_basic(6)] by (simp add: poll_failed_def Let_def mirror_stopTracking)

lemma mirror_answered: assumes "mirror s" shows "mirror (poll_answered now job t s)"
proof (cases "activeJob s")
  case None
  then show ?thesis using assms by (simp add: poll_answered_def Let_def mirror_poll_failed)
next
  case (Some j)
  define s1 where "s1 = s\<lparr>activeJob := Some (mapJobToState job j)\<rparr>"
  define s2 where "s2 = (if given (sj_stage job) \<noteq> None \<and> sj_stage job \<noteq> tj_stage j
    then handleStageTransition now (sj_stage job) (sj_progress job) None s1 else s1)"
  have "\<exists>j2. activeJob s2 = Some j2 \<and> tj_id j2 = tj_id j \<and> resumes s2 = resumes s"
    unfolding s2_def using stage_transition_core [of now "sj_stage job" "sj_progress job" None s1]
    by (auto simp: core_def s1_def split: option.splits)
  then obtain j2 where j2: "activeJob s2 = Some j2" "tj_id j2 = tj_id j" "resumes s2 = resumes s" by blast
  have m: "mirror (saveJobState s2)" using mirror_activeD [OF assms Some] j2 by (intro mirror_saved [of _ j2]) simp_all
  have "mirror (schedule_poll w t' (updateUI (saveJobState s2)))" for w t'
    using m mirror_core core_basic by metis
  then show ?thesis using mirror_done [OF m]
    unfolding poll_answered_def Let_def Some option.case s1_def [symmetric] s2_def [symmetric] by simp
qed

lemma mirror_start: assumes "mirror s" shows "mirror (job_started sse now c s)"
proof (cases "jc_id c = []")
  case False
  have "mirror (startGlobalTracking sse now c s)"
    unfolding startGlobalTracking_def Let_def
    by (subst mirror_core [OF core_connectSSE], subst mirror_core [OF core_basic(1)],
        subst mirror_core [OF core_basic(3)], rule mirror_saved)
      (use False assms in \<open>auto simp: mirror_def\<close>)
  then show ?thesis using False by (simp add: job_started_def)
qed (use assms in \<open>simp add: job_started_def\<close>)

lemma mirror_resume_answered:
  assumes "\<forall>k \<in> set (resumes s). tj_id k \<noteq> []" "tj_id j \<noteq> []"
  shows "mirror (resume_answered sse job j s)"
proof (cases "isJobActive (sj_status job)")
  case True
  let ?s1 = "saveJobState (s\<lparr>activeJob := Some (mapJobToState job j)\<rparr>)"
  have m: "mirror ?s1" using assms by (intro mirror_saved [of _ "mapJobToState job j"]) simp_all
  have "core (resume_answered sse job j s) = core ?s1"
    using True by (simp add: resume_answered_def Let_def core_simps)
  then show ?thesis using m mirror_core by blast
next
  case False
  have "core (handleJobFinished job s) = (None, None, resumes s)"
    by (simp add: handleJobFinished_def Let_def core_basic core_stopTracking)
  from core_parts [OF this] False assms show ?thesis by (simp add: resume_answered_def mirror_def)
qed

definition tracker_moves :: "tracker \<Rightarrow> tracker_event \<Rightarrow> tracker \<Rightarrow> bool" where
  "tracker_moves s e t \<longleftrightarrow> tracker_step s e = Some t"

definition tracker_start :: "tracker \<Rightarrow> bool" where
  "tracker_start s \<longleftrightarrow> s = new_tracker None"

lemma mirror_step: assumes "mirror s" "tracker_step s e = Some t" shows "mirror t"
proof (cases e)
  case (PollTimer i)
  then obtain tk where "t = poll_begin tk (s\<lparr>timers := filter (\<lambda>(k, _). k \<noteq> i) (timers s)\<rparr>)"
    using assms(2) by (auto split: option.splits)
  then have "core t = core s" by (simp add: core_basic) (simp add: core_def)
  then show ?thesis using assms(1) mirror_core by blast
next
  case (PollAnswer now job tk)
  then have "t = poll_answered now job tk (s\<lparr>polls := remove1 tk (polls s)\<rparr>)" using assms(2) by (auto split: if_splits)
  moreover have "mirror (s\<lparr>polls := remove1 tk (polls s)\<rparr>)" using assms(1) by (simp add: mirror_def)
  ultimately show ?thesis using mirror_answered by simp
next
  case (PollFailure st tk)
  then have "t = poll_failed st tk (s\<lparr>polls := remove1 tk (polls s)\<rparr>)" using assms(2) by (auto split: if_splits)
  moreover have "mirror (s\<lparr>polls := remove1 tk (polls s)\<rparr>)" using assms(1) by (simp add: mirror_def)
  ultimately show ?thesis using mirror_poll_failed by simp
next
  case (DoneTimeout d)
  then have t: "t = done_timeout d s" using assms(2) by (auto split: if_splits)
  have "core t = (None, None, resumes s)"
    unfolding t done_timeout_def Let_def core_basic core_stopTracking by simp
  from core_parts [OF this] assms(1) show ?thesis by (simp add: mirror_def)
next
  case (ResumeAnswer sse job j)
  then have t: "t = resume_answered sse job j (s\<lparr>resumes := remove1 j (resumes s)\<rparr>)" and j: "j \<in> set (resumes s)"
    using assms(2) by (auto split: if_splits)
  show ?thesis unfolding t
    by (rule mirror_resume_answered) (use assms(1) j in \<open>auto simp: mirror_def dest: notin_set_remove1 set_remove1_subset [THEN subsetD]\<close>)
next
  case (ResumeFailure j)
  then have t: "t = clearJobState (s\<lparr>resumes := remove1 j (resumes s)\<rparr>)" using assms(2) by (auto split: if_splits)
  show ?thesis unfolding t using assms(1)
    by (auto simp: mirror_def clearJobState_def dest: set_remove1_subset [THEN subsetD])
next
  case (CancelAnswer i)
  then have t: "t = cancel_answered i (s\<lparr>cancels := remove1 i (cancels s)\<rparr>)" using assms(2) by (auto split: if_splits)
  have "core t = (None, None, resumes s)" unfolding t cancel_answered_def core_basic core_stopTracking by simp
  from core_parts [OF this] assms(1) show ?thesis by (simp add: mirror_def)
next
  case (CancelFailure i)
  then have t: "t = cancel_failed (s\<lparr>cancels := remove1 i (cancels s)\<rparr>)" using assms(2) by (auto split: if_splits)
  have "core t = core s" unfolding t core_basic by (simp add: core_def)
  then show ?thesis using assms(1) mirror_core by blast
next
  case PageLoad
  then show ?thesis using assms
    by (auto simp: resumeJobTracking_def new_tracker_def mirror_def same_job_def split: option.splits)
next
  case Minimize
  then have t: "t = minimizeJob s" using assms(2) by simp
  show ?thesis
  proof (cases "activeJob s")
    case (Some j)
    have "core t = core (saveJobState (s\<lparr>activeJob := Some (j\<lparr>tj_minimized := True\<rparr>)\<rparr>))"
      unfolding t minimizeJob_def by (simp add: Some core_basic)
    moreover have "mirror (saveJobState (s\<lparr>activeJob := Some (j\<lparr>tj_minimized := True\<rparr>)\<rparr>))"
      using mirror_activeD [OF assms(1) Some] by (intro mirror_saved [of _ "j\<lparr>tj_minimized := True\<rparr>"]) simp_all
    ultimately show ?thesis using mirror_core by blast
  qed (use assms(1) t in \<open>simp add: minimizeJob_def\<close>)
next
  case Restore
  then have t: "t = restoreJobModal s" using assms(2) by simp
  show ?thesis
  proof (cases "activeJob s")
    case (Some j)
    have "core t = core (saveJobState (s\<lparr>activeJob := Some (j\<lparr>tj_minimized := False\<rparr>)\<rparr>))"
      unfolding t restoreJobModal_def by (simp add: Some core_basic)
    moreover have "mirror (saveJobState (s\<lparr>activeJob := Some (j\<lparr>tj_minimized := False\<rparr>)\<rparr>))"
      using mirror_activeD [OF assms(1) Some] by (intro mirror_saved [of _ "j\<lparr>tj_minimized := False\<rparr>"]) simp_all
    ultimately show ?thesis using mirror_core by blast
  qed (use assms(1) t in \<open>simp add: restoreJobModal_def\<close>)
next
  case (Started sse now c)
  then have "t = job_started sse now c s" using assms(2) by simp
  then show ?thesis using assms(1) by (simp add: mirror_start)
next
  case Stopped
  then have "t = stopTracking s" using assms(2) by simp
  then show ?thesis using assms(1) by (simp add: mirror_stopTracking)
next
  case (SseProgress now d)
  then have "t = handleProgressEvent now d s" using assms(2) by (auto split: if_splits)
  then show ?thesis using assms(1) mirror_progress by simp
next
  case (SseStage now d)
  then have "t = handleStageTransition now (ev_stage d) (ev_progress d) (ev_message d) s"
    using assms(2) by (auto split: if_splits)
  then show ?thesis using assms(1) mirror_stage by simp
next
  case (SseDone d)
  then have "t = handleDoneEvent d s" using assms(2) by (auto split: if_splits)
  then show ?thesis using assms(1) mirror_done by simp
next
  case SseLost
  then have "t = sse_lost s" using assms(2) by (auto split: if_splits)
  then show ?thesis using assms(1) mirror_core [OF core_sse_lost] by blast
next
  case CancelClick
  then have "t = cancelActiveJob s" using assms(2) by simp
  then show ?thesis using assms(1) mirror_core [OF core_cancelActiveJob] by blast
qed

interpretation tracker_events: event_system tracker_start tracker_moves mirror
proof unfold_locales
  fix s assume "tracker_start s"
  then show "mirror s" by (simp add: tracker_start_def new_tracker_def mirror_def)
next
  fix s e t assume "mirror s" "tracker_moves s e t"
  then show "mirror t" unfolding tracker_moves_def by (rule mirror_step)
qed

lemma run_reach_tracker:
  "tracker_run s es = Some t \<Longrightarrow> reach tracker_start tracker_moves s \<Longrightarrow> reach tracker_start tracker_moves t"
proof (induction es arbitrary: s)
  case (Cons e es)
  from Cons.prems(1) obtain u where u: "tracker_step s e = Some u" "tracker_run u es = Some t"
    by (auto split: option.splits)
  have "tracker_moves s e u" using u(1) by (simp add: tracker_moves_def)
  with Cons.prems(2) have "reach tracker_start tracker_moves u" by (rule reach_step)
  with Cons.IH [OF u(2)] show ?case by blast
qed simp

lemma run_mirror: assumes "tracker_run (new_tracker None) es = Some s" shows "mirror s"
  by (rule tracker_events.reachable_inv, rule run_reach_tracker [OF assms], rule reach_init)
    (simp add: tracker_start_def)

text \<open>
  C20. A page load goes on with the job that was tracked: after any sequence of events, a new page asks the
  server for exactly the job that was active (same identifier, type, area and minimised flag), and for
  no job when none was active and no resumption was under way.
\<close>

theorem job_survives_reload:
  assumes "tracker_run (new_tracker None) es = Some s"
  defines "page \<equiv> resumeJobTracking (new_tracker (stored_job s))"
  shows "(\<forall>j. activeJob s = Some j \<longrightarrow> (\<exists>k. resumes page = [k] \<and> same_job k j)) \<and>
    (activeJob s = None \<and> resumes s = [] \<longrightarrow> resumes page = [])"
  using run_mirror [OF assms(1)]
  by (auto simp: page_def mirror_def resumeJobTracking_def new_tracker_def same_job_def split: option.split)

definition rebuild_config :: job_config where
  "rebuild_config = \<lparr>jc_id = ''j1'', jc_type = Some ''area_rebuild'', jc_areaId = Some ''a1'',
     jc_areaName = Some ''Waco'', jc_message = None\<rparr>"

lemmas job_exec = job_started_def startGlobalTracking_def connectSSE_def startPolling_def poll_begin_def clearPoll_def
  disconnectSSE_def renderProgressModal_def updateUI_def saveJobState_def out_def minimizeJob_def new_tracker_def
  rebuild_config_def or_else_def given_def shown_def

theorem job_survives_reload_witness:
  "\<exists>s j k. tracker_run (new_tracker None) [Started True 1000 rebuild_config, Minimize] = Some s \<and>
     activeJob s = Some j \<and> tj_id j = ''j1'' \<and>
     resumes (resumeJobTracking (new_tracker (stored_job s))) = [k] \<and> same_job k j"
proof -
  obtain s j where s: "tracker_run (new_tracker None) [Started True 1000 rebuild_config, Minimize] = Some s"
    "activeJob s = Some j" "tj_id j = ''j1''"
    by (simp add: job_exec Let_def)
  from job_survives_reload [OF s(1)] s show ?thesis by blast
qed

section \<open>Failing polls\<close>

definition timers_fresh :: "tracker \<Rightarrow> bool" where
  "timers_fresh s \<longleftrightarrow> (\<forall>(i, t) \<in> set (timers s). i < next_timer s)"

lemma fail_step:
  assumes "t \<in> set (polls s)" "Suc (pt_errors t) < MAX_POLL_ERRORS" "timers_fresh s"
    and "activeJob s = Some j" "tj_id j = pt_job t"
  shows "\<exists>u. (\<forall>es. tracker_run s (PollFailure None t # PollTimer (next_timer s) # es) = tracker_run u es) \<and>
    t\<lparr>pt_errors := Suc (pt_errors t)\<rparr> \<in> set (polls u) \<and> activeJob u = Some j \<and> timers_fresh u \<and>
    next_timer u = Suc (next_timer s) \<and>
    timer_waits u = timer_waits s @ [min (2000 * 2 ^ Suc (pt_errors t)) 30000]"
proof -
  let ?t = "t\<lparr>pt_errors := Suc (pt_errors t)\<rparr>" and ?n = "next_timer s"
  define v where "v = poll_failed None t (s\<lparr>polls := remove1 t (polls s)\<rparr>)"
  have v: "v = schedule_poll (min (2000 * 2 ^ Suc (pt_errors t)) 30000) ?t (s\<lparr>polls := remove1 t (polls s)\<rparr>)"
    using assms(2) by (simp add: v_def poll_failed_def JOB_POLL_INTERVAL_MS_def Let_def)
  have "map_of (timers s) ?n = None" using assms(3) by (auto simp: timers_fresh_def map_of_eq_None_iff)
  then have m: "map_of (timers v) ?n = Some ?t" by (simp add: v schedule_poll_def map_add_def)
  define u where "u = poll_begin ?t (v\<lparr>timers := filter (\<lambda>(k, _). k \<noteq> ?n) (timers v)\<rparr>)"
  have run: "tracker_run s (PollFailure None t # PollTimer ?n # es) = tracker_run u es" for es
    using assms(1) m by (simp add: v_def u_def)
  have u: "u = (v\<lparr>timers := filter (\<lambda>(k, _). k \<noteq> ?n) (timers v)\<rparr>)\<lparr>polls := polls v @ [?t]\<rparr>"
    using assms(4,5) by (simp add: u_def poll_begin_def v schedule_poll_def)
  have "timers_fresh u" using assms(3) by (auto simp: u v schedule_poll_def timers_fresh_def)
  then show ?thesis using run assms(4) by (intro exI [of _ u]) (simp add: u v schedule_poll_def)
qed

lemma fail_token:
  assumes "\<lparr>pt_job = tj_id j, pt_errors = k\<rparr> \<in> set (polls s)" "k < 4" "timers_fresh s" "activeJob s = Some j"
    and "k' = Suc k" "n = next_timer s"
  shows "\<exists>u. (\<forall>es. tracker_run s (PollFailure None \<lparr>pt_job = tj_id j, pt_errors = k\<rparr> # PollTimer n # es) =
      tracker_run u es) \<and>
    \<lparr>pt_job = tj_id j, pt_errors = k'\<rparr> \<in> set (polls u) \<and> activeJob u = Some j \<and> timers_fresh u \<and>
    next_timer u = Suc n \<and> timer_waits u = timer_waits s @ [min (2000 * 2 ^ k') 30000]"
  using fail_step [OF assms(1) _ assms(3,4)] assms(2,5,6)
  by (simp add: MAX_POLL_ERRORS_def del: tracker_run.simps power_Suc)

definition failing_polls :: "string \<Rightarrow> nat \<Rightarrow> tracker_event list" where
  "failing_polls i n = (let t = (\<lambda>k. \<lparr>pt_job = i, pt_errors = k\<rparr>) in
     [PollFailure None (t 0), PollTimer n, PollFailure None (t 1), PollTimer (n + 1), PollFailure None (t 2),
      PollTimer (n + 2), PollFailure None (t 3), PollTimer (n + 3), PollFailure None (t 4)])"

text \<open>
  Polling that only fails gives up: after the fifth failure in a row tracking stops, nothing stays
  stored, and the waits between the polls were 4, 8, 16 and 30 seconds.
\<close>

theorem failing_polls_stop:
  assumes "\<lparr>pt_job = tj_id j, pt_errors = 0\<rparr> \<in> set (polls s)" "timers_fresh s" "activeJob s = Some j"
  shows "\<exists>t. tracker_run s (failing_polls (tj_id j) (next_timer s)) = Some t \<and> activeJob t = None \<and>
    stored_job t = None \<and> eventSource t = None \<and> timer_waits t = timer_waits s @ [4000, 8000, 16000, 30000]"
proof -
  let ?t = "\<lambda>k. \<lparr>pt_job = tj_id j, pt_errors = k\<rparr>" and ?n = "next_timer s"
  obtain s1 where 1: "\<forall>es. tracker_run s (PollFailure None (?t 0) # PollTimer ?n # es) = tracker_run s1 es"
    "?t 1 \<in> set (polls s1)" "activeJob s1 = Some j" "timers_fresh s1" "next_timer s1 = Suc ?n"
    "timer_waits s1 = timer_waits s @ [min (2000 * 2 ^ 1) 30000]"
    using fail_token [OF assms(1) _ assms(2,3), of 1] by fastforce
  obtain s2 where 2: "\<forall>es. tracker_run s1 (PollFailure None (?t 1) # PollTimer (?n + 1) # es) = tracker_run s2 es"
    "?t 2 \<in> set (polls s2)" "activeJob s2 = Some j" "timers_fresh s2" "next_timer s2 = Suc (?n + 1)"
    "timer_waits s2 = timer_waits s1 @ [min (2000 * 2 ^ 2) 30000]"
    using fail_token [OF 1(2) _ 1(4,3), of 2 "?n + 1"] 1(5) by fastforce
  obtain s3 where 3: "\<forall>es. tracker_run s2 (PollFailure None (?t 2) # PollTimer (?n + 2) # es) = tracker_run s3 es"
    "?t 3 \<in> set (polls s3)" "activeJob s3 = Some j" "timers_fresh s3" "next_timer s3 = Suc (?n + 2)"
    "timer_waits s3 = timer_waits s2 @ [min (2000 * 2 ^ 3) 30000]"
    using fail_token [OF 2(2) _ 2(4,3), of 3 "?n + 2"] 2(5) by fastforce
  obtain s4 where 4: "\<forall>es. tracker_run s3 (PollFailure None (?t 3) # PollTimer (?n + 3) # es) = tracker_run s4 es"
    "?t 4 \<in> set (polls s4)" "timer_waits s4 = timer_waits s3 @ [min (2000 * 2 ^ 4) 30000]"
    using fail_token [OF 3(2) _ 3(4,3), of 4 "?n + 3"] 3(5) by fastforce
  let ?u = "stopTracking (s4\<lparr>polls := remove1 (?t 4) (polls s4)\<rparr>)"
  have "tracker_run s4 [PollFailure None (?t 4)] = Some ?u"
    using 4(2) by (simp add: poll_failed_def MAX_POLL_ERRORS_def)
  then have "tracker_run s (failing_polls (tj_id j) ?n) = Some ?u"
    unfolding failing_polls_def Let_def using 1(1) 2(1) 3(1) 4(1) by metis
  moreover have "timer_waits ?u = timer_waits s4" "eventSource ?u = None"
    by (simp_all add: stopTracking_def out_def saveJobState_def clearPoll_def disconnectSSE_def)
  ultimately show ?thesis using core_parts [OF core_stopTracking] 1(6) 2(6) 3(6) 4(3) by auto
qed

theorem failing_polls_stop_witness:
  "\<exists>s t. tracker_run (new_tracker None) [Started False 1000 rebuild_config] = Some s \<and>
     tracker_run s (failing_polls ''j1'' (next_timer s)) = Some t \<and> activeJob t = None \<and>
     timer_waits t = [4000, 8000, 16000, 30000]"
proof -
  obtain s j where s: "tracker_run (new_tracker None) [Started False 1000 rebuild_config] = Some s"
    "activeJob s = Some j" "tj_id j = ''j1''" "\<lparr>pt_job = tj_id j, pt_errors = 0\<rparr> \<in> set (polls s)"
    "timers_fresh s" "timer_waits s = []"
    by (simp add: job_exec timers_fresh_def Let_def)
  from failing_polls_stop [OF s(4,5,2)] s show ?thesis by auto
qed

section \<open>The delayed end of a job\<close>

text \<open>
  The message that a job is complete never names the kind of job: it is put together after the active
  job was cleared, so that a rebuild or a backfill is reported as \<open>Setting Up Area\<close>.
\<close>

theorem completion_title:
  assumes "ev_status d = Some ''completed''"
  shows "outputs (done_timeout d s) =
    outputs s @ [HideModal, HideBadge, NotifyDone ''Setting Up Area'' (ev_result d), JobFinished d True]"
  using assms by (simp add: done_timeout_def stopTracking_def out_def saveJobState_def clearPoll_def
      disconnectSSE_def getJobTitle_def Let_def)

definition done_event :: job_event where
  "done_event = \<lparr>ev_stage = None, ev_progress = None, ev_message = None, ev_status = Some ''completed'',
     ev_metrics = None, ev_result = None, ev_error = None\<rparr>"

theorem completion_title_witness:
  "let s = job_started True 1000 rebuild_config (new_tracker None)
   in getJobTitle (map_option tj_type (activeJob s)) = ''Rebuilding Area'' \<and>
      NotifyDone ''Setting Up Area'' None \<in> set (outputs (done_timeout done_event (handleDoneEvent done_event s)))"
  using completion_title [of done_event "handleDoneEvent done_event (job_started True 1000 rebuild_config (new_tracker None))"]
  by (simp add: done_event_def getJobTitle_def job_exec Let_def)

text \<open>
  A job started within the 800 ms after the end of another job is lost: the delayed handling of the
  first job's end stops the tracking of the new one, removes it from the storage and closes its stream,
  although nothing was heard of its end.
\<close>

theorem done_timeout_stops_next_job:
  assumes "eventSource s \<noteq> None" "activeJob s \<noteq> None" "jc_id c \<noteq> []"
  shows "\<exists>t u j. tracker_run s [SseDone d, Started sse now c] = Some t \<and> activeJob t = Some j \<and> tj_id j = jc_id c \<and>
    tracker_run t [DoneTimeout d] = Some u \<and> activeJob u = None \<and> stored_job u = None \<and> eventSource u = None"
proof -
  obtain j0 where j0: "activeJob s = Some j0" using assms(2) by blast
  define t where "t = job_started sse now c (handleDoneEvent d s)"
  have t: "tracker_run s [SseDone d, Started sse now c] = Some t" using assms(1) by (simp add: t_def)
  have dt: "d \<in> set (done_timeouts t)"
    using assms(3) by (simp add: t_def job_exec handleDoneEvent_def j0 Let_def split: option.split)
  obtain j where j: "activeJob t = Some j" "tj_id j = jc_id c"
    using assms(3) by (simp add: t_def job_exec Let_def split: option.split)
  let ?u = "done_timeout d t"
  have u: "tracker_run t [DoneTimeout d] = Some ?u" using dt by simp
  have "core ?u = (None, None, resumes t)"
    unfolding done_timeout_def Let_def core_basic core_stopTracking by simp
  moreover have "eventSource ?u = None"
    by (simp add: done_timeout_def stopTracking_def out_def saveJobState_def clearPoll_def disconnectSSE_def Let_def)
  ultimately show ?thesis using t j u core_parts by blast
qed

theorem done_timeout_stops_next_job_witness:
  "let s = job_started True 1000 (rebuild_config\<lparr>jc_id := ''j0''\<rparr>) (new_tracker None)
   in \<exists>t u j. tracker_run s [SseDone done_event, Started True 1500 rebuild_config] = Some t \<and>
     activeJob t = Some j \<and> tj_id j = ''j1'' \<and> tracker_run t [DoneTimeout done_event] = Some u \<and> activeJob u = None"
  using done_timeout_stops_next_job [of "job_started True 1000 (rebuild_config\<lparr>jc_id := ''j0''\<rparr>) (new_tracker None)"
    rebuild_config done_event True 1500]
  by (simp add: job_exec Let_def del: tracker_run.simps) blast

text \<open>
  A run in which the end of one job is announced twice, once for the stream's event and once for the
  poll's answer.
\<close>

definition finished_job :: server_job where
  "finished_job = \<lparr>sj_status = Some ''completed'', sj_progress = Some 100, sj_message = None, sj_stage = None,
     sj_error = None, sj_started = None, sj_result = None, sj_type = None\<rparr>"

lemma job_finished_twice:
  "case tracker_run (new_tracker None)
      [Started True 1000 rebuild_config, SseDone done_event,
       PollAnswer 1100 finished_job \<lparr>pt_job = ''j1'', pt_errors = 0\<rparr>, DoneTimeout done_event, DoneTimeout done_event] of
     None \<Rightarrow> False
   | Some s \<Rightarrow> length (filter (\<lambda>e. e = JobFinished done_event True) (outputs s)) = 2"
  by (simp add: job_exec handleDoneEvent_def done_timeout_def stopTracking_def poll_answered_def job_event_of_def
      finished_job_def done_event_def isJobActive_def mapJobToState_def Let_def)

end
