(* ===== verification/DriveSimulation.thy ===== *)
theory DriveSimulation
  imports JSBase "HOL-Library.Multiset" "HOL-Library.List_Lexorder" "HOL-Library.Char_ord"
begin

text \<open>
  The drive simulation of the route planner, \<open>static/js/modules/optimal-route/simulation.js\<close> (class
  \<open>DriveSimulation\<close>): a selection of street segments whose effect on the coverage is asked from the server.

  \<^item> Selected segments are kept in the order of selection, each with its feature (type \<open>'f\<close>).
  \<^item> A request that is out is a record of what \<open>_simulate\<close> holds over its await. Its answer, of type \<open>'d\<close>,
    comes in any order, also after newer requests were sent. Controllers are numbers.
  \<^item> Handlers of the map are bound and unbound; \<open>bound\<close> counts the bindings. Drawing is left out.
  \<^item> \<open>sim_updates\<close> are the calls of \<open>onStatsUpdate\<close>.
  \<^item> Shown: a result is only ever reported for the segments selected at that moment.
\<close>

section \<open>State\<close>

record ('f) sim_feature =
  sf_id :: "string option"
  sf_status :: "string option"
  sf_body :: 'f

record sim_request =
  sr_sequence :: nat
  sr_ids :: "string list"
  sr_signature :: string
  sr_area :: string
  sr_controller :: nat

datatype 'd sim_update = NoStats | Stats 'd nat

datatype 'd sim_answer = Answer bool 'd | SimAborted | SimFailed

record ('f, 'd) sim =
  sim_area :: "string option"
  sim_active :: bool
  selectedSegments :: "(string \<times> 'f sim_feature) list"
  debounceTimer :: bool
  simulationController :: "nat option"
  aborted_controllers :: "nat list"
  next_controller :: nat
  simulationSequence :: nat
  sim_requests :: "sim_request list"
  bound :: nat
  sim_updates :: "'d sim_update list"
  sim_errors :: nat

definition new_sim :: "('f, 'd) sim" where
  "new_sim = \<lparr>sim_area = None, sim_active = False, selectedSegments = [], debounceTimer = False,
     simulationController = None, aborted_controllers = [], next_controller = 0, simulationSequence = 0,
     sim_requests = [], bound = 0, sim_updates = [], sim_errors = 0\<rparr>"

section \<open>Operations\<close>

definition selected_ids :: "('f, 'd) sim \<Rightarrow> string list" where
  "selected_ids s = map fst (selectedSegments s)"

definition signature_of :: "string list \<Rightarrow> string" where
  "signature_of ids = join_with CHR ''|'' (sort ids)"

definition stats_update :: "'d sim_update \<Rightarrow> ('f, 'd) sim \<Rightarrow> ('f, 'd) sim" where
  "stats_update u s = s\<lparr>sim_updates := sim_updates s @ [u]\<rparr>"

definition abort_current :: "('f, 'd) sim \<Rightarrow> ('f, 'd) sim" where
  "abort_current s =
     (case simulationController s of None \<Rightarrow> s
      | Some c \<Rightarrow> s\<lparr>aborted_controllers := set_add c (aborted_controllers s)\<rparr>)"

definition activate :: "string \<Rightarrow> ('f, 'd) sim \<Rightarrow> ('f, 'd) sim" where
  "activate areaId s =
     (if sim_active s \<and> sim_area s = Some areaId then s
      else s\<lparr>sim_area := Some areaId, sim_active := True, selectedSegments := [], bound := Suc (bound s)\<rparr>)"

definition deactivate :: "('f, 'd) sim \<Rightarrow> ('f, 'd) sim" where
  "deactivate s =
     stats_update NoStats ((abort_current (s\<lparr>sim_active := False, debounceTimer := False\<rparr>))
       \<lparr>simulationController := None, bound := bound s - 1, selectedSegments := []\<rparr>)"

definition clearSelection :: "('f, 'd) sim \<Rightarrow> ('f, 'd) sim" where
  "clearSelection s =
     stats_update NoStats ((abort_current (s\<lparr>debounceTimer := False\<rparr>))
       \<lparr>simulationController := None, selectedSegments := []\<rparr>)"

definition debouncedSimulate :: "('f, 'd) sim \<Rightarrow> ('f, 'd) sim" where
  "debouncedSimulate s = s\<lparr>debounceTimer := True\<rparr>"

definition toggleSegment :: "'f sim_feature \<Rightarrow> ('f, 'd) sim \<Rightarrow> ('f, 'd) sim" where
  "toggleSegment f s =
     (case sf_id f of
        None \<Rightarrow> s
      | Some i \<Rightarrow>
          if i = [] then s
          else debouncedSimulate (s\<lparr>selectedSegments :=
            (if map_of (selectedSegments s) i \<noteq> None then AList.delete i (selectedSegments s)
             else AList.update i f (selectedSegments s))\<rparr>))"

text \<open>\<open>_handleClick\<close> with the features under the pointer.\<close>

definition handleClick :: "'f sim_feature list \<Rightarrow> ('f, 'd) sim \<Rightarrow> ('f, 'd) sim" where
  "handleClick fs s = (if \<not> sim_active s then s else case fs of [] \<Rightarrow> s | f # _ \<Rightarrow> toggleSegment f s)"

text \<open>\<open>_simulate\<close> up to its request.\<close>

definition simulate :: "('f, 'd) sim \<Rightarrow> ('f, 'd) sim" where
  "simulate s =
     (case sim_area s of
        Some area \<Rightarrow>
          if area = [] \<or> selectedSegments s = [] then stats_update NoStats s
          else
            let ids = selected_ids s; n = Suc (simulationSequence s); c = next_controller s;
                s1 = abort_current (s\<lparr>simulationSequence := n\<rparr>)
            in s1\<lparr>simulationController := Some c, next_controller := Suc c,
                  sim_requests := sim_requests s1 @ [\<lparr>sr_sequence = n, sr_ids = ids, sr_signature = signature_of ids,
                    sr_area = area, sr_controller = c\<rparr>]\<rparr>
      | None \<Rightarrow> stats_update NoStats s)"

definition add_feature :: "(string \<times> 'f sim_feature) list \<Rightarrow> 'f sim_feature \<Rightarrow> (string \<times> 'f sim_feature) list" where
  "add_feature sel f =
     (let i = (case sf_id f of None \<Rightarrow> [] | Some x \<Rightarrow> x);
          status = str_lower (case sf_status f of None \<Rightarrow> ''undriven'' | Some x \<Rightarrow> if x = [] then ''undriven'' else x)
      in if i \<noteq> [] \<and> status = ''undriven'' then AList.update i f sel else sel)"

definition hydrateSelection :: "string \<Rightarrow> 'f sim_feature list \<Rightarrow> ('f, 'd) sim \<Rightarrow> ('f, 'd) sim \<times> nat" where
  "hydrateSelection areaId fs s =
     (let s1 = activate areaId s;
          s2 = s1\<lparr>selectedSegments := foldl add_feature [] fs\<rparr>;
          s3 = (if length (selectedSegments s2) > 0 then simulate s2 else stats_update NoStats s2)
      in (s3, length (selectedSegments s3)))"

definition setArea :: "string option \<Rightarrow> ('f, 'd) sim \<Rightarrow> ('f, 'd) sim" where
  "setArea areaId s = (if sim_active s then deactivate s else s)\<lparr>sim_area := areaId\<rparr>"

text \<open>The answer of a request, with the checks after the await and the \<open>finally\<close>.\<close>

definition release_controller :: "nat \<Rightarrow> ('f, 'd) sim \<Rightarrow> ('f, 'd) sim" where
  "release_controller c s = (if simulationController s = Some c then s\<lparr>simulationController := None\<rparr> else s)"

definition simulate_answered :: "sim_request \<Rightarrow> 'd sim_answer \<Rightarrow> ('f, 'd) sim \<Rightarrow> ('f, 'd) sim" where
  "simulate_answered r a s0 =
     (let s = s0\<lparr>sim_requests := remove1 r (sim_requests s0)\<rparr>
      in release_controller (sr_controller r)
        (case a of
           SimAborted \<Rightarrow> s
         | SimFailed \<Rightarrow> s\<lparr>sim_errors := Suc (sim_errors s)\<rparr>
         | Answer success d \<Rightarrow>
             if sr_sequence r \<noteq> simulationSequence s \<or> sr_signature r \<noteq> signature_of (selected_ids s) then s
             else if success then stats_update (Stats d (length (selectedSegments s))) s else s))"

section \<open>Events\<close>

datatype ('f, 'd) sim_event =
    SimActivate string | SimDeactivate | SimClear | SimClick "'f sim_feature list"
  | SimHydrate string "'f sim_feature list" | SimSetArea "string option" | SimTimer
  | SimAnswer sim_request "'d sim_answer"

fun sim_step :: "('f, 'd) sim \<Rightarrow> ('f, 'd) sim_event \<Rightarrow> ('f, 'd) sim option" where
  "sim_step s (SimActivate a) = Some (activate a s)"
| "sim_step s SimDeactivate = Some (deactivate s)"
| "sim_step s SimClear = Some (clearSelection s)"
| "sim_step s (SimClick fs) = Some (handleClick fs s)"
| "sim_step s (SimHydrate a fs) = Some (fst (hydrateSelection a fs s))"
| "sim_step s (SimSetArea a) = Some (setArea a s)"
| "sim_step s SimTimer = (if debounceTimer s then Some (simulate (s\<lparr>debounceTimer := False\<rparr>)) else None)"
| "sim_step s (SimAnswer r a) = (if r \<in> set (sim_requests s) then Some (simulate_answered r a s) else None)"

fun sim_run :: "('f, 'd) sim \<Rightarrow> ('f, 'd) sim_event list \<Rightarrow> ('f, 'd) sim option" where
  "sim_run s [] = Some s"
| "sim_run s (e # es) = (case sim_step s e of None \<Rightarrow> None | Some t \<Rightarrow> sim_run t es)"

section \<open>Signatures\<close>

definition plain_ids :: "string list \<Rightarrow> bool" where
  "plain_ids ids \<longleftrightarrow> (\<forall>x \<in> set ids. x \<noteq> [] \<and> CHR ''|'' \<notin> set x)"

lemma join_not_Nil: "xs \<noteq> [] \<Longrightarrow> \<forall>x \<in> set xs. x \<noteq> [] \<Longrightarrow> join_with c xs \<noteq> []"
  by (induction c xs rule: join_with.induct) auto

lemma sort_eq_Nil [simp]: "sort xs = [] \<longleftrightarrow> xs = []"
  by (metis length_0_conv length_sort)

lemma signature_inject:
  assumes "signature_of xs = signature_of ys" "plain_ids xs" "plain_ids ys"
  shows "mset xs = mset ys"
proof (cases "xs = [] \<or> ys = []")
  case True
  have "zs = []" if "signature_of zs = []" "plain_ids zs" for zs
  proof (rule ccontr)
    assume "zs \<noteq> []"
    then have "sort zs \<noteq> []" by simp
    then have "join_with CHR ''|'' (sort zs) \<noteq> []"
      by (rule join_not_Nil) (use that(2) in \<open>simp add: plain_ids_def\<close>)
    with that(1) show False by (simp add: signature_of_def)
  qed
  moreover have "signature_of [] = []" by (simp add: signature_of_def)
  ultimately show ?thesis using True assms by metis
next
  case False
  have "split_at CHR ''|'' (signature_of zs) = sort zs" if "plain_ids zs" "zs \<noteq> []" for zs
    unfolding signature_of_def using that by (intro split_join) (auto simp: plain_ids_def)
  then have "sort xs = sort ys" using assms False by metis
  then show ?thesis by (metis mset_sort)
qed

section \<open>Results are never stale\<close>

text \<open>Features whose identifiers have no bar, the character that separates them in a signature.\<close>

definition plain_feature :: "'f sim_feature \<Rightarrow> bool" where
  "plain_feature f \<longleftrightarrow> (\<forall>i. sf_id f = Some i \<longrightarrow> CHR ''|'' \<notin> set i)"

fun plain_event :: "('f, 'd) sim_event \<Rightarrow> bool" where
  "plain_event (SimClick fs) = list_all plain_feature fs"
| "plain_event (SimHydrate a fs) = list_all plain_feature fs"
| "plain_event _ = True"

text \<open>What a request that is out remembers.\<close>

definition request_wf :: "sim_request \<Rightarrow> bool" where
  "request_wf r \<longleftrightarrow> sr_signature r = signature_of (sr_ids r) \<and> plain_ids (sr_ids r)"

definition sim_inv :: "('f, 'd) sim \<Rightarrow> bool" where
  "sim_inv s \<longleftrightarrow> plain_ids (selected_ids s) \<and>
     (\<forall>r \<in> set (sim_requests s). request_wf r \<and> sr_sequence r \<le> simulationSequence s)"

lemma abort_current_fields [simp]:
  "selectedSegments (abort_current s) = selectedSegments s" "sim_requests (abort_current s) = sim_requests s"
  "simulationSequence (abort_current s) = simulationSequence s" "sim_updates (abort_current s) = sim_updates s"
  by (simp_all add: abort_current_def split: option.split)

lemma stats_update_inv [simp]: "sim_inv (stats_update u s) = sim_inv s"
  by (simp add: sim_inv_def stats_update_def selected_ids_def)

lemma sim_inv_select:
  "sim_inv s \<Longrightarrow> plain_ids (map fst sel) \<Longrightarrow> sim_inv (s\<lparr>selectedSegments := sel\<rparr>)"
  by (simp add: sim_inv_def selected_ids_def)

lemma sim_inv_simulate: assumes "sim_inv s" shows "sim_inv (simulate s)"
proof (cases "sim_area s")
  case (Some area)
  then show ?thesis using assms
    by (cases "area = [] \<or> selectedSegments s = []")
      (auto simp: simulate_def sim_inv_def selected_ids_def stats_update_def request_wf_def Let_def le_Suc_eq)
qed (use assms in \<open>simp add: simulate_def\<close>)

lemma plain_update: "plain_ids (map fst sel) \<Longrightarrow> i \<noteq> [] \<Longrightarrow> CHR ''|'' \<notin> set i \<Longrightarrow> plain_ids (map fst (AList.update i f sel))"
  by (auto simp: plain_ids_def dom_update)

lemma plain_delete: "plain_ids (map fst sel) \<Longrightarrow> plain_ids (map fst (AList.delete i sel))"
  by (auto simp: plain_ids_def set_alist_delete)

lemma plain_add_features:
  "plain_ids (map fst sel) \<Longrightarrow> list_all plain_feature fs \<Longrightarrow> plain_ids (map fst (foldl add_feature sel fs))"
proof (induction fs arbitrary: sel)
  case (Cons f fs)
  have "plain_ids (map fst (add_feature sel f))"
    using Cons.prems by (auto simp: add_feature_def Let_def plain_feature_def intro!: plain_update split: option.split)
  then show ?case using Cons by simp
qed simp

lemma sim_inv_toggle: assumes "sim_inv s" "plain_feature f" shows "sim_inv (toggleSegment f s)"
proof (cases "sf_id f")
  case (Some i)
  then show ?thesis using assms plain_delete [of "selectedSegments s" i] plain_update [of "selectedSegments s" i f]
    by (simp add: toggleSegment_def debouncedSimulate_def sim_inv_def selected_ids_def plain_feature_def)
qed (use assms in \<open>simp add: toggleSegment_def\<close>)

lemma sim_inv_answered: assumes "sim_inv s" shows "sim_inv (simulate_answered r a s)"
proof -
  have "sim_inv (s\<lparr>sim_requests := remove1 r (sim_requests s)\<rparr>)" using assms
    by (auto simp: sim_inv_def selected_ids_def dest: set_remove1_subset [THEN subsetD])
  moreover have "sim_inv (u\<lparr>sim_errors := n\<rparr>) = sim_inv u" "sim_inv u \<Longrightarrow> sim_inv (release_controller c u)"
    for u :: "('a, 'b) sim" and n c
    by (auto simp: sim_inv_def selected_ids_def release_controller_def)
  ultimately show ?thesis unfolding simulate_answered_def Let_def by (auto split: sim_answer.split)
qed

lemma sim_inv_step: assumes "sim_inv s" "sim_step s e = Some t" "plain_event e" shows "sim_inv t"
proof (cases e)
  case (SimHydrate a fs)
  have "sim_inv (activate a s)" using assms(1) by (simp add: activate_def sim_inv_def selected_ids_def plain_ids_def)
  then have "sim_inv ((activate a s)\<lparr>selectedSegments := foldl add_feature [] fs\<rparr>)"
    using assms(3) SimHydrate by (intro sim_inv_select plain_add_features) (simp_all add: plain_ids_def)
  then show ?thesis using SimHydrate assms(2) by (auto simp: hydrateSelection_def Let_def sim_inv_simulate)
next
  case (SimClick fs)
  then show ?thesis using assms by (auto simp: handleClick_def sim_inv_toggle split: list.splits if_splits)
next
  case SimTimer
  then have "t = simulate (s\<lparr>debounceTimer := False\<rparr>)" using assms(2) by (auto split: if_splits)
  moreover have "sim_inv (s\<lparr>debounceTimer := False\<rparr>)" using assms(1) by (simp add: sim_inv_def selected_ids_def)
  ultimately show ?thesis by (simp add: sim_inv_simulate)
next
  case (SimAnswer r a)
  then have "t = simulate_answered r a s" using assms(2) by (auto split: if_splits)
  then show ?thesis using assms(1) by (simp add: sim_inv_answered)
qed (use assms in \<open>auto simp: activate_def deactivate_def clearSelection_def setArea_def sim_inv_def selected_ids_def
      stats_update_def plain_ids_def split: if_splits\<close>)

definition sim_event_step :: "('f, 'd) sim \<Rightarrow> ('f, 'd) sim_event \<Rightarrow> ('f, 'd) sim \<Rightarrow> bool" where
  "sim_event_step s e t \<longleftrightarrow> plain_event e \<and> sim_step s e = Some t"

interpretation sim_events: event_system "\<lambda>s. s = new_sim" sim_event_step sim_inv
proof unfold_locales
  fix s :: "('f, 'd) sim" assume "s = new_sim"
  then show "sim_inv s" by (simp add: new_sim_def sim_inv_def selected_ids_def plain_ids_def)
next
  fix s t :: "('f, 'd) sim" and e assume "sim_inv s" "sim_event_step s e t"
  then show "sim_inv t" using sim_inv_step by (auto simp: sim_event_step_def)
qed

lemma sim_run_reach:
  "sim_run s es = Some t \<Longrightarrow> list_all plain_event es \<Longrightarrow> reach (\<lambda>s. s = new_sim) sim_event_step s \<Longrightarrow>
     reach (\<lambda>s. s = new_sim) sim_event_step t"
proof (induction es arbitrary: s)
  case (Cons e es)
  from Cons.prems(1) obtain u where u: "sim_step s e = Some u" "sim_run u es = Some t" by (auto split: option.splits)
  have "sim_event_step s e u" using u(1) Cons.prems(2) by (simp add: sim_event_step_def)
  with Cons.prems(3) have "reach (\<lambda>s. s = new_sim) sim_event_step u" by (rule reach_step)
  with Cons.IH [OF u(2)] Cons.prems(2) show ?case by simp
qed simp

text \<open>Which steps report a result.\<close>

lemma no_stats_otherwise:
  assumes "sim_step s e = Some t" "sim_updates t = sim_updates s @ [Stats d n]"
  shows "\<exists>r. e = SimAnswer r (Answer True d) \<and> r \<in> set (sim_requests s) \<and> sr_sequence r = simulationSequence s \<and>
    sr_signature r = signature_of (selected_ids s) \<and> n = length (selectedSegments s)"
proof (cases e)
  case (SimAnswer r a)
  then show ?thesis using assms
    by (auto simp: simulate_answered_def release_controller_def stats_update_def selected_ids_def Let_def
        split: sim_answer.splits if_splits)
qed (use assms in \<open>auto simp: activate_def deactivate_def clearSelection_def setArea_def stats_update_def handleClick_def
      toggleSegment_def debouncedSimulate_def hydrateSelection_def simulate_def Let_def
      split: if_splits list.splits option.splits\<close>)

text \<open>
  C18. A simulated coverage is never shown for another selection: whenever a result is reported, it is the
  answer to the newest request, that request asked for exactly the segments selected at this moment,
  and the number reported with it is their number, whatever the order in which answers arrive.
\<close>

theorem simulation_result_current:
  assumes "sim_run new_sim es = Some s" "list_all plain_event es"
    and "sim_step s e = Some t" "sim_updates t = sim_updates s @ [Stats d n]"
  shows "\<exists>r. e = SimAnswer r (Answer True d) \<and> r \<in> set (sim_requests s) \<and> sr_sequence r = simulationSequence s \<and>
    mset (sr_ids r) = mset (selected_ids s) \<and> n = length (selected_ids s)"
proof -
  have inv: "sim_inv s"
    by (rule sim_events.reachable_inv, rule sim_run_reach [OF assms(1,2)], rule reach_init) (rule refl)
  obtain r where r: "e = SimAnswer r (Answer True d)" "r \<in> set (sim_requests s)" "sr_sequence r = simulationSequence s"
    "sr_signature r = signature_of (selected_ids s)" "n = length (selectedSegments s)"
    using no_stats_otherwise [OF assms(3,4)] by blast
  have "request_wf r" "plain_ids (selected_ids s)" using inv r(2) by (auto simp: sim_inv_def)
  then have "mset (sr_ids r) = mset (selected_ids s)" using signature_inject r(4) by (metis request_wf_def)
  with r show ?thesis by (auto simp: selected_ids_def)
qed

definition street :: "string \<Rightarrow> unit sim_feature" where
  "street i = \<lparr>sf_id = Some i, sf_status = None, sf_body = ()\<rparr>"

theorem simulation_result_current_witness:
  "\<exists>(s :: (unit, nat) sim) t r. sim_run new_sim [SimHydrate ''waco'' [street ''b'', street ''a'']] = Some s \<and>
     sim_step s (SimAnswer r (Answer True 7)) = Some t \<and> sim_updates t = [Stats 7 2] \<and>
     mset (sr_ids r) = {# ''a'', ''b'' #}"
proof -
  define r where "r = \<lparr>sr_sequence = 1, sr_ids = [''b'', ''a''], sr_signature = signature_of [''b'', ''a''],
    sr_area = ''waco'', sr_controller = 0\<rparr>"
  obtain s :: "(unit, nat) sim" where s: "sim_run new_sim [SimHydrate ''waco'' [street ''b'', street ''a'']] = Some s"
    "sim_requests s = [r]" "selected_ids s = [''b'', ''a'']" "sim_updates s = []" "simulationSequence s = 1"
    by (simp add: hydrateSelection_def new_sim_def activate_def add_feature_def street_def simulate_def selected_ids_def
        abort_current_def str_lower_def to_lower_def r_def Let_def)
  let ?t = "simulate_answered r (Answer True 7) s"
  have l: "length (selectedSegments s) = 2" using s(3) by (metis length_Cons length_map list.size(3) numeral_2_eq_2 selected_ids_def)
  have t: "sim_step s (SimAnswer r (Answer True 7)) = Some ?t" "sim_updates ?t = sim_updates s @ [Stats 7 2]"
    using s l by (simp_all add: simulate_answered_def release_controller_def stats_update_def selected_ids_def r_def Let_def)
  have p: "list_all plain_event [SimHydrate ''waco'' [street ''b'', street ''a''] :: (unit, nat) sim_event]"
    by (simp add: street_def plain_feature_def)
  from simulation_result_current [OF s(1) p t] have "mset (sr_ids r) = mset (selected_ids s)" by auto
  then show ?thesis using s t by (intro exI [of _ s] exI [of _ ?t] exI [of _ r]) (simp add: add_mset_commute)
qed

end
