(* ===== verification/TripSync.thy ===== *)
theory TripSync
  imports JSBase
begin

text \<open>
  The synchronisation of trips, \<open>static/js/modules/trip-sync.js\<close>: the status of the server's sync job, seen
  through a stream or by polling, the buttons that start and cancel it and the automatic start.

  \<^item> The state are the module's variables, which outlive a page, and the state of the buttons. Handlers are
    split at their awaits: \<open>waits\<close> are the requests that are out, each with what follows it.
  \<^item> Every event says whether the browser is online and what the clock shows.
  \<^item> The callbacks given to \<open>initTripSync\<close>, notifications and changes of the page are recorded in order. The page has
    at least one of the elements the module looks for. An error is the text of its message.
  \<^item> Shown: when an automatic start is armed and made, and a bound on the starts made between any two
    moments; when the completion callback runs; and two defects: a start armed by a page is still made after
    the clean-up of that page, and a run in which a finished sync is never reported to the page.
\<close>

section \<open>State\<close>

datatype last_success = NoSuccess | Unreadable | SuccessAt int

record sync_status =
  ss_state :: string
  ss_job :: "string option"
  ss_last :: last_success
  ss_auto_disabled :: bool
  ss_interval :: "int option"

datatype sync_out =
    StatusUI sync_status | OfflineUI | SyncNotify string string
  | PostSync string | DeleteSync string | AutoScheduled
  | OnSyncComplete | OnSyncError | CleanedUp

datatype sync_wait =
    StartPost | StartStatus | CancelDelete | CancelStatus | FinallyStatus
  | ShownStatus | PollStatus

record trip_sync =
  currentStatus :: "sync_status option"
  pollingInterval :: bool
  ts_source :: bool
  autoSyncTriggered :: bool
  actionInFlight :: bool
  auto_timers :: nat
  buttons_disabled :: bool
  ts_waits :: "sync_wait list"
  ts_outs :: "sync_out list"

definition new_trip_sync :: trip_sync where
  "new_trip_sync = \<lparr>currentStatus = None, pollingInterval = False, ts_source = False, autoSyncTriggered = False,
     actionInFlight = False, auto_timers = 0, buttons_disabled = False, ts_waits = [], ts_outs = []\<rparr>"

definition sync_emit :: "sync_out list \<Rightarrow> trip_sync \<Rightarrow> trip_sync" where
  "sync_emit es s = s\<lparr>ts_outs := ts_outs s @ es\<rparr>"

definition await_answer :: "sync_wait \<Rightarrow> trip_sync \<Rightarrow> trip_sync" where
  "await_answer w s = s\<lparr>ts_waits := ts_waits s @ [w]\<rparr>"

section \<open>The page\<close>

definition has_job :: "sync_status \<Rightarrow> bool" where
  "has_job st \<longleftrightarrow> (case ss_job st of None \<Rightarrow> False | Some j \<Rightarrow> j \<noteq> [])"

definition updateStatusUI :: "sync_status \<Rightarrow> trip_sync \<Rightarrow> trip_sync" where
  "updateStatusUI st s =
     (sync_emit [StatusUI st] s)\<lparr>buttons_disabled :=
        actionInFlight s \<or> ss_state st = ''paused'' \<or> (ss_state st = ''syncing'' \<and> \<not> has_job st)\<rparr>"

definition updateOfflineUI :: "trip_sync \<Rightarrow> trip_sync" where
  "updateOfflineUI s = (sync_emit [OfflineUI] s)\<lparr>buttons_disabled := True\<rparr>"

section \<open>Status\<close>

definition shouldAutoSync :: "int \<Rightarrow> sync_status \<Rightarrow> trip_sync \<Rightarrow> bool" where
  "shouldAutoSync now st s =
     (if ss_state st \<noteq> ''idle'' \<or> autoSyncTriggered s then False
      else if ss_auto_disabled st then False
      else case ss_last st of
        NoSuccess \<Rightarrow> True
      | Unreadable \<Rightarrow> True
      | SuccessAt t \<Rightarrow>
          let intervalMinutes = (case ss_interval st of None \<Rightarrow> 720 | Some n \<Rightarrow> if n = 0 then 720 else n);
              staleMinutes = max intervalMinutes 30
          in now - t > staleMinutes * 60 * 1000)"

text \<open>\<open>cb\<close>: whether \<open>onSyncComplete\<close> was passed.\<close>

definition handleStatusUpdate :: "bool \<Rightarrow> int \<Rightarrow> bool \<Rightarrow> sync_status \<Rightarrow> trip_sync \<Rightarrow> trip_sync" where
  "handleStatusUpdate online now cb st s =
     (let wasSyncing = (case currentStatus s of None \<Rightarrow> False | Some c \<Rightarrow> ss_state c = ''syncing'');
          s1 = s\<lparr>currentStatus := Some st\<rparr>
      in if \<not> online then updateOfflineUI s1
         else
           let s2 = updateStatusUI st s1;
               s3 = (if shouldAutoSync now st s2
                     then (sync_emit [AutoScheduled] s2)\<lparr>autoSyncTriggered := True, auto_timers := Suc (auto_timers s2)\<rparr>
                     else s2)
           in if wasSyncing \<and> ss_state st = ''idle'' then
                sync_emit (SyncNotify ''Trips updated.'' ''success'' # (if cb then [OnSyncComplete] else [])) s3
              else if wasSyncing \<and> ss_state st = ''error'' then
                sync_emit [SyncNotify ''Trip sync failed.'' ''danger'', OnSyncError] s3
              else s3)"

section \<open>Starting and cancelling\<close>

definition startSync :: "bool \<Rightarrow> string \<Rightarrow> trip_sync \<Rightarrow> trip_sync" where
  "startSync online trigger s =
     (if \<not> online then
        updateOfflineUI (sync_emit [SyncNotify ''You are offline. Connect to sync trips.'' ''warning''] s)
      else await_answer StartPost ((sync_emit [PostSync trigger] s)\<lparr>actionInFlight := True, buttons_disabled := True\<rparr>))"

text \<open>The \<open>finally\<close> of both actions.\<close>

definition action_finally :: "trip_sync \<Rightarrow> trip_sync" where
  "action_finally s =
     (let s1 = s\<lparr>actionInFlight := False\<rparr>
      in case currentStatus s1 of Some st \<Rightarrow> updateStatusUI st s1 | None \<Rightarrow> await_answer FinallyStatus s1)"

definition cancelSync :: "trip_sync \<Rightarrow> trip_sync" where
  "cancelSync s =
     (case currentStatus s of
        Some st \<Rightarrow>
          if has_job st then
            await_answer CancelDelete
              ((sync_emit [DeleteSync (the (ss_job st))] s)\<lparr>actionInFlight := True, buttons_disabled := True\<rparr>)
          else sync_emit [SyncNotify ''Unable to cancel sync (missing job id).'' ''warning''] s
      | None \<Rightarrow> sync_emit [SyncNotify ''Unable to cancel sync (missing job id).'' ''warning''] s)"

definition handleSyncClick :: "bool \<Rightarrow> trip_sync \<Rightarrow> trip_sync" where
  "handleSyncClick online s =
     (if actionInFlight s then s
      else if (case currentStatus s of None \<Rightarrow> False | Some st \<Rightarrow> ss_state st = ''syncing'') then cancelSync s
      else startSync online ''manual'' s)"

text \<open>The error branch of both actions.\<close>

definition action_failed :: "string \<Rightarrow> trip_sync \<Rightarrow> trip_sync" where
  "action_failed msg s = action_finally (sync_emit [SyncNotify msg ''danger'', OnSyncError] s)"

text \<open>What follows the answer of a request; \<open>Inl\<close> is the message of its error. \<open>fetchStatus\<close> gives no
  status on an error, and shows the message for the requests of a page load and of a return online.\<close>

definition answered :: "bool \<Rightarrow> int \<Rightarrow> sync_wait \<Rightarrow> string + sync_status \<Rightarrow> trip_sync \<Rightarrow> trip_sync" where
  "answered online now w r s =
     (case w of
        StartPost \<Rightarrow> (case r of Inl m \<Rightarrow> action_failed m s
          | Inr _ \<Rightarrow> await_answer StartStatus (sync_emit [SyncNotify ''Trip sync started.'' ''info''] s))
      | CancelDelete \<Rightarrow> (case r of Inl m \<Rightarrow> action_failed m s
          | Inr _ \<Rightarrow> await_answer CancelStatus (sync_emit [SyncNotify ''Cancelling trip sync...'' ''info''] s))
      | StartStatus \<Rightarrow> action_finally (case r of Inl _ \<Rightarrow> s | Inr st \<Rightarrow> handleStatusUpdate online now False st s)
      | CancelStatus \<Rightarrow> action_finally (case r of Inl _ \<Rightarrow> s | Inr st \<Rightarrow> handleStatusUpdate online now False st s)
      | FinallyStatus \<Rightarrow> (case r of Inl _ \<Rightarrow> s | Inr st \<Rightarrow> updateStatusUI st s)
      | ShownStatus \<Rightarrow> (case r of Inl m \<Rightarrow> sync_emit [SyncNotify m ''danger''] s
          | Inr st \<Rightarrow> handleStatusUpdate online now True st s)
      | PollStatus \<Rightarrow> (case r of Inl _ \<Rightarrow> s | Inr st \<Rightarrow> handleStatusUpdate online now True st s))"

section \<open>Stream and polling\<close>

definition startPolling :: "trip_sync \<Rightarrow> trip_sync" where
  "startPolling s = s\<lparr>pollingInterval := True\<rparr>"

definition stopPolling :: "trip_sync \<Rightarrow> trip_sync" where
  "stopPolling s = s\<lparr>pollingInterval := False\<rparr>"

definition stopSse :: "trip_sync \<Rightarrow> trip_sync" where
  "stopSse s = s\<lparr>ts_source := False\<rparr>"

definition connectSse :: "bool \<Rightarrow> trip_sync \<Rightarrow> trip_sync" where
  "connectSse sse s = (if sse then s\<lparr>ts_source := True\<rparr> else startPolling (s\<lparr>ts_source := False\<rparr>))"

definition sse_error :: "trip_sync \<Rightarrow> trip_sync" where
  "sse_error s = startPolling (s\<lparr>ts_source := False\<rparr>)"

definition initTripSync :: "bool \<Rightarrow> trip_sync \<Rightarrow> trip_sync" where
  "initTripSync sse s = connectSse sse (await_answer ShownStatus s)"

definition cleanupFn :: "trip_sync \<Rightarrow> trip_sync" where
  "cleanupFn s = sync_emit [CleanedUp] ((stopPolling (stopSse s))\<lparr>autoSyncTriggered := False\<rparr>)"

section \<open>Events\<close>

datatype sync_event =
    SyncInit bool | SyncCleanup | SyncClick bool | WentOnline | WentOffline
  | SseStatus bool int sync_status | SseError | PollTick | AutoTimer bool
  | Answered bool int sync_wait "string + sync_status"

fun sync_step :: "trip_sync \<Rightarrow> sync_event \<Rightarrow> trip_sync option" where
  "sync_step s (SyncInit sse) = Some (initTripSync sse s)"
| "sync_step s SyncCleanup = Some (cleanupFn s)"
| "sync_step s (SyncClick online) = Some (handleSyncClick online s)"
| "sync_step s WentOnline = Some (await_answer ShownStatus s)"
| "sync_step s WentOffline = Some (updateOfflineUI s)"
| "sync_step s (SseStatus online now st) = (if ts_source s then Some (handleStatusUpdate online now True st s) else None)"
| "sync_step s SseError = (if ts_source s then Some (sse_error s) else None)"
| "sync_step s PollTick = (if pollingInterval s then Some (await_answer PollStatus s) else None)"
| "sync_step s (AutoTimer online) = (if auto_timers s > 0
     then Some (startSync online ''auto'' (s\<lparr>auto_timers := auto_timers s - 1\<rparr>)) else None)"
| "sync_step s (Answered online now w r) = (if w \<in> set (ts_waits s)
     then Some (answered online now w r (s\<lparr>ts_waits := remove1 w (ts_waits s)\<rparr>)) else None)"

fun sync_run :: "trip_sync \<Rightarrow> sync_event list \<Rightarrow> trip_sync option" where
  "sync_run s [] = Some s"
| "sync_run s (e # es) = (case sync_step s e of None \<Rightarrow> None | Some t \<Rightarrow> sync_run t es)"

section \<open>Automatic starts and completions\<close>

text \<open>The automatic starts made, the clean-ups and the completions reported so far.\<close>

definition auto_starts :: "trip_sync \<Rightarrow> nat" where
  "auto_starts s = length (filter (\<lambda>e. e = PostSync ''auto'') (ts_outs s))"

definition clean_ups :: "trip_sync \<Rightarrow> nat" where
  "clean_ups s = length (filter (\<lambda>e. e = CleanedUp) (ts_outs s))"

definition completions :: "trip_sync \<Rightarrow> nat" where
  "completions s = length (filter (\<lambda>e. e = OnSyncComplete) (ts_outs s))"

definition was_syncing :: "trip_sync \<Rightarrow> bool" where
  "was_syncing s \<longleftrightarrow> (case currentStatus s of None \<Rightarrow> False | Some c \<Rightarrow> ss_state c = ''syncing'')"

lemma counts_emit [simp]:
  "auto_starts (sync_emit es s) = auto_starts s + length (filter (\<lambda>e. e = PostSync ''auto'') es)"
  "clean_ups (sync_emit es s) = clean_ups s + length (filter (\<lambda>e. e = CleanedUp) es)"
  "completions (sync_emit es s) = completions s + length (filter (\<lambda>e. e = OnSyncComplete) es)"
  "autoSyncTriggered (sync_emit es s) = autoSyncTriggered s" "auto_timers (sync_emit es s) = auto_timers s"
  "currentStatus (sync_emit es s) = currentStatus s"
  by (simp_all add: sync_emit_def auto_starts_def clean_ups_def completions_def)

lemma counts_update [simp]:
  "auto_starts (s\<lparr>currentStatus := a\<rparr>) = auto_starts s" "auto_starts (s\<lparr>pollingInterval := b\<rparr>) = auto_starts s"
  "auto_starts (s\<lparr>ts_source := b\<rparr>) = auto_starts s" "auto_starts (s\<lparr>autoSyncTriggered := b\<rparr>) = auto_starts s"
  "auto_starts (s\<lparr>actionInFlight := b\<rparr>) = auto_starts s" "auto_starts (s\<lparr>auto_timers := n\<rparr>) = auto_starts s"
  "auto_starts (s\<lparr>buttons_disabled := b\<rparr>) = auto_starts s" "auto_starts (s\<lparr>ts_waits := ws\<rparr>) = auto_starts s"
  "clean_ups (s\<lparr>currentStatus := a\<rparr>) = clean_ups s" "clean_ups (s\<lparr>pollingInterval := b\<rparr>) = clean_ups s"
  "clean_ups (s\<lparr>ts_source := b\<rparr>) = clean_ups s" "clean_ups (s\<lparr>autoSyncTriggered := b\<rparr>) = clean_ups s"
  "clean_ups (s\<lparr>actionInFlight := b\<rparr>) = clean_ups s" "clean_ups (s\<lparr>auto_timers := n\<rparr>) = clean_ups s"
  "clean_ups (s\<lparr>buttons_disabled := b\<rparr>) = clean_ups s" "clean_ups (s\<lparr>ts_waits := ws\<rparr>) = clean_ups s"
  "completions (s\<lparr>currentStatus := a\<rparr>) = completions s" "completions (s\<lparr>pollingInterval := b\<rparr>) = completions s"
  "completions (s\<lparr>ts_source := b\<rparr>) = completions s" "completions (s\<lparr>autoSyncTriggered := b\<rparr>) = completions s"
  "completions (s\<lparr>actionInFlight := b\<rparr>) = completions s" "completions (s\<lparr>auto_timers := n\<rparr>) = completions s"
  "completions (s\<lparr>buttons_disabled := b\<rparr>) = completions s" "completions (s\<lparr>ts_waits := ws\<rparr>) = completions s"
  by (simp_all add: auto_starts_def clean_ups_def completions_def)

text \<open>All that the automatic start and the completion callback depend on.\<close>

definition tally :: "trip_sync \<Rightarrow> bool \<times> nat \<times> nat \<times> nat \<times> nat" where
  "tally s = (autoSyncTriggered s, auto_timers s, auto_starts s, clean_ups s, completions s)"

lemma tally_iff:
  "tally t = tally s \<longleftrightarrow> autoSyncTriggered t = autoSyncTriggered s \<and> auto_timers t = auto_timers s \<and>
     auto_starts t = auto_starts s \<and> clean_ups t = clean_ups s \<and> completions t = completions s"
  by (simp add: tally_def)

lemma tally_keep [simp]:
  "tally (updateStatusUI st s) = tally s" "tally (updateOfflineUI s) = tally s" "tally (await_answer w s) = tally s"
  "tally (cancelSync s) = tally s" "tally (startPolling s) = tally s" "tally (action_finally s) = tally s"
  "tally (startSync online ''manual'' s) = tally s" "tally (action_failed m s) = tally s"
  "tally (initTripSync sse s) = tally s" "tally (sse_error s) = tally s"
  by (simp_all add: tally_iff updateStatusUI_def updateOfflineUI_def await_answer_def cancelSync_def startPolling_def
      action_finally_def startSync_def action_failed_def initTripSync_def connectSse_def sse_error_def Let_def
      split: option.split)

lemma tally_click [simp]: "tally (handleSyncClick online s) = tally s"
  by (simp add: handleSyncClick_def)

text \<open>\<open>shouldAutoSync\<close> and the change from syncing depend on the state before the update only.\<close>

lemma shouldAutoSync_cong: "autoSyncTriggered t = autoSyncTriggered s \<Longrightarrow> shouldAutoSync now st t = shouldAutoSync now st s"
  by (simp add: shouldAutoSync_def)

lemma shouldAutoSync_untriggered: "shouldAutoSync now st s \<Longrightarrow> \<not> autoSyncTriggered s"
  by (auto simp: shouldAutoSync_def)

lemma tally_status:
  "tally (handleStatusUpdate online now cb st s) =
    (if online \<and> shouldAutoSync now st s then True else autoSyncTriggered s,
     auto_timers s + (if online \<and> shouldAutoSync now st s then 1 else 0), auto_starts s, clean_ups s,
     completions s + (if online \<and> cb \<and> was_syncing s \<and> ss_state st = ''idle'' then 1 else 0))"
proof -
  define s2 where "s2 = updateStatusUI st (s\<lparr>currentStatus := Some st\<rparr>)"
  have "tally s2 = tally (s\<lparr>currentStatus := Some st\<rparr>)" by (simp add: s2_def)
  also have "\<dots> = tally s" by (simp add: tally_iff)
  finally have t2: "tally s2 = tally s" .
  have auto: "shouldAutoSync now st s2 = shouldAutoSync now st s"
    using t2 by (intro shouldAutoSync_cong) (simp add: tally_iff)
  define s3 where "s3 = (if shouldAutoSync now st s2
    then (sync_emit [AutoScheduled] s2)\<lparr>autoSyncTriggered := True, auto_timers := Suc (auto_timers s2)\<rparr> else s2)"
  have off: "tally (updateOfflineUI (s\<lparr>currentStatus := Some st\<rparr>)) = tally s" by (simp add: tally_iff)
  have unf: "handleStatusUpdate online now cb st s = (if \<not> online then updateOfflineUI (s\<lparr>currentStatus := Some st\<rparr>)
      else if was_syncing s \<and> ss_state st = ''idle'' then
        sync_emit (SyncNotify ''Trips updated.'' ''success'' # (if cb then [OnSyncComplete] else [])) s3
      else if was_syncing s \<and> ss_state st = ''error'' then
        sync_emit [SyncNotify ''Trip sync failed.'' ''danger'', OnSyncError] s3
      else s3)"
    by (simp add: handleStatusUpdate_def Let_def was_syncing_def s2_def [symmetric] s3_def [symmetric])
  show ?thesis using t2 off unfolding unf by (simp add: tally_def s3_def auto)
qed

text \<open>The events that arm an automatic start, and those that report the end of a sync to the page.\<close>

fun arms_start :: "trip_sync \<Rightarrow> sync_event \<Rightarrow> bool" where
  "arms_start s (SseStatus online now st) = (online \<and> shouldAutoSync now st s)"
| "arms_start s (Answered online now w (Inr st)) =
     (w \<in> {StartStatus, CancelStatus, ShownStatus, PollStatus} \<and> online \<and> shouldAutoSync now st s)"
| "arms_start s _ = False"

fun reports_completion :: "trip_sync \<Rightarrow> sync_event \<Rightarrow> bool" where
  "reports_completion s (SseStatus online now st) = (online \<and> was_syncing s \<and> ss_state st = ''idle'')"
| "reports_completion s (Answered online now w (Inr st)) =
     (w \<in> {ShownStatus, PollStatus} \<and> online \<and> was_syncing s \<and> ss_state st = ''idle'')"
| "reports_completion s _ = False"

fun fires_timer :: "sync_event \<Rightarrow> bool" where
  "fires_timer (AutoTimer online) = True"
| "fires_timer _ = False"

definition sync_effect :: "trip_sync \<Rightarrow> sync_event \<Rightarrow> trip_sync \<Rightarrow> bool" where
  "sync_effect s e t \<longleftrightarrow>
     auto_starts t = auto_starts s + (if e = AutoTimer True then 1 else 0) \<and>
     auto_timers t + (if fires_timer e then 1 else 0) = auto_timers s + (if arms_start s e then 1 else 0) \<and>
     completions t = completions s + (if reports_completion s e then 1 else 0) \<and>
     autoSyncTriggered t = (e \<noteq> SyncCleanup \<and> (autoSyncTriggered s \<or> arms_start s e)) \<and>
     clean_ups t = clean_ups s + (if e = SyncCleanup then 1 else 0)"

lemma sync_effect_keep:
  "tally t = tally s \<Longrightarrow> e \<noteq> SyncCleanup \<Longrightarrow> \<not> fires_timer e \<Longrightarrow> \<not> arms_start s e \<Longrightarrow>
     \<not> reports_completion s e \<Longrightarrow> sync_effect s e t"
  by (cases e) (auto simp: sync_effect_def tally_iff)

lemma answered_effect:
  "tally (answered online now w r s) =
    (let e = Answered online now w r in
     (autoSyncTriggered s \<or> arms_start s e, auto_timers s + (if arms_start s e then 1 else 0), auto_starts s,
      clean_ups s, completions s + (if reports_completion s e then 1 else 0)))"
proof -
  have n: "tally (sync_emit [SyncNotify m k] s) = tally s" for m k by (simp add: tally_iff)
  show ?thesis
    by (cases w; cases r; simp add: answered_def tally_status n Let_def) (auto simp: tally_def)
qed

lemma sync_step_effect:
  assumes "sync_step s e = Some t" shows "sync_effect s e t"
proof (cases e)
  case (Answered online now w r)
  let ?s = "s\<lparr>ts_waits := remove1 w (ts_waits s)\<rparr>"
  have "t = answered online now w r ?s" using assms Answered by (auto split: if_splits)
  moreover have "arms_start ?s e = arms_start s e" "reports_completion ?s e = reports_completion s e"
    by (cases r; simp add: Answered was_syncing_def shouldAutoSync_def)+
  ultimately show ?thesis
    using answered_effect [of online now w r ?s] by (simp add: Answered sync_effect_def tally_def Let_def)
next
  case (SseStatus online now st)
  then have "t = handleStatusUpdate online now True st s" using assms by (auto split: if_splits)
  then show ?thesis
    using tally_status [of online now True st s] by (auto simp: SseStatus sync_effect_def tally_def split: if_splits)
next
  case SyncCleanup
  then show ?thesis using assms by (auto simp: cleanupFn_def stopPolling_def stopSse_def sync_effect_def)
next
  case (AutoTimer online)
  then show ?thesis
    using assms by (cases online) (auto simp: startSync_def await_answer_def updateOfflineUI_def sync_effect_def split: if_splits)
qed (use assms in \<open>auto intro!: sync_effect_keep split: if_splits\<close>)

text \<open>Between two moments: what is armed at the first, one more, and one for every clean-up in between.\<close>

lemma sync_run_bound:
  "sync_run s es = Some t \<Longrightarrow>
     clean_ups s \<le> clean_ups t \<and>
     auto_starts t + auto_timers t + (if autoSyncTriggered t then 0 else 1) + clean_ups s \<le>
       auto_starts s + auto_timers s + (if autoSyncTriggered s then 0 else 1) + clean_ups t"
proof (induction es arbitrary: s)
  case (Cons e es)
  from Cons.prems obtain u where u: "sync_step s e = Some u" "sync_run u es = Some t" by (auto split: option.splits)
  have arm: "arms_start s e \<Longrightarrow> \<not> autoSyncTriggered s \<and> e \<noteq> SyncCleanup"
    by (induction s e rule: arms_start.induct) (auto dest: shouldAutoSync_untriggered)
  have fire: "e = AutoTimer True \<Longrightarrow> fires_timer e" by simp
  show ?case
    using sync_step_effect [OF u(1)] Cons.IH [OF u(2)] arm fire
    by (auto simp: sync_effect_def split: if_splits)
qed simp

text \<open>
  C19. Automatic starts and completions. Every event makes exactly these changes: the timer of an armed
  start makes one automatic start if it fires online and none if it fires offline; a start is armed exactly
  when a status, seen through the stream or by a request, says online that the server is idle, automatic
  syncs are not disabled, the last success is missing, unreadable or older than the interval (at least 30
  minutes), and none was armed since the last clean-up; and the completion callback runs exactly when a status seen
  through the stream, a poll or the requests of a page load or a return online says idle after a status that
  said syncing. Therefore the automatic starts made between any two moments of a run are at most the starts
  armed at the first, plus one for every clean-up in between, plus one if none was armed since the last clean-up
  before the first. (A clean-up does not disarm: \<open>auto_starts_after_cleanup\<close>.)
\<close>

theorem trip_sync_events:
  assumes "sync_run s es = Some t"
  shows "auto_starts t \<le> auto_starts s + auto_timers s + (clean_ups t - clean_ups s) +
      (if autoSyncTriggered s then 0 else 1) \<and>
    (\<forall>e u. sync_step t e = Some u \<longrightarrow>
      auto_starts u = auto_starts t + (if e = AutoTimer True then 1 else 0) \<and>
      auto_timers u + (if \<exists>online. e = AutoTimer online then 1 else 0) =
        auto_timers t + (if arms_start t e then 1 else 0) \<and>
      autoSyncTriggered u = (e \<noteq> SyncCleanup \<and> (autoSyncTriggered t \<or> arms_start t e)) \<and>
      completions u = completions t + (if reports_completion t e then 1 else 0))"
proof (intro conjI allI impI)
  show "auto_starts t \<le> auto_starts s + auto_timers s + (clean_ups t - clean_ups s) +
      (if autoSyncTriggered s then 0 else 1)"
    using sync_run_bound [OF assms] by (auto split: if_splits)
next
  fix e u assume "sync_step t e = Some u"
  then have eff: "sync_effect t e u" by (rule sync_step_effect)
  have fires: "fires_timer e \<longleftrightarrow> (\<exists>online. e = AutoTimer online)" by (cases e) auto
  show "auto_starts u = auto_starts t + (if e = AutoTimer True then 1 else 0)"
    "auto_timers u + (if \<exists>online. e = AutoTimer online then 1 else 0) =
        auto_timers t + (if arms_start t e then 1 else 0)"
    "autoSyncTriggered u = (e \<noteq> SyncCleanup \<and> (autoSyncTriggered t \<or> arms_start t e))"
    "completions u = completions t + (if reports_completion t e then 1 else 0)"
    using eff unfolding sync_effect_def fires by blast+
qed

definition plain_status :: "string \<Rightarrow> sync_status" where
  "plain_status st = \<lparr>ss_state = st, ss_job = Some ''job'', ss_last = NoSuccess, ss_auto_disabled = False, ss_interval = None\<rparr>"

lemmas sync_exec = initTripSync_def connectSse_def await_answer_def handleStatusUpdate_def updateStatusUI_def sync_emit_def
  shouldAutoSync_def handleSyncClick_def startSync_def answered_def action_finally_def has_job_def new_trip_sync_def
  plain_status_def

theorem trip_sync_events_witness:
  "\<exists>s u. sync_run new_trip_sync [SyncInit True, SseStatus True 0 (plain_status ''idle''), AutoTimer True,
       SseStatus True 9 (plain_status ''syncing'')] = Some s \<and> auto_starts s = 1 \<and> auto_starts s \<le> 1 \<and>
     sync_step s (SseStatus True 20 (plain_status ''idle'')) = Some u \<and> completions u = Suc (completions s)"
proof -
  let ?es = "[SyncInit True, SseStatus True 0 (plain_status ''idle''), AutoTimer True, SseStatus True 9 (plain_status ''syncing'')]"
  obtain s where s: "sync_run new_trip_sync ?es = Some s" "auto_starts s = 1" "was_syncing s" "ts_source s"
    "clean_ups s = 0"
    by (simp add: sync_exec Let_def was_syncing_def auto_starts_def clean_ups_def)
  let ?e = "SseStatus True 20 (plain_status ''idle'')"
  obtain u where u: "sync_step s ?e = Some u" using s(4) by simp
  have rep: "reports_completion s ?e" using s(3) by (simp add: plain_status_def)
  note T = trip_sync_events [OF s(1)]
  have "completions u = completions s + (if reports_completion s ?e then 1 else 0)" using T u by blast
  then have "completions u = Suc (completions s)" using rep by (simp only: if_True Suc_eq_plus1)
  moreover have "auto_starts s \<le> 1"
    using T [THEN conjunct1] s(5) by (simp add: new_trip_sync_def auto_starts_def clean_ups_def)
  ultimately show ?thesis using s u by blast
qed

text \<open>
  A clean-up forgets that a start was armed but leaves its timer running, so the next page may arm another one:
  two automatic starts are made after one clean-up, with no clean-up between them.
\<close>

theorem auto_starts_after_cleanup:
  "\<exists>t before after. sync_run new_trip_sync [SyncInit True, SseStatus True 0 (plain_status ''idle''), SyncCleanup,
       SyncInit True, SseStatus True 1 (plain_status ''idle''), AutoTimer True, AutoTimer True] = Some t \<and>
     ts_outs t = before @ CleanedUp # after \<and> PostSync ''auto'' \<notin> set before \<and>
     filter (\<lambda>e. e = PostSync ''auto'') after = [PostSync ''auto'', PostSync ''auto'']"
proof -
  let ?st = "plain_status ''idle''"
  have "\<exists>t. sync_run new_trip_sync [SyncInit True, SseStatus True 0 ?st, SyncCleanup, SyncInit True, SseStatus True 1 ?st,
      AutoTimer True, AutoTimer True] = Some t \<and>
    ts_outs t = [StatusUI ?st, AutoScheduled] @ CleanedUp # [StatusUI ?st, AutoScheduled, PostSync ''auto'', PostSync ''auto'']"
    by (simp add: sync_exec cleanupFn_def stopPolling_def stopSse_def Let_def)
  then obtain t where "sync_run new_trip_sync [SyncInit True, SseStatus True 0 ?st, SyncCleanup, SyncInit True,
      SseStatus True 1 ?st, AutoTimer True, AutoTimer True] = Some t"
    "ts_outs t = [StatusUI ?st, AutoScheduled] @ CleanedUp # [StatusUI ?st, AutoScheduled, PostSync ''auto'', PostSync ''auto'']"
    by blast
  moreover have "PostSync ''auto'' \<notin> set [StatusUI ?st, AutoScheduled]" by simp
  moreover have "filter (\<lambda>e. e = PostSync ''auto'') [StatusUI ?st, AutoScheduled, PostSync ''auto'', PostSync ''auto''] =
      [PostSync ''auto'', PostSync ''auto'']" by simp
  ultimately show ?thesis by blast
qed

text \<open>
  A finished sync can stay unreported: when the status that first says idle is the one \<open>startSync\<close> asks
  for itself, the page shows that the trips were updated, but the completion callback is not called, neither
  then nor when the stream says idle afterwards, so the page keeps its old trips.
\<close>

theorem completion_lost:
  assumes "ts_source s" "\<not> actionInFlight s" "\<not> was_syncing s" "autoSyncTriggered s" "StartPost \<notin> set (ts_waits s)"
    "StartStatus \<notin> set (ts_waits s)" "ss_state syncing = ''syncing''" "ss_state idle = ''idle''"
  shows "\<exists>t. sync_run s [SyncClick True, Answered True t1 StartPost (Inr syncing), SseStatus True t2 syncing,
       Answered True t3 StartStatus (Inr idle), SseStatus True t4 idle] = Some t \<and>
     completions t = completions s \<and> SyncNotify ''Trips updated.'' ''success'' \<in> set (ts_outs t)"
proof -
  have c: "\<not> (case currentStatus s of None \<Rightarrow> False | Some st \<Rightarrow> ss_state st = ''syncing'')"
    using assms(3) by (simp add: was_syncing_def)
  show ?thesis using assms c
    by (simp add: handleSyncClick_def startSync_def await_answer_def answered_def handleStatusUpdate_def updateStatusUI_def
        sync_emit_def shouldAutoSync_def action_finally_def completions_def remove1_append Let_def)
qed

theorem completion_lost_witness:
  "\<exists>t. sync_run (new_trip_sync\<lparr>ts_source := True, autoSyncTriggered := True\<rparr>)
     [SyncClick True, Answered True 1 StartPost (Inr (plain_status ''syncing'')), SseStatus True 2 (plain_status ''syncing''),
      Answered True 3 StartStatus (Inr (plain_status ''idle'')), SseStatus True 4 (plain_status ''idle'')] = Some t \<and>
     completions t = 0 \<and> SyncNotify ''Trips updated.'' ''success'' \<in> set (ts_outs t)"
  using completion_lost [of "new_trip_sync\<lparr>ts_source := True, autoSyncTriggered := True\<rparr>" "plain_status ''syncing''"
      "plain_status ''idle''" 1 2 3 4]
  by (simp add: new_trip_sync_def was_syncing_def plain_status_def completions_def del: sync_run.simps)

end
