(* ===== verification/LoadingManager.thy ===== *)
theory LoadingManager
  imports JSBase
begin

text \<open>
  The loading overlay, \<open>static/js/modules/ui/loading-manager.js\<close> (class \<open>LoadingManager\<close>): a counter of active
  operations, an overlay that is shown while it is positive and a delayed hiding.

  \<^item> \<open>found\<close> says whether the page has an overlay (with its text element) when the manager looks for it.
  \<^item> Timers run until they are cleared by the identifier last stored; \<open>hide_timers\<close> are the pending ones
    with the times they are due, \<open>force_timers\<close> counts those of \<open>error\<close>.
  \<^item> Shown: the overlay is on while an operation is active and never stays on when none is, and an error
    hides it although other operations are active.
\<close>

record loading =
  lm_overlay :: bool
  lm_visible :: bool
  lm_busy :: bool
  activeCount :: nat
  hideTimeout :: "nat option"
  hide_timers :: "(nat \<times> int) list"
  next_hide :: nat
  showStartTime :: "int option"
  lm_text :: string
  non_blocking :: bool
  lm_compact :: bool
  force_timers :: nat

definition minShowTime :: int where "minShowTime = 200"

definition new_loading :: loading where
  "new_loading = \<lparr>lm_overlay = False, lm_visible = False, lm_busy = False, activeCount = 0, hideTimeout = None,
     hide_timers = [], next_hide = 0, showStartTime = None, lm_text = [], non_blocking = False, lm_compact = False,
     force_timers = 0\<rparr>"

record show_options =
  so_blocking :: "bool option"
  so_compact :: "bool option"

definition lm_init :: "bool \<Rightarrow> loading \<Rightarrow> loading" where
  "lm_init found s = s\<lparr>lm_overlay := found\<rparr>"

definition clear_hide :: "loading \<Rightarrow> loading" where
  "clear_hide s =
     (case hideTimeout s of None \<Rightarrow> s
      | Some i \<Rightarrow> s\<lparr>hide_timers := filter (\<lambda>(j, _). j \<noteq> i) (hide_timers s), hideTimeout := None\<rparr>)"

definition loading_show :: "bool \<Rightarrow> int \<Rightarrow> string \<Rightarrow> show_options \<Rightarrow> loading \<Rightarrow> loading" where
  "loading_show found now message opts s0 =
     (let s = (if lm_overlay s0 then s0 else lm_init found s0)
      in if \<not> lm_overlay s then s
         else
           let blocking = (case so_blocking opts of Some b \<Rightarrow> b | None \<Rightarrow> False);
               compact = (if blocking then False else case so_compact opts of Some c \<Rightarrow> c | None \<Rightarrow> True);
               s1 = clear_hide s;
               s2 = s1\<lparr>activeCount := Suc (activeCount s1), lm_text := message, non_blocking := \<not> blocking,
                       lm_compact := compact\<rparr>
           in if lm_visible s2 then s2
              else s2\<lparr>showStartTime := Some now, lm_visible := True, lm_busy := True\<rparr>)"

definition switch_off :: "loading \<Rightarrow> loading" where
  "switch_off s = s\<lparr>lm_visible := False, non_blocking := False, lm_compact := False, showStartTime := None, lm_busy := False\<rparr>"

definition loading_hide :: "int \<Rightarrow> loading \<Rightarrow> loading" where
  "loading_hide now s =
     (if \<not> lm_overlay s then
        (clear_hide (s\<lparr>activeCount := 0\<rparr>))\<lparr>lm_visible := False, showStartTime := None, lm_busy := False\<rparr>
      else
        let s1 = s\<lparr>activeCount := activeCount s - 1\<rparr>
        in if activeCount s1 > 0 then s1
           else
             let delay = (case showStartTime s1 of
                    Some t \<Rightarrow> if t = 0 then 0 else max 0 (minShowTime - (now - t)) | None \<Rightarrow> 0)
             in s1\<lparr>hide_timers := hide_timers s1 @ [(next_hide s1, now + delay)],
                   hideTimeout := Some (next_hide s1), next_hide := Suc (next_hide s1)\<rparr>)"

text \<open>A hide timer fires.\<close>

definition hide_fires :: "nat \<Rightarrow> loading \<Rightarrow> loading" where
  "hide_fires i s =
     (let s1 = s\<lparr>hide_timers := filter (\<lambda>(j, _). j \<noteq> i) (hide_timers s)\<rparr>
      in if activeCount s1 = 0 then switch_off s1 else s1)"

definition forceHide :: "loading \<Rightarrow> loading" where
  "forceHide s = switch_off (clear_hide (s\<lparr>activeCount := 0\<rparr>))"

definition updateMessage :: "bool \<Rightarrow> string \<Rightarrow> loading \<Rightarrow> loading" where
  "updateMessage found message s0 =
     (let s = (if lm_overlay s0 then s0 else lm_init found s0)
      in if lm_overlay s then s\<lparr>lm_text := message\<rparr> else s)"

definition loading_error :: "bool \<Rightarrow> int \<Rightarrow> string \<Rightarrow> loading \<Rightarrow> loading" where
  "loading_error found now message s =
     (let s1 = loading_show found now (''Error: '' @ message) \<lparr>so_blocking = None, so_compact = None\<rparr> s
      in s1\<lparr>force_timers := Suc (force_timers s1)\<rparr>)"

section \<open>Events\<close>

datatype loading_event =
    LShow bool int string show_options | LHide int | LHideTimer nat | LForceHide
  | LMessage bool string | LError bool int string | LForceTimer

fun loading_step :: "loading \<Rightarrow> loading_event \<Rightarrow> loading option" where
  "loading_step s (LShow found now m opts) = Some (loading_show found now m opts s)"
| "loading_step s (LHide now) = Some (loading_hide now s)"
| "loading_step s (LHideTimer i) = (if i \<in> fst ` set (hide_timers s) then Some (hide_fires i s) else None)"
| "loading_step s LForceHide = Some (forceHide s)"
| "loading_step s (LMessage found m) = Some (updateMessage found m s)"
| "loading_step s (LError found now m) = Some (loading_error found now m s)"
| "loading_step s LForceTimer = (if force_timers s > 0
     then Some (forceHide (s\<lparr>force_timers := force_timers s - 1\<rparr>)) else None)"

fun loading_run :: "loading \<Rightarrow> loading_event list \<Rightarrow> loading option" where
  "loading_run s [] = Some s"
| "loading_run s (e # es) = (case loading_step s e of None \<Rightarrow> None | Some t \<Rightarrow> loading_run t es)"

section \<open>The overlay is on exactly while it should be\<close>

definition timer_set :: "loading \<Rightarrow> bool" where
  "timer_set s \<longleftrightarrow> (case hideTimeout s of None \<Rightarrow> False | Some i \<Rightarrow> i \<in> fst ` set (hide_timers s))"

definition overlay_inv :: "loading \<Rightarrow> bool" where
  "overlay_inv s \<longleftrightarrow> (activeCount s > 0 \<longrightarrow> lm_visible s) \<and> lm_busy s = lm_visible s \<and> (lm_visible s \<longrightarrow> lm_overlay s) \<and>
     (lm_visible s \<and> activeCount s = 0 \<longrightarrow> timer_set s)"

lemma clear_hide_fields [simp]:
  "activeCount (clear_hide s) = activeCount s" "lm_visible (clear_hide s) = lm_visible s"
  "lm_busy (clear_hide s) = lm_busy s" "lm_overlay (clear_hide s) = lm_overlay s"
  by (simp_all add: clear_hide_def split: option.split)

lemma overlay_show: "overlay_inv s \<Longrightarrow> overlay_inv (loading_show found now m opts s)"
  by (auto simp: loading_show_def overlay_inv_def lm_init_def timer_set_def Let_def)

lemma overlay_force: "overlay_inv (forceHide s)"
  by (simp add: overlay_inv_def forceHide_def switch_off_def)

lemma overlay_hide: "overlay_inv s \<Longrightarrow> overlay_inv (loading_hide now s)"
  by (simp add: loading_hide_def overlay_inv_def timer_set_def Let_def)

text \<open>A timer that fires while another one is set leaves that one pending, and hides only at a count of zero.\<close>

lemma overlay_fires: assumes "overlay_inv s" shows "overlay_inv (hide_fires i s)"
  using assms by (auto simp: hide_fires_def overlay_inv_def switch_off_def Let_def)

lemma overlay_force_timers [simp]: "overlay_inv (s\<lparr>force_timers := n\<rparr>) = overlay_inv s"
  by (simp add: overlay_inv_def timer_set_def split: option.split)

lemma overlay_step: assumes "overlay_inv s" "loading_step s e = Some t" shows "overlay_inv t"
proof (cases e)
  case (LError found now m)
  then have "t = loading_error found now m s" using assms(2) by simp
  then show ?thesis using overlay_show [OF assms(1)] by (simp add: loading_error_def Let_def)
next
  case LForceTimer
  then have "t = forceHide (s\<lparr>force_timers := force_timers s - 1\<rparr>)" using assms(2) by (auto split: if_splits)
  then show ?thesis using assms(1) by (simp add: overlay_force)
next
  case (LMessage found m)
  then have t: "t = updateMessage found m s" using assms(2) by simp
  show ?thesis unfolding t using assms(1) by (auto simp: updateMessage_def overlay_inv_def lm_init_def timer_set_def Let_def split: option.splits)
next
  case (LHideTimer i)
  then have "t = hide_fires i s" using assms(2) by (auto split: if_splits)
  then show ?thesis using assms(1) by (simp add: overlay_fires)
next
  case (LShow found now m opts)
  then have "t = loading_show found now m opts s" using assms(2) by simp
  then show ?thesis using assms(1) by (simp add: overlay_show)
next
  case (LHide now)
  then have "t = loading_hide now s" using assms(2) by simp
  then show ?thesis using assms(1) by (simp add: overlay_hide)
next
  case LForceHide
  then have "t = forceHide s" using assms(2) by simp
  then show ?thesis using assms(1) by (simp add: overlay_force)
qed

interpretation loading_events: event_system "\<lambda>s. s = new_loading" "\<lambda>s e t. loading_step s e = Some t" overlay_inv
proof unfold_locales
  fix s assume "s = new_loading"
  then show "overlay_inv s" by (simp add: new_loading_def overlay_inv_def)
next
  fix s e t assume "overlay_inv s" "loading_step s e = Some t"
  then show "overlay_inv t" by (rule overlay_step)
qed

lemma loading_run_reach:
  "loading_run s es = Some t \<Longrightarrow> reach (\<lambda>s. s = new_loading) (\<lambda>s e t. loading_step s e = Some t) s \<Longrightarrow>
     reach (\<lambda>s. s = new_loading) (\<lambda>s e t. loading_step s e = Some t) t"
proof (induction es arbitrary: s)
  case (Cons e es)
  from Cons.prems(1) obtain u where u: "loading_step s e = Some u" "loading_run u es = Some t"
    by (auto simp del: loading_step.simps split: option.splits)
  have "reach (\<lambda>s. s = new_loading) (\<lambda>s e t. loading_step s e = Some t) u"
    by (rule reach_step [where step = "\<lambda>s e t. loading_step s e = Some t" and e = e, OF Cons.prems(2) u(1)])
  with Cons.IH [OF u(2)] show ?case by blast
qed simp

text \<open>
  C37. The loading overlay is never off while an operation is counted as active and never stays on when none is:
  after any sequence of calls, a positive count means that the overlay is shown and the page marked busy; and
  when the overlay is shown with a count of zero, the timer last set is pending, and when it fires the
  overlay and the busy mark go.
\<close>

theorem overlay_not_stuck:
  assumes "loading_run new_loading es = Some s"
  shows "(activeCount s > 0 \<longrightarrow> lm_visible s \<and> lm_busy s) \<and>
    (lm_visible s \<and> activeCount s = 0 \<longrightarrow>
       (\<exists>i t. hideTimeout s = Some i \<and> loading_step s (LHideTimer i) = Some t \<and> \<not> lm_visible t \<and> \<not> lm_busy t))"
proof -
  have "overlay_inv s"
    by (rule loading_events.reachable_inv, rule loading_run_reach [OF assms], rule reach_init) (rule refl)
  then show ?thesis by (auto simp: overlay_inv_def hide_fires_def switch_off_def timer_set_def Let_def split: option.splits)
qed

theorem overlay_not_stuck_witness:
  "\<exists>s i t. loading_run new_loading [LShow True 1000 ''Loading...'' \<lparr>so_blocking = None, so_compact = None\<rparr>, LHide 1050] = Some s \<and>
     lm_visible s \<and> hideTimeout s = Some i \<and> loading_step s (LHideTimer i) = Some t \<and> \<not> lm_visible t"
proof -
  obtain s where s: "loading_run new_loading
      [LShow True 1000 ''Loading...'' \<lparr>so_blocking = None, so_compact = None\<rparr>, LHide 1050] = Some s"
    "lm_visible s" "activeCount s = 0"
    by (simp add: loading_show_def loading_hide_def new_loading_def lm_init_def clear_hide_def Let_def)
  from overlay_not_stuck [OF s(1)] s show ?thesis by blast
qed

text \<open>The delayed hiding after an error also hides the overlay of an operation that is still active.\<close>

lemma error_hides_active:
  assumes "lm_overlay s"
  shows "\<exists>t. loading_run s [LShow True t0 a opts, LError True t1 m, LForceTimer] = Some t \<and> \<not> lm_visible t \<and> activeCount t = 0"
  using assms by (simp add: loading_error_def loading_show_def forceHide_def switch_off_def Let_def)

end
