(* ===== verification/TaskTracking.thy ===== *)
theory TaskTracking
  imports JSBase
begin

text \<open>
  The task table of the settings page, \<open>static/js/modules/features/settings/task-manager/sse.js\<close>: the rows
  updated by the server's events, and the map of active tasks kept from those events and from polling.

  \<^item> The table is the list of its rows by task; a row has every cell the code looks for. Dates are kept as
    given. \<open>null\<close> and missing fields are \<open>None\<close>.
  \<^item> An update is the list of its entries in order, one per task.
  \<^item> Messages that contain a running time are recorded with the number of seconds.
  \<^item> Shown: after a poll the active tasks are exactly the running ones; both sources agree on a full update; and a
    task that was first seen pending is never reported as finished.
\<close>

section \<open>Data\<close>

record task_update =
  tu_status :: string
  tu_error :: "string option"
  tu_last_run :: "string option"
  tu_next_run :: "string option"
  tu_name :: "string option"

record task_row =
  tr_name :: string
  tr_status :: string
  tr_manual :: bool
  tr_run_disabled :: bool
  tr_force_disabled :: bool
  tr_run_title :: string
  tr_last_run :: string
  tr_next_run :: string

record task_state =
  ts_status :: string
  ts_start :: int

datatype task_note =
    RowDone string | RowFailed string string
  | TaskStarted string | TaskDone string int | TaskFailed string string

type_synonym updates = "(string \<times> task_update) list"
type_synonym rows = "(string \<times> task_row) list"
type_synonym active_tasks = "(string \<times> task_state) list"

definition is_running :: "string \<Rightarrow> bool" where
  "is_running status \<longleftrightarrow> status \<in> {''RUNNING'', ''PENDING''}"

definition task_error :: "task_update \<Rightarrow> string" where
  "task_error u = (case tu_error u of None \<Rightarrow> ''Unknown error'' | Some e \<Rightarrow> if e = [] then ''Unknown error'' else e)"

definition seconds_since :: "int \<Rightarrow> int \<Rightarrow> int" where
  "seconds_since now start = \<lfloor>real_of_int (now - start) / 1000 + 1 / 2\<rfloor>"

section \<open>The table\<close>

definition row_status :: "task_update \<Rightarrow> task_row \<Rightarrow> task_row \<times> task_note list" where
  "row_status u r =
     (let new = tu_status u in
      if tr_status r = new then (r, [])
      else
        (r\<lparr>tr_status := new, tr_run_disabled := tr_manual r \<or> is_running new,
           tr_run_title := (if tr_manual r then ''Use the manual fetch form below'' else ''Run task now''),
           tr_force_disabled := \<not> is_running new\<rparr>,
         if tr_status r = ''RUNNING'' \<and> new = ''COMPLETED'' then [RowDone (tr_name r)]
         else if tr_status r = ''RUNNING'' \<and> new = ''FAILED'' then [RowFailed (tr_name r) (task_error u)] else []))"

definition row_dates :: "task_update \<Rightarrow> task_row \<Rightarrow> task_row" where
  "row_dates u r =
     (let r1 = (case tu_last_run u of None \<Rightarrow> r | Some d \<Rightarrow> if d = [] then r else r\<lparr>tr_last_run := d\<rparr>)
      in case tu_next_run u of None \<Rightarrow> r1 | Some d \<Rightarrow> if d = [] then r1 else r1\<lparr>tr_next_run := d\<rparr>)"

definition process_one :: "rows \<times> task_note list \<Rightarrow> string \<times> task_update \<Rightarrow> rows \<times> task_note list" where
  "process_one = (\<lambda>(rs, ns) (taskId, u).
     case map_of rs taskId of
       None \<Rightarrow> (rs, ns)
     | Some r \<Rightarrow> let (r1, new) = row_status u r in (AList.update taskId (row_dates u r1) rs, ns @ new))"

definition processSSEUpdates :: "updates \<Rightarrow> rows \<Rightarrow> rows \<times> task_note list" where
  "processSSEUpdates us rs = foldl process_one (rs, []) us"

section \<open>Active tasks\<close>

definition display_name :: "rows \<Rightarrow> string \<Rightarrow> string option" where
  "display_name rs taskId = map_option (\<lambda>r. if tr_name r = [] then taskId else tr_name r) (map_of rs taskId)"

text \<open>The first loop: running tasks that are not known are added.\<close>

definition add_running :: "int \<Rightarrow> active_tasks \<times> string list \<Rightarrow> string \<times> task_update \<Rightarrow> active_tasks \<times> string list" where
  "add_running now = (\<lambda>(m, added) (taskId, u).
     if is_running (tu_status u) \<and> map_of m taskId = None
     then (AList.update taskId \<lparr>ts_status = tu_status u, ts_start = now\<rparr> m, added @ [taskId]) else (m, added))"

definition finish_note :: "int \<Rightarrow> string \<Rightarrow> task_state \<Rightarrow> string \<Rightarrow> string \<Rightarrow> task_note list" where
  "finish_note now name st status err =
     (if ts_status st = ''RUNNING'' \<and> status = ''COMPLETED'' then [TaskDone name (seconds_since now (ts_start st))]
      else if ts_status st = ''RUNNING'' \<and> status = ''FAILED'' then [TaskFailed name err] else [])"

text \<open>The second loop of the event handler: known tasks that an update says have ended.\<close>

definition sse_finish ::
  "int \<Rightarrow> rows \<Rightarrow> updates \<Rightarrow> active_tasks \<times> task_note list \<Rightarrow> string \<times> task_state \<Rightarrow> active_tasks \<times> task_note list" where
  "sse_finish now rs us = (\<lambda>(m, ns) (taskId, st).
     case map_of us taskId of
       None \<Rightarrow> (m, ns)
     | Some u \<Rightarrow>
         if is_running (tu_status u) then (m, ns)
         else (AList.delete taskId m,
               ns @ (case display_name rs taskId of None \<Rightarrow> []
                     | Some name \<Rightarrow> finish_note now name st (tu_status u) (task_error u))))"

definition updateActiveTasksMapFromSSE ::
  "int \<Rightarrow> rows \<Rightarrow> updates \<Rightarrow> active_tasks \<Rightarrow> active_tasks \<times> task_note list" where
  "updateActiveTasksMapFromSSE now rs us m =
     (let (m1, added) = foldl (add_running now) (m, []) us;
          started = concat (map (\<lambda>t. case display_name rs t of None \<Rightarrow> [] | Some n \<Rightarrow> [TaskStarted n]) added);
          (m2, notes) = foldl (sse_finish now rs us) (m1, []) m1
      in (m2, started @ notes))"

definition config_finish ::
  "int \<Rightarrow> updates \<Rightarrow> active_tasks \<times> task_note list \<Rightarrow> string \<Rightarrow> active_tasks \<times> task_note list" where
  "config_finish now tasks = (\<lambda>(m, ns) taskId.
     let name = (case map_of tasks taskId of Some u \<Rightarrow> (case tu_name u of Some n \<Rightarrow> if n = [] then taskId else n | None \<Rightarrow> taskId)
                 | None \<Rightarrow> taskId);
         status = (case map_of tasks taskId of Some u \<Rightarrow> if tu_status u = [] then ''COMPLETED'' else tu_status u
                   | None \<Rightarrow> ''COMPLETED'');
         err = (case map_of tasks taskId of Some u \<Rightarrow> task_error u | None \<Rightarrow> ''Unknown error'')
     in (AList.delete taskId m,
         ns @ (case map_of m taskId of None \<Rightarrow> [] | Some st \<Rightarrow> finish_note now name st status err)))"

definition running_ids :: "updates \<Rightarrow> string list" where
  "running_ids us = map fst (filter (\<lambda>(t, u). is_running (tu_status u)) us)"

definition updateActiveTasksMapFromConfig :: "int \<Rightarrow> updates \<Rightarrow> active_tasks \<Rightarrow> active_tasks \<times> task_note list" where
  "updateActiveTasksMapFromConfig now tasks m =
     (let (m1, added) = foldl (add_running now) (m, []) tasks;
          recentlyFinished = filter (\<lambda>t. t \<notin> set (running_ids tasks)) (map fst m1)
      in foldl (config_finish now tasks) (m1, []) recentlyFinished)"

definition getPollingInterval :: "nat \<Rightarrow> nat \<Rightarrow> bool \<Rightarrow> nat" where
  "getPollingInterval sseConnected sseDisconnected is_open = (if is_open then sseConnected else sseDisconnected)"

section \<open>Which tasks are active\<close>

definition keys :: "('k \<times> 'v) list \<Rightarrow> 'k set" where
  "keys al = fst ` set al"

lemma keys_simps [simp]:
  "keys (AList.update k v al) = insert k (keys al)" "keys (AList.delete k al) = keys al - {k}" "keys [] = {}"
  by (auto simp: keys_def dom_update set_alist_delete)

lemma map_of_None_keys: "map_of al k = None \<longleftrightarrow> k \<notin> keys al"
  by (simp add: map_of_eq_None_iff keys_def)

lemma add_running_keys:
  "keys (fst (foldl (add_running now) (m, a) us)) = keys m \<union> set (running_ids us)"
proof (induction us arbitrary: m a)
  case (Cons e us)
  obtain t u where e: "e = (t, u)" by (cases e)
  obtain m1 a1 where f: "add_running now (m, a) e = (m1, a1)" by fastforce
  have "keys m1 = keys m \<union> (if is_running (tu_status u) then {t} else {})"
    using f by (auto simp: e add_running_def map_of_None_keys split: if_splits)
  then show ?case using Cons.IH [of m1 a1] by (auto simp: f [unfolded e] e running_ids_def)
qed (simp add: running_ids_def)

lemma config_finish_keys: "keys (fst (foldl (config_finish now tasks) (m, ns) ts)) = keys m - set ts"
proof (induction ts arbitrary: m ns)
  case (Cons t ts)
  obtain m1 ns1 where f: "config_finish now tasks (m, ns) t = (m1, ns1)" by fastforce
  then have "keys m1 = keys m - {t}" by (auto simp: config_finish_def Let_def)
  then show ?case using Cons.IH [of m1 ns1] by (auto simp: f)
qed simp

lemma sse_finish_keys:
  "keys (fst (foldl (sse_finish now rs us) (m, ns) es)) =
     keys m - {t \<in> keys es. case map_of us t of None \<Rightarrow> False | Some u \<Rightarrow> \<not> is_running (tu_status u)}"
proof (induction es arbitrary: m ns)
  case (Cons e es)
  obtain t st where e: "e = (t, st)" by (cases e)
  obtain m1 ns1 where f: "sse_finish now rs us (m, ns) e = (m1, ns1)" by fastforce
  have k: "keys m1 = keys m - (if (case map_of us t of None \<Rightarrow> False | Some u \<Rightarrow> \<not> is_running (tu_status u)) then {t} else {})"
    using f by (auto simp: e sse_finish_def split: option.splits if_splits)
  have ke: "keys (e # es) = insert t (keys es)" by (simp add: keys_def e)
  show ?case using Cons.IH [of m1 ns1] k unfolding foldl_Cons f ke by (auto split: if_splits)
qed simp

lemma running_ids_iff:
  "distinct (map fst us) \<Longrightarrow> t \<in> set (running_ids us) \<longleftrightarrow> (\<exists>u. map_of us t = Some u \<and> is_running (tu_status u))"
  by (force simp: running_ids_def map_of_eq_Some_iff)

text \<open>
  After a poll the active tasks are exactly those the server calls running or pending. After an event
  they are those, and the tasks known before of which the event says nothing; so an event that
  lists every known task leaves the same active tasks as a poll.
\<close>

theorem active_tasks_tracked:
  assumes "distinct (map fst us)"
  shows "keys (fst (updateActiveTasksMapFromConfig now us m)) = set (running_ids us) \<and>
    keys (fst (updateActiveTasksMapFromSSE now rs us m)) = set (running_ids us) \<union> (keys m - keys us)"
proof -
  obtain m1 a where f: "foldl (add_running now) (m, []) us = (m1, a)" by fastforce
  have k1: "keys m1 = keys m \<union> set (running_ids us)" using add_running_keys [of now m "[]" us] f by simp
  have "keys (fst (updateActiveTasksMapFromConfig now us m)) = set (running_ids us)"
    using k1 by (auto simp: updateActiveTasksMapFromConfig_def f config_finish_keys) (auto simp: keys_def)
  moreover obtain m2 ns where g: "foldl (sse_finish now rs us) (m1, []) m1 = (m2, ns)" by fastforce
  then have "keys m2 = keys m1 - {t \<in> keys m1. case map_of us t of None \<Rightarrow> False | Some u \<Rightarrow> \<not> is_running (tu_status u)}"
    using sse_finish_keys [of now rs us m1 "[]" m1] by simp
  then have "keys (fst (updateActiveTasksMapFromSSE now rs us m)) = set (running_ids us) \<union> (keys m - keys us)"
    using k1 running_ids_iff [OF assms] map_of_None_keys [of us]
    by (auto simp: updateActiveTasksMapFromSSE_def f g Let_def split: option.splits)
  ultimately show ?thesis by blast
qed

definition upd :: "string \<Rightarrow> task_update" where
  "upd s = \<lparr>tu_status = s, tu_error = None, tu_last_run = None, tu_next_run = None, tu_name = None\<rparr>"

theorem active_tasks_tracked_witness:
  "keys (fst (updateActiveTasksMapFromSSE 10 [] [(''a'', upd ''COMPLETED''), (''b'', upd ''RUNNING'')]
     [(''a'', \<lparr>ts_status = ''RUNNING'', ts_start = 0\<rparr>), (''c'', \<lparr>ts_status = ''RUNNING'', ts_start = 0\<rparr>)])) = {''b'', ''c''}"
  using active_tasks_tracked [of "[(''a'', upd ''COMPLETED''), (''b'', upd ''RUNNING'')]" 10
      "[(''a'', \<lparr>ts_status = ''RUNNING'', ts_start = 0\<rparr>), (''c'', \<lparr>ts_status = ''RUNNING'', ts_start = 0\<rparr>)]" "[]"]
  by (auto simp: running_ids_def keys_def upd_def is_running_def)

section \<open>Tasks first seen pending\<close>

lemma add_running_known: "map_of m t = Some st \<Longrightarrow> map_of (fst (foldl (add_running now) (m, a) us)) t = Some st"
proof (induction us arbitrary: m a)
  case (Cons u us)
  obtain m1 a1 where f: "add_running now (m, a) u = (m1, a1)" by fastforce
  then have "map_of m1 t = Some st" using Cons.prems
    by (cases u) (auto simp: add_running_def update_conv split: if_splits)
  then show ?case using Cons.IH by (simp add: f)
qed simp

text \<open>
  A task that is known as pending stays so in the map while it runs, and its end, which the map then
  forgets, gives no message.
\<close>

theorem pending_task_end_silent:
  assumes "map_of m t = Some \<lparr>ts_status = ''PENDING'', ts_start = t0\<rparr>"
  shows "map_of (fst (updateActiveTasksMapFromConfig now1 [(t, upd ''RUNNING'')] m)) t = Some \<lparr>ts_status = ''PENDING'', ts_start = t0\<rparr>"
    and "m = [(t, \<lparr>ts_status = ''PENDING'', ts_start = t0\<rparr>)] \<Longrightarrow>
      updateActiveTasksMapFromConfig now2 [(t, upd ''COMPLETED'')] m = ([], [])"
proof -
  have other: "map_of (fst (foldl (config_finish now us) (m', ns) ts)) t = map_of m' t" if "t \<notin> set ts" for now us m' ns ts
    using that
  proof (induction ts arbitrary: m' ns)
    case (Cons x ts)
    obtain m2 ns2 where f: "config_finish now us (m', ns) x = (m2, ns2)" by fastforce
    then have "map_of m2 t = map_of m' t" using Cons.prems by (auto simp: config_finish_def Let_def)
    then show ?case using Cons by (simp add: f)
  qed simp
  obtain m1 a where f: "foldl (add_running now1) (m, []) [(t, upd ''RUNNING'')] = (m1, a)" by fastforce
  have "map_of m1 t = Some \<lparr>ts_status = ''PENDING'', ts_start = t0\<rparr>"
    using add_running_known [OF assms, of now1 "[]" "[(t, upd ''RUNNING'')]"] f by simp
  then show "map_of (fst (updateActiveTasksMapFromConfig now1 [(t, upd ''RUNNING'')] m)) t = Some \<lparr>ts_status = ''PENDING'', ts_start = t0\<rparr>"
    unfolding updateActiveTasksMapFromConfig_def f by (simp add: other running_ids_def is_running_def upd_def)
  show "m = [(t, \<lparr>ts_status = ''PENDING'', ts_start = t0\<rparr>)] \<Longrightarrow>
      updateActiveTasksMapFromConfig now2 [(t, upd ''COMPLETED'')] m = ([], [])"
    by (simp add: updateActiveTasksMapFromConfig_def add_running_def config_finish_def running_ids_def is_running_def
        finish_note_def upd_def)
qed

end
