(* ===== verification/JSDate.thy ===== *)
theory JSDate
  imports JSBase "HOL-Library.Multiset"
begin

text \<open>
  The parts of \<open>Date\<close> and of \<open>Array.prototype.sort\<close> that the statistics modules use.

  \<^item> A UTC calendar day is its number of days since 1 January 1970; \<open>days_from_civil\<close> and
    \<open>civil_from_days\<close> convert to and from year, month (1 to 12) and day of the month in the proleptic
    Gregorian calendar of the language, and are inverse to each other.
  \<^item> \<open>date_utc\<close> is \<open>Date.UTC(y, m, d)\<close> in days: a month outside 0 to 11 carries into the year and the
    day is counted from the first of the month, so 31 February is a day of March; the years 0 to 99 are
    those of the twentieth century.
  \<^item> \<open>js_sort\<close> is a stable sort by a comparison; for a consistent comparison the language fixes the
    result.
  \<^item> \<open>to_fixed\<close> is \<open>Number(x.toFixed(k))\<close>: the nearest multiple of \<open>10\<^sup>-\<^sup>k\<close>, halves away from zero.
\<close>

section \<open>The calendar\<close>

definition leap_year :: "int \<Rightarrow> bool" where
  "leap_year y \<longleftrightarrow> y mod 4 = 0 \<and> (y mod 100 \<noteq> 0 \<or> y mod 400 = 0)"

definition month_days :: "int \<Rightarrow> int \<Rightarrow> int" where
  "month_days y m = (if m = 2 then (if leap_year y then 29 else 28) else if m \<in> {4, 6, 9, 11} then 30 else 31)"

definition civil_date :: "int \<times> int \<times> int \<Rightarrow> bool" where
  "civil_date = (\<lambda>(y, m, d). 1 \<le> m \<and> m \<le> 12 \<and> 1 \<le> d \<and> d \<le> month_days y m)"

text \<open>Years are counted from March, so that the leap day is the last day of its year.\<close>

definition march_year_start :: "int \<Rightarrow> int" where
  "march_year_start y = 365 * y + y div 4 - y div 100 + y div 400"

definition march_month_start :: "int \<Rightarrow> int" where
  "march_month_start k = (153 * k + 2) div 5"

definition days_from_civil :: "int \<times> int \<times> int \<Rightarrow> int" where
  "days_from_civil = (\<lambda>(y, m, d).
     march_year_start (if m \<le> 2 then y - 1 else y) + march_month_start (if m \<le> 2 then m + 9 else m - 3) + d - 719469)"

definition civil_from_days :: "int \<Rightarrow> int \<times> int \<times> int" where
  "civil_from_days n =
     (let z = n + 719468; era = z div 146097; doe = z mod 146097;
          c = min 3 (doe div 36524); doc = doe - 36524 * c;
          b = doc div 1461; dob = doc mod 1461;
          a = min 3 (dob div 365); doy = dob - 365 * a;
          k = (5 * doy + 2) div 153;
          y = 400 * era + 100 * c + 4 * b + a
      in (if k < 10 then y else y + 1, if k < 10 then k + 3 else k - 9, doy - march_month_start k + 1))"

lemma march_year_start_parts:
  fixes era c b a :: int
  assumes "0 \<le> c" "c \<le> 3" "0 \<le> b" "b \<le> 24" "0 \<le> a" "a \<le> 3"
  shows "march_year_start (400 * era + 100 * c + 4 * b + a) = 146097 * era + 36524 * c + 1461 * b + 365 * a"
proof -
  have "(400 * era + 100 * c + 4 * b + a) div 4 = 100 * era + 25 * c + b" using assms by simp
  moreover have "(400 * era + 100 * c + 4 * b + a) div 100 = 4 * era + c" using assms by simp
  moreover have "(400 * era + 100 * c + 4 * b + a) div 400 = era" using assms by simp
  ultimately show ?thesis by (simp add: march_year_start_def)
qed

text \<open>The leap day exists only in the last year of a group of four, not in the last group of a century but in the last century.\<close>

definition leap_parts :: "int \<Rightarrow> int \<Rightarrow> int \<Rightarrow> bool" where
  "leap_parts c b a \<longleftrightarrow> a = 3 \<and> (b < 24 \<or> c = 3)"

text \<open>The parts into which \<open>civil_from_days\<close> splits a day number.\<close>

lemma day_number_parts:
  fixes n :: int
  obtains era c b a doy where
    "n + 719468 = 146097 * era + 36524 * c + 1461 * b + 365 * a + doy"
    "0 \<le> c" "c \<le> 3" "0 \<le> b" "b \<le> 24" "0 \<le> a" "a \<le> 3" "0 \<le> doy" "doy \<le> (if leap_parts c b a then 365 else 364)"
    "civil_from_days n =
       (let k = (5 * doy + 2) div 153; y = 400 * era + 100 * c + 4 * b + a
        in (if k < 10 then y else y + 1, if k < 10 then k + 3 else k - 9, doy - march_month_start k + 1))"
proof -
  define z where "z = n + 719468"
  define doe where "doe = z mod 146097"
  define c where "c = min 3 (doe div 36524)"
  define doc where "doc = doe - 36524 * c"
  define a where "a = min 3 (doc mod 1461 div 365)"
  have doe: "0 \<le> doe" "doe < 146097" by (simp_all add: doe_def)
  then have c: "0 \<le> c" "c \<le> 3" by (simp_all add: c_def)
  have doc: "0 \<le> doc" "doc \<le> (if c = 3 then 36524 else 36523)" using doe by (auto simp: c_def doc_def min_def)
  then have doc': "doc \<le> 36524" by (simp split: if_splits)
  have dob: "0 \<le> doc mod 1461" "doc mod 1461 < 1461" by simp_all
  have a: "0 \<le> a" "a \<le> 3" using dob by (simp_all add: a_def)
  have doy: "0 \<le> doc mod 1461 - 365 * a" "doc mod 1461 - 365 * a \<le> (if a = 3 then 365 else 364)"
    using dob by (auto simp: a_def min_def)
  have full: "doc div 1461 < 24 \<or> c = 3" if "doc mod 1461 = 1460"
  proof (rule ccontr)
    assume "\<not> ?thesis"
    then have "24 \<le> doc div 1461" "doc \<le> 36523" using doc by simp_all
    moreover have "doc = 1461 * (doc div 1461) + 1460" using that by (metis mult_div_mod_eq)
    ultimately show False by linarith
  qed
  have leap: "doc mod 1461 - 365 * a \<le> (if leap_parts c (doc div 1461) a then 365 else 364)"
  proof (cases "doc mod 1461 - 365 * a = 365")
    case True
    then have "a = 3" using doy(2) by (simp split: if_splits)
    then show ?thesis using True full by (auto simp: leap_parts_def)
  next
    case False
    then show ?thesis using doy(2) by (auto split: if_splits)
  qed
  have "z = 146097 * (z div 146097) + doe" by (simp add: doe_def)
  moreover have "doe = 36524 * c + doc" by (simp add: doc_def)
  moreover have "doc = 1461 * (doc div 1461) + doc mod 1461" by simp
  ultimately have "n + 719468 = 146097 * (z div 146097) + 36524 * c + 1461 * (doc div 1461) + 365 * a + (doc mod 1461 - 365 * a)"
    unfolding z_def by linarith
  then show thesis
  proof (rule that)
    show "0 \<le> doc div 1461" "doc div 1461 \<le> 24" using doc(1) doc' by simp_all
    show "civil_from_days n =
       (let k = (5 * (doc mod 1461 - 365 * a) + 2) div 153; y = 400 * (z div 146097) + 100 * c + 4 * (doc div 1461) + a
        in (if k < 10 then y else y + 1, if k < 10 then k + 3 else k - 9, (doc mod 1461 - 365 * a) - march_month_start k + 1))"
      by (simp only: civil_from_days_def Let_def z_def doe_def c_def doc_def a_def)
  qed (use c a doy(1) leap in simp_all)
qed

lemma days_from_civil_from_days [simp]: "days_from_civil (civil_from_days n) = n"
proof -
  obtain era c b a doy where p:
    "n + 719468 = 146097 * era + 36524 * c + 1461 * b + 365 * a + doy"
    "0 \<le> c" "c \<le> 3" "0 \<le> b" "b \<le> 24" "0 \<le> a" "a \<le> 3" "0 \<le> doy" "doy \<le> (if leap_parts c b a then 365 else 364)"
    and civ: "civil_from_days n =
       (let k = (5 * doy + 2) div 153; y = 400 * era + 100 * c + 4 * b + a
        in (if k < 10 then y else y + 1, if k < 10 then k + 3 else k - 9, doy - march_month_start k + 1))"
    by (rule day_number_parts)
  have "doy \<le> 365" using p(9) by (simp split: if_splits)
  then have "0 \<le> (5 * doy + 2) div 153" "(5 * doy + 2) div 153 \<le> 11" using p(8) by simp_all
  then have "days_from_civil (civil_from_days n) = march_year_start (400 * era + 100 * c + 4 * b + a) + doy - 719468"
    unfolding civ by (simp add: days_from_civil_def Let_def)
  also have "\<dots> = n" using march_year_start_parts [OF p(2-7), of era] p(1) by linarith
  finally show ?thesis .
qed

text \<open>Every day number has a date of the calendar.\<close>

lemma period_end:
  fixes w m q :: int
  assumes "0 < w" "w \<le> m"
  shows "(w + m * q) mod m = 0 \<longleftrightarrow> w = m"
  using assms by (cases "w = m") simp_all

lemma split_period:
  fixes m q r :: int
  assumes "0 \<le> r" "r < m"
  shows "(m * q + r) div m = q" "(m * q + r) mod m = r"
  using assms by simp_all

lemma split_period_last:
  fixes m q r :: int
  assumes "0 \<le> r" "r \<le> m" "r = m \<Longrightarrow> q = 3" "q \<le> 3" "0 < m"
  shows "min 3 ((m * q + r) div m) = q"
proof (cases "r = m")
  case True
  have "(m * q + r) div m = q + 1" using assms(5) True by (simp add: add.commute)
  then show ?thesis using assms(3) [OF True] by simp
next
  case False
  then show ?thesis using assms split_period(1) [of r m q] by simp
qed

lemma leap_year_parts:
  fixes era c b a :: int
  assumes "0 \<le> c" "c \<le> 3" "0 \<le> b" "b \<le> 24" "0 \<le> a" "a \<le> 3"
  shows "leap_year (400 * era + 100 * c + 4 * b + a + 1) \<longleftrightarrow> leap_parts c b a"
proof -
  define y where "y = 400 * era + 100 * c + 4 * b + a + 1"
  have "y = (a + 1) + 4 * (100 * era + 25 * c + b)" by (simp add: y_def)
  then have 4: "y mod 4 = 0 \<longleftrightarrow> a = 3" using period_end [of "a + 1" 4 "100 * era + 25 * c + b"] assms by simp
  have "y = (4 * b + a + 1) + 100 * (4 * era + c)" by (simp add: y_def)
  moreover have "4 * b + a + 1 = 100 \<longleftrightarrow> b = 24 \<and> a = 3" using assms by linarith
  ultimately have 100: "y mod 100 = 0 \<longleftrightarrow> b = 24 \<and> a = 3"
    using period_end [of "4 * b + a + 1" 100 "4 * era + c"] assms by simp
  have "y = (100 * c + 4 * b + a + 1) + 400 * era" by (simp add: y_def)
  moreover have "100 * c + 4 * b + a + 1 = 400 \<longleftrightarrow> c = 3 \<and> b = 24 \<and> a = 3" using assms by linarith
  ultimately have 400: "y mod 400 = 0 \<longleftrightarrow> c = 3 \<and> b = 24 \<and> a = 3"
    using period_end [of "100 * c + 4 * b + a + 1" 400 era] assms by simp
  show ?thesis unfolding y_def [symmetric] leap_year_def leap_parts_def 4 100 400 using assms by auto
qed

lemma days_civil_parts:
  fixes era c b a doy :: int
  assumes "0 \<le> c" "c \<le> 3" "0 \<le> b" "b \<le> 24" "0 \<le> a" "a \<le> 3" "0 \<le> doy"
    and "doy \<le> (if leap_parts c b a then 365 else 364)"
    and n: "n + 719468 = 146097 * era + 36524 * c + 1461 * b + 365 * a + doy"
  shows "civil_from_days n =
       (let k = (5 * doy + 2) div 153; y = 400 * era + 100 * c + 4 * b + a
        in (if k < 10 then y else y + 1, if k < 10 then k + 3 else k - 9, doy - march_month_start k + 1))"
proof -
  have d: "doy \<le> 365" "doy = 365 \<Longrightarrow> a = 3 \<and> (b < 24 \<or> c = 3)" using assms(8) by (auto simp: leap_parts_def split: if_splits)
  define z where "z = n + 719468"
  define doe where "doe = 36524 * c + 1461 * b + 365 * a + doy"
  define doc where "doc = 1461 * b + 365 * a + doy"
  define dob where "dob = 365 * a + doy"
  have dob: "0 \<le> dob" "dob < 1461" using assms d by (auto simp: dob_def)
  have doc: "0 \<le> doc" "doc \<le> 36524" using assms d(1) by (simp_all add: doc_def)
  have last_day: "c = 3" if "doc = 36524"
  proof -
    have "doy = 365" "b = 24" using that d(1) assms(3-6) unfolding doc_def by linarith+
    then show ?thesis using d(2) by simp
  qed
  have doe: "0 \<le> doe" "doe < 146097" using assms(1,2) doc by (simp_all add: doe_def doc_def)
  have "z = 146097 * era + doe" using n by (simp add: z_def doe_def)
  then have z: "z div 146097 = era" "z mod 146097 = doe" using split_period [OF doe] by simp_all
  have "doe = 36524 * c + doc" by (simp add: doe_def doc_def)
  then have c: "min 3 (doe div 36524) = c" "doe - 36524 * c = doc"
    using split_period_last [OF doc last_day assms(2)] by simp_all
  have "doc = 1461 * b + dob" by (simp add: doc_def dob_def)
  then have b: "doc div 1461 = b" "doc mod 1461 = dob" using split_period [OF dob] by simp_all
  have "min 3 ((365 * a + doy) div 365) = a" using assms(6,7) d by (intro split_period_last) auto
  then have a: "min 3 (dob div 365) = a" "dob - 365 * a = doy" by (simp_all only: dob_def)
  show ?thesis
    unfolding civil_from_days_def z_def [symmetric] Let_def z(1) z(2) c b a by (rule refl)
qed

text \<open>A date of the calendar by the parts of its day number.\<close>

lemma months_upto:
  assumes "k \<in> {0..11 :: int}"
  shows "k = 0 \<or> k = 1 \<or> k = 2 \<or> k = 3 \<or> k = 4 \<or> k = 5 \<or> k = 6 \<or> k = 7 \<or> k = 8 \<or> k = 9 \<or> k = 10 \<or> k = 11"
  using assms by (simp; presburger)

lemma month_of_doy:
  fixes k e :: int
  assumes "0 \<le> k" "k \<le> 11" "0 \<le> e"
    and "e < (if k = 11 then 29 else if k \<in> {1, 3, 6, 8} then 30 else 31)"
  shows "(5 * (march_month_start k + e) + 2) div 153 = k" "march_month_start k + e \<le> (if k = 11 \<and> e = 28 then 365 else 364)"
proof -
  from assms(1,2) consider "k = 0" | "k = 1" | "k = 2" | "k = 3" | "k = 4" | "k = 5" | "k = 6" | "k = 7"
    | "k = 8" | "k = 9" | "k = 10" | "k = 11"
    by (metis (full_types) atLeastAtMost_iff months_upto)
  then have "153 * k \<le> 5 * (march_month_start k + e) + 2 \<and> 5 * (march_month_start k + e) + 2 < 153 * k + 153 \<and>
      march_month_start k + e \<le> (if k = 11 \<and> e = 28 then 365 else 364)"
    using assms(3,4) by cases (simp_all add: march_month_start_def)
  moreover have "x div 153 = k" if "153 * k \<le> x" "x < 153 * k + 153" for x :: int
    using split_period(1) [of "x - 153 * k" 153 k] that by simp
  ultimately show "(5 * (march_month_start k + e) + 2) div 153 = k" "march_month_start k + e \<le> (if k = 11 \<and> e = 28 then 365 else 364)"
    by simp_all
qed

lemma year_parts:
  fixes y :: int
  obtains era c b a where "y = 400 * era + 100 * c + 4 * b + a" "0 \<le> c" "c \<le> 3" "0 \<le> b" "b \<le> 24" "0 \<le> a" "a \<le> 3"
proof -
  define w where "w = y mod 400"
  define v where "v = w mod 100"
  have w: "0 \<le> w" "w < 400" by (simp_all add: w_def)
  have v: "0 \<le> v" "v < 100" by (simp_all add: v_def)
  have "y = 400 * (y div 400) + w" by (simp add: w_def)
  moreover have "w = 100 * (w div 100) + v" by (simp add: v_def)
  moreover have "v = 4 * (v div 4) + v mod 4" by simp
  ultimately have "y = 400 * (y div 400) + 100 * (w div 100) + 4 * (v div 4) + v mod 4" by linarith
  then show thesis
  proof (rule that)
    show "0 \<le> w div 100" "w div 100 \<le> 3" "0 \<le> v div 4" "v div 4 \<le> 24" using w v by simp_all
    show "0 \<le> v mod 4" "v mod 4 \<le> 3" using pos_mod_bound [of 4 v] by simp_all
  qed
qed

lemma civil_from_days_from_civil:
  assumes "civil_date (y, m, d)"
  shows "civil_from_days (days_from_civil (y, m, d)) = (y, m, d)"
proof -
  define y' where "y' = (if m \<le> 2 then y - 1 else y)"
  define k where "k = (if m \<le> 2 then m + 9 else m - 3)"
  obtain era c b a where y: "y' = 400 * era + 100 * c + 4 * b + a" and r: "0 \<le> c" "c \<le> 3" "0 \<le> b" "b \<le> 24" "0 \<le> a" "a \<le> 3"
    by (rule year_parts)
  have md: "1 \<le> m" "m \<le> 12" "1 \<le> d" "d \<le> month_days y m" using assms by (simp_all add: civil_date_def)
  have k: "0 \<le> k" "k \<le> 11" "k = 11 \<longleftrightarrow> m = 2" "k < 10 \<longleftrightarrow> 2 < m" using md by (auto simp: k_def)
  have "d - 1 < (if k = 11 then 29 else if k \<in> {1, 3, 6, 8} then 30 else 31)"
    using md by (auto simp: month_days_def k_def split: if_splits)
  note mo = month_of_doy [OF k(1,2) _ this]
  have leap: "leap_parts c b a" if "k = 11" "d - 1 = 28"
  proof -
    have "m = 2" "d = 29" using that k(3) by simp_all
    then have "leap_year y" "y = y' + 1" using md by (auto simp: month_days_def y'_def split: if_splits)
    then show ?thesis using leap_year_parts [OF r, of era] by (simp add: y)
  qed
  let ?n = "days_from_civil (y, m, d)"
  have "?n + 719468 = march_year_start y' + march_month_start k + (d - 1)"
    by (simp add: days_from_civil_def y'_def k_def)
  then have n: "?n + 719468 = 146097 * era + 36524 * c + 1461 * b + 365 * a + (march_month_start k + (d - 1))"
    using march_year_start_parts [OF r, of era] unfolding y by simp
  have "march_month_start k + (d - 1) \<le> (if leap_parts c b a then 365 else 364)"
    using mo(2) md(3) leap by (auto split: if_splits)
  moreover have "0 \<le> march_month_start k + (d - 1)" using k(1) md(3) by (simp add: march_month_start_def)
  ultimately have "civil_from_days ?n = (let y = 400 * era + 100 * c + 4 * b + a
        in (if k < 10 then y else y + 1, if k < 10 then k + 3 else k - 9, d))"
    using days_civil_parts [OF r _ _ n] mo(1) md(3) by (simp add: Let_def)
  then show ?thesis using k(4) unfolding Let_def y [symmetric] by (auto simp: y'_def k_def)
qed

text \<open>The date of a day number is a date of the calendar.\<close>

lemma doy_month:
  fixes doy :: int
  assumes "0 \<le> doy" "doy \<le> 365"
  defines "k \<equiv> (5 * doy + 2) div 153"
  shows "0 \<le> k" "k \<le> 11" "0 \<le> doy - march_month_start k"
    "doy - march_month_start k < (if k = 11 then (if doy = 365 then 29 else 28) else if k \<in> {1, 3, 6, 8} then 30 else 31)"
proof -
  show k: "0 \<le> k" "k \<le> 11" using assms by simp_all
  have b: "153 * k \<le> 5 * doy + 2" "5 * doy + 2 < 153 * k + 153" unfolding k_def by linarith+
  have m: "5 * march_month_start k \<le> 153 * k + 2" "153 * k + 2 < 5 * march_month_start k + 5"
    unfolding march_month_start_def by linarith+
  show "0 \<le> doy - march_month_start k" using b m by linarith
  from k consider "k = 0" | "k = 1" | "k = 2" | "k = 3" | "k = 4" | "k = 5" | "k = 6" | "k = 7"
    | "k = 8" | "k = 9" | "k = 10" | "k = 11"
    by (metis (full_types) atLeastAtMost_iff months_upto)
  then show "doy - march_month_start k < (if k = 11 then (if doy = 365 then 29 else 28) else if k \<in> {1, 3, 6, 8} then 30 else 31)"
    using b(2) assms(2) by cases (simp_all add: march_month_start_def)
qed

lemma civil_date_of_days: "civil_date (civil_from_days n)"
proof -
  obtain era c b a doy where p: "0 \<le> c" "c \<le> 3" "0 \<le> b" "b \<le> 24" "0 \<le> a" "a \<le> 3" "0 \<le> doy"
      "doy \<le> (if leap_parts c b a then 365 else 364)"
    and civ: "civil_from_days n =
       (let k = (5 * doy + 2) div 153; y = 400 * era + 100 * c + 4 * b + a
        in (if k < 10 then y else y + 1, if k < 10 then k + 3 else k - 9, doy - march_month_start k + 1))"
    by (rule day_number_parts)
  define k where "k = (5 * doy + 2) div 153"
  have "doy \<le> 365" using p(8) by (simp split: if_splits)
  note dm = doy_month [OF p(7) this, folded k_def]
  have "doy = 365 \<Longrightarrow> leap_year (400 * era + 100 * c + 4 * b + a + 1)"
    using p(8) leap_year_parts [OF p(1-6), of era] by (simp split: if_splits)
  then show ?thesis unfolding civ k_def [symmetric] using dm by (auto simp: civil_date_def month_days_def Let_def split: if_splits)
qed

section \<open>Dates\<close>

text \<open>
  A \<open>Date\<close> at midnight UTC: its day number, or \<open>None\<close> for an invalid date. The language allows
  \<open>100000000\<close> days around 1970.
\<close>

type_synonym utc_date = "int option"

definition time_clip :: "int \<Rightarrow> utc_date" where
  "time_clip n = (if \<bar>n\<bar> \<le> 100000000 then Some n else None)"

definition date_utc :: "int \<Rightarrow> int \<Rightarrow> int \<Rightarrow> utc_date" where
  "date_utc y m d =
     (let y' = (if 0 \<le> y \<and> y \<le> 99 then 1900 + y else y)
      in time_clip (days_from_civil (y' + m div 12, m mod 12 + 1, 1) + d - 1))"

definition utc_day :: "int \<Rightarrow> int" where
  "utc_day n = (n + 4) mod 7"

definition add_days :: "int \<Rightarrow> utc_date \<Rightarrow> utc_date" where
  "add_days k d = (case d of None \<Rightarrow> None | Some n \<Rightarrow> time_clip (n + k))"

section \<open>Sorting\<close>

text \<open>\<open>le x y\<close>: an element \<open>x\<close> that comes earlier in the array stays before \<open>y\<close>.\<close>

fun insert_by :: "('a \<Rightarrow> 'a \<Rightarrow> bool) \<Rightarrow> 'a \<Rightarrow> 'a list \<Rightarrow> 'a list" where
  "insert_by le x [] = [x]"
| "insert_by le x (y # ys) = (if le x y then x # y # ys else y # insert_by le x ys)"

definition js_sort :: "('a \<Rightarrow> 'a \<Rightarrow> bool) \<Rightarrow> 'a list \<Rightarrow> 'a list" where
  "js_sort le xs = foldr (insert_by le) xs []"

lemma mset_insert_by: "mset (insert_by le x ys) = add_mset x (mset ys)"
  by (induction ys) auto

lemma mset_js_sort [simp]: "mset (js_sort le xs) = mset xs"
  unfolding js_sort_def by (induction xs) (simp_all add: mset_insert_by)

lemma set_js_sort [simp]: "set (js_sort le xs) = set xs"
  by (metis mset_js_sort set_mset_mset)

lemma length_js_sort [simp]: "length (js_sort le xs) = length xs"
  by (metis mset_js_sort size_mset)

lemma js_sort_Nil_iff [simp]: "js_sort le xs = [] \<longleftrightarrow> xs = []"
  by (metis length_0_conv length_js_sort)

lemma set_insert_by [simp]: "set (insert_by le x ys) = insert x (set ys)"
  by (induction ys) auto

lemma sorted_wrt_insert_by:
  assumes "transp R" "\<And>y. y \<in> set ys \<Longrightarrow> le x y \<Longrightarrow> R x y" "\<And>y. y \<in> set ys \<Longrightarrow> \<not> le x y \<Longrightarrow> R y x" "sorted_wrt R ys"
  shows "sorted_wrt R (insert_by le x ys)"
  using assms(2-4)
proof (induction ys)
  case (Cons y ys)
  show ?case
  proof (cases "le x y")
    case True
    have xy: "R x y" using Cons.prems(1) True by simp
    have "R x z" if "z \<in> set ys" for z using that Cons.prems(3) transpD [OF assms(1) xy] by simp
    then show ?thesis using Cons.prems(3) True xy by simp
  next
    case False
    then show ?thesis using Cons by simp
  qed
qed simp

lemma sorted_wrt_js_sort:
  assumes "transp R" "\<And>x y. x \<in> set xs \<Longrightarrow> y \<in> set xs \<Longrightarrow> le x y \<Longrightarrow> R x y"
    "\<And>x y. x \<in> set xs \<Longrightarrow> y \<in> set xs \<Longrightarrow> \<not> le x y \<Longrightarrow> R y x"
  shows "sorted_wrt R (js_sort le xs)"
  using assms(2,3)
proof (induction xs)
  case (Cons x xs)
  have "sorted_wrt R (js_sort le xs)" using Cons by (metis list.set_intros(2))
  moreover have "y \<in> set xs" if "y \<in> set (foldr (insert_by le) xs [])" for y
    using that set_js_sort [of le xs] by (simp add: js_sort_def)
  ultimately show ?case using Cons.prems sorted_wrt_insert_by [OF assms(1), of "js_sort le xs" le x] by (simp add: js_sort_def)
qed (simp add: js_sort_def)

text \<open>An array that is in order already is not changed.\<close>

lemma js_sort_id: "sorted_wrt le xs \<Longrightarrow> js_sort le xs = xs"
  unfolding js_sort_def
proof (induction xs)
  case (Cons x xs)
  then show ?case by (cases xs) auto
qed simp

section \<open>Rounding to decimals\<close>

definition fixed :: "nat \<Rightarrow> real \<Rightarrow> real" where
  "fixed k x = (let n = real_of_int \<lfloor>\<bar>x\<bar> * 10 ^ k + 1 / 2\<rfloor> / 10 ^ k in if x < 0 then - n else n)"

definition to_fixed :: "nat \<Rightarrow> jsnum \<Rightarrow> jsnum" where
  "to_fixed k x = (case x of Fin a \<Rightarrow> Fin (fixed k a) | _ \<Rightarrow> x)"

lemma to_fixed_Fin [simp]: "to_fixed k (Fin a) = Fin (fixed k a)"
  by (simp add: to_fixed_def)

lemma fixed_error: "\<bar>fixed k x - x\<bar> \<le> 1 / (2 * 10 ^ k)"
proof -
  define n where "n = real_of_int \<lfloor>\<bar>x\<bar> * 10 ^ k + 1 / 2\<rfloor>"
  have "\<bar>n - \<bar>x\<bar> * 10 ^ k\<bar> \<le> 1 / 2" unfolding n_def by linarith
  then have "\<bar>n - \<bar>x\<bar> * 10 ^ k\<bar> / 10 ^ k \<le> 1 / 2 / 10 ^ k" by (intro divide_right_mono) auto
  moreover have "\<bar>n - \<bar>x\<bar> * 10 ^ k\<bar> / 10 ^ k = \<bar>n / 10 ^ k - \<bar>x\<bar>\<bar>"
  proof -
    have "n / 10 ^ k - \<bar>x\<bar> = (n - \<bar>x\<bar> * 10 ^ k) / 10 ^ k" by (simp add: diff_divide_distrib)
    then show ?thesis by (simp add: abs_divide)
  qed
  ultimately have "\<bar>n / 10 ^ k - \<bar>x\<bar>\<bar> \<le> 1 / (2 * 10 ^ k)" by simp
  then show ?thesis by (simp add: fixed_def n_def Let_def abs_if split: if_splits)
qed

lemma fixed_nonneg: "0 \<le> x \<Longrightarrow> 0 \<le> fixed k x"
  by (simp add: fixed_def Let_def)

lemma fixed_mono_bound:
  assumes "0 \<le> x" "x \<le> real m"
  shows "fixed k x \<le> real m"
proof -
  have "x * 10 ^ k \<le> real m * 10 ^ k" using assms by (intro mult_right_mono) auto
  then have "\<lfloor>x * 10 ^ k + 1 / 2\<rfloor> \<le> \<lfloor>real (m * 10 ^ k) + 1 / 2\<rfloor>" by (intro floor_mono) simp
  also have "\<dots> = int (m * 10 ^ k)" by linarith
  finally have "real_of_int \<lfloor>x * 10 ^ k + 1 / 2\<rfloor> \<le> real_of_int (int (m * 10 ^ k))" by (simp only: of_int_le_iff)
  then have "real_of_int \<lfloor>x * 10 ^ k + 1 / 2\<rfloor> \<le> real m * 10 ^ k" by simp
  then show ?thesis using assms(1) by (simp add: fixed_def Let_def divide_le_eq)
qed

end
