(* ===== verification/StrataChapters.thy ===== *)
theory StrataChapters
  imports JSDate
begin

text \<open>
  The chapters of the memory city, \<open>computeChapters\<close> of
  \<open>static/js/modules/features/memory-city/strata.js\<close>: segments in the order of their founding are split at
  long pauses, short ranges are merged into a neighbour and at most six ranges are kept.

  \<^item> A range is a pair of indices, first and last. \<open>mergeInto\<close> joins a range with its neighbour.
  \<^item> The two loops of the source are functions whose termination is proved: every round removes a range.
  \<^item> Shown: the chapters are a partition of the segments into consecutive ranges, at most six, each large
    enough unless there is only one, each boundary a pause longer than 45 days, and the pauses removed by the
    second loop are not longer than those kept.
\<close>

record founded =
  firstMs :: real
  lengthMiles :: jsnum

definition DAY_MS :: real where "DAY_MS = 86400000"
definition CHAPTER_GAP_MS :: real where "CHAPTER_GAP_MS = 45 * DAY_MS"
definition MAX_CHAPTERS :: nat where "MAX_CHAPTERS = 6"

definition CHAPTER_NUMERALS :: "string list" where
  "CHAPTER_NUMERALS = [''I'', ''II'', ''III'', ''IV'', ''V'', ''VI'']"

definition MONTHS_SHORT :: "string list" where
  "MONTHS_SHORT = [''Jan'', ''Feb'', ''Mar'', ''Apr'', ''May'', ''Jun'', ''Jul'', ''Aug'', ''Sep'', ''Oct'', ''Nov'', ''Dec'']"

section \<open>Labels\<close>

text \<open>
  \<open>new Date(ms)\<close> drops the fraction and is invalid beyond the range of the language; year and month (from 0)
  in UTC. The en dash of the source is the three bytes of its encoding.
\<close>

definition utc_year_month :: "real \<Rightarrow> (int \<times> int) option" where
  "utc_year_month t =
     (if \<bar>t\<bar> > 8640000000000000 then None
      else let n = (if t < 0 then \<lceil>t\<rceil> else \<lfloor>t\<rfloor>) div 86400000; (y, m, d) = civil_from_days n in Some (y, m - 1))"

definition month_label :: "(int \<times> int) option \<Rightarrow> string" where
  "month_label d = (case d of None \<Rightarrow> ''undefined NaN''
     | Some (y, m) \<Rightarrow> MONTHS_SHORT ! nat m @ '' '' @ js_int y)"

definition en_dash :: string where "en_dash = [CHR 0xE2, CHR 0x80, CHR 0x93]"

definition formatChapterSpan :: "real \<Rightarrow> real \<Rightarrow> string" where
  "formatChapterSpan startMs endMs =
     (let a = utc_year_month startMs; b = utc_year_month endMs;
          aLabel = month_label a; bLabel = month_label b
      in if aLabel = bLabel then aLabel
         else case (a, b) of
             (Some (ya, ma), Some (yb, mb)) \<Rightarrow>
               if ya = yb then MONTHS_SHORT ! nat ma @ en_dash @ MONTHS_SHORT ! nat mb @ '' '' @ js_int yb
               else aLabel @ '' '' @ en_dash @ '' '' @ bLabel
           | _ \<Rightarrow> aLabel @ '' '' @ en_dash @ '' '' @ bLabel)"

section \<open>Ranges\<close>

type_synonym range = "nat \<times> nat"

definition split_step :: "real list \<Rightarrow> range list \<times> nat \<Rightarrow> nat \<Rightarrow> range list \<times> nat" where
  "split_step ms = (\<lambda>(ranges, start) i.
     if ms ! i - ms ! (i - 1) > CHAPTER_GAP_MS then (ranges @ [(start, i - 1)], i) else (ranges, start))"

definition gap_ranges :: "real list \<Rightarrow> range list" where
  "gap_ranges ms =
     (let (ranges, start) = foldl (split_step ms) ([], 0) [1..<length ms] in ranges @ [(start, length ms - 1)])"

definition gapBefore :: "real list \<Rightarrow> range list \<Rightarrow> nat \<Rightarrow> real" where
  "gapBefore ms ranges index = ms ! fst (ranges ! index) - ms ! snd (ranges ! (index - 1))"

definition splice_out :: "nat \<Rightarrow> 'a list \<Rightarrow> 'a list" where
  "splice_out i xs = take i xs @ drop (Suc i) xs"

definition mergeInto :: "range list \<Rightarrow> nat \<Rightarrow> nat \<Rightarrow> range list" where
  "mergeInto ranges index target =
     (let lo = min index target; hi = max index target
      in splice_out hi (ranges[lo := (fst (ranges ! lo), snd (ranges ! hi))]))"

definition minCount :: "nat \<Rightarrow> nat" where
  "minCount n = max 8 (nat \<lfloor>real n * (1 / 100) + 1 / 2\<rfloor>)"

definition range_count :: "range \<Rightarrow> nat" where
  "range_count r = snd r - fst r + 1"

text \<open>One round of the first loop: the first range that is too short is merged.\<close>

definition absorb_round :: "real list \<Rightarrow> nat \<Rightarrow> range list \<Rightarrow> range list option" where
  "absorb_round ms least ranges =
     (case List.find (\<lambda>i. range_count (ranges ! i) < least) [0..<length ranges] of
        None \<Rightarrow> None
      | Some i \<Rightarrow>
          Some (if i = 0 then mergeInto ranges i (i + 1)
                else if i = length ranges - 1 then mergeInto ranges i (i - 1)
                else mergeInto ranges i (if gapBefore ms ranges i \<le> gapBefore ms ranges (i + 1) then i - 1 else i + 1)))"

lemma length_mergeInto:
  assumes "index < length ranges" "target < length ranges"
  shows "length (mergeInto ranges index target) = length ranges - 1"
  using assms by (simp add: mergeInto_def splice_out_def Let_def max_def)

lemma find_index: "List.find P [0..<n] = Some i \<Longrightarrow> i < n \<and> P i"
  by (auto simp: find_Some_iff)

lemma absorb_round_merge:
  assumes "absorb_round ms least ranges = Some rs" "1 < length ranges"
  obtains lo where "Suc lo < length ranges" "rs = mergeInto ranges lo (Suc lo)"
proof -
  from assms(1) obtain i where f: "List.find (\<lambda>i. range_count (ranges ! i) < least) [0..<length ranges] = Some i"
    and rs: "rs = (if i = 0 then mergeInto ranges i (i + 1)
                else if i = length ranges - 1 then mergeInto ranges i (i - 1)
                else mergeInto ranges i (if gapBefore ms ranges i \<le> gapBefore ms ranges (i + 1) then i - 1 else i + 1))"
    by (auto simp: absorb_round_def split: option.splits)
  have i: "i < length ranges" using find_index [OF f] by simp
  have sym: "mergeInto ranges i (i - 1) = mergeInto ranges (i - 1) (Suc (i - 1))" if "i \<noteq> 0"
    using that by (cases i) (simp_all add: mergeInto_def min_def max_def)
  show thesis
  proof (cases "rs = mergeInto ranges i (Suc i) \<and> Suc i < length ranges")
    case True
    then show thesis using that by blast
  next
    case False
    then have "i \<noteq> 0 \<and> rs = mergeInto ranges i (i - 1)" using rs i assms(2) by (auto split: if_splits)
    then show thesis using that [of "i - 1"] sym i by simp
  qed
qed

function absorb :: "real list \<Rightarrow> nat \<Rightarrow> range list \<Rightarrow> range list" where
  "absorb ms least ranges =
     (if 1 < length ranges
      then case absorb_round ms least ranges of None \<Rightarrow> ranges | Some rs \<Rightarrow> absorb ms least rs
      else ranges)"
  by auto
termination
proof (relation "measure (\<lambda>(_, _, rs). length rs)")
  fix ms least ranges rs
  assume "1 < length ranges" "absorb_round ms least ranges = Some rs"
  then obtain lo where "Suc lo < length ranges" "rs = mergeInto ranges lo (Suc lo)" by (auto elim: absorb_round_merge)
  then show "((ms, least, rs), ms, least, ranges) \<in> measure (\<lambda>(_, _, rs). length rs)"
    by (simp add: length_mergeInto)
qed simp

declare absorb.simps [simp del]

text \<open>The second loop: the boundary with the smallest pause goes.\<close>

definition smallest_gap :: "real list \<Rightarrow> range list \<Rightarrow> nat" where
  "smallest_gap ms ranges =
     the (snd (scan_min 1 (map (\<lambda>i. Fin (gapBefore ms ranges i)) [1..<length ranges]) (PInf, Some 1)))"

lemma smallest_gap:
  assumes "1 < length ranges"
  shows "1 \<le> smallest_gap ms ranges" "smallest_gap ms ranges < length ranges"
    "\<And>i. 1 \<le> i \<Longrightarrow> i < length ranges \<Longrightarrow> gapBefore ms ranges (smallest_gap ms ranges) \<le> gapBefore ms ranges i"
proof -
  let ?g = "\<lambda>i. gapBefore ms ranges i"
  let ?ds = "map (\<lambda>i. Fin (?g i)) [1..<length ranges]"
  obtain m k where s: "scan_min 1 ?ds (PInf, Some 1) = (m, k)" by fastforce
  have "Fin (?g 1) \<in> set ?ds" using assms by force
  then have "\<not> Fin (?g 1) < m" using scan_min_best [OF s] by blast
  then have "m \<noteq> PInf" by auto
  then obtain j where j: "j < length ?ds" "k = Some (1 + j)" "m = ?ds ! j" using scan_min_index [OF s] by auto
  then have eq: "smallest_gap ms ranges = 1 + j" by (simp only: smallest_gap_def s snd_conv option.sel)
  then show "1 \<le> smallest_gap ms ranges" "smallest_gap ms ranges < length ranges" using j(1) by simp_all
  fix i assume "1 \<le> i" "i < length ranges"
  then have "\<not> Fin (?g i) < m" using scan_min_best [OF s] by auto
  moreover have "m = Fin (?g (1 + j))" using j by simp
  ultimately show "?g (smallest_gap ms ranges) \<le> ?g i" by (simp add: eq)
qed

function keep_largest :: "real list \<Rightarrow> range list \<Rightarrow> range list" where
  "keep_largest ms ranges =
     (if length ranges > MAX_CHAPTERS
      then let i = smallest_gap ms ranges in keep_largest ms (mergeInto ranges i (i - 1))
      else ranges)"
  by auto
termination
proof (relation "measure (\<lambda>(_, rs). length rs)")
  fix ms :: "real list" and ranges :: "range list" and i
  assume "MAX_CHAPTERS < length ranges" and i: "i = smallest_gap ms ranges"
  then have "1 < length ranges" by (simp add: MAX_CHAPTERS_def)
  then show "((ms, mergeInto ranges i (i - 1)), ms, ranges) \<in> measure (\<lambda>(_, rs). length rs)"
    using smallest_gap(1,2) [of ranges ms] i by (simp add: length_mergeInto)
qed simp

declare keep_largest.simps [simp del]

definition chapter_ranges :: "real list \<Rightarrow> range list" where
  "chapter_ranges ms = keep_largest ms (absorb ms (minCount (length ms)) (gap_ranges ms))"

record strata_chapter =
  ch_index :: nat
  startIndex :: nat
  endIndex :: nat
  startMs :: real
  endMs :: real
  ch_count :: nat
  ch_miles :: jsnum
  numeral_text :: string
  dateLabel :: string

definition make_chapter :: "'a founded_scheme list \<Rightarrow> nat \<Rightarrow> range \<Rightarrow> strata_chapter" where
  "make_chapter segments index r =
     (let s = firstMs (segments ! fst r); e = firstMs (segments ! snd r)
      in \<lparr>ch_index = index, startIndex = fst r, endIndex = snd r, startMs = s, endMs = e, ch_count = range_count r,
          ch_miles = foldl (\<lambda>miles i. miles + lengthMiles (segments ! i)) 0 [fst r..<Suc (snd r)],
          numeral_text = (if index < length CHAPTER_NUMERALS then CHAPTER_NUMERALS ! index else nat_digits (index + 1)),
          dateLabel = formatChapterSpan s e\<rparr>)"

definition computeChapters :: "'a founded_scheme list \<Rightarrow> strata_chapter list" where
  "computeChapters segments =
     (if segments = [] then []
      else let ranges = chapter_ranges (map firstMs segments)
           in map (\<lambda>i. make_chapter segments i (ranges ! i)) [0..<length ranges])"

section \<open>Consecutive ranges\<close>

text \<open>\<open>chain a rs b\<close>: the ranges cover the indices from \<open>a\<close> up to but without \<open>b\<close>, one after the other.\<close>

fun chain :: "nat \<Rightarrow> range list \<Rightarrow> nat \<Rightarrow> bool" where
  "chain a [] b \<longleftrightarrow> a = b"
| "chain a ((s, e) # rs) b \<longleftrightarrow> s = a \<and> s \<le> e \<and> chain (Suc e) rs b"

lemma chain_append: "chain a (xs @ ys) b \<longleftrightarrow> (\<exists>m. chain a xs m \<and> chain m ys b)"
  by (induction xs arbitrary: a) auto

text \<open>The starts of the ranges after the first: the boundaries between chapters.\<close>

definition boundaries :: "range list \<Rightarrow> nat set" where
  "boundaries rs = fst ` set (tl rs)"

definition pause :: "real list \<Rightarrow> nat \<Rightarrow> real" where
  "pause ms i = ms ! i - ms ! (i - 1)"

lemma split_adjacent:
  assumes "Suc lo < length rs"
  shows "rs = take lo rs @ rs ! lo # rs ! Suc lo # drop (Suc (Suc lo)) rs"
  using assms by (metis Cons_nth_drop_Suc Suc_lessD append_take_drop_id)

lemma mergeInto_adjacent:
  assumes "Suc lo < length rs"
  shows "mergeInto rs lo (Suc lo) = take lo rs @ (fst (rs ! lo), snd (rs ! Suc lo)) # drop (Suc (Suc lo)) rs"
  using assms by (simp add: mergeInto_def splice_out_def Let_def take_Suc_conv_app_nth take_update_cancel drop_update_cancel)

lemma chain_bounds:
  assumes "chain a rs b" shows "a \<le> b"
  using assms by (induction a rs b rule: chain.induct) auto

lemma chain_mem:
  assumes "chain a rs b" "(s, e) \<in> set rs"
  shows "a \<le> s \<and> s \<le> e \<and> e < b"
  using assms
proof (induction a rs b rule: chain.induct)
  case (2 a s' e' rs b)
  then show ?case using chain_bounds [of "Suc e'" rs b] by auto
qed simp

lemma chain_merge:
  assumes "chain a rs b" "Suc lo < length rs"
  shows "chain a (mergeInto rs lo (Suc lo)) b"
proof -
  obtain s e s' e' where r: "rs ! lo = (s, e)" "rs ! Suc lo = (s', e')" by fastforce
  have "chain a (take lo rs @ (s, e) # (s', e') # drop (Suc (Suc lo)) rs) b"
    using assms split_adjacent [OF assms(2)] r by metis
  then show ?thesis unfolding mergeInto_adjacent [OF assms(2)] r by (auto simp: chain_append)
qed

text \<open>With consecutive ranges the pause before a range depends on its first index only.\<close>

lemma chain_prev:
  assumes "chain a rs b" "Suc i < length rs"
  shows "fst (rs ! Suc i) = Suc (snd (rs ! i))"
proof -
  obtain s e s' e' where r: "rs ! i = (s, e)" "rs ! Suc i = (s', e')" by fastforce
  have "chain a (take i rs @ (s, e) # (s', e') # drop (Suc (Suc i)) rs) b"
    using assms split_adjacent [OF assms(2)] r by metis
  then show ?thesis using r by (auto simp: chain_append)
qed

lemma gapBefore_pause:
  assumes "chain a rs b" "1 \<le> i" "i < length rs"
  shows "gapBefore ms rs i = pause ms (fst (rs ! i))"
proof -
  obtain j where j: "i = Suc j" using assms(2) by (cases i) auto
  have "fst (rs ! Suc j) = Suc (snd (rs ! j))" using chain_prev assms j by blast
  then show ?thesis by (simp add: gapBefore_def pause_def j)
qed

lemma merge_boundaries:
  assumes "Suc lo < length rs" "chain a rs b"
  shows "boundaries (mergeInto rs lo (Suc lo)) = boundaries rs - {fst (rs ! Suc lo)}"
proof -
  obtain s e s' e' where r: "rs ! lo = (s, e)" "rs ! Suc lo = (s', e')" by fastforce
  define xs ys where "xs = take lo rs" and "ys = drop (Suc (Suc lo)) rs"
  have rs: "rs = xs @ (s, e) # (s', e') # ys" using split_adjacent [OF assms(1)] r by (simp add: xs_def ys_def)
  then have c: "chain a (xs @ (s, e) # (s', e') # ys) b" using assms(2) by simp
  then obtain m where m: "chain a xs m" "s = m" "s \<le> e" "s' = Suc e" "s' \<le> e'" "chain (Suc e') ys b"
    by (auto simp: chain_append)
  have "fst z < s'" if "z \<in> set xs" for z using chain_mem [OF m(1), of "fst z" "snd z"] that m by force
  moreover have "s' < fst z" if "z \<in> set ys" for z using chain_mem [OF m(6), of "fst z" "snd z"] that m by force
  ultimately have n: "s' \<notin> fst ` set xs" "s' \<notin> fst ` set ys" "s \<noteq> s'" using m by fastforce+
  have "mergeInto rs lo (Suc lo) = xs @ (s, e') # ys" by (simp add: mergeInto_adjacent [OF assms(1)] r xs_def ys_def)
  then show ?thesis unfolding r fst_conv using n by (cases xs) (auto simp: boundaries_def rs)
qed

section \<open>Splitting\<close>

definition long_pauses :: "real list \<Rightarrow> nat \<Rightarrow> nat set" where
  "long_pauses ms k = {i. 1 \<le> i \<and> i < k \<and> CHAPTER_GAP_MS < pause ms i}"

lemma boundaries_snoc: "boundaries (xs @ [(s, e)]) = (if xs = [] then {} else insert s (boundaries xs))"
  by (cases xs) (auto simp: boundaries_def)

lemma split_upto:
  assumes "1 \<le> k" "foldl (split_step ms) ([], 0) [1..<k] = (ranges, start)"
  shows "chain 0 ranges start \<and> start < k \<and> boundaries (ranges @ [(start, k - 1)]) = long_pauses ms k"
  using assms
proof (induction k arbitrary: ranges start rule: dec_induct)
  case base
  then show ?case by (auto simp: boundaries_def long_pauses_def)
next
  case (step k)
  obtain rs st where f: "foldl (split_step ms) ([], 0) [1..<k] = (rs, st)" by fastforce
  note IH = step.IH [OF f]
  have eq: "(ranges, start) = split_step ms (rs, st) k" using step f by simp
  have lp: "long_pauses ms (Suc k) = (if CHAPTER_GAP_MS < pause ms k then insert k (long_pauses ms k) else long_pauses ms k)"
    using step.hyps(1) by (auto simp: long_pauses_def less_Suc_eq)
  show ?case
  proof (cases "CHAPTER_GAP_MS < pause ms k")
    case True
    then have r: "ranges = rs @ [(st, k - 1)]" "start = k" using eq by (auto simp: split_step_def pause_def)
    have "boundaries (ranges @ [(k, k)]) = insert k (boundaries ranges)" using boundaries_snoc [of ranges k k] r(1) by (simp del: append_assoc)
    then show ?thesis using IH r step.hyps(1) True lp by (auto simp: chain_append)
  next
    case False
    then have r: "ranges = rs" "start = st" using eq by (auto simp: split_step_def pause_def)
    then show ?thesis using IH False lp by (simp add: boundaries_snoc)
  qed
qed

lemma gap_ranges_spec:
  assumes "ms \<noteq> []"
  shows "chain 0 (gap_ranges ms) (length ms)" "boundaries (gap_ranges ms) = long_pauses ms (length ms)"
proof -
  obtain rs st where f: "foldl (split_step ms) ([], 0) [1..<length ms] = (rs, st)" by fastforce
  have n: "1 \<le> length ms" using assms by (cases ms) auto
  have g: "gap_ranges ms = rs @ [(st, length ms - 1)]" unfolding gap_ranges_def f by simp
  show "chain 0 (gap_ranges ms) (length ms)" "boundaries (gap_ranges ms) = long_pauses ms (length ms)"
    using split_upto [OF n f] n unfolding g by (auto simp: chain_append)
qed

section \<open>Merging\<close>

lemma absorb_spec:
  "chain a ranges b \<Longrightarrow> ranges \<noteq> [] \<Longrightarrow>
     chain a (absorb ms least ranges) b \<and> absorb ms least ranges \<noteq> [] \<and>
     boundaries (absorb ms least ranges) \<subseteq> boundaries ranges \<and>
     (length (absorb ms least ranges) = 1 \<or> (\<forall>r \<in> set (absorb ms least ranges). least \<le> range_count r))"
proof (induction ms least ranges rule: absorb.induct)
  case (1 ms least ranges)
  show ?case
  proof (cases "1 < length ranges")
    case False
    then have "absorb ms least ranges = ranges" by (simp add: absorb.simps [of ms least ranges])
    moreover have "length ranges = 1" using False 1(3) by (cases ranges) auto
    ultimately show ?thesis using 1(2,3) by simp
  next
    case True
    show ?thesis
    proof (cases "absorb_round ms least ranges")
      case None
      then have "absorb ms least ranges = ranges" using True by (simp add: absorb.simps [of ms least ranges])
      moreover from None have "\<forall>i < length ranges. least \<le> range_count (ranges ! i)"
        by (auto simp: absorb_round_def find_None_iff not_less split: option.splits) (meson leD)
      then have "\<forall>r \<in> set ranges. least \<le> range_count r" by (metis in_set_conv_nth)
      ultimately show ?thesis using 1(2,3) by simp
    next
      case (Some rs)
      obtain lo where lo: "Suc lo < length ranges" "rs = mergeInto ranges lo (Suc lo)"
        using absorb_round_merge [OF Some True] by blast
      have rs: "chain a rs b" "rs \<noteq> []" "boundaries rs \<subseteq> boundaries ranges"
        using chain_merge [OF 1(2) lo(1)] merge_boundaries [OF lo(1) 1(2)] lo mergeInto_adjacent [OF lo(1)] by auto
      have "absorb ms least ranges = absorb ms least rs" using True Some by (simp add: absorb.simps [of ms least ranges])
      then show ?thesis using 1(1) [OF True Some rs(1,2)] rs(3) by auto
    qed
  qed
qed

lemma merge_counts:
  assumes "chain a rs b" "Suc lo < length rs" "\<forall>r \<in> set rs. least \<le> range_count r"
  shows "\<forall>r \<in> set (mergeInto rs lo (Suc lo)). least \<le> range_count r"
proof -
  obtain s e s' e' where r: "rs ! lo = (s, e)" "rs ! Suc lo = (s', e')" by fastforce
  then have m: "(s, e) \<in> set rs" "(s', e') \<in> set rs" using assms(2) by (metis nth_mem Suc_lessD)+
  have "s' = Suc e" using chain_prev [OF assms(1,2)] r by simp
  then have "range_count (s, e) \<le> range_count (s, e')"
    using chain_mem [OF assms(1) m(2)] by (simp add: range_count_def diff_le_mono)
  moreover have "least \<le> range_count (s, e)" using assms(3) m(1) by blast
  ultimately have "least \<le> range_count (s, e')" by linarith
  then show ?thesis
    using assms(3) unfolding mergeInto_adjacent [OF assms(2)] r by (auto dest: in_set_takeD in_set_dropD)
qed

lemma keep_largest_spec:
  "chain a ranges b \<Longrightarrow> ranges \<noteq> [] \<Longrightarrow>
     chain a (keep_largest ms ranges) b \<and> keep_largest ms ranges \<noteq> [] \<and>
     length (keep_largest ms ranges) = min MAX_CHAPTERS (length ranges) \<and>
     boundaries (keep_largest ms ranges) \<subseteq> boundaries ranges \<and>
     (\<forall>r \<in> boundaries ranges - boundaries (keep_largest ms ranges). \<forall>k \<in> boundaries (keep_largest ms ranges). pause ms r \<le> pause ms k) \<and>
     ((\<forall>r \<in> set ranges. least \<le> range_count r) \<longrightarrow> (\<forall>r \<in> set (keep_largest ms ranges). least \<le> range_count r))"
proof (induction ms ranges rule: keep_largest.induct)
  case (1 ms ranges)
  show ?case
  proof (cases "MAX_CHAPTERS < length ranges")
    case False
    then have "keep_largest ms ranges = ranges" by (simp add: keep_largest.simps [of ms ranges])
    then show ?thesis using 1(2,3) False by simp
  next
    case True
    define i where "i = smallest_gap ms ranges"
    have len: "1 < length ranges" using True by (simp add: MAX_CHAPTERS_def)
    note sg = smallest_gap [OF len, where ms = ms, folded i_def]
    then obtain lo where i: "i = Suc lo" by (cases i) auto
    define rs where "rs = mergeInto ranges lo (Suc lo)"
    have "mergeInto ranges i (i - 1) = rs" by (simp add: rs_def i mergeInto_def min_def max_def)
    then have kl: "keep_largest ms ranges = keep_largest ms rs"
      using True by (simp add: keep_largest.simps [of ms ranges] i_def [symmetric] Let_def)
    have lo: "Suc lo < length ranges" using sg(2) i by simp
    have c: "chain a rs b" unfolding rs_def by (rule chain_merge [OF 1(2) lo])
    have B: "boundaries rs = boundaries ranges - {fst (ranges ! i)}"
      unfolding rs_def i by (rule merge_boundaries [OF lo 1(2)])
    have ne: "rs \<noteq> []" "length rs = length ranges - 1" using lo by (simp_all add: rs_def mergeInto_adjacent length_mergeInto)
    have least: "pause ms (fst (ranges ! i)) \<le> pause ms k" if k: "k \<in> boundaries ranges" for k
    proof -
      obtain j where "j < length (tl ranges)" "k = fst (tl ranges ! j)" using k by (auto simp: boundaries_def in_set_conv_nth)
      then have j: "1 \<le> Suc j" "Suc j < length ranges" "k = fst (ranges ! Suc j)" by (auto simp: nth_tl)
      show ?thesis using sg(3) [OF j(1,2)] gapBefore_pause [OF 1(2) sg(1,2)] gapBefore_pause [OF 1(2) j(1,2)] j(3) by simp
    qed
    note IH = 1(1) [OF True i_def, unfolded \<open>mergeInto ranges i (i - 1) = rs\<close>, OF c ne(1)]
    have cnt: "(\<forall>r \<in> set ranges. least \<le> range_count r) \<longrightarrow> (\<forall>r \<in> set rs. least \<le> range_count r)"
      unfolding rs_def using merge_counts [OF 1(2) lo] by blast
    have small: "\<forall>r \<in> boundaries ranges - boundaries (keep_largest ms rs). \<forall>k \<in> boundaries (keep_largest ms rs). pause ms r \<le> pause ms k"
    proof (intro ballI)
      fix r k assume r: "r \<in> boundaries ranges - boundaries (keep_largest ms rs)" and k: "k \<in> boundaries (keep_largest ms rs)"
      have "k \<in> boundaries ranges" using k IH B by blast
      then show "pause ms r \<le> pause ms k" using IH r k B least by (cases "r = fst (ranges ! i)") auto
    qed
    show ?thesis unfolding kl using IH B cnt small ne(2) True by auto
  qed
qed

section \<open>Chapters\<close>

definition chapter_range :: "strata_chapter \<Rightarrow> range" where
  "chapter_range c = (startIndex c, endIndex c)"

lemma computeChapters_ranges: "segments \<noteq> [] \<Longrightarrow> map chapter_range (computeChapters segments) = chapter_ranges (map firstMs segments)"
  by (auto simp: computeChapters_def Let_def chapter_range_def make_chapter_def intro: nth_equalityI)

lemma chapter_counts: "c \<in> set (computeChapters segments) \<Longrightarrow> ch_count c = range_count (chapter_range c)"
  by (auto simp: computeChapters_def Let_def chapter_range_def make_chapter_def split: if_splits)

lemma chain_counts: "chain a rs b \<Longrightarrow> a + sum_list (map range_count rs) = b"
  by (induction a rs b rule: chain.induct) (auto simp: range_count_def)

lemma chapter_ranges_spec:
  assumes "ms \<noteq> []"
  defines "kept \<equiv> absorb ms (minCount (length ms)) (gap_ranges ms)"
  shows "chain 0 (chapter_ranges ms) (length ms)" "chapter_ranges ms \<noteq> []" "length (chapter_ranges ms) \<le> MAX_CHAPTERS"
    "boundaries (chapter_ranges ms) \<subseteq> boundaries kept" "boundaries kept \<subseteq> long_pauses ms (length ms)"
    "\<forall>r \<in> boundaries kept - boundaries (chapter_ranges ms). \<forall>k \<in> boundaries (chapter_ranges ms). pause ms r \<le> pause ms k"
    "length (chapter_ranges ms) = 1 \<or> (\<forall>r \<in> set (chapter_ranges ms). minCount (length ms) \<le> range_count r)"
proof -
  note g = gap_ranges_spec [OF assms(1)]
  have "gap_ranges ms \<noteq> []" using g(1) assms(1) by auto
  note ab = absorb_spec [OF g(1) this, of ms "minCount (length ms)", folded kept_def]
  note kl = keep_largest_spec [where ms = ms and least = "minCount (length ms)", of 0 kept "length ms"]
  have cr: "chapter_ranges ms = keep_largest ms kept" by (simp add: chapter_ranges_def kept_def)
  show "chain 0 (chapter_ranges ms) (length ms)" "chapter_ranges ms \<noteq> []" "length (chapter_ranges ms) \<le> MAX_CHAPTERS"
    "boundaries (chapter_ranges ms) \<subseteq> boundaries kept"
    "\<forall>r \<in> boundaries kept - boundaries (chapter_ranges ms). \<forall>k \<in> boundaries (chapter_ranges ms). pause ms r \<le> pause ms k"
    unfolding cr using kl ab by simp_all
  show "boundaries kept \<subseteq> long_pauses ms (length ms)" using ab g(2) by simp
  show "length (chapter_ranges ms) = 1 \<or> (\<forall>r \<in> set (chapter_ranges ms). minCount (length ms) \<le> range_count r)"
    unfolding cr using kl ab by (auto simp: MAX_CHAPTERS_def)
qed

text \<open>
  C31. The chapters of a non-empty city partition its segments: their index ranges follow one another from the
  first segment to the last, the counts add up to the number of segments, there are between one and six of
  them, each holds at least \<open>max(8, 1 %)\<close> segments unless there is only one, every boundary is a pause of more
  than 45 days, and no pause that the last merging step removed is longer than one that it kept.
\<close>

theorem chapters_partition:
  assumes "segments \<noteq> []"
  defines "ms \<equiv> map firstMs segments" and "chs \<equiv> computeChapters segments"
  defines "rs \<equiv> map chapter_range chs" and "kept \<equiv> absorb ms (minCount (length ms)) (gap_ranges ms)"
  shows "chain 0 rs (length segments) \<and> sum_list (map ch_count chs) = length segments \<and>
    1 \<le> length chs \<and> length chs \<le> 6 \<and>
    (length chs = 1 \<or> (\<forall>c \<in> set chs. max 8 (nat \<lfloor>real (length segments) / 100 + 1 / 2\<rfloor>) \<le> ch_count c)) \<and>
    (\<forall>i \<in> boundaries rs. 0 < i \<and> i < length segments \<and>
       firstMs (segments ! i) - firstMs (segments ! (i - 1)) > 45 * 86400000) \<and>
    boundaries rs \<subseteq> boundaries kept \<and>
    (\<forall>r \<in> boundaries kept - boundaries rs. \<forall>k \<in> boundaries rs. pause ms r \<le> pause ms k)"
proof -
  have ms: "ms \<noteq> []" "length ms = length segments" using assms(1) by (simp_all add: ms_def)
  note spec = chapter_ranges_spec [OF ms(1), folded kept_def]
  have rs: "rs = chapter_ranges ms" using computeChapters_ranges [OF assms(1)] by (simp add: rs_def chs_def ms_def)
  have len: "length chs = length rs" by (simp add: rs_def)
  have cnt: "map ch_count chs = map range_count rs" using chapter_counts [where segments = segments] by (simp add: rs_def chs_def)
  have sum: "sum_list (map ch_count chs) = length segments" unfolding cnt using chain_counts [OF spec(1)] rs ms by simp
  have large: "length chs = 1 \<or> (\<forall>c \<in> set chs. minCount (length segments) \<le> ch_count c)"
    using spec(7) chapter_counts [where segments = segments] unfolding rs [symmetric] len ms(2) by (auto simp: rs_def chs_def)
  have gaps: "0 < i \<and> i < length segments \<and> firstMs (segments ! i) - firstMs (segments ! (i - 1)) > 45 * 86400000"
    if "i \<in> boundaries rs" for i
  proof -
    have "i \<in> long_pauses ms (length ms)" using that spec(4,5) rs by blast
    then show ?thesis by (auto simp: long_pauses_def pause_def CHAPTER_GAP_MS_def DAY_MS_def ms_def)
  qed
  have "1 \<le> length chs" "length chs \<le> 6" using spec(2,3) rs len by (auto simp: MAX_CHAPTERS_def Suc_le_eq)
  then show ?thesis using spec(1,4,6) sum large gaps unfolding rs [symmetric] ms(2) by (simp add: minCount_def)
qed

theorem chapters_partition_witness:
  "sum_list (map ch_count (computeChapters [\<lparr>firstMs = 0, lengthMiles = Fin 1\<rparr>, \<lparr>firstMs = 9000000000, lengthMiles = Fin 2\<rparr>])) = 2"
  using chapters_partition [of "[\<lparr>firstMs = 0, lengthMiles = Fin 1\<rparr>, \<lparr>firstMs = 9000000000, lengthMiles = Fin 2\<rparr>]"] by simp

text \<open>Two bursts of eight foundings, fifty days apart, are two chapters; a single late founding is no chapter.\<close>

lemma two_bursts: "chapter_ranges (replicate 8 0 @ replicate 8 4320000000) = [(0, 7), (8, 15)]"
  by code_simp

lemma lone_founding: "chapter_ranges (replicate 8 0 @ [4320000000]) = [(0, 8)]"
  by code_simp

end
