(* ===== verification/MemoryStrata.thy ===== *)
theory MemoryStrata
  imports StrataChapters GeoMath
begin

text \<open>
  The data model of the memory city, \<open>static/js/modules/features/memory-city/strata.js\<close>: from the segments
  of the back end to the founding order, the progress and altitude of every segment, chapters, the index of
  street names, the records of the city, and the two look-ups on the result (\<open>progressIndex\<close>, a binary search,
  and \<open>searchStreets\<close>).

  \<^item> \<open>strata_env\<close> holds what the browser supplies: \<open>Date.parse\<close>, the local calendar date of a time, and
    \<open>localeCompare\<close>.
  \<^item> The payload comes from JSON: a date is null, a number or a text (\<open>iso_value\<close>), numbers are given as
    \<open>Number\<close> returns them, a point is an array of numbers. A missing or empty name is \<open>None\<close>.
  \<^item> Shown: every prepared model is in founding order with a strictly increasing progress between 0 and 1,
    heights between 400 and 5200 metres and every segment in its chapter; the binary search returns the last
    index whose progress is not above the value; the name index and the search are exact.
\<close>

section \<open>Helpers\<close>

definition clamp :: "jsnum \<Rightarrow> jsnum \<Rightarrow> jsnum \<Rightarrow> jsnum" where
  "clamp n lo hi = (if n < lo then lo else if n > hi then hi else n)"

datatype iso_value = IsoNull | IsoNumber jsnum | IsoText string

record strata_env =
  date_parse :: "string \<Rightarrow> jsnum"
  local_date :: "real \<Rightarrow> int \<times> int \<times> int"
  locale_compare :: "string \<Rightarrow> string \<Rightarrow> int"

definition finite_value :: "jsnum \<Rightarrow> real option" where
  "finite_value x = (case x of Fin a \<Rightarrow> Some a | _ \<Rightarrow> None)"

definition parseIso :: "strata_env \<Rightarrow> iso_value \<Rightarrow> real option" where
  "parseIso env v = (case v of IsoNull \<Rightarrow> None | IsoNumber x \<Rightarrow> finite_value x
     | IsoText t \<Rightarrow> finite_value (date_parse env t))"

definition RECENCY_STOPS :: "jsnum list" where
  "RECENCY_STOPS = [0, 7, 30, 90, 180, 365, PInf]"

definition recencyBucketIndex :: "jsnum \<Rightarrow> nat" where
  "recencyBucketIndex days =
     (case List.find (\<lambda>i. days \<le> RECENCY_STOPS ! i) [0..<length RECENCY_STOPS] of
        Some i \<Rightarrow> i | None \<Rightarrow> length RECENCY_STOPS - 1)"

text \<open>\<open>local_date\<close> gives year, month (from 0) and day; invalid dates give \<open>null\<close>.\<close>

definition valid_time :: "real \<Rightarrow> bool" where
  "valid_time t \<longleftrightarrow> \<bar>t\<bar> \<le> 8640000000000000"

definition local_day :: "strata_env \<Rightarrow> real \<Rightarrow> utc_date" where
  "local_day env t = (let (y, m, d) = local_date env t in date_utc y m d)"

definition calendarDaysSince :: "strata_env \<Rightarrow> real \<Rightarrow> real \<Rightarrow> jsnum option" where
  "calendarDaysSince env earlier later =
     (if \<not> valid_time earlier \<or> \<not> valid_time later then None
      else case (local_day env earlier, local_day env later) of
          (Some e, Some l) \<Rightarrow> Some (js_max 0 (Fin (of_int (l - e))))
        | _ \<Rightarrow> Some NaN)"

definition path_lengths :: "coord list \<Rightarrow> jsnum list" where
  "path_lengths path = map (\<lambda>i. js_hypot (js_at (path ! i) 0 - js_at (path ! (i - 1)) 0)
     (js_at (path ! i) 1 - js_at (path ! (i - 1)) 1)) [1..<length path]"

fun mid_scan :: "coord list \<Rightarrow> jsnum \<Rightarrow> nat \<Rightarrow> jsnum \<Rightarrow> jsnum list \<Rightarrow> coord option" where
  "mid_scan path target i acc [] = None"
| "mid_scan path target i acc (segLen # ls) =
     (if acc + segLen \<ge> target then
        let t = (if segLen > 0 then (target - acc) / segLen else 0); a = path ! i; b = path ! Suc i
        in Some [js_at a 0 + (js_at b 0 - js_at a 0) * t, js_at a 1 + (js_at b 1 - js_at a 1) * t]
      else mid_scan path target (Suc i) (acc + segLen) ls)"

definition midpointOfPath :: "coord list \<Rightarrow> coord option" where
  "midpointOfPath path =
     (if length path < 2 then None
      else let lens = path_lengths path; tot = foldl (+) 0 lens
           in if tot = 0 then Some [js_at (path ! 0) 0, js_at (path ! 0) 1]
              else case mid_scan path (tot / 2) 0 0 lens of
                  Some p \<Rightarrow> Some p
                | None \<Rightarrow> Some [js_at (List.last path) 0, js_at (List.last path) 1])"

definition baseWidthForHighwayType :: "string option \<Rightarrow> real" where
  "baseWidthForHighwayType h =
     (let type = str_lower (case h of None \<Rightarrow> [] | Some t \<Rightarrow> t)
      in if str_includes type ''motorway'' \<or> str_includes type ''trunk'' then 32 / 10
         else if str_includes type ''primary'' \<or> str_includes type ''secondary'' then 24 / 10
         else if str_includes type ''tertiary'' then 19 / 10 else 15 / 10)"

type_synonym bbox = "jsnum \<times> jsnum \<times> jsnum \<times> jsnum"

definition empty_bbox :: bbox where
  "empty_bbox = (PInf, PInf, NInf, NInf)"

definition bbox_add :: "coord \<Rightarrow> bbox \<Rightarrow> bbox" where
  "bbox_add pt = (\<lambda>(a, b, c, d).
     let x = js_at pt 0; y = js_at pt 1
     in (if x < a then x else a, if y < b then y else b, if x > c then x else c, if y > d then y else d))"

definition bboxDiagonalMeters :: "bbox \<Rightarrow> jsnum" where
  "bboxDiagonalMeters = (\<lambda>(minLon, minLat, maxLon, maxLat).
     let midLatRad = ((minLat + maxLat) / 2 * Fin pi) / 180;
         dx = (maxLon - minLon) * 111320 * js_lift cos midLatRad;
         dy = (maxLat - minLat) * 111320
     in js_hypot dx dy)"

section \<open>Segments\<close>

record raw_segment =
  segment_id :: string
  street_name :: "string option"
  highway_type :: "string option"
  length_miles :: jsnum
  raw_path :: "coord list option"
  first_driven_at :: iso_value
  last_driven_at :: iso_value
  distinct_trip_count :: jsnum

record strata_segment = founded +
  segmentId :: string
  streetName :: "string option"
  highwayType :: string
  seg_path :: "coord list"
  midpoint :: coord
  lastMs :: real
  daysSinceDriven :: jsnum
  distinctTripCount :: jsnum
  revisited :: bool
  baseWidth :: real
  seg_rank :: nat
  seg_progress :: real
  altitude :: jsnum
  pathZ :: "coord list"
  chapterIndex :: "nat option"

definition nonempty :: "string option \<Rightarrow> string option" where
  "nonempty v = (if v = Some [] then None else v)"

definition parse_segment :: "strata_env \<Rightarrow> real \<Rightarrow> raw_segment \<Rightarrow> strata_segment option" where
  "parse_segment env now seg =
     (case parseIso env (first_driven_at seg) of
        None \<Rightarrow> None
      | Some first \<Rightarrow>
          let path = (case raw_path seg of None \<Rightarrow> [] | Some p \<Rightarrow> p)
          in if length path < 2 then None
             else case midpointOfPath path of
                 None \<Rightarrow> None
               | Some mid \<Rightarrow>
                   let lastT = (case parseIso env (last_driven_at seg) of Some t \<Rightarrow> t | None \<Rightarrow> first);
                       trips = js_max 0 (js_or (distinct_trip_count seg) 0)
                   in Some \<lparr>firstMs = first, lengthMiles = js_or (length_miles seg) 0,
                       segmentId = segment_id seg, streetName = nonempty (street_name seg),
                       highwayType = (case nonempty (highway_type seg) of Some t \<Rightarrow> t | None \<Rightarrow> ''unclassified''),
                       seg_path = path, midpoint = mid, lastMs = lastT,
                       daysSinceDriven = (case calendarDaysSince env lastT now of Some d \<Rightarrow> d | None \<Rightarrow> 0),
                       distinctTripCount = trips, revisited = (trips > 1),
                       baseWidth = baseWidthForHighwayType (highway_type seg),
                       seg_rank = 0, seg_progress = 0, altitude = NaN, pathZ = [], chapterIndex = None\<rparr>)"

definition founding_le :: "strata_env \<Rightarrow> strata_segment \<Rightarrow> strata_segment \<Rightarrow> bool" where
  "founding_le env a b \<longleftrightarrow>
     firstMs a < firstMs b \<or> firstMs a = firstMs b \<and> locale_compare env (segmentId a) (segmentId b) \<le> 0"

definition area_bbox :: "strata_segment list \<Rightarrow> bbox" where
  "area_bbox segs = foldl (\<lambda>bb pt. if finite_coord pt then bbox_add pt bb else bb) empty_bbox (concat (map seg_path segs))"

definition strata_height :: "bbox \<Rightarrow> jsnum" where
  "strata_height bb = clamp (bboxDiagonalMeters bb * Fin (16 / 100)) 400 5200"

definition progress_at :: "real list \<Rightarrow> nat \<Rightarrow> real" where
  "progress_at ms i =
     (let n = length ms; t0 = ms ! 0; timeSpan = max 1 (ms ! (n - 1) - t0); rankSpan = max 1 (n - 1);
          timeRatio = (ms ! i - t0) / timeSpan; rankRatio = real i / real rankSpan
      in if n = 1 then 0 else 45 / 100 * timeRatio + 55 / 100 * rankRatio)"

definition place_segment :: "real list \<Rightarrow> jsnum \<Rightarrow> strata_segment list \<Rightarrow> nat \<Rightarrow> strata_segment" where
  "place_segment ms height parsed i =
     (let seg = parsed ! i; p = progress_at ms i; alt = height * Fin p
      in seg\<lparr>seg_rank := i, seg_progress := p, altitude := alt,
             pathZ := map (\<lambda>pt. [js_at pt 0, js_at pt 1, alt]) (seg_path seg)\<rparr>)"

definition prefix_sums :: "jsnum list \<Rightarrow> jsnum list" where
  "prefix_sums xs = foldl (\<lambda>acc x. acc @ [List.last acc + x]) [0] xs"

definition assign_chapter :: "strata_segment list \<Rightarrow> strata_chapter \<Rightarrow> strata_segment list" where
  "assign_chapter segs c =
     foldl (\<lambda>ss i. ss[i := (ss ! i)\<lparr>chapterIndex := Some (ch_index c)\<rparr>]) segs [startIndex c..<Suc (endIndex c)]"

section \<open>Street names\<close>

record name_entry =
  en_name :: string
  en_count :: nat
  en_miles :: jsnum
  en_first :: real
  en_last :: real
  en_indices :: "nat list"
  en_bbox :: bbox

definition name_key :: "strata_segment \<Rightarrow> string option" where
  "name_key seg = (case streetName seg of None \<Rightarrow> None | Some n \<Rightarrow> nonempty (Some (str_lower (trim n))))"

definition new_entry :: "strata_segment \<Rightarrow> name_entry" where
  "new_entry seg = \<lparr>en_name = trim (the (streetName seg)), en_count = 0, en_miles = 0, en_first = firstMs seg,
     en_last = lastMs seg, en_indices = [], en_bbox = empty_bbox\<rparr>"

definition add_to_entry :: "strata_segment \<Rightarrow> name_entry \<Rightarrow> name_entry" where
  "add_to_entry seg e = e\<lparr>en_count := en_count e + 1, en_miles := en_miles e + lengthMiles seg,
     en_first := min (en_first e) (firstMs seg), en_last := max (en_last e) (lastMs seg),
     en_indices := en_indices e @ [seg_rank seg], en_bbox := foldl (\<lambda>bb pt. bbox_add pt bb) (en_bbox e) (seg_path seg)\<rparr>"

type_synonym name_index = "(string \<times> name_entry) list"

definition build_name_index :: "strata_segment list \<Rightarrow> name_index" where
  "build_name_index segs = group_fold name_key new_entry add_to_entry segs"

definition backbone_of :: "name_index \<Rightarrow> name_entry option" where
  "backbone_of idx = foldl (\<lambda>best (_, e). case best of None \<Rightarrow> Some e
     | Some b \<Rightarrow> if en_miles e > en_miles b then Some e else best) None idx"

definition forgotten_of :: "strata_segment list \<Rightarrow> strata_segment" where
  "forgotten_of segs = foldl (\<lambda>best seg. if lastMs seg < lastMs best then seg else best) (hd segs) segs"

section \<open>The model\<close>

record strata_records =
  founding :: strata_segment
  newest :: strata_segment
  backbone :: "name_entry option"
  forgotten :: strata_segment
  onceCount :: nat
  oncePct :: real

record strata_model =
  sm_segments :: "strata_segment list"
  sm_progress :: "real list"
  prefixMiles :: "jsnum list"
  totalMiles :: jsnum
  sm_bbox :: bbox
  heightM :: jsnum
  sm_firstMs :: real
  sm_lastMs :: real
  sm_chapters :: "(strata_chapter \<times> real \<times> real) list"
  nameIndex :: name_index
  sm_records :: strata_records
  softRanks :: jsnum

definition model_of :: "strata_segment list \<Rightarrow> strata_model" where
  "model_of parsed =
     (let n = length parsed; ms = map firstMs parsed; bb = area_bbox parsed; height = strata_height bb;
          progress = map (progress_at ms) [0..<n];
          placed = map (place_segment ms height parsed) [0..<n];
          prefixes = prefix_sums (map lengthMiles parsed);
          chapters = computeChapters placed;
          segs = foldl assign_chapter placed chapters;
          idx = build_name_index segs;
          once = length (filter (\<lambda>s. \<not> revisited s) segs)
      in \<lparr>sm_segments = segs, sm_progress = progress, prefixMiles = prefixes, totalMiles = prefixes ! n,
          sm_bbox = bb, heightM = height, sm_firstMs = ms ! 0, sm_lastMs = ms ! (n - 1),
          sm_chapters = map (\<lambda>c. (c, progress ! startIndex c, progress ! endIndex c)) chapters,
          nameIndex = idx,
          sm_records = \<lparr>founding = segs ! 0, newest = segs ! (n - 1), backbone = backbone_of idx,
            forgotten = forgotten_of segs, onceCount = once, oncePct = real once / real n * 100\<rparr>,
          softRanks = clamp (js_round (Fin (real n * (15 / 1000)))) 2 400\<rparr>)"

definition prepareModel :: "strata_env \<Rightarrow> raw_segment list option \<Rightarrow> real \<Rightarrow> strata_model option" where
  "prepareModel env payload now =
     (let raw = (case payload of None \<Rightarrow> [] | Some r \<Rightarrow> r); parsed = List.map_filter (parse_segment env now) raw
      in if parsed = [] then None else Some (model_of (js_sort (founding_le env) parsed)))"

section \<open>Look-ups\<close>

text \<open>The loop of the binary search; \<open>lo \<le> hi\<close> on entry.\<close>

function search_progress :: "real list \<Rightarrow> real \<Rightarrow> nat \<Rightarrow> nat \<Rightarrow> nat" where
  "search_progress progress v lo hi =
     (if lo < hi then
        let mid = (lo + hi + 1) div 2
        in if progress ! mid \<le> v then search_progress progress v mid hi else search_progress progress v lo (mid - 1)
      else lo)"
  by auto
termination by (relation "measure (\<lambda>(_, _, lo, hi). hi - lo)") auto

declare search_progress.simps [simp del]

definition progressIndex :: "real list \<Rightarrow> real \<Rightarrow> int" where
  "progressIndex progress v =
     (let n = length progress
      in if n = 0 then -1
         else if v \<ge> progress ! (n - 1) then int (n - 1)
         else if v < progress ! 0 then 0
         else int (search_progress progress v 0 (n - 1)))"

definition miles_le :: "name_entry \<Rightarrow> name_entry \<Rightarrow> bool" where
  "miles_le a b \<longleftrightarrow> \<not> en_miles b - en_miles a > 0"

definition searchStreets :: "name_index \<Rightarrow> string option \<Rightarrow> nat \<Rightarrow> name_entry list" where
  "searchStreets idx query limit =
     (let q = str_lower (trim (case query of None \<Rightarrow> [] | Some t \<Rightarrow> t))
      in if length q < 2 then []
         else
           let starts = map snd (filter (\<lambda>(key, _). starts_with key q) idx);
               contains = map snd (filter (\<lambda>(key, _). \<not> starts_with key q \<and> str_includes key q) idx)
           in take limit (js_sort miles_le starts @ js_sort miles_le contains))"

section \<open>Progress\<close>

lemma progress_strict:
  assumes "sorted ms" "i < j" "j < length ms"
  shows "progress_at ms i < progress_at ms j"
proof -
  define t where "t = max 1 (ms ! (length ms - 1) - ms ! 0)"
  define r where "r = real (max 1 (length ms - 1))"
  have pos: "0 < t" "0 < r" "length ms \<noteq> 1" using assms by (auto simp: t_def r_def)
  have "ms ! i \<le> ms ! j" using assms by (simp add: sorted_iff_nth_mono)
  then have "(ms ! i - ms ! 0) / t \<le> (ms ! j - ms ! 0) / t" using pos by (intro divide_right_mono) auto
  moreover have "real i / r < real j / r" using pos assms(2) by (intro divide_strict_right_mono) auto
  ultimately have "45 / 100 * ((ms ! i - ms ! 0) / t) + 55 / 100 * (real i / r) <
      45 / 100 * ((ms ! j - ms ! 0) / t) + 55 / 100 * (real j / r)" by linarith
  then show ?thesis using pos(3) unfolding progress_at_def Let_def t_def [symmetric] r_def [symmetric] by simp
qed

lemma progress_first [simp]: "progress_at ms 0 = 0"
  by (simp add: progress_at_def Let_def)

lemma progress_range:
  assumes "sorted ms" "i < length ms"
  shows "0 \<le> progress_at ms i" "progress_at ms i \<le> 1"
proof -
  define t where "t = max 1 (ms ! (length ms - 1) - ms ! 0)"
  define r where "r = real (max 1 (length ms - 1))"
  have pos: "0 < t" "0 < r" by (auto simp: t_def r_def)
  have "ms ! 0 \<le> ms ! i" "ms ! i \<le> ms ! (length ms - 1)" using assms by (auto simp: sorted_iff_nth_mono)
  then have "0 \<le> (ms ! i - ms ! 0) / t" "(ms ! i - ms ! 0) / t \<le> 1" using pos by (auto simp: divide_le_eq t_def)
  moreover have "0 \<le> real i / r" "real i / r \<le> 1" using pos assms(2) by (auto simp: divide_le_eq r_def)
  ultimately have "0 \<le> 45 / 100 * ((ms ! i - ms ! 0) / t) + 55 / 100 * (real i / r)"
    "45 / 100 * ((ms ! i - ms ! 0) / t) + 55 / 100 * (real i / r) \<le> 1" by linarith+
  then show "0 \<le> progress_at ms i" "progress_at ms i \<le> 1"
    unfolding progress_at_def Let_def t_def [symmetric] r_def [symmetric] by simp_all
qed

lemma progress_list:
  assumes "sorted ms"
  shows "sorted_wrt (<) (map (progress_at ms) [0..<length ms])" "\<forall>p \<in> set (map (progress_at ms) [0..<length ms]). 0 \<le> p \<and> p \<le> 1"
  using progress_strict [OF assms] progress_range [OF assms] by (auto simp: sorted_wrt_iff_nth_less)

section \<open>Height\<close>

definition proper_bbox :: "bbox \<Rightarrow> bool" where
  "proper_bbox bb \<longleftrightarrow> bb = empty_bbox \<or> (\<exists>a b c d. bb = (Fin a, Fin b, Fin c, Fin d) \<and> a \<le> c \<and> b \<le> d)"

lemma bbox_add_proper:
  assumes "proper_bbox bb" "finite_coord pt"
  shows "proper_bbox (bbox_add pt bb)"
proof -
  obtain x y where xy: "js_at pt 0 = Fin x" "js_at pt (Suc 0) = Fin y" using assms(2) by (auto simp: finite_coord_def is_finite_iff)
  from assms(1) consider "bb = empty_bbox" | a b c d where "bb = (Fin a, Fin b, Fin c, Fin d)" "a \<le> c" "b \<le> d"
    by (auto simp: proper_bbox_def)
  then show ?thesis
  proof cases
    case 1
    then show ?thesis by (simp add: proper_bbox_def bbox_add_def empty_bbox_def xy Let_def)
  next
    case 2
    then have "bbox_add pt bb = (Fin (min x a), Fin (min y b), Fin (max x c), Fin (max y d))"
      by (simp add: bbox_add_def xy min_def max_def Let_def)
    then show ?thesis using 2 by (auto simp: proper_bbox_def)
  qed
qed

lemma area_bbox_proper: "proper_bbox (area_bbox segs)"
proof -
  have "proper_bbox bb \<Longrightarrow> proper_bbox (foldl (\<lambda>bb pt. if finite_coord pt then bbox_add pt bb else bb) bb pts)" for bb pts
    by (induction pts arbitrary: bb) (auto simp: bbox_add_proper)
  then show ?thesis by (simp add: area_bbox_def proper_bbox_def)
qed

lemma strata_height_range: "\<exists>h. strata_height (area_bbox segs) = Fin h \<and> 400 \<le> h \<and> h \<le> 5200"
proof (cases "area_bbox segs = empty_bbox")
  case True
  have "bboxDiagonalMeters empty_bbox = PInf"
    by (simp add: bboxDiagonalMeters_def empty_bbox_def minus_jsnum_def js_lift_def js_inf_def Let_def)
  then show ?thesis using True by (simp add: strata_height_def clamp_def js_inf_def)
next
  case False
  then obtain a b c d where "area_bbox segs = (Fin a, Fin b, Fin c, Fin d)" using area_bbox_proper [of segs] by (auto simp: proper_bbox_def)
  then obtain x where "bboxDiagonalMeters (area_bbox segs) = Fin x" by (simp add: bboxDiagonalMeters_def Let_def)
  then have "strata_height (area_bbox segs) = Fin (min 5200 (max 400 (x * (16 / 100))))"
    by (auto simp: strata_height_def clamp_def min_def max_def)
  then show ?thesis by simp
qed

section \<open>Chapters of segments\<close>

lemma assign_range:
  "length (foldl (\<lambda>ss i. ss[i := (ss ! i)\<lparr>chapterIndex := v\<rparr>]) segs is) = length segs \<and>
   (\<forall>j < length segs. foldl (\<lambda>ss i. ss[i := (ss ! i)\<lparr>chapterIndex := v\<rparr>]) segs is ! j =
     (if j \<in> set is then (segs ! j)\<lparr>chapterIndex := v\<rparr> else segs ! j))"
proof (induction "is" arbitrary: segs)
  case (Cons a "is")
  have "(segs[a := (segs ! a)\<lparr>chapterIndex := v\<rparr>] ! j)\<lparr>chapterIndex := v\<rparr> = (segs ! j)\<lparr>chapterIndex := v\<rparr>"
    if "j < length segs" for j using that by (cases "a = j") simp_all
  then show ?case using Cons.IH [of "segs[a := (segs ! a)\<lparr>chapterIndex := v\<rparr>]"] by (auto simp: nth_list_update)
qed simp

lemma assign_chapter_nth:
  "length (assign_chapter segs c) = length segs"
  "j < length segs \<Longrightarrow> assign_chapter segs c ! j =
     (if startIndex c \<le> j \<and> j \<le> endIndex c then (segs ! j)\<lparr>chapterIndex := Some (ch_index c)\<rparr> else segs ! j)"
  using assign_range [of "Some (ch_index c)" segs "[startIndex c..<Suc (endIndex c)]"]
  by (auto simp: assign_chapter_def less_Suc_eq_le simp del: upt_Suc)

lemma assign_chapters:
  "length (foldl assign_chapter segs chs) = length segs \<and>
   (\<forall>j < length segs.
     (\<exists>c \<in> set chs. startIndex c \<le> j \<and> j \<le> endIndex c \<and>
        foldl assign_chapter segs chs ! j = (segs ! j)\<lparr>chapterIndex := Some (ch_index c)\<rparr>) \<or>
     (\<forall>c \<in> set chs. \<not> (startIndex c \<le> j \<and> j \<le> endIndex c)) \<and> foldl assign_chapter segs chs ! j = segs ! j)"
proof (induction chs arbitrary: segs)
  case (Cons c chs)
  define us where "us = assign_chapter segs c"
  have us: "length us = length segs" by (simp add: us_def assign_chapter_nth)
  have one: "us ! j = (if startIndex c \<le> j \<and> j \<le> endIndex c then (segs ! j)\<lparr>chapterIndex := Some (ch_index c)\<rparr> else segs ! j)"
    if "j < length segs" for j using that by (simp add: us_def assign_chapter_nth)
  have f: "foldl assign_chapter segs (c # chs) = foldl assign_chapter us chs" by (simp add: us_def)
  note IH = Cons.IH [of us, unfolded us]
  show ?case unfolding f
  proof (intro conjI allI impI)
    show "length (foldl assign_chapter us chs) = length segs" using IH by simp
    fix j assume j: "j < length segs"
    with IH consider c' where "c' \<in> set chs" "startIndex c' \<le> j" "j \<le> endIndex c'"
        "foldl assign_chapter us chs ! j = (us ! j)\<lparr>chapterIndex := Some (ch_index c')\<rparr>"
      | "\<forall>c \<in> set chs. \<not> (startIndex c \<le> j \<and> j \<le> endIndex c)" "foldl assign_chapter us chs ! j = us ! j" by blast
    then show "(\<exists>c \<in> set (c # chs). startIndex c \<le> j \<and> j \<le> endIndex c \<and>
        foldl assign_chapter us chs ! j = (segs ! j)\<lparr>chapterIndex := Some (ch_index c)\<rparr>) \<or>
     (\<forall>c \<in> set (c # chs). \<not> (startIndex c \<le> j \<and> j \<le> endIndex c)) \<and> foldl assign_chapter us chs ! j = segs ! j"
    proof cases
      case 1
      then show ?thesis using one [OF j] by (intro disjI1 bexI [of _ c']) auto
    next
      case 2
      then show ?thesis using one [OF j] by (cases "startIndex c \<le> j \<and> j \<le> endIndex c") auto
    qed
  qed
qed simp

lemma chain_covers:
  assumes "chain a rs b" "a \<le> i" "i < b"
  shows "\<exists>r \<in> set rs. fst r \<le> i \<and> i \<le> snd r"
  using assms
proof (induction a rs b rule: chain.induct)
  case (2 a s e rs b)
  then show ?case by (cases "i \<le> e") auto
qed simp

lemma chapter_covers:
  fixes segs :: "'a founded_scheme list"
  assumes "i < length segs"
  shows "\<exists>c \<in> set (computeChapters segs). startIndex c \<le> i \<and> i \<le> endIndex c"
proof -
  have ne: "segs \<noteq> []" using assms by auto
  then have "chain 0 (map chapter_range (computeChapters segs)) (length segs)"
    using chapter_ranges_spec(1) [of "map firstMs segs"] computeChapters_ranges [OF ne] by simp
  then show ?thesis using chain_covers [of 0 _ "length segs" i] assms by (fastforce simp: chapter_range_def)
qed

section \<open>The prepared model\<close>

lemma placed_fields:
  assumes "i < length parsed"
  shows "firstMs (map (place_segment ms h parsed) [0..<length parsed] ! i) = firstMs (parsed ! i)"
    "segmentId (map (place_segment ms h parsed) [0..<length parsed] ! i) = segmentId (parsed ! i)"
    "seg_rank (map (place_segment ms h parsed) [0..<length parsed] ! i) = i"
    "seg_progress (map (place_segment ms h parsed) [0..<length parsed] ! i) = progress_at ms i"
    "altitude (map (place_segment ms h parsed) [0..<length parsed] ! i) = h * Fin (progress_at ms i)"
  using assms by (simp_all add: place_segment_def Let_def)

lemma sorted_founding: "sorted (map firstMs (js_sort (founding_le env) parsed))"
proof -
  have "sorted_wrt (\<lambda>a b. firstMs a \<le> firstMs b) (js_sort (founding_le env) parsed)"
    by (rule sorted_wrt_js_sort) (auto simp: founding_le_def transp_def)
  then show ?thesis by (simp add: sorted_map)
qed

text \<open>The segments of a model built from \<open>parsed\<close>, by index.\<close>

lemma model_segments:
  fixes parsed :: "strata_segment list"
  assumes "i < length parsed"
  defines "m \<equiv> model_of parsed"
  shows "length (sm_segments m) = length parsed"
    "firstMs (sm_segments m ! i) = firstMs (parsed ! i)" "segmentId (sm_segments m ! i) = segmentId (parsed ! i)"
    "seg_rank (sm_segments m ! i) = i" "seg_progress (sm_segments m ! i) = sm_progress m ! i"
    "altitude (sm_segments m ! i) = heightM m * Fin (sm_progress m ! i)"
    "\<exists>c \<in> fst ` set (sm_chapters m). startIndex c \<le> i \<and> i \<le> endIndex c \<and> chapterIndex (sm_segments m ! i) = Some (ch_index c)"
proof -
  define ms where "ms = map firstMs parsed"
  define h where "h = strata_height (area_bbox parsed)"
  define placed where "placed = map (place_segment ms h parsed) [0..<length parsed]"
  define chs where "chs = computeChapters placed"
  have m: "sm_segments m = foldl assign_chapter placed chs" "sm_progress m = map (progress_at ms) [0..<length parsed]"
      "heightM m = h" "fst ` set (sm_chapters m) = set chs"
    by (simp_all add: m_def model_of_def Let_def ms_def h_def placed_def chs_def image_image)
  have len: "length placed = length parsed" by (simp add: placed_def)
  note pf = placed_fields [OF assms(1), of ms h, folded placed_def]
  show "length (sm_segments m) = length parsed" using assign_chapters [of placed chs] m len by simp
  obtain c0 where "c0 \<in> set chs" "startIndex c0 \<le> i" "i \<le> endIndex c0"
    using chapter_covers [of i placed] assms(1) len by (auto simp: chs_def)
  then obtain c where c: "c \<in> set chs" "startIndex c \<le> i" "i \<le> endIndex c"
      "sm_segments m ! i = (placed ! i)\<lparr>chapterIndex := Some (ch_index c)\<rparr>"
    using assign_chapters [of placed chs] assms(1) len unfolding m by auto
  then show "\<exists>c \<in> fst ` set (sm_chapters m). startIndex c \<le> i \<and> i \<le> endIndex c \<and> chapterIndex (sm_segments m ! i) = Some (ch_index c)"
    unfolding m(4) by (intro bexI [of _ c]) auto
  show "firstMs (sm_segments m ! i) = firstMs (parsed ! i)" "segmentId (sm_segments m ! i) = segmentId (parsed ! i)"
    "seg_rank (sm_segments m ! i) = i" "seg_progress (sm_segments m ! i) = sm_progress m ! i"
    "altitude (sm_segments m ! i) = heightM m * Fin (sm_progress m ! i)"
    using c(4) pf assms(1) by (simp_all add: m)
qed

lemma prepared_cases:
  assumes "prepareModel env payload now = Some m"
  obtains parsed where "parsed = js_sort (founding_le env) (List.map_filter (parse_segment env now) (case payload of None \<Rightarrow> [] | Some r \<Rightarrow> r))"
    "parsed \<noteq> []" "m = model_of parsed"
  using assms that by (auto simp: prepareModel_def Let_def split: if_splits)

text \<open>
  The model prepared from any payload is in founding order and complete: it has exactly the segments
  that could be parsed, sorted by the time of their first drive, every segment carries its own rank, progress
  and altitude; the progress values are strictly increasing from 0 and never above 1, the height is between
  400 and 5200 metres for every geometry (also one without a finite point), and every segment carries the
  index of a chapter whose range contains it.
\<close>

theorem prepared_model:
  assumes "prepareModel env payload now = Some m"
  shows "sm_segments m \<noteq> [] \<and> sorted (map firstMs (sm_segments m)) \<and>
    mset (map segmentId (sm_segments m)) =
      mset (map segmentId (List.map_filter (parse_segment env now) (case payload of None \<Rightarrow> [] | Some r \<Rightarrow> r))) \<and>
    length (sm_progress m) = length (sm_segments m) \<and> sm_progress m ! 0 = 0 \<and>
    sorted_wrt (<) (sm_progress m) \<and> (\<forall>p \<in> set (sm_progress m). p \<le> 1) \<and>
    (\<exists>h. heightM m = Fin h \<and> 400 \<le> h \<and> h \<le> 5200) \<and>
    (\<forall>i < length (sm_segments m).
       seg_rank (sm_segments m ! i) = i \<and> altitude (sm_segments m ! i) = heightM m * Fin (sm_progress m ! i) \<and>
       (\<exists>c \<in> fst ` set (sm_chapters m). startIndex c \<le> i \<and> i \<le> endIndex c \<and> chapterIndex (sm_segments m ! i) = Some (ch_index c)))"
proof -
  obtain parsed where p: "parsed = js_sort (founding_le env) (List.map_filter (parse_segment env now) (case payload of None \<Rightarrow> [] | Some r \<Rightarrow> r))"
    "parsed \<noteq> []" "m = model_of parsed" using prepared_cases [OF assms] by blast
  have srt: "sorted (map firstMs parsed)" unfolding p(1) by (rule sorted_founding)
  note seg = model_segments [where parsed = parsed, folded p(3)]
  have len: "length (sm_segments m) = length parsed" using seg(1) [of 0] p(2) by simp
  have f: "map firstMs (sm_segments m) = map firstMs parsed" "map segmentId (sm_segments m) = map segmentId parsed"
    using seg(2,3) len by (auto intro!: nth_equalityI)
  have pr: "sm_progress m = map (progress_at (map firstMs parsed)) [0..<length parsed]" "heightM m = strata_height (area_bbox parsed)"
    by (simp_all add: p(3) model_of_def Let_def)
  have "mset (map segmentId parsed) = image_mset segmentId (mset (List.map_filter (parse_segment env now) (case payload of None \<Rightarrow> [] | Some r \<Rightarrow> r)))"
    by (simp add: p(1))
  moreover have "sm_progress m ! 0 = 0" "sorted_wrt (<) (sm_progress m)" "\<forall>x \<in> set (sm_progress m). x \<le> 1"
    using progress_list [OF srt] p(2) unfolding pr by auto
  moreover have "\<forall>i < length parsed. seg_rank (sm_segments m ! i) = i \<and> altitude (sm_segments m ! i) = heightM m * Fin (sm_progress m ! i) \<and>
       (\<exists>c \<in> fst ` set (sm_chapters m). startIndex c \<le> i \<and> i \<le> endIndex c \<and> chapterIndex (sm_segments m ! i) = Some (ch_index c))"
    using seg(4,6,7) by blast
  ultimately show ?thesis using srt f len p(2) strata_height_range [of parsed] pr by (auto simp del: set_map)
qed

lemma midpoint_exists: "2 \<le> length path \<Longrightarrow> \<exists>p. midpointOfPath path = Some p"
  by (auto simp: midpointOfPath_def Let_def split: option.split)

definition sample_env :: strata_env where
  "sample_env = \<lparr>date_parse = (\<lambda>_. NaN), local_date = (\<lambda>_. (1970, 0, 1)), locale_compare = (\<lambda>_ _. 0)\<rparr>"

definition sample_raw :: "string \<Rightarrow> real \<Rightarrow> raw_segment" where
  "sample_raw i t = \<lparr>segment_id = i, street_name = Some ''Main St'', highway_type = None, length_miles = Fin 1,
     raw_path = Some [[Fin 0, Fin 0], [Fin 1, Fin 0]], first_driven_at = IsoNumber (Fin t), last_driven_at = IsoNull,
     distinct_trip_count = Fin 1\<rparr>"

lemma sample_parses: "\<exists>s. parse_segment sample_env 0 (sample_raw i t) = Some s"
  using midpoint_exists [of "[[Fin 0, Fin 0], [Fin 1, Fin 0]]"]
  by (auto simp: parse_segment_def sample_raw_def parseIso_def finite_value_def Let_def)

theorem prepared_model_witness:
  "\<exists>m. prepareModel sample_env (Some [sample_raw ''b'' 5, sample_raw ''a'' 2]) 0 = Some m \<and> sm_progress m ! 0 = 0 \<and>
     sorted (map firstMs (sm_segments m))"
proof -
  obtain s t where "parse_segment sample_env 0 (sample_raw ''b'' 5) = Some s" "parse_segment sample_env 0 (sample_raw ''a'' 2) = Some t"
    using sample_parses by blast
  then obtain m where m: "prepareModel sample_env (Some [sample_raw ''b'' 5, sample_raw ''a'' 2]) 0 = Some m"
    by (simp add: prepareModel_def Let_def List.map_filter_def)
  then show ?thesis using prepared_model [OF m] by blast
qed

section \<open>Searching the progress\<close>

lemma search_progress_spec:
  assumes "sorted progress" "lo \<le> hi" "hi < length progress" "progress ! lo \<le> v"
  shows "lo \<le> search_progress progress v lo hi \<and> search_progress progress v lo hi \<le> hi \<and>
    progress ! search_progress progress v lo hi \<le> v \<and> (\<forall>j. search_progress progress v lo hi < j \<and> j \<le> hi \<longrightarrow> v < progress ! j)"
  using assms
proof (induction progress v lo hi rule: search_progress.induct)
  case (1 progress v lo hi)
  show ?case
  proof (cases "lo < hi")
    case False
    then show ?thesis using 1 by (subst (1 2 3 4) search_progress.simps) auto
  next
    case True
    define mid where "mid = (lo + hi + 1) div 2"
    have mid: "lo < mid" "mid \<le> hi" using True by (auto simp: mid_def)
    show ?thesis
    proof (cases "progress ! mid \<le> v")
      case le: True
      have eq: "search_progress progress v lo hi = search_progress progress v mid hi"
        using True le by (subst search_progress.simps) (simp add: mid_def Let_def)
      show ?thesis unfolding eq using "1.IH"(1) [OF True mid_def le] 1 mid le by auto
    next
      case False
      have eq: "search_progress progress v lo hi = search_progress progress v lo (mid - 1)"
        using True False by (subst search_progress.simps) (simp add: mid_def Let_def)
      have above: "v < progress ! j" if "mid \<le> j" "j \<le> hi" for j
        using False that sorted_nth_mono [OF "1.prems"(1) that(1)] "1.prems"(3) by auto
      have IH: "lo \<le> search_progress progress v lo (mid - 1) \<and> search_progress progress v lo (mid - 1) \<le> mid - 1 \<and>
          progress ! search_progress progress v lo (mid - 1) \<le> v \<and>
          (\<forall>j. search_progress progress v lo (mid - 1) < j \<and> j \<le> mid - 1 \<longrightarrow> v < progress ! j)"
        using "1.IH"(2) [OF True mid_def False] 1 mid by auto
      show ?thesis unfolding eq
      proof (intro conjI allI impI)
        fix j assume j: "search_progress progress v lo (mid - 1) < j \<and> j \<le> hi"
        then show "v < progress ! j" using IH above by (cases "mid \<le> j") auto
      qed (use IH mid in auto)
    qed
  qed
qed

text \<open>
  C34. The position of the timeline in a prepared model, found by binary search: the result is an index of a
  segment; from 0 on it is the last segment whose progress is not above the value (so the segments shown are
  exactly those founded by then), below 0 it is the first one, and from 1 on the last one.
\<close>

theorem progressIndex_spec:
  fixes v :: real
  assumes "prepareModel env payload now = Some m"
  defines "i \<equiv> progressIndex (sm_progress m) v"
  shows "0 \<le> i \<and> nat i < length (sm_segments m) \<and>
    (0 \<le> v \<longrightarrow> (\<forall>j < length (sm_segments m). seg_progress (sm_segments m ! j) \<le> v \<longleftrightarrow> j \<le> nat i)) \<and>
    (v < 0 \<longrightarrow> i = 0) \<and> (1 \<le> v \<longrightarrow> nat i = length (sm_segments m) - 1)"
proof -
  obtain parsed where p: "parsed \<noteq> []" "m = model_of parsed"
    and js: "parsed = js_sort (founding_le env) (List.map_filter (parse_segment env now) (case payload of None \<Rightarrow> [] | Some r \<Rightarrow> r))"
    using prepared_cases [OF assms(1)] by metis
  define ps where "ps = sm_progress m"
  note seg = model_segments [where parsed = parsed, folded p(2)]
  have ps: "ps = map (progress_at (map firstMs parsed)) [0..<length (map firstMs parsed)]"
    by (simp add: ps_def p(2) model_of_def Let_def)
  have n: "length (sm_segments m) = length parsed" "0 < length parsed" using seg(1) [of 0] p(1) by simp_all
  have srt: "sorted_wrt (<) ps" "\<forall>x \<in> set ps. x \<le> 1" "ps ! 0 = 0" "length ps = length parsed"
    using progress_list [of "map firstMs parsed"] sorted_founding [of env] n(2) unfolding ps js by auto
  have srt': "sorted ps" using srt(1) by (rule strict_sorted_imp_sorted)
  have sp: "seg_progress (sm_segments m ! j) = ps ! j" if "j < length parsed" for j using seg(5) [OF that] by (simp add: ps_def)
  have mono: "ps ! j \<le> ps ! k" if "j \<le> k" "k < length parsed" for j k using sorted_nth_mono [OF srt' that(1)] that srt(4) by simp
  have i: "i = progressIndex ps v" by (simp add: i_def ps_def)
  have main: "0 \<le> i \<and> nat i < length parsed \<and> (0 \<le> v \<longrightarrow> (\<forall>j < length parsed. ps ! j \<le> v \<longleftrightarrow> j \<le> nat i)) \<and> (v < 0 \<longrightarrow> i = 0)"
  proof (cases "v \<ge> ps ! (length ps - 1) \<or> v < ps ! 0")
    case True
    have last: "ps ! j \<le> ps ! (length ps - 1)" if "j < length parsed" for j using mono [of j "length ps - 1"] that srt(4) by simp
    show ?thesis using True last srt(3,4) n(2) by (force simp: i progressIndex_def Let_def)
  next
    case False
    define r where "r = search_progress ps v 0 (length ps - 1)"
    have ir: "i = int r" using False n(2) srt(4) by (auto simp: i progressIndex_def Let_def r_def)
    have r: "r \<le> length ps - 1" "ps ! r \<le> v" "\<And>j. r < j \<Longrightarrow> j \<le> length ps - 1 \<Longrightarrow> v < ps ! j"
      using search_progress_spec [OF srt', of 0 "length ps - 1" v] False n(2) srt(4) by (auto simp: r_def)
    have "ps ! j \<le> v \<longleftrightarrow> j \<le> r" if "j < length parsed" for j
    proof (cases "j \<le> r")
      case True
      have "r < length parsed" using r(1) srt(4) n(2) by linarith
      then have "ps ! j \<le> v" using mono [OF True] r(2) by linarith
      then show ?thesis using True by simp
    next
      case le: False
      then show ?thesis using r(3) [of j] that srt(4) by force
    qed
    then show ?thesis using False r(1) srt(3,4) n(2) by (auto simp: ir)
  qed
  have "ps ! (length parsed - 1) \<le> 1" using srt(2,4) n(2) by (simp add: nth_mem)
  then have "nat i = length parsed - 1" if "1 \<le> v" using main that n(2) by (smt (verit) Suc_pred' diff_less le_antisym less_Suc_eq_le zero_less_one)
  then show ?thesis using main sp n(1) by auto
qed

theorem progressIndex_spec_witness:
  "\<exists>m. prepareModel sample_env (Some [sample_raw ''a'' 2]) 0 = Some m \<and> progressIndex (sm_progress m) (- 1) = 0"
proof -
  obtain s where "parse_segment sample_env 0 (sample_raw ''a'' 2) = Some s" using sample_parses by blast
  then obtain m where m: "prepareModel sample_env (Some [sample_raw ''a'' 2]) 0 = Some m"
    by (simp add: prepareModel_def Let_def List.map_filter_def)
  then show ?thesis using progressIndex_spec [OF m, of "- 1"] by auto
qed

section \<open>The index of street names\<close>

text \<open>The segments of one name.\<close>

definition named :: "string \<Rightarrow> strata_segment list \<Rightarrow> strata_segment list" where
  "named key segs = filter (\<lambda>s. name_key s = Some key) segs"

definition entry_for :: "strata_segment list \<Rightarrow> name_entry \<Rightarrow> bool" where
  "entry_for ss e \<longleftrightarrow> ss \<noteq> [] \<and> en_count e = length ss \<and> en_indices e = map seg_rank ss \<and>
     en_miles e = foldl (+) 0 (map lengthMiles ss) \<and> en_first e = Min (firstMs ` set ss) \<and> en_last e = Max (lastMs ` set ss) \<and>
     en_name e = trim (the (streetName (hd ss)))"

lemma entry_for_extend:
  assumes "entry_for ss e"
  shows "entry_for (ss @ [s]) (add_to_entry s e)"
  using assms by (auto simp: entry_for_def add_to_entry_def image_Un Min_Un Max_Un min.commute max.commute)

lemma entry_for_group: "group_entry new_entry add_to_entry ss = Some e \<Longrightarrow> entry_for ss e"
proof (induction ss arbitrary: e rule: rev_induct)
  case (snoc s ss)
  show ?case
  proof (cases "group_entry new_entry add_to_entry ss")
    case None
    then have "ss = []" by (simp add: group_entry_def split: list.splits)
    then show ?thesis using snoc.prems by (auto simp: group_entry_def entry_for_def add_to_entry_def new_entry_def)
  next
    case (Some f)
    then show ?thesis using snoc.prems entry_for_extend [OF snoc.IH [OF Some], of s] by (simp add: group_entry_snoc)
  qed
qed (simp add: group_entry_def)

lemma name_index_lookup:
  "map_of (build_name_index segs) key = group_entry new_entry add_to_entry (named key segs)"
  by (simp add: build_name_index_def group_fold_lookup named_def)

text \<open>
  The index of street names is exact: a name (trimmed, in lower case) is a key of the index exactly when
  some segment has it, no key occurs twice, and the entry of a key counts the segments of that name, lists
  their ranks in founding order, adds up their lengths and spans their first and last drives.
\<close>

theorem name_index_exact:
  assumes "prepareModel env payload now = Some m"
  shows "distinct (map fst (nameIndex m)) \<and>
    (\<forall>key. (map_of (nameIndex m) key = None \<longleftrightarrow> named key (sm_segments m) = []) \<and>
       (\<forall>e. map_of (nameIndex m) key = Some e \<longrightarrow> entry_for (named key (sm_segments m)) e \<and> sorted_wrt (<) (en_indices e)))"
proof -
  obtain parsed where p: "parsed \<noteq> []" "m = model_of parsed" using prepared_cases [OF assms] by metis
  have idx: "nameIndex m = build_name_index (sm_segments m)" by (simp add: p(2) model_of_def Let_def)
  note seg = model_segments [where parsed = parsed, folded p(2)]
  have len: "length (sm_segments m) = length parsed" using seg(1) [of 0] p(1) by simp
  have ranks: "map seg_rank (sm_segments m) = [0..<length parsed]" using seg(4) len by (auto intro: nth_equalityI)
  have "sorted_wrt (<) (map seg_rank (named key (sm_segments m)))" for key
  proof -
    have "sorted_wrt (\<lambda>a b. seg_rank a < seg_rank b) (sm_segments m)" using ranks by (metis sorted_wrt_map sorted_wrt_upt)
    then show ?thesis by (simp add: named_def sorted_wrt_map sorted_wrt_filter)
  qed
  moreover have "map_of (nameIndex m) key = None \<longleftrightarrow> named key (sm_segments m) = []" for key
    by (simp add: idx name_index_lookup group_entry_def split: list.split)
  moreover have "entry_for (named key (sm_segments m)) e" if "map_of (nameIndex m) key = Some e" for key e
    using that by (simp add: idx name_index_lookup entry_for_group)
  moreover have "distinct (map fst (nameIndex m))" by (simp add: idx build_name_index_def)
  ultimately show ?thesis by (simp add: entry_for_def)
qed

theorem name_index_exact_witness:
  "\<exists>m. prepareModel sample_env (Some [sample_raw ''a'' 2]) 0 = Some m \<and> distinct (map fst (nameIndex m))"
proof -
  obtain s where "parse_segment sample_env 0 (sample_raw ''a'' 2) = Some s" using sample_parses by blast
  then obtain m where m: "prepareModel sample_env (Some [sample_raw ''a'' 2]) 0 = Some m"
    by (simp add: prepareModel_def Let_def List.map_filter_def)
  then show ?thesis using name_index_exact [OF m] by auto
qed

section \<open>Searching street names\<close>

definition finite_miles :: "name_index \<Rightarrow> bool" where
  "finite_miles idx \<longleftrightarrow> (\<forall>e \<in> snd ` set idx. is_finite (en_miles e))"

lemma miles_le_iff:
  assumes "is_finite (en_miles a)" "is_finite (en_miles b)"
  shows "miles_le a b \<longleftrightarrow> en_miles b \<le> en_miles a"
  using assms by (auto simp: miles_le_def is_finite_iff)

lemma not_le_miles:
  assumes "is_finite x" "is_finite y" "\<not> x \<le> y"
  shows "y \<le> x"
  using assms by (auto simp: is_finite_iff)

lemma sorted_miles:
  assumes "\<forall>e \<in> set es. is_finite (en_miles e)"
  shows "sorted_wrt (\<lambda>a b. en_miles b \<le> en_miles a) (js_sort miles_le es)"
proof -
  have "sorted_wrt (\<lambda>a b. is_finite (en_miles a) \<and> is_finite (en_miles b) \<and> en_miles b \<le> en_miles a) (js_sort miles_le es)"
  proof (rule sorted_wrt_js_sort)
    show "transp (\<lambda>a b. is_finite (en_miles a) \<and> is_finite (en_miles b) \<and> en_miles b \<le> en_miles a)"
      by (auto simp: transp_def is_finite_iff)
  qed (use assms miles_le_iff in \<open>auto simp: not_le_miles\<close>)
  then show ?thesis by (rule sorted_wrt_mono_rel [rotated]) simp
qed

text \<open>Both groups together are a part of the index.\<close>

definition street_hits :: "name_index \<Rightarrow> string \<Rightarrow> name_entry list" where
  "street_hits idx q = js_sort miles_le (map snd (filter (\<lambda>(k, _). starts_with k q) idx)) @
     js_sort miles_le (map snd (filter (\<lambda>(k, _). \<not> starts_with k q \<and> str_includes k q) idx))"

lemma starts_includes: "starts_with k q \<Longrightarrow> str_includes k q"
  by (cases k) (auto simp: starts_with_def)

lemma street_hits_mset: "mset (street_hits idx q) = mset (map snd (filter (\<lambda>(k, _). str_includes k q) idx))"
  unfolding street_hits_def by (induction idx) (auto dest: starts_includes)

text \<open>
  A search returns the streets whose name contains the query (trimmed, in lower case) and no others: the
  result is the first \<open>limit\<close> entries of a list that holds each of them once, first those whose name starts
  with the query and then the rest, longer streets first within both groups. A query of fewer than two
  characters finds nothing.
\<close>

theorem searchStreets_spec:
  assumes "finite_miles idx"
  shows "\<exists>starts contains.
    searchStreets idx (Some query) limit =
      (if length (str_lower (trim query)) < 2 then [] else take limit (starts @ contains)) \<and>
    mset (starts @ contains) = mset (map snd (filter (\<lambda>(k, _). str_includes k (str_lower (trim query))) idx)) \<and>
    set starts = {e. \<exists>k. (k, e) \<in> set idx \<and> starts_with k (str_lower (trim query))} \<and>
    sorted_wrt (\<lambda>a b. en_miles b \<le> en_miles a) starts \<and> sorted_wrt (\<lambda>a b. en_miles b \<le> en_miles a) contains"
proof -
  define q where "q = str_lower (trim query)"
  define starts where "starts = js_sort miles_le (map snd (filter (\<lambda>(k, _). starts_with k q) idx))"
  define contains where "contains = js_sort miles_le (map snd (filter (\<lambda>(k, _). \<not> starts_with k q \<and> str_includes k q) idx))"
  have "searchStreets idx (Some query) limit = (if length q < 2 then [] else take limit (starts @ contains))"
    by (simp add: searchStreets_def q_def starts_def contains_def Let_def)
  moreover have "mset (starts @ contains) = mset (map snd (filter (\<lambda>(k, _). str_includes k q) idx))"
    using street_hits_mset [of idx q] by (simp only: street_hits_def starts_def contains_def)
  moreover have "sorted_wrt (\<lambda>a b. en_miles b \<le> en_miles a) starts" "sorted_wrt (\<lambda>a b. en_miles b \<le> en_miles a) contains"
    using assms unfolding starts_def contains_def by (auto intro!: sorted_miles simp: finite_miles_def)
  moreover have "set starts = {e. \<exists>k. (k, e) \<in> set idx \<and> starts_with k q}" by (force simp: starts_def)
  ultimately show ?thesis unfolding q_def by blast
qed

definition sample_entry :: "string \<Rightarrow> real \<Rightarrow> name_entry" where
  "sample_entry n x = \<lparr>en_name = n, en_count = 1, en_miles = Fin x, en_first = 0, en_last = 0, en_indices = [], en_bbox = empty_bbox\<rparr>"

theorem searchStreets_spec_witness:
  "finite_miles [(''oak'', sample_entry ''Oak'' 1), (''oak hill'', sample_entry ''Oak Hill'' 2)] \<and>
   (\<exists>starts contains. searchStreets [(''oak'', sample_entry ''Oak'' 1), (''oak hill'', sample_entry ''Oak Hill'' 2)] (Some ''OAK'') 8 =
      take 8 (starts @ contains))"
proof -
  have f: "finite_miles [(''oak'', sample_entry ''Oak'' 1), (''oak hill'', sample_entry ''Oak Hill'' 2)]"
    by (simp add: finite_miles_def sample_entry_def)
  have "length (str_lower (trim ''OAK'')) = 3" by (simp add: str_lower_def trim_def is_space_def)
  then show ?thesis using searchStreets_spec [OF f, of "''OAK''" 8] f by auto
qed

section \<open>Midpoints\<close>

definition num :: "jsnum \<Rightarrow> real" where
  "num x = (case x of Fin a \<Rightarrow> a | _ \<Rightarrow> 0)"

definition side :: "coord list \<Rightarrow> nat \<Rightarrow> real" where
  "side path i = sqrt ((num (js_at (path ! Suc i) 0) - num (js_at (path ! i) 0))\<^sup>2 + (num (js_at (path ! Suc i) 1) - num (js_at (path ! i) 1))\<^sup>2)"

text \<open>The point at the share \<open>t\<close> of side \<open>i\<close>.\<close>

definition on_side :: "coord list \<Rightarrow> nat \<Rightarrow> real \<Rightarrow> coord" where
  "on_side path i t =
     [Fin (num (js_at (path ! i) 0) + (num (js_at (path ! Suc i) 0) - num (js_at (path ! i) 0)) * t),
      Fin (num (js_at (path ! i) 1) + (num (js_at (path ! Suc i) 1) - num (js_at (path ! i) 1)) * t)]"

lemma finite_num: "is_finite x \<Longrightarrow> x = Fin (num x)"
  by (cases x) (simp_all add: num_def)

lemma finite_at:
  assumes "\<forall>c \<in> set path. finite_coord c" "i < length path"
  shows "js_at (path ! i) 0 = Fin (num (js_at (path ! i) 0))" "js_at (path ! i) (Suc 0) = Fin (num (js_at (path ! i) (Suc 0)))"
  using assms finite_num by (auto simp: finite_coord_def)

lemma path_lengths_Fin:
  assumes "\<forall>c \<in> set path. finite_coord c" "2 \<le> length path"
  shows "path_lengths path = map (\<lambda>i. Fin (side path i)) [0..<length path - 1]"
proof (rule nth_equalityI)
  fix i assume "i < length (path_lengths path)"
  then have i: "i < length path - 1" by (simp add: path_lengths_def)
  then have "Suc i < length path" "i < length path" by simp_all
  note f = finite_at [OF assms(1) this(1)] finite_at [OF assms(1) this(2)]
  show "path_lengths path ! i = map (\<lambda>i. Fin (side path i)) [0..<length path - 1] ! i"
  proof -
    obtain a b c d where "js_at (path ! i) 0 = Fin a" "js_at (path ! i) (Suc 0) = Fin b"
        "js_at (path ! Suc i) 0 = Fin c" "js_at (path ! Suc i) (Suc 0) = Fin d"
      using f by blast
    then show ?thesis using i by (simp add: path_lengths_def side_def num_def)
  qed
qed (simp add: path_lengths_def)

lemma mid_scan_spec:
  assumes "\<forall>c \<in> set path. finite_coord c" "i + length ls < length path"
    "\<forall>l \<in> set ls. 0 \<le> l" "s \<le> T" "T \<le> s + sum_list ls" "ls \<noteq> []"
  shows "\<exists>k < length ls. \<exists>t. 0 \<le> t \<and> t \<le> 1 \<and> s + sum_list (take k ls) + t * ls ! k = T \<and>
    mid_scan path (Fin T) i (Fin s) (map Fin ls) = Some (on_side path (i + k) t)"
  using assms(2-6)
proof (induction ls arbitrary: i s)
  case (Cons l ls)
  note f = finite_at [OF assms(1), of i] finite_at [OF assms(1), of "Suc i"]
  show ?case
  proof (cases "T \<le> s + l")
    case True
    define t where "t = (if 0 < l then (T - s) / l else 0)"
    have t: "0 \<le> t" "t \<le> 1" "s + t * l = T" using Cons.prems True by (auto simp: t_def divide_le_eq)
    have "mid_scan path (Fin T) i (Fin s) (map Fin (l # ls)) = Some (on_side path i t)"
    proof -
      obtain a b c d where "js_at (path ! i) 0 = Fin a" "js_at (path ! i) (Suc 0) = Fin b"
          "js_at (path ! Suc i) 0 = Fin c" "js_at (path ! Suc i) (Suc 0) = Fin d"
        using f Cons.prems(1) by fastforce
      then show ?thesis using True by (auto simp: on_side_def t_def num_def Let_def)
    qed
    then show ?thesis using t by (intro exI [of _ 0]) auto
  next
    case False
    have "ls \<noteq> []" using False Cons.prems(4) by auto
    then obtain k t where k: "k < length ls" "0 \<le> t" "t \<le> 1" "s + l + sum_list (take k ls) + t * ls ! k = T"
        "mid_scan path (Fin T) (Suc i) (Fin (s + l)) (map Fin ls) = Some (on_side path (Suc i + k) t)"
      using Cons.IH [of "Suc i" "s + l"] Cons.prems False by auto
    then show ?thesis using False by (intro exI [of _ "Suc k"]) auto
  qed
qed simp

text \<open>
  The marker of a street with finite coordinates sits on the street, half way along it: the midpoint is
  a point of one of its sides, and the length of the sides before it plus the part of that side up to it is
  half of the whole length.
\<close>

theorem midpoint_half_way:
  assumes "\<forall>c \<in> set path. finite_coord c" "2 \<le> length path"
  shows "\<exists>i t. Suc i < length path \<and> 0 \<le> t \<and> t \<le> 1 \<and> midpointOfPath path = Some (on_side path i t) \<and>
    (\<Sum>j \<leftarrow> [0..<i]. side path j) + t * side path i = (\<Sum>j \<leftarrow> [0..<length path - 1]. side path j) / 2"
proof -
  define ls where "ls = map (side path) [0..<length path - 1]"
  have lens: "path_lengths path = map Fin ls" by (simp add: path_lengths_Fin [OF assms] ls_def)
  have tot: "foldl (+) 0 (path_lengths path) = Fin (sum_list ls)" using foldl_Fin [of 0 ls] by (simp add: lens)
  have nn: "\<forall>l \<in> set ls. 0 \<le> l" by (auto simp: ls_def side_def)
  have ls: "ls \<noteq> []" "0 + length ls < length path" using assms(2) by (auto simp: ls_def)
  show ?thesis
  proof (cases "sum_list ls = 0")
    case True
    obtain a b where "js_at (path ! 0) 0 = Fin a" "js_at (path ! 0) (Suc 0) = Fin b"
      using finite_at [OF assms(1), of 0] assms(2) by force
    then have "midpointOfPath path = Some (on_side path 0 0)"
      using True assms(2) tot by (simp add: midpointOfPath_def Let_def on_side_def num_def)
    then show ?thesis using True assms(2) by (intro exI [of _ 0]) (auto simp: ls_def)
  next
    case False
    have pos: "0 \<le> sum_list ls" using nn by (simp add: sum_list_nonneg)
    obtain k t where k: "k < length ls" "0 \<le> t" "t \<le> 1" "sum_list (take k ls) + t * ls ! k = sum_list ls / 2"
        "mid_scan path (Fin (sum_list ls / 2)) 0 (Fin 0) (map Fin ls) = Some (on_side path k t)"
      using mid_scan_spec [OF assms(1) ls(2) nn, of 0 "sum_list ls / 2"] pos ls(1) by auto
    have "midpointOfPath path = Some (on_side path k t)"
      using k(5) False assms(2) tot lens by (simp add: midpointOfPath_def Let_def)
    moreover have "take k ls = map (side path) [0..<k]" using k(1) by (simp add: ls_def take_map)
    moreover have "ls ! k = side path k" using k(1) by (simp add: ls_def)
    ultimately show ?thesis using k(1-4) by (intro exI [of _ k] exI [of _ t]) (auto simp: ls_def)
  qed
qed

theorem midpoint_half_way_witness:
  "\<exists>i t. midpointOfPath [[Fin 0, Fin 0], [Fin 3, Fin 4]] = Some (on_side [[Fin 0, Fin 0], [Fin 3, Fin 4]] i t)"
  using midpoint_half_way [of "[[Fin 0, Fin 0], [Fin 3, Fin 4]]"] by (auto simp: finite_coord_def)

section \<open>Recency\<close>

text \<open>The bucket of a number of days: the colour of the first stop it does not exceed; later days never get an earlier bucket.\<close>

lemma recency_bucket:
  "recencyBucketIndex (Fin d) =
     (if d \<le> 0 then 0 else if d \<le> 7 then 1 else if d \<le> 30 then 2 else if d \<le> 90 then 3 else if d \<le> 180 then 4 else if d \<le> 365 then 5 else 6)"
  by (simp add: recencyBucketIndex_def RECENCY_STOPS_def upt_rec)

lemma recency_mono: "d \<le> e \<Longrightarrow> recencyBucketIndex (Fin d) \<le> recencyBucketIndex (Fin e)"
  by (simp add: recency_bucket)

end
