(* ===== verification/InsightPeriods.thy ===== *)
theory InsightPeriods
  imports JSDate
begin

text \<open>
  The periods of the insights page, first part of \<open>static/js/modules/insights/derived-insights.js\<close>: dates of
  the form year-month-day, weekly and monthly totals (\<open>aggregatePeriods\<close>), the change against the previous
  period (\<open>computePeriodDeltas\<close>) and the regularity of driving (\<open>computeConsistencyStats\<close>).

  \<^item> A value that is not a string is \<open>None\<close>, numbers are given as \<open>Number\<close> returns them; \<open>toNumber\<close> makes
    them finite. A date is \<open>null\<close> (\<open>None\<close>), invalid (\<open>Some None\<close>) or a day.
  \<^item> \<open>insight_env\<close> holds the texts of \<open>Intl.DateTimeFormat\<close>, the printing of numbers and \<open>localeCompare\<close>.
  \<^item> Shown: dates survive printing and parsing; the periods partition the days, start on a Monday or the
    first of a month, come in order and add up exactly; the regularity counts the days of the range.
\<close>

record insight_env =
  month_day_text :: "int \<Rightarrow> string"
  month_year_text :: "int \<Rightarrow> int \<Rightarrow> string"
  num_text :: "real \<Rightarrow> string"
  ie_compare :: "string \<Rightarrow> string \<Rightarrow> int"

section \<open>Numbers and dates\<close>

definition toNumber :: "real \<Rightarrow> jsnum \<Rightarrow> real" where
  "toNumber fallback v = (case v of Fin a \<Rightarrow> a | _ \<Rightarrow> fallback)"

definition parse_part :: "string list \<Rightarrow> nat \<Rightarrow> int option" where
  "parse_part parts i =
     (if i < length parts then (case parse_int (parts ! i) of Some v \<Rightarrow> if v = 0 then None else Some v | None \<Rightarrow> None)
      else None)"

definition parseYmdUtc :: "string option \<Rightarrow> utc_date option" where
  "parseYmdUtc v =
     (case v of
        None \<Rightarrow> None
      | Some t \<Rightarrow>
          let parts = split_at CHR ''-'' t
          in case (parse_part parts 0, parse_part parts 1, parse_part parts 2) of
              (Some year, Some month, Some day) \<Rightarrow> Some (date_utc year (month - 1) day)
            | _ \<Rightarrow> None)"

definition two_digits :: "int \<Rightarrow> string" where
  "two_digits n = pad_start 2 CHR ''0'' (js_int n)"

definition formatYmdUtc :: "utc_date \<Rightarrow> string" where
  "formatYmdUtc d =
     (case d of None \<Rightarrow> []
      | Some n \<Rightarrow> let (y, m, dd) = civil_from_days n in js_int y @ ''-'' @ two_digits m @ ''-'' @ two_digits dd)"

definition getWeekStartUtc :: "utc_date \<Rightarrow> utc_date" where
  "getWeekStartUtc d = (case d of None \<Rightarrow> None | Some n \<Rightarrow> time_clip (n - (utc_day n + 6) mod 7))"

section \<open>Periods\<close>

datatype period_mode = Weekly | Monthly

record day_entry =
  de_date :: "string option"
  de_distance :: jsnum
  de_count :: jsnum

record period =
  pd_key :: string
  pd_label :: string
  pd_start :: string
  pd_end :: string
  pd_distance :: real
  pd_trips :: real
  pd_activeDays :: nat

text \<open>First and last day of the period of a day; the year and month of the day for the label.\<close>

definition period_start :: "period_mode \<Rightarrow> int \<Rightarrow> utc_date" where
  "period_start mode n =
     (case mode of Weekly \<Rightarrow> getWeekStartUtc (Some n)
      | Monthly \<Rightarrow> (let (y, m, d) = civil_from_days n in date_utc y (m - 1) 1))"

definition period_end :: "period_mode \<Rightarrow> int \<Rightarrow> utc_date" where
  "period_end mode n =
     (case mode of Weekly \<Rightarrow> add_days 6 (getWeekStartUtc (Some n))
      | Monthly \<Rightarrow> (let (y, m, d) = civil_from_days n in date_utc y m 0))"

definition period_key :: "period_mode \<Rightarrow> int \<Rightarrow> string" where
  "period_key mode n =
     (case mode of Weekly \<Rightarrow> formatYmdUtc (period_start Weekly n)
      | Monthly \<Rightarrow> (let (y, m, d) = civil_from_days n in js_int y @ ''-'' @ two_digits m))"

definition period_label :: "insight_env \<Rightarrow> period_mode \<Rightarrow> int \<Rightarrow> string" where
  "period_label env mode n =
     (case mode of
        Weekly \<Rightarrow> ''Week of '' @ (case period_start Weekly n of Some s \<Rightarrow> month_day_text env s | None \<Rightarrow> [])
      | Monthly \<Rightarrow> (let (y, m, d) = civil_from_days n in month_year_text env y (m - 1)))"

text \<open>Formatting the label of an invalid date throws, which ends the whole computation (\<open>None\<close>).\<close>

definition label_throws :: "period_mode \<Rightarrow> utc_date option \<Rightarrow> bool" where
  "label_throws mode d =
     (case d of None \<Rightarrow> False | Some None \<Rightarrow> True | Some (Some n) \<Rightarrow> period_start mode n = None)"

definition entry_day :: "day_entry \<Rightarrow> int option" where
  "entry_day e = (case parseYmdUtc (de_date e) of Some (Some n) \<Rightarrow> Some n | _ \<Rightarrow> None)"

definition new_period :: "insight_env \<Rightarrow> period_mode \<Rightarrow> day_entry \<Rightarrow> period" where
  "new_period env mode e =
     (let n = the (entry_day e)
      in \<lparr>pd_key = period_key mode n, pd_label = period_label env mode n,
          pd_start = formatYmdUtc (period_start mode n), pd_end = formatYmdUtc (period_end mode n),
          pd_distance = 0, pd_trips = 0, pd_activeDays = 0\<rparr>)"

definition add_to_period :: "day_entry \<Rightarrow> period \<Rightarrow> period" where
  "add_to_period e p = p\<lparr>pd_distance := pd_distance p + toNumber 0 (de_distance e),
     pd_trips := pd_trips p + toNumber 0 (de_count e),
     pd_activeDays := (if toNumber 0 (de_count e) > 0 then pd_activeDays p + 1 else pd_activeDays p)\<rparr>"

definition period_buckets :: "insight_env \<Rightarrow> period_mode \<Rightarrow> day_entry list \<Rightarrow> (string \<times> period) list" where
  "period_buckets env mode es =
     group_fold (\<lambda>e. map_option (period_key mode) (entry_day e)) (new_period env mode) add_to_period es"

record summed_period = period +
  pd_average :: real

definition summarise :: "period \<Rightarrow> summed_period" where
  "summarise p = period.extend (p\<lparr>pd_distance := fixed 2 (pd_distance p)\<rparr>)
     \<lparr>pd_average = fixed 2 (if pd_trips p > 0 then pd_distance p / pd_trips p else 0)\<rparr>"

definition start_le :: "insight_env \<Rightarrow> period \<Rightarrow> period \<Rightarrow> bool" where
  "start_le env a b \<longleftrightarrow> ie_compare env (pd_start a) (pd_start b) \<le> 0"

definition aggregatePeriods :: "insight_env \<Rightarrow> day_entry list \<Rightarrow> period_mode \<Rightarrow> summed_period list option" where
  "aggregatePeriods env es mode =
     (if list_ex (\<lambda>e. label_throws mode (parseYmdUtc (de_date e))) es then None
      else Some (map summarise (js_sort (start_le env) (map snd (period_buckets env mode es)))))"

section \<open>Changes between periods\<close>

text \<open>\<open>x.toFixed(k)\<close> as text, for a number of moderate size; \<open>String(Math.round(x))\<close>.\<close>

definition fixed_text :: "nat \<Rightarrow> real \<Rightarrow> string" where
  "fixed_text k x =
     (let n = nat \<lfloor>\<bar>x\<bar> * 10 ^ k + 1 / 2\<rfloor>
      in (if x < 0 then ''-'' else []) @ nat_digits (n div 10 ^ k) @
         (if k = 0 then [] else ''.'' @ pad_start k CHR ''0'' (nat_digits (n mod 10 ^ k))))"

definition formatSignedNumber :: "real \<Rightarrow> nat \<Rightarrow> string \<Rightarrow> string" where
  "formatSignedNumber value decimals unit =
     (let sign = (if value > 0 then ''+'' else if value < 0 then ''-'' else []); a = \<bar>value\<bar>;
          base = (if decimals > 0 then fixed_text decimals a else js_int \<lfloor>a + 1 / 2\<rfloor>)
      in sign @ base @ unit)"

definition selectMomentumLabel :: "real option \<Rightarrow> real option \<Rightarrow> string" where
  "selectMomentumLabel distanceDeltaPct tripsDelta =
     (case distanceDeltaPct of
        None \<Rightarrow> ''No prior period''
      | Some p \<Rightarrow>
          let t = (case tripsDelta of Some t \<Rightarrow> t | None \<Rightarrow> 0)
          in if \<bar>p\<bar> < 1 then ''Within 1%''
             else if p > 0 \<and> t > 0 then ''Trips and distance up''
             else if p < 0 \<and> t < 0 then ''Trips and distance down''
             else if p > 0 then ''Distance up'' else ''Distance down'')"

definition selectPeriodHeadline :: "real option \<Rightarrow> real option \<Rightarrow> string" where
  "selectPeriodHeadline distanceDelta tripsDelta =
     (case (distanceDelta, tripsDelta) of
        (Some d, Some t) \<Rightarrow> ''Trips '' @ formatSignedNumber t 0 [] @ '', Distance '' @ formatSignedNumber d 1 '' mi''
      | _ \<Rightarrow> ''No prior-period comparison available'')"

definition bullet :: string where "bullet = [CHR '' '', CHR 0xE2, CHR 0x80, CHR 0xA2, CHR '' '']"

definition buildPeriodSummary :: "insight_env \<Rightarrow> summed_period \<Rightarrow> string" where
  "buildPeriodSummary env p =
     (let trips = pd_trips p; distance = pd_distance p; avgTrip = (if trips > 0 then distance / trips else 0)
      in num_text env trips @ '' trips'' @ bullet @ fixed_text 1 distance @ '' mi'' @ bullet @ fixed_text 1 avgTrip @ '' mi/trip'')"

record period_delta = summed_period +
  previousStart :: "string option"
  previousEnd :: "string option"
  previousTrips :: "real option"
  previousDistance :: "real option"
  previousAverage :: "real option"
  distanceDelta :: "real option"
  tripsDelta :: "real option"
  distanceDeltaPct :: "real option"
  momentumLabel :: string
  pd_headline :: string
  pd_summary :: string

definition period_change :: "insight_env \<Rightarrow> summed_period option \<Rightarrow> summed_period \<Rightarrow> period_delta" where
  "period_change env previous p =
     (let dist = map_option (\<lambda>q. pd_distance p - pd_distance q) previous;
          trips = map_option (\<lambda>q. pd_trips p - pd_trips q) previous;
          pct = (case previous of
                   Some q \<Rightarrow> if pd_distance q > 0 then Some ((pd_distance p - pd_distance q) / pd_distance q * 100) else None
                 | None \<Rightarrow> None)
      in summed_period.extend p
          \<lparr>previousStart = (case previous of Some q \<Rightarrow> if pd_start q = [] then None else Some (pd_start q) | None \<Rightarrow> None),
           previousEnd = (case previous of Some q \<Rightarrow> if pd_end q = [] then None else Some (pd_end q) | None \<Rightarrow> None),
           previousTrips = map_option pd_trips previous, previousDistance = map_option pd_distance previous,
           previousAverage = map_option pd_average previous, distanceDelta = map_option (fixed 2) dist, tripsDelta = trips,
           distanceDeltaPct = map_option (fixed 1) pct, momentumLabel = selectMomentumLabel pct trips,
           pd_headline = selectPeriodHeadline dist trips, pd_summary = buildPeriodSummary env p\<rparr>)"

definition computePeriodDeltas :: "insight_env \<Rightarrow> summed_period list \<Rightarrow> period_delta list" where
  "computePeriodDeltas env ps =
     map (\<lambda>i. period_change env (if i > 0 then Some (ps ! (i - 1)) else None) (ps ! i)) [0..<length ps]"

section \<open>Regularity\<close>

record consistency =
  cs_activeDays :: nat
  cs_spanDays :: jsnum
  cs_quietDays :: jsnum
  cs_ratio :: real
  cs_tripsPerDay :: real
  cs_distancePerDay :: real

definition pct_of :: "real \<Rightarrow> real \<Rightarrow> real" where
  "pct_of a b = (if b = 0 then 0 else a / b * 100)"

definition date_le :: "insight_env \<Rightarrow> day_entry \<Rightarrow> day_entry \<Rightarrow> bool" where
  "date_le env a b \<longleftrightarrow> ie_compare env (the (de_date a)) (the (de_date b)) \<le> 0"

definition normalized_days :: "insight_env \<Rightarrow> day_entry list \<Rightarrow> day_entry list" where
  "normalized_days env es = js_sort (date_le env) (filter (\<lambda>e. parseYmdUtc (de_date e) \<noteq> None) es)"

text \<open>\<open>new Map(entries)\<close>: the last entry of a date counts.\<close>

definition by_date :: "day_entry list \<Rightarrow> (string \<times> day_entry) list" where
  "by_date es = foldl (\<lambda>m e. AList.update (the (de_date e)) e m) [] es"

definition day_values :: "(string \<times> day_entry) list \<Rightarrow> int \<Rightarrow> real \<times> real" where
  "day_values m n =
     (case map_of m (formatYmdUtc (time_clip n)) of
        Some e \<Rightarrow> (toNumber 0 (de_count e), toNumber 0 (de_distance e)) | None \<Rightarrow> (0, 0))"

definition count_day :: "(string \<times> day_entry) list \<Rightarrow> nat \<times> real \<times> real \<Rightarrow> int \<Rightarrow> nat \<times> real \<times> real" where
  "count_day m = (\<lambda>(active, trips, distance) n.
     let (c, d) = day_values m n in if c > 0 then (active + 1, trips + c, distance + d) else (active, trips, distance))"

definition date_range :: "insight_env \<Rightarrow> day_entry list \<Rightarrow> string option \<Rightarrow> string option \<Rightarrow> utc_date option \<times> utc_date option" where
  "date_range env es s e =
     (let days = normalized_days env es; rs = parseYmdUtc s; re = parseYmdUtc e
      in case (rs, re) of
          (Some (Some a), Some (Some b)) \<Rightarrow> if a \<le> b then (rs, re)
            else if days = [] then (None, None) else (parseYmdUtc (de_date (hd days)), parseYmdUtc (de_date (List.last days)))
        | _ \<Rightarrow> if days = [] then (None, None) else (parseYmdUtc (de_date (hd days)), parseYmdUtc (de_date (List.last days))))"

definition consistency_of :: "nat \<Rightarrow> jsnum \<Rightarrow> jsnum \<Rightarrow> real \<Rightarrow> real \<Rightarrow> real \<Rightarrow> consistency" where
  "consistency_of active sdays quiet ratio trips distance =
     \<lparr>cs_activeDays = active, cs_spanDays = sdays, cs_quietDays = quiet, cs_ratio = fixed 1 ratio,
      cs_tripsPerDay = fixed 2 (if active > 0 then trips / real active else 0),
      cs_distancePerDay = fixed 2 (if active > 0 then distance / real active else 0)\<rparr>"

definition computeConsistencyStats :: "insight_env \<Rightarrow> day_entry list \<Rightarrow> string option \<Rightarrow> string option \<Rightarrow> consistency" where
  "computeConsistencyStats env es s e =
     (case date_range env es s e of
        (Some (Some a), Some (Some b)) \<Rightarrow>
          let sdays = b - a + 1;
              (active, trips, distance) = foldl (count_day (by_date (normalized_days env es))) (0, 0, 0) [a..b]
          in consistency_of active (Fin (of_int sdays)) (js_max 0 (Fin (of_int sdays - real active)))
               (pct_of (real active) (of_int sdays)) trips distance
      | (Some _, Some _) \<Rightarrow> consistency_of 0 NaN NaN 0 0 0
      | _ \<Rightarrow> consistency_of 0 0 0 0 0 0)"

section \<open>Printing and parsing dates\<close>

lemma parse_int_digits:
  assumes "ds \<noteq> []" "\<forall>c \<in> set ds. is_digit c"
  shows "parse_int ds = Some (int (digits_val ds))"
proof -
  obtain c cs where ds: "ds = c # cs" using assms(1) by (cases ds) auto
  then have "\<not> is_space c" "c \<noteq> CHR ''-''" "c \<noteq> CHR ''+''" using digit_char assms(2) by auto
  moreover have "takeWhile is_digit ds = ds" using assms(2) by (simp add: takeWhile_eq_all_conv)
  ultimately show ?thesis by (simp add: parse_int_def ds)
qed

lemma digits_val_zeros: "digits_val (replicate k CHR ''0'' @ ds) = digits_val ds"
  by (induction k) simp_all

lemma two_digits_digits: "0 \<le> n \<Longrightarrow> \<forall>c \<in> set (two_digits n). is_digit c"
  using nat_digits_digits by (auto simp: two_digits_def pad_start_def js_int_def is_digit_def)

lemma parse_two_digits: "0 \<le> n \<Longrightarrow> parse_int (two_digits n) = Some n"
  using parse_int_digits [OF _ two_digits_digits]
  by (simp add: two_digits_def pad_start_def js_int_def digits_val_zeros digits_val_nat_digits del: digits_val.simps)

lemma two_digits_inject: "0 \<le> a \<Longrightarrow> 0 \<le> b \<Longrightarrow> two_digits a = two_digits b \<longleftrightarrow> a = b"
  by (metis option.inject parse_two_digits)

lemma parse_js_int: "0 \<le> n \<Longrightarrow> parse_int (js_int n) = Some n"
  using parse_int_digits [OF nat_digits_nonempty nat_digits_digits]
  by (simp add: js_int_def digits_val_nat_digits del: digits_val.simps)

definition ymd_text :: "int \<times> int \<times> int \<Rightarrow> string" where
  "ymd_text = (\<lambda>(y, m, d). js_int y @ ''-'' @ two_digits m @ ''-'' @ two_digits d)"

lemma split_ymd_text:
  assumes "0 \<le> y" "0 \<le> m" "0 \<le> d"
  shows "split_at CHR ''-'' (ymd_text (y, m, d)) = [js_int y, two_digits m, two_digits d]"
proof -
  have "CHR ''-'' \<notin> set ds" if "\<forall>c \<in> set ds. is_digit c" for ds using that digit_char by blast
  then have "\<forall>x \<in> set [js_int y, two_digits m, two_digits d]. CHR ''-'' \<notin> set x"
    using assms two_digits_digits nat_digits_digits by (simp add: js_int_def)
  from split_join [OF _ this] show ?thesis by (simp add: ymd_text_def)
qed

lemma parse_ymd_text:
  assumes "100 \<le> y" "1 \<le> m" "1 \<le> d"
  shows "parseYmdUtc (Some (ymd_text (y, m, d))) = Some (date_utc y (m - 1) d)"
  using assms by (simp add: parseYmdUtc_def split_ymd_text Let_def parse_part_def parse_js_int parse_two_digits)

lemma date_utc_civil:
  assumes "100 \<le> y" "1 \<le> m" "m \<le> 12"
  shows "date_utc y (m - 1) d = time_clip (days_from_civil (y, m, d))"
proof -
  have "(m - 1) div 12 = 0" "(m - 1) mod 12 = m - 1" using assms by simp_all
  then show ?thesis using assms by (simp add: date_utc_def days_from_civil_def add.assoc)
qed

lemma parse_printed_day:
  assumes "100 \<le> fst (civil_from_days n)" "time_clip n = Some n"
  shows "parseYmdUtc (Some (formatYmdUtc (Some n))) = Some (Some n)"
proof -
  obtain y m d where c: "civil_from_days n = (y, m, d)" by (cases "civil_from_days n") auto
  have v: "civil_date (y, m, d)" using civil_date_of_days [of n] c by simp
  then have b: "1 \<le> m" "m \<le> 12" "1 \<le> d" by (simp_all add: civil_date_def)
  have "formatYmdUtc (Some n) = ymd_text (y, m, d)" by (simp add: formatYmdUtc_def ymd_text_def c)
  then have "parseYmdUtc (Some (formatYmdUtc (Some n))) = Some (time_clip (days_from_civil (civil_from_days n)))"
    using assms(1) b parse_ymd_text [of y m d] date_utc_civil [of y m d] by (simp add: c)
  then show ?thesis using assms(2) by simp
qed

text \<open>
  Printing and parsing dates are inverse: a valid day from the year 100 on is read back from its text, so
  different days have different texts.
\<close>

theorem ymd_roundtrip:
  assumes "100 \<le> fst (civil_from_days n)" "time_clip n = Some n"
  shows "parseYmdUtc (Some (formatYmdUtc (Some n))) = Some (Some n)"
  by (rule parse_printed_day [OF assms])

theorem ymd_roundtrip_witness:
  "parseYmdUtc (Some (formatYmdUtc (Some 19782))) = Some (Some 19782) \<and> civil_from_days 19782 = (2024, 2, 29)"
proof -
  have c: "civil_from_days 19782 = (2024, 2, 29)" by code_simp
  then show ?thesis using ymd_roundtrip [of 19782] by (simp add: time_clip_def)
qed

section \<open>Weeks and months\<close>

text \<open>A week starts on a Monday and holds the day.\<close>

lemma week_start:
  assumes "getWeekStartUtc (Some n) = Some s"
  shows "utc_day s = 1" "s \<le> n" "n \<le> s + 6"
proof -
  have s: "s = n - (utc_day n + 6) mod 7" using assms by (simp add: getWeekStartUtc_def time_clip_def split: if_splits)
  then show "s \<le> n" "n \<le> s + 6" using pos_mod_bound [of 7 "utc_day n + 6"] pos_mod_sign [of 7 "utc_day n + 6"] by linarith+
  show "utc_day s = 1" unfolding s utc_day_def by presburger
qed

definition four_digit_year :: "int \<Rightarrow> bool" where
  "four_digit_year n \<longleftrightarrow> 1000 \<le> fst (civil_from_days n) \<and> fst (civil_from_days n) \<le> 9999"

lemma ymd_inject:
  assumes "100 \<le> fst (civil_from_days a)" "100 \<le> fst (civil_from_days b)"
    "formatYmdUtc (Some a) = formatYmdUtc (Some b)"
  shows "a = b"
proof -
  obtain y m d y' m' d' where c: "civil_from_days a = (y, m, d)" "civil_from_days b = (y', m', d')" by (metis prod_cases3)
  have v: "0 \<le> m" "0 \<le> d" "0 \<le> m'" "0 \<le> d'" using civil_date_of_days [of a] civil_date_of_days [of b] c by (simp_all add: civil_date_def)
  have "ymd_text (y, m, d) = ymd_text (y', m', d')" using assms(3) by (simp add: formatYmdUtc_def ymd_text_def c)
  then have "[js_int y, two_digits m, two_digits d] = [js_int y', two_digits m', two_digits d']"
    using split_ymd_text [of y m d] split_ymd_text [of y' m' d'] v assms(1,2) c by simp
  then have "y = y'" "m = m'" "d = d'" using v by (simp_all add: two_digits_inject)
  then have "civil_from_days a = civil_from_days b" by (simp add: c)
  then show ?thesis by (metis days_from_civil_from_days)
qed

text \<open>The key of a month is the beginning of the text of its first day.\<close>

lemma month_start_civil:
  assumes "civil_from_days n = (y, m, d)" "100 \<le> y" "period_start Monthly n = Some s"
  shows "civil_from_days s = (y, m, 1)"
proof -
  have v: "1 \<le> m" "m \<le> 12" using civil_date_of_days [of n] assms(1) by (simp_all add: civil_date_def)
  have "s = days_from_civil (y, m, 1)"
    using assms date_utc_civil [OF assms(2) v, of 1] by (simp add: period_start_def time_clip_def split: if_splits)
  moreover have "civil_date (y, m, 1)" using v by (simp add: civil_date_def month_days_def)
  ultimately show ?thesis by (simp add: civil_from_days_from_civil)
qed

definition start_day :: "period_mode \<Rightarrow> int \<Rightarrow> int" where
  "start_day mode n = the (period_start mode n)"

text \<open>The days whose period has a start with a year of four digits.\<close>

definition plain_day :: "period_mode \<Rightarrow> int \<Rightarrow> bool" where
  "plain_day mode n \<longleftrightarrow> (case period_start mode n of Some s \<Rightarrow> four_digit_year s | None \<Rightarrow> False) \<and> 100 \<le> fst (civil_from_days n)"

lemma plain_dayD:
  assumes "plain_day mode n"
  shows "period_start mode n = Some (start_day mode n)" "four_digit_year (start_day mode n)"
  using assms by (auto simp: plain_day_def start_day_def split: option.splits)

lemma period_key_inject:
  assumes "plain_day mode a" "plain_day mode b"
  shows "period_key mode a = period_key mode b \<longleftrightarrow> start_day mode a = start_day mode b"
proof (cases mode)
  case Weekly
  then show ?thesis using ymd_inject [of "start_day Weekly a" "start_day Weekly b"] plain_dayD [OF assms(1)] plain_dayD [OF assms(2)]
    by (auto simp: period_key_def four_digit_year_def)
next
  case Monthly
  obtain y m d y' m' d' where c: "civil_from_days a = (y, m, d)" "civil_from_days b = (y', m', d')" by (metis prod_cases3)
  have v: "0 \<le> m" "0 \<le> m'" using civil_date_of_days [of a] civil_date_of_days [of b] c by (simp_all add: civil_date_def)
  have y: "100 \<le> y" "100 \<le> y'" using assms c by (simp_all add: plain_day_def)
  have s: "civil_from_days (start_day mode a) = (y, m, 1)" "civil_from_days (start_day mode b) = (y', m', 1)"
    using month_start_civil [OF c(1) y(1)] month_start_civil [OF c(2) y(2)] plain_dayD [OF assms(1)] plain_dayD [OF assms(2)] Monthly by auto
  have "period_key mode a = period_key mode b \<longleftrightarrow> y = y' \<and> m = m'"
  proof
    assume "period_key mode a = period_key mode b"
    then have "ymd_text (y, m, 1) = ymd_text (y', m', 1)"
      using Monthly c by (simp add: period_key_def ymd_text_def)
    then have "[js_int y, two_digits m, two_digits 1] = [js_int y', two_digits m', two_digits 1]"
      using split_ymd_text [of y m 1] split_ymd_text [of y' m' 1] v y by simp
    then show "y = y' \<and> m = m'" using v by (simp add: two_digits_inject)
  qed (use Monthly c in \<open>simp add: period_key_def\<close>)
  also have "\<dots> \<longleftrightarrow> start_day mode a = start_day mode b" using s by (metis days_from_civil_from_days prod.inject)
  finally show ?thesis .
qed

section \<open>Totals of periods\<close>

text \<open>The entries of one period.\<close>

definition of_period :: "period_mode \<Rightarrow> int \<Rightarrow> day_entry list \<Rightarrow> day_entry list" where
  "of_period mode s es = filter (\<lambda>e. \<exists>n. entry_day e = Some n \<and> start_day mode n = s) es"

definition plain_entries :: "period_mode \<Rightarrow> day_entry list \<Rightarrow> bool" where
  "plain_entries mode es \<longleftrightarrow> (\<forall>e \<in> set es. case parseYmdUtc (de_date e) of None \<Rightarrow> True | Some None \<Rightarrow> False | Some (Some n) \<Rightarrow> plain_day mode n)"

text \<open>What the source needs of \<open>localeCompare\<close>: dates with four-digit years are compared as dates.\<close>

definition compares_dates :: "insight_env \<Rightarrow> bool" where
  "compares_dates env \<longleftrightarrow> (\<forall>a b. four_digit_year a \<longrightarrow> four_digit_year b \<longrightarrow>
     (ie_compare env (formatYmdUtc (Some a)) (formatYmdUtc (Some b)) \<le> 0 \<longleftrightarrow> a \<le> b))"

definition period_total :: "int \<Rightarrow> day_entry list \<Rightarrow> period \<Rightarrow> bool" where
  "period_total s es p \<longleftrightarrow> pd_start p = formatYmdUtc (Some s) \<and> pd_trips p = (\<Sum>e \<leftarrow> es. toNumber 0 (de_count e)) \<and>
     pd_distance p = (\<Sum>e \<leftarrow> es. toNumber 0 (de_distance e)) \<and> pd_activeDays p = length (filter (\<lambda>e. 0 < toNumber 0 (de_count e)) es)"

lemma period_total_add: "period_total s xs p \<Longrightarrow> period_total s (xs @ [e]) (add_to_period e p)"
  by (auto simp: period_total_def add_to_period_def)

lemma period_fold:
  assumes "period_total s xs p"
  shows "period_total s (xs @ ys) (foldl (\<lambda>p e. add_to_period e p) p ys)"
  using assms
proof (induction ys arbitrary: xs p)
  case (Cons y ys)
  then show ?case using Cons.IH [OF period_total_add [OF Cons.prems, of y]] by simp
qed simp

lemma plain_entry_day: "plain_entries mode es \<Longrightarrow> e \<in> set es \<Longrightarrow> entry_day e = Some n \<Longrightarrow> plain_day mode n"
  by (force simp: plain_entries_def entry_day_def split: option.splits)

lemma start_day_valid: "plain_day mode n \<Longrightarrow> time_clip (start_day mode n) = Some (start_day mode n)"
  using plain_dayD(1) [of mode n]
  by (cases mode) (auto simp: period_start_def getWeekStartUtc_def date_utc_def time_clip_def Let_def split: if_splits prod.splits)

text \<open>The day a bucket starts on.\<close>

definition bucket_day :: "period \<Rightarrow> int" where
  "bucket_day p = the (the (parseYmdUtc (Some (pd_start p))))"

lemma bucket_day_eq:
  assumes "plain_day mode n" "period_total (start_day mode n) es p"
  shows "bucket_day p = start_day mode n"
  using assms(2) plain_dayD(2) [OF assms(1)] start_day_valid [OF assms(1)] parse_printed_day
  by (simp add: bucket_day_def period_total_def four_digit_year_def)

lemma period_bucket:
  assumes "plain_entries mode es" "(k, p) \<in> set (period_buckets env mode es)"
  obtains n where "plain_day mode n" "k = period_key mode n" "bucket_day p = start_day mode n"
    "of_period mode (bucket_day p) es \<noteq> []" "period_total (bucket_day p) (of_period mode (bucket_day p) es) p"
proof -
  let ?key = "\<lambda>e. map_option (period_key mode) (entry_day e)"
  define ys where "ys = filter (\<lambda>e. ?key e = Some k) es"
  have "map_of (period_buckets env mode es) k = Some p"
    using assms(2) by (simp add: period_buckets_def)
  then have g: "group_entry (new_period env mode) add_to_period ys = Some p"
    by (simp add: period_buckets_def group_fold_lookup ys_def)
  then obtain y zs where y: "ys = y # zs" by (cases ys) (simp_all add: group_entry_def)
  then have "y \<in> set ys" by simp
  then have "y \<in> set es" "?key y = Some k" by (simp_all add: ys_def)
  then obtain n where n: "entry_day y = Some n" "k = period_key mode n" by auto
  have pn: "plain_day mode n" using plain_entry_day [OF assms(1) \<open>y \<in> set es\<close> n(1)] .
  have "?key e = Some k \<longleftrightarrow> (\<exists>m. entry_day e = Some m \<and> start_day mode m = start_day mode n)" if "e \<in> set es" for e
    using plain_entry_day [OF assms(1) that] period_key_inject [OF _ pn] n(2) by auto
  then have ys: "ys = of_period mode (start_day mode n) es" unfolding ys_def of_period_def by (rule filter_cong [OF refl])
  have "period_total (start_day mode n) [] (new_period env mode y)"
    using plain_dayD(1) [OF pn] by (simp add: period_total_def new_period_def n(1))
  from period_fold [OF this, of ys] have "period_total (start_day mode n) ys p"
    using g y by (simp add: group_entry_def)
  moreover have "ys \<noteq> []" by (simp add: y)
  ultimately show thesis using that [OF pn n(2)] bucket_day_eq [OF pn] ys by simp
qed

lemma bucket_facts:
  assumes "plain_entries mode es" "p \<in> snd ` set (period_buckets env mode es)"
  shows "four_digit_year (bucket_day p)" "period_total (bucket_day p) (of_period mode (bucket_day p) es) p"
    "of_period mode (bucket_day p) es \<noteq> []"
proof -
  obtain k where "(k, p) \<in> set (period_buckets env mode es)" using assms(2) by auto
  from period_bucket [OF assms(1) this] plain_dayD(2)
  show "four_digit_year (bucket_day p)" "period_total (bucket_day p) (of_period mode (bucket_day p) es) p"
    "of_period mode (bucket_day p) es \<noteq> []" by metis+
qed

lemma buckets_complete:
  assumes "plain_entries mode es" "e \<in> set es" "entry_day e = Some n"
  shows "\<exists>p \<in> snd ` set (period_buckets env mode es). bucket_day p = start_day mode n"
proof -
  have "period_key mode n \<in> fst ` set (period_buckets env mode es)"
    using assms(2,3) by (auto simp: period_buckets_def group_fold_keys)
  then obtain p where p: "(period_key mode n, p) \<in> set (period_buckets env mode es)" by auto
  then obtain n' where n': "plain_day mode n'" "period_key mode n = period_key mode n'" "bucket_day p = start_day mode n'"
    using period_bucket [OF assms(1) p] by metis
  have "start_day mode n = start_day mode n'"
    using period_key_inject [OF plain_entry_day [OF assms] n'(1)] n'(2) by simp
  then show ?thesis using p n'(3) by force
qed

lemma buckets_distinct:
  assumes "plain_entries mode es"
  shows "distinct (map bucket_day (map snd (period_buckets env mode es)))"
proof -
  let ?al = "period_buckets env mode es"
  have d: "distinct (map fst ?al)" by (simp add: period_buckets_def)
  have "inj_on (\<lambda>kp. bucket_day (snd kp)) (set ?al)"
  proof (rule inj_onI)
    fix a b assume ab: "a \<in> set ?al" "b \<in> set ?al" and e: "bucket_day (snd a) = bucket_day (snd b)"
    obtain k p k' p' where kp: "a = (k, p)" "b = (k', p')" by fastforce
    obtain x y where "plain_day mode x" "k = period_key mode x" "bucket_day p = start_day mode x"
        "plain_day mode y" "k' = period_key mode y" "bucket_day p' = start_day mode y"
      using period_bucket [OF assms] ab kp by metis
    then have "k = k'" using period_key_inject e kp by simp
    then show "a = b" using d ab kp eq_key_imp_eq_value by fastforce
  qed
  then show ?thesis using d by (simp add: distinct_map comp_def)
qed

lemma sum_of_periods:
  fixes f :: "day_entry \<Rightarrow> real"
  assumes "distinct ss" "\<forall>e \<in> set es. \<forall>n. entry_day e = Some n \<longrightarrow> start_day mode n \<in> set ss"
  shows "(\<Sum>s \<leftarrow> ss. \<Sum>e \<leftarrow> of_period mode s es. f e) = (\<Sum>e \<leftarrow> filter (\<lambda>e. entry_day e \<noteq> None) es. f e)"
  using assms(2)
proof (induction es)
  case Nil
  then show ?case by (simp add: of_period_def)
next
  case (Cons e es)
  have "(\<Sum>s \<leftarrow> ss. \<Sum>x \<leftarrow> of_period mode s (e # es). f x) =
      (\<Sum>s \<leftarrow> ss. (if \<exists>n. entry_day e = Some n \<and> start_day mode n = s then f e else 0) + (\<Sum>x \<leftarrow> of_period mode s es. f x))"
    by (rule arg_cong [where f = sum_list], rule map_cong [OF refl]) (auto simp: of_period_def)
  also have "\<dots> = (\<Sum>s \<leftarrow> ss. if \<exists>n. entry_day e = Some n \<and> start_day mode n = s then f e else 0) + (\<Sum>s \<leftarrow> ss. \<Sum>x \<leftarrow> of_period mode s es. f x)"
    by (rule sum_list_addf)
  also have "(\<Sum>s \<leftarrow> ss. if \<exists>n. entry_day e = Some n \<and> start_day mode n = s then f e else 0) = (if entry_day e \<noteq> None then f e else 0)"
    using Cons.prems assms(1) by (cases "entry_day e") (auto simp: sum_list_distinct_conv_sum_set)
  finally show ?case using Cons by simp
qed

lemma summarise_fields [simp]:
  "pd_start (summarise p) = pd_start p" "pd_trips (summarise p) = pd_trips p" "pd_distance (summarise p) = fixed 2 (pd_distance p)"
  "pd_activeDays (summarise p) = pd_activeDays p"
  by (simp_all add: summarise_def period.defs)

text \<open>
  C32. Weekly and monthly totals are exact. For entries whose dates are plain days the periods come in strictly
  increasing order of their first day, there is one for exactly those weeks or months that have an entry, and
  each one counts the trips, the days with trips and the (rounded) distance of the entries of that period; all
  trips are counted once. A week starts on a Monday not more than six days before its entries.
\<close>

theorem periods_exact:
  assumes "plain_entries mode es" "compares_dates env"
  shows "\<exists>ps ss. aggregatePeriods env es mode = Some ps \<and> map pd_start ps = map (\<lambda>s. formatYmdUtc (Some s)) ss \<and>
    sorted_wrt (<) ss \<and> set ss = {s. of_period mode s es \<noteq> []} \<and>
    (\<forall>i < length ss. let es' = of_period mode (ss ! i) es in
       pd_trips (ps ! i) = (\<Sum>e \<leftarrow> es'. toNumber 0 (de_count e)) \<and>
       pd_distance (ps ! i) = fixed 2 (\<Sum>e \<leftarrow> es'. toNumber 0 (de_distance e)) \<and>
       pd_activeDays (ps ! i) = length (filter (\<lambda>e. 0 < toNumber 0 (de_count e)) es')) \<and>
    (\<Sum>p \<leftarrow> ps. pd_trips p) = (\<Sum>e \<leftarrow> filter (\<lambda>e. entry_day e \<noteq> None) es. toNumber 0 (de_count e)) \<and>
    (mode = Weekly \<longrightarrow> (\<forall>e \<in> set es. \<forall>n. entry_day e = Some n \<longrightarrow>
       (\<exists>s \<in> set ss. utc_day s = 1 \<and> s \<le> n \<and> n \<le> s + 6)))"
proof -
  define bs where "bs = js_sort (start_le env) (map snd (period_buckets env mode es))"
  define ss where "ss = map bucket_day bs"
  define ps where "ps = map summarise bs"
  have inb: "p \<in> snd ` set (period_buckets env mode es)" if "p \<in> set bs" for p using that by (auto simp: bs_def)
  note facts = bucket_facts [OF assms(1) inb]
  have nothrow: "\<not> list_ex (\<lambda>e. label_throws mode (parseYmdUtc (de_date e))) es"
    using assms(1) by (force simp: list_ex_iff plain_entries_def label_throws_def plain_day_def split: option.splits)
  have agg: "aggregatePeriods env es mode = Some ps" using nothrow by (simp add: aggregatePeriods_def ps_def bs_def)
  have starts: "map pd_start ps = map (\<lambda>s. formatYmdUtc (Some s)) ss"
    using facts(2) by (simp add: ps_def ss_def period_total_def)
  have le: "start_le env a b \<longleftrightarrow> bucket_day a \<le> bucket_day b" if "a \<in> set bs" "b \<in> set bs" for a b
    using facts(1,2) [OF that(1)] facts(1,2) [OF that(2)] assms(2) by (simp add: start_le_def period_total_def compares_dates_def)
  have "sorted_wrt (\<lambda>a b. bucket_day a \<le> bucket_day b) bs"
    unfolding bs_def using le by (intro sorted_wrt_js_sort) (auto simp: transp_def bs_def)
  then have "sorted ss" by (simp add: ss_def sorted_map)
  moreover have "mset ss = mset (map bucket_day (map snd (period_buckets env mode es)))" by (simp only: ss_def bs_def mset_map mset_js_sort)
  then have dist: "distinct ss" using buckets_distinct [OF assms(1)] by (metis mset_eq_imp_distinct_iff)
  ultimately have strict: "sorted_wrt (<) ss" by (simp add: strict_sorted_iff)
  have all: "start_day mode n \<in> set ss" if "e \<in> set es" "entry_day e = Some n" for e n
    using buckets_complete [OF assms(1) that, of env] by (force simp: ss_def bs_def)
  have set: "set ss = {s. of_period mode s es \<noteq> []}"
  proof
    show "set ss \<subseteq> {s. of_period mode s es \<noteq> []}" using facts(3) by (auto simp: ss_def)
    show "{s. of_period mode s es \<noteq> []} \<subseteq> set ss" using all by (auto simp: of_period_def filter_empty_conv)
  qed
  have tot: "period_total (ss ! i) (of_period mode (ss ! i) es) (bs ! i)" if "i < length ss" for i
    using facts(2) [of "bs ! i"] that by (simp add: ss_def)
  have vals: "\<forall>i < length ss. let es' = of_period mode (ss ! i) es in
       pd_trips (ps ! i) = (\<Sum>e \<leftarrow> es'. toNumber 0 (de_count e)) \<and>
       pd_distance (ps ! i) = fixed 2 (\<Sum>e \<leftarrow> es'. toNumber 0 (de_distance e)) \<and>
       pd_activeDays (ps ! i) = length (filter (\<lambda>e. 0 < toNumber 0 (de_count e)) es')"
    using tot by (auto simp: ps_def ss_def period_total_def Let_def)
  have "map pd_trips ps = map (\<lambda>s. \<Sum>e \<leftarrow> of_period mode s es. toNumber 0 (de_count e)) ss"
    using facts(2) by (simp add: ps_def ss_def period_total_def)
  then have sum: "(\<Sum>p \<leftarrow> ps. pd_trips p) = (\<Sum>e \<leftarrow> filter (\<lambda>e. entry_day e \<noteq> None) es. toNumber 0 (de_count e))"
    using sum_of_periods [OF dist, of es mode "\<lambda>e. toNumber 0 (de_count e)"] all by simp
  have weeks: "\<exists>s \<in> set ss. utc_day s = 1 \<and> s \<le> n \<and> n \<le> s + 6"
    if "mode = Weekly" "e \<in> set es" "entry_day e = Some n" for e n
  proof -
    have "getWeekStartUtc (Some n) = Some (start_day Weekly n)"
      using plain_dayD(1) [OF plain_entry_day [OF assms(1) that(2,3)]] that(1) by (simp add: period_start_def)
    from week_start [OF this] show ?thesis using all [OF that(2,3)] that(1) by blast
  qed
  show ?thesis using agg starts strict set vals sum weeks by blast
qed

lemma four_digit_clip:
  assumes "four_digit_year n"
  shows "time_clip n = Some n"
proof -
  obtain y m d where c: "civil_from_days n = (y, m, d)" by (cases "civil_from_days n") auto
  define y' k where "y' = (if m \<le> 2 then y - 1 else y)" and "k = (if m \<le> 2 then m + 9 else m - 3)"
  have v: "1 \<le> m" "m \<le> 12" "1 \<le> d" "d \<le> 31"
    using civil_date_of_days [of n] c by (auto simp: civil_date_def month_days_def split: if_splits)
  have y: "999 \<le> y'" "y' \<le> 9999" "0 \<le> k" "k \<le> 11" using assms c v by (auto simp: four_digit_year_def y'_def k_def)
  have "n = march_year_start y' + march_month_start k + d - 719469"
    using days_from_civil_from_days [of n] by (simp add: c days_from_civil_def y'_def k_def)
  moreover have "0 \<le> march_year_start y'" "march_year_start y' \<le> 4000000" using y unfolding march_year_start_def by linarith+
  moreover have "0 \<le> march_month_start k" "march_month_start k \<le> 400" using y unfolding march_month_start_def by linarith+
  ultimately show ?thesis using v by (simp add: time_clip_def)
qed

definition sample_insights :: insight_env where
  "sample_insights = \<lparr>month_day_text = (\<lambda>_. []), month_year_text = (\<lambda>_ _. []), num_text = (\<lambda>_. []),
     ie_compare = (\<lambda>a b. the (the (parseYmdUtc (Some a))) - the (the (parseYmdUtc (Some b))))\<rparr>"

lemma sample_compares: "compares_dates sample_insights"
  using parse_printed_day four_digit_clip by (auto simp: compares_dates_def sample_insights_def four_digit_year_def)

definition sample_days :: "day_entry list" where
  "sample_days = [\<lparr>de_date = Some ''2024-02-29'', de_distance = Fin 5, de_count = Fin 2\<rparr>,
     \<lparr>de_date = None, de_distance = Fin 1, de_count = Fin 1\<rparr>,
     \<lparr>de_date = Some ''2024-02-26'', de_distance = Fin 3, de_count = Fin 1\<rparr>]"

lemma sample_plain: "plain_entries Weekly sample_days"
proof -
  have "parseYmdUtc (Some ''2024-02-29'') = Some (Some 19782)" "parseYmdUtc (Some ''2024-02-26'') = Some (Some 19779)" by code_simp+
  moreover have "plain_day Weekly 19782" "plain_day Weekly 19779" by code_simp+
  moreover have "parseYmdUtc None = None" by (simp add: parseYmdUtc_def)
  ultimately show ?thesis by (simp add: plain_entries_def sample_days_def)
qed

theorem periods_exact_witness:
  "plain_entries Weekly sample_days \<and> (\<exists>ps. aggregatePeriods sample_insights sample_days Weekly = Some ps \<and>
     (\<Sum>p \<leftarrow> ps. pd_trips p) = (\<Sum>e \<leftarrow> filter (\<lambda>e. entry_day e \<noteq> None) sample_days. toNumber 0 (de_count e)))"
  using periods_exact [OF sample_plain sample_compares] sample_plain by blast

section \<open>Regularity of driving\<close>

lemma count_days:
  "foldl (count_day m) (k, t, d) ns =
     (let act = filter (\<lambda>n. 0 < fst (day_values m n)) ns
      in (k + length act, t + (\<Sum>n \<leftarrow> act. fst (day_values m n)), d + (\<Sum>n \<leftarrow> act. snd (day_values m n))))"
  by (induction ns arbitrary: k t d) (auto simp: count_day_def Let_def split: prod.splits)

text \<open>A driving day: the last entry of its date counts trips.\<close>

definition driving_day :: "insight_env \<Rightarrow> day_entry list \<Rightarrow> int \<Rightarrow> bool" where
  "driving_day env es n \<longleftrightarrow> 0 < fst (day_values (by_date (normalized_days env es)) n)"

text \<open>
  The regularity counts days: for a valid requested range the active days are the driving days between
  its first and last day, active and quiet days add up to the days of the range, the ratio is a percentage
  between 0 and 100 (within the rounding to one decimal of the exact one), and without driving days all averages are 0.
\<close>

theorem consistency_counts_days:
  fixes env :: insight_env and es :: "day_entry list"
  assumes "parseYmdUtc s = Some (Some a)" "parseYmdUtc e = Some (Some b)" "a \<le> b"
  defines "c \<equiv> computeConsistencyStats env es s e"
  shows "cs_activeDays c = card {n \<in> {a..b}. driving_day env es n} \<and> cs_spanDays c = Fin (of_int (b - a + 1)) \<and>
    (\<exists>q \<ge> 0. cs_quietDays c = Fin q \<and> real (cs_activeDays c) + q = of_int (b - a + 1)) \<and>
    0 \<le> cs_ratio c \<and> cs_ratio c \<le> 100 \<and> \<bar>cs_ratio c - real (cs_activeDays c) / of_int (b - a + 1) * 100\<bar> \<le> 1 / 20 \<and>
    (cs_activeDays c = 0 \<longrightarrow> cs_tripsPerDay c = 0 \<and> cs_distancePerDay c = 0)"
proof -
  define m where "m = by_date (normalized_days env es)"
  define act where "act = filter (\<lambda>n. 0 < fst (day_values m n)) [a..b]"
  have r: "date_range env es s e = (Some (Some a), Some (Some b))"
    using assms(1-3) by (simp add: date_range_def Let_def)
  have c: "c = consistency_of (length act) (Fin (of_int (b - a + 1))) (js_max 0 (Fin (of_int (b - a + 1) - real (length act))))
      (pct_of (real (length act)) (of_int (b - a + 1))) (\<Sum>n \<leftarrow> act. fst (day_values m n)) (\<Sum>n \<leftarrow> act. snd (day_values m n))"
    by (simp add: c_def computeConsistencyStats_def r count_days m_def act_def Let_def)
  have "length act \<le> length [a..b]" unfolding act_def by (rule length_filter_le)
  then have le: "real (length act) \<le> of_int (b - a + 1)" using assms(3) by simp
  have pos: "0 < real_of_int (b - a + 1)" using assms(3) by simp
  have "distinct act" by (simp add: act_def)
  then have "length act = card (set act)" by (simp only: distinct_card)
  also have "set act = {n \<in> {a..b}. driving_day env es n}" by (auto simp: act_def driving_day_def m_def)
  finally have card: "length act = card {n \<in> {a..b}. driving_day env es n}" .
  have pct: "pct_of (real (length act)) (of_int (b - a + 1)) = real (length act) / of_int (b - a + 1) * 100" (is "?p = _")
    using pos by (simp add: pct_of_def)
  have "0 \<le> ?p" "?p \<le> real 100" unfolding pct using le pos by (simp_all add: divide_le_eq)
  then have "0 \<le> fixed 1 ?p" "fixed 1 ?p \<le> 100" using fixed_nonneg fixed_mono_bound [of ?p 100 1] by simp_all
  moreover have "\<bar>fixed 1 ?p - ?p\<bar> \<le> 1 / 20" using fixed_error [of 1 ?p] by simp
  moreover have "cs_quietDays c = Fin (of_int (b - a + 1) - real (length act))" using le by (simp add: c consistency_of_def)
  moreover have "fixed 2 0 = 0" by (simp add: fixed_def)
  moreover have "cs_ratio c = fixed 1 ?p" "cs_activeDays c = length act" "cs_spanDays c = Fin (of_int (b - a + 1))"
      "length act = 0 \<longrightarrow> cs_tripsPerDay c = fixed 2 0 \<and> cs_distancePerDay c = fixed 2 0"
    unfolding c consistency_of_def by simp_all
  ultimately show ?thesis using le card unfolding pct by simp
qed

theorem consistency_counts_days_witness:
  "cs_spanDays (computeConsistencyStats sample_insights sample_days (Some ''2024-02-26'') (Some ''2024-02-29'')) = Fin 4"
proof -
  have "parseYmdUtc (Some ''2024-02-26'') = Some (Some 19779)" "parseYmdUtc (Some ''2024-02-29'') = Some (Some 19782)" by code_simp+
  from consistency_counts_days [OF this, of sample_insights sample_days] show ?thesis by simp
qed

text \<open>The change of a period against the one before it.\<close>

lemma period_deltas:
  assumes "i < length ps"
  shows "tripsDelta (computePeriodDeltas env ps ! i) = (if i = 0 then None else Some (pd_trips (ps ! i) - pd_trips (ps ! (i - 1))))"
    "pd_trips (computePeriodDeltas env ps ! i) = pd_trips (ps ! i)"
    "distanceDeltaPct (computePeriodDeltas env ps ! i) \<noteq> None \<longleftrightarrow> 0 < i \<and> 0 < pd_distance (ps ! (i - 1))"
  using assms by (auto simp: computePeriodDeltas_def period_change_def Let_def summed_period.defs)

end
