(* ===== verification/InsightStats.thy ===== *)
theory InsightStats
  imports InsightPeriods GeoMath
begin

text \<open>
  The statistics of the insights page, second part of \<open>static/js/modules/insights/derived-insights.js\<close>: the
  hours and weekdays of trips (\<open>computeTimeSignature\<close>), the spread of destinations
  (\<open>computeExplorationStats\<close>), fuel (\<open>computeFuelLens\<close>), the cards of the page and the snapshot that puts
  everything together.

  \<^item> A key of an array that is no index (an hour of 7.5) becomes a property that the later loops do not see.
  \<^item> Shown: the four parts of the day partition the hours, the peak and quiet hours are the first largest and
    smallest ones, the weighted hour is an hour, and the exploration score is a percentage, where the entropy
    never exceeds that of equal shares.
\<close>

section \<open>Hours and weekdays\<close>

record hour_count =
  hc_slot :: jsnum
  hc_count :: jsnum

definition add_slot :: "nat \<Rightarrow> real list \<Rightarrow> hour_count \<Rightarrow> real list" where
  "add_slot n slots e =
     (let hour = toNumber (- 1) (hc_slot e)
      in if 0 \<le> hour \<and> hour \<le> real (n - 1) \<and> hour = of_int \<lfloor>hour\<rfloor>
         then slots[nat \<lfloor>hour\<rfloor> := slots ! nat \<lfloor>hour\<rfloor> + toNumber 0 (hc_count e)] else slots)"

definition fill_slots :: "nat \<Rightarrow> hour_count list \<Rightarrow> real list" where
  "fill_slots n es = foldl (add_slot n) (replicate n 0) es"

text \<open>\<open>reduce\<close> with a strict comparison, from slot 0 with the given count (\<open>None\<close> is \<open>Infinity\<close>).\<close>

definition peak_slot :: "real list \<Rightarrow> nat \<times> real" where
  "peak_slot xs = foldl (\<lambda>best i. if xs ! i > snd best then (i, xs ! i) else best) (0, -1) [0..<length xs]"

definition quiet_slot :: "real list \<Rightarrow> nat \<times> real option" where
  "quiet_slot xs = foldl (\<lambda>best i. case snd best of
      None \<Rightarrow> (i, Some (xs ! i)) | Some c \<Rightarrow> if xs ! i < c then (i, Some (xs ! i)) else best) (0, None) [0..<length xs]"

definition hour_vector :: "real list \<Rightarrow> real \<times> real" where
  "hour_vector hourly = foldl (\<lambda>(x, y) i. let angle = real i / 24 * pi * 2
     in (x + cos angle * hourly ! i, y + sin angle * hourly ! i)) (0, 0) [0..<length hourly]"

definition weightedHourRaw :: "real list \<Rightarrow> real \<Rightarrow> real option" where
  "weightedHourRaw hourly totalTrips =
     (if totalTrips > 0 then
        let (x, y) = hour_vector hourly; strength = sqrt (x\<^sup>2 + y\<^sup>2) / totalTrips
        in if strength > 1 / 10 ^ 12 then
             let angle = atan2_real y x; h = js_rem (js_rem (angle / (pi * 2) * 24 + 24) 24 + 24) 24
             in Some (if h > 23999999 / 1000000 then 0 else h)
           else None
      else None)"

definition slice :: "nat \<Rightarrow> nat \<Rightarrow> real list \<Rightarrow> real list" where
  "slice a b xs = take (b - a) (drop a xs)"

definition dayparts :: "real list \<Rightarrow> (string \<times> real) list" where
  "dayparts hourly =
     [(''dawn'', sum_list (slice 5 9 hourly)), (''daytime'', sum_list (slice 9 17 hourly)),
      (''evening'', sum_list (slice 17 22 hourly) + sum_list (slice 0 1 hourly)),
      (''lateNight'', sum_list (slice 22 24 hourly) + hourly ! 1 + hourly ! 2 + hourly ! 3 + hourly ! 4)]"

definition dominantDaypart :: "real list \<Rightarrow> string" where
  "dominantDaypart hourly =
     fst (foldl (\<lambda>best c. if snd c > snd best then c else best) (''dawn'', 0) (dayparts hourly))"

definition daypart_labels :: "(string \<times> string) list" where
  "daypart_labels = [(''dawn'', ''Early morning''), (''daytime'', ''Daytime''), (''evening'', ''Evening''), (''lateNight'', ''Late night'')]"

definition dayNames :: "string list" where
  "dayNames = [''Sunday'', ''Monday'', ''Tuesday'', ''Wednesday'', ''Thursday'', ''Friday'', ''Saturday'']"

definition formatHourAmPm :: "real option \<Rightarrow> string" where
  "formatHourAmPm h =
     (case h of None \<Rightarrow> ''--''
      | Some x \<Rightarrow>
          let hour = \<lfloor>x + 1 / 2\<rfloor> mod 24; shown = (if hour mod 12 = 0 then 12 else hour mod 12)
          in js_int shown @ (if hour \<ge> 12 then '' PM'' else '' AM''))"

record time_signature =
  ts_hourly :: "real list"
  ts_weekday :: "real list"
  ts_totalTrips :: real
  ts_peakHour :: nat
  ts_quietHour :: nat
  ts_peakHourCount :: real
  ts_quietHourCount :: real
  ts_weightedHour :: "real option"
  ts_concentration :: real
  ts_daypart :: string
  ts_daypartLabel :: "string option"
  ts_peakDay :: nat
  ts_peakDayLabel :: string
  ts_peakDayCount :: real
  ts_quietDay :: nat
  ts_quietDayLabel :: string
  ts_quietDayCount :: real
  ts_weightedHourLabel :: string

definition concentration :: "real list \<Rightarrow> real \<Rightarrow> real" where
  "concentration hourly totalTrips =
     (if totalTrips > 0 then sum_list (take 3 (js_sort (\<lambda>a b. b - a \<le> 0) hourly)) / totalTrips else 0)"

definition computeTimeSignature :: "hour_count list \<Rightarrow> hour_count list \<Rightarrow> time_signature" where
  "computeTimeSignature timeDistribution weekdayDistribution =
     (let hourly = fill_slots 24 timeDistribution; weekday = fill_slots 7 weekdayDistribution;
          total = sum_list hourly; ph = peak_slot hourly; qh = quiet_slot hourly;
          pd = peak_slot weekday; qd = quiet_slot weekday; raw = weightedHourRaw hourly total; part = dominantDaypart hourly
      in \<lparr>ts_hourly = hourly, ts_weekday = weekday, ts_totalTrips = total, ts_peakHour = fst ph, ts_quietHour = fst qh,
          ts_peakHourCount = max 0 (snd ph), ts_quietHourCount = (case snd qh of Some c \<Rightarrow> c | None \<Rightarrow> 0),
          ts_weightedHour = map_option (fixed 1) raw, ts_concentration = fixed 1 (concentration hourly total * 100),
          ts_daypart = part, ts_daypartLabel = map_of daypart_labels part,
          ts_peakDay = fst pd, ts_peakDayLabel = dayNames ! fst pd, ts_peakDayCount = max 0 (snd pd),
          ts_quietDay = fst qd, ts_quietDayLabel = dayNames ! fst qd,
          ts_quietDayCount = (case snd qd of Some c \<Rightarrow> c | None \<Rightarrow> 0), ts_weightedHourLabel = formatHourAmPm raw\<rparr>)"

section \<open>Destinations\<close>

record destination =
  ds_location :: "string option"
  ds_visits :: jsnum
  ds_distance :: jsnum
  ds_duration :: jsnum
  ds_lastVisit :: "string option"

record place =
  pl_location :: string
  pl_visits :: real
  pl_distance :: real
  pl_duration :: real
  pl_lastVisit :: "string option"

definition clamp_real :: "real \<Rightarrow> real \<Rightarrow> real \<Rightarrow> real" where
  "clamp_real v lo hi = min (max v lo) hi"

definition nonempty_text :: "string option \<Rightarrow> string option" where
  "nonempty_text t = (if t = Some [] then None else t)"

definition normalize_destination :: "destination \<Rightarrow> place" where
  "normalize_destination d =
     \<lparr>pl_location = (case nonempty_text (ds_location d) of Some l \<Rightarrow> l | None \<Rightarrow> ''Unknown place''),
      pl_visits = clamp_real (toNumber 0 (ds_visits d)) 0 9007199254740991,
      pl_distance = toNumber 0 (ds_distance d), pl_duration = toNumber 0 (ds_duration d),
      pl_lastVisit = nonempty_text (ds_lastVisit d)\<rparr>"

record exploration =
  ex_destinations :: "place list"
  ex_visits :: real
  ex_topShare :: real
  ex_top3Share :: real
  ex_score :: real
  ex_routine :: real
  ex_label :: string
  ex_unique :: nat
  ex_mostVisited :: "place option"

definition entropy_of :: "real list \<Rightarrow> real" where
  "entropy_of shares = foldl (\<lambda>acc share. if share \<le> 0 then acc else acc - share * ln share) 0 shares"

definition raw_exploration :: "real list \<Rightarrow> real" where
  "raw_exploration shares =
     clamp_real (entropy_of shares / (if length shares > 1 then ln (real (length shares)) else 1) * 100) 0 100"

definition visit_shares :: "place list \<Rightarrow> real \<Rightarrow> real list" where
  "visit_shares places trips =
     (let visits = sum_list (map pl_visits places); denominator = (if visits = 0 then trips else visits)
      in if denominator > 0 then map (\<lambda>p. pl_visits p / denominator) places else map (\<lambda>_. 0) places)"

definition exploration_label :: "real \<Rightarrow> string" where
  "exploration_label score =
     (if score \<ge> 68 then ''Distributed destinations'' else if score < 35 then ''Concentrated destinations''
      else ''Mixed destination spread'')"

definition computeExplorationStats :: "destination list option \<Rightarrow> real \<Rightarrow> exploration" where
  "computeExplorationStats topDestinations trips =
     (let places = js_sort (\<lambda>a b. pl_visits b - pl_visits a \<le> 0)
            (map normalize_destination (case topDestinations of None \<Rightarrow> [] | Some ds \<Rightarrow> ds))
      in if places = [] then
           \<lparr>ex_destinations = [], ex_visits = 0, ex_topShare = 0, ex_top3Share = 0, ex_score = 0, ex_routine = 0,
            ex_label = ''No destination data'', ex_unique = 0, ex_mostVisited = None\<rparr>
         else
           let visits = sum_list (map pl_visits places); score = raw_exploration (visit_shares places trips);
               top3 = sum_list (map pl_visits (take 3 places));
               share = (\<lambda>v. if trips > 0 then v / trips else v / max 1 visits)
           in \<lparr>ex_destinations = places, ex_visits = visits, ex_topShare = fixed 1 (share (pl_visits (hd places)) * 100),
               ex_top3Share = fixed 1 (share top3 * 100), ex_score = fixed 1 score, ex_routine = fixed 1 (100 - score),
               ex_label = exploration_label score, ex_unique = length places, ex_mostVisited = Some (hd places)\<rparr>)"

section \<open>Fuel\<close>

record fuel_lens =
  fl_fuel :: real
  fl_distance :: real
  fl_trips :: real
  fl_mpg :: "real option"
  fl_fuelPerTrip :: real
  fl_distancePerTrip :: real
  fl_note :: string

definition computeFuelLens :: "jsnum \<Rightarrow> jsnum \<Rightarrow> jsnum \<Rightarrow> fuel_lens" where
  "computeFuelLens totalFuel totalDistance totalTrips =
     (let fuel = toNumber 0 totalFuel; distance = toNumber 0 totalDistance; trips = toNumber 0 totalTrips;
          mpg = (if fuel > 0 then Some (distance / fuel) else None)
      in \<lparr>fl_fuel = fixed 2 fuel, fl_distance = fixed 2 distance, fl_trips = trips, fl_mpg = map_option (fixed 1) mpg,
          fl_fuelPerTrip = fixed 2 (if trips > 0 then fuel / trips else 0),
          fl_distancePerTrip = fixed 2 (if trips > 0 then distance / trips else 0),
          fl_note = (case mpg of
             Some q \<Rightarrow> ''Computed as '' @ fixed_text 1 distance @ '' mi / '' @ fixed_text 2 fuel @ '' gal = '' @ fixed_text 1 q @ '' MPG.''
           | None \<Rightarrow> if distance > 0 then ''Distance exists, but fuel entries are missing so MPG cannot be computed.''
                     else ''Fuel ratio unavailable: not enough trip or fuel data in this range.'')\<rparr>)"

section \<open>Cards and snapshot\<close>

datatype card_action = TimePeriod string real | PlaceAction | Drilldown string

record pattern_card =
  pc_id :: string
  pc_icon :: string
  pc_tone :: string
  pc_title :: string
  pc_value :: string
  pc_detail :: string
  pc_action :: "card_action option"

definition buildPatternCards :: "insight_env \<Rightarrow> time_signature \<Rightarrow> exploration \<Rightarrow> fuel_lens \<Rightarrow> pattern_card list" where
  "buildPatternCards env ts ex fl =
     (let hasTimeData = ts_totalTrips ts > 0
      in [\<lparr>pc_id = ''signature'', pc_icon = ''fa-clock'', pc_tone = ''sky'', pc_title = ''Weighted start hour'',
           pc_value = (if hasTimeData then ts_weightedHourLabel ts else ''--''),
           pc_detail = (if hasTimeData then ''Peak: '' @ formatHourAmPm (Some (real (ts_peakHour ts))) @ '' ('' @ num_text env (ts_peakHourCount ts) @ '' trips)''
              else ''No trip start-time data in this range.''),
           pc_action = (if hasTimeData then Some (TimePeriod ''hour'' (clamp_real (real (ts_peakHour ts)) 0 23)) else None)\<rparr>,
          \<lparr>pc_id = ''exploration'', pc_icon = ''fa-compass'', pc_tone = ''amber'', pc_title = ''Destination concentration'',
           pc_value = fixed_text 1 (ex_top3Share ex) @ ''% in top 3'',
           pc_detail = ''Top place: '' @ fixed_text 1 (ex_topShare ex) @ ''%'' @ bullet @ ''Tracked places: '' @ nat_digits (ex_unique ex),
           pc_action = Some PlaceAction\<rparr>,
          \<lparr>pc_id = ''weekday'', pc_icon = ''fa-calendar-day'', pc_tone = ''coral'', pc_title = ''Peak and quiet days'',
           pc_value = (if hasTimeData then ts_peakDayLabel ts @ '' / '' @ ts_quietDayLabel ts else ''--''),
           pc_detail = (if hasTimeData then ''Trips: '' @ num_text env (ts_peakDayCount ts) @ '' vs '' @ num_text env (ts_quietDayCount ts)
              else ''No weekday trip data in this range.''),
           pc_action = (if hasTimeData then Some (TimePeriod ''day'' (clamp_real (real (ts_peakDay ts)) 0 6)) else None)\<rparr>,
          \<lparr>pc_id = ''fuel'', pc_icon = ''fa-gas-pump'', pc_tone = ''purple'', pc_title = ''Fuel lens'',
           pc_value = (case fl_mpg fl of None \<Rightarrow> ''Not enough fuel data'' | Some q \<Rightarrow> num_text env q @ '' MPG''),
           pc_detail = fl_note fl, pc_action = Some (Drilldown ''fuel'')\<rparr>])"

record insight_data =
  daily_distances :: "day_entry list option"
  time_distribution :: "hour_count list"
  weekday_distribution :: "hour_count list"
  top_destinations :: "destination list option"
  total_trips :: jsnum
  fuel_consumed :: jsnum
  fuel_distance :: jsnum
  fuel_trip_count :: jsnum
  range_start :: "string option"
  range_end :: "string option"

record insight_snapshot =
  sn_weekly :: "period_delta list"
  sn_monthly :: "period_delta list"
  sn_consistency :: consistency
  sn_time :: time_signature
  sn_exploration :: exploration
  sn_fuel :: fuel_lens
  sn_cards :: "pattern_card list"

definition deriveInsightsSnapshot :: "insight_env \<Rightarrow> insight_data \<Rightarrow> insight_snapshot option" where
  "deriveInsightsSnapshot env data =
     (let days = (case daily_distances data of None \<Rightarrow> [] | Some ds \<Rightarrow> ds)
      in case (aggregatePeriods env days Weekly, aggregatePeriods env days Monthly) of
          (Some weekly, Some monthly) \<Rightarrow>
            let ts = computeTimeSignature (time_distribution data) (weekday_distribution data);
                ex = computeExplorationStats (top_destinations data) (toNumber 0 (total_trips data));
                fl = computeFuelLens (Fin (toNumber 0 (fuel_consumed data))) (Fin (toNumber 0 (fuel_distance data))) (Fin (toNumber 0 (fuel_trip_count data)))
            in Some \<lparr>sn_weekly = computePeriodDeltas env weekly, sn_monthly = computePeriodDeltas env monthly,
                 sn_consistency = computeConsistencyStats env days (range_start data) (range_end data),
                 sn_time = ts, sn_exploration = ex, sn_fuel = fl, sn_cards = buildPatternCards env ts ex fl\<rparr>
        | _ \<Rightarrow> None)"

section \<open>Slots\<close>

definition in_slot :: "nat \<Rightarrow> hour_count \<Rightarrow> bool" where
  "in_slot i e \<longleftrightarrow> toNumber (- 1) (hc_slot e) = real i"

lemma add_slot_nth:
  assumes "length slots = n"
  shows "length (add_slot n slots e) = n"
    "i < n \<Longrightarrow> add_slot n slots e ! i = slots ! i + (if in_slot i e then toNumber 0 (hc_count e) else 0)"
proof -
  define h where "h = toNumber (- 1) (hc_slot e)"
  have add: "add_slot n slots e = (if 0 \<le> h \<and> h \<le> real (n - 1) \<and> h = of_int \<lfloor>h\<rfloor>
      then slots[nat \<lfloor>h\<rfloor> := slots ! nat \<lfloor>h\<rfloor> + toNumber 0 (hc_count e)] else slots)"
    by (simp add: add_slot_def Let_def h_def)
  show "length (add_slot n slots e) = n" using assms by (simp add: add)
  assume i: "i < n"
  show "add_slot n slots e ! i = slots ! i + (if in_slot i e then toNumber 0 (hc_count e) else 0)"
  proof (cases "h = real i")
    case True
    then have "in_slot i e" "0 \<le> h" "h \<le> real (n - 1)" "h = of_int \<lfloor>h\<rfloor>" "nat \<lfloor>h\<rfloor> = i" using i by (simp_all add: in_slot_def h_def)
    then show ?thesis using assms i by (simp add: add)
  next
    case False
    have "nat \<lfloor>h\<rfloor> \<noteq> i" if "0 \<le> h" "h = of_int \<lfloor>h\<rfloor>"
    proof
      assume "nat \<lfloor>h\<rfloor> = i"
      then have "\<lfloor>h\<rfloor> = int i" using that(1) by linarith
      then show False using that(2) False by simp
    qed
    then show ?thesis using False by (simp add: add in_slot_def h_def)
  qed
qed

lemma fill_slots_fold:
  assumes "length slots = n"
  shows "length (foldl (add_slot n) slots es) = n \<and>
    (\<forall>i < n. foldl (add_slot n) slots es ! i = slots ! i + (\<Sum>e \<leftarrow> filter (in_slot i) es. toNumber 0 (hc_count e)))"
  using assms
proof (induction es arbitrary: slots)
  case (Cons e es)
  then show ?case using Cons.IH [of "add_slot n slots e"] by (auto simp: add_slot_nth)
qed simp

lemma fill_slots_nth:
  "length (fill_slots n es) = n"
  "i < n \<Longrightarrow> fill_slots n es ! i = (\<Sum>e \<leftarrow> filter (in_slot i) es. toNumber 0 (hc_count e))"
  using fill_slots_fold [of "replicate n 0" n es] by (simp_all add: fill_slots_def)

lemma fill_slots_nonneg:
  assumes "\<forall>e \<in> set es. 0 \<le> toNumber 0 (hc_count e)"
  shows "\<forall>x \<in> set (fill_slots n es). 0 \<le> x"
proof
  fix x assume "x \<in> set (fill_slots n es)"
  then obtain i where "i < n" "x = (\<Sum>e \<leftarrow> filter (in_slot i) es. toNumber 0 (hc_count e))"
    by (metis fill_slots_nth in_set_conv_nth)
  then show "0 \<le> x" using assms by (auto intro!: sum_list_nonneg)
qed

lemma peak_slot_upto:
  fixes xs :: "real list"
  assumes "k \<le> length xs" "r = foldl (\<lambda>best i. if xs ! i > snd best then (i, xs ! i) else best) (0, -1) [0..<k]"
  shows "(\<forall>i < k. xs ! i \<le> snd r) \<and> (r = (0, -1) \<or> fst r < k \<and> snd r = xs ! fst r \<and> (\<forall>i < fst r. xs ! i < snd r))"
  using assms
proof (induction k arbitrary: r)
  case (Suc k)
  define q where "q = foldl (\<lambda>best i. if xs ! i > snd best then (i, xs ! i) else best) (0, -1) [0..<k]"
  note IH = Suc.IH [OF _ q_def]
  have r: "r = (if xs ! k > snd q then (k, xs ! k) else q)" using Suc.prems(2) by (simp add: q_def)
  have IH': "\<forall>i < k. xs ! i \<le> snd q" "q = (0, -1) \<or> fst q < k \<and> snd q = xs ! fst q \<and> (\<forall>i < fst q. xs ! i < snd q)"
    using IH Suc.prems(1) by simp_all
  show ?case
  proof (cases "snd q < xs ! k")
    case True
    then have "xs ! i < xs ! k" if "i < k" for i using IH'(1) that by fastforce
    then show ?thesis using True by (auto simp: r less_Suc_eq intro: less_imp_le)
  next
    case False
    then show ?thesis using IH' by (auto simp: r less_Suc_eq)
  qed
qed simp

lemma peak_slot_spec:
  assumes "xs \<noteq> []" "\<forall>x \<in> set xs. 0 \<le> x"
  shows "fst (peak_slot xs) < length xs" "snd (peak_slot xs) = xs ! fst (peak_slot xs)"
    "\<forall>i < length xs. xs ! i \<le> xs ! fst (peak_slot xs)" "\<forall>i < fst (peak_slot xs). xs ! i < xs ! fst (peak_slot xs)"
proof -
  note p = peak_slot_upto [OF le_refl peak_slot_def, of xs]
  have "0 \<le> xs ! 0" "xs ! 0 \<le> snd (peak_slot xs)" using assms p by (simp_all add: nth_mem)
  then have "peak_slot xs \<noteq> (0, -1)" by auto
  then show "fst (peak_slot xs) < length xs" "snd (peak_slot xs) = xs ! fst (peak_slot xs)"
    "\<forall>i < length xs. xs ! i \<le> xs ! fst (peak_slot xs)" "\<forall>i < fst (peak_slot xs). xs ! i < xs ! fst (peak_slot xs)"
    using p by auto
qed

lemma quiet_slot_upto:
  fixes xs :: "real list"
  assumes "k \<le> length xs" "r = foldl (\<lambda>best i. case snd best of
      None \<Rightarrow> (i, Some (xs ! i)) | Some c \<Rightarrow> if xs ! i < c then (i, Some (xs ! i)) else best) (0, None) [0..<k]"
  shows "if k = 0 then r = (0, None) else fst r < k \<and> snd r = Some (xs ! fst r) \<and> (\<forall>i < k. xs ! fst r \<le> xs ! i) \<and> (\<forall>i < fst r. xs ! fst r < xs ! i)"
  using assms
proof (induction k arbitrary: r)
  case (Suc k)
  define q where "q = foldl (\<lambda>best i. case snd best of
      None \<Rightarrow> (i, Some (xs ! i)) | Some c \<Rightarrow> if xs ! i < c then (i, Some (xs ! i)) else best) (0, None) [0..<k]"
  note IH = Suc.IH [OF _ q_def]
  have r: "r = (case snd q of None \<Rightarrow> (k, Some (xs ! k)) | Some c \<Rightarrow> if xs ! k < c then (k, Some (xs ! k)) else q)"
    unfolding q_def using Suc.prems(2) by simp
  show ?case
  proof (cases "k = 0")
    case True
    then show ?thesis using IH Suc.prems(1) by (simp add: r)
  next
    case False
    then have q: "fst q < k" "snd q = Some (xs ! fst q)" "\<forall>i < k. xs ! fst q \<le> xs ! i" "\<forall>i < fst q. xs ! fst q < xs ! i"
      using IH Suc.prems(1) by simp_all
    show ?thesis
    proof (cases "xs ! k < xs ! fst q")
      case True
      have "xs ! k < xs ! i" if "i < k" for i using True q(3) that by (simp add: less_le_trans)
      then show ?thesis using True q by (auto simp: r less_Suc_eq intro: less_imp_le)
    next
      case ge: False
      then show ?thesis using q by (auto simp: r less_Suc_eq)
    qed
  qed
qed simp

lemma quiet_slot_spec:
  assumes "xs \<noteq> []"
  shows "fst (quiet_slot xs) < length xs" "snd (quiet_slot xs) = Some (xs ! fst (quiet_slot xs))"
    "\<forall>i < length xs. xs ! fst (quiet_slot xs) \<le> xs ! i" "\<forall>i < fst (quiet_slot xs). xs ! fst (quiet_slot xs) < xs ! i"
  using quiet_slot_upto [OF le_refl quiet_slot_def, of xs] assms by simp_all

lemma dayparts_partition: "length hourly = 24 \<Longrightarrow> sum_list (map snd (dayparts hourly)) = sum_list hourly"
  by (auto simp: dayparts_def slice_def numeral_eq_Suc length_Suc_conv)

section \<open>The weighted hour\<close>

lemma weighted_hour_range:
  assumes "weightedHourRaw hourly t = Some h"
  shows "0 \<le> h" "h < 24"
proof -
  obtain x y where "hour_vector hourly = (x, y)" by fastforce
  define a where "a = atan2_real y x / (pi * 2) * 24 + 24"
  define r where "r = js_rem (js_rem a 24 + 24) 24"
  have h: "h = (if r > 23999999 / 1000000 then 0 else r)"
    using assms by (auto simp: weightedHourRaw_def Let_def r_def a_def \<open>hour_vector hourly = (x, y)\<close> split: if_splits)
  have "- pi * 24 \<le> atan2_real y x * 24" using atan2_range(1) [of y x] by simp
  then have "- 12 \<le> atan2_real y x / (pi * 2) * 24" by (simp add: field_simps)
  then have "0 \<le> a" by (simp add: a_def)
  then have "0 \<le> js_rem a 24" using js_rem_pos [of a 24] by simp
  then have "0 \<le> r" "r < 24" using js_rem_pos [of "js_rem a 24 + 24" 24] by (simp_all add: r_def)
  then show "0 \<le> h" "h < 24" using h by (auto split: if_splits)
qed

text \<open>
  The time signature: every slot of the hours and weekdays adds up the counts of exactly the entries of that
  hour or day, the four parts of the day together hold all trips, and for counts that are not negative the
  peak hour is the first one with the largest count and the quiet hour the first one with the smallest. The
  weighted hour, when there is one, lies within the day.
\<close>

theorem time_signature_spec:
  fixes hrs wds :: "hour_count list"
  assumes "\<forall>e \<in> set (hrs @ wds). 0 \<le> toNumber 0 (hc_count e)"
  defines "t \<equiv> computeTimeSignature hrs wds"
  shows "length (ts_hourly t) = 24 \<and> length (ts_weekday t) = 7 \<and>
    (\<forall>i < 24. ts_hourly t ! i = (\<Sum>e \<leftarrow> filter (in_slot i) hrs. toNumber 0 (hc_count e))) \<and>
    (\<forall>i < 7. ts_weekday t ! i = (\<Sum>e \<leftarrow> filter (in_slot i) wds. toNumber 0 (hc_count e))) \<and>
    sum_list (map snd (dayparts (ts_hourly t))) = ts_totalTrips t \<and> ts_totalTrips t = sum_list (ts_hourly t) \<and>
    ts_peakHour t < 24 \<and> (\<forall>i < 24. ts_hourly t ! i \<le> ts_hourly t ! ts_peakHour t) \<and>
    (\<forall>i < ts_peakHour t. ts_hourly t ! i < ts_hourly t ! ts_peakHour t) \<and>
    ts_quietHour t < 24 \<and> (\<forall>i < 24. ts_hourly t ! ts_quietHour t \<le> ts_hourly t ! i) \<and>
    (\<forall>i < ts_quietHour t. ts_hourly t ! ts_quietHour t < ts_hourly t ! i) \<and>
    ts_peakDay t < 7 \<and> (\<forall>i < 7. ts_weekday t ! i \<le> ts_weekday t ! ts_peakDay t) \<and>
    (\<forall>h. ts_weightedHour t = Some h \<longrightarrow> 0 \<le> h \<and> h \<le> 24)"
proof -
  define hourly weekday where "hourly = fill_slots 24 hrs" and "weekday = fill_slots 7 wds"
  have t: "ts_hourly t = hourly" "ts_weekday t = weekday" "ts_totalTrips t = sum_list hourly"
    "ts_peakHour t = fst (peak_slot hourly)" "ts_quietHour t = fst (quiet_slot hourly)" "ts_peakDay t = fst (peak_slot weekday)"
    "ts_weightedHour t = map_option (fixed 1) (weightedHourRaw hourly (sum_list hourly))"
    by (simp_all add: t_def computeTimeSignature_def hourly_def weekday_def Let_def)
  have len: "length hourly = 24" "length weekday = 7" by (simp_all add: hourly_def weekday_def fill_slots_nth)
  have h: "hourly ! i = (\<Sum>e \<leftarrow> filter (in_slot i) hrs. toNumber 0 (hc_count e))" if "i < 24" for i
    using that by (simp add: hourly_def fill_slots_nth)
  have w: "weekday ! i = (\<Sum>e \<leftarrow> filter (in_slot i) wds. toNumber 0 (hc_count e))" if "i < 7" for i
    using that by (simp add: weekday_def fill_slots_nth)
  have "\<forall>x \<in> set hourly. 0 \<le> x" "\<forall>x \<in> set weekday. 0 \<le> x"
    unfolding hourly_def weekday_def using assms(1) by (auto intro!: fill_slots_nonneg)
  note pk = peak_slot_spec [OF _ this(1)] peak_slot_spec [OF _ this(2)]
  have ne: "hourly \<noteq> []" "weekday \<noteq> []" using len by auto
  have wh: "0 \<le> x \<and> x \<le> 24" if wx: "ts_weightedHour t = Some x" for x
  proof -
    obtain r where r: "weightedHourRaw hourly (sum_list hourly) = Some r" "x = fixed 1 r"
      using wx unfolding t(7) by (cases "weightedHourRaw hourly (sum_list hourly)") auto
    then show ?thesis using weighted_hour_range [OF r(1)] fixed_nonneg fixed_mono_bound [of r 24 1] by simp
  qed
  show ?thesis unfolding t
    using h w len pk(1,3,4) [OF ne(1)] pk(5,7) [OF ne(2)] quiet_slot_spec [OF ne(1)] dayparts_partition [OF len(1)] wh [unfolded t(7)] by simp
qed

theorem time_signature_spec_witness:
  "ts_hourly (computeTimeSignature [\<lparr>hc_slot = Fin 7, hc_count = Fin 2\<rparr>] []) ! 7 = 2"
  using time_signature_spec [of "[\<lparr>hc_slot = Fin 7, hc_count = Fin 2\<rparr>]" "[]"] by (simp add: toNumber_def in_slot_def)

section \<open>Exploration\<close>

lemma entropy_sum:
  fixes shares :: "real list"
  shows "foldl (\<lambda>acc share. if share \<le> 0 then acc else acc - share * ln share) a shares =
    a - (\<Sum>s \<leftarrow> filter (\<lambda>s. 0 < s) shares. s * ln s)"
  by (induction shares arbitrary: a) auto

lemma entropy_nonneg:
  assumes "\<forall>s \<in> set shares. s \<le> 1"
  shows "0 \<le> entropy_of shares"
proof -
  have "(\<Sum>s \<leftarrow> filter (\<lambda>s. 0 < s) shares. s * ln s) \<le> 0"
    using assms by (intro sum_list_nonpos) (auto simp: mult_nonneg_nonpos)
  then show ?thesis by (simp add: entropy_of_def entropy_sum)
qed

text \<open>The entropy of shares that add up to one is at most that of equal shares.\<close>

lemma entropy_bound:
  assumes "\<forall>s \<in> set shares. 0 \<le> s" "sum_list shares = 1"
  shows "entropy_of shares \<le> ln (real (length shares))"
proof -
  define n where "n = real (length shares)"
  define ps where "ps = filter (\<lambda>s. 0 < s) shares"
  have n: "0 < n" using assms(2) by (cases shares) (auto simp: n_def)
  have s1: "sum_list ps = 1"
  proof -
    have "sum_list (filter (\<lambda>s. 0 < s) xs) = sum_list xs" if "\<forall>s \<in> set xs. 0 \<le> s" for xs :: "real list"
      using that by (induction xs) auto
    then show ?thesis using assms by (simp add: ps_def)
  qed
  have "- (s * ln s) - s * ln n \<le> 1 / n - s" if "0 < s" for s
  proof -
    have "ln (1 / (n * s)) \<le> 1 / (n * s) - 1" using that n by (intro ln_le_minus_one) simp
    then have "s * ln (1 / (n * s)) \<le> s * (1 / (n * s) - 1)" using that by (intro mult_left_mono) auto
    moreover have "ln (1 / (n * s)) = - ln n - ln s" using that n by (simp add: ln_div ln_mult)
    moreover have "s * (1 / (n * s) - 1) = 1 / n - s" using that n by (simp add: field_simps)
    ultimately show ?thesis by (simp add: algebra_simps)
  qed
  then have "(\<Sum>s \<leftarrow> ps. - (s * ln s) - s * ln n) \<le> (\<Sum>s \<leftarrow> ps. 1 / n - s)"
    by (intro sum_list_mono) (simp add: ps_def)
  moreover have "(\<Sum>s \<leftarrow> xs. - (s * ln s) - s * ln n) = - (\<Sum>s \<leftarrow> xs. s * ln s) - sum_list xs * ln n" for xs
    by (induction xs) (simp_all add: algebra_simps)
  moreover have "(\<Sum>s \<leftarrow> xs. 1 / n - s) = real (length xs) / n - sum_list xs" for xs
    by (induction xs) (simp_all add: add_divide_distrib)
  moreover have "real (length ps) / n \<le> 1" using n by (simp add: ps_def n_def divide_le_eq)
  ultimately have "- (\<Sum>s \<leftarrow> ps. s * ln s) \<le> ln n" using s1 by simp
  then show ?thesis by (simp add: entropy_of_def entropy_sum ps_def n_def)
qed

lemma visits_nonneg: "p \<in> normalize_destination ` D \<Longrightarrow> 0 \<le> pl_visits p"
  by (auto simp: normalize_destination_def clamp_real_def)

lemma visit_shares_spec:
  assumes "places \<noteq> []" "\<forall>p \<in> set places. 0 \<le> pl_visits p"
  shows "length (visit_shares places t) = length places" "\<forall>s \<in> set (visit_shares places t). 0 \<le> s \<and> s \<le> 1"
    "sum_list (visit_shares places t) = 1 \<or> (\<forall>s \<in> set (visit_shares places t). s = 0)"
proof -
  define v where "v = sum_list (map pl_visits places)"
  have v: "0 \<le> v" using assms(2) by (auto simp: v_def intro!: sum_list_nonneg)
  have le: "pl_visits p \<le> v" if "p \<in> set places" for p
    unfolding v_def using that assms(2) by (intro member_le_sum_list) auto
  have zero: "pl_visits p = 0" if "v = 0" "p \<in> set places" for p using le [OF that(2)] assms(2) that by force
  have sh: "visit_shares places t = (if v = 0 then (if t > 0 then map (\<lambda>p. pl_visits p / t) places else map (\<lambda>_. 0) places)
      else map (\<lambda>p. pl_visits p / v) places)" using v by (auto simp: visit_shares_def v_def Let_def)
  show "length (visit_shares places t) = length places" by (simp add: sh)
  show "\<forall>s \<in> set (visit_shares places t). 0 \<le> s \<and> s \<le> 1" using v le zero assms(2) by (auto simp: sh divide_le_eq)
  have div: "(\<Sum>p \<leftarrow> ps. pl_visits p / v) = sum_list (map pl_visits ps) / v" for ps
    by (induction ps) (simp_all add: add_divide_distrib)
  have "sum_list (map (\<lambda>p. pl_visits p / v) places) = 1" if "v \<noteq> 0" using that div [of places] by (simp add: v_def)
  then show "sum_list (visit_shares places t) = 1 \<or> (\<forall>s \<in> set (visit_shares places t). s = 0)"
    using zero by (cases "v = 0") (auto simp: sh)
qed

lemma entropy_zero: "\<forall>s \<in> set shares. s = 0 \<Longrightarrow> entropy_of shares = 0"
proof -
  assume "\<forall>s \<in> set shares. s = 0"
  then have "filter (\<lambda>s. 0 < s) shares = []" by (force simp: filter_empty_conv)
  then show ?thesis by (simp add: entropy_of_def entropy_sum)
qed

text \<open>The clamp of the score never acts.\<close>

lemma raw_exploration_exact:
  fixes t :: real
  assumes "places \<noteq> []" "\<forall>p \<in> set places. 0 \<le> pl_visits p"
  defines "shares \<equiv> visit_shares places t" and "n \<equiv> length places"
  shows "raw_exploration shares = entropy_of shares / (if n > 1 then ln (real n) else 1) * 100"
    "0 \<le> raw_exploration shares" "raw_exploration shares \<le> 100"
proof -
  note sh = visit_shares_spec [OF assms(1,2), of t, folded shares_def n_def]
  define m where "m = (if n > 1 then ln (real n) else 1)"
  have m: "0 < m" by (simp add: m_def)
  have e0: "0 \<le> entropy_of shares" using entropy_nonneg sh(2) by blast
  have "entropy_of shares \<le> ln (real n)"
  proof (cases "sum_list shares = 1")
    case True
    then show ?thesis using entropy_bound [of shares] sh by auto
  next
    case False
    have "1 \<le> n" using assms(1) by (cases places) (auto simp: n_def)
    then show ?thesis using False sh(3) entropy_zero by auto
  qed
  then have "entropy_of shares \<le> m" using m assms(1) by (cases "n > 1") (auto simp: m_def n_def not_less le_Suc_eq)
  then have "0 \<le> entropy_of shares / m * 100" "entropy_of shares / m * 100 \<le> 100" using e0 m by (auto simp: divide_le_eq)
  moreover have "raw_exploration shares = clamp_real (entropy_of shares / m * 100) 0 100"
    by (simp add: raw_exploration_def m_def sh(1))
  ultimately have "raw_exploration shares = entropy_of shares / m * 100 \<and> 0 \<le> raw_exploration shares \<and> raw_exploration shares \<le> 100"
    by (simp add: clamp_real_def)
  then show "raw_exploration shares = entropy_of shares / (if n > 1 then ln (real n) else 1) * 100"
      "0 \<le> raw_exploration shares" "raw_exploration shares \<le> 100"
    unfolding m_def by blast+
qed

text \<open>
  The exploration score of a non-empty list of destinations is the entropy of the visit shares relative to
  that of equal shares: it lies between 0 and 100 without the clamp of the source ever acting (the entropy never
  exceeds the logarithm of the number of places), exploration and routine add up to 100 within the rounding,
  no destination is lost and they are listed from the most to the least visited.
\<close>

theorem exploration_score:
  fixes t :: real
  assumes "ds \<noteq> []"
  defines "r \<equiv> computeExplorationStats (Some ds) t"
  defines "shares \<equiv> visit_shares (ex_destinations r) t" and "n \<equiv> length ds"
  shows "mset (ex_destinations r) = mset (map normalize_destination ds) \<and>
    sorted_wrt (\<lambda>a b. pl_visits b \<le> pl_visits a) (ex_destinations r) \<and> ex_unique r = n \<and>
    0 \<le> entropy_of shares \<and> (n > 1 \<longrightarrow> entropy_of shares \<le> ln (real n)) \<and>
    ex_score r = fixed 1 (entropy_of shares / (if n > 1 then ln (real n) else 1) * 100) \<and>
    0 \<le> ex_score r \<and> ex_score r \<le> 100 \<and> 0 \<le> ex_routine r \<and> ex_routine r \<le> 100 \<and> \<bar>ex_score r + ex_routine r - 100\<bar> \<le> 1 / 10"
proof -
  define places where "places = js_sort (\<lambda>a b. pl_visits b - pl_visits a \<le> 0) (map normalize_destination ds)"
  have ne: "places \<noteq> []" using assms(1) by (simp add: places_def)
  have ex: "ex_destinations r = places" "ex_unique r = length places" "ex_score r = fixed 1 (raw_exploration (visit_shares places t))"
      "ex_routine r = fixed 1 (100 - raw_exploration (visit_shares places t))"
    using ne unfolding r_def computeExplorationStats_def option.case places_def [symmetric] Let_def by simp_all
  have nn: "\<forall>p \<in> set places. 0 \<le> pl_visits p" using visits_nonneg by (auto simp: places_def)
  have len: "length places = n" by (simp add: places_def n_def)
  define x where "x = raw_exploration (visit_shares places t)"
  note raw = raw_exploration_exact [OF ne nn, of t, unfolded len]
  have x: "0 \<le> x" "x \<le> real 100" using raw(2,3) by (simp_all add: x_def)
  have b: "0 \<le> fixed 1 x" "fixed 1 x \<le> 100" "0 \<le> fixed 1 (100 - x)" "fixed 1 (100 - x) \<le> 100"
    using x fixed_nonneg fixed_mono_bound [of x 100 1] fixed_mono_bound [of "100 - x" 100 1] by simp_all
  have sum: "\<bar>fixed 1 x + fixed 1 (100 - x) - 100\<bar> \<le> 1 / 10"
  proof -
    have "\<bar>fixed 1 x - x\<bar> \<le> 1 / 20" "\<bar>fixed 1 (100 - x) - (100 - x)\<bar> \<le> 1 / 20"
      using fixed_error [of 1 x] fixed_error [of 1 "100 - x"] by simp_all
    then show ?thesis by linarith
  qed
  have sh: "shares = visit_shares places t" by (simp add: shares_def ex(1))
  have ent: "0 \<le> entropy_of shares" using visit_shares_spec(2) [OF ne nn, of t] entropy_nonneg unfolding sh by blast
  have ln: "n > 1 \<longrightarrow> entropy_of shares \<le> ln (real n)"
    using raw(1,3) unfolding sh by (auto simp: divide_le_eq split: if_splits)
  have srt: "sorted_wrt (\<lambda>a b. pl_visits b \<le> pl_visits a) places"
    unfolding places_def by (rule sorted_wrt_js_sort) (auto simp: transp_def)
  show ?thesis using b sum ent ln srt raw(1) len unfolding ex sh x_def by (simp add: places_def)
qed

theorem exploration_score_witness:
  "ex_unique (computeExplorationStats (Some [\<lparr>ds_location = None, ds_visits = Fin 3, ds_distance = NaN, ds_duration = NaN, ds_lastVisit = None\<rparr>]) 0) = 1"
  using exploration_score [of "[\<lparr>ds_location = None, ds_visits = Fin 3, ds_distance = NaN, ds_duration = NaN, ds_lastVisit = None\<rparr>]" 0] by simp

section \<open>The snapshot\<close>

text \<open>One day with an impossible date takes the whole page down: the label of its period throws.\<close>

lemma invalid_day_throws:
  assumes "daily_distances data = Some days" "e \<in> set days" "parseYmdUtc (de_date e) = Some None"
  shows "deriveInsightsSnapshot env data = None"
proof -
  have "list_ex (\<lambda>e. label_throws mode (parseYmdUtc (de_date e))) days" for mode
    using assms(2,3) by (force simp: list_ex_iff label_throws_def)
  then show ?thesis by (simp add: deriveInsightsSnapshot_def assms(1) aggregatePeriods_def)
qed

end
