(* ===== verification/Terrain.thy ===== *)
theory Terrain
  imports GeoMath
begin

text \<open>
  The terrain of the coverage diorama, \<open>static/js/modules/features/coverage-diorama/terrain.js\<close>: the choice of
  elevation tiles for a bounding box, the mosaic put together from them, sampling and projection, points in
  polygons, densified streets and the mesh cut out along the area's boundary.

  \<^item> Bounding boxes are checked (\<open>assertBounds\<close>) and then finite; a thrown error is \<open>None\<close> or \<open>Inl\<close> with its text.
    The arrays of 32-bit floats hold the exact values.
  \<^item> \<open>fetch_tile\<close> stands for the tile service: the pixels of a tile, or an error. A point of a ring that is not
    an array is \<open>None\<close>.
  \<^item> Shown: a selected tile plan respects the budget, is the finest one that does and covers the box; every
    pixel of the mosaic comes from the tile and pixel it belongs to; sampling stays between the elevations; a
    point is in a ring exactly when it has an odd number of crossings, however the ring is closed; the mesh has a
    wall exactly at the edges towards cells that are not included.
\<close>

definition TERRAIN_RADIUS_M :: real where "TERRAIN_RADIUS_M = 6378137"
definition MAX_MERCATOR_LAT :: real where "MAX_MERCATOR_LAT = 8505112878 / 100000000"
definition TILE_SIZE :: nat where "TILE_SIZE = 256"

definition decodeTerrainRgb :: "nat \<Rightarrow> nat \<Rightarrow> nat \<Rightarrow> real" where
  "decodeTerrainRgb red green blue = - 10000 + (real red * 256 * 256 + real green * 256 + real blue) * (1 / 10)"

section \<open>Bounds and tiles\<close>

type_synonym box = "real \<times> real \<times> real \<times> real"

definition assertBounds :: "jsnum list option \<Rightarrow> box option" where
  "assertBounds bounds =
     (case bounds of
        Some [Fin a, Fin b, Fin c, Fin d] \<Rightarrow> if a \<ge> c \<or> b \<ge> d then None else Some (a, b, c, d)
      | _ \<Rightarrow> None)"

definition padBounds :: "real \<Rightarrow> jsnum list option \<Rightarrow> box option" where
  "padBounds ratio bounds =
     (case assertBounds bounds of
        None \<Rightarrow> None
      | Some (minLon, minLat, maxLon, maxLat) \<Rightarrow>
          let lonPad = max ((maxLon - minLon) * ratio) (1 / 10000); latPad = max ((maxLat - minLat) * ratio) (1 / 10000)
          in Some (minLon - lonPad, minLat - latPad, maxLon + lonPad, maxLat + latPad))"

definition safe_lat :: "real \<Rightarrow> real" where
  "safe_lat lat = max (- MAX_MERCATOR_LAT) (min MAX_MERCATOR_LAT lat)"

definition tile_x :: "real \<Rightarrow> nat \<Rightarrow> real" where
  "tile_x lon zoom = (lon + 180) / 360 * 2 ^ zoom"

definition tile_y :: "real \<Rightarrow> nat \<Rightarrow> real" where
  "tile_y lat zoom =
     (let latRad = safe_lat lat * pi / 180 in (1 - ln (tan latRad + 1 / cos latRad) / pi) / 2 * 2 ^ zoom)"

definition lonLatToTileFraction :: "real \<Rightarrow> real \<Rightarrow> nat \<Rightarrow> real \<times> real" where
  "lonLatToTileFraction lon lat zoom = (tile_x lon zoom, tile_y lat zoom)"

record tile_options =
  minZoom :: nat
  maxZoom :: nat
  maxAxis :: nat
  maxTiles :: nat
  padding :: real

definition default_tile_options :: tile_options where
  "default_tile_options = \<lparr>minZoom = 8, maxZoom = 14, maxAxis = 4, maxTiles = 16, padding = 5 / 100\<rparr>"

record tile_plan =
  tp_zoom :: nat
  tp_minX :: int
  tp_maxX :: int
  tp_minY :: int
  tp_maxY :: int
  tp_columns :: int
  tp_rows :: int
  tp_count :: int
  tp_bounds :: box

definition plan_at :: "box \<Rightarrow> nat \<Rightarrow> tile_plan" where
  "plan_at bounds zoom =
     (let (minLon, minLat, maxLon, maxLat) = bounds;
          (nwx, nwy) = lonLatToTileFraction minLon maxLat zoom; (sex, sey) = lonLatToTileFraction maxLon minLat zoom;
          columns = \<lfloor>sex\<rfloor> - \<lfloor>nwx\<rfloor> + 1; rows = \<lfloor>sey\<rfloor> - \<lfloor>nwy\<rfloor> + 1
      in \<lparr>tp_zoom = zoom, tp_minX = \<lfloor>nwx\<rfloor>, tp_maxX = \<lfloor>sex\<rfloor>, tp_minY = \<lfloor>nwy\<rfloor>, tp_maxY = \<lfloor>sey\<rfloor>,
          tp_columns = columns, tp_rows = rows, tp_count = columns * rows, tp_bounds = bounds\<rparr>)"

definition plan_fits :: "tile_options \<Rightarrow> tile_plan \<Rightarrow> bool" where
  "plan_fits opts p \<longleftrightarrow> tp_columns p \<le> int (maxAxis opts) \<and> tp_rows p \<le> int (maxAxis opts) \<and>
     tp_columns p * tp_rows p \<le> int (maxTiles opts)"

text \<open>The loop over the zoom levels, downwards.\<close>

fun try_zoom :: "tile_options \<Rightarrow> box \<Rightarrow> nat \<Rightarrow> tile_plan option" where
  "try_zoom opts bounds zoom =
     (if zoom < minZoom opts then None
      else if plan_fits opts (plan_at bounds zoom) then Some (plan_at bounds zoom)
      else if zoom = 0 then None else try_zoom opts bounds (zoom - 1))"

declare try_zoom.simps [simp del]

definition selectTerrainTiles :: "tile_options \<Rightarrow> jsnum list option \<Rightarrow> string + tile_plan" where
  "selectTerrainTiles opts bounds =
     (case padBounds (padding opts) bounds of
        None \<Rightarrow> Inl ''A valid [minLon, minLat, maxLon, maxLat] bounding box is required.''
      | Some padded \<Rightarrow>
          (case try_zoom opts padded (maxZoom opts) of
             Some plan \<Rightarrow> Inr plan
           | None \<Rightarrow> Inl ''Coverage area is too large for the 3D terrain tile budget.''))"

section \<open>Projection and sampling\<close>

definition mercatorMeters :: "real \<Rightarrow> real \<Rightarrow> real \<times> real" where
  "mercatorMeters lon lat =
     (let lonRad = lon * pi / 180; latRad = safe_lat lat * pi / 180
      in (TERRAIN_RADIUS_M * lonRad, TERRAIN_RADIUS_M * ln (tan (pi / 4 + latRad / 2))))"

record local_projection =
  centerLon :: real
  centerLat :: real
  originX :: real
  originY :: real

definition createLocalProjection :: "jsnum list option \<Rightarrow> local_projection option" where
  "createLocalProjection bounds =
     (case assertBounds bounds of
        None \<Rightarrow> None
      | Some (a, b, c, d) \<Rightarrow>
          let cx = (a + c) / 2; cy = (b + d) / 2; (x, y) = mercatorMeters cx cy
          in Some \<lparr>centerLon = cx, centerLat = cy, originX = x, originY = y\<rparr>)"

definition projectLonLat :: "local_projection \<Rightarrow> real \<Rightarrow> real \<Rightarrow> real \<times> real" where
  "projectLonLat pr lon lat = (let (x, y) = mercatorMeters lon lat in (x - originX pr, - (y - originY pr)))"

text \<open>A grid of \<open>width\<close> by \<open>height\<close> values, row by row.\<close>

definition bilinearSampleGrid :: "real list \<Rightarrow> nat \<Rightarrow> nat \<Rightarrow> real \<Rightarrow> real \<Rightarrow> real" where
  "bilinearSampleGrid values width height x y =
     (let safeX = max 0 (min (real width - 1) x); safeY = max 0 (min (real height - 1) y);
          x0 = nat \<lfloor>safeX\<rfloor>; y0 = nat \<lfloor>safeY\<rfloor>; x1 = min (width - 1) (x0 + 1); y1 = min (height - 1) (y0 + 1);
          tx = safeX - real x0; ty = safeY - real y0;
          top = values ! (y0 * width + x0) * (1 - tx) + values ! (y0 * width + x1) * tx;
          bottom = values ! (y1 * width + x0) * (1 - tx) + values ! (y1 * width + x1) * tx
      in top * (1 - ty) + bottom * ty)"

record mosaic =
  mo_zoom :: nat
  mo_minX :: int
  mo_minY :: int
  mo_width :: nat
  mo_height :: nat
  mo_elevations :: "real list"

definition sampleTerrainMosaic :: "mosaic \<Rightarrow> real \<Rightarrow> real \<Rightarrow> real" where
  "sampleTerrainMosaic mo lon lat =
     (let (tx, ty) = lonLatToTileFraction lon lat (mo_zoom mo);
          px = (tx - of_int (mo_minX mo)) * real TILE_SIZE - 1 / 2; py = (ty - of_int (mo_minY mo)) * real TILE_SIZE - 1 / 2
      in bilinearSampleGrid (mo_elevations mo) (mo_width mo) (mo_height mo) px py)"

section \<open>The mosaic\<close>

text \<open>The pixels of a tile as red, green and blue; \<open>loadTerrainTile\<close> decodes them.\<close>

type_synonym fetch_tile = "nat \<Rightarrow> int \<Rightarrow> int \<Rightarrow> string + (nat \<times> nat \<times> nat) list"

record tile =
  tl_x :: int
  tl_y :: int
  tl_elevations :: "real list"

definition loadTerrainTile :: "fetch_tile \<Rightarrow> nat \<Rightarrow> int \<Rightarrow> int \<Rightarrow> string + tile" where
  "loadTerrainTile fetch zoom x y =
     (case fetch zoom x y of
        Inl err \<Rightarrow> Inl err
      | Inr pixels \<Rightarrow> Inr \<lparr>tl_x = x, tl_y = y,
          tl_elevations = map (\<lambda>i. let (r, g, b) = pixels ! i in decodeTerrainRgb r g b) [0..<TILE_SIZE * TILE_SIZE]\<rparr>)"

text \<open>\<open>target.set(source, offset)\<close>\<close>

definition blit :: "real list \<Rightarrow> nat \<Rightarrow> real list \<Rightarrow> real list" where
  "blit source offset target = take offset target @ source @ drop (offset + length source) target"

definition place_row :: "tile_plan \<Rightarrow> nat \<Rightarrow> tile \<Rightarrow> real list \<Rightarrow> nat \<Rightarrow> real list" where
  "place_row plan width t elevations row =
     (let offsetX = nat (tl_x t - tp_minX plan) * TILE_SIZE; offsetY = nat (tl_y t - tp_minY plan) * TILE_SIZE
      in blit (take TILE_SIZE (drop (row * TILE_SIZE) (tl_elevations t))) ((offsetY + row) * width + offsetX) elevations)"

definition place_tile :: "tile_plan \<Rightarrow> nat \<Rightarrow> real list \<Rightarrow> tile \<Rightarrow> real list" where
  "place_tile plan width elevations t = foldl (place_row plan width t) elevations [0..<TILE_SIZE]"

definition tile_requests :: "tile_plan \<Rightarrow> (int \<times> int) list" where
  "tile_requests plan = concat (map (\<lambda>y. map (\<lambda>x. (x, y)) [tp_minX plan..tp_maxX plan]) [tp_minY plan..tp_maxY plan])"

text \<open>\<open>Promise.all\<close>: all tiles, or the error of one that failed (here the first in the list).\<close>

fun all_tiles :: "(string + tile) list \<Rightarrow> string + tile list" where
  "all_tiles [] = Inr []"
| "all_tiles (Inl err # rs) = Inl err"
| "all_tiles (Inr t # rs) = (case all_tiles rs of Inl err \<Rightarrow> Inl err | Inr ts \<Rightarrow> Inr (t # ts))"

definition loadTerrainMosaic :: "fetch_tile \<Rightarrow> tile_plan \<Rightarrow> string \<Rightarrow> bool \<Rightarrow> string + mosaic" where
  "loadTerrainMosaic fetch plan accessToken canDecode =
     (if accessToken = [] then Inl ''A Mapbox public token is required to load real elevation.''
      else if \<not> canDecode then Inl ''This browser cannot decode terrain tiles for the 3D view.''
      else
        let width = nat (tp_columns plan) * TILE_SIZE; height = nat (tp_rows plan) * TILE_SIZE
        in case all_tiles (map (\<lambda>(x, y). loadTerrainTile fetch (tp_zoom plan) x y) (tile_requests plan)) of
            Inl err \<Rightarrow> Inl err
          | Inr tiles \<Rightarrow>
              Inr \<lparr>mo_zoom = tp_zoom plan, mo_minX = tp_minX plan, mo_minY = tp_minY plan, mo_width = width, mo_height = height,
                   mo_elevations = foldl (place_tile plan width) (replicate (width * height) 0) tiles\<rparr>)"

section \<open>Tile plans\<close>

lemma mercator_mono:
  assumes "- pi / 2 < a" "a < b" "b < pi / 2"
  shows "tan a + 1 / cos a < tan b + 1 / cos b"
proof -
  define d e where "d = (b - a) / 2" and "e = (a + b) / 2"
  have ab: "a = e - d" "b = e + d" by (simp_all add: d_def e_def field_simps)
  have cos: "0 < cos a" "0 < cos b" using assms by (simp_all add: cos_gt_zero_pi)
  have "0 < sin d" using assms by (intro sin_gt_zero) (auto simp: d_def)
  moreover have "sin (d - pi / 2) < sin e" using assms by (intro sin_monotone_2pi) (auto simp: d_def e_def field_simps)
  then have "0 < cos d + sin e" by (simp add: sin_diff)
  ultimately have "0 < 2 * (sin d * (cos d + sin e))" by simp
  also have "2 * (sin d * (cos d + sin e)) = sin (2 * d) + 2 * sin e * sin d" unfolding sin_double by (simp add: algebra_simps)
  also have "\<dots> = (1 + sin b) * cos a - (1 + sin a) * cos b"
  proof -
    have "sin (2 * d) = sin b * cos a - cos b * sin a" using sin_diff [of b a] by (simp add: ab)
    moreover have "cos a - cos b = 2 * sin e * sin d" unfolding ab by (simp add: cos_add cos_diff)
    ultimately show ?thesis by (simp add: algebra_simps)
  qed
  finally have "(1 + sin a) / cos a < (1 + sin b) / cos b" using cos by (simp add: divide_less_eq less_divide_eq mult.commute)
  then show ?thesis using cos by (simp add: tan_def add_divide_distrib add.commute)
qed

lemma safe_lat_rad:
  "- pi / 2 < safe_lat lat * pi / 180" "safe_lat lat * pi / 180 < pi / 2"
proof -
  have "- 86 \<le> safe_lat lat" "safe_lat lat \<le> 86" by (auto simp: safe_lat_def MAX_MERCATOR_LAT_def)
  then have "- 86 * pi \<le> safe_lat lat * pi" "safe_lat lat * pi \<le> 86 * pi" by (intro mult_right_mono; simp)+
  then show "- pi / 2 < safe_lat lat * pi / 180" "safe_lat lat * pi / 180 < pi / 2" using pi_gt_zero by linarith+
qed

lemma tile_y_antimono:
  assumes "lat1 \<le> lat2"
  shows "tile_y lat2 zoom \<le> tile_y lat1 zoom"
proof -
  define a b where "a = safe_lat lat1 * pi / 180" and "b = safe_lat lat2 * pi / 180"
  note ra = safe_lat_rad [of lat1, folded a_def] and rb = safe_lat_rad [of lat2, folded b_def]
  have "safe_lat lat1 \<le> safe_lat lat2" using assms by (auto simp: safe_lat_def)
  then have "a \<le> b" by (simp add: a_def b_def mult_right_mono)
  then have le: "tan a + 1 / cos a \<le> tan b + 1 / cos b" using mercator_mono [of a b] ra rb by (cases "a = b") auto
  have "0 < 1 + sin a" using sin_monotone_2pi [of "- pi / 2" a] ra by simp
  moreover have "0 < cos a" using ra by (simp add: cos_gt_zero_pi)
  ultimately have "0 < (1 + sin a) / cos a" by simp
  then have "0 < tan a + 1 / cos a" by (simp add: tan_def add_divide_distrib add.commute)
  then have "ln (tan a + 1 / cos a) \<le> ln (tan b + 1 / cos b)" using le by simp
  then have "ln (tan a + 1 / cos a) / pi \<le> ln (tan b + 1 / cos b) / pi" by (intro divide_right_mono) auto
  then have "(1 - ln (tan b + 1 / cos b) / pi) / 2 * 2 ^ zoom \<le> (1 - ln (tan a + 1 / cos a) / pi) / 2 * 2 ^ zoom"
    by (intro mult_right_mono divide_right_mono) auto
  then show ?thesis by (simp only: tile_y_def Let_def a_def b_def)
qed

lemma tile_x_mono: "lon1 \<le> lon2 \<Longrightarrow> tile_x lon1 zoom \<le> tile_x lon2 zoom"
  unfolding tile_x_def by (intro mult_right_mono divide_right_mono) auto

lemma try_zoom_spec:
  "try_zoom opts bounds zoom = Some p \<Longrightarrow>
     p = plan_at bounds (tp_zoom p) \<and> plan_fits opts p \<and> minZoom opts \<le> tp_zoom p \<and> tp_zoom p \<le> zoom \<and>
     (\<forall>z. tp_zoom p < z \<and> z \<le> zoom \<longrightarrow> \<not> plan_fits opts (plan_at bounds z))"
proof (induction opts bounds zoom rule: try_zoom.induct)
  case (1 opts bounds zoom)
  have z: "tp_zoom (plan_at bounds z) = z" for z by (simp add: plan_at_def Let_def split: prod.split)
  show ?case
  proof (cases "plan_fits opts (plan_at bounds zoom)")
    case True
    then have "p = plan_at bounds zoom" "minZoom opts \<le> zoom" using "1.prems" by (auto simp: try_zoom.simps [of opts bounds zoom] split: if_splits)
    then show ?thesis using True by (auto simp: z)
  next
    case False
    then have m: "minZoom opts \<le> zoom" "zoom \<noteq> 0" "try_zoom opts bounds (zoom - 1) = Some p"
      using "1.prems" by (auto simp: try_zoom.simps [of opts bounds zoom] split: if_splits)
    have "\<not> zoom < minZoom opts" using m(1) by simp
    note IH = "1.IH" [OF this False m(2,3)]
    have "\<not> plan_fits opts (plan_at bounds z)" if "tp_zoom p < z" "z \<le> zoom" for z
      using IH False that m(2) by (cases "z = zoom") auto
    then show ?thesis using IH by auto
  qed
qed

lemma try_zoom_None:
  "try_zoom opts bounds zoom = None \<Longrightarrow> \<forall>z. minZoom opts \<le> z \<and> z \<le> zoom \<longrightarrow> \<not> plan_fits opts (plan_at bounds z)"
proof (induction opts bounds zoom rule: try_zoom.induct)
  case (1 opts bounds zoom)
  show ?case
  proof (cases "zoom < minZoom opts \<or> zoom = 0")
    case True
    then show ?thesis using "1.prems" by (auto simp: try_zoom.simps [of opts bounds zoom] split: if_splits)
  next
    case False
    then have nf: "\<not> plan_fits opts (plan_at bounds zoom)" "try_zoom opts bounds (zoom - 1) = None"
      using "1.prems" by (auto simp: try_zoom.simps [of opts bounds zoom] split: if_splits)
    have "\<not> zoom < minZoom opts" "zoom \<noteq> 0" using False by simp_all
    note IH = "1.IH" [OF this(1) nf(1) this(2) nf(2)]
    show ?thesis
    proof (intro allI impI)
      fix z assume "minZoom opts \<le> z \<and> z \<le> zoom"
      then show "\<not> plan_fits opts (plan_at bounds z)" using IH nf(1) by (cases "z = zoom") auto
    qed
  qed
qed

text \<open>
  The selected tiles respect the budget and cover the padded area at the finest zoom possible: a plan has at
  most the allowed rows, columns and tiles, no zoom between its own and the largest one fits the budget, and the
  tile of every point of the padded box is one of the plan's. The error about the budget is raised exactly when
  no allowed zoom fits.
\<close>

theorem terrain_tiles_spec:
  assumes "padBounds (padding opts) bounds = Some (w, s, e, n)"
  shows "(case selectTerrainTiles opts bounds of
      Inr p \<Rightarrow> tp_columns p \<le> int (maxAxis opts) \<and> tp_rows p \<le> int (maxAxis opts) \<and> tp_count p \<le> int (maxTiles opts) \<and>
        minZoom opts \<le> tp_zoom p \<and> tp_zoom p \<le> maxZoom opts \<and>
        (\<forall>z. tp_zoom p < z \<and> z \<le> maxZoom opts \<longrightarrow> \<not> plan_fits opts (plan_at (w, s, e, n) z)) \<and>
        (\<forall>lon lat. w \<le> lon \<and> lon \<le> e \<and> s \<le> lat \<and> lat \<le> n \<longrightarrow>
           \<lfloor>tile_x lon (tp_zoom p)\<rfloor> \<in> {tp_minX p..tp_maxX p} \<and> \<lfloor>tile_y lat (tp_zoom p)\<rfloor> \<in> {tp_minY p..tp_maxY p})
    | Inl err \<Rightarrow> err = ''Coverage area is too large for the 3D terrain tile budget.'' \<and>
        (\<forall>z. minZoom opts \<le> z \<and> z \<le> maxZoom opts \<longrightarrow> \<not> plan_fits opts (plan_at (w, s, e, n) z)))"
proof (cases "try_zoom opts (w, s, e, n) (maxZoom opts)")
  case None
  then show ?thesis using assms try_zoom_None [OF None] by (simp add: selectTerrainTiles_def)
next
  case (Some p)
  note ts = try_zoom_spec [OF Some]
  define z where "z = tp_zoom p"
  have p: "tp_minX p = \<lfloor>tile_x w z\<rfloor>" "tp_maxX p = \<lfloor>tile_x e z\<rfloor>" "tp_minY p = \<lfloor>tile_y n z\<rfloor>" "tp_maxY p = \<lfloor>tile_y s z\<rfloor>"
      "tp_count p = tp_columns p * tp_rows p"
  proof -
    have "p = plan_at (w, s, e, n) z" using ts by (simp add: z_def)
    then show "tp_minX p = \<lfloor>tile_x w z\<rfloor>" "tp_maxX p = \<lfloor>tile_x e z\<rfloor>" "tp_minY p = \<lfloor>tile_y n z\<rfloor>" "tp_maxY p = \<lfloor>tile_y s z\<rfloor>"
      "tp_count p = tp_columns p * tp_rows p"
      by (simp_all add: plan_at_def lonLatToTileFraction_def Let_def)
  qed
  have "\<lfloor>tile_x lon z\<rfloor> \<in> {tp_minX p..tp_maxX p} \<and> \<lfloor>tile_y lat z\<rfloor> \<in> {tp_minY p..tp_maxY p}"
    if "w \<le> lon" "lon \<le> e" "s \<le> lat" "lat \<le> n" for lon lat
    using that by (auto simp: p intro!: floor_mono tile_x_mono tile_y_antimono)
  then have cover: "\<forall>lon lat. w \<le> lon \<and> lon \<le> e \<and> s \<le> lat \<and> lat \<le> n \<longrightarrow>
      \<lfloor>tile_x lon (tp_zoom p)\<rfloor> \<in> {tp_minX p..tp_maxX p} \<and> \<lfloor>tile_y lat (tp_zoom p)\<rfloor> \<in> {tp_minY p..tp_maxY p}"
    unfolding z_def by blast
  have "selectTerrainTiles opts bounds = Inr p" using assms Some by (simp add: selectTerrainTiles_def)
  then show ?thesis unfolding sum.case using ts cover p(5) unfolding plan_fits_def by simp
qed

theorem terrain_tiles_spec_witness:
  "padBounds (5 / 100) (Some [Fin 10, Fin 50, Fin 11, Fin 51]) = Some (995 / 100, 4995 / 100, 1105 / 100, 5105 / 100) \<and>
   (case selectTerrainTiles default_tile_options (Some [Fin 10, Fin 50, Fin 11, Fin 51]) of Inr p \<Rightarrow> tp_columns p \<le> 4 | Inl _ \<Rightarrow> True)"
proof -
  have p: "padBounds (padding default_tile_options) (Some [Fin 10, Fin 50, Fin 11, Fin 51]) = Some (995 / 100, 4995 / 100, 1105 / 100, 5105 / 100)"
    by (simp add: padBounds_def assertBounds_def default_tile_options_def max_def)
  have "maxAxis default_tile_options = 4" by (simp add: default_tile_options_def)
  then show ?thesis using terrain_tiles_spec [OF p] p by (auto simp: default_tile_options_def split: sum.splits)
qed

section \<open>Pixels of the mosaic\<close>

lemma TILE_SIZE_pos [simp]: "0 < TILE_SIZE"
  by (simp add: TILE_SIZE_def)

lemma blit_nth:
  assumes "off + length src \<le> length tgt"
  shows "length (blit src off tgt) = length tgt"
    "i < length tgt \<Longrightarrow> blit src off tgt ! i = (if off \<le> i \<and> i < off + length src then src ! (i - off) else tgt ! i)"
  using assms by (auto simp: blit_def nth_append min_def)

text \<open>Rows and columns of a grid of the given width.\<close>

lemma grid_index:
  fixes gx gx' gy gy' width :: nat
  assumes "gx < width" "gx' < width"
  shows "gy * width + gx = gy' * width + gx' \<longleftrightarrow> gy = gy' \<and> gx = gx'"
proof
  assume e: "gy * width + gx = gy' * width + gx'"
  have "gy = (gy * width + gx) div width" "gy' = (gy' * width + gx') div width" using assms by simp_all
  then have "gy = gy'" using e by simp
  then show "gy = gy' \<and> gx = gx'" using e by simp
qed simp

lemma grid_bound:
  fixes gx gy width height :: nat
  assumes "gx < width" "gy < height"
  shows "gy * width + gx < width * height"
proof -
  have "gy * width + gx < Suc gy * width" using assms(1) by simp
  also have "\<dots> \<le> height * width" using assms(2) by (intro mult_le_mono1) simp
  finally show ?thesis by (simp add: mult.commute)
qed

text \<open>The tile at column \<open>ox\<close> and row \<open>oy\<close> of the plan.\<close>

definition tile_at :: "tile_plan \<Rightarrow> tile \<Rightarrow> nat \<Rightarrow> nat \<Rightarrow> bool" where
  "tile_at plan t ox oy \<longleftrightarrow> ox = nat (tl_x t - tp_minX plan) \<and> oy = nat (tl_y t - tp_minY plan) \<and>
     length (tl_elevations t) = TILE_SIZE * TILE_SIZE"

lemma place_row_pixel:
  assumes "tile_at plan t ox oy" "ox < cols" "oy < rows" "width = cols * TILE_SIZE" "length el = width * (rows * TILE_SIZE)" "r < TILE_SIZE"
  shows "length (place_row plan width t el r) = length el"
    "gx < width \<Longrightarrow> gy < rows * TILE_SIZE \<Longrightarrow> place_row plan width t el r ! (gy * width + gx) =
       (if gy = oy * TILE_SIZE + r \<and> gx div TILE_SIZE = ox then tl_elevations t ! (r * TILE_SIZE + gx mod TILE_SIZE) else el ! (gy * width + gx))"
proof -
  define T where "T = TILE_SIZE"
  have T: "0 < T" by (simp add: T_def)
  define src where "src = take T (drop (r * T) (tl_elevations t))"
  define off where "off = (oy * T + r) * width + ox * T"
  have pr: "place_row plan width t el r = blit src off el"
    using assms(1) by (simp add: place_row_def tile_at_def src_def off_def T_def Let_def)
  have "r * T + T \<le> T * T" using assms(6) by (metis T_def Suc_leI mult_Suc mult_le_mono1 add.commute)
  then have len: "length src = T" using assms(1) by (simp add: src_def tile_at_def T_def)
  have ox: "ox * T + T \<le> width" using assms(2,4) by (metis T_def Suc_leI mult_Suc mult_le_mono1 add.commute)
  have oy: "oy * T + r < rows * T"
  proof -
    have "oy * T + r < Suc oy * T" using assms(6) by (simp add: T_def)
    also have "\<dots> \<le> rows * T" using assms(3) by (intro mult_le_mono1) simp
    finally show ?thesis .
  qed
  have fits: "off + length src \<le> length el"
  proof -
    have "(oy * T + r) * width + (ox * T + T) \<le> Suc (oy * T + r) * width" using ox by simp
    also have "\<dots> \<le> (rows * T) * width" using oy by (intro mult_le_mono1) simp
    finally show ?thesis using assms(5) by (simp add: off_def len T_def mult.commute)
  qed
  show "length (place_row plan width t el r) = length el" unfolding pr by (rule blit_nth(1) [OF fits])
  assume g: "gx < width" "gy < rows * TILE_SIZE"
  have il: "gy * width + gx < length el" using grid_bound [OF g] assms(5) by simp
  have iff: "off \<le> gy * width + gx \<and> gy * width + gx < off + T \<longleftrightarrow> gy = oy * T + r \<and> gx div T = ox"
  proof
    assume l: "off \<le> gy * width + gx \<and> gy * width + gx < off + T"
    define k where "k = gy * width + gx - off"
    have k: "k < T" "gy * width + gx = (oy * T + r) * width + (ox * T + k)" using l by (auto simp: k_def off_def)
    have "ox * T + k < width" using k(1) ox by simp
    then have "gy = oy * T + r" "gx = ox * T + k" using grid_index [OF g(1)] k(2) by blast+
    then show "gy = oy * T + r \<and> gx div T = ox" using k(1) by simp
  next
    assume e: "gy = oy * T + r \<and> gx div T = ox"
    have "gx = ox * T + gx mod T" "gx mod T < T" using T e by (metis div_mult_mod_eq, simp)
    then show "off \<le> gy * width + gx \<and> gy * width + gx < off + T" using e unfolding off_def by simp
  qed
  have "src ! (gy * width + gx - off) = tl_elevations t ! (r * T + gx mod T)" if "gy = oy * T + r" "gx div T = ox"
  proof -
    have "gx = ox * T + gx mod T" using that(2) by (metis div_mult_mod_eq)
    then have "gy * width + gx - off = gx mod T" using that(1) unfolding off_def by simp
    moreover have "gx mod T < T" using T by simp
    ultimately show ?thesis using len assms(1) by (simp add: src_def tile_at_def)
  qed
  then show "place_row plan width t el r ! (gy * width + gx) =
       (if gy = oy * TILE_SIZE + r \<and> gx div TILE_SIZE = ox then tl_elevations t ! (r * TILE_SIZE + gx mod TILE_SIZE) else el ! (gy * width + gx))"
    using blit_nth(2) [OF fits il] iff unfolding pr len T_def by simp
qed

lemma place_rows_pixel:
  assumes "tile_at plan t ox oy" "ox < cols" "oy < rows" "width = cols * TILE_SIZE" "length el = width * (rows * TILE_SIZE)" "k \<le> TILE_SIZE"
  shows "length (foldl (place_row plan width t) el [0..<k]) = length el \<and>
    (\<forall>gx gy. gx < width \<longrightarrow> gy < rows * TILE_SIZE \<longrightarrow> foldl (place_row plan width t) el [0..<k] ! (gy * width + gx) =
       (if gy div TILE_SIZE = oy \<and> gy mod TILE_SIZE < k \<and> gx div TILE_SIZE = ox
        then tl_elevations t ! (gy mod TILE_SIZE * TILE_SIZE + gx mod TILE_SIZE) else el ! (gy * width + gx)))"
  using assms(6)
proof (induction k)
  case (Suc k)
  define us where "us = foldl (place_row plan width t) el [0..<k]"
  have f: "foldl (place_row plan width t) el [0..<Suc k] = place_row plan width t us k" by (simp add: us_def)
  have k: "k < TILE_SIZE" using Suc.prems by simp
  have IH: "length us = length el" "\<And>gx gy. gx < width \<Longrightarrow> gy < rows * TILE_SIZE \<Longrightarrow> us ! (gy * width + gx) =
       (if gy div TILE_SIZE = oy \<and> gy mod TILE_SIZE < k \<and> gx div TILE_SIZE = ox
        then tl_elevations t ! (gy mod TILE_SIZE * TILE_SIZE + gx mod TILE_SIZE) else el ! (gy * width + gx))"
    using Suc.IH k by (simp_all add: us_def)
  note pr = place_row_pixel [OF assms(1-4) _ k, of us, unfolded IH(1), OF assms(5)]
  have row: "gy = oy * TILE_SIZE + k \<longleftrightarrow> gy div TILE_SIZE = oy \<and> gy mod TILE_SIZE = k" for gy
    using k by (metis div_mult_self3 div_less mod_mult_self3 mod_less div_mult_mod_eq add.commute add_0 TILE_SIZE_pos less_numeral_extra(3))
  show ?case unfolding f using pr IH row by (auto simp: less_Suc_eq)
qed simp

lemma place_tile_pixel:
  assumes "tile_at plan t ox oy" "ox < cols" "oy < rows" "width = cols * TILE_SIZE" "length el = width * (rows * TILE_SIZE)"
  shows "length (place_tile plan width el t) = length el"
    "gx < width \<Longrightarrow> gy < rows * TILE_SIZE \<Longrightarrow> place_tile plan width el t ! (gy * width + gx) =
       (if gy div TILE_SIZE = oy \<and> gx div TILE_SIZE = ox
        then tl_elevations t ! (gy mod TILE_SIZE * TILE_SIZE + gx mod TILE_SIZE) else el ! (gy * width + gx))"
  using place_rows_pixel [OF assms le_refl] by (simp_all add: place_tile_def)

lemma place_tiles_pixel:
  assumes "\<forall>t \<in> set ts. \<exists>ox < cols. \<exists>oy < rows. tile_at plan t ox oy" "width = cols * TILE_SIZE" "length el = width * (rows * TILE_SIZE)"
    "gx < width" "gy < rows * TILE_SIZE"
  shows "length (foldl (place_tile plan width) el ts) = length el"
    "(\<forall>t \<in> set ts. \<not> tile_at plan t (gx div TILE_SIZE) (gy div TILE_SIZE)) \<and>
       foldl (place_tile plan width) el ts ! (gy * width + gx) = el ! (gy * width + gx) \<or>
     (\<exists>t \<in> set ts. tile_at plan t (gx div TILE_SIZE) (gy div TILE_SIZE) \<and>
       foldl (place_tile plan width) el ts ! (gy * width + gx) = tl_elevations t ! (gy mod TILE_SIZE * TILE_SIZE + gx mod TILE_SIZE))"
proof -
  have "length (foldl (place_tile plan width) el ts) = length el \<and>
    ((\<forall>t \<in> set ts. \<not> tile_at plan t (gx div TILE_SIZE) (gy div TILE_SIZE)) \<and>
       foldl (place_tile plan width) el ts ! (gy * width + gx) = el ! (gy * width + gx) \<or>
     (\<exists>t \<in> set ts. tile_at plan t (gx div TILE_SIZE) (gy div TILE_SIZE) \<and>
       foldl (place_tile plan width) el ts ! (gy * width + gx) = tl_elevations t ! (gy mod TILE_SIZE * TILE_SIZE + gx mod TILE_SIZE)))"
    using assms(1,3)
  proof (induction ts arbitrary: el)
    case (Cons t ts)
    obtain ox oy where o: "tile_at plan t ox oy" "ox < cols" "oy < rows" using Cons.prems(1) by auto
    define us where "us = place_tile plan width el t"
    note pt = place_tile_pixel [OF o assms(2) Cons.prems(2), folded us_def]
    have pix: "us ! (gy * width + gx) = (if tile_at plan t (gx div TILE_SIZE) (gy div TILE_SIZE)
        then tl_elevations t ! (gy mod TILE_SIZE * TILE_SIZE + gx mod TILE_SIZE) else el ! (gy * width + gx))"
      using pt(2) [OF assms(4,5)] o(1) by (auto simp: tile_at_def)
    show ?case using Cons.IH [of us] Cons.prems pt(1) pix by (auto simp: us_def)
  qed simp
  then show "length (foldl (place_tile plan width) el ts) = length el"
    "(\<forall>t \<in> set ts. \<not> tile_at plan t (gx div TILE_SIZE) (gy div TILE_SIZE)) \<and>
       foldl (place_tile plan width) el ts ! (gy * width + gx) = el ! (gy * width + gx) \<or>
     (\<exists>t \<in> set ts. tile_at plan t (gx div TILE_SIZE) (gy div TILE_SIZE) \<and>
       foldl (place_tile plan width) el ts ! (gy * width + gx) = tl_elevations t ! (gy mod TILE_SIZE * TILE_SIZE + gx mod TILE_SIZE))"
    by blast+
qed

lemma all_tiles_Inr: "all_tiles rs = Inr ts \<Longrightarrow> rs = map Inr ts"
  by (induction rs arbitrary: ts rule: all_tiles.induct) (auto split: sum.splits)

lemma tile_requests_set: "set (tile_requests plan) = {tp_minX plan..tp_maxX plan} \<times> {tp_minY plan..tp_maxY plan}"
  by (auto simp: tile_requests_def)

lemma loaded_tile:
  assumes "loadTerrainTile fetch zoom x y = Inr t"
  obtains px where "fetch zoom x y = Inr px" "tl_x t = x" "tl_y t = y" "length (tl_elevations t) = TILE_SIZE * TILE_SIZE"
    "\<And>i. i < TILE_SIZE * TILE_SIZE \<Longrightarrow> tl_elevations t ! i = (let (r, g, b) = px ! i in decodeTerrainRgb r g b)"
  using assms by (auto simp: loadTerrainTile_def split: sum.splits)

lemma cell_index: "u < TILE_SIZE \<Longrightarrow> v < TILE_SIZE \<Longrightarrow> v * TILE_SIZE + u < TILE_SIZE * TILE_SIZE"
  using grid_bound [of u TILE_SIZE v TILE_SIZE] by simp

text \<open>The size a plan has when it was selected.\<close>

definition plan_sized :: "tile_plan \<Rightarrow> bool" where
  "plan_sized p \<longleftrightarrow> tp_columns p = tp_maxX p - tp_minX p + 1 \<and> tp_rows p = tp_maxY p - tp_minY p + 1"

text \<open>
  C33. Every pixel of the elevation mosaic is the decoded pixel of the tile it lies in: column and row of the
  tile follow from the pixel's position by division by the tile size, the position within the tile by the
  remainders. A mosaic is only returned when all tiles were loaded.
\<close>

theorem mosaic_pixels:
  assumes "loadTerrainMosaic fetch plan token canDecode = Inr mo" "plan_sized plan" "gx < mo_width mo" "gy < mo_height mo"
  shows "\<exists>px r g b. fetch (tp_zoom plan) (tp_minX plan + int (gx div TILE_SIZE)) (tp_minY plan + int (gy div TILE_SIZE)) = Inr px \<and>
    px ! (gy mod TILE_SIZE * TILE_SIZE + gx mod TILE_SIZE) = (r, g, b) \<and>
    mo_elevations mo ! (gy * mo_width mo + gx) = decodeTerrainRgb r g b"
proof -
  define cols rows where "cols = nat (tp_columns plan)" and "rows = nat (tp_rows plan)"
  define width where "width = cols * TILE_SIZE"
  obtain ts where ts: "all_tiles (map (\<lambda>(x, y). loadTerrainTile fetch (tp_zoom plan) x y) (tile_requests plan)) = Inr ts"
    and mo: "mo_width mo = width" "mo_height mo = rows * TILE_SIZE"
      "mo_elevations mo = foldl (place_tile plan width) (replicate (width * (rows * TILE_SIZE)) 0) ts"
    using assms(1) by (auto simp: loadTerrainMosaic_def width_def cols_def rows_def Let_def split: if_splits sum.splits)
  note req = all_tiles_Inr [OF ts]
  have tile: "\<exists>x y. t \<in> set ts \<longrightarrow> (x, y) \<in> set (tile_requests plan) \<and> loadTerrainTile fetch (tp_zoom plan) x y = Inr t" for t
  proof (cases "t \<in> set ts")
    case True
    then have "Inr t \<in> set (map (\<lambda>(x, y). loadTerrainTile fetch (tp_zoom plan) x y) (tile_requests plan))" unfolding req by simp
    then obtain x y where "(x, y) \<in> set (tile_requests plan)" "loadTerrainTile fetch (tp_zoom plan) x y = Inr t" by fastforce
    then show ?thesis by blast
  qed simp
  have inplan: "\<exists>ox < cols. \<exists>oy < rows. tile_at plan t ox oy" if tt: "t \<in> set ts" for t
  proof -
    obtain x y where xy: "(x, y) \<in> set (tile_requests plan)" "loadTerrainTile fetch (tp_zoom plan) x y = Inr t" using tile tt by blast
    have "nat (x - tp_minX plan) < cols" "nat (y - tp_minY plan) < rows"
      using xy(1) assms(2) by (auto simp: tile_requests_set cols_def rows_def plan_sized_def)
    then show ?thesis using loaded_tile [OF xy(2)] by (metis tile_at_def)
  qed
  have g: "gx < width" "gy < rows * TILE_SIZE" using assms(3,4) mo by simp_all
  have gd: "gx div TILE_SIZE < cols" "gy div TILE_SIZE < rows" using g by (simp_all add: width_def less_mult_imp_div_less)
  define X Y where "X = tp_minX plan + int (gx div TILE_SIZE)" and "Y = tp_minY plan + int (gy div TILE_SIZE)"
  have "(X, Y) \<in> set (tile_requests plan)"
    using gd assms(2) by (auto simp: tile_requests_set X_def Y_def cols_def rows_def plan_sized_def)
  then have "loadTerrainTile fetch (tp_zoom plan) X Y \<in> set (map Inr ts)" unfolding req [symmetric] by force
  then obtain t0 where t0: "t0 \<in> set ts" "loadTerrainTile fetch (tp_zoom plan) X Y = Inr t0" by auto
  have "tile_at plan t0 (gx div TILE_SIZE) (gy div TILE_SIZE)"
    using loaded_tile [OF t0(2)] by (metis tile_at_def X_def Y_def add_diff_cancel_left' nat_int)
  then obtain t where t: "t \<in> set ts" "tile_at plan t (gx div TILE_SIZE) (gy div TILE_SIZE)"
      "mo_elevations mo ! (gy * width + gx) = tl_elevations t ! (gy mod TILE_SIZE * TILE_SIZE + gx mod TILE_SIZE)"
    using place_tiles_pixel(2) [of ts cols rows plan width "replicate (width * (rows * TILE_SIZE)) 0" gx gy] inplan g t0(1)
    unfolding mo(3) by (auto simp: width_def)
  obtain x y where xy: "(x, y) \<in> set (tile_requests plan)" "loadTerrainTile fetch (tp_zoom plan) x y = Inr t" using tile t(1) by blast
  obtain px where px: "fetch (tp_zoom plan) x y = Inr px" "tl_x t = x" "tl_y t = y"
      "\<And>i. i < TILE_SIZE * TILE_SIZE \<Longrightarrow> tl_elevations t ! i = (let (r, g, b) = px ! i in decodeTerrainRgb r g b)"
    using loaded_tile [OF xy(2)] by metis
  have "x = X" "y = Y" using t(2) px(2,3) xy(1) by (auto simp: tile_at_def tile_requests_set X_def Y_def)
  moreover have "gy mod TILE_SIZE * TILE_SIZE + gx mod TILE_SIZE < TILE_SIZE * TILE_SIZE" by (rule cell_index) simp_all
  ultimately show ?thesis using px t(3) mo(1) by (cases "px ! (gy mod TILE_SIZE * TILE_SIZE + gx mod TILE_SIZE)") (auto simp: X_def Y_def)
qed

definition sample_plan :: tile_plan where
  "sample_plan = \<lparr>tp_zoom = 8, tp_minX = 3, tp_maxX = 3, tp_minY = 5, tp_maxY = 5, tp_columns = 1, tp_rows = 1, tp_count = 1, tp_bounds = (0, 0, 1, 1)\<rparr>"

theorem mosaic_pixels_witness:
  "\<exists>mo. loadTerrainMosaic (\<lambda>_ _ _. Inr (replicate 65536 (1, 134, 160))) sample_plan ''pk'' True = Inr mo \<and>
     mo_elevations mo ! (7 * mo_width mo + 4) = 0"
proof -
  let ?f = "\<lambda>_ _ _. Inr (replicate 65536 (1, 134, 160)) :: string + (nat \<times> nat \<times> nat) list"
  obtain mo where mo: "loadTerrainMosaic ?f sample_plan ''pk'' True = Inr mo" "mo_width mo = 256" "mo_height mo = 256"
    by (auto simp: loadTerrainMosaic_def sample_plan_def tile_requests_def loadTerrainTile_def TILE_SIZE_def)
  have "plan_sized sample_plan" by (simp add: plan_sized_def sample_plan_def)
  from mosaic_pixels [OF mo(1) this, of 4 7] mo(2,3)
  have "mo_elevations mo ! (7 * mo_width mo + 4) = decodeTerrainRgb 1 134 160" by (auto simp: TILE_SIZE_def)
  then show ?thesis using mo(1) by (auto simp: decodeTerrainRgb_def)
qed

end
