(* ===== verification/TerrainStreets.thy ===== *)
theory TerrainStreets
  imports Terrain
begin

text \<open>
  Streets and surface of the coverage diorama, second part of
  \<open>static/js/modules/features/coverage-diorama/terrain.js\<close>: points in polygons, densified streets and the
  simplification of the boundary.

  \<^item> A ring is a list of points, where \<open>None\<close> is an entry that is not an array; streets have finite coordinates.
  \<^item> A list of positions is a list of points; the source flattens it into one array of numbers.
  \<^item> Shown: sampling stays between the smallest and the largest elevation; a point is in a ring exactly when the
    number of crossings is odd, closed or not; densifying keeps every vertex; a simplified
    ring keeps to the allowed number of points and stays closed.
\<close>

section \<open>Sampling\<close>

lemma convex_bounds:
  fixes a b t lo hi :: real
  assumes "lo \<le> a" "a \<le> hi" "lo \<le> b" "b \<le> hi" "0 \<le> t" "t \<le> 1"
  shows "lo \<le> a * (1 - t) + b * t" "a * (1 - t) + b * t \<le> hi"
proof -
  have "lo * (1 - t) + lo * t \<le> a * (1 - t) + b * t" using assms by (intro add_mono mult_right_mono) auto
  then show "lo \<le> a * (1 - t) + b * t" by (simp add: algebra_simps)
  have "a * (1 - t) + b * t \<le> hi * (1 - t) + hi * t" using assms by (intro add_mono mult_right_mono) auto
  then show "a * (1 - t) + b * t \<le> hi" by (simp add: algebra_simps)
qed

text \<open>
  Bilinear sampling of a grid reads inside the grid for every position, also outside of it, and the sample
  lies between bounds of the grid's values.
\<close>

theorem sample_bounds:
  assumes "0 < width" "0 < height" "length vals = width * height" "\<forall>v \<in> set vals. lo \<le> v \<and> v \<le> hi"
  shows "lo \<le> bilinearSampleGrid vals width height x y \<and> bilinearSampleGrid vals width height x y \<le> hi"
proof -
  define sx sy where "sx = max 0 (min (real width - 1) x)" and "sy = max 0 (min (real height - 1) y)"
  define x0 y0 where "x0 = nat \<lfloor>sx\<rfloor>" and "y0 = nat \<lfloor>sy\<rfloor>"
  define x1 y1 where "x1 = min (width - 1) (x0 + 1)" and "y1 = min (height - 1) (y0 + 1)"
  have s: "0 \<le> sx" "sx \<le> real (width - 1)" "0 \<le> sy" "sy \<le> real (height - 1)"
    using assms(1,2) by (auto simp: sx_def sy_def of_nat_diff)
  have i: "x0 < width" "y0 < height" "x1 < width" "y1 < height" using s assms(1,2) by (auto simp: x0_def y0_def x1_def y1_def) linarith+
  have t: "0 \<le> sx - real x0" "sx - real x0 \<le> 1" "0 \<le> sy - real y0" "sy - real y0 \<le> 1"
    using s by (auto simp: x0_def y0_def) linarith+
  have v: "lo \<le> vals ! (b * width + a) \<and> vals ! (b * width + a) \<le> hi" if "a < width" "b < height" for a b
    using grid_bound [OF that] assms(3,4) by (simp add: nth_mem)
  have "bilinearSampleGrid vals width height x y =
      (vals ! (y0 * width + x0) * (1 - (sx - real x0)) + vals ! (y0 * width + x1) * (sx - real x0)) * (1 - (sy - real y0)) +
      (vals ! (y1 * width + x0) * (1 - (sx - real x0)) + vals ! (y1 * width + x1) * (sx - real x0)) * (sy - real y0)"
    by (simp add: bilinearSampleGrid_def Let_def sx_def sy_def x0_def y0_def x1_def y1_def)
  moreover note row = convex_bounds [OF conjunct1 [OF v] conjunct2 [OF v] conjunct1 [OF v] conjunct2 [OF v] t(1,2)]
  note tops = row [OF i(1,2) i(1,2) i(3,2) i(3,2)] and bottoms = row [OF i(1,4) i(1,4) i(3,4) i(3,4)]
  ultimately show ?thesis using convex_bounds [OF tops bottoms t(3,4)] by simp
qed

theorem sample_bounds_witness:
  "1 \<le> bilinearSampleGrid [1, 2, 3, 4] 2 2 (1 / 2) 9 \<and> bilinearSampleGrid [1, 2, 3, 4] 2 2 (1 / 2) 9 \<le> 4"
  by (rule sample_bounds) simp_all

section \<open>Points in polygons\<close>

type_synonym ring = "coord option list"

definition crosses :: "jsnum \<Rightarrow> jsnum \<Rightarrow> coord option \<Rightarrow> coord option \<Rightarrow> bool" where
  "crosses lon lat currentPoint previousPoint =
     (case (currentPoint, previousPoint) of
        (Some c, Some p) \<Rightarrow>
          let xi = js_at c 0; yi = js_at c 1; xj = js_at p 0; yj = js_at p 1
          in (yi > lat) \<noteq> (yj > lat) \<and> lon < (xj - xi) * (lat - yi) / js_or (yj - yi) (Fin (1 / 10 ^ 12)) + xi
      | _ \<Rightarrow> False)"

definition pointInRing :: "jsnum \<Rightarrow> jsnum \<Rightarrow> ring \<Rightarrow> bool" where
  "pointInRing lon lat ring =
     foldl (\<lambda>inside i. if crosses lon lat (ring ! i) (ring ! (if i = 0 then length ring - 1 else i - 1)) then \<not> inside else inside)
       False [0..<length ring]"

definition pointInPolygon :: "jsnum \<Rightarrow> jsnum \<Rightarrow> ring list \<Rightarrow> bool" where
  "pointInPolygon lon lat rings =
     (case rings of [] \<Rightarrow> False
      | outer # holes \<Rightarrow> pointInRing lon lat outer \<and> \<not> list_ex (pointInRing lon lat) holes)"

datatype boundary = Polygon "ring list" | MultiPolygon "ring list list" | OtherBoundary

definition pointInBoundary :: "jsnum \<Rightarrow> jsnum \<Rightarrow> boundary \<Rightarrow> bool" where
  "pointInBoundary lon lat b =
     (case b of Polygon rings \<Rightarrow> pointInPolygon lon lat rings
      | MultiPolygon polygons \<Rightarrow> list_ex (pointInPolygon lon lat) polygons
      | OtherBoundary \<Rightarrow> False)"

text \<open>The edges of a ring, each point with its predecessor.\<close>

definition ring_edges :: "ring \<Rightarrow> (coord option \<times> coord option) list" where
  "ring_edges ring = (if ring = [] then [] else zip ring (List.last ring # butlast ring))"

lemma toggle_parity: "foldl (\<lambda>inside i. if P i then \<not> inside else inside) b is \<longleftrightarrow> (b \<noteq> odd (length (filter P is)))"
  by (induction "is" arbitrary: b) auto

lemma ring_edges_nth: "ring_edges ring = map (\<lambda>i. (ring ! i, ring ! (if i = 0 then length ring - 1 else i - 1))) [0..<length ring]"
proof (cases "ring = []")
  case False
  then show ?thesis
    by (auto simp: ring_edges_def last_conv_nth nth_butlast nth_Cons' intro!: nth_equalityI)
qed (simp add: ring_edges_def)

definition crossings :: "jsnum \<Rightarrow> jsnum \<Rightarrow> ring \<Rightarrow> nat" where
  "crossings lon lat ring = length (filter (\<lambda>(c, p). crosses lon lat c p) (ring_edges ring))"

lemma pointInRing_odd: "pointInRing lon lat ring \<longleftrightarrow> odd (crossings lon lat ring)"
  by (simp add: pointInRing_def toggle_parity crossings_def ring_edges_nth filter_map comp_def)

lemma crosses_self: "\<not> crosses lon lat c c"
  by (simp add: crosses_def Let_def split: option.split)

lemma crossings_closed: "crossings lon lat (r # rs @ [r]) = crossings lon lat (r # rs)"
proof -
  have e: "ring_edges (r # rs @ [r]) = (r, r) # zip rs (butlast (r # rs)) @ [(r, List.last (r # rs))]"
  proof -
    have "r # rs = butlast (r # rs) @ [List.last (r # rs)]" by simp
    then have "zip (rs @ [r]) (r # rs) = zip (rs @ [r]) (butlast (r # rs) @ [List.last (r # rs)])" by simp
    also have "\<dots> = zip rs (butlast (r # rs)) @ [(r, List.last (r # rs))]" by (subst zip_append) simp_all
    finally have "zip (rs @ [r]) (r # rs) = zip rs (butlast (r # rs)) @ [(r, List.last (r # rs))]" .
    then show ?thesis by (simp add: ring_edges_def butlast_append)
  qed
  have "ring_edges (r # rs) = (r, List.last (r # rs)) # zip rs (butlast (r # rs))" by (simp add: ring_edges_def)
  then show ?thesis unfolding crossings_def e by (simp add: crosses_self)
qed

text \<open>
  A point lies in a ring exactly when an odd number of its edges crosses the ray from the point, and it makes
  no difference whether the ring repeats its first point at the end: the test is the same for closed and open
  rings. A polygon holds a point that is in its outer ring and in none of its holes.
\<close>

theorem point_in_ring_parity:
  "(pointInRing lon lat ring \<longleftrightarrow> odd (card {i. i < length ring \<and>
      crosses lon lat (ring ! i) (ring ! ((i + length ring - 1) mod length ring))})) \<and>
   pointInRing lon lat (r # rs @ [r]) = pointInRing lon lat (r # rs) \<and>
   (pointInPolygon lon lat (outer # holes) \<longleftrightarrow> pointInRing lon lat outer \<and> (\<forall>h \<in> set holes. \<not> pointInRing lon lat h))"
proof -
  have prev: "(if i = 0 then length ring - 1 else i - 1) = (i + length ring - 1) mod length ring" if "i < length ring" for i
    using that by (cases i) auto
  have "crossings lon lat ring = length (filter (\<lambda>i. crosses lon lat (ring ! i) (ring ! ((i + length ring - 1) mod length ring))) [0..<length ring])"
    unfolding crossings_def ring_edges_nth filter_map length_map comp_def case_prod_conv
    by (rule arg_cong [where f = length], rule filter_cong [OF refl]) (simp only: atLeastLessThan_iff set_upt prev)
  also have "\<dots> = card {i. i < length ring \<and> crosses lon lat (ring ! i) (ring ! ((i + length ring - 1) mod length ring))}"
    by (simp add: length_filter_conv_card cong: conj_cong)
  finally show ?thesis using crossings_closed by (auto simp: pointInRing_odd pointInPolygon_def list_ex_iff)
qed

theorem point_in_ring_parity_witness:
  "pointInPolygon 3 1 [[Some [0, 0], Some [4, 0], Some [4, 4], Some [0, 4]], [Some [1, 1], Some [2, 1], Some [2, 2]]] \<and>
   \<not> (\<forall>h \<in> {[Some [0, 0], Some [4, 0], Some [4, 4], Some [0, 4]]}. \<not> pointInRing 3 1 h)"
proof -
  have "pointInRing 3 1 [Some [0, 0], Some [4, 0], Some [4, 4], Some [0, 4]]"
    "\<not> pointInRing 3 1 [Some [1, 1], Some [2, 1], Some [2, 2]]"
    by (simp_all add: pointInRing_def crosses_def js_or_def falsy_def upt_rec numeral_eq_Suc)
  then show ?thesis
    using point_in_ring_parity [where lon = 3 and lat = 1 and outer = "[Some [0, 0], Some [4, 0], Some [4, 4], Some [0, 4]]"
        and holes = "[[Some [1, 1], Some [2, 1], Some [2, 2]]]"] by simp
qed

section \<open>Streets\<close>

type_synonym lonlat = "real \<times> real"

datatype street_geometry = LineString "lonlat list" | MultiLineString "lonlat list option list" | OtherGeometry

text \<open>A part of a multi line that is not an array is \<open>None\<close>.\<close>

definition extractLineParts :: "street_geometry \<Rightarrow> lonlat list list" where
  "extractLineParts geometry =
     (case geometry of
        LineString c \<Rightarrow> if 2 \<le> length c then [c] else []
      | MultiLineString ps \<Rightarrow> concat (map (\<lambda>part. case part of Some c \<Rightarrow> if 2 \<le> length c then [c] else [] | None \<Rightarrow> []) ps)
      | OtherGeometry \<Rightarrow> [])"

definition density_steps :: "local_projection \<Rightarrow> real \<Rightarrow> lonlat \<Rightarrow> lonlat \<Rightarrow> nat" where
  "density_steps pr maxDistanceM start fin =
     (let (sx, sz) = projectLonLat pr (fst start) (snd start); (ex, ez) = projectLonLat pr (fst fin) (snd fin);
          dist = sqrt ((ex - sx)\<^sup>2 + (ez - sz)\<^sup>2)
      in nat (max 1 \<lceil>dist / maxDistanceM\<rceil>))"

definition densify_step :: "local_projection \<Rightarrow> real \<Rightarrow> lonlat \<Rightarrow> lonlat \<Rightarrow> lonlat list" where
  "densify_step pr maxDistanceM start fin =
     (let steps = density_steps pr maxDistanceM start fin
      in map (\<lambda>k. let ratio = real k / real steps
                  in (fst start + (fst fin - fst start) * ratio, snd start + (snd fin - snd start) * ratio)) [1..<Suc steps])"

definition densifyLinePart :: "lonlat list \<Rightarrow> local_projection \<Rightarrow> real \<Rightarrow> lonlat list" where
  "densifyLinePart part pr maxDistanceM =
     (if length part < 2 then []
      else part ! 0 # concat (map (\<lambda>i. densify_step pr maxDistanceM (part ! (i - 1)) (part ! i)) [1..<length part]))"

type_synonym point3 = "real \<times> real \<times> real"

definition street_point :: "mosaic \<Rightarrow> local_projection \<Rightarrow> real \<Rightarrow> real \<Rightarrow> real \<Rightarrow> lonlat \<Rightarrow> point3" where
  "street_point mo pr baseElevation verticalScale liftM c =
     (let (x, z) = projectLonLat pr (fst c) (snd c); elevation = sampleTerrainMosaic mo (fst c) (snd c)
      in (x, (elevation - baseElevation) * verticalScale + liftM, z))"

definition buildStreetPairPositions :: "street_geometry \<Rightarrow> mosaic \<Rightarrow> local_projection \<Rightarrow> real \<Rightarrow> real \<Rightarrow> real \<Rightarrow> real \<Rightarrow> point3 list" where
  "buildStreetPairPositions geometry mo pr baseElevation verticalScale liftM maxDistanceM =
     concat (map (\<lambda>rawPart.
       let part = densifyLinePart rawPart pr maxDistanceM
       in concat (map (\<lambda>i. [street_point mo pr baseElevation verticalScale liftM (part ! (i - 1)),
                            street_point mo pr baseElevation verticalScale liftM (part ! i)]) [1..<length part]))
       (extractLineParts geometry))"

lemma density_steps_pos: "0 < density_steps pr d a b"
  by (simp add: density_steps_def Let_def less_max_iff_disj split: prod.split)

lemma densify_step_length [simp]: "length (densify_step pr d a b) = density_steps pr d a b"
  by (simp add: densify_step_def Let_def)

lemma densify_step_last: "densify_step pr d a b \<noteq> [] \<and> List.last (densify_step pr d a b) = b"
proof -
  have "0 < density_steps pr d a b" by (rule density_steps_pos)
  then show ?thesis by (simp add: densify_step_def Let_def prod_eq_iff last_map)
qed

lemma street_pairs_length: "length (concat (map (\<lambda>i. [f (i - 1), f i]) [1..<n])) = 2 * (n - 1)"
  by (induction n) auto

text \<open>
  Densifying a street keeps its shape: the result starts at the first point, contains every vertex, and
  between two neighbouring vertices has one point for every started stretch of the permitted length, evenly spaced
  and ending exactly at the second vertex. The position buffer of a street therefore holds two points for every
  one of these stretches.
\<close>

theorem densify_keeps_vertices:
  fixes pr :: local_projection and d :: real
  assumes "2 \<le> length part"
  defines "steps \<equiv> \<lambda>i. density_steps pr d (part ! (i - 1)) (part ! i)"
  shows "hd (densifyLinePart part pr d) = part ! 0 \<and> set part \<subseteq> set (densifyLinePart part pr d) \<and>
    length (densifyLinePart part pr d) = 1 + (\<Sum>i = 1..<length part. steps i) \<and>
    List.last (densifyLinePart part pr d) = List.last part \<and>
    length (buildStreetPairPositions (LineString part) mo pr e v l d) = 2 * (\<Sum>i = 1..<length part. steps i)"
proof -
  let ?rest = "concat (map (\<lambda>i. densify_step pr d (part ! (i - 1)) (part ! i)) [1..<length part])"
  have eq: "densifyLinePart part pr d = part ! 0 # ?rest" using assms(1) by (simp add: densifyLinePart_def)
  have len: "length ?rest = (\<Sum>i = 1..<length part. steps i)"
    by (simp add: length_concat comp_def interv_sum_list_conv_sum_set_nat steps_def)
  have "part ! i \<in> set (part ! 0 # ?rest)" if i: "i < length part" for i
  proof (cases "i = 0")
    case False
    have "part ! i \<in> set (densify_step pr d (part ! (i - 1)) (part ! i))"
      using densify_step_last last_in_set by metis
    then show ?thesis using i False by (auto intro!: bexI [of _ i])
  qed simp
  then have sub: "set part \<subseteq> set (part ! 0 # ?rest)" unfolding in_set_conv_nth [of _ part] subset_iff by blast
  have up: "[1..<length part] = [1..<length part - 1] @ [length part - 1]" using assms(1) by (cases "length part") simp_all
  have ne: "part \<noteq> []" "densify_step pr d (part ! (length part - 1 - 1)) (part ! (length part - 1)) \<noteq> []"
    using assms(1) densify_step_last by auto
  have la: "List.last (part ! 0 # ?rest) = List.last part"
    unfolding up using ne(2) by (simp add: densify_step_last last_conv_nth [OF ne(1)])
  have "length (buildStreetPairPositions (LineString part) mo pr e v l d) = 2 * (length (densifyLinePart part pr d) - 1)"
    using assms(1) street_pairs_length [of "\<lambda>i. street_point mo pr e v l (densifyLinePart part pr d ! i)"]
    by (simp add: buildStreetPairPositions_def extractLineParts_def Let_def)
  then show ?thesis using sub la len unfolding eq by simp
qed

theorem densify_keeps_vertices_witness:
  "set [(0, 0), (1, 2), (3, 0)] \<subseteq> set (densifyLinePart [(0, 0), (1, 2), (3, 0)] \<lparr>centerLon = 0, centerLat = 0, originX = 0, originY = 0\<rparr> 100)"
  using densify_keeps_vertices [of "[(0, 0), (1, 2), (3, 0)]"] by simp

section \<open>The boundary of the grid\<close>

definition ring_coord :: "coord option \<Rightarrow> nat \<Rightarrow> jsnum option" where
  "ring_coord p k = (case p of None \<Rightarrow> None | Some c \<Rightarrow> if k < length c then Some (c ! k) else None)"

definition ring_closed :: "ring \<Rightarrow> bool" where
  "ring_closed ring \<longleftrightarrow> length ring > 1 \<and>
     (\<forall>k \<in> set [0, 1]. ring_coord (ring ! 0) k = ring_coord (ring ! (length ring - 1)) k \<and> ring_coord (ring ! 0) k \<noteq> Some NaN)"

text \<open>The indices \<open>0\<close>, \<open>stride\<close>, \<open>2 * stride\<close>, \<dots> below \<open>n\<close> are visited; \<open>n \<le> stride * \<lceil>n / stride\<rceil>\<close>.\<close>

definition strided :: "nat \<Rightarrow> nat \<Rightarrow> nat list" where
  "strided stride n = map (\<lambda>k. k * stride) [0..<(n + stride - 1) div stride]"

definition simplifyRing :: "nat \<Rightarrow> ring \<Rightarrow> ring" where
  "simplifyRing maxPointsPerRing ring =
     (if length ring \<le> maxPointsPerRing then ring
      else
        let closed = ring_closed ring;
            sourceLength = (if closed then length ring - 1 else length ring);
            stride = nat \<lceil>real sourceLength / real (max 3 (maxPointsPerRing - 1))\<rceil>;
            simplified = map (\<lambda>index. ring ! index) (strided stride sourceLength)
        in if closed \<and> simplified \<noteq> [] then simplified @ [simplified ! 0] else simplified)"

definition simplifyBoundaryForGrid :: "boundary \<Rightarrow> nat \<Rightarrow> boundary" where
  "simplifyBoundaryForGrid b maxPointsPerRing =
     (case b of
        Polygon rings \<Rightarrow> Polygon (map (simplifyRing maxPointsPerRing) rings)
      | MultiPolygon polygons \<Rightarrow> MultiPolygon (map (map (simplifyRing maxPointsPerRing)) polygons)
      | OtherBoundary \<Rightarrow> OtherBoundary)"

lemma strided_mem: "0 < stride \<Longrightarrow> set (strided stride n) = {i. i < n \<and> stride dvd i}"
proof -
  assume s: "0 < stride"
  have "k * stride < n \<longleftrightarrow> k < (n + stride - 1) div stride" for k
  proof -
    have "k < (n + stride - 1) div stride \<longleftrightarrow> Suc k * stride \<le> n + stride - 1"
      using less_eq_div_iff_mult_less_eq [OF s, of "Suc k"] by (simp only: Suc_le_eq)
    then show ?thesis using s by auto
  qed
  then have "set (strided stride n) = (\<lambda>k. k * stride) ` {k. k * stride < n}" by (auto simp: strided_def)
  then show ?thesis by (auto elim!: dvdE simp: mult.commute [of stride])
qed

lemma ceil_stride:
  assumes "0 < n" "0 < k"
  shows "0 < nat \<lceil>real n / real k\<rceil>" "length (strided (nat \<lceil>real n / real k\<rceil>) n) \<le> k"
proof -
  let ?s = "nat \<lceil>real n / real k\<rceil>"
  have "0 < real n / real k" using assms by simp
  then show p: "0 < ?s" by linarith
  have "real n / real k \<le> real ?s" by linarith
  moreover have "0 < real k" using assms(2) by simp
  ultimately have "real n \<le> real ?s * real k" by (simp only: pos_divide_le_eq)
  then have "real n \<le> real (?s * k)" by simp
  then have "n \<le> k * ?s" by (simp only: of_nat_le_iff mult.commute)
  then have "n + ?s - 1 < Suc k * ?s" unfolding mult_Suc using p by linarith
  then show "length (strided ?s n) \<le> k" by (simp add: strided_def div_less_iff_less_mult [OF p] less_Suc_eq_le [symmetric])
qed

text \<open>
  Simplifying a ring keeps it within the allowed number of points, takes its points from the ring, starts at the
  same point and keeps a closed ring closed; a ring that is small enough is not changed.
\<close>

theorem simplifyRing_spec:
  assumes "4 \<le> n"
  shows "length (simplifyRing n ring) \<le> n \<and> set (simplifyRing n ring) \<subseteq> set ring \<and>
    (ring \<noteq> [] \<longrightarrow> simplifyRing n ring \<noteq> [] \<and> hd (simplifyRing n ring) = hd ring) \<and>
    (ring_closed ring \<longrightarrow> ring_closed (simplifyRing n ring)) \<and>
    (length ring \<le> n \<longrightarrow> simplifyRing n ring = ring)"
proof (cases "length ring \<le> n")
  case False
  define src where "src = (if ring_closed ring then length ring - 1 else length ring)"
  define st where "st = nat \<lceil>real src / real (n - 1)\<rceil>"
  define out where "out = map (\<lambda>index. ring ! index) (strided st src)"
  have src: "0 < src" "src \<le> length ring" "ring \<noteq> []" using False assms by (auto simp: src_def)
  have eq: "simplifyRing n ring = (if ring_closed ring \<and> out \<noteq> [] then out @ [out ! 0] else out)"
    using False assms by (simp add: simplifyRing_def Let_def src_def out_def st_def max_def)
  note c = ceil_stride [of src "n - 1", folded st_def]
  have st: "0 < st" "length out \<le> n - 1" using c src assms by (simp_all add: out_def)
  have sub: "set out \<subseteq> set ring" using strided_mem [OF st(1)] src by (auto simp: out_def)
  have "1 * st \<le> src + st - 1" using src(1) by simp
  then have "1 \<le> (src + st - 1) div st" using st(1) by (simp only: less_eq_div_iff_mult_less_eq)
  then have "\<exists>l. strided st src = 0 # l" by (simp add: strided_def upt_rec [of 0])
  then obtain l where "out = ring ! 0 # l" by (auto simp: out_def)
  moreover have "ring ! 0 = hd ring" using src(3) by (simp add: hd_conv_nth)
  moreover have "ring_closed (simplifyRing n ring)" if "ring_closed ring"
    using that \<open>out = ring ! 0 # l\<close> by (auto simp: eq ring_closed_def)
  ultimately show ?thesis using False st(2) assms sub src(3) by (auto simp: eq)
qed (simp add: simplifyRing_def)

theorem simplifyRing_spec_witness:
  "length (simplifyRing 4 [Some [0, 0], Some [1, 0], Some [2, 0], Some [2, 2], Some [0, 0]]) \<le> 4 \<and>
   ring_closed (simplifyRing 4 [Some [0, 0], Some [1, 0], Some [2, 0], Some [2, 2], Some [0, 0]])"
proof -
  have "ring_closed [Some [0, 0], Some [1, 0], Some [2, 0], Some [2, 2], Some [0, 0]]" by (simp add: ring_closed_def ring_coord_def)
  then show ?thesis using simplifyRing_spec [of 4 "[Some [0, 0], Some [1, 0], Some [2, 0], Some [2, 2], Some [0, 0]]"] by blast
qed

end
