(* ===== verification/TerrainMesh.thy ===== *)
theory TerrainMesh
  imports TerrainStreets
begin

text \<open>
  The mesh of the coverage diorama, \<open>buildTerrainMeshData\<close> of
  \<open>static/js/modules/features/coverage-diorama/terrain.js\<close>: a grid of cells over the area, of which those with their
  centre in the boundary get a top, a bottom and walls towards cells that are left out.

  \<^item> \<open>positions\<close> is the list of the points pushed, three to a triangle; the source flattens it into one array of
    numbers of single precision, here exact.
  \<^item> Shown: the mesh is watertight (every edge belongs to an even number of triangles), its size is determined by
    the included cells and their exposed edges, and its heights lie between the bottom and the scaled relief.
\<close>

section \<open>The mesh\<close>

text \<open>
  The grid has \<open>columns\<close> by \<open>rows\<close> cells; \<open>heights\<close> holds the elevations of its corners and \<open>included\<close> says which
  cells have their centre in the boundary, both row by row.
\<close>

record mesh_grid =
  mg_box :: box
  mg_columns :: nat
  mg_rows :: nat
  mg_heights :: "real list"
  mg_included :: "bool list"
  mg_minElevation :: real
  mg_projection :: local_projection
  mg_verticalScale :: real
  mg_bottomY :: real

definition grid_lon :: "box \<Rightarrow> nat \<Rightarrow> real \<Rightarrow> real" where
  "grid_lon b columns column = (let (minLon, minLat, maxLon, maxLat) = b in minLon + (maxLon - minLon) * column / real columns)"

definition grid_lat :: "box \<Rightarrow> nat \<Rightarrow> real \<Rightarrow> real" where
  "grid_lat b rows row = (let (minLon, minLat, maxLon, maxLat) = b in maxLat - (maxLat - minLat) * row / real rows)"

definition sample_heights :: "mosaic \<Rightarrow> box \<Rightarrow> nat \<Rightarrow> nat \<Rightarrow> real list" where
  "sample_heights mo b columns rows =
     concat (map (\<lambda>row. map (\<lambda>column. sampleTerrainMosaic mo (grid_lon b columns (real column)) (grid_lat b rows (real row)))
       [0..<columns + 1]) [0..<rows + 1])"

definition included_cells :: "boundary \<Rightarrow> box \<Rightarrow> nat \<Rightarrow> nat \<Rightarrow> bool list" where
  "included_cells clippingBoundary b columns rows =
     concat (map (\<lambda>row. map (\<lambda>column. pointInBoundary (Fin (grid_lon b columns (real column + 1 / 2)))
         (Fin (grid_lat b rows (real row + 1 / 2))) clippingBoundary) [0..<columns]) [0..<rows])"

definition vertex :: "mesh_grid \<Rightarrow> nat \<Rightarrow> nat \<Rightarrow> point3" where
  "vertex g column row =
     (let (x, z) = projectLonLat (mg_projection g) (grid_lon (mg_box g) (mg_columns g) (real column)) (grid_lat (mg_box g) (mg_rows g) (real row));
          elevation = mg_heights g ! (row * (mg_columns g + 1) + column)
      in (x, (elevation - mg_minElevation g) * mg_verticalScale g, z))"

definition to_bottom :: "mesh_grid \<Rightarrow> point3 \<Rightarrow> point3" where
  "to_bottom g pt = (fst pt, mg_bottomY g, snd (snd pt))"

definition neighbor_included :: "mesh_grid \<Rightarrow> int \<Rightarrow> int \<Rightarrow> bool" where
  "neighbor_included g column row \<longleftrightarrow> 0 \<le> column \<and> column < int (mg_columns g) \<and> 0 \<le> row \<and> row < int (mg_rows g) \<and>
     mg_included g ! nat (row * int (mg_columns g) + column)"

definition wall :: "mesh_grid \<Rightarrow> point3 \<Rightarrow> point3 \<Rightarrow> point3 list" where
  "wall g start fin = [start, to_bottom g start, fin, fin, to_bottom g start, to_bottom g fin]"

definition appendExposedEdge :: "mesh_grid \<Rightarrow> nat \<Rightarrow> nat \<Rightarrow> int \<Rightarrow> int \<Rightarrow> point3 \<Rightarrow> point3 \<Rightarrow> point3 list" where
  "appendExposedEdge g column row dx dy start fin =
     (if neighbor_included g (int column + dx) (int row + dy) then [] else wall g start fin)"

definition cell_positions :: "mesh_grid \<Rightarrow> nat \<Rightarrow> nat \<Rightarrow> point3 list" where
  "cell_positions g column row =
     (if \<not> mg_included g ! (row * mg_columns g + column) then []
      else
        let t0 = vertex g column row; t1 = vertex g (column + 1) row; t2 = vertex g column (row + 1); t3 = vertex g (column + 1) (row + 1);
            b0 = to_bottom g t0; b1 = to_bottom g t1; b2 = to_bottom g t2; b3 = to_bottom g t3
        in [t0, t2, t1, t1, t2, t3] @ [b0, b1, b2, b1, b3, b2] @
           appendExposedEdge g column row 0 (- 1) t0 t1 @ appendExposedEdge g column row 1 0 t1 t3 @
           appendExposedEdge g column row 0 1 t3 t2 @ appendExposedEdge g column row (- 1) 0 t2 t0)"

definition mesh_positions :: "mesh_grid \<Rightarrow> point3 list" where
  "mesh_positions g = concat (map (\<lambda>row. concat (map (\<lambda>column. cell_positions g column row) [0..<mg_columns g])) [0..<mg_rows g])"

record mesh_data =
  md_positions :: "point3 list"
  md_minElevation :: real
  md_maxElevation :: real
  md_bottomY :: real
  md_horizontalSpan :: real

definition make_mesh :: "box \<Rightarrow> boundary \<Rightarrow> mosaic \<Rightarrow> local_projection \<Rightarrow> real \<Rightarrow> real \<Rightarrow> string + mesh_data" where
  "make_mesh box b mo pr resolution verticalScale =
     (let columns = nat (max 8 \<lfloor>resolution\<rfloor>); rows = columns;
          clippingBoundary = simplifyBoundaryForGrid b (columns * 6);
          (minLon, minLat, maxLon, maxLat) = box;
          heights = sample_heights mo box columns rows;
          minElevation = fold min (tl heights) (hd heights); maxElevation = fold max (tl heights) (hd heights);
          included = included_cells clippingBoundary box columns rows
      in if \<not> list_ex (\<lambda>v. v) included then Inl ''Coverage boundary produced an empty terrain cutout.''
         else
           let (nwx, nwz) = projectLonLat pr minLon maxLat; (sex, sez) = projectLonLat pr maxLon minLat;
               horizontalSpan = max \<bar>sex - nwx\<bar> \<bar>sez - nwz\<bar>;
               bottomY = - max 30 (min 180 (horizontalSpan * (8 / 1000)));
               g = \<lparr>mg_box = box, mg_columns = columns, mg_rows = rows, mg_heights = heights, mg_included = included,
                    mg_minElevation = minElevation, mg_projection = pr, mg_verticalScale = verticalScale, mg_bottomY = bottomY\<rparr>
           in Inr \<lparr>md_positions = mesh_positions g, md_minElevation = minElevation, md_maxElevation = maxElevation,
                   md_bottomY = bottomY, md_horizontalSpan = horizontalSpan\<rparr>)"

definition buildTerrainMeshData :: "jsnum list option \<Rightarrow> boundary option \<Rightarrow> mosaic \<Rightarrow> local_projection \<Rightarrow> real \<Rightarrow> real \<Rightarrow> string + mesh_data" where
  "buildTerrainMeshData bounds b mo pr resolution verticalScale =
     (case assertBounds bounds of
        None \<Rightarrow> Inl ''A valid [minLon, minLat, maxLon, maxLat] bounding box is required.''
      | Some box \<Rightarrow>
          (case b of
             None \<Rightarrow> Inl ''Coverage area boundary is required for the terrain cutout.''
           | Some OtherBoundary \<Rightarrow> Inl ''Coverage area boundary is required for the terrain cutout.''
           | Some b' \<Rightarrow> make_mesh box b' mo pr resolution verticalScale))"

section \<open>Edges of the triangles\<close>

fun tri_edges :: "point3 list \<Rightarrow> point3 set list" where
  "tri_edges (a # b # c # rest) = {a, b} # {b, c} # {c, a} # tri_edges rest"
| "tri_edges _ = []"

definition edge_count :: "point3 set \<Rightarrow> point3 list \<Rightarrow> nat" where
  "edge_count e ps = count_list (tri_edges ps) e"

lemma three_not_dvd: "\<not> 3 dvd Suc 0" "\<not> 3 dvd Suc (Suc 0)"
  by presburger+

lemma edge_count_append: "3 dvd length xs \<Longrightarrow> edge_count e (xs @ ys) = edge_count e xs + edge_count e ys"
proof (induction xs rule: tri_edges.induct)
  case (1 a b c rest)
  have "3 dvd length rest" using "1.prems" dvd_diff_nat [of 3 "length (a # b # c # rest)" 3] by simp
  then show ?case using "1.IH" by (simp add: edge_count_def)
qed (simp_all add: edge_count_def three_not_dvd)

lemma edge_count_Nil [simp]: "edge_count e [] = 0"
  by (simp add: edge_count_def)

lemma edge_count_concat:
  "\<forall>x \<in> set xs. 3 dvd length (f x) \<Longrightarrow> edge_count e (concat (map f xs)) = (\<Sum>x\<leftarrow>xs. edge_count e (f x))"
  by (induction xs) (simp_all add: edge_count_append)

lemma count_edges: "count_list (x # xs) e = of_bool (e = x) + count_list xs e"
  by simp

lemma edge_count_wall:
  "edge_count e (wall g s f) = of_bool (e = {s, to_bottom g s}) + of_bool (e = {f, to_bottom g f}) + of_bool (e = {s, f}) +
     of_bool (e = {to_bottom g s, to_bottom g f}) + 2 * of_bool (e = {f, to_bottom g s})"
  unfolding edge_count_def wall_def tri_edges.simps count_edges by (simp add: insert_commute)

lemma walls_pair: "even (edge_count e (wall g s f) + edge_count e (wall g f s))"
  by (simp add: edge_count_wall insert_commute)

lemma edge_count_slabs:
  "edge_count e [t0, t2, t1, t1, t2, t3] + edge_count e [b0, b1, b2, b1, b3, b2] =
     of_bool (e = {t0, t1}) + of_bool (e = {t0, t2}) + of_bool (e = {t1, t3}) + of_bool (e = {t2, t3}) + 2 * of_bool (e = {t1, t2}) +
     (of_bool (e = {b0, b1}) + of_bool (e = {b0, b2}) + of_bool (e = {b1, b3}) + of_bool (e = {b2, b3}) + 2 * of_bool (e = {b1, b2}))"
  unfolding edge_count_def tri_edges.simps count_edges by (simp add: insert_commute)

lemma box_even:
  "even (edge_count e [t0, t2, t1, t1, t2, t3] +
     edge_count e [to_bottom g t0, to_bottom g t1, to_bottom g t2, to_bottom g t1, to_bottom g t3, to_bottom g t2] +
     edge_count e (wall g t0 t1) + edge_count e (wall g t1 t3) + edge_count e (wall g t3 t2) + edge_count e (wall g t2 t0))"
  unfolding edge_count_slabs edge_count_wall by (simp add: insert_commute)

section \<open>Walls cancel in pairs\<close>

lemma even_pairs:
  fixes w w' :: "'p \<Rightarrow> nat"
  assumes "finite I" "inj e" "\<forall>p. even (w p + w' (e p))"
  shows "even ((\<Sum>p \<in> {p \<in> I. e p \<in> I}. w p) + (\<Sum>q \<in> {q \<in> I. \<exists>p \<in> I. q = e p}. w' q))"
proof -
  have "{q \<in> I. \<exists>p \<in> I. q = e p} = e ` {p \<in> I. e p \<in> I}" by auto
  then have "(\<Sum>q \<in> {q \<in> I. \<exists>p \<in> I. q = e p}. w' q) = (\<Sum>p \<in> {p \<in> I. e p \<in> I}. w' (e p))"
    using assms(2) by (simp add: sum.reindex inj_on_subset [OF _ subset_UNIV])
  then have "(\<Sum>p \<in> {p \<in> I. e p \<in> I}. w p) + (\<Sum>q \<in> {q \<in> I. \<exists>p \<in> I. q = e p}. w' q) = (\<Sum>p \<in> {p \<in> I. e p \<in> I}. w p + w' (e p))"
    by (simp add: sum.distrib)
  then show ?thesis using assms(3) by (auto intro: dvd_sum)
qed

lemma sum_split_if:
  fixes f :: "'p \<Rightarrow> nat"
  shows "finite I \<Longrightarrow> (\<Sum>p \<in> I. f p) = (\<Sum>p \<in> I. if P p then 0 else f p) + (\<Sum>p \<in> {p \<in> I. P p}. f p)"
  by (simp add: sum.inter_filter sum.distrib [symmetric] if_distrib [of "\<lambda>x. x + _"] cong: if_cong sum.cong)

lemma exposed_even:
  fixes T N E S W :: "nat \<times> nat \<Rightarrow> nat"
  assumes "finite I" "\<forall>p. even (T p + N p + E p + S p + W p)"
    "\<forall>c r. even (E (c, r) + W (c + 1, r))" "\<forall>c r. even (S (c, r) + N (c, r + 1))"
  defines "east \<equiv> \<lambda>(c, r). (c + 1, r)" and "south \<equiv> \<lambda>(c, r). (c, r + 1)"
  shows "even (\<Sum>p \<in> I. T p + (if \<exists>q \<in> I. p = south q then 0 else N p) + (if east p \<in> I then 0 else E p) +
      (if south p \<in> I then 0 else S p) + (if \<exists>q \<in> I. p = east q then 0 else W p))"
proof -
  have ew: "even ((\<Sum>p \<in> {p \<in> I. east p \<in> I}. E p) + (\<Sum>q \<in> {q \<in> I. \<exists>p \<in> I. q = east p}. W q))"
    using assms(3) by (intro even_pairs [OF assms(1)]) (auto simp: east_def inj_def)
  have ns: "even ((\<Sum>p \<in> {p \<in> I. south p \<in> I}. S p) + (\<Sum>q \<in> {q \<in> I. \<exists>p \<in> I. q = south p}. N q))"
    using assms(4) by (intro even_pairs [OF assms(1)]) (auto simp: south_def inj_def)
  have split_even: "even (sum f I) \<longleftrightarrow> (even (\<Sum>p \<in> I. if P p then 0 else f p) \<longleftrightarrow> even (\<Sum>p \<in> {p \<in> I. P p}. f p))"
    for f :: "nat \<times> nat \<Rightarrow> nat" and P by (subst sum_split_if [OF assms(1), of f P]) (simp only: even_add)
  have "even (\<Sum>p \<in> I. T p + N p + E p + S p + W p)" using assms(2) by (auto intro: dvd_sum)
  then show ?thesis
    using ew ns split_even [of N "\<lambda>p. \<exists>q \<in> I. p = south q"] split_even [of E "\<lambda>p. east p \<in> I"]
      split_even [of S "\<lambda>p. south p \<in> I"] split_even [of W "\<lambda>p. \<exists>q \<in> I. p = east q"]
    unfolding sum.distrib even_add by blast
qed

section \<open>The mesh of a grid\<close>

definition grid_cells :: "mesh_grid \<Rightarrow> (nat \<times> nat) set" where
  "grid_cells g = {(c, r). c < mg_columns g \<and> r < mg_rows g \<and> mg_included g ! (r * mg_columns g + c)}"

lemma grid_cells_sub: "grid_cells g \<subseteq> {..<mg_columns g} \<times> {..<mg_rows g}"
  by (auto simp: grid_cells_def)

lemma finite_grid_cells [simp]: "finite (grid_cells g)"
  using grid_cells_sub by (rule finite_subset) simp

lemma neighbor_cell: "neighbor_included g (int c) (int r) \<longleftrightarrow> (c, r) \<in> grid_cells g"
proof -
  have "nat (int r * int (mg_columns g) + int c) = r * mg_columns g + c" by (metis nat_int of_nat_add of_nat_mult)
  then show ?thesis by (simp add: neighbor_included_def grid_cells_def)
qed

lemma neighbor_sides:
  "neighbor_included g (int c + 1) (int r + 0) \<longleftrightarrow> (c + 1, r) \<in> grid_cells g"
  "neighbor_included g (int c + 0) (int r + 1) \<longleftrightarrow> (c, r + 1) \<in> grid_cells g"
  "neighbor_included g (int c + - 1) (int r + 0) \<longleftrightarrow> (\<exists>q \<in> grid_cells g. (c, r) = (fst q + 1, snd q))"
  "neighbor_included g (int c + 0) (int r + - 1) \<longleftrightarrow> (\<exists>q \<in> grid_cells g. (c, r) = (fst q, snd q + 1))"
proof -
  show "neighbor_included g (int c + 1) (int r + 0) \<longleftrightarrow> (c + 1, r) \<in> grid_cells g"
    "neighbor_included g (int c + 0) (int r + 1) \<longleftrightarrow> (c, r + 1) \<in> grid_cells g"
    using neighbor_cell [of g "c + 1" r] neighbor_cell [of g c "r + 1"] by (simp_all add: add.commute)
  show "neighbor_included g (int c + - 1) (int r + 0) \<longleftrightarrow> (\<exists>q \<in> grid_cells g. (c, r) = (fst q + 1, snd q))"
    using neighbor_cell [of g "c - 1" r] by (cases c) (force simp: neighbor_included_def)+
  show "neighbor_included g (int c + 0) (int r + - 1) \<longleftrightarrow> (\<exists>q \<in> grid_cells g. (c, r) = (fst q, snd q + 1))"
    using neighbor_cell [of g c "r - 1"] by (cases r) (force simp: neighbor_included_def)+
qed

lemma six_dvd: "3 dvd length [a, b, c, d, e, f]"
proof -
  have "length [a, b, c, d, e, f] = 3 * 2" by simp
  then show ?thesis by (simp only: dvd_triv_left)
qed

lemma wall_length: "length (wall g s f) = 6"
  by (simp add: wall_def)

lemma exposed_dvd: "3 dvd length (appendExposedEdge g c r dx dy s f)"
  by (simp add: appendExposedEdge_def wall_length)

lemma cell_dvd: "3 dvd length (cell_positions g c r)"
  unfolding cell_positions_def Let_def
  by (cases "mg_included g ! (r * mg_columns g + c)") (simp_all only: if_True if_False not_not not_True_eq_False not_False_eq_True
      length_append dvd_add six_dvd exposed_dvd list.size(3) dvd_0_right)

text \<open>A measure of point lists that adds up over concatenated triangles adds up over the included cells.\<close>

lemma mesh_sum:
  fixes f :: "point3 list \<Rightarrow> nat"
  assumes "f [] = 0" "\<And>xs ys. 3 dvd length xs \<Longrightarrow> f (xs @ ys) = f xs + f ys"
  shows "f (mesh_positions g) = (\<Sum>p \<in> grid_cells g. f (cell_positions g (fst p) (snd p)))"
proof -
  have con: "f (concat (map h xs)) = (\<Sum>x\<leftarrow>xs. f (h x)) \<and> 3 dvd length (concat (map h xs))"
    if "\<And>x. 3 dvd length (h x)" for h :: "nat \<Rightarrow> point3 list" and xs
    using that by (induction xs) (simp_all add: assms)
  have "f (mesh_positions g) = (\<Sum>r < mg_rows g. \<Sum>c < mg_columns g. f (cell_positions g c r))"
    unfolding mesh_positions_def using con cell_dvd by (simp add: interv_sum_list_conv_sum_set_nat atLeast0LessThan)
  also have "\<dots> = (\<Sum>p \<in> {..<mg_columns g} \<times> {..<mg_rows g}. f (cell_positions g (fst p) (snd p)))"
    by (subst sum.swap) (simp add: sum.cartesian_product case_prod_beta)
  also have "\<dots> = (\<Sum>p \<in> grid_cells g. f (cell_positions g (fst p) (snd p)))"
    using grid_cells_sub by (intro sum.mono_neutral_right) (auto simp: grid_cells_def cell_positions_def assms(1))
  finally show ?thesis .
qed

lemma cell_sum:
  fixes f :: "point3 list \<Rightarrow> nat"
  assumes "f [] = 0" "\<And>xs ys. 3 dvd length xs \<Longrightarrow> f (xs @ ys) = f xs + f ys" "(c, r) \<in> grid_cells g"
  defines "t0 \<equiv> vertex g c r" and "t1 \<equiv> vertex g (c + 1) r" and "t2 \<equiv> vertex g c (r + 1)" and "t3 \<equiv> vertex g (c + 1) (r + 1)"
  shows "f (cell_positions g c r) =
    f [t0, t2, t1, t1, t2, t3] + f [to_bottom g t0, to_bottom g t1, to_bottom g t2, to_bottom g t1, to_bottom g t3, to_bottom g t2] +
    (if \<exists>q \<in> grid_cells g. (c, r) = (fst q, snd q + 1) then 0 else f (wall g t0 t1)) +
    (if (c + 1, r) \<in> grid_cells g then 0 else f (wall g t1 t3)) +
    (if (c, r + 1) \<in> grid_cells g then 0 else f (wall g t3 t2)) +
    (if \<exists>q \<in> grid_cells g. (c, r) = (fst q + 1, snd q) then 0 else f (wall g t2 t0))"
proof -
  have ex: "f (appendExposedEdge g c r dx dy s e) = (if neighbor_included g (int c + dx) (int r + dy) then 0 else f (wall g s e))" for dx dy s e
    by (simp add: appendExposedEdge_def assms(1))
  have "mg_included g ! (r * mg_columns g + c)" using assms(3) by (simp add: grid_cells_def)
  then show ?thesis
    unfolding neighbor_sides [symmetric]
    by (simp only: cell_positions_def Let_def t0_def t1_def t2_def t3_def assms(2) exposed_dvd six_dvd ex not_not not_True_eq_False if_False if_True
        add.assoc)
qed

lemma mesh_even: "even (edge_count e (mesh_positions g))"
proof -
  let ?t = "\<lambda>p. (vertex g (fst p) (snd p), vertex g (fst p + 1) (snd p), vertex g (fst p) (snd p + 1), vertex g (fst p + 1) (snd p + 1))"
  define T where "T = (\<lambda>p. case ?t p of (t0, t1, t2, t3) \<Rightarrow> edge_count e [t0, t2, t1, t1, t2, t3] +
    edge_count e [to_bottom g t0, to_bottom g t1, to_bottom g t2, to_bottom g t1, to_bottom g t3, to_bottom g t2])"
  define N E S W where "N = (\<lambda>p. case ?t p of (t0, t1, t2, t3) \<Rightarrow> edge_count e (wall g t0 t1))"
    and "E = (\<lambda>p. case ?t p of (t0, t1, t2, t3) \<Rightarrow> edge_count e (wall g t1 t3))"
    and "S = (\<lambda>p. case ?t p of (t0, t1, t2, t3) \<Rightarrow> edge_count e (wall g t3 t2))"
    and "W = (\<lambda>p. case ?t p of (t0, t1, t2, t3) \<Rightarrow> edge_count e (wall g t2 t0))"
  note defs = T_def N_def E_def S_def W_def
  have "edge_count e (mesh_positions g) = (\<Sum>p \<in> grid_cells g. edge_count e (cell_positions g (fst p) (snd p)))"
    by (rule mesh_sum) (simp_all add: edge_count_append)
  also have "\<dots> = (\<Sum>p \<in> grid_cells g. T p + (if \<exists>q \<in> grid_cells g. p = (case q of (c, r) \<Rightarrow> (c, r + 1)) then 0 else N p) +
      (if (case p of (c, r) \<Rightarrow> (c + 1, r)) \<in> grid_cells g then 0 else E p) + (if (case p of (c, r) \<Rightarrow> (c, r + 1)) \<in> grid_cells g then 0 else S p) +
      (if \<exists>q \<in> grid_cells g. p = (case q of (c, r) \<Rightarrow> (c + 1, r)) then 0 else W p))"
  proof (rule sum.cong [OF refl])
    fix p assume "p \<in> grid_cells g"
    then have m: "(fst p, snd p) \<in> grid_cells g" by simp
    show "edge_count e (cell_positions g (fst p) (snd p)) = T p + (if \<exists>q \<in> grid_cells g. p = (case q of (c, r) \<Rightarrow> (c, r + 1)) then 0 else N p) +
      (if (case p of (c, r) \<Rightarrow> (c + 1, r)) \<in> grid_cells g then 0 else E p) + (if (case p of (c, r) \<Rightarrow> (c, r + 1)) \<in> grid_cells g then 0 else S p) +
      (if \<exists>q \<in> grid_cells g. p = (case q of (c, r) \<Rightarrow> (c + 1, r)) then 0 else W p)"
      using cell_sum [where f = "edge_count e", OF edge_count_Nil edge_count_append m]
      by (simp add: defs case_prod_beta)
  qed
  also have "even \<dots>"
    by (rule exposed_even)
      (use box_even [of e _ _ _ _ g] walls_pair [of e g] in \<open>simp_all add: defs add.commute del: even_add\<close>)
  finally show ?thesis .
qed

text \<open>The points of a mesh lie on its bottom or on the scaled relief.\<close>

lemma fold_min_max:
  fixes xs :: "real list"
  shows "x \<in> insert a (set xs) \<Longrightarrow> fold min xs a \<le> x \<and> x \<le> fold max xs a"
proof -
  have "fold min xs a = Min (insert a (set xs))" "fold max xs a = Max (insert a (set xs))"
    by (simp_all add: Min.set_eq_fold [symmetric] Max.set_eq_fold [symmetric])
  then show "x \<in> insert a (set xs) \<Longrightarrow> fold min xs a \<le> x \<and> x \<le> fold max xs a" by simp
qed

lemma length_sample_heights: "length (sample_heights mo b columns rows) = (rows + 1) * (columns + 1)"
  by (simp add: sample_heights_def length_concat comp_def sum_list_triv)

lemma cell_points:
  assumes "pt \<in> set (cell_positions g c r)"
  shows "fst (snd pt) = mg_bottomY g \<or> (\<exists>c' \<in> {c, c + 1}. \<exists>r' \<in> {r, r + 1}. pt = vertex g c' r')"
  using assms by (auto simp: cell_positions_def Let_def appendExposedEdge_def wall_def to_bottom_def split: if_splits)

lemma mesh_points:
  assumes "pt \<in> set (mesh_positions g)" "\<forall>h \<in> set (mg_heights g). mg_minElevation g \<le> h \<and> h \<le> hi"
    "length (mg_heights g) = (mg_rows g + 1) * (mg_columns g + 1)" "0 \<le> mg_verticalScale g"
  shows "fst (snd pt) = mg_bottomY g \<or> 0 \<le> fst (snd pt) \<and> fst (snd pt) \<le> (hi - mg_minElevation g) * mg_verticalScale g"
proof -
  obtain c r where cr: "c < mg_columns g" "r < mg_rows g" "pt \<in> set (cell_positions g c r)"
    using assms(1) by (auto simp: mesh_positions_def)
  have "fst (snd pt) = mg_bottomY g \<or> (\<exists>c' r'. c' \<le> mg_columns g \<and> r' \<le> mg_rows g \<and> pt = vertex g c' r')"
    using cell_points [OF cr(3)] cr(1,2) by (metis Suc_eq_plus1 Suc_leI insertE less_imp_le_nat singletonD)
  then consider "fst (snd pt) = mg_bottomY g" | c' r' where "c' \<le> mg_columns g" "r' \<le> mg_rows g" "pt = vertex g c' r'"
    by blast
  then show ?thesis
  proof cases
    case 2
    have "c' < mg_columns g + 1" "r' < mg_rows g + 1" using 2 by simp_all
    from grid_bound [OF this] have "mg_heights g ! (r' * (mg_columns g + 1) + c') \<in> set (mg_heights g)"
      using assms(3) by (simp add: mult.commute)
    then have h: "mg_minElevation g \<le> mg_heights g ! (r' * (mg_columns g + 1) + c')" "mg_heights g ! (r' * (mg_columns g + 1) + c') \<le> hi"
      using assms(2) by blast+
    have "fst (snd pt) = (mg_heights g ! (r' * (mg_columns g + 1) + c') - mg_minElevation g) * mg_verticalScale g"
      by (simp add: 2(3) vertex_def Let_def case_prod_beta)
    then show ?thesis using h assms(4) by (simp add: mult_right_mono)
  qed simp
qed

section \<open>The size of the mesh\<close>

definition int_cells :: "mesh_grid \<Rightarrow> (int \<times> int) set" where
  "int_cells g = {(c, r). neighbor_included g c r}"

lemma int_cells_image: "int_cells g = (\<lambda>(c, r). (int c, int r)) ` grid_cells g"
proof (intro equalityI subsetI)
  fix p assume "p \<in> int_cells g"
  then have nb: "neighbor_included g (fst p) (snd p)" by (auto simp: int_cells_def)
  moreover from this have eq: "p = (int (nat (fst p)), int (nat (snd p)))" by (simp add: neighbor_included_def prod_eq_iff)
  ultimately have "(nat (fst p), nat (snd p)) \<in> grid_cells g" by (metis fst_conv neighbor_cell snd_conv)
  then show "p \<in> (\<lambda>(c, r). (int c, int r)) ` grid_cells g" using eq by (auto intro!: rev_image_eqI)
qed (auto simp: int_cells_def neighbor_cell)

lemma exposed_card:
  fixes c r :: int
  shows "card ({(c, r - 1), (c + 1, r), (c, r + 1), (c - 1, r)} - A) =
     (if (c, r - 1) \<in> A then 0 else 1) + (if (c + 1, r) \<in> A then 0 else 1) +
     (if (c, r + 1) \<in> A then 0 else 1) + (if (c - 1, r) \<in> A then 0 else (1 :: nat))"
proof -
  have "card (S - A) = (\<Sum>x \<in> S. if x \<in> A then 0 else 1)" if "finite S" for S :: "(int \<times> int) set"
    using that by (simp add: sum.If_cases Diff_eq)
  then show ?thesis by simp
qed

lemma mesh_length:
  "length (mesh_positions g) = (\<Sum>(c, r) \<in> int_cells g. 6 * (2 + card ({(c, r - 1), (c + 1, r), (c, r + 1), (c - 1, r)} - int_cells g)))"
proof -
  have app: "length (xs @ ys) = length xs + length ys" for xs ys :: "point3 list" by simp
  have cell: "length (cell_positions g c r) = 6 * (2 + card ({(int c, int r - 1), (int c + 1, int r), (int c, int r + 1), (int c - 1, int r)} - int_cells g))"
    if m: "(c, r) \<in> grid_cells g" for c r
    using cell_sum [where f = length, OF list.size(3) app m] neighbor_sides [of g c r]
    by (simp add: exposed_card int_cells_def wall_length)
  have "length (mesh_positions g) = (\<Sum>p \<in> grid_cells g. length (cell_positions g (fst p) (snd p)))"
    by (rule mesh_sum) simp_all
  also have "\<dots> = (\<Sum>p \<in> grid_cells g. case (int (fst p), int (snd p)) of (c, r) \<Rightarrow>
      6 * (2 + card ({(c, r - 1), (c + 1, r), (c, r + 1), (c - 1, r)} - int_cells g)))"
    by (rule sum.cong [OF refl]) (simp add: cell case_prod_beta)
  also have "\<dots> = (\<Sum>(c, r) \<in> int_cells g. 6 * (2 + card ({(c, r - 1), (c + 1, r), (c, r + 1), (c - 1, r)} - int_cells g)))"
    unfolding int_cells_image by (subst sum.reindex) (auto simp: inj_on_def case_prod_beta)
  finally show ?thesis .
qed

lemma included_cells_nth:
  "c < columns \<Longrightarrow> r < rows \<Longrightarrow> included_cells b box columns rows ! (r * columns + c) =
     pointInBoundary (Fin (grid_lon box columns (real c + 1 / 2))) (Fin (grid_lat box rows (real r + 1 / 2))) b"
proof -
  have nth: "concat (map (\<lambda>row. map (f row) [0..<n]) [0..<m]) ! (r * n + c) = f r c" if "c < n" "r < m" for f :: "nat \<Rightarrow> nat \<Rightarrow> bool" and n m r c
    using that
  proof (induction m)
    case (Suc m)
    have len: "length (concat (map (\<lambda>row. map (f row) [0..<n]) [0..<m])) = m * n" by (simp add: length_concat comp_def sum_list_triv)
    show ?case
    proof (cases "r = m")
      case False
      then have r: "r < m" using Suc.prems by simp
      then have "r * n + c < m * n" using grid_bound [OF Suc.prems(1) r] by (simp add: mult.commute)
      then show ?thesis using Suc.IH [OF Suc.prems(1) r] len by (simp add: nth_append)
    qed (use len Suc.prems(1) in \<open>simp add: nth_append\<close>)
  qed simp
  show "c < columns \<Longrightarrow> r < rows \<Longrightarrow> ?thesis" by (simp only: included_cells_def nth)
qed

text \<open>The cells whose centre lies in the simplified boundary.\<close>

definition mesh_cells :: "box \<Rightarrow> boundary \<Rightarrow> nat \<Rightarrow> (int \<times> int) set" where
  "mesh_cells box b n = {(c, r). 0 \<le> c \<and> c < int n \<and> 0 \<le> r \<and> r < int n \<and>
     pointInBoundary (Fin (grid_lon box n (of_int c + 1 / 2))) (Fin (grid_lat box n (of_int r + 1 / 2))) (simplifyBoundaryForGrid b (n * 6))}"

lemma made_mesh:
  assumes "buildTerrainMeshData bounds b mo pr resolution scale = Inr m"
  obtains box b' g where "assertBounds bounds = Some box" "b = Some b'" "md_positions m = mesh_positions g"
    "int_cells g = mesh_cells box b' (nat (max 8 \<lfloor>resolution\<rfloor>))" "int_cells g \<noteq> {}"
    "mg_bottomY g = md_bottomY m" "mg_verticalScale g = scale" "mg_minElevation g = md_minElevation m"
    "\<forall>h \<in> set (mg_heights g). mg_minElevation g \<le> h \<and> h \<le> md_maxElevation m"
    "length (mg_heights g) = (mg_rows g + 1) * (mg_columns g + 1)" "- 180 \<le> md_bottomY m" "md_bottomY m \<le> - 30"
proof -
  obtain box b' where b: "assertBounds bounds = Some box" "b = Some b'" "make_mesh box b' mo pr resolution scale = Inr m"
    using assms by (auto simp: buildTerrainMeshData_def split: option.splits boundary.splits)
  define n where "n = nat (max 8 \<lfloor>resolution\<rfloor>)"
  define inc where "inc = included_cells (simplifyBoundaryForGrid b' (n * 6)) box n n"
  define hs where "hs = sample_heights mo box n n"
  define bottom where "bottom = md_bottomY m"
  define g where "g = \<lparr>mg_box = box, mg_columns = n, mg_rows = n, mg_heights = hs, mg_included = inc,
    mg_minElevation = fold min (tl hs) (hd hs), mg_projection = pr, mg_verticalScale = scale, mg_bottomY = bottom\<rparr>"
  have ex: "list_ex (\<lambda>v. v) inc" and pos: "md_positions m = mesh_positions g" "md_minElevation m = fold min (tl hs) (hd hs)"
    "md_maxElevation m = fold max (tl hs) (hd hs)" "- 180 \<le> md_bottomY m" "md_bottomY m \<le> - 30"
    using b(3) unfolding make_mesh_def n_def [symmetric] Let_def inc_def hs_def g_def bottom_def
    by (auto split: prod.splits if_splits)
  have len: "length inc = n * n" "length hs = (n + 1) * (n + 1)"
    by (simp_all add: inc_def hs_def length_sample_heights included_cells_def length_concat comp_def sum_list_triv)
  have hs: "hs \<noteq> []" using len(2) by auto
  have cells: "int_cells g = mesh_cells box b' n"
    using included_cells_nth [of "nat c" n "nat r" n "simplifyBoundaryForGrid b' (n * 6)" box for c r]
    by (auto simp: int_cells_def mesh_cells_def neighbor_included_def g_def inc_def nat_add_distrib nat_mult_distrib)
  obtain i where i: "i < n * n" "inc ! i" using ex by (auto simp: list_ex_iff len(1) in_set_conv_nth)
  then have "0 < n" by (cases n) auto
  then have "(i mod n, i div n) \<in> grid_cells g" using i by (simp add: grid_cells_def g_def less_mult_imp_div_less)
  then have "int_cells g \<noteq> {}" by (auto simp: int_cells_image)
  moreover have "\<forall>h \<in> set (mg_heights g). mg_minElevation g \<le> h \<and> h \<le> md_maxElevation m"
    using hs fold_min_max [of _ "hd hs" "tl hs"] by (cases hs) (auto simp: g_def pos)
  ultimately show ?thesis
    using that [of box b' g] b(1,2) pos cells len(2) by (simp add: g_def n_def bottom_def)
qed

text \<open>
  C30. The terrain mesh is watertight: whenever a mesh is built it has a triangle, and every edge of its triangles
  is shared by an even number of them, so that the surface has no hole, whatever the shape of the area. Its size
  is two quads for every cell of the grid with its centre in the boundary and one wall for every side of such a
  cell whose neighbour is left out or outside of the grid.
\<close>

theorem mesh_watertight:
  assumes "buildTerrainMeshData bounds (Some b) mo pr resolution scale = Inr m" "assertBounds bounds = Some box"
  defines "cells \<equiv> mesh_cells box b (nat (max 8 \<lfloor>resolution\<rfloor>))"
  shows "md_positions m \<noteq> [] \<and> (\<forall>e. even (edge_count e (md_positions m))) \<and>
    length (md_positions m) = (\<Sum>(c, r) \<in> cells. 6 * (2 + card ({(c, r - 1), (c + 1, r), (c, r + 1), (c - 1, r)} - cells)))"
proof -
  obtain box' b' g where g: "assertBounds bounds = Some box'" "Some b = Some b'" "md_positions m = mesh_positions g"
    "int_cells g = mesh_cells box' b' (nat (max 8 \<lfloor>resolution\<rfloor>))" "int_cells g \<noteq> {}" by (rule made_mesh [OF assms(1)]) blast
  then have cells: "int_cells g = cells" using assms(2) by (simp add: cells_def)
  have "finite (int_cells g)" by (simp add: int_cells_image)
  then have "0 < length (mesh_positions g)" using g(5) unfolding mesh_length by (intro sum_pos) auto
  then have "mesh_positions g \<noteq> []" by simp
  then show ?thesis unfolding g(3) using mesh_even mesh_length [of g] cells by simp
qed

text \<open>
  The heights of the mesh: its floor lies between 30 and 180 metres below the lowest elevation, and every
  other point on the scaled relief between the lowest and the highest elevation, which is never below the floor.
\<close>

theorem mesh_heights:
  assumes "buildTerrainMeshData bounds b mo pr resolution scale = Inr m" "0 \<le> scale" "(x, y, z) \<in> set (md_positions m)"
  shows "- 180 \<le> md_bottomY m \<and> md_bottomY m \<le> - 30 \<and>
    (y = md_bottomY m \<or> 0 \<le> y \<and> y \<le> (md_maxElevation m - md_minElevation m) * scale)"
proof -
  obtain g where g: "md_positions m = mesh_positions g" "mg_bottomY g = md_bottomY m" "mg_verticalScale g = scale"
    "mg_minElevation g = md_minElevation m" "\<forall>h \<in> set (mg_heights g). mg_minElevation g \<le> h \<and> h \<le> md_maxElevation m"
    "length (mg_heights g) = (mg_rows g + 1) * (mg_columns g + 1)" "- 180 \<le> md_bottomY m" "md_bottomY m \<le> - 30"
    by (rule made_mesh [OF assms(1)]) blast
  show ?thesis using mesh_points [of "(x, y, z)" g, OF _ g(5,6)] assms(2,3) g by simp
qed

definition example_boundary :: boundary where
  "example_boundary = Polygon [[Some [- 1, - 1], Some [9, - 1], Some [9, 9], Some [- 1, 9]]]"

definition example_mosaic :: mosaic where
  "example_mosaic = \<lparr>mo_zoom = 8, mo_minX = 0, mo_minY = 0, mo_width = 1, mo_height = 1, mo_elevations = [7]\<rparr>"

definition example_projection :: local_projection where
  "example_projection = \<lparr>centerLon = 4, centerLat = 4, originX = 0, originY = 0\<rparr>"

lemma example_cell: "pointInBoundary (Fin (1 / 2)) (Fin (15 / 2)) example_boundary"
  by (simp add: pointInBoundary_def pointInPolygon_def example_boundary_def pointInRing_def crosses_def js_or_def falsy_def upt_rec)

lemma example_mesh:
  "\<exists>m. buildTerrainMeshData (Some [0, 0, 8, 8]) (Some example_boundary) example_mosaic example_projection 8 1 = Inr m"
proof -
  have "simplifyBoundaryForGrid example_boundary 48 = example_boundary"
    by (simp add: simplifyBoundaryForGrid_def example_boundary_def simplifyRing_def)
  moreover have "list_ex (\<lambda>v. v) (included_cells example_boundary (0, 0, 8, 8) 8 8)"
  proof -
    have "length (included_cells example_boundary (0, 0, 8, 8) 8 8) = 64"
      by (simp add: included_cells_def length_concat comp_def sum_list_triv)
    moreover have "included_cells example_boundary (0, 0, 8, 8) 8 8 ! (0 * 8 + 0)"
      using example_cell by (subst included_cells_nth) (simp_all add: grid_lon_def grid_lat_def)
    ultimately show ?thesis unfolding list_ex_length by (intro exI [of _ 0]) simp
  qed
  ultimately show ?thesis
    by (simp add: buildTerrainMeshData_def assertBounds_def example_boundary_def [symmetric] make_mesh_def Let_def case_prod_beta
        split: boundary.split) (simp add: example_boundary_def)
qed

theorem mesh_watertight_witness:
  "\<exists>m. buildTerrainMeshData (Some [0, 0, 8, 8]) (Some example_boundary) example_mosaic example_projection 8 1 = Inr m \<and>
     md_positions m \<noteq> [] \<and> (\<forall>e. even (edge_count e (md_positions m)))"
proof -
  obtain m where m: "buildTerrainMeshData (Some [0, 0, 8, 8]) (Some example_boundary) example_mosaic example_projection 8 1 = Inr m"
    using example_mesh by blast
  have "assertBounds (Some [0, 0, 8, 8]) = Some (0, 0, 8, 8)" by (simp add: assertBounds_def)
  from mesh_watertight [OF m this] show ?thesis using m by blast
qed

theorem mesh_heights_witness:
  "\<exists>m x y z. buildTerrainMeshData (Some [0, 0, 8, 8]) (Some example_boundary) example_mosaic example_projection 8 1 = Inr m \<and>
     (x, y, z) \<in> set (md_positions m) \<and> - 180 \<le> md_bottomY m \<and>
     (y = md_bottomY m \<or> 0 \<le> y \<and> y \<le> (md_maxElevation m - md_minElevation m) * 1)"
proof -
  obtain m where m: "buildTerrainMeshData (Some [0, 0, 8, 8]) (Some example_boundary) example_mosaic example_projection 8 1 = Inr m"
    using example_mesh by blast
  obtain g where g: "md_positions m = mesh_positions g" "int_cells g \<noteq> {}" by (rule made_mesh [OF m]) blast
  then have "grid_cells g \<noteq> {}" by (simp add: int_cells_image)
  then obtain c r where "(c, r) \<in> grid_cells g" by auto
  then have "vertex g c r \<in> set (cell_positions g c r)" "c < mg_columns g" "r < mg_rows g"
    by (simp_all add: grid_cells_def cell_positions_def Let_def)
  then have "vertex g c r \<in> set (mesh_positions g)" by (simp add: mesh_positions_def, intro bexI [of _ r] bexI [of _ c]) simp_all
  moreover obtain x y z where v: "vertex g c r = (x, y, z)" by (metis prod.exhaust)
  ultimately have xyz: "(x, y, z) \<in> set (md_positions m)" by (simp add: g)
  show ?thesis using mesh_heights [OF m _ xyz] m xyz by auto
qed

end
