(* ===== verification/Formatting.thy ===== *)
theory Formatting
  imports JSDate GeoMath
begin

text \<open>
  Texts for the pages, first part of \<open>static/js/modules/utils/formatting.js\<close>: escaping of HTML, numbers,
  distances and durations.

  \<^item> A value given to a formatter is a \<open>js_value\<close>; \<open>js_number\<close> is \<open>Number(v)\<close>, with the decimal, hexadecimal,
    octal and binary notations of strings. Numbers are exact and printed as digits (\<open>toFixed\<close> switches to
    exponents only from \<open>10\<^sup>2\<^sup>1\<close> on).
  \<^item> \<open>locale\<close> stands for \<open>toLocaleString\<close> with the smallest and largest number of decimals, \<open>currency_text\<close> for
    \<open>Intl.NumberFormat\<close> with the style of a currency, and \<open>show_num\<close> for \<open>String(n)\<close> of a number that need not be whole.
  \<^item> Shown: escaped text has none of the characters that end a text or an attribute and decodes to the original;
    a duration that is printed and parsed keeps its seconds below an hour and its minutes above; the clock notation
    is exact; byte counts are scaled to the right unit.
\<close>

section \<open>Values\<close>

datatype js_value = VUndefined | VNull | VText string | VNumber jsnum

definition parse_exponent :: "string \<Rightarrow> int option" where
  "parse_exponent s =
     (case s of [] \<Rightarrow> Some 0
      | c # r \<Rightarrow>
          if c = CHR ''e'' \<or> c = CHR ''E'' then
            let (neg, ds) = read_sign r
            in if ds \<noteq> [] \<and> list_all is_digit ds then Some (if neg then - int (digits_val ds) else int (digits_val ds)) else None
          else None)"

definition parse_fraction :: "string \<Rightarrow> string \<times> string" where
  "parse_fraction r =
     (case r of c # r' \<Rightarrow> if c = CHR ''.'' then (takeWhile is_digit r', dropWhile is_digit r') else ([], r) | [] \<Rightarrow> ([], []))"

definition parse_decimal :: "string \<Rightarrow> real option" where
  "parse_decimal s =
     (let ip = takeWhile is_digit s; (fp, r) = parse_fraction (dropWhile is_digit s)
      in if ip = [] \<and> fp = [] then None
         else case parse_exponent r of
             None \<Rightarrow> None
           | Some e \<Rightarrow> let x = real (digits_val ip) + real (digits_val fp) / 10 ^ length fp
               in Some (if 0 \<le> e then x * 10 ^ nat e else x / 10 ^ nat (- e)))"

definition radix_digit :: "char \<Rightarrow> nat option" where
  "radix_digit c = (let n = of_char (to_lower c) :: nat
     in if 48 \<le> n \<and> n \<le> 57 then Some (n - 48) else if 97 \<le> n \<and> n \<le> 102 then Some (n - 87) else None)"

definition parse_radix :: "nat \<Rightarrow> string \<Rightarrow> jsnum" where
  "parse_radix b s =
     (if s \<noteq> [] \<and> list_all (\<lambda>c. case radix_digit c of Some d \<Rightarrow> d < b | None \<Rightarrow> False) s
      then Fin (real (foldl (\<lambda>n c. b * n + the (radix_digit c)) 0 s)) else NaN)"

definition number_of_text :: "string \<Rightarrow> jsnum" where
  "number_of_text text =
     (let s = trim text; (neg, u) = read_sign s
      in if s = [] then Fin 0
         else if starts_with s ''0x'' \<or> starts_with s ''0X'' then parse_radix 16 (drop 2 s)
         else if starts_with s ''0o'' \<or> starts_with s ''0O'' then parse_radix 8 (drop 2 s)
         else if starts_with s ''0b'' \<or> starts_with s ''0B'' then parse_radix 2 (drop 2 s)
         else if u = ''Infinity'' then (if neg then NInf else PInf)
         else case parse_decimal u of None \<Rightarrow> NaN | Some x \<Rightarrow> Fin (if neg then - x else x))"

definition js_number :: "js_value \<Rightarrow> jsnum" where
  "js_number v = (case v of VUndefined \<Rightarrow> NaN | VNull \<Rightarrow> Fin 0 | VText s \<Rightarrow> number_of_text s | VNumber x \<Rightarrow> x)"

text \<open>\<open>Number.isNaN(v)\<close> holds of the number only, not of a text.\<close>

definition is_NaN_value :: "js_value \<Rightarrow> bool" where
  "is_NaN_value v \<longleftrightarrow> v = VNumber NaN"

definition nullish :: "js_value \<Rightarrow> bool" where
  "nullish v \<longleftrightarrow> v = VUndefined \<or> v = VNull"

section \<open>Printing\<close>

text \<open>The text of a whole number.\<close>

definition whole_text :: "jsnum \<Rightarrow> string" where
  "whole_text x = (case x of NaN \<Rightarrow> ''NaN'' | PInf \<Rightarrow> ''Infinity'' | NInf \<Rightarrow> ''-Infinity'' | Fin a \<Rightarrow> js_int \<lfloor>a\<rfloor>)"

definition decimal_text :: "nat \<Rightarrow> nat \<Rightarrow> string" where
  "decimal_text k n =
     (if k = 0 then nat_digits n
      else nat_digits (n div 10 ^ k) @ ''.'' @ pad_start k (CHR ''0'') (nat_digits (n mod 10 ^ k)))"

text \<open>\<open>x.toFixed(k)\<close>\<close>

definition fixed_text :: "nat \<Rightarrow> jsnum \<Rightarrow> string" where
  "fixed_text k x =
     (case x of
        Fin a \<Rightarrow> (if a < 0 then ''-'' else []) @ decimal_text k (nat \<lfloor>\<bar>a\<bar> * 10 ^ k + 1 / 2\<rfloor>)
      | _ \<Rightarrow> whole_text x)"

section \<open>Escaping\<close>

definition html_map :: "char \<Rightarrow> string option" where
  "html_map c =
     (if c = CHR ''&'' then Some ''&amp;'' else if c = CHR ''<'' then Some ''&lt;'' else if c = CHR ''>'' then Some ''&gt;''
      else if c = CHR 0x22 then Some ''&quot;'' else if c = CHR 0x27 then Some ''&#x27;'' else if c = CHR ''/'' then Some ''&#x2F;''
      else if c = CHR 0x60 then Some ''&#x60;'' else if c = CHR ''='' then Some ''&#x3D;'' else None)"

definition escape_char :: "char \<Rightarrow> string" where
  "escape_char c = (case html_map c of Some e \<Rightarrow> e | None \<Rightarrow> [c])"

definition escape_text :: "string \<Rightarrow> string" where
  "escape_text s = concat (map escape_char s)"

definition escapeHtml :: "(jsnum \<Rightarrow> string) \<Rightarrow> js_value \<Rightarrow> string" where
  "escapeHtml show_num str =
     (case str of VUndefined \<Rightarrow> [] | VNull \<Rightarrow> [] | VText s \<Rightarrow> escape_text s | VNumber n \<Rightarrow> escape_text (show_num n))"

section \<open>Numbers\<close>

type_synonym locale_text = "nat \<Rightarrow> nat \<Rightarrow> jsnum \<Rightarrow> string"

text \<open>With a number of decimals, the only form of the options the model has.\<close>

definition formatNumber :: "locale_text \<Rightarrow> js_value \<Rightarrow> nat \<Rightarrow> string" where
  "formatNumber locale num decimals =
     (if nullish num \<or> is_NaN_value num then ''--'' else locale decimals decimals (js_number num))"

definition toFiniteNumber :: "js_value \<Rightarrow> bool \<Rightarrow> real option" where
  "toFiniteNumber value blankAsZero =
     (if nullish value \<or> value = VText [] then (if value = VText [] \<and> blankAsZero then Some 0 else None)
      else case js_number value of Fin a \<Rightarrow> Some a | _ \<Rightarrow> None)"

definition formatInteger :: "locale_text \<Rightarrow> js_value \<Rightarrow> string \<Rightarrow> string" where
  "formatInteger locale value defaultValue =
     (case toFiniteNumber value False of None \<Rightarrow> defaultValue | Some n \<Rightarrow> locale 0 3 (js_round (Fin n)))"

definition formatOdometer :: "locale_text \<Rightarrow> js_value \<Rightarrow> string \<Rightarrow> nat \<Rightarrow> string \<Rightarrow> bool \<Rightarrow> bool \<Rightarrow> string" where
  "formatOdometer locale value defaultValue decimals suffix allowZero blankAsZero =
     (case toFiniteNumber value blankAsZero of
        None \<Rightarrow> defaultValue
      | Some n \<Rightarrow>
          if \<not> allowZero \<and> n \<le> 0 then defaultValue
          else (if 0 < decimals then locale 0 decimals (Fin n) else locale 0 3 (js_round (Fin n))) @ suffix)"

definition formatPercentage :: "js_value \<Rightarrow> nat \<Rightarrow> string" where
  "formatPercentage value decimals =
     (if nullish value \<or> is_NaN_value value then ''--'' else fixed_text decimals (js_number value) @ ''%'')"

definition formatCurrency :: "(string \<Rightarrow> real \<Rightarrow> string) \<Rightarrow> js_value \<Rightarrow> string \<Rightarrow> string \<Rightarrow> string" where
  "formatCurrency currency_text value currency defaultValue =
     (if nullish value then defaultValue
      else if (case value of VText s \<Rightarrow> trim s = [] | _ \<Rightarrow> False) then defaultValue
      else case js_number value of Fin amount \<Rightarrow> currency_text currency amount | _ \<Rightarrow> defaultValue)"

definition formatDistance :: "js_value \<Rightarrow> nat \<Rightarrow> string \<Rightarrow> string \<Rightarrow> string" where
  "formatDistance miles decimals unit defaultValue =
     (if nullish miles then defaultValue
      else case js_number miles of Fin n \<Rightarrow> fixed_text decimals (Fin n) @ '' '' @ unit | _ \<Rightarrow> defaultValue)"

definition formatMiles :: "js_value \<Rightarrow> nat \<Rightarrow> string \<Rightarrow> bool \<Rightarrow> string" where
  "formatMiles miles decimals defaultValue allowZero =
     (case js_number miles of
        Fin n \<Rightarrow> if \<not> allowZero \<and> n \<le> 0 then defaultValue else fixed_text decimals (Fin n) @ '' mi''
      | _ \<Rightarrow> defaultValue)"

definition formatSpeed :: "js_value \<Rightarrow> nat \<Rightarrow> string \<Rightarrow> string" where
  "formatSpeed value decimals defaultValue =
     (case js_number value of
        Fin n \<Rightarrow> if n \<le> 0 then defaultValue
          else if decimals = 0 then whole_text (js_round (Fin n)) @ '' mph'' else fixed_text decimals (Fin n) @ '' mph''
      | _ \<Rightarrow> defaultValue)"

definition formatGallons :: "js_value \<Rightarrow> string \<Rightarrow> string" where
  "formatGallons value defaultValue =
     (case js_number value of Fin n \<Rightarrow> if n \<le> 0 then defaultValue else fixed_text 2 (Fin n) @ '' gal'' | _ \<Rightarrow> defaultValue)"

text \<open>The loop over the units; the second result is the index of the unit.\<close>

definition byte_units :: "string list" where
  "byte_units = [''B'', ''KB'', ''MB'', ''GB'', ''TB'']"

function scale_bytes :: "real \<Rightarrow> nat \<Rightarrow> real \<times> nat" where
  "scale_bytes v unitIndex =
     (if v \<ge> 1024 \<and> unitIndex < length byte_units - 1 then scale_bytes (v / 1024) (unitIndex + 1) else (v, unitIndex))"
  by pat_completeness auto
termination by (relation "measure (\<lambda>(v, unitIndex). length byte_units - unitIndex)") auto

declare scale_bytes.simps [simp del]

definition formatBytes :: "jsnum \<Rightarrow> string \<Rightarrow> string" where
  "formatBytes bytes defaultValue =
     (case bytes of
        Fin b \<Rightarrow>
          if b \<le> 0 then defaultValue
          else
            let (v, unitIndex) = scale_bytes b 0; precision = (if v \<ge> 100 \<or> unitIndex = 0 then 0 else if v \<ge> 10 then 1 else 2)
            in fixed_text precision (Fin v) @ '' '' @ byte_units ! unitIndex
      | _ \<Rightarrow> defaultValue)"

definition M_TO_MI :: real where "M_TO_MI = 1 / (1609344 / 1000)"
definition M_TO_FT :: real where "M_TO_FT = 328084 / 100000"

definition distanceInUserUnits :: "jsnum option \<Rightarrow> nat \<Rightarrow> string" where
  "distanceInUserUnits meters decimals =
     (let safeMeters = (case meters of Some x \<Rightarrow> if x = NaN then 0 else x | None \<Rightarrow> 0);
          miles = safeMeters * Fin M_TO_MI
      in if miles < Fin (1 / 10) then fixed_text 0 (safeMeters * Fin M_TO_FT) @ '' ft'' else fixed_text decimals miles @ '' mi'')"

definition formatCompactNumber :: "(real \<Rightarrow> string) \<Rightarrow> jsnum \<Rightarrow> string" where
  "formatCompactNumber show_num num =
     (case num of
        Fin n \<Rightarrow> if n \<ge> 1000000 then fixed_text 1 (Fin (n / 1000000)) @ ''M''
          else if n \<ge> 1000 then fixed_text 1 (Fin (n / 1000)) @ ''K'' else show_num n
      | _ \<Rightarrow> ''0'')"

section \<open>Durations\<close>

definition formatDuration :: "jsnum option \<Rightarrow> string" where
  "formatDuration seconds =
     (case seconds of
        None \<Rightarrow> ''--''
      | Some sec \<Rightarrow>
          if sec = NaN then ''--''
          else
            let h = js_floor (sec / 3600); m = js_floor (js_mod sec 3600 / 60); s = js_floor (js_mod sec 60)
            in if h > 0 then whole_text h @ ''h '' @ whole_text m @ ''m''
               else if m > 0 then whole_text m @ ''m '' @ whole_text s @ ''s''
               else whole_text s @ ''s'')"

definition formatDurationMs :: "jsnum \<Rightarrow> string" where
  "formatDurationMs ms = formatDuration (Some (js_floor (ms / 1000)))"

definition formatDurationCompact :: "js_value \<Rightarrow> string option" where
  "formatDurationCompact seconds =
     (case js_number seconds of
        Fin n \<Rightarrow>
          if n \<le> 0 then None
          else
            let totalMinutes = max 1 \<lfloor>n / 60 + 1 / 2\<rfloor>; hours = totalMinutes div 60; minutes = totalMinutes mod 60
            in Some (if hours > 0 then
                       (if minutes > 0 then js_int hours @ ''h '' @ pad_start 2 (CHR ''0'') (js_int minutes) @ ''m'' else js_int hours @ ''h'')
                     else js_int minutes @ ''m'')
      | _ \<Rightarrow> None)"

definition formatDurationFromHours :: "jsnum option \<Rightarrow> string" where
  "formatDurationFromHours hours =
     (case hours of
        None \<Rightarrow> ''--''
      | Some x \<Rightarrow>
          if falsy x \<or> x \<le> 0 then ''--''
          else if x < 1 then ''Under 1 hour''
          else
            let totalMinutes = js_round (x * 60); wholeHours = js_floor (totalMinutes / 60); minutes = js_mod totalMinutes 60
            in if minutes = 0 then whole_text wholeHours @ '' hour'' @ (if wholeHours = 1 then [] else ''s'')
               else whole_text wholeHours @ ''h '' @ whole_text minutes @ ''m'')"

definition two_digit :: "int \<Rightarrow> string" where
  "two_digit n = pad_start 2 (CHR ''0'') (js_int n)"

text \<open>\<open>None\<close> stands for a value that is not a number; infinity goes to \<open>formatDuration\<close>.\<close>

definition formatSecondsToHMS :: "jsnum option \<Rightarrow> string" where
  "formatSecondsToHMS seconds =
     (case seconds of
        None \<Rightarrow> ''00:00:00''
      | Some NaN \<Rightarrow> ''00:00:00''
      | Some NInf \<Rightarrow> ''00:00:00''
      | Some PInf \<Rightarrow> formatDuration (Some PInf)
      | Some (Fin a) \<Rightarrow>
          let totalSeconds = max 0 \<lfloor>a\<rfloor>; h = totalSeconds div 3600; m = totalSeconds mod 3600 div 60; s = totalSeconds mod 60
          in if h \<ge> 24 then formatDuration (Some (Fin a))
             else two_digit h @ '':'' @ two_digit m @ '':'' @ two_digit s)"

text \<open>\<open>h %= 24\<close> keeps the sign of the dividend.\<close>

definition formatTimeFromHours :: "real option \<Rightarrow> string" where
  "formatTimeFromHours hours =
     (case hours of
        None \<Rightarrow> ''--:--''
      | Some x \<Rightarrow>
          let h0 = \<lfloor>x\<rfloor>; m0 = \<lfloor>(x - of_int h0) * 60 + 1 / 2\<rfloor>;
              (h1, m) = (if m0 = 60 then (h0 + 1, 0) else (h0, m0));
              h = (if h1 < 0 then - ((- h1) mod 24) else h1 mod 24);
              h12 = (if h < 0 then - ((- h) mod 12) else h mod 12)
          in js_int (if h12 = 0 then 12 else h12) @ '':'' @ two_digit m @ '' '' @ (if h < 12 then ''AM'' else ''PM''))"

definition formatHourLabel :: "int \<Rightarrow> string" where
  "formatHourLabel hour =
     (if hour = 0 then ''12 AM'' else if hour = 12 then ''12 PM''
      else if hour < 12 then js_int hour @ '' AM'' else js_int (hour - 12) @ '' PM'')"

text \<open>The first match of \<open>/(\d+)\s*u/\<close>: its digits.\<close>

fun match_unit :: "char \<Rightarrow> string \<Rightarrow> string option" where
  "match_unit u [] = None"
| "match_unit u (c # s) =
     (let ds = takeWhile is_digit (c # s); rest = dropWhile is_space (dropWhile is_digit (c # s))
      in if ds \<noteq> [] \<and> rest \<noteq> [] \<and> hd rest = u then Some ds else match_unit u s)"

definition unit_seconds :: "char \<Rightarrow> nat \<Rightarrow> string \<Rightarrow> nat" where
  "unit_seconds u k duration = (case match_unit u duration of None \<Rightarrow> 0 | Some ds \<Rightarrow> digits_val ds * k)"

definition parseDurationToSeconds :: "string \<Rightarrow> nat" where
  "parseDurationToSeconds duration =
     (if duration = [] \<or> duration = ''N/A'' \<or> duration = ''Unknown'' then 0
      else unit_seconds (CHR ''d'') 86400 duration + unit_seconds (CHR ''h'') 3600 duration +
           unit_seconds (CHR ''m'') 60 duration + unit_seconds (CHR ''s'') 1 duration)"

section \<open>Escaped text\<close>

text \<open>The entities \<open>escapeHtml\<close> writes, decoded as a browser does.\<close>

definition html_entities :: "(string \<times> char) list" where
  "html_entities = [(''&amp;'', CHR ''&''), (''&lt;'', CHR ''<''), (''&gt;'', CHR ''>''), (''&quot;'', CHR 0x22), (''&#x27;'', CHR 0x27),
     (''&#x2F;'', CHR ''/''), (''&#x60;'', CHR 0x60), (''&#x3D;'', CHR ''='')]"

function html_decode :: "string \<Rightarrow> string" where
  "html_decode [] = []"
| "html_decode (c # s) =
     (case find (\<lambda>(e, ch). starts_with (c # s) e) html_entities of
        Some (e, ch) \<Rightarrow> ch # html_decode (drop (length e - 1) s)
      | None \<Rightarrow> c # html_decode s)"
  by pat_completeness auto
termination by (relation "measure length") auto

lemma escape_char_cases:
  obtains (entity) e where "(e, c) \<in> set html_entities" "escape_char c = e" "hd e = CHR ''&''" "set (tl e) \<inter> set ''&<>/='' = {}"
      "CHR 0x22 \<notin> set e" "CHR 0x27 \<notin> set e" "CHR 0x60 \<notin> set e"
  | (plain) "escape_char c = [c]" "c \<notin> set ''&<>/=''" "c \<noteq> CHR 0x22" "c \<noteq> CHR 0x27" "c \<noteq> CHR 0x60"
proof (cases "html_map c")
  case None
  then have "escape_char c = [c]" "c \<notin> set ''&<>/=''" "c \<noteq> CHR 0x22" "c \<noteq> CHR 0x27" "c \<noteq> CHR 0x60"
    by (auto simp: escape_char_def html_map_def split: if_splits)
  then show ?thesis by (rule plain)
next
  case (Some e)
  then have "(e, c) \<in> set html_entities" "escape_char c = e" "hd e = CHR ''&''" "set (tl e) \<inter> set ''&<>/='' = {}"
    "CHR 0x22 \<notin> set e" "CHR 0x27 \<notin> set e" "CHR 0x60 \<notin> set e"
    by (auto simp: escape_char_def html_map_def html_entities_def split: if_splits)
  then show ?thesis by (rule entity)
qed

lemma find_entity: "(e, c) \<in> set html_entities \<Longrightarrow> find (\<lambda>(e', ch). starts_with (e @ s) e') html_entities = Some (e, c)"
  by (simp only: html_entities_def list.set insert_iff empty_iff prod.inject, elim disjE conjE FalseE) (simp_all add: starts_with_def)

lemma decode_entity:
  assumes "(e, c) \<in> set html_entities"
  shows "html_decode (e @ s) = c # html_decode s"
proof -
  obtain a r where e: "e = a # r" using assms by (auto simp: html_entities_def)
  show ?thesis using find_entity [OF assms, of s] by (simp add: e)
qed

lemma decode_plain: "c \<noteq> CHR ''&'' \<Longrightarrow> html_decode (c # s) = c # html_decode s"
  by (simp add: html_entities_def starts_with_def)

lemma decode_escape: "html_decode (escape_text s) = s"
proof (induction s)
  case (Cons c s)
  show ?case
  proof (cases c rule: escape_char_cases)
    case (entity e)
    then show ?thesis using Cons.IH decode_entity [OF entity(1)] by (simp add: escape_text_def)
  next
    case plain
    then show ?thesis using Cons.IH decode_plain by (simp add: escape_text_def del: html_decode.simps)
  qed
qed (simp add: escape_text_def)

lemma escape_no_special: "c \<in> set (escape_text s) \<Longrightarrow> c \<notin> set ''<>/='' \<and> c \<noteq> CHR 0x22 \<and> c \<noteq> CHR 0x27 \<and> c \<noteq> CHR 0x60"
proof (induction s)
  case (Cons d s)
  consider "c \<in> set (escape_char d)" | "c \<in> set (escape_text s)" using Cons.prems by (auto simp: escape_text_def)
  then show ?case
  proof cases
    case 1
    then show ?thesis
    proof (cases d rule: escape_char_cases)
      case (entity e)
      then have "c = hd e \<or> c \<in> set (tl e)" "c \<in> set e" using 1 by (cases e; auto)+
      then show ?thesis using entity by auto
    qed auto
  qed (use Cons.IH in blast)
qed (simp add: escape_text_def)

lemma escape_ampersand: "escape_text s = u @ CHR ''&'' # v \<Longrightarrow> \<exists>e \<in> fst ` set html_entities. starts_with (CHR ''&'' # v) e"
proof (induction s arbitrary: u)
  case (Cons c s)
  have split: "escape_char c @ escape_text s = u @ CHR ''&'' # v" using Cons.prems by (simp add: escape_text_def)
  then obtain us where us: "u = escape_char c @ us \<and> us @ CHR ''&'' # v = escape_text s \<or> u @ us = escape_char c \<and> CHR ''&'' # v = us @ escape_text s"
    unfolding append_eq_append_conv2 by metis
  show ?case
  proof (cases "u = escape_char c @ us \<and> us @ CHR ''&'' # v = escape_text s")
    case True
    then show ?thesis using Cons.IH [of us] by simp
  next
    case False
    then have u: "u @ us = escape_char c" "CHR ''&'' # v = us @ escape_text s" using us by auto
    show ?thesis
    proof (cases us)
      case Nil
      then show ?thesis using u(2) Cons.IH [of "[]"] by simp
    next
      case (Cons a us')
      then have a: "a = CHR ''&''" using u(2) by simp
      show ?thesis
      proof (cases c rule: escape_char_cases)
        case (entity e)
        then have "u = []" using u(1) Cons a by (cases u; auto)
        then have "e = us" using u(1) entity(2) by simp
        then show ?thesis using entity(1) u(2) by (auto simp: starts_with_def intro!: rev_bexI)
      next
        case plain
        then show ?thesis using u(1) Cons a by (cases u) auto
      qed
    qed
  qed
qed (simp add: escape_text_def)

text \<open>
  C35. Escaping makes any text safe to put into a page: the result contains none of the characters that open or close
  a tag or a quoted or unquoted attribute, an ampersand only as the start of one of the eight character references,
  and decoding these references gives back the text, so that nothing is lost and different texts stay different.
\<close>

theorem escapeHtml_safe:
  "(\<forall>c. c \<in> set (escapeHtml show_num v) \<longrightarrow> c \<notin> set ''<>/='' \<and> c \<noteq> CHR 0x22 \<and> c \<noteq> CHR 0x27 \<and> c \<noteq> CHR 0x60) \<and>
   (\<forall>a b. escapeHtml show_num v = a @ CHR ''&'' # b \<longrightarrow> (\<exists>e \<in> fst ` set html_entities. starts_with (CHR ''&'' # b) e)) \<and>
   html_decode (escapeHtml show_num (VText s)) = s"
proof -
  obtain t where "escapeHtml show_num v = escape_text t"
    by (cases v) (auto simp: escapeHtml_def escape_text_def intro: that [of "[]"])
  then show ?thesis using escape_no_special escape_ampersand by (auto simp: escapeHtml_def decode_escape)
qed

theorem escapeHtml_safe_witness:
  "CHR ''<'' \<notin> set (escapeHtml (\<lambda>_. ''1'') (VText ''<a href='')) \<and>
   html_decode (escapeHtml (\<lambda>_. ''1'') (VText ''<a href='')) = ''<a href=''"
  using escapeHtml_safe [of "\<lambda>_. ''1''" "VText ''<a href=''" "''<a href=''"] by auto

section \<open>Durations of whole seconds\<close>

lemma digits_are_digits: "list_all is_digit (nat_digits n)"
  using nat_digits_digits by (simp add: list_all_iff)

lemma digits_head: "\<exists>d r. nat_digits n = d # r \<and> is_digit d"
  using digits_are_digits [of n] by (cases "nat_digits n") (simp_all add: nat_digits.simps [of n] split: if_splits)

lemma js_rem_nat: "0 < k \<Longrightarrow> js_rem (real n) (real k) = real (n mod k)"
proof -
  assume "0 < k"
  then show ?thesis
    by (simp add: js_rem_def Let_def divide_less_0_iff floor_divide_of_nat_eq minus_div_mult_eq_mod [symmetric] of_nat_diff mult.commute)
qed

definition duration_text :: "nat \<Rightarrow> string" where
  "duration_text n =
     (let h = n div 3600; m = n mod 3600 div 60; s = n mod 60
      in if h > 0 then nat_digits h @ ''h '' @ nat_digits m @ ''m''
         else if m > 0 then nat_digits m @ ''m '' @ nat_digits s @ ''s''
         else nat_digits s @ ''s'')"

lemma floor_nat_div: "\<lfloor>real n / numeral k\<rfloor> = int (n div numeral k)"
  using floor_divide_of_nat_eq [of n "numeral k"] by simp

lemma formatDuration_nat: "formatDuration (Some (Fin (real n))) = duration_text n"
proof -
  have "js_rem (real n) 3600 = real (n mod 3600)" "js_rem (real n) 60 = real (n mod 60)"
    using js_rem_nat [of 3600 n] js_rem_nat [of 60 n] by simp_all
  then show ?thesis
    by (simp add: formatDuration_def duration_text_def Let_def floor_nat_div whole_text_def js_int_def del: floor_divide_of_nat_eq)
qed

lemma match_skip:
  assumes "list_all is_digit ds" "\<not> is_digit x" "\<not> is_space x" "x \<noteq> u"
  shows "match_unit u (ds @ x # r) = match_unit u r"
  using assms(1)
proof (induction ds)
  case Nil
  then show ?case using assms(2) by simp
next
  case (Cons d ds)
  then have "dropWhile is_digit (d # ds @ x # r) = x # r" using assms(2) by (simp add: list_all_iff dropWhile_append2)
  then show ?case using Cons assms(3,4) by (simp del: dropWhile.simps add: dropWhile.simps(2) [where P = is_space])
qed

lemma match_hit:
  assumes "list_all is_digit ds" "ds \<noteq> []" "\<not> is_digit u" "\<not> is_space u"
  shows "match_unit u (ds @ u # r) = Some ds"
proof -
  obtain d ds' where ds: "ds = d # ds'" using assms(2) by (cases ds) auto
  have "dropWhile is_digit (ds @ u # r) = u # r" "takeWhile is_digit (ds @ u # r) = ds"
    using assms(1,3) by (simp_all add: list_all_iff dropWhile_append2 takeWhile_append2)
  then show ?thesis using assms(4) by (simp add: ds)
qed

lemma match_space: "match_unit u (CHR '' '' # r) = match_unit u r"
  by (simp add: is_digit_def)

lemma match_nil: "match_unit u [] = None"
  by simp

declare match_unit.simps [simp del]

lemmas unit_chars = is_digit_def is_space_def
lemmas unit_match = match_skip [OF digits_are_digits] match_hit [OF digits_are_digits] match_space

lemma parse_two_units:
  assumes "u \<in> {CHR ''h'', CHR ''m'', CHR ''s''}" "w \<in> {CHR ''h'', CHR ''m'', CHR ''s''}" "u \<noteq> w"
    "v \<in> {CHR ''d'', CHR ''h'', CHR ''m'', CHR ''s''}"
  shows "match_unit v (nat_digits a @ u # CHR '' '' # nat_digits b @ [w]) = (if v = u then Some (nat_digits a) else if v = w then Some (nat_digits b) else None)"
proof -
  have nd: "\<not> is_digit x \<and> \<not> is_space x" if "x \<in> {CHR ''d'', CHR ''h'', CHR ''m'', CHR ''s''}" for x
    using that by (auto simp: unit_chars)
  have u: "\<not> is_digit u" "\<not> is_space u" and w: "\<not> is_digit w" "\<not> is_space w" using nd assms by auto
  have "match_unit v (nat_digits b @ [w]) = (if v = w then Some (nat_digits b) else None)"
    using match_hit [OF digits_are_digits _ w, of b "[]"] match_skip [OF digits_are_digits w, of v b "[]"] by (auto simp: match_nil)
  then show ?thesis
    using match_hit [OF digits_are_digits _ u, of a] match_skip [OF digits_are_digits u, of v a] assms(3) by (auto simp: match_space)
qed

lemma parse_one_unit:
  "match_unit v (nat_digits b @ ''s'') = (if v = CHR ''s'' then Some (nat_digits b) else None)"
  using match_hit [OF digits_are_digits, of b "CHR ''s''" "[]"] match_skip [OF digits_are_digits, of "CHR ''s''" v b "[]"]
  by (auto simp: unit_chars match_nil)

lemma parse_duration_text: "parseDurationToSeconds (duration_text n) = (if n < 3600 then n else n - n mod 60)"
proof -
  have no: "duration_text n \<noteq> []" "duration_text n \<noteq> ''N/A''" "duration_text n \<noteq> ''Unknown''"
  proof -
    have "\<exists>d r. duration_text n = d # r \<and> is_digit d"
      using digits_head [of "n div 3600"] digits_head [of "n mod 3600 div 60"] digits_head [of "n mod 60"]
      by (auto simp: duration_text_def Let_def)
    then show "duration_text n \<noteq> []" "duration_text n \<noteq> ''N/A''" "duration_text n \<noteq> ''Unknown''" by (auto simp: is_digit_def)
  qed
  consider "n \<ge> 3600" | "n < 3600" "60 \<le> n" | "n < 60" by linarith
  then show ?thesis
  proof cases
    case 1
    then have "duration_text n = nat_digits (n div 3600) @ CHR ''h'' # CHR '' '' # nat_digits (n mod 3600 div 60) @ ''m''"
      by (simp add: duration_text_def Let_def div_greater_zero_iff)
    then have "parseDurationToSeconds (duration_text n) = n div 3600 * 3600 + n mod 3600 div 60 * 60"
      using no by (simp add: parseDurationToSeconds_def unit_seconds_def parse_two_units digits_val_nat_digits del: digits_val.simps)
    also have "\<dots> = n - n mod 60"
    proof -
      have "n div 3600 * 3600 + n mod 3600 = n" "n mod 3600 div 60 * 60 + n mod 3600 mod 60 = n mod 3600" by simp_all
      moreover have "n mod 3600 mod 60 = n mod 60" by (rule mod_mod_cancel) simp
      ultimately show ?thesis by linarith
    qed
    finally show ?thesis using 1 by simp
  next
    case 2
    then have "duration_text n = nat_digits (n div 60) @ CHR ''m'' # CHR '' '' # nat_digits (n mod 60) @ ''s''"
      by (simp add: duration_text_def Let_def div_greater_zero_iff)
    then show ?thesis
      using no 2 by (simp add: parseDurationToSeconds_def unit_seconds_def parse_two_units digits_val_nat_digits del: digits_val.simps)
  next
    case 3
    then have "duration_text n = nat_digits n @ ''s''" by (simp add: duration_text_def Let_def)
    then show ?thesis
      using no 3 by (simp add: parseDurationToSeconds_def unit_seconds_def parse_one_unit digits_val_nat_digits del: digits_val.simps)
  qed
qed

text \<open>
  C36. Printing a duration and parsing it again gives back the duration: exactly for less than an hour, and without the
  seconds of the last minute, which are not printed, from an hour on.
\<close>

theorem duration_roundtrip:
  "parseDurationToSeconds (formatDuration (Some (Fin (real n)))) = (if n < 3600 then n else n - n mod 60) \<and>
   parseDurationToSeconds (formatDurationMs (Fin (real ms))) = (if ms div 1000 < 3600 then ms div 1000 else ms div 1000 - ms div 1000 mod 60)"
proof -
  have "formatDurationMs (Fin (real ms)) = duration_text (ms div 1000)"
    using formatDuration_nat [of "ms div 1000"] by (simp add: formatDurationMs_def floor_nat_div del: floor_divide_of_nat_eq)
  then show ?thesis by (simp only: formatDuration_nat parse_duration_text)
qed

section \<open>Clock notation\<close>

lemma two_digit_spec:
  assumes "0 \<le> k" "k < 100"
  shows "length (two_digit k) = 2 \<and> list_all is_digit (two_digit k) \<and> int (digits_val (two_digit k)) = k"
proof -
  define n where "n = nat k"
  have k: "js_int k = nat_digits n" and n: "n < 100" "int n = k" using assms by (simp_all add: js_int_def n_def)
  have zero: "foldl (\<lambda>m c. 10 * m + (of_char c - 48 :: nat)) 0 (replicate i (CHR ''0'')) = 0" for i by (induction i) simp_all
  have "length (nat_digits n) = (if n < 10 then 1 else 2)"
    using n(1) by (simp add: nat_digits.simps [of n] nat_digits.simps [of "n div 10"] div_less_iff_less_mult)
  then have "length (two_digit k) = 2" by (simp add: two_digit_def pad_start_def k)
  moreover have "list_all is_digit (two_digit k)"
    using digits_are_digits [of n] by (auto simp: two_digit_def pad_start_def k list_all_iff is_digit_def)
  moreover have "digits_val (two_digit k) = n"
    using digits_val_nat_digits [of n] by (simp add: two_digit_def pad_start_def k zero)
  ultimately show ?thesis using n(2) by simp
qed

lemma two_digit_no_colon: "0 \<le> k \<Longrightarrow> k < 100 \<Longrightarrow> CHR '':'' \<notin> set (two_digit k)"
  using two_digit_spec [of k] by (auto simp: list_all_iff is_digit_def)

text \<open>
  The clock notation of a duration below a day has two digits each for hours, minutes and seconds, which add up to
  the whole seconds of the duration, with at most 59 minutes and seconds; from a day on the notation of hours and
  minutes is used.
\<close>

theorem clock_notation:
  assumes "0 \<le> x"
  shows "(if \<lfloor>x\<rfloor> < 86400 then
       \<exists>h m s. split_at (CHR '':'') (formatSecondsToHMS (Some (Fin x))) = [h, m, s] \<and>
         length h = 2 \<and> length m = 2 \<and> length s = 2 \<and> list_all is_digit (h @ m @ s) \<and>
         digits_val m < 60 \<and> digits_val s < 60 \<and> int (digits_val h * 3600 + digits_val m * 60 + digits_val s) = \<lfloor>x\<rfloor>
     else formatSecondsToHMS (Some (Fin x)) = formatDuration (Some (Fin x)))"
proof -
  define t where "t = \<lfloor>x\<rfloor>"
  have t: "0 \<le> t" using assms by (simp add: t_def)
  show ?thesis
  proof (cases "t < 86400")
    case False
    then have "24 \<le> t div 3600" by linarith
    then show ?thesis using False t by (simp add: formatSecondsToHMS_def Let_def t_def)
  next
    case True
    let ?h = "two_digit (t div 3600)" and ?m = "two_digit (t mod 3600 div 60)" and ?s = "two_digit (t mod 60)"
    have b: "0 \<le> t div 3600" "t div 3600 < 24" "0 \<le> t mod 3600 div 60" "t mod 3600 div 60 < 60" "0 \<le> t mod 60" "t mod 60 < 60"
      using t True by (linarith, linarith, simp_all)
    have shown: "formatSecondsToHMS (Some (Fin x)) = ?h @ CHR '':'' # ?m @ CHR '':'' # ?s"
      using b t by (simp add: formatSecondsToHMS_def Let_def t_def)
    have nc: "CHR '':'' \<notin> set ?h" "CHR '':'' \<notin> set ?m" "CHR '':'' \<notin> set ?s" using b by (auto simp: two_digit_no_colon)
    have spl: "split_at (CHR '':'') (formatSecondsToHMS (Some (Fin x))) = [?h, ?m, ?s]"
      unfolding shown using nc by (simp add: split_at_prefix split_at_plain)
    have v: "int (digits_val ?h) = t div 3600" "int (digits_val ?m) = t mod 3600 div 60" "int (digits_val ?s) = t mod 60"
      using b by (simp_all add: two_digit_spec del: digits_val.simps)
    moreover have "t div 3600 * 3600 + t mod 3600 div 60 * 60 + t mod 60 = t"
    proof -
      have "t div 3600 * 3600 + t mod 3600 = t" "t mod 3600 div 60 * 60 + t mod 3600 mod 60 = t mod 3600" by simp_all
      moreover have "t mod 3600 mod 60 = t mod 60" by (rule mod_mod_cancel) simp
      ultimately show ?thesis by linarith
    qed
    ultimately have "int (digits_val ?h * 3600 + digits_val ?m * 60 + digits_val ?s) = t" by (simp only: of_nat_add of_nat_mult of_nat_numeral)
    moreover have "digits_val ?m < 60" "digits_val ?s < 60" using v b by linarith+
    moreover have "length ?h = 2" "length ?m = 2" "length ?s = 2" "list_all is_digit (?h @ ?m @ ?s)"
      using b by (simp_all add: two_digit_spec)
    ultimately show ?thesis using True spl unfolding t_def by (simp del: digits_val.simps)
  qed
qed

theorem clock_notation_witness:
  "\<exists>h m s. split_at (CHR '':'') (formatSecondsToHMS (Some (Fin 3725))) = [h, m, s] \<and>
     int (digits_val h * 3600 + digits_val m * 60 + digits_val s) = 3725"
  using clock_notation [of 3725] by (auto simp del: digits_val.simps)

text \<open>
  The time of day printed for decimal hours is the nearest minute, wrapped at midnight, on a clock of twelve hours
  that shows 12 and never 0.
\<close>

theorem time_of_day:
  assumes "0 \<le> x"
  shows "\<exists>h m ap. formatTimeFromHours (Some x) = js_int h @ '':'' @ two_digit m @ '' '' @ (if ap then ''AM'' else ''PM'') \<and>
    1 \<le> h \<and> h \<le> 12 \<and> 0 \<le> m \<and> m < 60 \<and> (h mod 12 + (if ap then 0 else 12)) * 60 + m = \<lfloor>x * 60 + 1 / 2\<rfloor> mod 1440"
proof -
  define t where "t = \<lfloor>x * 60 + 1 / 2\<rfloor>"
  have m0: "\<lfloor>(x - of_int \<lfloor>x\<rfloor>) * 60 + 1 / 2\<rfloor> = t - 60 * \<lfloor>x\<rfloor>"
  proof -
    have "(x - of_int \<lfloor>x\<rfloor>) * 60 + 1 / 2 = x * 60 + 1 / 2 - of_int (60 * \<lfloor>x\<rfloor>)" by (simp add: algebra_simps)
    then show ?thesis unfolding t_def by (simp only: floor_diff_of_int)
  qed
  have range: "0 \<le> t - 60 * \<lfloor>x\<rfloor>" "t - 60 * \<lfloor>x\<rfloor> \<le> 60" 
  proof -
    have "0 \<le> x - of_int \<lfloor>x\<rfloor>" "x - of_int \<lfloor>x\<rfloor> < 1" by linarith+
    then have "0 \<le> (x - of_int \<lfloor>x\<rfloor>) * 60" "(x - of_int \<lfloor>x\<rfloor>) * 60 < 1 * 60" by (simp, intro mult_strict_right_mono) simp_all
    then have "0 \<le> (x - of_int \<lfloor>x\<rfloor>) * 60 + 1 / 2" "(x - of_int \<lfloor>x\<rfloor>) * 60 + 1 / 2 < 61" by simp_all
    then show "0 \<le> t - 60 * \<lfloor>x\<rfloor>" "t - 60 * \<lfloor>x\<rfloor> \<le> 60" unfolding m0 [symmetric] by (simp_all add: floor_le_iff)
  qed
  have t: "(if t - 60 * \<lfloor>x\<rfloor> = 60 then (\<lfloor>x\<rfloor> + 1, 0) else (\<lfloor>x\<rfloor>, t - 60 * \<lfloor>x\<rfloor>)) = (t div 60, t mod 60)"
  proof -
    define q where "q = \<lfloor>x\<rfloor>"
    have "0 \<le> t - 60 * q" "t - 60 * q \<le> 60" using range by (simp_all add: q_def)
    moreover have "t div 60 = q + 1 \<and> t mod 60 = 0" if "t - 60 * q = 60"
      using int_div_pos_eq [of t 60 "q + 1" 0] int_mod_pos_eq [of t 60 "q + 1" 0] that by simp
    moreover have "t div 60 = q \<and> t mod 60 = t - 60 * q" if "0 \<le> t - 60 * q" "t - 60 * q < 60"
      using int_div_pos_eq [of t 60 q "t - 60 * q"] int_mod_pos_eq [of t 60 q "t - 60 * q"] that by simp
    ultimately show ?thesis unfolding q_def by fastforce
  qed
  have "0 \<le> \<lfloor>x\<rfloor>" using assms by simp
  then have "0 \<le> t" using range(1) by linarith
  then have "0 \<le> t div 60" by (simp add: pos_imp_zdiv_nonneg_iff)
  then have shown: "formatTimeFromHours (Some x) = js_int (if t div 60 mod 24 mod 12 = 0 then 12 else t div 60 mod 24 mod 12) @
      '':'' @ two_digit (t mod 60) @ '' '' @ (if t div 60 mod 24 < 12 then ''AM'' else ''PM'')"
    unfolding formatTimeFromHours_def option.case Let_def m0 t case_prod_conv by simp
  define H where "H = t div 60 mod 24"
  have "t mod 1440 = H * 60 + t mod 60" unfolding H_def using zmod_zmult2_eq [of 24 t 60] by simp
  moreover have "0 \<le> H" "H < 24" by (simp_all add: H_def)
  moreover have "(if H mod 12 = 0 then 12 else H mod 12) mod 12 + (if H < 12 then 0 else 12) = H"
  proof -
    have "H mod 12 = (if H < 12 then H else H - 12)"
      using \<open>0 \<le> H\<close> \<open>H < 24\<close> int_mod_pos_eq [of H 12 0 H] int_mod_pos_eq [of H 12 1 "H - 12"] by simp
    then show ?thesis by simp
  qed
  ultimately show ?thesis
    unfolding shown H_def [symmetric] t_def [symmetric]
    by (intro exI [of _ "if H mod 12 = 0 then 12 else H mod 12"] exI [of _ "t mod 60"] exI [of _ "H < 12"]) (auto simp: less_imp_le)
qed

theorem time_of_day_witness:
  "\<exists>h m ap. formatTimeFromHours (Some (1439 / 60)) = js_int h @ '':'' @ two_digit m @ '' '' @ (if ap then ''AM'' else ''PM'') \<and>
    (h mod 12 + (if ap then 0 else 12)) * 60 + m = 1439"
  using time_of_day [of "1439 / 60"] by fastforce

section \<open>Byte counts\<close>

lemma scale_bytes_spec:
  assumes "scale_bytes v i = (w, j)" "i \<le> 4"
  shows "v = w * 1024 ^ (j - i) \<and> i \<le> j \<and> j \<le> 4 \<and> (j < 4 \<longrightarrow> w < 1024) \<and> (i < j \<longrightarrow> 1 \<le> w)"
  using assms
proof (induction v i rule: scale_bytes.induct)
  case (1 v i)
  show ?case
  proof (cases "v \<ge> 1024 \<and> i < length byte_units - 1")
    case True
    then have "scale_bytes (v / 1024) (i + 1) = (w, j)" "i + 1 \<le> 4" using "1.prems" by (simp_all add: scale_bytes.simps [of v i] byte_units_def)
    note IH = "1.IH" [OF True this]
    have "1 \<le> w"
    proof (cases "i + 1 < j")
      case False
      then have "j = i + 1" using IH by simp
      then have "w = v / 1024" using IH by simp
      then show ?thesis using True by simp
    qed (use IH in simp)
    moreover have "v = w * 1024 ^ (j - i)"
    proof -
      have "j - i = Suc (j - (i + 1))" using IH by linarith
      moreover have "v = 1024 * (w * 1024 ^ (j - (i + 1)))" using IH by (metis divide_eq_eq mult.commute zero_neq_numeral)
      ultimately show ?thesis by simp
    qed
    ultimately show ?thesis using IH by simp
  next
    case False
    then have "w = v" "j = i" using "1.prems"(1) unfolding scale_bytes.simps [of v i] by (simp_all only: if_False prod.inject)
    then show ?thesis using False "1.prems"(2) by (auto simp: byte_units_def)
  qed
qed

text \<open>
  A byte count is shown in the unit it belongs to: the number shown times the unit is the count up to the rounding,
  it is less than 1024 in every unit but the largest and at least 1 in every unit but the smallest, and it has no
  decimal from 100 on and for plain bytes, one from 10 on and two below.
\<close>

theorem formatBytes_unit:
  assumes "0 < b"
  shows "\<exists>v i. b = v * 1024 ^ i \<and> i \<le> 4 \<and> (i < 4 \<longrightarrow> v < 1024) \<and> (0 < i \<longrightarrow> 1 \<le> v) \<and>
    formatBytes (Fin b) d = fixed_text (if v \<ge> 100 \<or> i = 0 then 0 else if v \<ge> 10 then 1 else 2) (Fin v) @ '' '' @
      [''B'', ''KB'', ''MB'', ''GB'', ''TB''] ! i"
proof -
  obtain v i where vi: "scale_bytes b 0 = (v, i)" by fastforce
  then show ?thesis using scale_bytes_spec [OF vi] assms by (intro exI [of _ v] exI [of _ i]) (simp add: formatBytes_def byte_units_def)
qed

theorem formatBytes_unit_witness:
  "\<exists>v i. 1536 = v * 1024 ^ i \<and> i \<le> 4 \<and> (i < 4 \<longrightarrow> v < (1024 :: real))"
  using formatBytes_unit [of 1536 "[]"] by (metis zero_less_numeral)

text \<open>The unit is chosen before the rounding, so a count just below a unit is shown as 1024 of the smaller one.\<close>

lemma digit_chars:
  "char_of (48 :: nat) = CHR ''0''" "char_of (49 :: nat) = CHR ''1''" "char_of (50 :: nat) = CHR ''2''" "char_of (52 :: nat) = CHR ''4''"
  by code_simp+

lemma bytes_rounded_up: "formatBytes (Fin 1048575) d = ''1024 KB''"
  by (simp add: formatBytes_def scale_bytes.simps byte_units_def fixed_text_def decimal_text_def floor_eq_iff nat_digits.simps digit_chars)

lemma compact_rounded_up: "formatCompactNumber show_num (Fin 999999) = ''1000.0K''"
  by (simp add: formatCompactNumber_def fixed_text_def decimal_text_def pad_start_def nat_digits.simps digit_chars)

text \<open>A missing distance is the number zero, so that the text for invalid distances is not used.\<close>

lemma null_miles: "formatMiles VNull 1 ''--'' True = ''0.0 mi''"
  by (simp add: formatMiles_def js_number_def fixed_text_def decimal_text_def pad_start_def nat_digits.simps digit_chars)

end
