(* ===== verification/FormatDates.thy ===== *)
theory FormatDates
  imports Formatting
begin

text \<open>
  Texts for the pages, second part of \<open>static/js/modules/utils/formatting.js\<close>: dates, relative times, calendar weeks,
  vehicles and places.

  \<^item> A date argument is \<open>None\<close> when it is falsy, otherwise the milliseconds of the date made from it, \<open>None\<close> inside when
    that date is invalid. \<open>now\<close> is the time of the call in milliseconds.
  \<^item> Calendar dates in the local time zone are day numbers, as for \<open>JSDate\<close>: the weekly range only adds days.
    \<open>local_date\<close>, \<open>month_day\<close>, \<open>month_year\<close> and \<open>locale_text\<close> stand for the language's own texts, \<open>dayjs\<close> for the date
    library when it is loaded.
  \<^item> Shown: a relative time is the number of whole units elapsed, in the largest unit that has elapsed; the range of
    a calendar week is its Monday and Sunday by ISO 8601.
\<close>

type_synonym date_arg = "int option option"

section \<open>Dates and times\<close>

definition formatDateTime :: "date_arg \<Rightarrow> string \<Rightarrow> string \<Rightarrow> (int \<Rightarrow> string) \<Rightarrow> string" where
  "formatDateTime isoString defaultValue invalid locale_text =
     (case isoString of None \<Rightarrow> defaultValue | Some None \<Rightarrow> invalid | Some (Some ms) \<Rightarrow> locale_text ms)"

definition formatDateOnly :: "date_arg \<Rightarrow> (int option \<Rightarrow> string) \<Rightarrow> string" where
  "formatDateOnly isoString locale_text = (case isoString of None \<Rightarrow> ''--'' | Some d \<Rightarrow> locale_text d)"

definition formatTimeOnly :: "date_arg \<Rightarrow> (int option \<Rightarrow> string) \<Rightarrow> string" where
  "formatTimeOnly isoString locale_text = (case isoString of None \<Rightarrow> ''--'' | Some d \<Rightarrow> locale_text d)"

text \<open>\<open>dayjs\<close>: \<open>None\<close> without the library, \<open>Some None\<close> for a date it finds invalid, otherwise its text.\<close>

definition formatDateToString :: "string option option \<Rightarrow> (int \<Rightarrow> int \<times> int \<times> int) \<Rightarrow> date_arg \<Rightarrow> string option" where
  "formatDateToString dayjs local_ymd date =
     (case date of
        None \<Rightarrow> None
      | Some d \<Rightarrow>
          (case dayjs of
             Some (Some t) \<Rightarrow> Some t
           | _ \<Rightarrow>
               (case d of None \<Rightarrow> None
                | Some ms \<Rightarrow> (case local_ymd ms of (y, m, d) \<Rightarrow> Some (js_int y @ ''-'' @ two_digit m @ ''-'' @ two_digit d)))))"

definition formatForDisplay :: "string option option \<Rightarrow> string \<Rightarrow> string" where
  "formatForDisplay dayjs dateString = (case dayjs of Some (Some t) \<Rightarrow> t | _ \<Rightarrow> dateString)"

section \<open>Calendar weeks and months\<close>

text \<open>\<open>s.split(t)\<close> for a separator that is not empty: the first two pieces.\<close>

fun split_first :: "string \<Rightarrow> string \<Rightarrow> string \<times> string option" where
  "split_first t [] = ([], None)"
| "split_first t (c # s) =
     (if starts_with (c # s) t then ([], Some (drop (length t) (c # s)))
      else case split_first t s of (a, b) \<Rightarrow> (c # a, b))"

definition second_piece :: "string \<Rightarrow> string option \<Rightarrow> string option" where
  "second_piece t rest = (case rest of None \<Rightarrow> None | Some r \<Rightarrow> Some (fst (split_first t r)))"

definition week_start :: "int option \<Rightarrow> int option \<Rightarrow> utc_date" where
  "week_start year week =
     (case (year, week) of
        (Some y, Some w) \<Rightarrow>
          (case date_utc y 0 (1 + (w - 1) * 7) of
             None \<Rightarrow> None
           | Some simple \<Rightarrow>
               let dow = utc_day simple in if dow \<le> 4 then add_days (1 - dow) (Some simple) else add_days (8 - dow) (Some simple))
      | _ \<Rightarrow> None)"

definition same_month :: "utc_date \<Rightarrow> utc_date \<Rightarrow> bool" where
  "same_month a b = (case (a, b) of
     (Some m, Some n) \<Rightarrow> fst (snd (civil_from_days m)) = fst (snd (civil_from_days n)) | _ \<Rightarrow> False)"

definition day_of_month :: "utc_date \<Rightarrow> string" where
  "day_of_month d = (case d of None \<Rightarrow> ''NaN'' | Some n \<Rightarrow> js_int (snd (snd (civil_from_days n))))"

definition formatWeekRange :: "(utc_date \<Rightarrow> string) \<Rightarrow> string \<Rightarrow> string" where
  "formatWeekRange month_day weekStr =
     (if weekStr = [] then ''N/A''
      else
        let (year, rest) = split_first ''-W'' weekStr; week = second_piece ''-W'' rest;
            start = week_start (parse_int year) (case week of None \<Rightarrow> None | Some w \<Rightarrow> parse_int w);
            fin = add_days 6 start;
            endStr = (if same_month start fin then day_of_month fin else month_day fin)
        in month_day start @ ''-'' @ endStr @ '', '' @ year)"

definition formatMonth :: "(utc_date \<Rightarrow> string) \<Rightarrow> string \<Rightarrow> string" where
  "formatMonth month_year monthStr =
     (if monthStr = [] then ''N/A''
      else
        let (year, rest) = split_first ''-'' monthStr; month = second_piece ''-'' rest
        in month_year (case (parse_int year, case month of None \<Rightarrow> None | Some m \<Rightarrow> parse_int m) of
             (Some y, Some m) \<Rightarrow> date_utc y (m - 1) 1 | _ \<Rightarrow> None))"

section \<open>Relative times\<close>

definition plural :: "int \<Rightarrow> string" where
  "plural n = (if n > 1 then ''s'' else [])"

definition formatTimeAgo :: "int \<Rightarrow> date_arg \<Rightarrow> bool \<Rightarrow> (int \<Rightarrow> string) \<Rightarrow> string" where
  "formatTimeAgo now dateInput abbreviated local_date =
     (case dateInput of
        Some (Some date) \<Rightarrow>
          let seconds = (now - date) div 1000; minutes = seconds div 60; hours = minutes div 60; days = hours div 24
          in if seconds < 5 then ''just now''
             else if abbreviated then
               (if seconds < 60 then js_int seconds @ ''s ago'' else if minutes < 60 then js_int minutes @ ''m ago''
                else if hours < 24 then js_int hours @ ''h ago'' else js_int days @ ''d ago'')
             else if days > 7 then local_date date
             else if days > 0 then js_int days @ '' day'' @ plural days @ '' ago''
             else if hours > 0 then js_int hours @ '' hour'' @ plural hours @ '' ago''
             else if minutes > 0 then js_int minutes @ '' minute'' @ plural minutes @ '' ago''
             else ''Just now''
      | _ \<Rightarrow> ''Never'')"

record short_options =
  so_suffix :: string
  so_capitalize :: bool
  so_default :: string
  so_rejectFuture :: bool
  so_remainingMinutes :: bool
  so_rolloverDays :: bool

definition formatRelativeTimeShort :: "int \<Rightarrow> date_arg \<Rightarrow> short_options \<Rightarrow> string" where
  "formatRelativeTimeShort now dateInput opts =
     (case dateInput of
        Some (Some date) \<Rightarrow>
          if so_rejectFuture opts \<and> now - date < 0 then so_default opts
          else
            let seconds = max 0 ((now - date) div 1000); minutes = seconds div 60; hours = minutes div 60; days = hours div 24
            in if seconds < 60 then (if so_capitalize opts then ''Just now'' else ''just now'')
               else if minutes < 60 then js_int minutes @ ''m'' @ so_suffix opts
               else if \<not> so_rolloverDays opts \<or> hours < 24 then
                 (if so_remainingMinutes opts \<and> minutes mod 60 > 0
                  then js_int hours @ ''h '' @ js_int (minutes mod 60) @ ''m'' @ so_suffix opts
                  else js_int hours @ ''h'' @ so_suffix opts)
               else if days < 7 then js_int days @ ''d'' @ so_suffix opts
               else if days < 30 then js_int (days div 7) @ ''w'' @ so_suffix opts
               else js_int (days div 30) @ ''mo'' @ so_suffix opts
      | _ \<Rightarrow> so_default opts)"

record long_options =
  lo_capitalize :: bool
  lo_maxDays :: int
  lo_default :: string
  lo_yesterday :: "string option"

definition unit_ago :: "int \<Rightarrow> string \<Rightarrow> string" where
  "unit_ago n unit = js_int n @ '' '' @ unit @ (if n = 1 then [] else ''s'') @ '' ago''"

text \<open>\<open>fallback\<close>: the given formatter or the locale's date.\<close>

definition formatRelativeTimeLong :: "int \<Rightarrow> date_arg \<Rightarrow> long_options \<Rightarrow> (int \<Rightarrow> string) \<Rightarrow> string" where
  "formatRelativeTimeLong now dateInput opts fallback =
     (case dateInput of
        Some (Some date) \<Rightarrow>
          let seconds = max 0 ((now - date) div 1000); minutes = seconds div 60; hours = minutes div 60; days = hours div 24
          in if seconds < 60 then (if lo_capitalize opts then ''Just now'' else ''just now'')
             else if minutes < 60 then unit_ago minutes ''minute''
             else if hours < 24 then unit_ago hours ''hour''
             else if days = 1 \<and> lo_yesterday opts \<notin> {None, Some []} then the (lo_yesterday opts)
             else if days < lo_maxDays opts then unit_ago days ''day''
             else fallback date
      | _ \<Rightarrow> lo_default opts)"

section \<open>Vehicles and places\<close>

record vehicle =
  custom_name :: string
  v_year :: string
  v_make :: string
  v_model :: string
  v_vin :: string
  v_imei :: string

definition formatVehicleName :: "vehicle option \<Rightarrow> string" where
  "formatVehicleName vehicle =
     (case vehicle of
        None \<Rightarrow> ''Unknown''
      | Some v \<Rightarrow>
          if custom_name v \<noteq> [] then custom_name v
          else if v_year v \<noteq> [] \<or> v_make v \<noteq> [] \<or> v_model v \<noteq> [] then trim (v_year v @ '' '' @ v_make v @ '' '' @ v_model v)
          else if v_vin v \<noteq> [] then ''VIN: '' @ v_vin v else ''IMEI: '' @ v_imei v)"

record place_parts =
  formatted_address :: string
  pl_name :: string
  pl_street :: string
  pl_city :: string
  pl_state :: string

datatype place_value = NoPlace | PlaceText string | PlaceParts place_parts

fun join_text :: "string \<Rightarrow> string list \<Rightarrow> string" where
  "join_text sep [] = []"
| "join_text sep [x] = x"
| "join_text sep (x # y # ys) = x @ sep @ join_text sep (y # ys)"

definition sanitizeLocation :: "place_value \<Rightarrow> string" where
  "sanitizeLocation location =
     (case location of
        NoPlace \<Rightarrow> ''Unknown''
      | PlaceText s \<Rightarrow> if s = [] then ''Unknown'' else s
      | PlaceParts p \<Rightarrow>
          let joined = join_text '', '' (filter (\<lambda>s. s \<noteq> []) [pl_street p, pl_city p, pl_state p])
          in if formatted_address p \<noteq> [] then formatted_address p
             else if pl_name p \<noteq> [] then pl_name p
             else if joined \<noteq> [] then joined else ''Unknown'')"

section \<open>Whole units elapsed\<close>

lemma whole_units:
  fixes e k :: int
  assumes "0 < k" "k \<le> e"
  shows "1 \<le> e div k" "e div k * k \<le> e" "e < (e div k + 1) * k"
proof -
  have "e = e div k * k + e mod k" "0 \<le> e mod k" "e mod k < k" using assms by simp_all
  then show "e div k * k \<le> e" "e < (e div k + 1) * k" unfolding distrib_right mult_1 by linarith+
  show "1 \<le> e div k" using assms pos_imp_zdiv_pos_iff [of k e] by simp
qed

lemma nested_div:
  fixes e :: int
  shows "e div 60 div 60 = e div 3600" "e div 3600 div 24 = e div 86400" "e div 86400 div 7 = e div 604800" "e div 86400 div 30 = e div 2592000"
  by (simp_all add: zdiv_zmult2_eq [symmetric])

lemma div_less:
  fixes e k m :: int
  assumes "0 < k"
  shows "e div k < m \<longleftrightarrow> e < m * k"
proof -
  have b: "e div k * k \<le> e" "e < (e div k + 1) * k"
  proof -
    have "e = e div k * k + e mod k" "0 \<le> e mod k" "e mod k < k" using assms by simp_all
    then show "e div k * k \<le> e" "e < (e div k + 1) * k" unfolding distrib_right mult_1 by linarith+
  qed
  show ?thesis
  proof
    assume "e div k < m"
    then have "(e div k + 1) * k \<le> m * k" using assms by (intro mult_right_mono) auto
    then show "e < m * k" using b(2) by linarith
  next
    assume "e < m * k"
    then have "e div k * k < m * k" using b(1) by linarith
    then show "e div k < m" using assms by simp
  qed
qed

lemmas div_limits = div_less [of 60 _ 60, simplified] div_less [of 3600 _ 24, simplified] div_less [of 86400 _ 7, simplified]
  div_less [of 86400 _ 30, simplified]

text \<open>
  A short relative time counts whole elapsed units: for a date at least a minute ago it is a number followed by the
  letters of a unit, the number of these units that have elapsed, rounded down and at least one, and the unit is the
  largest of minutes, hours, days, weeks and months of thirty days that has elapsed. Less than a minute is \<open>just now\<close>,
  also for dates in the future unless these are rejected.
\<close>

theorem relative_time_units:
  assumes "so_rolloverDays opts" "\<not> so_remainingMinutes opts" "\<not> so_rejectFuture opts"
  defines "units \<equiv> [(''m'', 60), (''h'', 3600), (''d'', 86400), (''w'', 604800), (''mo'', 2592000 :: int)]"
  shows "(let elapsed = (now - date) div 1000 in
      if elapsed < 60 then formatRelativeTimeShort now (Some (Some date)) opts = (if so_capitalize opts then ''Just now'' else ''just now'')
      else \<exists>n name size. (name, size) \<in> set units \<and> formatRelativeTimeShort now (Some (Some date)) opts = js_int n @ name @ so_suffix opts \<and>
        1 \<le> n \<and> n * size \<le> elapsed \<and> elapsed < (n + 1) * size \<and> (\<forall>(name', size') \<in> set units. size' \<le> elapsed \<longrightarrow> size' \<le> size))"
proof -
  define e where "e = (now - date) div 1000"
  show ?thesis
  proof (cases "e < 60")
    case True
    then show ?thesis using assms(3) by (simp add: formatRelativeTimeShort_def Let_def e_def)
  next
    case False
    then have e: "60 \<le> e" "max 0 e = e" by simp_all
    let ?text = "formatRelativeTimeShort now (Some (Some date)) opts"
    have shown: "?text = (if e < 3600 then js_int (e div 60) @ ''m'' else if e < 86400 then js_int (e div 3600) @ ''h''
        else if e < 604800 then js_int (e div 86400) @ ''d'' else if e < 2592000 then js_int (e div 604800) @ ''w''
        else js_int (e div 2592000) @ ''mo'') @ so_suffix opts"
      using assms(1-3) e by (simp add: formatRelativeTimeShort_def Let_def e_def [symmetric] nested_div div_limits)
    have "\<exists>name size. (name, size) \<in> set units \<and> size \<le> e \<and> 0 < size \<and> ?text = js_int (e div size) @ name @ so_suffix opts \<and>
        (\<forall>(name', size') \<in> set units. size' \<le> e \<longrightarrow> size' \<le> size)"
    proof -
      consider "e < 3600" | "3600 \<le> e" "e < 86400" | "86400 \<le> e" "e < 604800" | "604800 \<le> e" "e < 2592000" | "2592000 \<le> e" by linarith
      then show ?thesis
      proof cases
        case 1
        then show ?thesis using e by (intro exI [of _ "''m''"] exI [of _ 60]) (simp add: shown units_def)
      next
        case 2
        then show ?thesis by (intro exI [of _ "''h''"] exI [of _ 3600]) (simp add: shown units_def)
      next
        case 3
        then show ?thesis by (intro exI [of _ "''d''"] exI [of _ 86400]) (simp add: shown units_def)
      next
        case 4
        then show ?thesis by (intro exI [of _ "''w''"] exI [of _ 604800]) (simp add: shown units_def)
      next
        case 5
        then show ?thesis by (intro exI [of _ "''mo''"] exI [of _ 2592000]) (simp add: shown units_def)
      qed
    qed
    then have "\<exists>n name size. (name, size) \<in> set units \<and> ?text = js_int n @ name @ so_suffix opts \<and>
        1 \<le> n \<and> n * size \<le> e \<and> e < (n + 1) * size \<and> (\<forall>(name', size') \<in> set units. size' \<le> e \<longrightarrow> size' \<le> size)"
      using whole_units by blast
    then show ?thesis using False by (simp add: e_def [symmetric] Let_def)
  qed
qed

definition plain_short :: short_options where
  "plain_short = \<lparr>so_suffix = '' ago'', so_capitalize = False, so_default = [], so_rejectFuture = False, so_remainingMinutes = False,
     so_rolloverDays = True\<rparr>"

theorem relative_time_units_witness:
  "\<exists>n name size. (name, size) \<in> set [(''m'', 60), (''h'', 3600), (''d'', 86400), (''w'', 604800), (''mo'', 2592000 :: int)] \<and>
     formatRelativeTimeShort 90000000 (Some (Some 0)) plain_short = js_int n @ name @ '' ago'' \<and> n * size \<le> 90000 \<and> 90000 < (n + 1) * size"
  using relative_time_units [of plain_short 90000000 0] by (auto simp: plain_short_def Let_def)

section \<open>Calendar weeks\<close>

text \<open>
  The range of a calendar week is that of ISO 8601: it starts on a Monday, ends on the Sunday six days later, and its
  Thursday is the Thursday of that number in the year, so that week 1 is the one with the year's first Thursday.
\<close>

theorem week_range_iso:
  assumes "100 \<le> y" "y \<le> 9999" "1 \<le> w" "w \<le> 53"
  shows "\<exists>n. week_start (Some y) (Some w) = Some n \<and> utc_day n = 1 \<and> add_days 6 (week_start (Some y) (Some w)) = Some (n + 6) \<and>
    utc_day (n + 6) = 0 \<and> days_from_civil (y, 1, 1) + 7 * (w - 1) \<le> n + 3 \<and> n + 3 < days_from_civil (y, 1, 1) + 7 * w"
proof -
  define J where "J = days_from_civil (y, 1, 1)"
  define s where "s = J + (w - 1) * 7"
  have J: "\<bar>J\<bar> \<le> 99000000" unfolding J_def using assms(1,2) by (simp add: days_from_civil_def march_year_start_def march_month_start_def)
  have s: "\<bar>s\<bar> \<le> 99500000" "date_utc y 0 (1 + (w - 1) * 7) = Some s"
    using J assms by (simp_all add: date_utc_def time_clip_def s_def J_def [symmetric])
  have dow: "0 \<le> utc_day s" "utc_day s < 7" by (simp_all add: utc_day_def)
  have shift: "utc_day (s + (k - utc_day s)) = k mod 7" for k
    unfolding utc_day_def by (simp add: mod_simps algebra_simps)
  define n where "n = (if utc_day s \<le> 4 then s + (1 - utc_day s) else s + (8 - utc_day s))"
  have clip: "\<bar>s + (1 - utc_day s)\<bar> \<le> 100000000" "\<bar>s + (8 - utc_day s)\<bar> \<le> 100000000" using s(1) dow by linarith+
  then have "week_start (Some y) (Some w) = Some n" using s(2) by (simp add: week_start_def add_days_def time_clip_def n_def Let_def)
  moreover have "utc_day n = 1" using shift [of 1] shift [of 8] by (simp add: n_def)
  moreover have "utc_day (n + 6) = 0" using \<open>utc_day n = 1\<close> mod_add_left_eq [of "n + 4" 7 6] by (simp add: utc_day_def)
  moreover have "add_days 6 (Some n) = Some (n + 6)"
  proof -
    have "\<bar>n + 6\<bar> \<le> 100000000" using s(1) dow unfolding n_def by (simp only: split: if_splits) linarith
    then show ?thesis by (simp add: add_days_def time_clip_def)
  qed
  moreover have "J + 7 * (w - 1) \<le> n + 3 \<and> n + 3 < J + 7 * w" using dow by (simp add: n_def s_def)
  ultimately show ?thesis unfolding J_def by (intro exI [of _ n]) simp
qed

theorem week_range_iso_witness:
  "\<exists>n. week_start (Some 2024) (Some 10) = Some n \<and> utc_day n = 1 \<and>
    days_from_civil (2024, 1, 1) + 63 \<le> n + 3 \<and> n + 3 < days_from_civil (2024, 1, 1) + 70"
  using week_range_iso [of 2024 10] by auto

end
