(* ===== verification/StyleExpr.thy ===== *)
theory StyleExpr
  imports Formatting
begin

text \<open>
  Style expressions and filters of the Google map adapter, first part of \<open>static/js/modules/maps/google_map.js\<close>: the
  evaluation of Mapbox expressions on a feature, interpolation over the zoom, the resolution of numbers and colours,
  and layer filters.

  \<^item> A value of the language is an \<open>sv\<close>. Arrays and objects carry a number for their identity, which is all that
    \<open>===\<close> looks at; values that are functions do not occur in styles. Names of properties are not those of
    \<open>Object.prototype\<close>.
  \<^item> \<open>str\<close> stands for \<open>String(v)\<close>. Evaluating an operand has no effect, so all operands are evaluated first where the
    source evaluates them one by one.
  \<^item> Shown: an interpolation stays between its stops and meets them; every resolved number is finite and every resolved
    colour a colour; a filter means what it says of the properties of a feature, in either notation, when the
    feature has the properties it compares.
\<close>

section \<open>Values\<close>

datatype sv = SUndef | SNull | SBool bool | SNum jsnum | SText string | SArr nat "sv list" | SObj nat "(string \<times> sv) list"

definition sv_nullish :: "sv \<Rightarrow> bool" where
  "sv_nullish v \<longleftrightarrow> v = SUndef \<or> v = SNull"

definition sv_at :: "sv list \<Rightarrow> nat \<Rightarrow> sv" where
  "sv_at xs k = (if k < length xs then xs ! k else SUndef)"

text \<open>\<open>Boolean(v)\<close>, \<open>v === w\<close> and the comparison of \<open>includes\<close>, which finds \<open>NaN\<close>.\<close>

definition sv_truthy :: "sv \<Rightarrow> bool" where
  "sv_truthy v = (case v of SUndef \<Rightarrow> False | SNull \<Rightarrow> False | SBool b \<Rightarrow> b | SNum x \<Rightarrow> \<not> falsy x | SText s \<Rightarrow> s \<noteq> []
     | SArr r xs \<Rightarrow> True | SObj r fs \<Rightarrow> True)"

definition strict_eq :: "sv \<Rightarrow> sv \<Rightarrow> bool" where
  "strict_eq v w =
     (case (v, w) of
        (SNum x, SNum y) \<Rightarrow> x = y \<and> x \<noteq> NaN
      | (SArr r xs, SArr q ys) \<Rightarrow> r = q
      | (SObj r xs, SObj q ys) \<Rightarrow> r = q
      | _ \<Rightarrow> v = w)"

definition same_value_zero :: "sv \<Rightarrow> sv \<Rightarrow> bool" where
  "same_value_zero v w \<longleftrightarrow> v = SNum NaN \<and> w = SNum NaN \<or> strict_eq v w"

text \<open>
  \<open>Number(v)\<close>. An array is first turned into text: none of its elements gives the empty text, one element its own
  text, several a text with a comma, which is not a number.
\<close>

fun sv_number :: "sv \<Rightarrow> jsnum" where
  "sv_number SUndef = NaN"
| "sv_number SNull = Fin 0"
| "sv_number (SBool b) = Fin (if b then 1 else 0)"
| "sv_number (SNum x) = x"
| "sv_number (SText s) = number_of_text s"
| "sv_number (SObj r fs) = NaN"
| "sv_number (SArr r []) = Fin 0"
| "sv_number (SArr r [x]) = (case x of SUndef \<Rightarrow> Fin 0 | SBool b \<Rightarrow> NaN | _ \<Rightarrow> sv_number x)"
| "sv_number (SArr r (x # y # zs)) = NaN"

definition parseNumber :: "sv \<Rightarrow> real option" where
  "parseNumber v = (case sv_number v of Fin a \<Rightarrow> Some a | _ \<Rightarrow> None)"

section \<open>Features\<close>

record geometry =
  g_type :: string
  g_coordinates :: sv

record feature =
  f_id :: sv
  f_properties :: "(string \<times> sv) list"
  f_geometry :: "geometry option"
  f_state :: "(string \<times> sv) list"

definition prop_at :: "(string \<times> sv) list \<Rightarrow> string \<Rightarrow> sv" where
  "prop_at ps k = (case map_of ps k of Some v \<Rightarrow> v | None \<Rightarrow> SUndef)"

definition feature_property :: "feature option \<Rightarrow> string \<Rightarrow> sv" where
  "feature_property f k = (case f of None \<Rightarrow> SUndef | Some x \<Rightarrow> prop_at (f_properties x) k)"

definition feature_state :: "feature option \<Rightarrow> string \<Rightarrow> sv" where
  "feature_state f k = (case f of None \<Rightarrow> SUndef | Some x \<Rightarrow> prop_at (f_state x) k)"

definition feature_id :: "feature option \<Rightarrow> sv" where
  "feature_id f = (case f of None \<Rightarrow> SUndef | Some x \<Rightarrow> f_id x)"

definition geometry_type :: "feature option \<Rightarrow> sv" where
  "geometry_type f =
     (case f of Some x \<Rightarrow> (case f_geometry x of Some g \<Rightarrow> if g_type g = [] then SNull else SText (g_type g) | None \<Rightarrow> SNull)
      | None \<Rightarrow> SNull)"

section \<open>Interpolation over the zoom\<close>

fun numeric_stops :: "sv list \<Rightarrow> (real \<times> real) list" where
  "numeric_stops (a # b # rest) =
     (case (parseNumber a, parseNumber b) of (Some stop, Some v) \<Rightarrow> (stop, v) # numeric_stops rest | _ \<Rightarrow> numeric_stops rest)"
| "numeric_stops _ = []"

text \<open>The first pair of neighbouring stops around the zoom, or the outermost ones.\<close>

definition around :: "real \<Rightarrow> (real \<times> real) list \<Rightarrow> (real \<times> real) \<times> (real \<times> real)" where
  "around z stops =
     (case find (\<lambda>(a, b). z \<ge> fst a \<and> z \<le> fst b) (zip stops (tl stops)) of Some ab \<Rightarrow> ab | None \<Rightarrow> (hd stops, last stops))"

text \<open>The base of an exponential interpolation, when it changes the result.\<close>

definition exponential_base :: "sv \<Rightarrow> real option" where
  "exponential_base interpolation =
     (case interpolation of
        SArr r (SText kind # rest) \<Rightarrow>
          if kind = ''exponential'' then
            (case parseNumber (sv_at rest 0) of Some base \<Rightarrow> if base > 0 \<and> base \<noteq> 1 then Some base else None | None \<Rightarrow> None)
          else None
      | _ \<Rightarrow> None)"

definition interpolate_between :: "sv \<Rightarrow> real \<Rightarrow> real \<times> real \<Rightarrow> real \<times> real \<Rightarrow> real" where
  "interpolate_between interpolation z left right =
     (let (z0, v0) = left; (z1, v1) = right
      in if z0 = z1 then v1
         else
           let t0 = min 1 (max 0 ((z - z0) / (z1 - z0)));
               t = (case exponential_base interpolation of None \<Rightarrow> t0 | Some base \<Rightarrow> (base powr t0 - 1) / (base - 1))
           in v0 + (v1 - v0) * t)"

definition interpolate_stops :: "sv \<Rightarrow> sv \<Rightarrow> (real \<times> real) list \<Rightarrow> real" where
  "interpolate_stops interpolation zoom stops =
     (let z = (case zoom of SNum (Fin x) \<Rightarrow> x | _ \<Rightarrow> fst (hd stops))
      in if z \<le> fst (hd stops) then snd (hd stops)
         else if z \<ge> fst (last stops) then snd (last stops)
         else let (left, right) = around z stops in interpolate_between interpolation z left right)"

definition evaluateNumericExpression :: "sv \<Rightarrow> sv \<Rightarrow> real option" where
  "evaluateNumericExpression expression zoom =
     (case expression of
        SArr r (SText op # interpolation # SArr q (SText input # inputs) # rest) \<Rightarrow>
          if length rest < 3 \<or> op \<noteq> ''interpolate'' \<or> input \<noteq> ''zoom'' then None
          else let stops = numeric_stops rest in if stops = [] then None else Some (interpolate_stops interpolation zoom stops)
      | _ \<Rightarrow> None)"

section \<open>Expressions\<close>

fun case_branches :: "sv list \<Rightarrow> sv" where
  "case_branches (c # v # rest) = (if sv_truthy c then v else case_branches rest)"
| "case_branches [v] = v"
| "case_branches [] = SNull"

definition number_sv :: "real option \<Rightarrow> sv" where
  "number_sv x = (case x of Some a \<Rightarrow> SNum (Fin a) | None \<Rightarrow> SNull)"

fun evaluateStyleExpression :: "(sv \<Rightarrow> string) \<Rightarrow> feature option \<Rightarrow> sv \<Rightarrow> sv \<Rightarrow> sv" where
  "evaluateStyleExpression str f zoom (SArr r (SText op # args)) =
     (let vs = map (evaluateStyleExpression str f zoom) args; a = sv_at vs 0; b = sv_at vs 1
      in if op = ''literal'' then sv_at args 0
         else if op = ''get'' then (case sv_at args 0 of SText k \<Rightarrow> feature_property f k | _ \<Rightarrow> SNull)
         else if op = ''id'' then feature_id f
         else if op = ''feature-state'' then (case sv_at args 0 of SText k \<Rightarrow> feature_state f k | _ \<Rightarrow> SNull)
         else if op = ''coalesce'' then (case find (\<lambda>v. \<not> sv_nullish v) vs of Some v \<Rightarrow> v | None \<Rightarrow> SNull)
         else if op = ''to-string'' then SText (if sv_nullish a then [] else str a)
         else if op = ''=='' then SBool (strict_eq a b)
         else if op = ''!='' then SBool (\<not> strict_eq a b)
         else if op = ''>'' then SBool (sv_number a > sv_number b)
         else if op = ''<'' then SBool (sv_number a < sv_number b)
         else if op = ''>='' then SBool (sv_number a \<ge> sv_number b)
         else if op = ''<='' then SBool (sv_number a \<le> sv_number b)
         else if op = ''case'' then case_branches vs
         else if op = ''zoom'' then zoom
         else if op = ''interpolate'' then number_sv (evaluateNumericExpression (SArr r (SText op # args)) zoom)
         else SArr r (SText op # args))"
| "evaluateStyleExpression str f zoom e = e"

section \<open>Numbers and colours of a style\<close>

definition array_elements :: "sv \<Rightarrow> sv list" where
  "array_elements v = (case v of SArr r xs \<Rightarrow> xs | _ \<Rightarrow> [])"

definition resolveNumericStyle :: "(sv \<Rightarrow> string) \<Rightarrow> sv \<Rightarrow> real \<Rightarrow> sv \<Rightarrow> feature option \<Rightarrow> real" where
  "resolveNumericStyle str v fallback zoom f =
     (case parseNumber v of
        Some x \<Rightarrow> x
      | None \<Rightarrow>
          (case parseNumber (evaluateStyleExpression str f zoom v) of
             Some x \<Rightarrow> x
           | None \<Rightarrow>
               (case evaluateNumericExpression v zoom of
                  Some x \<Rightarrow> x
                | None \<Rightarrow>
                    (case find (\<lambda>x. parseNumber x \<noteq> None) (rev (array_elements v)) of
                       Some x \<Rightarrow> the (parseNumber x) | None \<Rightarrow> fallback))))"

definition isColorLike :: "sv \<Rightarrow> bool" where
  "isColorLike v =
     (case v of
        SText s \<Rightarrow> starts_with s ''#'' \<or> starts_with (str_lower s) ''rgb('' \<or> starts_with (str_lower s) ''rgba('' \<or>
          starts_with (str_lower s) ''hsl('' \<or> starts_with (str_lower s) ''hsla('' \<or> str_lower s = ''transparent''
      | _ \<Rightarrow> False)"

definition resolveColorStyle :: "(sv \<Rightarrow> string) \<Rightarrow> sv \<Rightarrow> sv \<Rightarrow> feature option \<Rightarrow> sv \<Rightarrow> sv" where
  "resolveColorStyle str v fallback f zoom =
     (if isColorLike v then v
      else
        let evaluated = evaluateStyleExpression str f zoom v
        in if isColorLike evaluated then evaluated
           else case find isColorLike (rev (array_elements v)) of Some x \<Rightarrow> x | None \<Rightarrow> fallback)"

section \<open>Filters\<close>

definition resolveFilterValue :: "sv \<Rightarrow> feature option \<Rightarrow> sv" where
  "resolveFilterValue e f =
     (case e of
        SText s \<Rightarrow> if s = ''$type'' then geometry_type f else e
      | SArr r (SText op # args) \<Rightarrow>
          if op = ''get'' then (case sv_at args 0 of SText k \<Rightarrow> feature_property f k | _ \<Rightarrow> e)
          else if op = ''feature-state'' then (case sv_at args 0 of SText k \<Rightarrow> feature_state f k | _ \<Rightarrow> e)
          else if op = ''id'' then feature_id f
          else if op = ''literal'' then sv_at args 0
          else if op = ''geometry-type'' then geometry_type f
          else e
      | _ \<Rightarrow> e)"

definition has_property :: "feature option \<Rightarrow> string \<Rightarrow> bool" where
  "has_property f k = (case f of None \<Rightarrow> False | Some x \<Rightarrow> k \<in> fst ` set (f_properties x))"

definition resolveFilterOperand :: "sv \<Rightarrow> feature option \<Rightarrow> bool \<Rightarrow> sv" where
  "resolveFilterOperand e f preferLegacyProperty =
     (case e of
        SText s \<Rightarrow> if preferLegacyProperty \<and> s \<noteq> ''$type'' \<and> has_property f s then feature_property f s else resolveFilterValue e f
      | _ \<Rightarrow> resolveFilterValue e f)"

definition own_key :: "sv \<Rightarrow> feature option \<Rightarrow> bool" where
  "own_key e f = (case resolveFilterValue e f of SText k \<Rightarrow> has_property f k | _ \<Rightarrow> False)"

definition haystack :: "sv list \<Rightarrow> feature option \<Rightarrow> sv list" where
  "haystack es f = concat (map (\<lambda>e. case resolveFilterOperand e f False of SArr r xs \<Rightarrow> xs | v \<Rightarrow> [v]) es)"

text \<open>The operators that look at their operands only; \<open>None\<close> when the operator is not one of them.\<close>

definition simple_filter :: "string \<Rightarrow> sv list \<Rightarrow> feature option \<Rightarrow> bool" where
  "simple_filter op args f =
     (let left = resolveFilterOperand (sv_at args 0) f True; right = resolveFilterOperand (sv_at args 1) f False
      in if op = ''has'' \<and> length args \<ge> 1 then own_key (sv_at args 0) f
         else if op = ''!has'' \<and> length args \<ge> 1 then \<not> own_key (sv_at args 0) f
         else if length args \<ge> 2 \<and> op = ''=='' then strict_eq left right
         else if length args \<ge> 2 \<and> op = ''!='' then \<not> strict_eq left right
         else if length args \<ge> 2 \<and> op = ''>'' then sv_number left > sv_number right
         else if length args \<ge> 2 \<and> op = ''<'' then sv_number left < sv_number right
         else if length args \<ge> 2 \<and> op = ''>='' then sv_number left \<ge> sv_number right
         else if length args \<ge> 2 \<and> op = ''<='' then sv_number left \<le> sv_number right
         else if length args \<ge> 1 \<and> op = ''in'' then list_ex (\<lambda>v. same_value_zero v left) (haystack (tl args) f)
         else if length args \<ge> 1 \<and> op = ''!in'' then \<not> list_ex (\<lambda>v. same_value_zero v left) (haystack (tl args) f)
         else True)"

text \<open>An array whose first element is not a text has no operator and holds; \<open>!\<close> without operand negates \<open>undefined\<close>, which holds.\<close>

fun evaluateLayerFilter :: "sv \<Rightarrow> feature option \<Rightarrow> bool" where
  "evaluateLayerFilter (SArr r (SText op # args)) f =
     (if op = ''all'' then list_all (\<lambda>e. evaluateLayerFilter e f) args
      else if op = ''any'' then list_ex (\<lambda>e. evaluateLayerFilter e f) args
      else if op = ''!'' then (case args of [] \<Rightarrow> False | e # es \<Rightarrow> \<not> evaluateLayerFilter e f)
      else simple_filter op args f)"
| "evaluateLayerFilter e f = True"

section \<open>Interpolated values\<close>

text \<open>The share of the way to the right stop, linear or exponential.\<close>

definition progress_between :: "sv \<Rightarrow> real \<Rightarrow> real \<Rightarrow> real \<Rightarrow> real" where
  "progress_between interpolation z z0 z1 =
     (let t0 = min 1 (max 0 ((z - z0) / (z1 - z0)))
      in case exponential_base interpolation of None \<Rightarrow> t0 | Some base \<Rightarrow> (base powr t0 - 1) / (base - 1))"

lemma exponential_baseD: "exponential_base interpolation = Some base \<Longrightarrow> 0 < base \<and> base \<noteq> 1"
  by (auto simp: exponential_base_def split: sv.splits list.splits option.splits if_splits)

lemma exponential_share:
  fixes base t :: real
  assumes "0 < base" "base \<noteq> 1" "0 \<le> t" "t \<le> 1"
  shows "0 \<le> (base powr t - 1) / (base - 1) \<and> (base powr t - 1) / (base - 1) \<le> 1"
proof (cases "1 < base")
  case True
  have "1 \<le> base powr t" using True assms by (simp add: ge_one_powr_ge_zero)
  moreover have "base powr t \<le> base powr 1" using True assms by (intro powr_mono) auto
  ultimately show ?thesis using True assms by simp
next
  case False
  then have b: "base < 1" using assms(2) by simp
  have "base powr 1 \<le> base powr t" using b assms by (intro powr_mono') auto
  moreover have "base powr t \<le> 1" using b assms by (simp add: powr_le1)
  ultimately show ?thesis using b assms by (simp add: divide_le_eq zero_le_divide_iff)
qed

lemma progress_between_range: "0 \<le> progress_between interpolation z z0 z1 \<and> progress_between interpolation z z0 z1 \<le> 1"
proof (cases "exponential_base interpolation")
  case None
  then show ?thesis by (auto simp: progress_between_def Let_def)
next
  case (Some base)
  show ?thesis using exponential_share [of base "min 1 (max 0 ((z - z0) / (z1 - z0)))"] exponential_baseD [OF Some]
    by (simp add: progress_between_def Let_def Some)
qed

lemma progress_ends:
  assumes "z0 < z1"
  shows "progress_between interpolation z0 z0 z1 = 0" "progress_between interpolation z1 z0 z1 = 1"
  using assms exponential_baseD [of interpolation] by (auto simp: progress_between_def Let_def split: option.split)

lemma interpolate_between_progress:
  "interpolate_between interpolation z (z0, v0) (z1, v1) = (if z0 = z1 then v1 else v0 + (v1 - v0) * progress_between interpolation z z0 z1)"
  by (simp add: interpolate_between_def progress_between_def Let_def split: option.split)

lemma between_bounds:
  assumes "lo \<le> v0" "v0 \<le> hi" "lo \<le> v1" "v1 \<le> hi"
  shows "lo \<le> interpolate_between interpolation z (z0, v0) (z1, v1) \<and> interpolate_between interpolation z (z0, v0) (z1, v1) \<le> hi"
proof -
  define t where "t = progress_between interpolation z z0 z1"
  have t: "0 \<le> t" "t \<le> 1" using progress_between_range by (simp_all add: t_def)
  have "lo * (1 - t) + lo * t \<le> v0 * (1 - t) + v1 * t" "v0 * (1 - t) + v1 * t \<le> hi * (1 - t) + hi * t"
    using assms t by (intro add_mono mult_right_mono; simp)+
  then show ?thesis using assms by (simp add: interpolate_between_progress t_def [symmetric] algebra_simps)
qed

lemma around_stops:
  assumes "stops \<noteq> []" "around z stops = (l, r)"
  shows "l \<in> set stops" "r \<in> set stops"
proof -
  have "l \<in> set stops \<and> r \<in> set stops"
  proof (cases "find (\<lambda>(a, b). z \<ge> fst a \<and> z \<le> fst b) (zip stops (tl stops))")
    case None
    then show ?thesis using assms by (auto simp: around_def)
  next
    case (Some ab)
    then have "ab \<in> set (zip stops (tl stops))" using find_Some_iff [of _ "zip stops (tl stops)" ab] by (metis nth_mem)
    moreover have "ab = (l, r)" using assms(2) Some by (simp add: around_def)
    ultimately have "(l, r) \<in> set (zip stops (tl stops))" by simp
    then have "l \<in> set stops" "r \<in> set (tl stops)" by (auto dest: set_zip_leftD set_zip_rightD)
    then show ?thesis using list.set_sel(2) [OF assms(1)] by simp
  qed
  then show "l \<in> set stops" "r \<in> set stops" by simp_all
qed

lemma around_sorted:
  assumes "sorted_wrt (<) (map fst stops)" "Suc i < length stops" "fst (stops ! i) < z" "z \<le> fst (stops ! Suc i)"
  shows "around z stops = (stops ! i, stops ! Suc i)"
proof -
  have mono: "fst (stops ! j) < fst (stops ! k)" if "j < k" "k < length stops" for j k
    using assms(1) that by (auto simp: sorted_wrt_iff_nth_less)
  have "find (\<lambda>(a, b). z \<ge> fst a \<and> z \<le> fst b) (zip stops (tl stops)) = Some (stops ! i, stops ! Suc i)"
    unfolding find_Some_iff
  proof (intro exI [of _ i] conjI allI impI)
    fix j assume j: "j < i"
    then have "fst (stops ! Suc j) \<le> fst (stops ! i)" using mono [of "Suc j" i] assms(2) by (cases "Suc j = i") auto
    then show "\<not> (case zip stops (tl stops) ! j of (a, b) \<Rightarrow> z \<ge> fst a \<and> z \<le> fst b)"
      using assms(2,3) j by (simp add: nth_tl)
  qed (use assms in \<open>auto simp: nth_tl\<close>)
  then show ?thesis by (simp add: around_def)
qed

text \<open>
  C29. A number interpolated over the zoom never leaves the range of its stops, whatever the stops, the curve and the
  zoom. With increasing stops it lies between the values of the two stops around the zoom and is exactly the value of
  a stop there, and outside of the stops it keeps the value of the first or last one.
\<close>

theorem interpolation_spec:
  assumes "stops \<noteq> []"
  shows "((\<forall>p \<in> set stops. lo \<le> snd p \<and> snd p \<le> hi) \<longrightarrow>
      lo \<le> interpolate_stops ip zoom stops \<and> interpolate_stops ip zoom stops \<le> hi) \<and>
    (sorted_wrt (<) (map fst stops) \<longrightarrow>
      (\<forall>i < length stops. interpolate_stops ip (SNum (Fin (fst (stops ! i)))) stops = snd (stops ! i)) \<and>
      (\<forall>i z. Suc i < length stops \<and> fst (stops ! i) \<le> z \<and> z \<le> fst (stops ! Suc i) \<longrightarrow>
         min (snd (stops ! i)) (snd (stops ! Suc i)) \<le> interpolate_stops ip (SNum (Fin z)) stops \<and>
         interpolate_stops ip (SNum (Fin z)) stops \<le> max (snd (stops ! i)) (snd (stops ! Suc i))) \<and>
      (\<forall>z \<le> fst (hd stops). interpolate_stops ip (SNum (Fin z)) stops = snd (hd stops)) \<and>
      (\<forall>z \<ge> fst (last stops). interpolate_stops ip (SNum (Fin z)) stops = snd (last stops)))"
proof (intro conjI impI)
  assume b: "\<forall>p \<in> set stops. lo \<le> snd p \<and> snd p \<le> hi"
  have ends: "hd stops \<in> set stops" "last stops \<in> set stops" using assms by simp_all
  define z where "z = (case zoom of SNum (Fin x) \<Rightarrow> x | _ \<Rightarrow> fst (hd stops))"
  define l r where "l = fst (around z stops)" and "r = snd (around z stops)"
  have lr: "around z stops = (l, r)" by (simp add: l_def r_def)
  have "lo \<le> snd l" "snd l \<le> hi" "lo \<le> snd r" "snd r \<le> hi" using around_stops [OF assms lr] b by auto
  note between_bounds [OF this, of ip _ "fst l" "fst r", simplified]
  then show "lo \<le> interpolate_stops ip zoom stops" "interpolate_stops ip zoom stops \<le> hi"
    unfolding interpolate_stops_def Let_def z_def [symmetric] using b ends lr by simp_all
next
  assume sorted: "sorted_wrt (<) (map fst stops)"
  have mono: "fst (stops ! j) < fst (stops ! k)" if "j < k" "k < length stops" for j k
    using sorted that by (auto simp: sorted_wrt_iff_nth_less)
  have hd: "hd stops = stops ! 0" and la: "last stops = stops ! (length stops - 1)" using assms by (simp_all add: hd_conv_nth last_conv_nth)
  have inner: "interpolate_stops ip (SNum (Fin z)) stops =
      snd (stops ! i) + (snd (stops ! Suc i) - snd (stops ! i)) * progress_between ip z (fst (stops ! i)) (fst (stops ! Suc i))"
    if i: "Suc i < length stops" "fst (stops ! i) < z" "z \<le> fst (stops ! Suc i)" for i z
  proof -
    have "fst (stops ! 0) < z" using mono [of 0 i] i by (cases i) auto
    show ?thesis
    proof (cases "z \<ge> fst (last stops)")
      case True
      then have "\<not> Suc i < length stops - 1" using mono [of "Suc i" "length stops - 1"] i(3) assms by (force simp: la)
      then have "length stops - 1 = Suc i" using i(1) by simp
      then show ?thesis using True i mono [of i "Suc i"] progress_ends(2) [of "fst (stops ! i)" "fst (stops ! Suc i)" ip] \<open>fst (stops ! 0) < z\<close>
        by (simp add: interpolate_stops_def la hd)
    next
      case False
      then show ?thesis using \<open>fst (stops ! 0) < z\<close> around_sorted [OF sorted i] mono [of i "Suc i"] i(1)
        interpolate_between_progress [of ip z "fst (stops ! i)" "snd (stops ! i)" "fst (stops ! Suc i)" "snd (stops ! Suc i)"]
        by (simp add: interpolate_stops_def Let_def hd)
    qed
  qed
  show at: "\<forall>i < length stops. interpolate_stops ip (SNum (Fin (fst (stops ! i)))) stops = snd (stops ! i)"
  proof (intro allI impI)
    fix i assume i: "i < length stops"
    show "interpolate_stops ip (SNum (Fin (fst (stops ! i)))) stops = snd (stops ! i)"
    proof (cases i)
      case 0
      then show ?thesis by (simp add: interpolate_stops_def hd)
    next
      case (Suc j)
      then show ?thesis using inner [of j "fst (stops ! i)"] mono [of j i] i progress_ends(2) [of "fst (stops ! j)" "fst (stops ! i)" ip] by simp
    qed
  qed
  show "\<forall>i z. Suc i < length stops \<and> fst (stops ! i) \<le> z \<and> z \<le> fst (stops ! Suc i) \<longrightarrow>
         min (snd (stops ! i)) (snd (stops ! Suc i)) \<le> interpolate_stops ip (SNum (Fin z)) stops \<and>
         interpolate_stops ip (SNum (Fin z)) stops \<le> max (snd (stops ! i)) (snd (stops ! Suc i))"
  proof (intro allI impI)
    fix i z assume i: "Suc i < length stops \<and> fst (stops ! i) \<le> z \<and> z \<le> fst (stops ! Suc i)"
    let ?v = "snd (stops ! i)" and ?w = "snd (stops ! Suc i)"
    have ne: "fst (stops ! i) \<noteq> fst (stops ! Suc i)" using mono [of i "Suc i"] i by simp
    show "min ?v ?w \<le> interpolate_stops ip (SNum (Fin z)) stops \<and> interpolate_stops ip (SNum (Fin z)) stops \<le> max ?v ?w"
    proof (cases "fst (stops ! i) = z")
      case True
      then show ?thesis using at i by auto
    next
      case False
      then have "interpolate_stops ip (SNum (Fin z)) stops = interpolate_between ip z (fst (stops ! i), ?v) (fst (stops ! Suc i), ?w)"
        unfolding interpolate_between_progress using inner [of i z] i ne by simp
      then show ?thesis using between_bounds [of "min ?v ?w" ?v "max ?v ?w" ?w ip z "fst (stops ! i)" "fst (stops ! Suc i)"] by simp
    qed
  qed
  show "\<forall>z \<le> fst (hd stops). interpolate_stops ip (SNum (Fin z)) stops = snd (hd stops)"
    by (simp add: interpolate_stops_def)
  show "\<forall>z \<ge> fst (last stops). interpolate_stops ip (SNum (Fin z)) stops = snd (last stops)"
  proof (intro allI impI)
    fix z assume z: "fst (last stops) \<le> z"
    show "interpolate_stops ip (SNum (Fin z)) stops = snd (last stops)"
    proof (cases "z \<le> fst (hd stops)")
      case True
      then have "length stops - 1 = 0" using z mono [of 0 "length stops - 1"] assms by (cases "Suc 0 < length stops") (auto simp: hd la)
      then have "last stops = hd stops" by (simp add: hd la)
      then show ?thesis using True by (simp add: interpolate_stops_def)
    qed (use z in \<open>simp add: interpolate_stops_def\<close>)
  qed
qed

theorem interpolation_spec_witness:
  "interpolate_stops SNull (SNum (Fin 12)) [(8, 1), (12, 3), (16, 9)] = 3 \<and>
   interpolate_stops SNull (SNum (Fin 13)) [(8, 1), (12, 3), (16, 9)] \<le> 9"
  using interpolation_spec [of "[(8, 1), (12, 3), (16, 9)]" 1 9 SNull "SNum (Fin 13)"]
    interpolation_spec [of "[(8, 1), (12, 3), (16, 9)]" 1 9 SNull "SNum (Fin 12)"] by (force simp: numeral_eq_Suc)

section \<open>Colours\<close>

text \<open>A style whose default is a colour always gives a colour, whatever the expression and the feature.\<close>

lemma resolved_color: "isColorLike fallback \<Longrightarrow> isColorLike (resolveColorStyle str v fallback f zoom)"
  by (auto simp: resolveColorStyle_def Let_def find_Some_iff split: option.split)

text \<open>A width or opacity that is missing is the number zero, not the default, because \<open>Number(null)\<close> is zero.\<close>

lemma null_style_is_zero: "resolveNumericStyle str SNull fallback zoom f = 0"
  by (simp add: resolveNumericStyle_def parseNumber_def)

lemma null_property_is_zero:
  "resolveNumericStyle str (SArr r [SText ''get'', SText ''width'']) fallback zoom
     (Some \<lparr>f_id = SUndef, f_properties = [(''width'', SNull)], f_geometry = None, f_state = []\<rparr>) = 0"
  by (simp add: resolveNumericStyle_def parseNumber_def feature_property_def prop_at_def sv_at_def Let_def)

section \<open>The meaning of filters\<close>

text \<open>
  Conditions on the properties of a feature, what they say of the properties, and the two ways of writing them
  as a filter: with the name of the property (legacy) or with \<open>get\<close>.
\<close>

datatype cond =
    Equals string sv | Below string real | Above string real | UpTo string real | From string real
  | OneOf string "sv list" | Present string | Differs string sv | NoneOf string "sv list" | Absent string | AllOf "cond list" | AnyOf "cond list" | Negated cond

fun meaning :: "(string \<times> sv) list \<Rightarrow> cond \<Rightarrow> bool" where
  "meaning ps (Equals k v) = (map_of ps k = Some v)"
| "meaning ps (Below k a) = (\<exists>x. map_of ps k = Some (SNum (Fin x)) \<and> x < a)"
| "meaning ps (Above k a) = (\<exists>x. map_of ps k = Some (SNum (Fin x)) \<and> a < x)"
| "meaning ps (UpTo k a) = (\<exists>x. map_of ps k = Some (SNum (Fin x)) \<and> x \<le> a)"
| "meaning ps (From k a) = (\<exists>x. map_of ps k = Some (SNum (Fin x)) \<and> a \<le> x)"
| "meaning ps (OneOf k vs) = (\<exists>v \<in> set vs. map_of ps k = Some v)"
| "meaning ps (Present k) = (\<exists>v. map_of ps k = Some v)"
| "meaning ps (Differs k v) = (\<exists>w. map_of ps k = Some w \<and> w \<noteq> v)"
| "meaning ps (NoneOf k vs) = (\<exists>w. map_of ps k = Some w \<and> w \<notin> set vs)"
| "meaning ps (Absent k) = (map_of ps k = None)"
| "meaning ps (AllOf cs) = (\<forall>c \<in> set cs. meaning ps c)"
| "meaning ps (AnyOf cs) = (\<exists>c \<in> set cs. meaning ps c)"
| "meaning ps (Negated c) = (\<not> meaning ps c)"

definition written_operand :: "bool \<Rightarrow> string \<Rightarrow> sv" where
  "written_operand legacy k = (if legacy then SText k else SArr 0 [SText ''get'', SText k])"

fun written :: "bool \<Rightarrow> cond \<Rightarrow> sv" where
  "written b (Equals k v) = SArr 0 [SText ''=='', written_operand b k, v]"
| "written b (Below k a) = SArr 0 [SText ''<'', written_operand b k, SNum (Fin a)]"
| "written b (Above k a) = SArr 0 [SText ''>'', written_operand b k, SNum (Fin a)]"
| "written b (UpTo k a) = SArr 0 [SText ''<='', written_operand b k, SNum (Fin a)]"
| "written b (From k a) = SArr 0 [SText ''>='', written_operand b k, SNum (Fin a)]"
| "written b (OneOf k vs) = SArr 0 (SText ''in'' # written_operand b k # vs)"
| "written b (Present k) = SArr 0 [SText ''has'', SText k]"
| "written b (Differs k v) = SArr 0 [SText ''!='', written_operand b k, v]"
| "written b (NoneOf k vs) = SArr 0 (SText ''!in'' # written_operand b k # vs)"
| "written b (Absent k) = SArr 0 [SText ''!has'', SText k]"
| "written b (AllOf cs) = SArr 0 (SText ''all'' # map (written b) cs)"
| "written b (AnyOf cs) = SArr 0 (SText ''any'' # map (written b) cs)"
| "written b (Negated c) = SArr 0 [SText ''!'', written b c]"

text \<open>
  Values a filter can contain as they are: no arrays, objects, \<open>NaN\<close> and \<open>undefined\<close>, and not the text \<open>$type\<close>. A
  condition fits the properties when they have the property it compares and the orders compare finite numbers.
\<close>

definition scalar :: "sv \<Rightarrow> bool" where
  "scalar v = (case v of SNull \<Rightarrow> True | SBool b \<Rightarrow> True | SNum x \<Rightarrow> x \<noteq> NaN | SText s \<Rightarrow> s \<noteq> ''$type'' | _ \<Rightarrow> False)"

fun fits :: "(string \<times> sv) list \<Rightarrow> cond \<Rightarrow> bool" where
  "fits ps (Equals k v) = (scalar v \<and> k \<noteq> ''$type'' \<and> map_of ps k \<noteq> None)"
| "fits ps (Below k a) = (k \<noteq> ''$type'' \<and> (\<exists>x. map_of ps k = Some (SNum (Fin x))))"
| "fits ps (Above k a) = (k \<noteq> ''$type'' \<and> (\<exists>x. map_of ps k = Some (SNum (Fin x))))"
| "fits ps (UpTo k a) = (k \<noteq> ''$type'' \<and> (\<exists>x. map_of ps k = Some (SNum (Fin x))))"
| "fits ps (From k a) = (k \<noteq> ''$type'' \<and> (\<exists>x. map_of ps k = Some (SNum (Fin x))))"
| "fits ps (OneOf k vs) = (list_all scalar vs \<and> k \<noteq> ''$type'' \<and> map_of ps k \<noteq> None)"
| "fits ps (Present k) = (k \<noteq> ''$type'')"
| "fits ps (Differs k v) = (scalar v \<and> k \<noteq> ''$type'' \<and> map_of ps k \<noteq> None)"
| "fits ps (NoneOf k vs) = (list_all scalar vs \<and> k \<noteq> ''$type'' \<and> map_of ps k \<noteq> None)"
| "fits ps (Absent k) = (k \<noteq> ''$type'')"
| "fits ps (AllOf cs) = list_all (fits ps) cs"
| "fits ps (AnyOf cs) = list_all (fits ps) cs"
| "fits ps (Negated c) = fits ps c"

lemma written_left:
  assumes "map_of (f_properties x) k = Some v" "k \<noteq> ''$type''"
  shows "resolveFilterOperand (written_operand b k) (Some x) True = v"
proof -
  have "k \<in> fst ` set (f_properties x)" using map_of_SomeD [OF assms(1)] by force
  then show ?thesis
    using assms by (simp add: written_operand_def resolveFilterOperand_def resolveFilterValue_def has_property_def
        feature_property_def prop_at_def sv_at_def)
qed

lemma own_key_text: "k \<noteq> ''$type'' \<Longrightarrow> own_key (SText k) (Some x) \<longleftrightarrow> (\<exists>v. map_of (f_properties x) k = Some v)"
  using map_of_eq_None_iff [of "f_properties x" k]
  by (cases "map_of (f_properties x) k") (auto simp: own_key_def resolveFilterValue_def has_property_def)

lemma scalar_right: "scalar v \<Longrightarrow> resolveFilterOperand v f False = v"
  by (cases v) (auto simp: scalar_def resolveFilterOperand_def resolveFilterValue_def)

lemma scalar_eq: "scalar v \<Longrightarrow> strict_eq w v \<longleftrightarrow> w = v"
  by (cases v; cases w) (auto simp: scalar_def strict_eq_def)

lemma scalar_haystack: "list_all scalar vs \<Longrightarrow> haystack vs f = vs"
  by (induction vs) (auto simp: haystack_def scalar_right scalar_def split: sv.splits)

lemma scalar_same: "scalar v \<Longrightarrow> same_value_zero v w \<longleftrightarrow> w = v"
  by (cases v; cases w) (auto simp: scalar_def same_value_zero_def strict_eq_def)

text \<open>
  A filter means what its condition says: for a feature whose properties the condition fits, the evaluator accepts
  the written condition, in either notation, exactly when the condition holds of the properties.
\<close>

theorem filter_meaning:
  "fits (f_properties x) c \<Longrightarrow> evaluateLayerFilter (written b c) (Some x) \<longleftrightarrow> meaning (f_properties x) c"
proof (induction c)
  case (OneOf k vs)
  then obtain v where v: "map_of (f_properties x) k = Some v" "k \<noteq> ''$type''" "list_all scalar vs" by auto
  show ?case
    using v(1,3) written_left [OF v(1,2)]
    by (auto simp: simple_filter_def sv_at_def scalar_haystack list_ex_iff list_all_iff scalar_same)
next
  case (NoneOf k vs)
  then obtain v where v: "map_of (f_properties x) k = Some v" "k \<noteq> ''$type''" "list_all scalar vs" by auto
  show ?case
    using v(1,3) written_left [OF v(1,2)]
    by (auto simp: simple_filter_def sv_at_def scalar_haystack list_ex_iff list_all_iff scalar_same)
next
  case (Equals k v)
  then show ?case using written_left [of x k]
    by (auto simp: simple_filter_def sv_at_def scalar_right scalar_eq)
next
  case (Differs k v)
  then show ?case using written_left [of x k]
    by (auto simp: simple_filter_def sv_at_def scalar_right scalar_eq)
next
  case (Present k)
  then show ?case by (auto simp: simple_filter_def sv_at_def own_key_text)
next
  case (Absent k)
  then show ?case by (auto simp: simple_filter_def sv_at_def own_key_text)
qed (auto simp: simple_filter_def sv_at_def written_left scalar_right scalar_def list_all_iff list_ex_iff)

theorem filter_meaning_witness:
  "let x = \<lparr>f_id = SNum 1, f_properties = [(''miles'', SNum (Fin 3)), (''status'', SText ''driven'')], f_geometry = None, f_state = []\<rparr>;
     c = AllOf [Above ''miles'' 2, Negated (OneOf ''status'' [SText ''undriven''])]
   in evaluateLayerFilter (written True c) (Some x) \<and> evaluateLayerFilter (written False c) (Some x) \<and>
      \<not> evaluateLayerFilter (written False (Below ''miles'' 2)) (Some x)"
proof -
  let ?x = "\<lparr>f_id = SNum 1, f_properties = [(''miles'', SNum (Fin 3)), (''status'', SText ''driven'')], f_geometry = None, f_state = []\<rparr>"
  let ?c = "AllOf [Above ''miles'' 2, Negated (OneOf ''status'' [SText ''undriven''])]"
  have "fits (f_properties ?x) ?c" "meaning (f_properties ?x) ?c" by (simp_all add: scalar_def)
  moreover have "fits (f_properties ?x) (Below ''miles'' 2)" "\<not> meaning (f_properties ?x) (Below ''miles'' 2)" by simp_all
  ultimately show ?thesis
    using filter_meaning [of ?x ?c] filter_meaning [of ?x "Below ''miles'' 2" False] unfolding Let_def by metis
qed

text \<open>A property the feature does not have is compared by its name, so that such a filter can hold without the property.\<close>

lemma missing_property_is_name:
  "evaluateLayerFilter (SArr r [SText ''=='', SText ''status'', SText ''status'']) (Some \<lparr>f_id = SUndef, f_properties = [], f_geometry = None, f_state = []\<rparr>)"
  by (simp add: simple_filter_def resolveFilterOperand_def sv_at_def has_property_def resolveFilterValue_def strict_eq_def)

text \<open>The legacy operator \<open>none\<close> is not known and holds always.\<close>

lemma none_holds: "evaluateLayerFilter (SArr r (SText ''none'' # es)) f"
  by (simp add: simple_filter_def Let_def)

end
