(* ===== verification/MapShapes.thy ===== *)
theory MapShapes
  imports StyleExpr
begin

text \<open>
  Shapes of the Google map adapter, second part of \<open>static/js/modules/maps/google_map.js\<close>: positions, the lines, points
  and polygons collected from GeoJSON, and the geometry on the screen by which features are found under a point or in
  a rectangle.

  \<^item> Coordinates are values as they come, so arrays of any depth and content; a position is longitude and latitude.
    \<open>source\<close> of a feature is left out here: it is overwritten before a feature is used.
  \<^item> Points on the screen are pairs of reals; the projection of the map library that gives them is a parameter of the
    next theory.
  \<^item> Shown: what is collected are exactly the drawable parts; a line is hit exactly when some point of it is within the
    tolerance; a path that is reported to cross a rectangle has a point in it, and polygons with a point in it are
    found by their corners.
\<close>

section \<open>Positions\<close>

type_synonym lng_lat = "real \<times> real"

definition first_value :: "sv list \<Rightarrow> sv" where
  "first_value vs = (case find (\<lambda>v. \<not> sv_nullish v) vs of Some v \<Rightarrow> v | None \<Rightarrow> SUndef)"

definition both_numbers :: "sv \<Rightarrow> sv \<Rightarrow> lng_lat option" where
  "both_numbers a b = (case (parseNumber a, parseNumber b) of (Some x, Some y) \<Rightarrow> Some (x, y) | _ \<Rightarrow> None)"

definition toLngLat :: "sv \<Rightarrow> lng_lat option" where
  "toLngLat v =
     (case v of
        SArr r (a # b # rest) \<Rightarrow> both_numbers a b
      | SObj r fs \<Rightarrow> both_numbers (first_value [prop_at fs ''lng'', prop_at fs ''lon'', prop_at fs ''longitude''])
          (first_value [prop_at fs ''lat'', prop_at fs ''latitude''])
      | _ \<Rightarrow> None)"

definition path_point :: "sv \<Rightarrow> lng_lat list" where
  "path_point c = (case c of SArr r (a # b # rest) \<Rightarrow> (case both_numbers a b of Some p \<Rightarrow> [p] | None \<Rightarrow> []) | _ \<Rightarrow> [])"

definition toPathFromCoordinates :: "sv \<Rightarrow> lng_lat list" where
  "toPathFromCoordinates coordinates = (case coordinates of SArr r cs \<Rightarrow> concat (map path_point cs) | _ \<Rightarrow> [])"

section \<open>Features of a source\<close>

datatype geojson = NoData | FeatureArray "feature list" | FeatureCollection "feature list" | SingleFeature feature | OtherData

definition normalizeGeoJsonFeatureCollection :: "geojson \<Rightarrow> feature list" where
  "normalizeGeoJsonFeatureCollection data =
     (case data of NoData \<Rightarrow> [] | FeatureArray fs \<Rightarrow> fs | FeatureCollection fs \<Rightarrow> fs | SingleFeature f \<Rightarrow> [f] | OtherData \<Rightarrow> [])"

definition cloneBaseFeature :: "feature \<Rightarrow> feature" where
  "cloneBaseFeature f = f\<lparr>f_geometry := None\<rparr>"

definition with_geometry :: "feature \<Rightarrow> string \<Rightarrow> sv \<Rightarrow> feature" where
  "with_geometry f kind coordinates = (cloneBaseFeature f)\<lparr>f_geometry := Some \<lparr>g_type = kind, g_coordinates = coordinates\<rparr>\<rparr>"

text \<open>The coordinates of a geometry of type \<open>kind\<close>, when they are an array.\<close>

definition coordinates_of :: "feature \<Rightarrow> string \<Rightarrow> sv list option" where
  "coordinates_of f kind =
     (case f_geometry f of
        Some g \<Rightarrow> if g_type g = kind then (case g_coordinates g of SArr r cs \<Rightarrow> Some cs | _ \<Rightarrow> None) else None
      | None \<Rightarrow> None)"

definition own_coordinates :: "feature \<Rightarrow> sv" where
  "own_coordinates f = (case f_geometry f of Some g \<Rightarrow> g_coordinates g | None \<Rightarrow> SUndef)"

definition line_segment :: "feature \<Rightarrow> sv \<Rightarrow> (lng_lat list \<times> feature) list" where
  "line_segment f coordinates =
     (let path = toPathFromCoordinates coordinates
      in if length path \<ge> 2 then [(path, with_geometry f ''LineString'' coordinates)] else [])"

definition feature_lines :: "feature \<Rightarrow> (lng_lat list \<times> feature) list" where
  "feature_lines f =
     (case coordinates_of f ''LineString'' of
        Some cs \<Rightarrow> line_segment f (own_coordinates f)
      | None \<Rightarrow> (case coordinates_of f ''MultiLineString'' of Some ls \<Rightarrow> concat (map (line_segment f) ls) | None \<Rightarrow> []))"

definition collectLineSegments :: "feature list \<Rightarrow> (lng_lat list \<times> feature) list" where
  "collectLineSegments fs = concat (map feature_lines fs)"

definition point_feature :: "nat \<Rightarrow> feature \<Rightarrow> sv \<Rightarrow> (lng_lat \<times> feature) list" where
  "point_feature ref f coordinates =
     (case toLngLat coordinates of
        None \<Rightarrow> []
      | Some (lng, lat) \<Rightarrow> [((lng, lat), with_geometry f ''Point'' (SArr ref [SNum (Fin lng), SNum (Fin lat)]))])"

text \<open>\<open>ref\<close>: the identity of the new coordinate arrays, which nothing compares.\<close>

definition feature_points :: "nat \<Rightarrow> feature \<Rightarrow> (lng_lat \<times> feature) list" where
  "feature_points ref f =
     (case coordinates_of f ''Point'' of
        Some cs \<Rightarrow> point_feature ref f (own_coordinates f)
      | None \<Rightarrow> (case coordinates_of f ''MultiPoint'' of Some ps \<Rightarrow> concat (map (point_feature ref f) ps) | None \<Rightarrow> []))"

definition collectPointFeatures :: "nat \<Rightarrow> feature list \<Rightarrow> (lng_lat \<times> feature) list" where
  "collectPointFeatures ref fs = concat (map (feature_points ref) fs)"

definition toPolygonPathsFromCoordinates :: "sv \<Rightarrow> lng_lat list list" where
  "toPolygonPathsFromCoordinates coordinates =
     (case coordinates of SArr r rings \<Rightarrow> filter (\<lambda>path. length path \<ge> 3) (map toPathFromCoordinates rings) | _ \<Rightarrow> [])"

definition polygon_feature :: "feature \<Rightarrow> sv \<Rightarrow> (lng_lat list list \<times> feature) list" where
  "polygon_feature f coordinates =
     (let paths = toPolygonPathsFromCoordinates coordinates
      in if paths = [] then [] else [(paths, with_geometry f ''Polygon'' coordinates)])"

definition feature_polygons :: "feature \<Rightarrow> (lng_lat list list \<times> feature) list" where
  "feature_polygons f =
     (case coordinates_of f ''Polygon'' of
        Some cs \<Rightarrow> polygon_feature f (own_coordinates f)
      | None \<Rightarrow> (case coordinates_of f ''MultiPolygon'' of Some ps \<Rightarrow> concat (map (polygon_feature f) ps) | None \<Rightarrow> []))"

definition collectPolygonFeatures :: "feature list \<Rightarrow> (lng_lat list list \<times> feature) list" where
  "collectPolygonFeatures fs = concat (map feature_polygons fs)"

text \<open>Where to put an event on a feature without a position of its own.\<close>

fun first_of :: "nat \<Rightarrow> sv \<Rightarrow> sv" where
  "first_of 0 v = v"
| "first_of (Suc n) v = (case v of SArr r xs \<Rightarrow> first_of n (sv_at xs 0) | _ \<Rightarrow> SUndef)"

definition fallbackLngLatFromFeature :: "feature option \<Rightarrow> lng_lat option" where
  "fallbackLngLatFromFeature f =
     (case f of
        None \<Rightarrow> None
      | Some x \<Rightarrow>
          (case f_geometry x of
             None \<Rightarrow> None
           | Some g \<Rightarrow>
               if g_type g = ''Point'' then toLngLat (g_coordinates g)
               else if g_type g = ''LineString'' \<or> g_type g = ''MultiPoint'' then toLngLat (first_of 1 (g_coordinates g))
               else if g_type g = ''Polygon'' \<or> g_type g = ''MultiLineString'' then toLngLat (first_of 2 (g_coordinates g))
               else if g_type g = ''MultiPolygon'' then toLngLat (first_of 3 (g_coordinates g))
               else None))"

section \<open>Points and segments on the screen\<close>

type_synonym pixel = "real \<times> real"

definition hypot :: "real \<Rightarrow> real \<Rightarrow> real" where
  "hypot a b = sqrt (a\<^sup>2 + b\<^sup>2)"

definition pointDistanceToSegment :: "pixel \<Rightarrow> pixel \<Rightarrow> pixel \<Rightarrow> real" where
  "pointDistanceToSegment p s e =
     (let dx = fst e - fst s; dy = snd e - snd s
      in if dx = 0 \<and> dy = 0 then hypot (fst p - fst s) (snd p - snd s)
         else
           let tRaw = ((fst p - fst s) * dx + (snd p - snd s) * dy) / (dx * dx + dy * dy); t = min 1 (max 0 tRaw)
           in hypot (fst p - (fst s + t * dx)) (snd p - (snd s + t * dy)))"

record pixel_bounds =
  minX :: real
  minY :: real
  maxX :: real
  maxY :: real

text \<open>A corner is an object with \<open>x\<close> and \<open>y\<close> or an array; of a text it would be its first characters.\<close>

definition coordinate_of :: "sv \<Rightarrow> string \<Rightarrow> nat \<Rightarrow> sv" where
  "coordinate_of v name k =
     (case v of
        SObj r fs \<Rightarrow> first_value [prop_at fs name, prop_at fs (if k = 0 then ''0'' else ''1'')]
      | SArr r xs \<Rightarrow> sv_at xs k
      | SText s \<Rightarrow> if k < length s then SText [s ! k] else SUndef
      | _ \<Rightarrow> SUndef)"

definition normalizeMapboxBoundsPixels :: "sv \<Rightarrow> pixel_bounds option" where
  "normalizeMapboxBoundsPixels b =
     (case b of
        SArr r (first # second # rest) \<Rightarrow>
          (case (parseNumber (coordinate_of first ''x'' 0), parseNumber (coordinate_of first ''y'' 1),
                 parseNumber (coordinate_of second ''x'' 0), parseNumber (coordinate_of second ''y'' 1)) of
             (Some ax, Some ay, Some bx, Some b_y) \<Rightarrow> Some \<lparr>minX = min ax bx, minY = min ay b_y, maxX = max ax bx, maxY = max ay b_y\<rparr>
           | _ \<Rightarrow> None)
      | _ \<Rightarrow> None)"

definition pointWithinPixelBounds :: "pixel \<Rightarrow> pixel_bounds \<Rightarrow> bool" where
  "pointWithinPixelBounds p b \<longleftrightarrow> fst p \<ge> minX b \<and> fst p \<le> maxX b \<and> snd p \<ge> minY b \<and> snd p \<le> maxY b"

definition ring_intersects :: "pixel \<Rightarrow> pixel \<Rightarrow> pixel \<Rightarrow> bool" where
  "ring_intersects p a b \<longleftrightarrow> (snd a > snd p) \<noteq> (snd b > snd p) \<and>
     fst p < (fst b - fst a) * (snd p - snd a) / (if snd b - snd a = 0 then 1 / 10 ^ 9 else snd b - snd a) + fst a"

definition pointInPixelRing :: "pixel \<Rightarrow> pixel list \<Rightarrow> bool" where
  "pointInPixelRing p ring =
     (length ring \<ge> 3 \<and>
      foldl (\<lambda>inside i. if ring_intersects p (ring ! i) (ring ! (if i = 0 then length ring - 1 else i - 1)) then \<not> inside else inside)
        False [0..<length ring])"

definition pointInPolygonWithHoles :: "pixel \<Rightarrow> pixel list list \<Rightarrow> bool" where
  "pointInPolygonWithHoles p rings =
     (case rings of [] \<Rightarrow> False | outer # holes \<Rightarrow> pointInPixelRing p outer \<and> \<not> list_ex (pointInPixelRing p) holes)"

definition segmentIntersectsSegment :: "pixel \<Rightarrow> pixel \<Rightarrow> pixel \<Rightarrow> pixel \<Rightarrow> bool" where
  "segmentIntersectsSegment startA endA startB endB =
     (let denominator = (fst endA - fst startA) * (snd endB - snd startB) - (snd endA - snd startA) * (fst endB - fst startB)
      in if \<bar>denominator\<bar> < 1 / 10 ^ 9 then False
         else
           let t = ((fst startB - fst startA) * (snd endB - snd startB) - (snd startB - snd startA) * (fst endB - fst startB)) / denominator;
               u = ((fst startB - fst startA) * (snd endA - snd startA) - (snd startB - snd startA) * (fst endA - fst startA)) / denominator
           in t \<ge> 0 \<and> t \<le> 1 \<and> u \<ge> 0 \<and> u \<le> 1)"

definition boundsCorners :: "pixel_bounds \<Rightarrow> pixel list" where
  "boundsCorners b = [(minX b, minY b), (maxX b, minY b), (maxX b, maxY b), (minX b, maxY b)]"

definition boundsEdges :: "pixel_bounds \<Rightarrow> (pixel \<times> pixel) list" where
  "boundsEdges b = (let c = boundsCorners b in [(c ! 0, c ! 1), (c ! 1, c ! 2), (c ! 2, c ! 3), (c ! 3, c ! 0)])"

definition pathIntersectsBounds :: "pixel list \<Rightarrow> pixel_bounds \<Rightarrow> bool" where
  "pathIntersectsBounds path b =
     (if path = [] then False
      else if list_ex (\<lambda>p. pointWithinPixelBounds p b) path then True
      else list_ex (\<lambda>i. list_ex (\<lambda>(s, e). segmentIntersectsSegment (path ! (i - 1)) (path ! i) s e) (boundsEdges b)) [1..<length path])"

definition polygonIntersectsBounds :: "pixel list list \<Rightarrow> pixel_bounds \<Rightarrow> bool" where
  "polygonIntersectsBounds rings b =
     (if rings = [] then False
      else if list_ex (\<lambda>ring. length ring \<ge> 2 \<and> pathIntersectsBounds (ring @ [ring ! 0]) b) rings then True
      else list_ex (\<lambda>corner. pointInPolygonWithHoles corner rings) (boundsCorners b))"

section \<open>Overlays under a point or in a rectangle\<close>

text \<open>What an overlay covers on the screen, by the type of its layer; a circle that cannot be placed is \<open>None\<close>.\<close>

datatype screen_shape = CircleShape "(pixel \<times> real) option" | FillShape "pixel list list" | LineShape "pixel list" "real option"

definition DEFAULT_HIT_TOLERANCE_PX :: real where "DEFAULT_HIT_TOLERANCE_PX = 8"
definition DEFAULT_LINE_WIDTH :: real where "DEFAULT_LINE_WIDTH = 5 / 2"

definition hit_tolerance :: "real option \<Rightarrow> real" where
  "hit_tolerance strokeWeight =
     max DEFAULT_HIT_TOLERANCE_PX ((case strokeWeight of Some w \<Rightarrow> w | None \<Rightarrow> DEFAULT_LINE_WIDTH) / 2 + 2)"

definition overlayHitsPoint :: "screen_shape \<Rightarrow> pixel \<Rightarrow> bool" where
  "overlayHitsPoint shape p =
     (case shape of
        CircleShape None \<Rightarrow> False
      | CircleShape (Some (center, radiusPx)) \<Rightarrow> hypot (fst p - fst center) (snd p - snd center) \<le> radiusPx + 2
      | FillShape rings \<Rightarrow> pointInPolygonWithHoles p rings
      | LineShape path strokeWeight \<Rightarrow>
          if length path < 2 then False
          else list_ex (\<lambda>i. pointDistanceToSegment p (path ! (i - 1)) (path ! i) \<le> hit_tolerance strokeWeight) [1..<length path])"

definition clamp_real :: "real \<Rightarrow> real \<Rightarrow> real \<Rightarrow> real" where
  "clamp_real v lo hi = min hi (max lo v)"

definition overlayIntersectsBounds :: "screen_shape \<Rightarrow> pixel_bounds \<Rightarrow> bool" where
  "overlayIntersectsBounds shape b =
     (case shape of
        CircleShape None \<Rightarrow> False
      | CircleShape (Some (center, radiusPx)) \<Rightarrow>
          let nearestX = clamp_real (fst center) (minX b) (maxX b); nearestY = clamp_real (snd center) (minY b) (maxY b)
          in hypot (fst center - nearestX) (snd center - nearestY) \<le> radiusPx
      | FillShape rings \<Rightarrow> polygonIntersectsBounds rings b
      | LineShape path strokeWeight \<Rightarrow> pathIntersectsBounds path b)"

section \<open>Distances\<close>

text \<open>The point of a segment at the share \<open>t\<close>.\<close>

definition point_at :: "pixel \<Rightarrow> pixel \<Rightarrow> real \<Rightarrow> pixel" where
  "point_at a b t = (fst a + t * (fst b - fst a), snd a + t * (snd b - snd a))"

definition pixel_distance :: "pixel \<Rightarrow> pixel \<Rightarrow> real" where
  "pixel_distance p q = hypot (fst p - fst q) (snd p - snd q)"

lemma distance_clamped:
  "pointDistanceToSegment p a b =
     pixel_distance p (point_at a b (clamp_t (fst p - fst a) (snd p - snd a) (fst b - fst a) (snd b - snd a)))"
proof (cases "fst b - fst a = 0 \<and> snd b - snd a = 0")
  case True
  then show ?thesis by (simp add: pointDistanceToSegment_def pixel_distance_def point_at_def Let_def)
next
  case False
  then have "0 < (fst b - fst a) * (fst b - fst a) + (snd b - snd a) * (snd b - snd a)"
    by (metis add_nonneg_eq_0_iff less_eq_real_def mult_eq_0_iff zero_le_square add_nonneg_nonneg)
  then show ?thesis using False
    by (simp add: pointDistanceToSegment_def pixel_distance_def point_at_def clamp_t_def Let_def)
qed

lemma distance_least:
  assumes "0 \<le> t" "t \<le> 1"
  shows "pointDistanceToSegment p a b \<le> pixel_distance p (point_at a b t)"
proof -
  note opt = clamp_t_optimal [OF assms, where ux = "fst p - fst a" and uy = "snd p - snd a" and dx = "fst b - fst a" and dy = "snd b - snd a"]
  show ?thesis
    unfolding distance_clamped pixel_distance_def hypot_def point_at_def using opt
    by (intro real_sqrt_le_mono) (simp add: diff_diff_eq)
qed

lemma distance_attained: "\<exists>t. 0 \<le> t \<and> t \<le> 1 \<and> pointDistanceToSegment p a b = pixel_distance p (point_at a b t)"
  using distance_clamped clamp_t_range by blast

text \<open>The points of a drawn line: those of the segments between neighbours.\<close>

definition on_path :: "pixel list \<Rightarrow> pixel \<Rightarrow> bool" where
  "on_path path q \<longleftrightarrow> (\<exists>i t. 0 < i \<and> i < length path \<and> 0 \<le> t \<and> t \<le> 1 \<and> q = point_at (path ! (i - 1)) (path ! i) t)"

text \<open>
  C28. A line is found under a point of the screen exactly when some point of the drawn line is within the tolerance,
  which is at least eight pixels and more for broad lines: the nearest point is looked for on the whole of every
  segment, ends included.
\<close>

theorem line_hit_iff:
  "overlayHitsPoint (LineShape path w) p \<longleftrightarrow> (\<exists>q. on_path path q \<and> pixel_distance p q \<le> hit_tolerance w)"
proof
  assume "overlayHitsPoint (LineShape path w) p"
  then obtain i where i: "1 \<le> i" "i < length path" "pointDistanceToSegment p (path ! (i - 1)) (path ! i) \<le> hit_tolerance w"
    by (auto simp: overlayHitsPoint_def list_ex_iff split: if_splits)
  obtain t where "0 \<le> t" "t \<le> 1" "pixel_distance p (point_at (path ! (i - 1)) (path ! i) t) \<le> hit_tolerance w"
    using distance_attained i(3) by metis
  then show "\<exists>q. on_path path q \<and> pixel_distance p q \<le> hit_tolerance w"
    using i(1,2) unfolding on_path_def by (metis One_nat_def Suc_le_eq)
next
  assume "\<exists>q. on_path path q \<and> pixel_distance p q \<le> hit_tolerance w"
  then obtain i t where i: "0 < i" "i < length path" "0 \<le> t" "t \<le> 1"
    "pixel_distance p (point_at (path ! (i - 1)) (path ! i) t) \<le> hit_tolerance w" by (auto simp: on_path_def)
  then have "pointDistanceToSegment p (path ! (i - 1)) (path ! i) \<le> hit_tolerance w"
    using distance_least order_trans by blast
  then show "overlayHitsPoint (LineShape path w) p" using i(1,2) by (auto simp: overlayHitsPoint_def list_ex_iff intro!: bexI [of _ i])
qed

section \<open>Rectangles\<close>

lemma normalized_bounds: "normalizeMapboxBoundsPixels v = Some b \<Longrightarrow> minX b \<le> maxX b \<and> minY b \<le> maxY b"
  by (auto simp: normalizeMapboxBoundsPixels_def split: sv.splits list.splits option.splits)

lemma edge_in_bounds:
  assumes "minX b \<le> maxX b" "minY b \<le> maxY b" "(s, e) \<in> set (boundsEdges b)" "0 \<le> u" "u \<le> 1"
  shows "pointWithinPixelBounds (point_at s e u) b"
proof -
  have m: "lo \<le> lo + u * (hi - lo) \<and> lo + u * (hi - lo) \<le> hi" "lo \<le> hi + u * (lo - hi) \<and> hi + u * (lo - hi) \<le> hi" if "lo \<le> hi" for lo hi
  proof -
    have "0 \<le> u * (hi - lo)" "u * (hi - lo) \<le> 1 * (hi - lo)" using that assms(4,5) mult_left_le_one_le [of "hi - lo" u] by simp_all
    then show "lo \<le> lo + u * (hi - lo) \<and> lo + u * (hi - lo) \<le> hi" "lo \<le> hi + u * (lo - hi) \<and> hi + u * (lo - hi) \<le> hi"
      by (simp_all add: right_diff_distrib)
  qed
  show ?thesis using assms(3) m [OF assms(1)] m [OF assms(2)] assms(1,2)
    by (auto simp: boundsEdges_def boundsCorners_def Let_def point_at_def pointWithinPixelBounds_def)
qed

lemma segments_meet:
  assumes "segmentIntersectsSegment a b c d"
  obtains t u where "0 \<le> t" "t \<le> 1" "0 \<le> u" "u \<le> 1" "point_at a b t = point_at c d u"
proof -
  define den where "den = (fst b - fst a) * (snd d - snd c) - (snd b - snd a) * (fst d - fst c)"
  define t where "t = ((fst c - fst a) * (snd d - snd c) - (snd c - snd a) * (fst d - fst c)) / den"
  define u where "u = ((fst c - fst a) * (snd b - snd a) - (snd c - snd a) * (fst b - fst a)) / den"
  have s: "\<not> \<bar>den\<bar> < 1 / 10 ^ 9" "0 \<le> t" "t \<le> 1" "0 \<le> u" "u \<le> 1"
    using assms by (auto simp: segmentIntersectsSegment_def Let_def den_def t_def u_def split: if_splits)
  then have den: "den \<noteq> 0" by auto
  have td: "t * den = (fst c - fst a) * (snd d - snd c) - (snd c - snd a) * (fst d - fst c)"
    "u * den = (fst c - fst a) * (snd b - snd a) - (snd c - snd a) * (fst b - fst a)" using den by (simp_all add: t_def u_def)
  have "(fst a + t * (fst b - fst a) - (fst c + u * (fst d - fst c))) * den =
      (fst a - fst c) * den + (t * den) * (fst b - fst a) - (u * den) * (fst d - fst c)" by (simp add: algebra_simps)
  also have "\<dots> = 0" unfolding td unfolding den_def by (simp add: algebra_simps)
  finally have x: "fst a + t * (fst b - fst a) = fst c + u * (fst d - fst c)" using den by simp
  have "(snd a + t * (snd b - snd a) - (snd c + u * (snd d - snd c))) * den =
      (snd a - snd c) * den + (t * den) * (snd b - snd a) - (u * den) * (snd d - snd c)" by (simp add: algebra_simps)
  also have "\<dots> = 0" unfolding td unfolding den_def by (simp add: algebra_simps)
  finally have "snd a + t * (snd b - snd a) = snd c + u * (snd d - snd c)" using den by simp
  then have "point_at a b t = point_at c d u" using x by (simp add: point_at_def)
  then show ?thesis using that s by blast
qed

lemma path_hit:
  assumes "pathIntersectsBounds path b" "minX b \<le> maxX b" "minY b \<le> maxY b"
  shows "\<exists>q. (q \<in> set path \<or> on_path path q) \<and> pointWithinPixelBounds q b"
proof (cases "list_ex (\<lambda>p. pointWithinPixelBounds p b) path")
  case True
  then show ?thesis by (auto simp: list_ex_iff)
next
  case False
  then obtain i s e where i: "1 \<le> i" "i < length path" "(s, e) \<in> set (boundsEdges b)" "segmentIntersectsSegment (path ! (i - 1)) (path ! i) s e"
    using assms(1) by (auto simp: pathIntersectsBounds_def list_ex_iff split: if_splits)
  from i(4) obtain t u where tu: "0 \<le> t" "t \<le> 1" "0 \<le> u" "u \<le> 1" "point_at (path ! (i - 1)) (path ! i) t = point_at s e u"
    by (rule segments_meet)
  have "pointWithinPixelBounds (point_at (path ! (i - 1)) (path ! i) t) b"
    unfolding tu(5) using edge_in_bounds [OF assms(2,3) i(3) tu(3,4)] .
  moreover have "on_path path (point_at (path ! (i - 1)) (path ! i) t)"
    unfolding on_path_def using i(1,2) tu(1,2) by (intro exI [of _ i] exI [of _ t]) simp
  ultimately show ?thesis by blast
qed

lemma nearest_in_bounds:
  assumes "minX b \<le> maxX b" "minY b \<le> maxY b"
  defines "n \<equiv> \<lambda>c. (clamp_real (fst c) (minX b) (maxX b), clamp_real (snd c) (minY b) (maxY b))"
  shows "pointWithinPixelBounds (n c) b" "pointWithinPixelBounds q b \<Longrightarrow> pixel_distance c (n c) \<le> pixel_distance c q"
proof -
  show "pointWithinPixelBounds (n c) b" using assms by (auto simp: pointWithinPixelBounds_def clamp_real_def)
  have le: "(x - clamp_real x lo hi)\<^sup>2 \<le> (x - y)\<^sup>2" if "lo \<le> y" "y \<le> hi" for x lo hi y :: real
    unfolding abs_le_square_iff [symmetric] using that by (auto simp: clamp_real_def min_def max_def)
  show "pixel_distance c (n c) \<le> pixel_distance c q" if "pointWithinPixelBounds q b"
    unfolding pixel_distance_def hypot_def n_def fst_conv snd_conv
    using that by (intro real_sqrt_le_mono add_mono le) (auto simp: pointWithinPixelBounds_def)
qed

text \<open>
  Features are found in a rectangle for a reason: a circle exactly when some point of the rectangle is within its
  radius, a line only when one of its points is in the rectangle, and a polygon only when a point of one of its
  rings is in the rectangle or a corner of the rectangle is inside the polygon.
\<close>

theorem rectangle_hits:
  assumes "normalizeMapboxBoundsPixels v = Some b"
  shows "(overlayIntersectsBounds (CircleShape (Some (c, radius))) b \<longleftrightarrow> (\<exists>q. pointWithinPixelBounds q b \<and> pixel_distance c q \<le> radius)) \<and>
    (overlayIntersectsBounds (LineShape path w) b \<longrightarrow> (\<exists>q. (q \<in> set path \<or> on_path path q) \<and> pointWithinPixelBounds q b)) \<and>
    (overlayIntersectsBounds (FillShape rings) b \<longrightarrow>
      (\<exists>ring \<in> set rings. \<exists>q. (q \<in> set ring \<or> on_path (ring @ [ring ! 0]) q) \<and> pointWithinPixelBounds q b) \<or>
      (\<exists>corner \<in> set (boundsCorners b). pointInPolygonWithHoles corner rings))"
proof -
  note ok = normalized_bounds [OF assms]
  have "overlayIntersectsBounds (CircleShape (Some (c, radius))) b \<longleftrightarrow> (\<exists>q. pointWithinPixelBounds q b \<and> pixel_distance c q \<le> radius)"
  proof -
    let ?n = "(clamp_real (fst c) (minX b) (maxX b), clamp_real (snd c) (minY b) (maxY b))"
    note n = nearest_in_bounds [OF conjunct1 [OF ok] conjunct2 [OF ok], where c = c]
    have "overlayIntersectsBounds (CircleShape (Some (c, radius))) b \<longleftrightarrow> pixel_distance c ?n \<le> radius"
      by (simp add: overlayIntersectsBounds_def pixel_distance_def Let_def)
    then show ?thesis using n by (meson order_trans)
  qed
  moreover have "\<exists>ring \<in> set rings. \<exists>q. (q \<in> set ring \<or> on_path (ring @ [ring ! 0]) q) \<and> pointWithinPixelBounds q b"
    if some: "list_ex (\<lambda>ring. length ring \<ge> 2 \<and> pathIntersectsBounds (ring @ [ring ! 0]) b) rings"
  proof -
    obtain ring where r: "ring \<in> set rings" "length ring \<ge> 2" "pathIntersectsBounds (ring @ [ring ! 0]) b" using some by (auto simp: list_ex_iff)
    have "ring ! 0 \<in> set ring" using r(2) by (cases ring) simp_all
    then have "set (ring @ [ring ! 0]) = set ring" by auto
    then show ?thesis using path_hit [OF r(3)] ok r(1) by blast
  qed
  then have "(\<exists>ring \<in> set rings. \<exists>q. (q \<in> set ring \<or> on_path (ring @ [ring ! 0]) q) \<and> pointWithinPixelBounds q b) \<or>
      (\<exists>corner \<in> set (boundsCorners b). pointInPolygonWithHoles corner rings)" if "overlayIntersectsBounds (FillShape rings) b"
    using that unfolding overlayIntersectsBounds_def polygonIntersectsBounds_def screen_shape.case
    by (metis (no_types, lifting) list_ex_iff)
  moreover have "overlayIntersectsBounds (LineShape path w) b \<longrightarrow> (\<exists>q. (q \<in> set path \<or> on_path path q) \<and> pointWithinPixelBounds q b)"
    using path_hit [of path b] ok by (simp add: overlayIntersectsBounds_def)
  ultimately show ?thesis by blast
qed

definition sample_corners :: sv where
  "sample_corners = SArr 0 [SArr 1 [SNum 10, SNum 0], SArr 2 [SNum 0, SNum 10]]"

theorem rectangle_hits_witness:
  "\<exists>b. normalizeMapboxBoundsPixels sample_corners = Some b \<and>
     (overlayIntersectsBounds (CircleShape (Some ((12, 5), 3))) b \<longleftrightarrow> (\<exists>q. pointWithinPixelBounds q b \<and> pixel_distance (12, 5) q \<le> 3))"
proof -
  have "normalizeMapboxBoundsPixels sample_corners = Some \<lparr>minX = 0, minY = 0, maxX = 10, maxY = 10\<rparr>"
    by (simp add: normalizeMapboxBoundsPixels_def sample_corners_def coordinate_of_def sv_at_def parseNumber_def)
  from rectangle_hits [OF this] show ?thesis using \<open>normalizeMapboxBoundsPixels sample_corners = _\<close> by blast
qed

end
