(* ===== verification/MapLayers.thy ===== *)
theory MapLayers
  imports MapShapes
begin

text \<open>
  Sources, layers and overlays of the Google map adapter, third part of \<open>static/js/modules/maps/google_map.js\<close>: the state
  that \<open>createMapProxy\<close> keeps and the Mapbox methods that change it.

  \<^item> \<open>map_state\<close> holds the registries of the adapter (sources, layers, feature states, drawing order, layer listeners)
    and of Google's map: its zoom, the overlays on it (\<open>gm_drawn\<close>), the listeners attached to overlays
    (\<open>gm_attached\<close>) and the handlers called so far (\<open>gm_calls\<close>).
  \<^item> New overlays, listener handles and listener records are numbered by one counter, their identity. Registries are
    association lists in the order of insertion, as \<open>Map\<close> and object spread keep them.
  \<^item> \<open>str\<close> stands for \<open>String(id)\<close>; the five default colours come from the style sheet and are the parameter
    \<open>pal\<close>. The overlays of the library do not fail, so no \<open>catch\<close> is reached.
\<close>

section \<open>State\<close>

type_synonym entries = "(string \<times> sv) list"

datatype overlay_shape = Polyline "lng_lat list" | Marker lng_lat | Polygon "lng_lat list list"

text \<open>Colour, opacity and weight of the stroke; for circles fill, opacity, radius and stroke; for polygons fill and stroke.\<close>

datatype overlay_style = LineStyle sv real real | CircleStyle sv real real sv real real | FillStyle sv real sv real real

text \<open>A feature as it is shown, with its state, and the layer and the source it is shown for.\<close>

record rendered =
  rf_feature :: feature
  rf_layer :: string
  rf_type :: string
  rf_source :: string

record overlay =
  ov_id :: nat
  ov_shape :: overlay_shape
  ov_style :: overlay_style
  ov_zIndex :: nat
  ov_feature :: rendered

record layer_record =
  ly_type :: string
  ly_source :: "string option"
  ly_filter :: sv
  ly_layout :: entries
  ly_paint :: entries
  ly_overlays :: "overlay list"
  ly_rendered :: "rendered list"

record source_record =
  so_data :: "feature list"
  so_layerIds :: "string list"

text \<open>A handler of the client, or the function that \<open>once\<close> wraps around it: its own identity and the event, layer and handler
  its closure holds.\<close>

datatype handler = Plain nat | OnceHandler nat string string nat

record layer_listener =
  ls_key :: nat
  ls_event :: string
  ls_layer :: string
  ls_handler :: handler
  ls_bindings :: "nat list"

text \<open>A listener on an overlay: its handle, the overlay, the event, and the record, handler and feature its closure refers to.\<close>

record attachment =
  at_handle :: nat
  at_overlay :: nat
  at_event :: string
  at_key :: nat
  at_handler :: handler
  at_feature :: rendered

record map_state =
  mp_sources :: "(string \<times> source_record) list"
  mp_layers :: "(string \<times> layer_record) list"
  mp_featureStates :: "(string \<times> (string \<times> entries) list) list"
  mp_order :: "string list"
  mp_listeners :: "layer_listener list"
  mp_fresh :: nat
  gm_zoom :: real
  gm_drawn :: "nat set"
  gm_attached :: "attachment list"
  gm_calls :: "(handler \<times> rendered) list"

record palette =
  pal_line :: sv
  pal_circle :: sv
  pal_circleStroke :: sv
  pal_fill :: sv
  pal_fillOutline :: sv

definition new_map :: "real \<Rightarrow> map_state" where
  "new_map z = \<lparr>mp_sources = [], mp_layers = [], mp_featureStates = [], mp_order = [], mp_listeners = [], mp_fresh = 0,
     gm_zoom = z, gm_drawn = {}, gm_attached = [], gm_calls = []\<rparr>"

definition toGoogleEventName :: "string \<Rightarrow> string" where
  "toGoogleEventName e =
     (case map_of [(''click'', ''click''), (''dblclick'', ''dblclick''), (''dragend'', ''dragend''), (''load'', ''idle''),
        (''mouseenter'', ''mouseover''), (''mouseleave'', ''mouseout''), (''move'', ''bounds_changed''), (''moveend'', ''idle''),
        (''zoom'', ''zoom_changed''), (''zoomend'', ''idle'')] e of Some g \<Rightarrow> g | None \<Rightarrow> e)"

section \<open>Reading the state\<close>

definition getLayerRecord :: "map_state \<Rightarrow> string \<Rightarrow> layer_record option" where
  "getLayerRecord s lid = map_of (mp_layers s) lid"

definition getSourceRecord :: "map_state \<Rightarrow> string \<Rightarrow> source_record option" where
  "getSourceRecord s lid = map_of (mp_sources s) lid"

text \<open>\<open>{ ...a, ...b }\<close>\<close>

definition spread :: "entries \<Rightarrow> entries \<Rightarrow> entries" where
  "spread a b = foldl (\<lambda>m (k, v). AList.update k v m) a b"

definition readFeatureState :: "(sv \<Rightarrow> string) \<Rightarrow> map_state \<Rightarrow> string \<Rightarrow> sv \<Rightarrow> entries" where
  "readFeatureState str s sourceId featureId =
     (if sv_nullish featureId then []
      else case map_of (mp_featureStates s) sourceId of
             None \<Rightarrow> []
           | Some states \<Rightarrow> (case map_of states (str featureId) of Some e \<Rightarrow> e | None \<Rightarrow> []))"

definition index_in :: "string \<Rightarrow> string list \<Rightarrow> nat" where
  "index_in x xs = length (takeWhile (\<lambda>y. y \<noteq> x) xs)"

definition getLayerZIndex :: "map_state \<Rightarrow> string \<Rightarrow> nat" where
  "getLayerZIndex s lid = (if lid \<in> set (mp_order s) then index_in lid (mp_order s) + 1 else 1)"

definition getLayerVisibility :: "layer_record \<Rightarrow> bool" where
  "getLayerVisibility l \<longleftrightarrow> prop_at (ly_layout l) ''visibility'' \<noteq> SText ''none''"

section \<open>Styles of a layer\<close>

definition resolveLineStyleForLayer :: "(sv \<Rightarrow> string) \<Rightarrow> palette \<Rightarrow> real \<Rightarrow> entries \<Rightarrow> feature option \<Rightarrow> overlay_style" where
  "resolveLineStyleForLayer str pal z paint f =
     (let zoom = SNum (Fin z); number = \<lambda>k fallback. resolveNumericStyle str (prop_at paint k) fallback zoom f;
          color = resolveColorStyle str (first_value [prop_at paint ''line-color'', prop_at paint ''line-gradient'']) (pal_line pal) f zoom;
          blur = max 0 (number ''line-blur'' 0);
          opacity = clamp_real (number ''line-opacity'' (85 / 100)) 0 1;
          width = max (1 / 2) (number ''line-width'' DEFAULT_LINE_WIDTH + blur * 2)
      in LineStyle color opacity width)"

definition resolveCircleStyleForLayer :: "(sv \<Rightarrow> string) \<Rightarrow> palette \<Rightarrow> real \<Rightarrow> entries \<Rightarrow> overlay_style" where
  "resolveCircleStyleForLayer str pal z paint =
     (let number = \<lambda>k fallback. resolveNumericStyle str (prop_at paint k) fallback (SNum (Fin z)) None;
          color = \<lambda>k fallback. resolveColorStyle str (prop_at paint k) fallback None (SNum 4)
      in CircleStyle (color ''circle-color'' (pal_circle pal)) (clamp_real (number ''circle-opacity'' (85 / 100)) 0 1)
           (max 1 (number ''circle-radius'' 5)) (color ''circle-stroke-color'' (pal_circleStroke pal))
           (clamp_real (number ''circle-stroke-opacity'' 1) 0 1) (max 0 (number ''circle-stroke-width'' 0)))"

definition resolveFillStyleForLayer :: "(sv \<Rightarrow> string) \<Rightarrow> palette \<Rightarrow> real \<Rightarrow> entries \<Rightarrow> overlay_style" where
  "resolveFillStyleForLayer str pal z paint =
     (let number = \<lambda>k fallback. resolveNumericStyle str (prop_at paint k) fallback (SNum (Fin z)) None;
          color = \<lambda>k fallback. resolveColorStyle str (prop_at paint k) fallback None (SNum 4);
          fillOpacity = clamp_real (number ''fill-opacity'' (28 / 100)) 0 1
      in FillStyle (color ''fill-color'' (pal_fill pal)) fillOpacity (color ''fill-outline-color'' (pal_fillOutline pal)) fillOpacity 1)"

definition layer_style :: "(sv \<Rightarrow> string) \<Rightarrow> palette \<Rightarrow> real \<Rightarrow> layer_record \<Rightarrow> rendered \<Rightarrow> overlay_style" where
  "layer_style str pal z l f =
     (if ly_type l = ''line'' then resolveLineStyleForLayer str pal z (ly_paint l) (Some (rf_feature f))
      else if ly_type l = ''circle'' then resolveCircleStyleForLayer str pal z (ly_paint l)
      else resolveFillStyleForLayer str pal z (ly_paint l))"

section \<open>Overlays and listeners\<close>

definition set_layer :: "string \<Rightarrow> layer_record \<Rightarrow> map_state \<Rightarrow> map_state" where
  "set_layer lid l s = s\<lparr>mp_layers := AList.update lid l (mp_layers s)\<rparr>"

definition overlay_ids :: "layer_record \<Rightarrow> nat list" where
  "overlay_ids l = map ov_id (ly_overlays l)"

definition clearLayerOverlays :: "string \<Rightarrow> map_state \<Rightarrow> map_state" where
  "clearLayerOverlays lid s =
     (case getLayerRecord s lid of
        None \<Rightarrow> s
      | Some l \<Rightarrow> (set_layer lid (l\<lparr>ly_overlays := [], ly_rendered := []\<rparr>) s)\<lparr>gm_drawn := gm_drawn s - set (overlay_ids l)\<rparr>)"

definition applyLayerStyle :: "(sv \<Rightarrow> string) \<Rightarrow> palette \<Rightarrow> string \<Rightarrow> map_state \<Rightarrow> map_state" where
  "applyLayerStyle str pal lid s =
     (case getLayerRecord s lid of
        None \<Rightarrow> s
      | Some l \<Rightarrow>
          if ly_type l \<in> {''line'', ''circle'', ''fill''} then
            set_layer lid (l\<lparr>ly_overlays := map (\<lambda>v. v\<lparr>ov_style := layer_style str pal (gm_zoom s) l (ov_feature v),
                                                      ov_zIndex := getLayerZIndex s lid\<rparr>) (ly_overlays l)\<rparr>) s
          else s)"

definition applyLayerVisibility :: "string \<Rightarrow> map_state \<Rightarrow> map_state" where
  "applyLayerVisibility lid s =
     (case getLayerRecord s lid of
        None \<Rightarrow> s
      | Some l \<Rightarrow>
          s\<lparr>gm_drawn := (if getLayerVisibility l then gm_drawn s \<union> set (overlay_ids l) else gm_drawn s - set (overlay_ids l))\<rparr>)"

text \<open>\<open>listener.remove()\<close> for every binding of a record.\<close>

definition clearLayerBindings :: "layer_listener \<Rightarrow> map_state \<Rightarrow> map_state" where
  "clearLayerBindings r s = s\<lparr>gm_attached := filter (\<lambda>a. at_handle a \<notin> set (ls_bindings r)) (gm_attached s)\<rparr>"

definition attach :: "layer_listener \<Rightarrow> nat \<Rightarrow> overlay \<Rightarrow> attachment" where
  "attach r h v = \<lparr>at_handle = h, at_overlay = ov_id v, at_event = toGoogleEventName (ls_event r), at_key = ls_key r,
     at_handler = ls_handler r, at_feature = ov_feature v\<rparr>"

definition bindLayerListenerRecord :: "layer_listener \<Rightarrow> map_state \<Rightarrow> layer_listener \<times> map_state" where
  "bindLayerListenerRecord r s =
     (let s1 = clearLayerBindings r s
      in case getLayerRecord s1 (ls_layer r) of
           None \<Rightarrow> (r\<lparr>ls_bindings := []\<rparr>, s1)
         | Some l \<Rightarrow>
             let n = length (ly_overlays l); handles = [mp_fresh s1..<mp_fresh s1 + n]
             in (r\<lparr>ls_bindings := handles\<rparr>,
                 s1\<lparr>gm_attached := gm_attached s1 @ map2 (attach r) handles (ly_overlays l), mp_fresh := mp_fresh s1 + n\<rparr>))"

fun rebind_records :: "string \<Rightarrow> layer_listener list \<Rightarrow> map_state \<Rightarrow> layer_listener list \<times> map_state" where
  "rebind_records lid [] s = ([], s)"
| "rebind_records lid (r # rs) s =
     (let (r1, s1) = (if ls_layer r = lid then bindLayerListenerRecord r s else (r, s)); (rs1, s2) = rebind_records lid rs s1
      in (r1 # rs1, s2))"

definition rebindLayerListeners :: "string \<Rightarrow> map_state \<Rightarrow> map_state" where
  "rebindLayerListeners lid s = (let (rs, s1) = rebind_records lid (mp_listeners s) s in s1\<lparr>mp_listeners := rs\<rparr>)"

section \<open>Rendering\<close>

definition enrichLayerFeature :: "(sv \<Rightarrow> string) \<Rightarrow> map_state \<Rightarrow> string \<Rightarrow> string \<Rightarrow> string \<Rightarrow> feature \<Rightarrow> rendered" where
  "enrichLayerFeature str s sourceId lid kind f =
     \<lparr>rf_feature = f\<lparr>f_state := spread (f_state f) (readFeatureState str s sourceId (f_id f))\<rparr>,
      rf_layer = lid, rf_type = kind, rf_source = sourceId\<rparr>"

text \<open>What a layer shows of the features of its source: the shapes of its type that pass its filter.\<close>

definition line_shapes :: "sv \<Rightarrow> feature list \<Rightarrow> (overlay_shape \<times> feature) list" where
  "line_shapes flt fs = map (\<lambda>(path, f). (Polyline path, f)) (filter (\<lambda>p. evaluateLayerFilter flt (Some (snd p))) (collectLineSegments fs))"

definition circle_shapes :: "sv \<Rightarrow> feature list \<Rightarrow> (overlay_shape \<times> feature) list" where
  "circle_shapes flt fs = map (\<lambda>(p, f). (Marker p, f)) (filter (\<lambda>p. evaluateLayerFilter flt (Some (snd p))) (collectPointFeatures 0 fs))"

definition fill_shapes :: "sv \<Rightarrow> feature list \<Rightarrow> (overlay_shape \<times> feature) list" where
  "fill_shapes flt fs = map (\<lambda>(ps, f). (Polygon ps, f)) (filter (\<lambda>p. evaluateLayerFilter flt (Some (snd p))) (collectPolygonFeatures fs))"

definition shapes_of :: "layer_record \<Rightarrow> feature list \<Rightarrow> (overlay_shape \<times> feature) list" where
  "shapes_of l fs =
     (if ly_type l = ''line'' then line_shapes (ly_filter l) fs
      else if ly_type l = ''circle'' then circle_shapes (ly_filter l) fs
      else if ly_type l = ''fill'' then fill_shapes (ly_filter l) fs
      else [])"

definition new_overlay :: "(sv \<Rightarrow> string) \<Rightarrow> palette \<Rightarrow> map_state \<Rightarrow> string \<Rightarrow> string \<Rightarrow> layer_record \<Rightarrow> nat \<Rightarrow> overlay_shape \<times> feature \<Rightarrow> overlay" where
  "new_overlay str pal s sourceId lid l k p =
     (let f = enrichLayerFeature str s sourceId lid (ly_type l) (snd p)
      in \<lparr>ov_id = k, ov_shape = fst p, ov_style = layer_style str pal (gm_zoom s) l f, ov_zIndex = getLayerZIndex s lid, ov_feature = f\<rparr>)"

text \<open>The new overlays of a layer replace the old ones, on the map when the layer is visible.\<close>

definition draw_overlays :: "(sv \<Rightarrow> string) \<Rightarrow> palette \<Rightarrow> string \<Rightarrow> string \<Rightarrow> (overlay_shape \<times> feature) list \<Rightarrow> map_state \<Rightarrow> map_state" where
  "draw_overlays str pal sourceId lid shapes s =
     (case getLayerRecord s lid of
        None \<Rightarrow> s
      | Some l \<Rightarrow>
          let n = length shapes; ids = [mp_fresh s..<mp_fresh s + n]; vs = map2 (new_overlay str pal s sourceId lid l) ids shapes
          in (set_layer lid (l\<lparr>ly_overlays := ly_overlays l @ vs, ly_rendered := ly_rendered l @ map ov_feature vs\<rparr>) s)
               \<lparr>gm_drawn := (if getLayerVisibility l then gm_drawn s \<union> set ids else gm_drawn s), mp_fresh := mp_fresh s + n\<rparr>)"

text \<open>The three renderers differ in the shapes and the style; without the source the layer is cleared only.\<close>

definition rerender_as :: "(sv \<Rightarrow> string) \<Rightarrow> palette \<Rightarrow> string \<Rightarrow> (sv \<Rightarrow> feature list \<Rightarrow> (overlay_shape \<times> feature) list) \<Rightarrow> string \<Rightarrow> map_state \<Rightarrow> map_state" where
  "rerender_as str pal kind shapes lid s =
     (case getLayerRecord s lid of
        None \<Rightarrow> s
      | Some l \<Rightarrow>
          if ly_type l \<noteq> kind then s
          else
            (case ly_source l of
               None \<Rightarrow> clearLayerOverlays lid s
             | Some sourceId \<Rightarrow>
                 (case getSourceRecord s sourceId of
                    None \<Rightarrow> clearLayerOverlays lid s
                  | Some src \<Rightarrow>
                      let wanted = shapes (ly_filter l) (so_data src); s1 = clearLayerOverlays lid s
                      in if wanted = [] then rebindLayerListeners lid s1
                         else rebindLayerListeners lid (draw_overlays str pal sourceId lid wanted s1))))"

definition rerenderLineLayer :: "(sv \<Rightarrow> string) \<Rightarrow> palette \<Rightarrow> string \<Rightarrow> map_state \<Rightarrow> map_state" where
  "rerenderLineLayer str pal = rerender_as str pal ''line'' line_shapes"

definition rerenderCircleLayer :: "(sv \<Rightarrow> string) \<Rightarrow> palette \<Rightarrow> string \<Rightarrow> map_state \<Rightarrow> map_state" where
  "rerenderCircleLayer str pal = rerender_as str pal ''circle'' circle_shapes"

definition rerenderFillLayer :: "(sv \<Rightarrow> string) \<Rightarrow> palette \<Rightarrow> string \<Rightarrow> map_state \<Rightarrow> map_state" where
  "rerenderFillLayer str pal = rerender_as str pal ''fill'' fill_shapes"

definition rerenderLayer :: "(sv \<Rightarrow> string) \<Rightarrow> palette \<Rightarrow> string \<Rightarrow> map_state \<Rightarrow> map_state" where
  "rerenderLayer str pal lid s =
     (case getLayerRecord s lid of
        None \<Rightarrow> s
      | Some l \<Rightarrow>
          if ly_type l = ''line'' then rerenderLineLayer str pal lid s
          else if ly_type l = ''circle'' then rerenderCircleLayer str pal lid s
          else if ly_type l = ''fill'' then rerenderFillLayer str pal lid s
          else rebindLayerListeners lid (clearLayerOverlays lid s))"

definition rerenderSourceLayers :: "(sv \<Rightarrow> string) \<Rightarrow> palette \<Rightarrow> string \<Rightarrow> map_state \<Rightarrow> map_state" where
  "rerenderSourceLayers str pal sourceId s =
     (case getSourceRecord s sourceId of None \<Rightarrow> s | Some src \<Rightarrow> fold (rerenderLayer str pal) (so_layerIds src) s)"

definition updateAllLayerZIndices :: "(sv \<Rightarrow> string) \<Rightarrow> palette \<Rightarrow> map_state \<Rightarrow> map_state" where
  "updateAllLayerZIndices str pal s = fold (applyLayerStyle str pal) (mp_order s) s"

end
