(* ===== verification/MapMethods.thy ===== *)
theory MapMethods
  imports MapLayers
begin

text \<open>
  The Mapbox methods of the Google map adapter, fourth part of \<open>static/js/modules/maps/google_map.js\<close>: \<open>mapboxLikeMethods\<close>
  and the listener of \<open>zoom_changed\<close>, each a function on the state of \<open>MapLayers\<close>.

  \<^item> Methods return the map itself, so that only the new state is modelled; a missing text argument is the empty text,
    as the code tests it for truth. \<open>setFeatureState\<close> raises for the source with the empty name: \<open>None\<close>.
  \<^item> \<open>deliver\<close> is Google's map calling one listener of an overlay; which one and when is up to the environment.
  \<^item> Queries read the screen through \<open>project\<close>, the projection of the map; paths and positions of overlays are those
    they were made with.
\<close>

section \<open>Sources\<close>

definition set_source :: "string \<Rightarrow> source_record \<Rightarrow> map_state \<Rightarrow> map_state" where
  "set_source sid src s = s\<lparr>mp_sources := AList.update sid src (mp_sources s)\<rparr>"

definition addSource :: "string \<Rightarrow> geojson \<Rightarrow> map_state \<Rightarrow> map_state" where
  "addSource sid data s =
     (if sid = [] then s
      else (set_source sid \<lparr>so_data = normalizeGeoJsonFeatureCollection data, so_layerIds = []\<rparr> s)
             \<lparr>mp_featureStates := AList.delete sid (mp_featureStates s)\<rparr>)"

text \<open>\<open>getSource(id)?.setData(data)\<close>\<close>

definition setData :: "(sv \<Rightarrow> string) \<Rightarrow> palette \<Rightarrow> string \<Rightarrow> geojson \<Rightarrow> map_state \<Rightarrow> map_state" where
  "setData str pal sid data s =
     (case getSourceRecord s sid of
        None \<Rightarrow> s
      | Some src \<Rightarrow> rerenderSourceLayers str pal sid (set_source sid (src\<lparr>so_data := normalizeGeoJsonFeatureCollection data\<rparr>) s))"

definition removeSource :: "string \<Rightarrow> map_state \<Rightarrow> map_state" where
  "removeSource sid s =
     (let s1 = (case getSourceRecord s sid of None \<Rightarrow> s | Some src \<Rightarrow> fold clearLayerOverlays (so_layerIds src) s)
      in s1\<lparr>mp_sources := AList.delete sid (mp_sources s1), mp_featureStates := AList.delete sid (mp_featureStates s1)\<rparr>)"

section \<open>Layers\<close>

record layer_definition =
  ld_id :: string
  ld_type :: string
  ld_source :: "string option"
  ld_filter :: sv
  ld_layout :: entries
  ld_paint :: entries

definition insert_before :: "string \<Rightarrow> string \<Rightarrow> string list \<Rightarrow> string list" where
  "insert_before beforeId lid order =
     (if beforeId \<noteq> [] \<and> beforeId \<in> set order
      then take (index_in beforeId order) order @ lid # drop (index_in beforeId order) order
      else order @ [lid])"

definition unlink_layer :: "string option \<Rightarrow> string \<Rightarrow> map_state \<Rightarrow> map_state" where
  "unlink_layer source lid s =
     (case source of
        None \<Rightarrow> s
      | Some sid \<Rightarrow> (case getSourceRecord s sid of
                      None \<Rightarrow> s | Some src \<Rightarrow> set_source sid (src\<lparr>so_layerIds := set_delete lid (so_layerIds src)\<rparr>) s))"

definition link_layer :: "string option \<Rightarrow> string \<Rightarrow> map_state \<Rightarrow> map_state" where
  "link_layer source lid s =
     (case source of
        None \<Rightarrow> s
      | Some sid \<Rightarrow> (case getSourceRecord s sid of
                      None \<Rightarrow> s | Some src \<Rightarrow> set_source sid (src\<lparr>so_layerIds := set_add lid (so_layerIds src)\<rparr>) s))"

text \<open>Layer listeners that are dropped, and their bindings with them.\<close>

definition drop_listeners :: "(layer_listener \<Rightarrow> bool) \<Rightarrow> map_state \<Rightarrow> map_state" where
  "drop_listeners P s =
     (fold clearLayerBindings (filter P (mp_listeners s)) s)\<lparr>mp_listeners := filter (\<lambda>r. \<not> P r) (mp_listeners s)\<rparr>"

definition removeLayer :: "(sv \<Rightarrow> string) \<Rightarrow> palette \<Rightarrow> string \<Rightarrow> map_state \<Rightarrow> map_state" where
  "removeLayer str pal lid s =
     (case getLayerRecord s lid of
        None \<Rightarrow> s
      | Some l \<Rightarrow>
          let s1 = unlink_layer (ly_source l) lid (clearLayerOverlays lid s);
              s2 = s1\<lparr>mp_layers := AList.delete lid (mp_layers s1), mp_order := remove1 lid (mp_order s1)\<rparr>
          in updateAllLayerZIndices str pal (drop_listeners (\<lambda>r. ls_layer r = lid) s2))"

definition addLayer :: "(sv \<Rightarrow> string) \<Rightarrow> palette \<Rightarrow> layer_definition \<Rightarrow> string \<Rightarrow> map_state \<Rightarrow> map_state" where
  "addLayer str pal d beforeId s =
     (if ld_id d = [] then s
      else
        let lid = ld_id d;
            s1 = (if getLayerRecord s lid \<noteq> None then removeLayer str pal lid s else s);
            l = \<lparr>ly_type = ld_type d, ly_source = ld_source d, ly_filter = ld_filter d, ly_layout = ld_layout d,
                 ly_paint = ld_paint d, ly_overlays = [], ly_rendered = []\<rparr>;
            s2 = link_layer (ld_source d) lid (set_layer lid l s1);
            s3 = s2\<lparr>mp_order := insert_before beforeId lid (mp_order s2)\<rparr>
        in updateAllLayerZIndices str pal (rerenderLayer str pal lid s3))"

definition setLayoutProperty :: "string \<Rightarrow> string \<Rightarrow> sv \<Rightarrow> map_state \<Rightarrow> map_state" where
  "setLayoutProperty lid k v s =
     (case getLayerRecord s lid of
        None \<Rightarrow> s
      | Some l \<Rightarrow>
          let s1 = set_layer lid (l\<lparr>ly_layout := AList.update k v (ly_layout l)\<rparr>) s
          in if k = ''visibility'' then applyLayerVisibility lid s1 else s1)"

definition paint_properties :: "string \<Rightarrow> string list" where
  "paint_properties kind =
     (if kind = ''line'' then [''line-color'', ''line-gradient'', ''line-opacity'', ''line-width'']
      else if kind = ''circle'' then [''circle-color'', ''circle-opacity'', ''circle-radius'', ''circle-stroke-color'',
        ''circle-stroke-opacity'', ''circle-stroke-width'']
      else if kind = ''fill'' then [''fill-color'', ''fill-opacity'', ''fill-outline-color'']
      else [])"

definition setPaintProperty :: "(sv \<Rightarrow> string) \<Rightarrow> palette \<Rightarrow> string \<Rightarrow> string \<Rightarrow> sv \<Rightarrow> map_state \<Rightarrow> map_state" where
  "setPaintProperty str pal lid k v s =
     (case getLayerRecord s lid of
        None \<Rightarrow> s
      | Some l \<Rightarrow>
          let s1 = set_layer lid (l\<lparr>ly_paint := AList.update k v (ly_paint l)\<rparr>) s
          in if k \<in> set (paint_properties (ly_type l)) then applyLayerStyle str pal lid s1 else s1)"

definition setFilter :: "(sv \<Rightarrow> string) \<Rightarrow> palette \<Rightarrow> string \<Rightarrow> sv \<Rightarrow> map_state \<Rightarrow> map_state" where
  "setFilter str pal lid e s =
     (case getLayerRecord s lid of
        None \<Rightarrow> s
      | Some l \<Rightarrow> rerenderLayer str pal lid (set_layer lid (l\<lparr>ly_filter := (if sv_truthy e then e else SNull)\<rparr>) s))"

definition getFilter :: "string \<Rightarrow> map_state \<Rightarrow> sv" where
  "getFilter lid s =
     (case getLayerRecord s lid of None \<Rightarrow> SNull | Some l \<Rightarrow> if sv_truthy (ly_filter l) then ly_filter l else SNull)"

definition moveLayer :: "(sv \<Rightarrow> string) \<Rightarrow> palette \<Rightarrow> string \<Rightarrow> string \<Rightarrow> map_state \<Rightarrow> map_state" where
  "moveLayer str pal lid beforeId s =
     (if getLayerRecord s lid = None \<or> lid \<notin> set (mp_order s) then s
      else updateAllLayerZIndices str pal (s\<lparr>mp_order := insert_before beforeId lid (remove1 lid (mp_order s))\<rparr>))"

section \<open>Layer listeners\<close>

definition on_layer :: "string \<Rightarrow> string \<Rightarrow> handler \<Rightarrow> map_state \<Rightarrow> map_state" where
  "on_layer event lid h s =
     (let r = \<lparr>ls_key = mp_fresh s, ls_event = event, ls_layer = lid, ls_handler = h, ls_bindings = []\<rparr>;
          (r1, s1) = bindLayerListenerRecord r (s\<lparr>mp_fresh := mp_fresh s + 1\<rparr>)
      in s1\<lparr>mp_listeners := mp_listeners s @ [r1]\<rparr>)"

definition once_layer :: "string \<Rightarrow> string \<Rightarrow> nat \<Rightarrow> map_state \<Rightarrow> map_state" where
  "once_layer event lid h s = on_layer event lid (OnceHandler (mp_fresh s) event lid h) (s\<lparr>mp_fresh := mp_fresh s + 1\<rparr>)"

definition listener_matches :: "string \<Rightarrow> string \<Rightarrow> handler option \<Rightarrow> layer_listener \<Rightarrow> bool" where
  "listener_matches event lid h r \<longleftrightarrow>
     (event = [] \<or> ls_event r = event) \<and> ls_layer r = lid \<and> (case h of None \<Rightarrow> True | Some x \<Rightarrow> ls_handler r = x)"

definition off_layer :: "string \<Rightarrow> string \<Rightarrow> handler option \<Rightarrow> map_state \<Rightarrow> map_state" where
  "off_layer event lid h s = drop_listeners (listener_matches event lid h) s"

definition deliver :: "nat \<Rightarrow> map_state \<Rightarrow> map_state" where
  "deliver handle s =
     (case find (\<lambda>a. at_handle a = handle) (gm_attached s) of
        None \<Rightarrow> s
      | Some a \<Rightarrow>
          let s1 = s\<lparr>gm_calls := gm_calls s @ [(at_handler a, at_feature a)]\<rparr>
          in (case at_handler a of Plain n \<Rightarrow> s1 | OnceHandler k event lid n \<Rightarrow> off_layer event lid (Some (at_handler a)) s1))"

section \<open>Feature states\<close>

definition setFeatureState :: "(sv \<Rightarrow> string) \<Rightarrow> palette \<Rightarrow> string \<Rightarrow> sv \<Rightarrow> entries \<Rightarrow> map_state \<Rightarrow> map_state option" where
  "setFeatureState str pal sid fid st s =
     (if sv_nullish fid then Some s
      else if sid = [] then None
      else
        let states = (case map_of (mp_featureStates s) sid of Some m \<Rightarrow> m | None \<Rightarrow> []);
            previous = (case map_of states (str fid) of Some e \<Rightarrow> e | None \<Rightarrow> [])
        in Some (rerenderSourceLayers str pal sid
             (s\<lparr>mp_featureStates := AList.update sid (AList.update (str fid) (spread previous st) states) (mp_featureStates s)\<rparr>)))"

definition getFeatureState :: "(sv \<Rightarrow> string) \<Rightarrow> string \<Rightarrow> sv \<Rightarrow> map_state \<Rightarrow> entries" where
  "getFeatureState str sid fid s = readFeatureState str s sid fid"

definition without_state :: "(sv \<Rightarrow> string) \<Rightarrow> sv \<Rightarrow> string \<Rightarrow> (string \<times> entries) list \<Rightarrow> (string \<times> entries) list" where
  "without_state str fid k states =
     (if sv_nullish fid then []
      else if k = [] then AList.delete (str fid) states
      else AList.update (str fid) (AList.delete k (case map_of states (str fid) of Some e \<Rightarrow> e | None \<Rightarrow> [])) states)"

definition removeFeatureState :: "(sv \<Rightarrow> string) \<Rightarrow> palette \<Rightarrow> string \<Rightarrow> sv \<Rightarrow> string \<Rightarrow> map_state \<Rightarrow> map_state" where
  "removeFeatureState str pal sid fid k s =
     (case map_of (mp_featureStates s) sid of
        None \<Rightarrow> s
      | Some states \<Rightarrow>
          rerenderSourceLayers str pal sid
            (s\<lparr>mp_featureStates := AList.update sid (without_state str fid k states) (mp_featureStates s)\<rparr>))"

section \<open>Zoom and removal\<close>

definition zoom_changed :: "(sv \<Rightarrow> string) \<Rightarrow> palette \<Rightarrow> real \<Rightarrow> map_state \<Rightarrow> map_state" where
  "zoom_changed str pal z s = updateAllLayerZIndices str pal (s\<lparr>gm_zoom := z\<rparr>)"

definition remove_map :: "map_state \<Rightarrow> map_state" where
  "remove_map s =
     (let s1 = drop_listeners (\<lambda>r. True) s; s2 = fold clearLayerOverlays (map fst (mp_layers s1)) s1
      in s2\<lparr>mp_order := [], mp_sources := [], mp_featureStates := [], mp_layers := []\<rparr>)"

section \<open>Queries\<close>

definition linePixelsForOverlay :: "(lng_lat \<Rightarrow> pixel option) \<Rightarrow> overlay \<Rightarrow> pixel list" where
  "linePixelsForOverlay project v =
     (let drawn = (case ov_shape v of Polyline path \<Rightarrow> path | _ \<Rightarrow> []);
          path = (if drawn \<noteq> [] then drawn else List.map_filter toLngLat (array_elements (own_coordinates (rf_feature (ov_feature v)))))
      in List.map_filter project path)"

definition polygonPixelRingsForOverlay :: "(lng_lat \<Rightarrow> pixel option) \<Rightarrow> overlay \<Rightarrow> pixel list list" where
  "polygonPixelRingsForOverlay project v =
     (let rings = \<lambda>paths. filter (\<lambda>ring. length ring \<ge> 3) (map (List.map_filter project) paths);
          own = rings (case ov_shape v of Polygon paths \<Rightarrow> paths | _ \<Rightarrow> [])
      in if own \<noteq> [] then own
         else rings (map (\<lambda>ring. List.map_filter toLngLat (array_elements ring)) (array_elements (own_coordinates (rf_feature (ov_feature v))))))"

definition circlePixelsForOverlay :: "(lng_lat \<Rightarrow> pixel option) \<Rightarrow> overlay \<Rightarrow> (pixel \<times> real) option" where
  "circlePixelsForOverlay project v =
     (let position = (case ov_shape v of Marker p \<Rightarrow> Some p | _ \<Rightarrow> toLngLat (own_coordinates (rf_feature (ov_feature v))))
      in case position of
           None \<Rightarrow> None
         | Some p \<Rightarrow> (case project p of
                        None \<Rightarrow> None
                      | Some center \<Rightarrow> Some (center, max 0 (case ov_style v of CircleStyle _ _ radius _ _ _ \<Rightarrow> radius | _ \<Rightarrow> 5))))"

definition overlay_on_screen :: "(lng_lat \<Rightarrow> pixel option) \<Rightarrow> overlay \<Rightarrow> screen_shape" where
  "overlay_on_screen project v =
     (if rf_type (ov_feature v) = ''circle'' then CircleShape (circlePixelsForOverlay project v)
      else if rf_type (ov_feature v) = ''fill'' then FillShape (polygonPixelRingsForOverlay project v)
      else LineShape (linePixelsForOverlay project v) (case ov_style v of LineStyle _ _ w \<Rightarrow> Some w | _ \<Rightarrow> None))"

text \<open>What is asked for: a point, a rectangle, or everything when the area is missing or cannot be read.\<close>

datatype query_area = Everywhere | AtPoint pixel | InBounds pixel_bounds

definition area_of :: "sv option \<Rightarrow> query_area" where
  "area_of area =
     (case area of
        None \<Rightarrow> Everywhere
      | Some v \<Rightarrow>
          (case both_numbers (coordinate_of v ''x'' 0) (coordinate_of v ''y'' 1) of
             Some p \<Rightarrow> AtPoint p
           | None \<Rightarrow> (case normalizeMapboxBoundsPixels v of Some b \<Rightarrow> InBounds b | None \<Rightarrow> Everywhere)))"

definition layer_hits :: "(lng_lat \<Rightarrow> pixel option) \<Rightarrow> query_area \<Rightarrow> layer_record \<Rightarrow> rendered list" where
  "layer_hits project area l =
     (if \<not> getLayerVisibility l \<or> ly_rendered l = [] then []
      else case area of
             Everywhere \<Rightarrow> ly_rendered l
           | AtPoint p \<Rightarrow> map ov_feature (filter (\<lambda>v. overlayHitsPoint (overlay_on_screen project v) p) (ly_overlays l))
           | InBounds b \<Rightarrow> map ov_feature (filter (\<lambda>v. overlayIntersectsBounds (overlay_on_screen project v) b) (ly_overlays l)))"

definition queryRenderedFeatures :: "(lng_lat \<Rightarrow> pixel option) \<Rightarrow> sv option \<Rightarrow> string list \<Rightarrow> map_state \<Rightarrow> rendered list" where
  "queryRenderedFeatures project area layers s =
     concat (map (\<lambda>lid. case getLayerRecord s lid of None \<Rightarrow> [] | Some l \<Rightarrow> layer_hits project (area_of area) l) layers)"

definition querySourceFeatures :: "(sv \<Rightarrow> string) \<Rightarrow> string \<Rightarrow> sv \<Rightarrow> map_state \<Rightarrow> feature list" where
  "querySourceFeatures str sid flt s =
     (case getSourceRecord s sid of
        None \<Rightarrow> []
      | Some src \<Rightarrow> map (\<lambda>f. f\<lparr>f_state := spread (f_state f) (readFeatureState str s sid (f_id f))\<rparr>)
                      (filter (\<lambda>f. evaluateLayerFilter flt (Some f)) (so_data src)))"

text \<open>\<open>getStyle().layers\<close>: the registered layers from the bottom to the top.\<close>

definition style_layers :: "map_state \<Rightarrow> layer_definition list" where
  "style_layers s =
     List.map_filter (\<lambda>lid. map_option (\<lambda>l. \<lparr>ld_id = lid, ld_type = ly_type l, ld_source = ly_source l, ld_filter = getFilter lid s,
        ld_layout = ly_layout l, ld_paint = ly_paint l\<rparr>) (getLayerRecord s lid)) (mp_order s)"

section \<open>Events\<close>

datatype map_event =
    AddSource string geojson
  | SetData string geojson
  | RemoveSource string
  | AddLayer layer_definition string
  | RemoveLayer string
  | SetLayout string string sv
  | SetPaint string string sv
  | SetFilter string sv
  | MoveLayer string string
  | OnLayer string string nat
  | OnceLayer string string nat
  | OffLayer string string "handler option"
  | Deliver nat
  | SetFeatureState string sv entries
  | RemoveFeatureState string sv string
  | ZoomChanged real
  | RemoveMap

fun map_handler :: "(sv \<Rightarrow> string) \<Rightarrow> palette \<Rightarrow> map_event \<Rightarrow> map_state \<Rightarrow> map_state option" where
  "map_handler str pal (AddSource sid data) s = Some (addSource sid data s)"
| "map_handler str pal (SetData sid data) s = Some (setData str pal sid data s)"
| "map_handler str pal (RemoveSource sid) s = Some (removeSource sid s)"
| "map_handler str pal (AddLayer d b) s = Some (addLayer str pal d b s)"
| "map_handler str pal (RemoveLayer lid) s = Some (removeLayer str pal lid s)"
| "map_handler str pal (SetLayout lid k v) s = Some (setLayoutProperty lid k v s)"
| "map_handler str pal (SetPaint lid k v) s = Some (setPaintProperty str pal lid k v s)"
| "map_handler str pal (SetFilter lid e) s = Some (setFilter str pal lid e s)"
| "map_handler str pal (MoveLayer lid b) s = Some (moveLayer str pal lid b s)"
| "map_handler str pal (OnLayer event lid h) s = Some (on_layer event lid (Plain h) s)"
| "map_handler str pal (OnceLayer event lid h) s = Some (once_layer event lid h s)"
| "map_handler str pal (OffLayer event lid h) s = Some (off_layer event lid h s)"
| "map_handler str pal (Deliver handle) s = Some (deliver handle s)"
| "map_handler str pal (SetFeatureState sid fid st) s = setFeatureState str pal sid fid st s"
| "map_handler str pal (RemoveFeatureState sid fid k) s = Some (removeFeatureState str pal sid fid k s)"
| "map_handler str pal (ZoomChanged z) s = Some (zoom_changed str pal z s)"
| "map_handler str pal RemoveMap s = Some (remove_map s)"

inductive map_step :: "(sv \<Rightarrow> string) \<Rightarrow> palette \<Rightarrow> map_state \<Rightarrow> map_event \<Rightarrow> map_state \<Rightarrow> bool" for str :: "sv \<Rightarrow> string" and pal :: palette
where
  handled: "map_handler str pal e s = Some t \<Longrightarrow> map_step str pal s e t"

inductive_cases map_stepE: "map_step str pal s e t"

end
