(* ===== verification/MapInvariant.thy ===== *)
theory MapInvariant
  imports MapMethods
begin

text \<open>
  Invariants of the Google map adapter: what holds of overlays, of the listeners attached to them and of the drawing
  order after every sequence of methods.

  \<^item> \<open>overlays_ok\<close>: overlays of different layers are different, the map shows exactly those of the visible layers, and
    the rendered features of a layer are those of its overlays.
  \<^item> \<open>listeners_ok\<close>: the bindings of a record are its listeners on overlays; every overlay of a layer carries each
    record of the layer exactly once, in the order of registration.
  \<^item> The operations that draw and bind are treated one by one; the methods follow in \<open>MapRuns\<close>.
\<close>

section \<open>Reading an updated state\<close>

lemma get_set_layer [simp]:
  "getLayerRecord (set_layer lid l s) m = (if m = lid then Some l else getLayerRecord s m)"
  by (simp add: getLayerRecord_def set_layer_def update_conv')

lemma set_layer_sel [simp]:
  "mp_sources (set_layer lid l s) = mp_sources s" "mp_featureStates (set_layer lid l s) = mp_featureStates s"
  "mp_order (set_layer lid l s) = mp_order s" "mp_listeners (set_layer lid l s) = mp_listeners s"
  "mp_fresh (set_layer lid l s) = mp_fresh s" "gm_zoom (set_layer lid l s) = gm_zoom s" "gm_drawn (set_layer lid l s) = gm_drawn s"
  "gm_attached (set_layer lid l s) = gm_attached s" "gm_calls (set_layer lid l s) = gm_calls s"
  by (simp_all add: set_layer_def)

lemma get_update [simp]:
  "getLayerRecord (mp_sources_update f s) m = getLayerRecord s m" "getLayerRecord (mp_featureStates_update f1 s) m = getLayerRecord s m"
  "getLayerRecord (mp_order_update f2 s) m = getLayerRecord s m" "getLayerRecord (mp_listeners_update f3 s) m = getLayerRecord s m"
  "getLayerRecord (mp_fresh_update f4 s) m = getLayerRecord s m" "getLayerRecord (gm_zoom_update f5 s) m = getLayerRecord s m"
  "getLayerRecord (gm_drawn_update f6 s) m = getLayerRecord s m" "getLayerRecord (gm_attached_update f7 s) m = getLayerRecord s m"
  "getLayerRecord (gm_calls_update f8 s) m = getLayerRecord s m"
  by (simp_all add: getLayerRecord_def)

lemma source_update [simp]:
  "getSourceRecord (set_layer lid l s) m = getSourceRecord s m" "getSourceRecord (mp_layers_update f s) m = getSourceRecord s m"
  "getSourceRecord (mp_featureStates_update f1 s) m = getSourceRecord s m" "getSourceRecord (mp_order_update f2 s) m = getSourceRecord s m"
  "getSourceRecord (mp_listeners_update f3 s) m = getSourceRecord s m" "getSourceRecord (mp_fresh_update f4 s) m = getSourceRecord s m"
  "getSourceRecord (gm_zoom_update f5 s) m = getSourceRecord s m" "getSourceRecord (gm_drawn_update f6 s) m = getSourceRecord s m"
  "getSourceRecord (gm_attached_update f7 s) m = getSourceRecord s m" "getSourceRecord (gm_calls_update f8 s) m = getSourceRecord s m"
  by (simp_all add: getSourceRecord_def set_layer_def)

section \<open>Overlays\<close>

definition shown_ids :: "map_state \<Rightarrow> nat set" where
  "shown_ids s = {i. \<exists>lid l. getLayerRecord s lid = Some l \<and> getLayerVisibility l \<and> i \<in> set (overlay_ids l)}"

definition shown_others :: "string \<Rightarrow> map_state \<Rightarrow> nat set" where
  "shown_others lid s = {i. \<exists>m l. m \<noteq> lid \<and> getLayerRecord s m = Some l \<and> getLayerVisibility l \<and> i \<in> set (overlay_ids l)}"

lemma shown_split:
  assumes "getLayerRecord s lid = Some l"
  shows "shown_ids s = shown_others lid s \<union> (if getLayerVisibility l then set (overlay_ids l) else {})"
proof -
  have "i \<in> shown_ids s \<longleftrightarrow> i \<in> shown_others lid s \<or> getLayerVisibility l \<and> i \<in> set (overlay_ids l)" for i
    unfolding shown_ids_def shown_others_def mem_Collect_eq using assms by (metis option.inject)
  then show ?thesis by auto
qed

definition layer_ok :: "nat \<Rightarrow> string \<Rightarrow> layer_record \<Rightarrow> bool" where
  "layer_ok fresh lid l \<longleftrightarrow> distinct (overlay_ids l) \<and> (\<forall>i \<in> set (overlay_ids l). i < fresh) \<and>
     ly_rendered l = map ov_feature (ly_overlays l) \<and>
     (\<forall>v \<in> set (ly_overlays l). rf_layer (ov_feature v) = lid \<and> rf_type (ov_feature v) = ly_type l) \<and>
     (ly_overlays l \<noteq> [] \<longrightarrow> ly_type l \<in> {''line'', ''circle'', ''fill''})"

definition overlays_ok :: "map_state \<Rightarrow> bool" where
  "overlays_ok s \<longleftrightarrow> (\<forall>lid l. getLayerRecord s lid = Some l \<longrightarrow> layer_ok (mp_fresh s) lid l) \<and>
     (\<forall>a b l m. a \<noteq> b \<and> getLayerRecord s a = Some l \<and> getLayerRecord s b = Some m \<longrightarrow> set (overlay_ids l) \<inter> set (overlay_ids m) = {}) \<and>
     gm_drawn s = shown_ids s"

lemma overlays_okD:
  assumes "overlays_ok s" "getLayerRecord s lid = Some l"
  shows "distinct (overlay_ids l)" "i \<in> set (overlay_ids l) \<Longrightarrow> i < mp_fresh s" "ly_rendered l = map ov_feature (ly_overlays l)"
    "v \<in> set (ly_overlays l) \<Longrightarrow> rf_layer (ov_feature v) = lid \<and> rf_type (ov_feature v) = ly_type l"
    "a \<noteq> lid \<Longrightarrow> getLayerRecord s a = Some m \<Longrightarrow> set (overlay_ids l) \<inter> set (overlay_ids m) = {}"
  using assms unfolding overlays_ok_def layer_ok_def by blast+

lemma overlays_ok_drawn: "overlays_ok s \<Longrightarrow> gm_drawn s = shown_ids s"
  by (simp add: overlays_ok_def)

text \<open>The overlays of one layer are replaced, without ids of other layers; the map shows the new ones when the layer is visible.\<close>

lemma overlays_ok_replace:
  assumes ok: "overlays_ok s" and old: "getLayerRecord s lid = Some l" and "mp_fresh s \<le> n"
    and new: "layer_ok n lid l1" and ids: "\<And>i. i \<in> set (overlay_ids l1) \<Longrightarrow> i \<in> set (overlay_ids l) \<or> mp_fresh s \<le> i"
    and get: "\<And>m. getLayerRecord t m = (if m = lid then Some l1 else getLayerRecord s m)"
    and fresh: "mp_fresh t = n" and drawn: "gm_drawn t = (gm_drawn s - set (overlay_ids l)) \<union> (if getLayerVisibility l1 then set (overlay_ids l1) else {})"
  shows "overlays_ok t"
proof -
  have ok1: "layer_ok (mp_fresh t) m k" if "getLayerRecord t m = Some k" for m k
    using that get new ok assms(3) fresh unfolding overlays_ok_def layer_ok_def by (smt (verit) order_less_le_trans option.inject)
  have disj: "set (overlay_ids l1) \<inter> set (overlay_ids k) = {}" if "m \<noteq> lid" "getLayerRecord s m = Some k" for m k
    using overlays_okD(5) [OF ok old that] overlays_okD(2) [OF ok that(2)] ids by fastforce
  have "set (overlay_ids k) \<inter> set (overlay_ids k1) = {}"
    if "a \<noteq> b" "getLayerRecord t a = Some k" "getLayerRecord t b = Some k1" for a b k k1
    using that get disj overlays_okD(5) [OF ok, of b k1 a k] by (smt (verit) Int_commute option.inject)
  moreover have "gm_drawn t = shown_ids t"
  proof -
    have "getLayerRecord t lid = Some l1" "shown_others lid t = shown_others lid s" using get by (auto simp: shown_others_def)
    moreover have "shown_others lid s \<inter> set (overlay_ids l) = {}" using overlays_okD(5) [OF ok old] by (fastforce simp: shown_others_def)
    ultimately show ?thesis using drawn overlays_ok_drawn [OF ok] shown_split [OF old] shown_split [of t lid l1] by auto
  qed
  ultimately show ?thesis unfolding overlays_ok_def using ok1 by blast
qed

lemma overlays_ok_empty:
  assumes ok: "overlays_ok s" and get: "\<And>m. m \<noteq> lid \<Longrightarrow> getLayerRecord t m = getLayerRecord s m"
    and "\<And>l. getLayerRecord s lid = Some l \<Longrightarrow> ly_overlays l = []"
    and new: "\<And>l. getLayerRecord t lid = Some l \<Longrightarrow> ly_overlays l = [] \<and> ly_rendered l = []"
    and "mp_fresh t = mp_fresh s" "gm_drawn t = gm_drawn s"
  shows "overlays_ok t"
proof -
  have "shown_ids t = shown_ids s" unfolding shown_ids_def using get assms(3) new
    by (smt (verit, best) Collect_cong empty_iff list.map_disc_iff list.set(1) overlay_ids_def)
  moreover have "layer_ok (mp_fresh t) m k" if "getLayerRecord t m = Some k" for m k
    using ok that get [of m] new assms(5) by (cases "m = lid") (auto simp: overlays_ok_def layer_ok_def overlay_ids_def)
  moreover have "set (overlay_ids k) \<inter> set (overlay_ids k1) = {}"
    if ab: "a \<noteq> b" "getLayerRecord t a = Some k" "getLayerRecord t b = Some k1" for a b k k1
  proof (cases "a = lid \<or> b = lid")
    case True
    then show ?thesis using new ab by (auto simp: overlay_ids_def)
  next
    case False
    then show ?thesis using ok ab get unfolding overlays_ok_def by metis
  qed
  ultimately show ?thesis unfolding overlays_ok_def using assms(6) overlays_ok_drawn [OF ok] by blast
qed

lemma overlays_ok_same:
  assumes "overlays_ok s" "\<And>m. getLayerRecord t m = getLayerRecord s m" "mp_fresh s \<le> mp_fresh t" "gm_drawn t = gm_drawn s"
  shows "overlays_ok t"
  using assms unfolding overlays_ok_def layer_ok_def shown_ids_def by (smt (verit) Collect_cong order_less_le_trans)

section \<open>Listeners\<close>

text \<open>What is attached to an overlay: the record and the feature that is passed on, in the order of attachment.\<close>

definition bound_at :: "nat \<Rightarrow> map_state \<Rightarrow> (nat \<times> rendered) list" where
  "bound_at i s = map (\<lambda>a. (at_key a, at_feature a)) (filter (\<lambda>a. at_overlay a = i) (gm_attached s))"

definition record_of :: "layer_listener \<Rightarrow> nat \<times> string \<times> handler" where
  "record_of r = (ls_key r, toGoogleEventName (ls_event r), ls_handler r)"

definition attachment_of :: "attachment \<Rightarrow> nat \<times> string \<times> handler" where
  "attachment_of a = (at_key a, at_event a, at_handler a)"

definition listeners_core :: "layer_listener list \<Rightarrow> map_state \<Rightarrow> bool" where
  "listeners_core rs s \<longleftrightarrow> distinct (map at_handle (gm_attached s)) \<and> distinct (map ls_key rs) \<and>
     (\<forall>r \<in> set rs. ls_key r < mp_fresh s \<and> set (ls_bindings r) = at_handle ` {a \<in> set (gm_attached s). at_key a = ls_key r}) \<and>
     (\<forall>a \<in> set (gm_attached s). at_handle a < mp_fresh s \<and> at_overlay a < mp_fresh s \<and> attachment_of a \<in> record_of ` set rs)"

definition layer_overlays :: "map_state \<Rightarrow> string \<Rightarrow> overlay list" where
  "layer_overlays s lid = (case getLayerRecord s lid of None \<Rightarrow> [] | Some l \<Rightarrow> ly_overlays l)"

definition bound_to :: "layer_listener list \<Rightarrow> string \<Rightarrow> map_state \<Rightarrow> bool" where
  "bound_to rs lid s \<longleftrightarrow> (\<forall>v \<in> set (layer_overlays s lid).
     bound_at (ov_id v) s = map (\<lambda>r. (ls_key r, ov_feature v)) (filter (\<lambda>r. ls_layer r = lid) rs))"

definition listeners_ok :: "map_state \<Rightarrow> bool" where
  "listeners_ok s \<longleftrightarrow> listeners_core (mp_listeners s) s \<and> (\<forall>lid. bound_to (mp_listeners s) lid s)"

lemma listeners_coreD:
  assumes "listeners_core rs s"
  shows "distinct (map at_handle (gm_attached s))" "distinct (map ls_key rs)" "r \<in> set rs \<Longrightarrow> ls_key r < mp_fresh s"
    "r \<in> set rs \<Longrightarrow> set (ls_bindings r) = at_handle ` {a \<in> set (gm_attached s). at_key a = ls_key r}"
    "a \<in> set (gm_attached s) \<Longrightarrow> at_handle a < mp_fresh s" "a \<in> set (gm_attached s) \<Longrightarrow> at_overlay a < mp_fresh s"
    "a \<in> set (gm_attached s) \<Longrightarrow> \<exists>r \<in> set rs. attachment_of a = record_of r"
  using assms unfolding listeners_core_def by (blast | fastforce)+

lemma same_handle:
  assumes "listeners_core rs s" "a \<in> set (gm_attached s)" "b \<in> set (gm_attached s)" "at_handle a = at_handle b"
  shows "a = b"
  using listeners_coreD(1) [OF assms(1)] assms(2-4) by (auto simp: distinct_map inj_on_def)

text \<open>Removing the bindings of a record removes exactly what was attached for it.\<close>

lemma cleared_bindings:
  assumes core: "listeners_core rs s" and r: "r \<in> set rs"
  shows "clearLayerBindings r s = s\<lparr>gm_attached := filter (\<lambda>a. at_key a \<noteq> ls_key r) (gm_attached s)\<rparr>"
proof -
  have "at_handle a \<notin> set (ls_bindings r) \<longleftrightarrow> at_key a \<noteq> ls_key r" if "a \<in> set (gm_attached s)" for a
    unfolding listeners_coreD(4) [OF core r] using same_handle [OF core that] that by (auto simp: image_iff)
  then have "filter (\<lambda>a. at_handle a \<notin> set (ls_bindings r)) (gm_attached s) = filter (\<lambda>a. at_key a \<noteq> ls_key r) (gm_attached s)"
    by (intro filter_cong) auto
  then show ?thesis by (simp add: clearLayerBindings_def)
qed

lemma bound_at_filter:
  "bound_at i (s\<lparr>gm_attached := filter (\<lambda>a. P (at_key a)) (gm_attached s)\<rparr>) = filter (\<lambda>p. P (fst p)) (bound_at i s)"
  by (simp add: bound_at_def filter_map comp_def conj_commute)

lemma bound_at_append:
  "bound_at i (s\<lparr>gm_attached := gm_attached s @ as, mp_fresh := n\<rparr>) =
     bound_at i s @ map (\<lambda>a. (at_key a, at_feature a)) (filter (\<lambda>a. at_overlay a = i) as)"
  by (simp add: bound_at_def)

lemma attach_sel [simp]:
  "at_handle (attach r h v) = h" "at_overlay (attach r h v) = ov_id v" "at_key (attach r h v) = ls_key r"
  "at_feature (attach r h v) = ov_feature v" "attachment_of (attach r h v) = record_of r"
  by (simp_all add: attach_def attachment_of_def record_of_def)

lemma attach_none:
  assumes "i \<notin> ov_id ` set vs"
  shows "filter (\<lambda>a. at_overlay a = i) (map2 (attach r) hs vs) = []"
proof -
  have "at_overlay a \<noteq> i" if a: "a \<in> set (map2 (attach r) hs vs)" for a
  proof -
    from a obtain h v where "(h, v) \<in> set (zip hs vs)" "a = attach r h v" by auto
    then show ?thesis using assms set_zip_rightD by fastforce
  qed
  then show ?thesis by (simp add: filter_empty_conv)
qed

text \<open>Every overlay gets exactly one of the new listeners.\<close>

lemma attach_one:
  assumes "distinct (map ov_id vs)" "v \<in> set vs" "length hs = length vs"
  shows "map (\<lambda>a. (at_key a, at_feature a)) (filter (\<lambda>a. at_overlay a = ov_id v) (map2 (attach r) hs vs)) = [(ls_key r, ov_feature v)]"
  using assms(3,1,2)
proof (induction hs vs rule: list_induct2)
  case (Cons h hs w ws)
  have none: "filter (\<lambda>a. at_overlay a = ov_id w) (map2 (attach r) hs ws) = []" if "ov_id w \<notin> ov_id ` set ws"
    using that by (rule attach_none)
  show ?case
  proof (cases "v = w")
    case True
    then show ?thesis using none Cons.prems(1) by simp
  next
    case False
    then have v: "v \<in> set ws" "ov_id w \<noteq> ov_id v" using Cons.prems by auto
    then show ?thesis using Cons.IH Cons.prems(1) by simp
  qed
qed simp

lemma attach_handles: "length hs = length vs \<Longrightarrow> map at_handle (map2 (attach r) hs vs) = hs"
  by (induction hs vs rule: list_induct2) simp_all

lemma overlays_ok_ids:
  assumes "overlays_ok s"
  shows "distinct (map ov_id (layer_overlays s lid))" "v \<in> set (layer_overlays s lid) \<Longrightarrow> ov_id v < mp_fresh s"
    "a \<noteq> b \<Longrightarrow> v \<in> set (layer_overlays s a) \<Longrightarrow> ov_id v \<notin> ov_id ` set (layer_overlays s b)"
proof -
  show "distinct (map ov_id (layer_overlays s lid))" "v \<in> set (layer_overlays s lid) \<Longrightarrow> ov_id v < mp_fresh s"
    using overlays_okD(1,2) [OF assms] unfolding layer_overlays_def overlay_ids_def
    by (cases "getLayerRecord s lid"; force)+
  show "a \<noteq> b \<Longrightarrow> v \<in> set (layer_overlays s a) \<Longrightarrow> ov_id v \<notin> ov_id ` set (layer_overlays s b)"
    using overlays_okD(5) [OF assms, of b _ a] unfolding layer_overlays_def overlay_ids_def
    by (cases "getLayerRecord s a"; cases "getLayerRecord s b") fastforce+
qed

lemma bind_eq:
  assumes "listeners_core rs s" "r \<in> set rs"
  shows "bindLayerListenerRecord r s =
    (let vs = layer_overlays s (ls_layer r); hs = [mp_fresh s..<mp_fresh s + length vs]
     in (r\<lparr>ls_bindings := hs\<rparr>, s\<lparr>gm_attached := filter (\<lambda>a. at_key a \<noteq> ls_key r) (gm_attached s) @ map2 (attach r) hs vs,
           mp_fresh := mp_fresh s + length vs\<rparr>))"
  unfolding bindLayerListenerRecord_def cleared_bindings [OF assms] Let_def layer_overlays_def
  by (cases "getLayerRecord s (ls_layer r)") simp_all

lemma listeners_core_cong:
  assumes "map record_of rs = map record_of qs"
  shows "map ls_key rs = map ls_key qs" "record_of ` set rs = record_of ` set qs"
proof -
  have "map (fst \<circ> record_of) rs = map (fst \<circ> record_of) qs" using arg_cong [OF assms, of "map fst"] by simp
  then show "map ls_key rs = map ls_key qs" by (simp add: record_of_def comp_def)
  show "record_of ` set rs = record_of ` set qs" using arg_cong [OF assms, of set] by simp
qed

text \<open>Binding a record again leaves the listeners of the others and attaches it last to every overlay of its layer.\<close>

lemma bind_record_core:
  assumes core: "listeners_core (ps @ r # rs) s" and ok: "overlays_ok s" and bind: "bindLayerListenerRecord r s = (r1, s1)"
  shows "listeners_core (ps @ r1 # rs) s1"
proof -
  let ?vs = "layer_overlays s (ls_layer r)"
  let ?hs = "[mp_fresh s..<mp_fresh s + length ?vs]"
  let ?old = "filter (\<lambda>a. at_key a \<noteq> ls_key r) (gm_attached s)"
  let ?new = "map2 (attach r) ?hs ?vs"
  have r: "r1 = r\<lparr>ls_bindings := ?hs\<rparr>" and s1: "s1 = s\<lparr>gm_attached := ?old @ ?new, mp_fresh := mp_fresh s + length ?vs\<rparr>"
    using bind bind_eq [OF core, of r] by (simp_all add: Let_def)
  have new: "at_handle ` set ?new = set ?hs" "a \<in> set ?new \<Longrightarrow> at_key a = ls_key r \<and> attachment_of a = record_of r \<and> at_overlay a < mp_fresh s" for a
  proof -
    show "at_handle ` set ?new = set ?hs" using attach_handles [of ?hs ?vs r] by (metis list.set_map length_upt add_diff_cancel_left')
    show "at_key a = ls_key r \<and> attachment_of a = record_of r \<and> at_overlay a < mp_fresh s" if "a \<in> set ?new"
    proof -
      from that obtain h v where "(h, v) \<in> set (zip ?hs ?vs)" "a = attach r h v" by auto
      then show ?thesis using overlays_ok_ids(2) [OF ok] set_zip_rightD by fastforce
    qed
  qed
  have same: "map record_of (ps @ r1 # rs) = map record_of (ps @ r # rs)" by (simp add: r record_of_def)
  have keys: "distinct (map ls_key (ps @ r # rs))" using listeners_coreD(2) [OF core] .
  have "distinct (map at_handle (?old @ ?new))"
  proof -
    have "distinct (map at_handle ?new)" using attach_handles [of ?hs ?vs r] by simp
    moreover have "at_handle ` set ?old \<inter> at_handle ` set ?new = {}" unfolding new(1) using listeners_coreD(5) [OF core] by fastforce
    ultimately show ?thesis unfolding map_append distinct_append set_map
      using distinct_map_filter [OF listeners_coreD(1) [OF core]] by blast
  qed
  moreover have "set (ls_bindings q) = at_handle ` {a \<in> set (?old @ ?new). at_key a = ls_key q}" if q: "q \<in> set (ps @ r1 # rs)" for q
  proof (cases "q = r1")
    case True
    have "{a \<in> set (?old @ ?new). at_key a = ls_key r} = set ?new" using new(2) by auto
    then show ?thesis using True new(1) by (simp add: r)
  next
    case False
    then have q: "q \<in> set (ps @ r # rs)" "q \<in> set ps \<union> set rs" using q by auto
    then have "ls_key q \<noteq> ls_key r" using keys by (auto simp: image_iff)
    then have "{a \<in> set (?old @ ?new). at_key a = ls_key q} = {a \<in> set (gm_attached s). at_key a = ls_key q}" using new(2) by auto
    then show ?thesis using listeners_coreD(4) [OF core q(1)] by simp
  qed
  moreover have "ls_key q < mp_fresh s + length ?vs" if "q \<in> set (ps @ r1 # rs)" for q
    using listeners_coreD(3) [OF core] that by (auto simp: r intro: trans_less_add1)
  moreover have "at_handle a < mp_fresh s + length ?vs \<and> at_overlay a < mp_fresh s + length ?vs \<and> attachment_of a \<in> record_of ` set (ps @ r1 # rs)"
    if a: "a \<in> set (?old @ ?new)" for a
    unfolding listeners_core_cong(2) [OF same]
  proof (cases "a \<in> set ?new")
    case True
    then have "at_handle a \<in> set ?hs" using new(1) by blast
    then show "at_handle a < mp_fresh s + length ?vs \<and> at_overlay a < mp_fresh s + length ?vs \<and> attachment_of a \<in> record_of ` set (ps @ r # rs)"
      using new(2) [OF True] by simp
  next
    case False
    then have "a \<in> set (gm_attached s)" using a by auto
    then show "at_handle a < mp_fresh s + length ?vs \<and> at_overlay a < mp_fresh s + length ?vs \<and> attachment_of a \<in> record_of ` set (ps @ r # rs)"
      using listeners_coreD(5,6,7) [OF core] by (metis image_eqI trans_less_add1)
  qed
  moreover have "distinct (map ls_key (ps @ r1 # rs))" using keys unfolding listeners_core_cong(1) [OF same] .
  ultimately show ?thesis unfolding listeners_core_def by (simp add: s1)
qed

lemma bind_record_bound:
  assumes core: "listeners_core (ps @ r # rs) s" and ok: "overlays_ok s" and bind: "bindLayerListenerRecord r s = (r1, s1)"
  shows "bound_to ps (ls_layer r) s \<Longrightarrow> bound_to (ps @ [r1]) (ls_layer r) s1"
    "m \<noteq> ls_layer r \<Longrightarrow> bound_to (ps @ r # rs) m s \<Longrightarrow> bound_to (ps @ r1 # rs) m s1"
proof -
  let ?vs = "layer_overlays s (ls_layer r)"
  let ?hs = "[mp_fresh s..<mp_fresh s + length ?vs]"
  have r: "r1 = r\<lparr>ls_bindings := ?hs\<rparr>" and s1: "s1 = s\<lparr>gm_attached := filter (\<lambda>a. at_key a \<noteq> ls_key r) (gm_attached s) @ map2 (attach r) ?hs ?vs,
      mp_fresh := mp_fresh s + length ?vs\<rparr>"
    using bind bind_eq [OF core, of r] by (simp_all add: Let_def)
  have at: "bound_at i s1 = filter (\<lambda>p. fst p \<noteq> ls_key r) (bound_at i s) @
      map (\<lambda>a. (at_key a, at_feature a)) (filter (\<lambda>a. at_overlay a = i) (map2 (attach r) ?hs ?vs))" for i
    by (simp add: s1 bound_at_def filter_map comp_def conj_commute)
  have same: "layer_overlays s1 m = layer_overlays s m" for m by (simp add: layer_overlays_def s1)
  have keys: "ls_key q \<noteq> ls_key r" if "q \<in> set ps \<union> set rs" for q
    using listeners_coreD(2) [OF core] that by (auto simp: image_iff)
  show "bound_to (ps @ [r1]) (ls_layer r) s1" if mine: "bound_to ps (ls_layer r) s"
    unfolding bound_to_def same
  proof
    fix v assume v: "v \<in> set ?vs"
    have "filter (\<lambda>p. fst p \<noteq> ls_key r) (bound_at (ov_id v) s) = bound_at (ov_id v) s"
      using mine v keys by (auto simp: bound_to_def filter_id_conv)
    then show "bound_at (ov_id v) s1 = map (\<lambda>q. (ls_key q, ov_feature v)) (filter (\<lambda>q. ls_layer q = ls_layer r) (ps @ [r1]))"
      using mine v attach_one [OF overlays_ok_ids(1) [OF ok] v, of ?hs r] unfolding at by (simp add: bound_to_def r)
  qed
  show "bound_to (ps @ r1 # rs) m s1" if m: "m \<noteq> ls_layer r" and others: "bound_to (ps @ r # rs) m s"
    unfolding bound_to_def same
  proof
    fix v assume v: "v \<in> set (layer_overlays s m)"
    have "fst p \<noteq> ls_key r" if "p \<in> set (bound_at (ov_id v) s)" for p
      using that others v keys m by (auto simp: bound_to_def)
    then have "filter (\<lambda>p. fst p \<noteq> ls_key r) (bound_at (ov_id v) s) = bound_at (ov_id v) s" by (simp add: filter_id_conv)
    moreover have "filter (\<lambda>a. at_overlay a = ov_id v) (map2 (attach r) ?hs ?vs) = []"
      using overlays_ok_ids(3) [OF ok m v] by (rule attach_none)
    ultimately show "bound_at (ov_id v) s1 = map (\<lambda>q. (ls_key q, ov_feature v)) (filter (\<lambda>q. ls_layer q = m) (ps @ r1 # rs))"
      using others v m unfolding at by (simp add: bound_to_def r)
  qed
qed

lemma bind_record_frame:
  "bindLayerListenerRecord r s = (r1, s1) \<Longrightarrow>
    (\<exists>att n. s1 = s\<lparr>gm_attached := att, mp_fresh := n\<rparr> \<and> mp_fresh s \<le> n) \<and> record_of r1 = record_of r \<and> ls_layer r1 = ls_layer r \<and> ls_event r1 = ls_event r"
  unfolding bindLayerListenerRecord_def clearLayerBindings_def record_of_def
  by (cases "getLayerRecord s (ls_layer r)") (auto simp: Let_def intro!: exI)

text \<open>The part of the state that binding changes.\<close>

definition rebound :: "map_state \<Rightarrow> map_state \<Rightarrow> bool" where
  "rebound s t \<longleftrightarrow> (\<exists>att n. t = s\<lparr>gm_attached := att, mp_fresh := n\<rparr> \<and> mp_fresh s \<le> n)"

lemma rebound_refl [simp]: "rebound s s"
  unfolding rebound_def by (rule exI [of _ "gm_attached s"], rule exI [of _ "mp_fresh s"]) simp

lemma rebound_trans: "rebound s t \<Longrightarrow> rebound t u \<Longrightarrow> rebound s u"
  unfolding rebound_def by (elim exE conjE) (rule exI, rule exI, auto)

lemma rebound_get: "rebound s t \<Longrightarrow> getLayerRecord t m = getLayerRecord s m"
  by (auto simp: rebound_def)

lemma rebound_overlays: "rebound s t \<Longrightarrow> layer_overlays t m = layer_overlays s m"
  by (simp add: layer_overlays_def rebound_get)

lemma rebound_ok: "rebound s t \<Longrightarrow> overlays_ok s \<Longrightarrow> overlays_ok t"
  unfolding rebound_def by (elim exE conjE) (rule overlays_ok_same [of s], simp_all)

lemma rebind_records_ok:
  assumes "listeners_core (ps @ rs) s" "overlays_ok s" "bound_to ps lid s" "\<And>m. m \<noteq> lid \<Longrightarrow> bound_to (ps @ rs) m s"
    and "rebind_records lid rs s = (rs1, s1)"
  shows "listeners_core (ps @ rs1) s1 \<and> (\<forall>m. bound_to (ps @ rs1) m s1) \<and> rebound s s1"
  using assms
proof (induction rs arbitrary: ps s rs1)
  case Nil
  have "bound_to ps m s" for m using Nil.prems(3,4) by (cases "m = lid") simp_all
  then show ?case using Nil.prems by simp
next
  case (Cons r rs)
  obtain r1 t where b: "(if ls_layer r = lid then bindLayerListenerRecord r s else (r, s)) = (r1, t)" by (rule prod.exhaust)
  obtain rs2 where rs2: "rebind_records lid rs t = (rs2, s1)" "rs1 = r1 # rs2"
    using Cons.prems(5) b by (simp add: Let_def split: prod.splits)
  have t: "listeners_core ((ps @ [r1]) @ rs) t" "overlays_ok t" "bound_to (ps @ [r1]) lid t" "\<And>m. m \<noteq> lid \<Longrightarrow> bound_to ((ps @ [r1]) @ rs) m t" "rebound s t"
  proof -
    have "listeners_core ((ps @ [r1]) @ rs) t \<and> overlays_ok t \<and> bound_to (ps @ [r1]) lid t \<and>
        (\<forall>m. m \<noteq> lid \<longrightarrow> bound_to ((ps @ [r1]) @ rs) m t) \<and> rebound s t"
    proof (cases "ls_layer r = lid")
      case True
      then have b: "bindLayerListenerRecord r s = (r1, t)" using b by simp
      have "rebound s t" using bind_record_frame [OF b] by (simp add: rebound_def)
      then show ?thesis
        using bind_record_core [OF Cons.prems(1,2) b] bind_record_bound [OF Cons.prems(1,2) b] Cons.prems(3,4) True rebound_ok [OF _ Cons.prems(2)] by simp
    next
      case False
      then show ?thesis using b Cons.prems(1-4) by (simp add: bound_to_def)
    qed
    then show "listeners_core ((ps @ [r1]) @ rs) t" "overlays_ok t" "bound_to (ps @ [r1]) lid t"
      "\<And>m. m \<noteq> lid \<Longrightarrow> bound_to ((ps @ [r1]) @ rs) m t" "rebound s t" by blast+
  qed
  show ?case using Cons.IH [OF t(1-4) rs2(1)] rebound_trans [OF t(5)] by (simp add: rs2(2))
qed

text \<open>Rebinding a layer whose overlays are new, so that nothing is attached to them yet.\<close>

lemma rebind_layer_ok:
  assumes core: "listeners_core (mp_listeners s) s" and ok: "overlays_ok s"
    and new: "\<And>v. v \<in> set (layer_overlays s lid) \<Longrightarrow> bound_at (ov_id v) s = []"
    and others: "\<And>m. m \<noteq> lid \<Longrightarrow> bound_to (mp_listeners s) m s"
  shows "listeners_ok (rebindLayerListeners lid s)" "overlays_ok (rebindLayerListeners lid s)"
    "\<exists>att n rs. rebindLayerListeners lid s = s\<lparr>gm_attached := att, mp_fresh := n, mp_listeners := rs\<rparr> \<and> mp_fresh s \<le> n"
proof -
  obtain rs t where r: "rebind_records lid (mp_listeners s) s = (rs, t)" by (rule prod.exhaust)
  have "bound_to [] lid s" using new by (simp add: bound_to_def)
  then have t: "listeners_core rs t" "\<forall>m. bound_to rs m t" "rebound s t"
    using rebind_records_ok [of "[]" "mp_listeners s" s lid rs t] core ok others r by simp_all
  have eq: "rebindLayerListeners lid s = t\<lparr>mp_listeners := rs\<rparr>" by (simp add: rebindLayerListeners_def r)
  show "listeners_ok (rebindLayerListeners lid s)" using t(1,2)
    by (simp add: eq listeners_ok_def listeners_core_def bound_to_def bound_at_def layer_overlays_def)
  show "overlays_ok (rebindLayerListeners lid s)" unfolding eq by (rule overlays_ok_same [OF rebound_ok [OF t(3) ok]]) simp_all
  show "\<exists>att n rs. rebindLayerListeners lid s = s\<lparr>gm_attached := att, mp_fresh := n, mp_listeners := rs\<rparr> \<and> mp_fresh s \<le> n"
    using t(3) unfolding eq rebound_def by (elim exE conjE) (rule exI, rule exI, rule exI [of _ rs], simp)
qed

section \<open>Clearing and drawing\<close>

text \<open>The part of the state that rendering keeps.\<close>

definition listener_key :: "layer_listener \<Rightarrow> (nat \<times> string \<times> handler) \<times> string \<times> string" where
  "listener_key r = (record_of r, ls_layer r, ls_event r)"

definition same_registry :: "map_state \<Rightarrow> map_state \<Rightarrow> bool" where
  "same_registry s t \<longleftrightarrow> mp_sources t = mp_sources s \<and> mp_featureStates t = mp_featureStates s \<and> mp_order t = mp_order s \<and>
     gm_zoom t = gm_zoom s \<and> gm_calls t = gm_calls s \<and> map fst (mp_layers t) = map fst (mp_layers s) \<and>
     map listener_key (mp_listeners t) = map listener_key (mp_listeners s) \<and> mp_fresh s \<le> mp_fresh t"

lemma same_registry_refl [simp]: "same_registry s s"
  by (simp add: same_registry_def)

lemma same_registry_trans: "same_registry s t \<Longrightarrow> same_registry t u \<Longrightarrow> same_registry s u"
  by (simp add: same_registry_def)

lemma set_layer_keys: "getLayerRecord s lid \<noteq> None \<Longrightarrow> map fst (mp_layers (set_layer lid l s)) = map fst (mp_layers s)"
  by (auto simp: set_layer_def getLayerRecord_def update_keys map_of_eq_None_iff)

lemma get_clear [simp]:
  "getLayerRecord (clearLayerOverlays lid s) m =
     (if m = lid then map_option (\<lambda>l. l\<lparr>ly_overlays := [], ly_rendered := []\<rparr>) (getLayerRecord s lid) else getLayerRecord s m)"
  by (simp add: clearLayerOverlays_def split: option.split)

lemma clear_sel [simp]:
  "mp_sources (clearLayerOverlays lid s) = mp_sources s" "mp_featureStates (clearLayerOverlays lid s) = mp_featureStates s"
  "mp_order (clearLayerOverlays lid s) = mp_order s" "mp_listeners (clearLayerOverlays lid s) = mp_listeners s"
  "mp_fresh (clearLayerOverlays lid s) = mp_fresh s" "gm_zoom (clearLayerOverlays lid s) = gm_zoom s"
  "gm_attached (clearLayerOverlays lid s) = gm_attached s" "gm_calls (clearLayerOverlays lid s) = gm_calls s"
  by (simp_all add: clearLayerOverlays_def split: option.split)

lemma clear_keys [simp]: "map fst (mp_layers (clearLayerOverlays lid s)) = map fst (mp_layers s)"
  by (cases "getLayerRecord s lid") (simp_all add: clearLayerOverlays_def set_layer_keys)

lemma clear_registry: "same_registry s (clearLayerOverlays lid s)"
  by (simp add: same_registry_def)

lemma clear_overlays:
  "layer_overlays (clearLayerOverlays lid s) m = (if m = lid then [] else layer_overlays s m)"
  by (simp add: layer_overlays_def split: option.split)

lemma clear_ok:
  assumes "overlays_ok s"
  shows "overlays_ok (clearLayerOverlays lid s)"
proof (cases "getLayerRecord s lid")
  case None
  then show ?thesis using assms by (simp add: clearLayerOverlays_def)
next
  case (Some l)
  show ?thesis
    by (rule overlays_ok_replace [OF assms Some, where n = "mp_fresh s" and ?l1.0 = "l\<lparr>ly_overlays := [], ly_rendered := []\<rparr>"])
      (simp_all add: Some layer_ok_def overlay_ids_def clearLayerOverlays_def)
qed

text \<open>Listeners stay as they are when only overlays of a layer disappear.\<close>

lemma listeners_fewer:
  assumes "listeners_ok s" "gm_attached t = gm_attached s" "mp_listeners t = mp_listeners s" "mp_fresh t = mp_fresh s"
    "\<And>m v. v \<in> set (layer_overlays t m) \<Longrightarrow> \<exists>w \<in> set (layer_overlays s m). ov_id w = ov_id v \<and> ov_feature w = ov_feature v"
  shows "listeners_ok t"
proof -
  have "listeners_core (mp_listeners t) t" using assms(1) by (simp add: listeners_ok_def listeners_core_def assms(2-4))
  moreover have "bound_to (mp_listeners t) m t" for m
    unfolding bound_to_def
  proof
    fix v assume "v \<in> set (layer_overlays t m)"
    then obtain w where w: "w \<in> set (layer_overlays s m)" "ov_id w = ov_id v" "ov_feature w = ov_feature v" using assms(5) by blast
    then have "bound_at (ov_id w) s = map (\<lambda>r. (ls_key r, ov_feature w)) (filter (\<lambda>r. ls_layer r = m) (mp_listeners s))"
      using assms(1) unfolding listeners_ok_def bound_to_def by blast
    then show "bound_at (ov_id v) t = map (\<lambda>r. (ls_key r, ov_feature v)) (filter (\<lambda>r. ls_layer r = m) (mp_listeners t))"
      unfolding w(2,3) by (simp add: bound_at_def assms(2,3))
  qed
  ultimately show ?thesis by (simp add: listeners_ok_def)
qed

lemma clear_listeners: "listeners_ok s \<Longrightarrow> listeners_ok (clearLayerOverlays lid s)"
  by (erule listeners_fewer) (auto simp: clear_overlays split: if_splits)

lemma not_attached:
  assumes "listeners_core rs s" "mp_fresh s \<le> i"
  shows "bound_at i s = []"
  using listeners_coreD(6) [OF assms(1)] assms(2) by (force simp: bound_at_def filter_empty_conv)

lemma new_overlay_sel [simp]:
  "ov_id (new_overlay str pal s sid lid l k p) = k" "ov_shape (new_overlay str pal s sid lid l k p) = fst p"
  "ov_feature (new_overlay str pal s sid lid l k p) = enrichLayerFeature str s sid lid (ly_type l) (snd p)"
  "ov_zIndex (new_overlay str pal s sid lid l k p) = getLayerZIndex s lid"
  "ov_style (new_overlay str pal s sid lid l k p) = layer_style str pal (gm_zoom s) l (enrichLayerFeature str s sid lid (ly_type l) (snd p))"
  by (simp_all add: new_overlay_def Let_def)

definition new_overlays :: "(sv \<Rightarrow> string) \<Rightarrow> palette \<Rightarrow> map_state \<Rightarrow> string \<Rightarrow> string \<Rightarrow> layer_record \<Rightarrow> (overlay_shape \<times> feature) list \<Rightarrow> overlay list" where
  "new_overlays str pal s sid lid l shapes = map2 (new_overlay str pal s sid lid l) [mp_fresh s..<mp_fresh s + length shapes] shapes"

lemma new_overlays_map:
  "map ov_id (new_overlays str pal s sid lid l shapes) = [mp_fresh s..<mp_fresh s + length shapes]"
  "map (\<lambda>v. (ov_shape v, ov_feature v)) (new_overlays str pal s sid lid l shapes) =
     map (\<lambda>p. (fst p, enrichLayerFeature str s sid lid (ly_type l) (snd p))) shapes"
  "\<forall>v \<in> set (new_overlays str pal s sid lid l shapes). ov_zIndex v = getLayerZIndex s lid \<and>
     ov_style v = layer_style str pal (gm_zoom s) l (ov_feature v) \<and> rf_layer (ov_feature v) = lid \<and> rf_type (ov_feature v) = ly_type l"
proof -
  show "map ov_id (new_overlays str pal s sid lid l shapes) = [mp_fresh s..<mp_fresh s + length shapes]"
    by (simp add: new_overlays_def comp_def case_prod_unfold)
  show "map (\<lambda>v. (ov_shape v, ov_feature v)) (new_overlays str pal s sid lid l shapes) =
     map (\<lambda>p. (fst p, enrichLayerFeature str s sid lid (ly_type l) (snd p))) shapes"
    by (rule nth_equalityI) (simp_all add: new_overlays_def case_prod_unfold)
qed (auto simp: new_overlays_def enrichLayerFeature_def)

lemma draw_eq:
  assumes "getLayerRecord s lid = Some l" "ly_overlays l = []" "ly_rendered l = []"
  shows "draw_overlays str pal sid lid shapes s =
    (let vs = new_overlays str pal s sid lid l shapes
     in (set_layer lid (l\<lparr>ly_overlays := vs, ly_rendered := map ov_feature vs\<rparr>) s)
          \<lparr>gm_drawn := (if getLayerVisibility l then gm_drawn s \<union> set [mp_fresh s..<mp_fresh s + length shapes] else gm_drawn s),
           mp_fresh := mp_fresh s + length shapes\<rparr>)"
  using assms by (simp add: draw_overlays_def new_overlays_def Let_def)

text \<open>
  What rendering one layer achieves: the overlays are those of the features, each with the style and the index of the
  layer, and overlays and listeners are consistent again.
\<close>

definition current_layer :: "(sv \<Rightarrow> string) \<Rightarrow> palette \<Rightarrow> map_state \<Rightarrow> string \<Rightarrow> layer_record \<Rightarrow> bool" where
  "current_layer str pal s lid l \<longleftrightarrow>
     (\<forall>v \<in> set (ly_overlays l). ov_zIndex v = getLayerZIndex s lid \<and> ov_style v = layer_style str pal (gm_zoom s) l (ov_feature v))"

definition wanted_of :: "(sv \<Rightarrow> string) \<Rightarrow> map_state \<Rightarrow> string \<Rightarrow> layer_record \<Rightarrow> (overlay_shape \<times> rendered) list" where
  "wanted_of str s lid l =
     (case ly_source l of
        None \<Rightarrow> []
      | Some sid \<Rightarrow>
          (case getSourceRecord s sid of
             None \<Rightarrow> []
           | Some src \<Rightarrow> map (\<lambda>p. (fst p, enrichLayerFeature str s sid lid (ly_type l) (snd p))) (shapes_of l (so_data src))))"

definition shown_of :: "layer_record \<Rightarrow> (overlay_shape \<times> rendered) list" where
  "shown_of l = map (\<lambda>v. (ov_shape v, ov_feature v)) (ly_overlays l)"

lemma rerender_cases:
  assumes l: "getLayerRecord s lid = Some l"
  defines "s1 \<equiv> clearLayerOverlays lid s"
  obtains (none) "rerenderLayer str pal lid s = s1" "wanted_of str s lid l = []"
  | (empty) "rerenderLayer str pal lid s = rebindLayerListeners lid s1" "wanted_of str s lid l = []"
  | (some) sid and src :: source_record where "rerenderLayer str pal lid s = rebindLayerListeners lid (draw_overlays str pal sid lid (shapes_of l (so_data src)) s1)"
      "wanted_of str s lid l = map (\<lambda>p. (fst p, enrichLayerFeature str s sid lid (ly_type l) (snd p))) (shapes_of l (so_data src))"
      "ly_type l \<in> {''line'', ''circle'', ''fill''}"
proof (cases "ly_type l \<in> {''line'', ''circle'', ''fill''}")
  case False
  then have "shapes_of l fs = []" for fs by (simp add: shapes_of_def)
  then have "wanted_of str s lid l = []" by (simp add: wanted_of_def split: option.split)
  moreover have "rerenderLayer str pal lid s = rebindLayerListeners lid s1" using False l by (simp add: rerenderLayer_def s1_def)
  ultimately show ?thesis using empty by blast
next
  case True
  obtain shapes where as: "rerenderLayer str pal lid s = rerender_as str pal (ly_type l) shapes lid s"
    "\<And>fs. shapes_of l fs = shapes (ly_filter l) fs"
    using True l by (auto simp: rerenderLayer_def rerenderLineLayer_def rerenderCircleLayer_def rerenderFillLayer_def shapes_of_def)
  show ?thesis
  proof (cases "ly_source l = None \<or> getSourceRecord s (the (ly_source l)) = None")
    case True
    then have "rerenderLayer str pal lid s = s1 \<and> wanted_of str s lid l = []"
      using l by (cases "ly_source l") (simp_all add: as(1) rerender_as_def s1_def wanted_of_def)
    then show ?thesis using none by blast
  next
    case False
    then obtain sid src where src: "ly_source l = Some sid" "getSourceRecord s sid = Some src" by auto
    show ?thesis
    proof (cases "shapes_of l (so_data src) = []")
      case True
      then show ?thesis using empty l src by (auto simp: as rerender_as_def s1_def wanted_of_def Let_def)
    next
      case False
      then show ?thesis using some [of sid src] l src \<open>ly_type l \<in> _\<close>
        by (auto simp: as rerender_as_def s1_def wanted_of_def Let_def)
    qed
  qed
qed

lemma rebound_registry:
  assumes "rebind_records lid rs s = (rs1, t)"
  shows "map listener_key rs1 = map listener_key rs"
  using assms
proof (induction rs arbitrary: s rs1)
  case (Cons r rs)
  obtain r1 s1 where b: "(if ls_layer r = lid then bindLayerListenerRecord r s else (r, s)) = (r1, s1)" by (rule prod.exhaust)
  then have "listener_key r1 = listener_key r" unfolding listener_key_def using bind_record_frame [of r s r1 s1] by (cases "ls_layer r = lid") auto
  moreover obtain rs2 where "rebind_records lid rs s1 = (rs2, t)" "rs1 = r1 # rs2"
    using Cons.prems b by (simp add: Let_def split: prod.splits)
  ultimately show ?case using Cons.IH by simp
qed simp

lemma rebind_registry:
  assumes "listeners_ok (rebindLayerListeners lid s)"
    "\<exists>att n rs. rebindLayerListeners lid s = s\<lparr>gm_attached := att, mp_fresh := n, mp_listeners := rs\<rparr> \<and> mp_fresh s \<le> n"
  shows "same_registry s (rebindLayerListeners lid s)" "getLayerRecord (rebindLayerListeners lid s) m = getLayerRecord s m"
proof -
  obtain rs t where r: "rebind_records lid (mp_listeners s) s = (rs, t)" by (rule prod.exhaust)
  have "mp_listeners (rebindLayerListeners lid s) = rs" by (simp add: rebindLayerListeners_def r)
  then show "same_registry s (rebindLayerListeners lid s)"
    using assms(2) rebound_registry [OF r] by (auto simp: same_registry_def)
  show "getLayerRecord (rebindLayerListeners lid s) m = getLayerRecord s m" using assms(2) by auto
qed

text \<open>Rendering a layer, from a consistent state to a consistent one.\<close>

definition rendered_from :: "(sv \<Rightarrow> string) \<Rightarrow> palette \<Rightarrow> map_state \<Rightarrow> string \<Rightarrow> map_state \<Rightarrow> bool" where
  "rendered_from str pal s lid t \<longleftrightarrow> overlays_ok t \<and> listeners_ok t \<and> same_registry s t \<and>
     (\<forall>m. m \<noteq> lid \<longrightarrow> getLayerRecord t m = getLayerRecord s m) \<and>
     (\<forall>l. getLayerRecord s lid = Some l \<longrightarrow>
       (\<exists>vs. getLayerRecord t lid = Some (l\<lparr>ly_overlays := vs, ly_rendered := map ov_feature vs\<rparr>) \<and>
          current_layer str pal s lid (l\<lparr>ly_overlays := vs\<rparr>) \<and> map (\<lambda>v. (ov_shape v, ov_feature v)) vs = wanted_of str s lid l))"

lemma draw_ok:
  assumes ok: "overlays_ok s" and li: "listeners_ok s" and l: "getLayerRecord s lid = Some l" "ly_overlays l = []" "ly_rendered l = []"
    and kind: "ly_type l \<in> {''line'', ''circle'', ''fill''}"
    and t_def: "t = draw_overlays str pal sid lid shapes s"
  shows "overlays_ok t" "listeners_core (mp_listeners t) t" "v \<in> set (layer_overlays t lid) \<Longrightarrow> bound_at (ov_id v) t = []"
    "m \<noteq> lid \<Longrightarrow> bound_to (mp_listeners t) m t" "same_registry s t"
    "getLayerRecord t m = (if m = lid then Some (l\<lparr>ly_overlays := new_overlays str pal s sid lid l shapes,
        ly_rendered := map ov_feature (new_overlays str pal s sid lid l shapes)\<rparr>) else getLayerRecord s m)"
proof -
  let ?vs = "new_overlays str pal s sid lid l shapes"
  let ?l = "l\<lparr>ly_overlays := ?vs, ly_rendered := map ov_feature ?vs\<rparr>"
  have t: "t = (set_layer lid ?l s)\<lparr>gm_drawn := (if getLayerVisibility l then gm_drawn s \<union> set [mp_fresh s..<mp_fresh s + length shapes] else gm_drawn s),
      mp_fresh := mp_fresh s + length shapes\<rparr>"
    unfolding t_def draw_eq [OF l] by (simp add: Let_def)
  show get: "getLayerRecord t m = (if m = lid then Some ?l else getLayerRecord s m)" for m by (simp add: t)
  have ids: "overlay_ids ?l = [mp_fresh s..<mp_fresh s + length shapes]" by (simp add: overlay_ids_def new_overlays_map(1))
  have vis: "getLayerVisibility ?l = getLayerVisibility l" by (simp add: getLayerVisibility_def)
  show "overlays_ok t"
    by (rule overlays_ok_replace [OF ok l(1), where n = "mp_fresh s + length shapes" and ?l1.0 = ?l])
      (use kind l(2) new_overlays_map(3) [of str pal s sid lid l shapes] in
        \<open>auto simp: get ids vis layer_ok_def t overlay_ids_def [of l]\<close>)
  have core: "listeners_core (mp_listeners s) s" using li by (simp add: listeners_ok_def)
  then show "listeners_core (mp_listeners t) t" by (auto simp: listeners_core_def t intro: trans_less_add1)
  have at: "bound_at i t = bound_at i s" for i by (simp add: bound_at_def t)
  have lay: "layer_overlays t m = (if m = lid then ?vs else layer_overlays s m)" for m by (simp add: layer_overlays_def get)
  show "m \<noteq> lid \<Longrightarrow> bound_to (mp_listeners t) m t"
    using li unfolding bound_to_def at by (simp add: lay listeners_ok_def bound_to_def) (simp add: t)
  have "mp_fresh s \<le> ov_id v" if "v \<in> set ?vs"
    using that new_overlays_map(1) [of str pal s sid lid l shapes] by (metis atLeastLessThan_iff image_eqI list.set_map set_upt)
  then show "v \<in> set (layer_overlays t lid) \<Longrightarrow> bound_at (ov_id v) t = []"
    using not_attached [OF core] by (simp add: lay at)
  show "same_registry s t" using l(1) by (simp add: same_registry_def t set_layer_keys)
qed

lemma enrich_cong:
  "mp_featureStates t = mp_featureStates s \<Longrightarrow> enrichLayerFeature str t sid lid kind f = enrichLayerFeature str s sid lid kind f"
  by (simp add: enrichLayerFeature_def readFeatureState_def)

lemma zindex_cong: "mp_order t = mp_order s \<Longrightarrow> getLayerZIndex t lid = getLayerZIndex s lid"
  by (simp add: getLayerZIndex_def)

lemma layer_style_cong:
  "ly_type k = ly_type l \<Longrightarrow> ly_paint k = ly_paint l \<Longrightarrow> layer_style str pal z k f = layer_style str pal z l f"
  by (simp add: layer_style_def)

lemma rerender_ok:
  assumes ok: "overlays_ok s" and li: "listeners_ok s"
  shows "rendered_from str pal s lid (rerenderLayer str pal lid s)"
proof (cases "getLayerRecord s lid")
  case None
  then show ?thesis using assms by (simp add: rendered_from_def rerenderLayer_def)
next
  case (Some l)
  let ?s = "clearLayerOverlays lid s"
  let ?l = "l\<lparr>ly_overlays := [], ly_rendered := []\<rparr>"
  note cl = clear_ok [OF ok] clear_listeners [OF li]
  have l: "getLayerRecord ?s lid = Some ?l" by (simp add: Some)
  have rebind: "rendered_from str pal s lid (rebindLayerListeners lid u)"
    if u: "overlays_ok u" "listeners_core (mp_listeners u) u" "\<And>v. v \<in> set (layer_overlays u lid) \<Longrightarrow> bound_at (ov_id v) u = []"
      "\<And>m. m \<noteq> lid \<Longrightarrow> bound_to (mp_listeners u) m u" "same_registry ?s u"
      "\<And>m. m \<noteq> lid \<Longrightarrow> getLayerRecord u m = getLayerRecord s m"
      "getLayerRecord u lid = Some (l\<lparr>ly_overlays := vs, ly_rendered := map ov_feature vs\<rparr>)"
      "current_layer str pal s lid (l\<lparr>ly_overlays := vs\<rparr>)" "map (\<lambda>v. (ov_shape v, ov_feature v)) vs = wanted_of str s lid l" for u vs
  proof -
    note r = rebind_layer_ok [OF u(2,1,3,4)]
    show ?thesis unfolding rendered_from_def using r(1,2) rebind_registry [OF r(1,3)] u(6,7,8,9) Some
        same_registry_trans [OF same_registry_trans [OF clear_registry u(5)]] by auto
  qed
  from Some show ?thesis
  proof (cases rule: rerender_cases [where str = str and pal = pal])
    case none
    then show ?thesis using cl clear_registry Some by (simp add: rendered_from_def current_layer_def)
  next
    case empty
    show ?thesis unfolding empty(1)
      by (rule rebind [where vs = "[]"])
        (use cl empty(2) Some in \<open>simp_all add: listeners_ok_def current_layer_def clear_overlays\<close>)
  next
    case (some sid src)
    let ?shapes = "shapes_of l (so_data src)"
    let ?vs = "new_overlays str pal ?s sid lid ?l ?shapes"
    note d = draw_ok [OF cl l _ _ _ refl, where str = str and pal = pal and sid = sid and shapes = ?shapes, simplified, OF some(3) [simplified]]
    show ?thesis unfolding some(1)
    proof (rule rebind [where vs = ?vs])
      show "current_layer str pal s lid (l\<lparr>ly_overlays := ?vs\<rparr>)"
        using new_overlays_map(3) [of str pal ?s sid lid ?l ?shapes]
        by (simp add: current_layer_def zindex_cong [of ?s s] layer_style_cong [of ?l l] layer_style_cong [of "l\<lparr>ly_overlays := ?vs\<rparr>" l])
      show "map (\<lambda>v. (ov_shape v, ov_feature v)) ?vs = wanted_of str s lid l"
        unfolding some(2) new_overlays_map(2) by (simp add: enrich_cong [of ?s s])
    qed (use d Some in simp_all)
  qed
qed

section \<open>Styles and visibility\<close>

lemma drawn_layer:
  assumes "overlays_ok s" "getLayerRecord s lid = Some l"
  shows "gm_drawn s = (gm_drawn s - set (overlay_ids l)) \<union> (if getLayerVisibility l then set (overlay_ids l) else {})"
proof -
  have "shown_others lid s \<inter> set (overlay_ids l) = {}" using overlays_okD(5) [OF assms] by (fastforce simp: shown_others_def)
  then show ?thesis using overlays_ok_drawn [OF assms(1)] shown_split [OF assms(2)] by auto
qed

text \<open>A state with the same layers but other styles and indices of their overlays.\<close>

definition same_shown :: "layer_record \<Rightarrow> layer_record \<Rightarrow> bool" where
  "same_shown l k \<longleftrightarrow> (\<exists>vs. k = l\<lparr>ly_overlays := vs\<rparr> \<and> map ov_id vs = overlay_ids l \<and>
     map (\<lambda>v. (ov_shape v, ov_feature v)) vs = shown_of l \<and> map ov_feature vs = map ov_feature (ly_overlays l))"

definition restyled :: "map_state \<Rightarrow> map_state \<Rightarrow> bool" where
  "restyled s t \<longleftrightarrow> overlays_ok t \<and> listeners_ok t \<and> same_registry s t \<and>
     (\<forall>m. rel_option same_shown (getLayerRecord s m) (getLayerRecord t m))"

lemma same_shown_refl [simp]: "same_shown l l"
  unfolding same_shown_def by (rule exI [of _ "ly_overlays l"]) (simp add: overlay_ids_def shown_of_def)

lemma same_shown_trans: "same_shown l k \<Longrightarrow> same_shown k j \<Longrightarrow> same_shown l j"
  unfolding same_shown_def overlay_ids_def shown_of_def by (elim exE conjE) (rule exI, auto)

lemma restyled_refl: "overlays_ok s \<Longrightarrow> listeners_ok s \<Longrightarrow> restyled s s"
  by (simp add: restyled_def option.rel_refl)

lemma restyled_trans:
  assumes "restyled s t" "restyled t u"
  shows "restyled s u"
  unfolding restyled_def
proof (intro conjI allI)
  fix m
  have "rel_option same_shown (getLayerRecord s m) (getLayerRecord t m)" "rel_option same_shown (getLayerRecord t m) (getLayerRecord u m)"
    using assms by (simp_all add: restyled_def)
  then show "rel_option same_shown (getLayerRecord s m) (getLayerRecord u m)"
    by (cases "getLayerRecord s m"; cases "getLayerRecord t m"; cases "getLayerRecord u m") (auto intro: same_shown_trans)
qed (use assms same_registry_trans [of s t u] in \<open>simp_all add: restyled_def\<close>)

definition restyle :: "(sv \<Rightarrow> string) \<Rightarrow> palette \<Rightarrow> map_state \<Rightarrow> string \<Rightarrow> layer_record \<Rightarrow> layer_record" where
  "restyle str pal s lid l = l\<lparr>ly_overlays := map (\<lambda>v. v\<lparr>ov_style := layer_style str pal (gm_zoom s) l (ov_feature v),
     ov_zIndex := getLayerZIndex s lid\<rparr>) (ly_overlays l)\<rparr>"

lemma restyle_shown: "same_shown l (restyle str pal s lid l)"
  unfolding same_shown_def restyle_def by (rule exI, rule conjI, rule refl) (simp add: overlay_ids_def shown_of_def comp_def)

lemma style_eq:
  assumes "overlays_ok s" "getLayerRecord s lid = Some l"
  shows "applyLayerStyle str pal lid s = set_layer lid (restyle str pal s lid l) s"
proof (cases "ly_type l \<in> {''line'', ''circle'', ''fill''}")
  case True
  then show ?thesis using assms(2) by (auto simp: applyLayerStyle_def restyle_def)
next
  case False
  then have "ly_overlays l = []" using assms by (auto simp: overlays_ok_def layer_ok_def)
  then have "restyle str pal s lid l = l" by (simp add: restyle_def)
  moreover have "set_layer lid l s = s" using assms(2) by (simp add: set_layer_def getLayerRecord_def AList_update_same)
  ultimately show ?thesis using False assms(2) by (simp add: applyLayerStyle_def)
qed

lemma style_get:
  assumes "overlays_ok s"
  shows "getLayerRecord (applyLayerStyle str pal lid s) m =
    (if m = lid then map_option (restyle str pal s lid) (getLayerRecord s lid) else getLayerRecord s m)"
proof (cases "getLayerRecord s lid")
  case None
  then show ?thesis by (simp add: applyLayerStyle_def)
qed (simp add: style_eq [OF assms])

lemma style_ok:
  assumes ok: "overlays_ok s" and li: "listeners_ok s"
  shows "restyled s (applyLayerStyle str pal lid s)"
proof (cases "getLayerRecord s lid")
  case None
  then show ?thesis using restyled_refl [OF assms] by (simp add: applyLayerStyle_def)
next
  case (Some l)
  let ?k = "restyle str pal s lid l"
  let ?t = "set_layer lid ?k s"
  have ids: "overlay_ids ?k = overlay_ids l" "getLayerVisibility ?k = getLayerVisibility l"
    by (simp_all add: restyle_def overlay_ids_def getLayerVisibility_def comp_def)
  have lo: "layer_ok (mp_fresh s) lid ?k"
    using ok Some ids by (auto simp: overlays_ok_def layer_ok_def restyle_def comp_def)
  have "overlays_ok ?t"
  proof (rule overlays_ok_replace [OF ok Some order_refl lo])
    show "gm_drawn ?t = (gm_drawn s - set (overlay_ids l)) \<union> (if getLayerVisibility ?k then set (overlay_ids ?k) else {})"
      unfolding ids set_layer_sel by (rule drawn_layer [OF ok Some])
  qed (simp_all add: ids)
  moreover have "listeners_ok ?t"
  proof (rule listeners_fewer [OF li])
    fix m v assume "v \<in> set (layer_overlays ?t m)"
    then show "\<exists>w \<in> set (layer_overlays s m). ov_id w = ov_id v \<and> ov_feature w = ov_feature v"
      using Some by (cases "m = lid") (auto simp: layer_overlays_def restyle_def)
  qed simp_all
  moreover have "same_registry s ?t" using Some by (simp add: same_registry_def set_layer_keys)
  moreover have "rel_option same_shown (getLayerRecord s m) (getLayerRecord ?t m)" for m
    using Some restyle_shown by (simp add: option.rel_refl)
  ultimately show ?thesis unfolding style_eq [OF ok Some] restyled_def by blast
qed

lemma layout_visible:
  "k \<noteq> ''visibility'' \<Longrightarrow> getLayerVisibility (l\<lparr>ly_layout := AList.update k v (ly_layout l)\<rparr>) = getLayerVisibility l"
  by (simp add: getLayerVisibility_def prop_at_def update_conv')

lemma layout_ok:
  fixes k :: string and v :: sv
  assumes ok: "overlays_ok s" and li: "listeners_ok s" and l: "getLayerRecord s lid = Some l"
  defines "l1 \<equiv> l\<lparr>ly_layout := AList.update k v (ly_layout l)\<rparr>" and "t \<equiv> setLayoutProperty lid k v s"
  shows "overlays_ok t" "listeners_ok t" "same_registry s t" "getLayerRecord t m = (if m = lid then Some l1 else getLayerRecord s m)"
proof -
  have ids: "overlay_ids l1 = overlay_ids l" by (simp add: l1_def overlay_ids_def)
  have t: "t = (if k = ''visibility'' then applyLayerVisibility lid (set_layer lid l1 s) else set_layer lid l1 s)"
    by (simp add: t_def setLayoutProperty_def l l1_def Let_def)
  show get: "getLayerRecord t m = (if m = lid then Some l1 else getLayerRecord s m)" for m by (simp add: t applyLayerVisibility_def)
  have drawn: "gm_drawn t = (gm_drawn s - set (overlay_ids l)) \<union> (if getLayerVisibility l1 then set (overlay_ids l1) else {})"
  proof (cases "k = ''visibility''")
    case True
    then show ?thesis by (auto simp: t applyLayerVisibility_def ids)
  next
    case False
    then have "gm_drawn t = gm_drawn s" "getLayerVisibility l1 = getLayerVisibility l" by (simp_all add: t l1_def layout_visible)
    then show ?thesis using drawn_layer [OF ok l] by (simp only: ids)
  qed
  have rest: "gm_attached t = gm_attached s" "mp_listeners t = mp_listeners s" "mp_fresh t = mp_fresh s"
    by (simp_all add: t applyLayerVisibility_def)
  have "layer_ok (mp_fresh s) lid l1" using ok l ids by (auto simp: overlays_ok_def layer_ok_def l1_def)
  then show "overlays_ok t"
    by (rule overlays_ok_replace [OF ok l order_refl]) (use get rest drawn ids in simp_all)
  show "listeners_ok t"
    by (rule listeners_fewer [OF li rest]) (use l in \<open>auto simp: layer_overlays_def get l1_def split: if_splits\<close>)
  show "same_registry s t" using l by (simp add: same_registry_def t applyLayerVisibility_def set_layer_keys)
qed

section \<open>Adding and dropping listeners\<close>

lemma fold_clear_bindings:
  "fold clearLayerBindings qs s = s\<lparr>gm_attached := filter (\<lambda>a. \<forall>q \<in> set qs. at_handle a \<notin> set (ls_bindings q)) (gm_attached s)\<rparr>"
proof (induction qs arbitrary: s)
  case (Cons q qs)
  then show ?case by (simp add: clearLayerBindings_def conj_commute)
qed simp

lemma drop_eq:
  assumes core: "listeners_core (mp_listeners s) s"
  shows "drop_listeners P s = s\<lparr>gm_attached := filter (\<lambda>a. at_key a \<notin> ls_key ` set (filter P (mp_listeners s))) (gm_attached s),
    mp_listeners := filter (\<lambda>r. \<not> P r) (mp_listeners s)\<rparr>"
proof -
  have "(\<forall>q \<in> set (filter P (mp_listeners s)). at_handle a \<notin> set (ls_bindings q)) \<longleftrightarrow> at_key a \<notin> ls_key ` set (filter P (mp_listeners s))"
    if a: "a \<in> set (gm_attached s)" for a
  proof -
    have "at_handle a \<in> set (ls_bindings q) \<longleftrightarrow> at_key a = ls_key q" if "q \<in> set (mp_listeners s)" for q
      unfolding listeners_coreD(4) [OF core that] using same_handle [OF core a] a by (auto simp: image_iff)
    then show ?thesis by auto
  qed
  then have "filter (\<lambda>a. \<forall>q \<in> set (filter P (mp_listeners s)). at_handle a \<notin> set (ls_bindings q)) (gm_attached s) =
      filter (\<lambda>a. at_key a \<notin> ls_key ` set (filter P (mp_listeners s))) (gm_attached s)" by (rule filter_cong [OF refl])
  then show ?thesis unfolding drop_listeners_def fold_clear_bindings by simp
qed

lemma drop_ok:
  assumes li: "listeners_ok s"
  shows "listeners_ok (drop_listeners P s)"
proof -
  let ?rs = "mp_listeners s" and ?t = "drop_listeners P s"
  let ?qs = "filter (\<lambda>r. \<not> P r) ?rs"
  define gone where "gone = ls_key ` set (filter P ?rs)"
  have core: "listeners_core ?rs s" using li by (simp add: listeners_ok_def)
  note t = drop_eq [OF core, of P, folded gone_def]
  have keys: "ls_key r \<notin> gone \<longleftrightarrow> \<not> P r" if "r \<in> set ?rs" for r
    using listeners_coreD(2) [OF core] that by (auto simp: gone_def distinct_map inj_on_def)
  have "listeners_core ?qs ?t"
    unfolding listeners_core_def
  proof (intro conjI ballI)
    show "distinct (map at_handle (gm_attached ?t))" using listeners_coreD(1) [OF core] by (simp add: t distinct_map_filter)
    show "distinct (map ls_key ?qs)" using listeners_coreD(2) [OF core] by (simp add: distinct_map_filter)
    show "ls_key r < mp_fresh ?t" if "r \<in> set ?qs" for r using listeners_coreD(3) [OF core] that by (simp add: t)
    show "set (ls_bindings r) = at_handle ` {a \<in> set (gm_attached ?t). at_key a = ls_key r}" if r: "r \<in> set ?qs" for r
    proof -
      have "{a \<in> set (gm_attached ?t). at_key a = ls_key r} = {a \<in> set (gm_attached s). at_key a = ls_key r}"
        using r keys [of r] by (auto simp: t)
      then show ?thesis using listeners_coreD(4) [OF core, of r] r by simp
    qed
    fix a assume "a \<in> set (gm_attached ?t)"
    then have a: "a \<in> set (gm_attached s)" "at_key a \<notin> gone" by (auto simp: t)
    show "at_handle a < mp_fresh ?t" "at_overlay a < mp_fresh ?t" using listeners_coreD(5,6) [OF core a(1)] by (simp_all add: t)
    obtain r where r: "r \<in> set ?rs" "attachment_of a = record_of r" using listeners_coreD(7) [OF core a(1)] by blast
    then have "r \<in> set ?qs" using a(2) keys [OF r(1)] by (simp add: attachment_of_def record_of_def)
    then show "attachment_of a \<in> record_of ` set ?qs" using r(2) by blast
  qed
  moreover have "bound_to ?qs m ?t" for m
    unfolding bound_to_def
  proof
    fix v assume "v \<in> set (layer_overlays ?t m)"
    then have "v \<in> set (layer_overlays s m)" by (simp add: t layer_overlays_def)
    then have b: "bound_at (ov_id v) s = map (\<lambda>r. (ls_key r, ov_feature v)) (filter (\<lambda>r. ls_layer r = m) ?rs)"
      using li unfolding listeners_ok_def bound_to_def by blast
    have "bound_at (ov_id v) ?t = filter (\<lambda>p. fst p \<notin> gone) (bound_at (ov_id v) s)"
      by (simp add: t bound_at_def filter_map comp_def conj_commute)
    also have "\<dots> = map (\<lambda>r. (ls_key r, ov_feature v)) (filter (\<lambda>r. ls_key r \<notin> gone \<and> ls_layer r = m) ?rs)"
      by (simp add: b filter_map comp_def conj_commute)
    also have "filter (\<lambda>r. ls_key r \<notin> gone \<and> ls_layer r = m) ?rs = filter (\<lambda>r. ls_layer r = m) ?qs"
      unfolding filter_filter by (rule filter_cong [OF refl]) (use keys in blast)
    finally show "bound_at (ov_id v) ?t = map (\<lambda>r. (ls_key r, ov_feature v)) (filter (\<lambda>r. ls_layer r = m) ?qs)" .
  qed
  ultimately show ?thesis unfolding listeners_ok_def by (simp add: t)
qed

text \<open>Dropping listeners leaves everything but them.\<close>

lemma drop_sel [simp]:
  "mp_sources (drop_listeners P s) = mp_sources s" "mp_layers (drop_listeners P s) = mp_layers s"
  "mp_featureStates (drop_listeners P s) = mp_featureStates s" "mp_order (drop_listeners P s) = mp_order s"
  "mp_fresh (drop_listeners P s) = mp_fresh s" "gm_zoom (drop_listeners P s) = gm_zoom s" "gm_drawn (drop_listeners P s) = gm_drawn s"
  "gm_calls (drop_listeners P s) = gm_calls s" "mp_listeners (drop_listeners P s) = filter (\<lambda>r. \<not> P r) (mp_listeners s)"
  by (simp_all add: drop_listeners_def fold_clear_bindings)

lemma drop_get [simp]: "getLayerRecord (drop_listeners P s) m = getLayerRecord s m"
  by (simp add: getLayerRecord_def)

lemma on_ok:
  fixes event lid :: string and h :: handler
  assumes ok: "overlays_ok s" and li: "listeners_ok s"
  defines "r \<equiv> \<lparr>ls_key = mp_fresh s, ls_event = event, ls_layer = lid, ls_handler = h, ls_bindings = []\<rparr>"
  shows "listeners_ok (on_layer event lid h s)" "overlays_ok (on_layer event lid h s)"
    "\<exists>att n r1. on_layer event lid h s = s\<lparr>gm_attached := att, mp_fresh := n, mp_listeners := mp_listeners s @ [r1]\<rparr> \<and>
       listener_key r1 = listener_key r \<and> mp_fresh s < n"
proof -
  let ?s = "s\<lparr>mp_fresh := mp_fresh s + 1\<rparr>"
  obtain r1 t where b: "bindLayerListenerRecord r ?s = (r1, t)" by (rule prod.exhaust)
  have eq: "on_layer event lid h s = t\<lparr>mp_listeners := mp_listeners s @ [r1]\<rparr>" using b by (simp add: on_layer_def r_def Let_def)
  have core0: "listeners_core (mp_listeners s) s" using li by (simp add: listeners_ok_def)
  have ok1: "overlays_ok ?s" by (rule overlays_ok_same [OF ok]) simp_all
  have "ls_key r \<notin> ls_key ` set (mp_listeners s)" using listeners_coreD(3) [OF core0] by (force simp: r_def)
  moreover have "{a \<in> set (gm_attached s). at_key a = ls_key r} = {}"
    using listeners_coreD(3,7) [OF core0] by (force simp: r_def attachment_of_def record_of_def)
  moreover have "attachment_of a \<in> record_of ` set (mp_listeners s)" if "a \<in> set (gm_attached s)" for a
    using listeners_coreD(7) [OF core0 that] by blast
  ultimately have core: "listeners_core (mp_listeners s @ r # []) ?s"
    using core0 by (auto simp: listeners_core_def r_def less_Suc_eq)
  have bound: "bound_to (mp_listeners s) m ?s" for m
    using li by (simp add: listeners_ok_def bound_to_def bound_at_def layer_overlays_def)
  then have mine: "bound_to (mp_listeners s) (ls_layer r) ?s" and others: "m \<noteq> ls_layer r \<Longrightarrow> bound_to (mp_listeners s @ [r]) m ?s" for m
    by (simp_all add: bound_to_def)
  note f = bind_record_frame [OF b]
  have "bound_to (mp_listeners s @ [r1]) m t" for m
    using bind_record_bound [OF core ok1 b] mine others by (cases "m = ls_layer r") simp_all
  then show "listeners_ok (on_layer event lid h s)" using bind_record_core [OF core ok1 b]
    by (simp add: eq listeners_ok_def listeners_core_def bound_to_def bound_at_def layer_overlays_def)
  have "rebound ?s t" using f by (simp add: rebound_def)
  from overlays_ok_same [OF rebound_ok [OF this ok1]] show "overlays_ok (on_layer event lid h s)" by (simp add: eq)
  have key: "listener_key r1 = listener_key r" using f by (simp add: listener_key_def)
  from f obtain att n where t: "t = ?s\<lparr>gm_attached := att, mp_fresh := n\<rparr>" "mp_fresh s < n" by auto
  show "\<exists>att n r1. on_layer event lid h s = s\<lparr>gm_attached := att, mp_fresh := n, mp_listeners := mp_listeners s @ [r1]\<rparr> \<and>
      listener_key r1 = listener_key r \<and> mp_fresh s < n"
    by (rule exI [of _ att], rule exI [of _ n], rule exI [of _ r1]) (simp add: eq t key)
qed

end
