(* ===== verification/MapRuns.thy ===== *)
theory MapRuns
  imports MapInvariant
begin

text \<open>
  Runs of the Google map adapter: every method keeps the invariant, so that it holds after any sequence of methods and
  events, and what follows for the client.

  \<^item> \<open>map_inv\<close>: overlays and listeners are consistent (\<open>MapInvariant\<close>), the drawing order lists the registered layers
    once each, the index of an overlay is the place of its layer, and every layer linked to a source shows exactly the
    shapes of the source's data that pass its filter, with the feature states as they are.
  \<^item> Layers whose source was replaced or was added after them are not linked; the last section shows what that means.
\<close>

section \<open>The invariant\<close>

definition order_ok :: "map_state \<Rightarrow> bool" where
  "order_ok s \<longleftrightarrow> distinct (mp_order s) \<and> (\<forall>m. m \<in> set (mp_order s) \<longleftrightarrow> getLayerRecord s m \<noteq> None)"

definition index_ok :: "map_state \<Rightarrow> bool" where
  "index_ok s \<longleftrightarrow> (\<forall>lid. \<forall>v \<in> set (layer_overlays s lid). ov_zIndex v = getLayerZIndex s lid)"

text \<open>Links between sources and layers; the layers outside of \<open>X\<close> show what they should.\<close>

definition linked_ok :: "(sv \<Rightarrow> string) \<Rightarrow> string set \<Rightarrow> map_state \<Rightarrow> bool" where
  "linked_ok str X s \<longleftrightarrow> (\<forall>sid src lid. getSourceRecord s sid = Some src \<and> lid \<in> set (so_layerIds src) \<longrightarrow>
     (\<exists>l. getLayerRecord s lid = Some l \<and> ly_source l = Some sid \<and> (lid \<notin> X \<longrightarrow> shown_of l = wanted_of str s lid l)))"

definition map_inv :: "(sv \<Rightarrow> string) \<Rightarrow> map_state \<Rightarrow> bool" where
  "map_inv str s \<longleftrightarrow> overlays_ok s \<and> listeners_ok s \<and> order_ok s \<and> index_ok s \<and> linked_ok str {} s"

lemma linked_okD:
  assumes "linked_ok str X s" "getSourceRecord s sid = Some src" "lid \<in> set (so_layerIds src)"
  obtains l where "getLayerRecord s lid = Some l" "ly_source l = Some sid" "lid \<notin> X \<Longrightarrow> shown_of l = wanted_of str s lid l"
  using assms unfolding linked_ok_def by blast

lemma linked_unique:
  assumes "linked_ok str X s" "getSourceRecord s a = Some p" "getSourceRecord s b = Some q" "lid \<in> set (so_layerIds p)" "lid \<in> set (so_layerIds q)"
  shows "a = b"
  using assms unfolding linked_ok_def by (metis option.inject)

text \<open>What a layer shows depends on its source, the feature states of the source, its type and its filter.\<close>

lemma wanted_cong:
  assumes "ly_source k = ly_source l" "ly_type k = ly_type l" "ly_filter k = ly_filter l"
    and "\<And>sid. ly_source l = Some sid \<Longrightarrow> map_option so_data (getSourceRecord t sid) = map_option so_data (getSourceRecord s sid) \<and>
      map_of (mp_featureStates t) sid = map_of (mp_featureStates s) sid"
  shows "wanted_of str t lid k = wanted_of str s lid l"
proof (cases "ly_source l")
  case None
  then show ?thesis by (simp add: wanted_of_def assms(1))
next
  case (Some sid)
  have "shapes_of k fs = shapes_of l fs" for fs by (simp add: shapes_of_def assms(2,3))
  then show ?thesis using assms(4) [OF Some] Some
    by (cases "getSourceRecord s sid"; cases "getSourceRecord t sid") (simp_all add: wanted_of_def assms(1,2) enrichLayerFeature_def readFeatureState_def)
qed

text \<open>Links and contents carry over when layers keep what they show and where they belong.\<close>

lemma linked_carry:
  assumes ok: "linked_ok str X s" and src: "mp_sources t = mp_sources s" "mp_featureStates t = mp_featureStates s"
    and get: "\<And>m l. getLayerRecord s m = Some l \<Longrightarrow> \<exists>k. getLayerRecord t m = Some k \<and> ly_source k = ly_source l \<and>
      (m \<notin> Y \<longrightarrow> m \<notin> X \<and> ly_type k = ly_type l \<and> ly_filter k = ly_filter l \<and> shown_of k = shown_of l)"
  shows "linked_ok str Y t"
  unfolding linked_ok_def
proof (intro allI impI)
  fix sid p lid assume "getSourceRecord t sid = Some p \<and> lid \<in> set (so_layerIds p)"
  then have "getSourceRecord s sid = Some p" "lid \<in> set (so_layerIds p)" by (simp_all add: getSourceRecord_def src)
  from linked_okD [OF ok this] obtain l where l: "getLayerRecord s lid = Some l" "ly_source l = Some sid"
    "lid \<notin> X \<Longrightarrow> shown_of l = wanted_of str s lid l" by blast
  from get [OF l(1)] obtain k where k: "getLayerRecord t lid = Some k" "ly_source k = ly_source l"
    "lid \<notin> Y \<longrightarrow> lid \<notin> X \<and> ly_type k = ly_type l \<and> ly_filter k = ly_filter l \<and> shown_of k = shown_of l" by blast
  have "shown_of k = wanted_of str t lid k" if "lid \<notin> Y"
    using that k l(3) wanted_cong [of k l t s str lid] by (simp add: getSourceRecord_def src)
  then show "\<exists>l. getLayerRecord t lid = Some l \<and> ly_source l = Some sid \<and> (lid \<notin> Y \<longrightarrow> shown_of l = wanted_of str t lid l)"
    using k(1,2) l(2) by auto
qed

section \<open>Rendering several layers\<close>

text \<open>The invariant without the indices, which every method restores at its end.\<close>

definition base_inv :: "(sv \<Rightarrow> string) \<Rightarrow> string set \<Rightarrow> map_state \<Rightarrow> bool" where
  "base_inv str X s \<longleftrightarrow> overlays_ok s \<and> listeners_ok s \<and> order_ok s \<and> linked_ok str X s"

lemma rerender_base:
  assumes "base_inv str X s"
  shows "base_inv str (X - {lid}) (rerenderLayer str pal lid s)" "same_registry s (rerenderLayer str pal lid s)"
    "index_ok s \<Longrightarrow> index_ok (rerenderLayer str pal lid s)"
proof -
  let ?t = "rerenderLayer str pal lid s"
  have s: "overlays_ok s" "listeners_ok s" "order_ok s" "linked_ok str X s" using assms by (simp_all add: base_inv_def)
  have r: "rendered_from str pal s lid ?t" by (rule rerender_ok [OF s(1,2)])
  have t: "overlays_ok ?t" "listeners_ok ?t" "same_registry s ?t" "\<And>m. m \<noteq> lid \<Longrightarrow> getLayerRecord ?t m = getLayerRecord s m"
    using r by (simp_all add: rendered_from_def)
  have lid: "\<exists>vs. getLayerRecord ?t lid = Some (l\<lparr>ly_overlays := vs, ly_rendered := map ov_feature vs\<rparr>) \<and>
      current_layer str pal s lid (l\<lparr>ly_overlays := vs\<rparr>) \<and> map (\<lambda>v. (ov_shape v, ov_feature v)) vs = wanted_of str s lid l"
    if "getLayerRecord s lid = Some l" for l
    using r that by (simp add: rendered_from_def)
  have none: "getLayerRecord s lid = None \<Longrightarrow> ?t = s" by (simp add: rerenderLayer_def)
  have reg: "mp_sources ?t = mp_sources s" "mp_featureStates ?t = mp_featureStates s" "mp_order ?t = mp_order s"
    using t(3) by (simp_all add: same_registry_def)
  have some: "getLayerRecord ?t m = None \<longleftrightarrow> getLayerRecord s m = None" for m
    using t(4) [of m] lid none by (cases "m = lid"; cases "getLayerRecord s lid") auto
  have "order_ok ?t" using s(3) some by (simp add: order_ok_def reg)
  moreover have "linked_ok str (X - {lid}) ?t"
    unfolding linked_ok_def
  proof (intro allI impI)
    fix sid p m assume "getSourceRecord ?t sid = Some p \<and> m \<in> set (so_layerIds p)"
    then have "getSourceRecord s sid = Some p" "m \<in> set (so_layerIds p)" by (simp_all add: getSourceRecord_def reg)
    from linked_okD [OF s(4) this] obtain l where l: "getLayerRecord s m = Some l" "ly_source l = Some sid"
      "m \<notin> X \<Longrightarrow> shown_of l = wanted_of str s m l" by blast
    have same: "wanted_of str ?t m k = wanted_of str s m l" if "ly_source k = ly_source l" "ly_type k = ly_type l" "ly_filter k = ly_filter l" for k
      by (rule wanted_cong [OF that]) (simp add: getSourceRecord_def reg)
    show "\<exists>l. getLayerRecord ?t m = Some l \<and> ly_source l = Some sid \<and> (m \<notin> X - {lid} \<longrightarrow> shown_of l = wanted_of str ?t m l)"
    proof (cases "m = lid")
      case True
      with lid l(1) obtain vs where vs: "getLayerRecord ?t lid = Some (l\<lparr>ly_overlays := vs, ly_rendered := map ov_feature vs\<rparr>)"
        "map (\<lambda>v. (ov_shape v, ov_feature v)) vs = wanted_of str s lid l" by blast
      then show ?thesis using True l(2) same by (simp add: shown_of_def)
    next
      case False
      then show ?thesis using t(4) l same by simp
    qed
  qed
  ultimately show "base_inv str (X - {lid}) ?t" "same_registry s ?t" using t by (simp_all add: base_inv_def)
  show "index_ok ?t" if "index_ok s"
  proof -
    have "ov_zIndex v = getLayerZIndex s m" if v: "v \<in> set (layer_overlays ?t m)" for v m
    proof (cases "m = lid \<and> getLayerRecord s lid \<noteq> None")
      case True
      then show ?thesis using lid v by (fastforce simp: layer_overlays_def current_layer_def)
    next
      case False
      then have "layer_overlays ?t m = layer_overlays s m" using t(4) none by (auto simp: layer_overlays_def)
      then show ?thesis using v \<open>index_ok s\<close> by (simp add: index_ok_def)
    qed
    then show ?thesis by (simp add: index_ok_def zindex_cong [OF reg(3)])
  qed
qed

lemma rerender_list:
  assumes "base_inv str X s" "index_ok s"
  shows "base_inv str (X - set lids) (fold (rerenderLayer str pal) lids s) \<and> index_ok (fold (rerenderLayer str pal) lids s) \<and>
    same_registry s (fold (rerenderLayer str pal) lids s)"
  using assms
proof (induction lids arbitrary: X s)
  case (Cons lid lids)
  note r = rerender_base [OF Cons.prems(1), where lid = lid and pal = pal]
  have "X - set (lid # lids) = X - {lid} - set lids" by auto
  then show ?case using Cons.IH [OF r(1) r(3) [OF Cons.prems(2)]] same_registry_trans [OF r(2)] by simp
qed simp

lemma rerender_source:
  assumes "base_inv str X s" "index_ok s" "\<And>src. getSourceRecord s sid = Some src \<Longrightarrow> X \<subseteq> set (so_layerIds src)"
    "getSourceRecord s sid = None \<Longrightarrow> X = {}"
  shows "map_inv str (rerenderSourceLayers str pal sid s)"
proof (cases "getSourceRecord s sid")
  case None
  then show ?thesis using assms by (simp add: rerenderSourceLayers_def map_inv_def base_inv_def)
next
  case (Some src)
  then have none: "X - set (so_layerIds src) = {}" using assms(3) by auto
  show ?thesis using rerender_list [OF assms(1,2), where lids = "so_layerIds src" and pal = pal] Some unfolding none
    by (simp add: rerenderSourceLayers_def map_inv_def base_inv_def)
qed

section \<open>Styling all layers\<close>

lemma restyled_base:
  assumes r: "restyled s t" and b: "base_inv str X s"
  shows "base_inv str X t"
proof -
  have reg: "mp_sources t = mp_sources s" "mp_featureStates t = mp_featureStates s" "mp_order t = mp_order s"
    using r by (simp_all add: restyled_def same_registry_def)
  have rel: "rel_option same_shown (getLayerRecord s m) (getLayerRecord t m)" for m using r by (simp add: restyled_def)
  have some: "getLayerRecord t m = None \<longleftrightarrow> getLayerRecord s m = None" for m
    using rel [of m] by (cases "getLayerRecord s m"; cases "getLayerRecord t m") simp_all
  have "linked_ok str X t"
  proof (rule linked_carry [OF _ reg(1,2)])
    show "linked_ok str X s" using b by (simp add: base_inv_def)
    fix m l assume "getLayerRecord s m = Some l"
    then obtain k where "getLayerRecord t m = Some k" "same_shown l k" using rel [of m] by (cases "getLayerRecord t m") simp_all
    then show "\<exists>k. getLayerRecord t m = Some k \<and> ly_source k = ly_source l \<and>
      (m \<notin> X \<longrightarrow> m \<notin> X \<and> ly_type k = ly_type l \<and> ly_filter k = ly_filter l \<and> shown_of k = shown_of l)"
      by (auto simp: same_shown_def shown_of_def)
  qed
  then show ?thesis using r b some by (simp add: base_inv_def restyled_def order_ok_def reg)
qed

lemma style_list:
  assumes "overlays_ok s" "listeners_ok s"
    "\<And>m l. m \<in> Z \<Longrightarrow> getLayerRecord s m = Some l \<Longrightarrow> current_layer str pal s m l"
  shows "restyled s (fold (applyLayerStyle str pal) lids s) \<and>
    (\<forall>m l. m \<in> Z \<union> set lids \<longrightarrow> getLayerRecord (fold (applyLayerStyle str pal) lids s) m = Some l \<longrightarrow>
       current_layer str pal (fold (applyLayerStyle str pal) lids s) m l)"
  using assms
proof (induction lids arbitrary: s Z)
  case Nil
  then show ?case by (simp add: restyled_refl)
next
  case (Cons lid lids)
  let ?t = "applyLayerStyle str pal lid s"
  have r: "restyled s ?t" by (rule style_ok [OF Cons.prems(1,2)])
  have reg: "mp_order ?t = mp_order s" "gm_zoom ?t = gm_zoom s" using r by (simp_all add: restyled_def same_registry_def)
  have cur: "current_layer str pal ?t m l" if m: "m \<in> insert lid Z" "getLayerRecord ?t m = Some l" for m l
  proof (cases "m = lid")
    case True
    then obtain k where "l = restyle str pal s lid k" using m(2) style_get [OF Cons.prems(1)] by auto
    then show ?thesis using True
      by (auto simp: current_layer_def restyle_def zindex_cong [OF reg(1)] reg(2) layer_style_def)
  next
    case False
    then have "current_layer str pal s m l" using m Cons.prems(3) style_get [OF Cons.prems(1)] by simp
    then show ?thesis by (simp add: current_layer_def zindex_cong [OF reg(1)] reg(2))
  qed
  have ok: "overlays_ok ?t" "listeners_ok ?t" using r by (simp_all add: restyled_def)
  show ?case using Cons.IH [where s = ?t and Z = "insert lid Z", OF ok cur] restyled_trans [OF r] by simp
qed

lemma update_all:
  assumes "base_inv str X s"
  shows "base_inv str X (updateAllLayerZIndices str pal s)" "index_ok (updateAllLayerZIndices str pal s)"
    "restyled s (updateAllLayerZIndices str pal s)"
    "getLayerRecord (updateAllLayerZIndices str pal s) m = Some l \<Longrightarrow> current_layer str pal (updateAllLayerZIndices str pal s) m l"
proof -
  let ?t = "updateAllLayerZIndices str pal s"
  have s: "overlays_ok s" "listeners_ok s" "order_ok s" using assms by (simp_all add: base_inv_def)
  note st = style_list [OF s(1,2), of "{}" str pal "mp_order s", simplified, folded updateAllLayerZIndices_def]
  then show r: "restyled s ?t" by blast
  then show b: "base_inv str X ?t" by (rule restyled_base [OF _ assms])
  have all: "m \<in> set (mp_order s)" if "getLayerRecord ?t m = Some l" for m l
    using b that r by (auto simp: base_inv_def order_ok_def restyled_def same_registry_def)
  then show cur: "getLayerRecord ?t m = Some l \<Longrightarrow> current_layer str pal ?t m l" for m l using st by blast
  show "index_ok ?t"
    unfolding index_ok_def
  proof (intro allI ballI)
    fix lid v assume "v \<in> set (layer_overlays ?t lid)"
    then obtain l where "getLayerRecord ?t lid = Some l" "v \<in> set (ly_overlays l)" by (cases "getLayerRecord ?t lid") (auto simp: layer_overlays_def)
    then show "ov_zIndex v = getLayerZIndex ?t lid" using cur by (simp add: current_layer_def)
  qed
qed

lemma update_all_inv: "base_inv str {} s \<Longrightarrow> map_inv str (updateAllLayerZIndices str pal s)"
  using update_all [of str "{}" s pal] by (simp add: map_inv_def base_inv_def)

section \<open>The methods keep the invariant\<close>

lemma map_invD:
  assumes "map_inv str s"
  shows "base_inv str {} s" "index_ok s" "overlays_ok s" "listeners_ok s" "order_ok s" "linked_ok str {} s"
  using assms by (simp_all add: map_inv_def base_inv_def)

text \<open>A state that differs in sources, feature states, listeners and calls only.\<close>

lemma overlays_ok_frame:
  assumes "overlays_ok s" "mp_layers t = mp_layers s" "mp_fresh s \<le> mp_fresh t" "gm_drawn t = gm_drawn s"
  shows "overlays_ok t"
  by (rule overlays_ok_same [OF assms(1)]) (use assms in \<open>simp_all add: getLayerRecord_def\<close>)

lemma order_ok_frame: "order_ok s \<Longrightarrow> mp_layers t = mp_layers s \<Longrightarrow> mp_order t = mp_order s \<Longrightarrow> order_ok t"
  by (simp add: order_ok_def getLayerRecord_def)

lemma index_ok_frame: "index_ok s \<Longrightarrow> mp_layers t = mp_layers s \<Longrightarrow> mp_order t = mp_order s \<Longrightarrow> index_ok t"
  by (simp add: index_ok_def layer_overlays_def getLayerRecord_def getLayerZIndex_def)

lemma listeners_ok_frame:
  assumes "listeners_ok s" "mp_layers t = mp_layers s" "gm_attached t = gm_attached s" "mp_listeners t = mp_listeners s" "mp_fresh t = mp_fresh s"
  shows "listeners_ok t"
  by (rule listeners_fewer [OF assms(1,3,4,5)]) (use assms(2) in \<open>auto simp: layer_overlays_def getLayerRecord_def\<close>)

text \<open>Data and feature states of one source change: only its own layers may have to be rendered again.\<close>

lemma linked_source_change:
  assumes ok: "linked_ok str X s" and lay: "mp_layers t = mp_layers s"
    and other: "\<And>m. m \<noteq> sid \<Longrightarrow> getSourceRecord t m = getSourceRecord s m \<and> map_of (mp_featureStates t) m = map_of (mp_featureStates s) m"
    and own: "\<And>q. getSourceRecord t sid = Some q \<Longrightarrow>
      set (so_layerIds q) \<subseteq> Y \<and> (\<forall>lid \<in> set (so_layerIds q). \<exists>p. getSourceRecord s sid = Some p \<and> lid \<in> set (so_layerIds p))"
    and sub: "X \<subseteq> Y"
  shows "linked_ok str Y t"
  unfolding linked_ok_def
proof (intro allI impI)
  fix a q lid assume q: "getSourceRecord t a = Some q \<and> lid \<in> set (so_layerIds q)"
  have get: "getLayerRecord t m = getLayerRecord s m" for m by (simp add: getLayerRecord_def lay)
  show "\<exists>l. getLayerRecord t lid = Some l \<and> ly_source l = Some a \<and> (lid \<notin> Y \<longrightarrow> shown_of l = wanted_of str t lid l)"
  proof (cases "a = sid")
    case True
    then obtain p where "getSourceRecord s sid = Some p" "lid \<in> set (so_layerIds p)" using own q by blast
    from linked_okD [OF ok this] obtain l where "getLayerRecord s lid = Some l" "ly_source l = Some sid" by blast
    then show ?thesis using True q get own [of q] by auto
  next
    case False
    then have "getSourceRecord s a = Some q" "lid \<in> set (so_layerIds q)" using other q by simp_all
    from linked_okD [OF ok this] obtain l where l: "getLayerRecord s lid = Some l" "ly_source l = Some a"
      "lid \<notin> X \<Longrightarrow> shown_of l = wanted_of str s lid l" by blast
    have "wanted_of str t lid l = wanted_of str s lid l"
      by (rule wanted_cong) (use l(2) other False in auto)
    then show ?thesis using l sub get by auto
  qed
qed

lemma set_source_get [simp]: "getSourceRecord (set_source sid src s) m = (if m = sid then Some src else getSourceRecord s m)"
  by (simp add: getSourceRecord_def set_source_def update_conv')

lemma set_source_sel [simp]:
  "mp_layers (set_source sid src s) = mp_layers s" "mp_featureStates (set_source sid src s) = mp_featureStates s"
  "mp_order (set_source sid src s) = mp_order s" "mp_listeners (set_source sid src s) = mp_listeners s"
  "mp_fresh (set_source sid src s) = mp_fresh s" "gm_zoom (set_source sid src s) = gm_zoom s" "gm_drawn (set_source sid src s) = gm_drawn s"
  "gm_attached (set_source sid src s) = gm_attached s" "gm_calls (set_source sid src s) = gm_calls s"
  "getLayerRecord (set_source sid src s) m = getLayerRecord s m"
  by (simp_all add: set_source_def)

lemma source_change_inv:
  assumes inv: "map_inv str s" and lay: "mp_layers t = mp_layers s" "mp_order t = mp_order s" "mp_listeners t = mp_listeners s"
    "gm_attached t = gm_attached s" "mp_fresh t = mp_fresh s" "gm_drawn t = gm_drawn s"
    and other: "\<And>m. m \<noteq> sid \<Longrightarrow> getSourceRecord t m = getSourceRecord s m \<and> map_of (mp_featureStates t) m = map_of (mp_featureStates s) m"
    and own: "\<And>q. getSourceRecord t sid = Some q \<Longrightarrow>
      set (so_layerIds q) \<subseteq> Y \<and> (\<forall>lid \<in> set (so_layerIds q). \<exists>p. getSourceRecord s sid = Some p \<and> lid \<in> set (so_layerIds p))"
  shows "base_inv str Y t" "index_ok t"
proof -
  note i = map_invD [OF inv]
  show "base_inv str Y t" unfolding base_inv_def
    using overlays_ok_frame [OF i(3) lay(1)] listeners_ok_frame [OF i(4) lay(1,4,3,5)] order_ok_frame [OF i(5) lay(1,2)]
      linked_source_change [OF i(6) lay(1) other own] lay by auto
  show "index_ok t" by (rule index_ok_frame [OF i(2) lay(1,2)])
qed

lemma addSource_inv:
  assumes "map_inv str s"
  shows "map_inv str (addSource sid data s)"
proof (cases "sid = []")
  case False
  have "base_inv str {} (addSource sid data s)" "index_ok (addSource sid data s)"
    by (rule source_change_inv [OF assms, where sid = sid];
        use False in \<open>auto simp: addSource_def delete_conv' split: if_splits\<close>)+
  then show ?thesis by (simp add: map_inv_def base_inv_def)
qed (simp add: addSource_def assms)

lemma setData_inv:
  assumes "map_inv str s"
  shows "map_inv str (setData str pal sid data s)"
proof (cases "getSourceRecord s sid")
  case None
  then show ?thesis using assms by (simp add: setData_def)
next
  case (Some src)
  let ?t = "set_source sid (src\<lparr>so_data := normalizeGeoJsonFeatureCollection data\<rparr>) s"
  have "base_inv str (set (so_layerIds src)) ?t" "index_ok ?t"
    by (rule source_change_inv [OF assms, where sid = sid]; use Some in \<open>auto split: if_splits\<close>)+
  then show ?thesis using rerender_source [of str "set (so_layerIds src)" ?t sid pal] by (simp add: setData_def Some)
qed

lemma feature_state_inv:
  assumes "map_inv str s"
  shows "map_inv str (rerenderSourceLayers str pal sid (s\<lparr>mp_featureStates := AList.update sid m (mp_featureStates s)\<rparr>))"
proof -
  let ?t = "s\<lparr>mp_featureStates := AList.update sid m (mp_featureStates s)\<rparr>"
  let ?X = "case getSourceRecord s sid of None \<Rightarrow> {} | Some src \<Rightarrow> set (so_layerIds src)"
  have "base_inv str ?X ?t" "index_ok ?t"
    by (rule source_change_inv [OF assms, where sid = sid]; auto simp: update_conv')+
  then show ?thesis by (rule rerender_source) (auto split: option.splits)
qed

lemma setFeatureState_inv: "map_inv str s \<Longrightarrow> setFeatureState str pal sid fid st s = Some t \<Longrightarrow> map_inv str t"
  using feature_state_inv by (auto simp: setFeatureState_def Let_def split: if_splits)

lemma removeFeatureState_inv: "map_inv str s \<Longrightarrow> map_inv str (removeFeatureState str pal sid fid k s)"
  using feature_state_inv by (auto simp: removeFeatureState_def split: option.split)

lemma clear_list:
  assumes "overlays_ok s" "listeners_ok s"
  defines "t \<equiv> \<lambda>lids. fold clearLayerOverlays lids s"
  shows "overlays_ok (t lids) \<and> listeners_ok (t lids) \<and> same_registry s (t lids) \<and> mp_listeners (t lids) = mp_listeners s \<and>
    mp_fresh (t lids) = mp_fresh s \<and> gm_attached (t lids) = gm_attached s \<and>
    (\<forall>m. getLayerRecord (t lids) m = (if m \<in> set lids then map_option (\<lambda>l. l\<lparr>ly_overlays := [], ly_rendered := []\<rparr>) (getLayerRecord s m)
       else getLayerRecord s m))"
  unfolding t_def using assms(1,2)
proof (induction lids arbitrary: s)
  case (Cons lid lids)
  note ih = Cons.IH [OF clear_ok [OF Cons.prems(1), of lid] clear_listeners [OF Cons.prems(2), of lid]]
  have "getLayerRecord (fold clearLayerOverlays (lid # lids) s) m =
      (if m \<in> set (lid # lids) then map_option (\<lambda>l. l\<lparr>ly_overlays := [], ly_rendered := []\<rparr>) (getLayerRecord s m) else getLayerRecord s m)" for m
    using ih by (simp add: option.map_comp comp_def)
  then show ?case using ih same_registry_trans [OF clear_registry] by auto
qed simp

lemma removeSource_inv:
  assumes inv: "map_inv str s"
  shows "map_inv str (removeSource sid s)"
proof -
  note i = map_invD [OF inv]
  define lids where "lids = (case getSourceRecord s sid of None \<Rightarrow> [] | Some src \<Rightarrow> so_layerIds src)"
  let ?u = "fold clearLayerOverlays lids s"
  let ?t = "removeSource sid s"
  have t: "?t = ?u\<lparr>mp_sources := AList.delete sid (mp_sources ?u), mp_featureStates := AList.delete sid (mp_featureStates ?u)\<rparr>"
    by (simp add: removeSource_def lids_def Let_def split: option.split)
  have u: "overlays_ok ?u" "listeners_ok ?u" "mp_sources ?u = mp_sources s" "mp_featureStates ?u = mp_featureStates s" "mp_order ?u = mp_order s"
    "getLayerRecord ?u m = (if m \<in> set lids then map_option (\<lambda>l. l\<lparr>ly_overlays := [], ly_rendered := []\<rparr>) (getLayerRecord s m) else getLayerRecord s m)" for m
    using clear_list [OF i(3,4), of lids] by (simp_all add: same_registry_def)
  have ok: "overlays_ok ?t" by (rule overlays_ok_frame [OF u(1)]) (simp_all add: t)
  have li: "listeners_ok ?t" by (rule listeners_ok_frame [OF u(2)]) (simp_all add: t)
  have get: "getLayerRecord ?t m = getLayerRecord ?u m" for m by (simp add: t)
  have "order_ok ?t" using i(5) u(5) by (auto simp: order_ok_def get u(6)) (auto simp: t)
  moreover have "index_ok ?t"
  proof -
    have "layer_overlays ?t m = (if m \<in> set lids then [] else layer_overlays s m)" for m
      by (cases "getLayerRecord s m") (simp_all add: layer_overlays_def get u(6))
    moreover have "mp_order ?t = mp_order s" using u(5) by (simp add: t)
    ultimately show ?thesis using i(2) by (simp add: index_ok_def zindex_cong [of ?t s])
  qed
  moreover have "linked_ok str {} ?t"
    unfolding linked_ok_def
  proof (intro allI impI)
    fix a q lid assume "getSourceRecord ?t a = Some q \<and> lid \<in> set (so_layerIds q)"
    then have a: "a \<noteq> sid" "getSourceRecord s a = Some q" "lid \<in> set (so_layerIds q)"
      by (auto simp: t getSourceRecord_def u(3) delete_conv' split: if_splits)
    from linked_okD [OF i(6) a(2,3)] obtain l where l: "getLayerRecord s lid = Some l" "ly_source l = Some a" "shown_of l = wanted_of str s lid l" by blast
    have "lid \<notin> set lids" using linked_unique [OF i(6) a(2) _ a(3)] a(1) by (cases "getSourceRecord s sid") (auto simp: lids_def)
    moreover have "wanted_of str ?t lid l = wanted_of str s lid l"
      by (rule wanted_cong) (use l(2) a(1) in \<open>auto simp: t getSourceRecord_def u(3,4) delete_conv'\<close>)
    ultimately show "\<exists>l. getLayerRecord ?t lid = Some l \<and> ly_source l = Some a \<and> (lid \<notin> {} \<longrightarrow> shown_of l = wanted_of str ?t lid l)"
      using l by (simp add: get u(6))
  qed
  ultimately show ?thesis using ok li by (simp add: map_inv_def)
qed

text \<open>Events that change listeners and calls only.\<close>

lemma listener_change_inv:
  assumes inv: "map_inv str s" and t: "listeners_ok t" "overlays_ok t" "mp_layers t = mp_layers s" "mp_sources t = mp_sources s"
    "mp_featureStates t = mp_featureStates s" "mp_order t = mp_order s"
  shows "map_inv str t"
proof -
  note i = map_invD [OF inv]
  have get: "getLayerRecord t m = getLayerRecord s m" for m by (simp add: getLayerRecord_def t)
  have "linked_ok str {} t" by (rule linked_carry [OF i(6) t(4,5)]) (simp add: get)
  then show ?thesis using t(1,2) order_ok_frame [OF i(5) t(3,6)] index_ok_frame [OF i(2) t(3,6)] by (simp add: map_inv_def)
qed

lemma on_inv:
  assumes "map_inv str s"
  shows "map_inv str (on_layer event lid h s)"
proof -
  note i = map_invD [OF assms]
  note o = on_ok [OF i(3,4), of event lid h]
  show ?thesis by (rule listener_change_inv [OF assms o(1,2)]) (use o(3) in auto)
qed

lemma fresh_inv: "map_inv str s \<Longrightarrow> mp_fresh s \<le> n \<Longrightarrow> map_inv str (s\<lparr>mp_fresh := n\<rparr>)"
proof (rule listener_change_inv)
  assume s: "map_inv str s" "mp_fresh s \<le> n"
  show "overlays_ok (s\<lparr>mp_fresh := n\<rparr>)" by (rule overlays_ok_frame [OF map_invD(3) [OF s(1)]]) (use s(2) in simp_all)
  show "listeners_ok (s\<lparr>mp_fresh := n\<rparr>)" using map_invD(4) [OF s(1)] s(2)
    by (auto simp: listeners_ok_def listeners_core_def bound_to_def bound_at_def layer_overlays_def intro: order_less_le_trans)
qed simp_all

lemma once_inv: "map_inv str s \<Longrightarrow> map_inv str (once_layer event lid h s)"
  by (simp add: once_layer_def on_inv fresh_inv)

lemma drop_inv:
  assumes "map_inv str s"
  shows "map_inv str (drop_listeners P s)"
  by (rule listener_change_inv [OF assms drop_ok [OF map_invD(4) [OF assms]] overlays_ok_frame [OF map_invD(3) [OF assms]]]) simp_all

lemma calls_inv: "map_inv str s \<Longrightarrow> map_inv str (s\<lparr>gm_calls := c\<rparr>)"
  by (rule listener_change_inv [OF _ listeners_ok_frame [OF map_invD(4)] overlays_ok_frame [OF map_invD(3)]]) simp_all

lemma deliver_inv: "map_inv str s \<Longrightarrow> map_inv str (deliver handle s)"
  by (auto simp: deliver_def off_layer_def Let_def drop_inv calls_inv split: option.split handler.split)

text \<open>A layer record is changed in what does not concern its overlays.\<close>

lemma set_same_ok:
  assumes ok: "overlays_ok s" and li: "listeners_ok s" and l: "getLayerRecord s lid = Some l"
    and same: "ly_overlays k = ly_overlays l" "ly_rendered k = ly_rendered l" "ly_type k = ly_type l" "ly_layout k = ly_layout l"
  shows "overlays_ok (set_layer lid k s)" "listeners_ok (set_layer lid k s)"
proof -
  have ids: "overlay_ids k = overlay_ids l" "getLayerVisibility k = getLayerVisibility l"
    by (simp_all add: overlay_ids_def getLayerVisibility_def same)
  have "layer_ok (mp_fresh s) lid k" using ok l by (simp add: overlays_ok_def layer_ok_def ids same)
  then show "overlays_ok (set_layer lid k s)"
  proof (rule overlays_ok_replace [OF ok l order_refl])
    show "gm_drawn (set_layer lid k s) = (gm_drawn s - set (overlay_ids l)) \<union> (if getLayerVisibility k then set (overlay_ids k) else {})"
      unfolding ids set_layer_sel by (rule drawn_layer [OF ok l])
  qed (simp_all add: ids)
  show "listeners_ok (set_layer lid k s)"
    by (rule listeners_fewer [OF li]) (use l in \<open>auto simp: layer_overlays_def same split: if_splits\<close>)
qed

lemma set_layer_order: "order_ok s \<Longrightarrow> getLayerRecord s lid = Some l \<Longrightarrow> order_ok (set_layer lid k s)"
  by (simp add: order_ok_def)

lemma set_layer_index:
  "index_ok s \<Longrightarrow> getLayerRecord s lid = Some l \<Longrightarrow> ly_overlays k = ly_overlays l \<Longrightarrow> index_ok (set_layer lid k s)"
  by (simp add: index_ok_def layer_overlays_def zindex_cong [of "set_layer lid k s" s])

lemma set_layer_linked:
  assumes "linked_ok str {} s" "getLayerRecord s lid = Some l" "ly_source k = ly_source l"
    and "lid \<notin> X \<Longrightarrow> ly_type k = ly_type l \<and> ly_filter k = ly_filter l \<and> shown_of k = shown_of l"
  shows "linked_ok str X (set_layer lid k s)"
  by (rule linked_carry [OF assms(1)]) (use assms(2-) in auto)

lemma setLayout_inv:
  assumes inv: "map_inv str s"
  shows "map_inv str (setLayoutProperty lid k v s)"
proof (cases "getLayerRecord s lid")
  case None
  then show ?thesis using inv by (simp add: setLayoutProperty_def)
next
  case (Some l)
  note i = map_invD [OF inv]
  note o = layout_ok [OF i(3,4) Some, of k v]
  have reg: "mp_sources (setLayoutProperty lid k v s) = mp_sources s" "mp_featureStates (setLayoutProperty lid k v s) = mp_featureStates s"
    "mp_order (setLayoutProperty lid k v s) = mp_order s"
    using o(3) by (simp_all add: same_registry_def)
  have "linked_ok str {} (setLayoutProperty lid k v s)"
    by (rule linked_carry [OF i(6) reg(1,2)]) (use Some in \<open>auto simp: o(4) shown_of_def\<close>)
  moreover have "order_ok (setLayoutProperty lid k v s)" using i(5) Some by (simp add: order_ok_def reg o(4))
  moreover have "layer_overlays (setLayoutProperty lid k v s) m = layer_overlays s m" for m
    using Some by (simp add: layer_overlays_def o(4))
  ultimately show ?thesis using o(1,2) i(2) by (simp add: map_inv_def index_ok_def zindex_cong [OF reg(3)])
qed

lemma set_base:
  assumes inv: "map_inv str s" and l: "getLayerRecord s lid = Some l"
    and same: "ly_overlays k = ly_overlays l" "ly_rendered k = ly_rendered l" "ly_type k = ly_type l" "ly_layout k = ly_layout l" "ly_source k = ly_source l"
  shows "ly_filter k = ly_filter l \<Longrightarrow> map_inv str (set_layer lid k s)" "base_inv str {lid} (set_layer lid k s)" "index_ok (set_layer lid k s)"
proof -
  note i = map_invD [OF inv]
  note ok = set_same_ok [OF i(3,4) l same(1-4)] set_layer_order [OF i(5) l] set_layer_index [OF i(2) l same(1)]
  show "base_inv str {lid} (set_layer lid k s)" "index_ok (set_layer lid k s)"
    using ok set_layer_linked [OF i(6) l same(5), of "{lid}"] by (simp_all add: base_inv_def)
  show "ly_filter k = ly_filter l \<Longrightarrow> map_inv str (set_layer lid k s)"
    using ok set_layer_linked [OF i(6) l same(5), of "{}"] same by (simp add: map_inv_def shown_of_def)
qed

lemma style_inv:
  assumes inv: "map_inv str s"
  shows "map_inv str (applyLayerStyle str pal lid s)"
proof -
  note i = map_invD [OF inv]
  let ?t = "applyLayerStyle str pal lid s"
  have r: "restyled s ?t" by (rule style_ok [OF i(3,4)])
  have o: "mp_order ?t = mp_order s" using r by (simp add: restyled_def same_registry_def)
  have "index_ok ?t"
    unfolding index_ok_def zindex_cong [OF o]
  proof (intro allI ballI)
    fix m v assume v: "v \<in> set (layer_overlays ?t m)"
    show "ov_zIndex v = getLayerZIndex s m"
    proof (cases "m = lid")
      case True
      then show ?thesis using v by (cases "getLayerRecord s lid") (auto simp: layer_overlays_def style_get [OF i(3)] restyle_def)
    next
      case False
      then show ?thesis using v i(2) by (simp add: index_ok_def layer_overlays_def style_get [OF i(3)])
    qed
  qed
  then show ?thesis using restyled_base [OF r i(1)] by (simp add: map_inv_def base_inv_def)
qed

lemma setPaint_inv:
  assumes inv: "map_inv str s"
  shows "map_inv str (setPaintProperty str pal lid k v s)"
proof (cases "getLayerRecord s lid")
  case None
  then show ?thesis using inv by (simp add: setPaintProperty_def)
next
  case (Some l)
  have "map_inv str (set_layer lid (l\<lparr>ly_paint := AList.update k v (ly_paint l)\<rparr>) s)"
    by (rule set_base(1) [OF inv Some]) simp_all
  then show ?thesis by (simp add: setPaintProperty_def Some Let_def style_inv)
qed

lemma setFilter_inv:
  assumes inv: "map_inv str s"
  shows "map_inv str (setFilter str pal lid e s)"
proof (cases "getLayerRecord s lid")
  case None
  then show ?thesis using inv by (simp add: setFilter_def)
next
  case (Some l)
  let ?t = "set_layer lid (l\<lparr>ly_filter := (if sv_truthy e then e else SNull)\<rparr>) s"
  have b: "base_inv str {lid} ?t" "index_ok ?t" by (rule set_base(2,3) [OF inv Some]; simp)+
  have "map_inv str (rerenderLayer str pal lid ?t)"
    using rerender_base [OF b(1), where lid = lid and pal = pal] b(2) by (simp add: map_inv_def base_inv_def)
  then show ?thesis by (simp add: setFilter_def Some)
qed

lemma insert_before_set: "set (insert_before beforeId lid order) = insert lid (set order)"
  by (auto simp: insert_before_def) (metis Un_iff append_take_drop_id set_append)+

lemma insert_before_distinct: "lid \<notin> set order \<Longrightarrow> distinct order \<Longrightarrow> distinct (insert_before beforeId lid order)"
  by (auto simp: insert_before_def set_take_disj_set_drop_if_distinct dest: in_set_takeD in_set_dropD)

lemma move_form:
  assumes inv: "map_inv str s"
  shows "moveLayer str pal lid beforeId s = s \<or> (\<exists>t. base_inv str {} t \<and> moveLayer str pal lid beforeId s = updateAllLayerZIndices str pal t)"
proof (cases "getLayerRecord s lid = None \<or> lid \<notin> set (mp_order s)")
  case False
  note i = map_invD [OF inv]
  let ?t = "s\<lparr>mp_order := insert_before beforeId lid (remove1 lid (mp_order s))\<rparr>"
  have "linked_ok str {} ?t" by (rule linked_carry [OF i(6)]) simp_all
  moreover have "order_ok ?t" using i(5) False by (auto simp: order_ok_def insert_before_set insert_before_distinct)
  moreover have "overlays_ok ?t" by (rule overlays_ok_frame [OF i(3)]) simp_all
  moreover have "listeners_ok ?t" by (rule listeners_ok_frame [OF i(4)]) simp_all
  ultimately have "base_inv str {} ?t" by (simp add: base_inv_def)
  moreover have "moveLayer str pal lid beforeId s = updateAllLayerZIndices str pal ?t" using False by (auto simp: moveLayer_def)
  ultimately show ?thesis by blast
qed (use inv in \<open>simp add: moveLayer_def\<close>)

lemma zoom_form:
  assumes inv: "map_inv str s"
  shows "base_inv str {} (s\<lparr>gm_zoom := z\<rparr>)"
proof -
  note i = map_invD [OF inv]
  let ?t = "s\<lparr>gm_zoom := z\<rparr>"
  have "linked_ok str {} ?t" by (rule linked_carry [OF i(6)]) simp_all
  moreover have "overlays_ok ?t" by (rule overlays_ok_frame [OF i(3)]) simp_all
  moreover have "listeners_ok ?t" by (rule listeners_ok_frame [OF i(4)]) simp_all
  moreover have "order_ok ?t" by (rule order_ok_frame [OF i(5)]) simp_all
  ultimately show ?thesis by (simp add: base_inv_def)
qed

lemma move_inv: "map_inv str s \<Longrightarrow> map_inv str (moveLayer str pal lid beforeId s)"
  using move_form [of str s pal lid beforeId] update_all_inv by auto

lemma zoom_inv: "map_inv str s \<Longrightarrow> map_inv str (zoom_changed str pal z s)"
  unfolding zoom_changed_def by (intro update_all_inv zoom_form)

lemma unlink_get [simp]:
  "getSourceRecord (unlink_layer source lid s) m =
     (if source = Some m then map_option (\<lambda>p. p\<lparr>so_layerIds := set_delete lid (so_layerIds p)\<rparr>) (getSourceRecord s m) else getSourceRecord s m)"
  by (simp add: unlink_layer_def split: option.split)

lemma link_get [simp]:
  "getSourceRecord (link_layer source lid s) m =
     (if source = Some m then map_option (\<lambda>p. p\<lparr>so_layerIds := set_add lid (so_layerIds p)\<rparr>) (getSourceRecord s m) else getSourceRecord s m)"
  by (simp add: link_layer_def split: option.split)

lemma link_sel [simp]:
  "mp_layers (unlink_layer source lid s) = mp_layers s" "mp_layers (link_layer source lid s) = mp_layers s"
  "mp_order (unlink_layer source lid s) = mp_order s" "mp_order (link_layer source lid s) = mp_order s"
  "mp_featureStates (unlink_layer source lid s) = mp_featureStates s" "mp_featureStates (link_layer source lid s) = mp_featureStates s"
  "mp_listeners (unlink_layer source lid s) = mp_listeners s" "mp_listeners (link_layer source lid s) = mp_listeners s"
  "mp_fresh (unlink_layer source lid s) = mp_fresh s" "mp_fresh (link_layer source lid s) = mp_fresh s"
  "gm_drawn (unlink_layer source lid s) = gm_drawn s" "gm_drawn (link_layer source lid s) = gm_drawn s"
  "gm_attached (unlink_layer source lid s) = gm_attached s" "gm_attached (link_layer source lid s) = gm_attached s"
  "getLayerRecord (unlink_layer source lid s) m = getLayerRecord s m" "getLayerRecord (link_layer source lid s) m = getLayerRecord s m"
  by (simp_all add: unlink_layer_def link_layer_def split: option.split)

lemma clear_source [simp]: "getSourceRecord (clearLayerOverlays lid s) m = getSourceRecord s m"
  by (simp add: getSourceRecord_def)

lemma drop_source [simp]: "getSourceRecord (drop_listeners P s) m = getSourceRecord s m"
  by (simp add: getSourceRecord_def)

lemma removeLayer_form:
  assumes inv: "map_inv str s" and l: "getLayerRecord s lid = Some l"
  shows "\<exists>t. base_inv str {} t \<and> getLayerRecord t lid = None \<and> removeLayer str pal lid s = updateAllLayerZIndices str pal t"
proof -
  note Some = l
  note i = map_invD [OF inv]
  define u where "u = unlink_layer (ly_source l) lid (clearLayerOverlays lid s)"
  define v where "v = u\<lparr>mp_layers := AList.delete lid (mp_layers u), mp_order := remove1 lid (mp_order u)\<rparr>"
  define t where "t = drop_listeners (\<lambda>r. ls_layer r = lid) v"
  have eq: "removeLayer str pal lid s = updateAllLayerZIndices str pal t" by (simp add: removeLayer_def Some u_def v_def t_def Let_def)
  have getv: "getLayerRecord v m = (if m = lid then None else getLayerRecord s m)" for m
    using get_clear [of lid s m] by (simp add: v_def u_def getLayerRecord_def delete_conv')
  have lay: "mp_layers v = AList.delete lid (mp_layers (clearLayerOverlays lid s))" by (simp add: v_def u_def)
  have ok: "overlays_ok v"
    by (rule overlays_ok_empty [OF clear_ok [OF i(3), of lid], where lid = lid])
      (simp_all add: getv, auto simp: v_def u_def)
  have li: "listeners_ok v"
    by (rule listeners_fewer [OF clear_listeners [OF i(4), of lid]])
      (auto simp: layer_overlays_def getv v_def [THEN arg_cong [of _ _ gm_attached]] v_def [THEN arg_cong [of _ _ mp_listeners]]
        v_def [THEN arg_cong [of _ _ mp_fresh]] u_def split: if_splits)
  have "overlays_ok t" by (rule overlays_ok_frame [OF ok]) (simp_all add: t_def)
  moreover have "listeners_ok t" unfolding t_def by (rule drop_ok [OF li])
  moreover have order: "mp_order t = remove1 lid (mp_order s)" by (simp add: t_def v_def u_def)
  moreover have "order_ok t" using i(5) unfolding order_ok_def order by (auto simp: t_def getv)
  moreover have "linked_ok str {} t"
    unfolding linked_ok_def
  proof (intro allI impI)
    fix a q m assume "getSourceRecord t a = Some q \<and> m \<in> set (so_layerIds q)"
    then have "getSourceRecord u a = Some q" "m \<in> set (so_layerIds q)" by (simp_all add: t_def v_def)
    then obtain p where p: "getSourceRecord s a = Some p" "m \<in> set (so_layerIds p)" "ly_source l = Some a \<Longrightarrow> m \<noteq> lid"
      by (auto simp: u_def split: if_splits)
    from linked_okD [OF i(6) p(1,2)] obtain k where k: "getLayerRecord s m = Some k" "ly_source k = Some a" "shown_of k = wanted_of str s m k" by blast
    have m: "m \<noteq> lid" using k p(3) Some by auto
    have "map_option so_data (getSourceRecord t b) = map_option so_data (getSourceRecord s b)" for b
      by (simp add: t_def v_def u_def option.map_comp comp_def)
    then have "wanted_of str t m k = wanted_of str s m k"
      by (intro wanted_cong) (simp_all add: t_def v_def u_def)
    then show "\<exists>l. getLayerRecord t m = Some l \<and> ly_source l = Some a \<and> (m \<notin> {} \<longrightarrow> shown_of l = wanted_of str t m l)"
      using k m by (simp add: t_def getv)
  qed
  ultimately have "base_inv str {} t" by (simp add: base_inv_def)
  moreover have "getLayerRecord t lid = None" by (simp add: t_def getv)
  ultimately show ?thesis using eq by blast
qed

lemma removeLayer_inv:
  assumes inv: "map_inv str s"
  shows "map_inv str (removeLayer str pal lid s)" "getLayerRecord (removeLayer str pal lid s) lid = None"
proof -
  have "map_inv str (removeLayer str pal lid s) \<and> getLayerRecord (removeLayer str pal lid s) lid = None"
  proof (cases "getLayerRecord s lid")
    case None
    then show ?thesis using inv by (simp add: removeLayer_def)
  next
    case (Some l)
    obtain t where t: "base_inv str {} t" "getLayerRecord t lid = None" "removeLayer str pal lid s = updateAllLayerZIndices str pal t"
      using removeLayer_form [OF inv Some, of pal] by blast
    have "rel_option same_shown (getLayerRecord t lid) (getLayerRecord (updateAllLayerZIndices str pal t) lid)"
      using update_all(3) [OF t(1)] by (simp add: restyled_def)
    then show ?thesis using t update_all_inv [OF t(1)] by simp
  qed
  then show "map_inv str (removeLayer str pal lid s)" "getLayerRecord (removeLayer str pal lid s) lid = None" by simp_all
qed

lemma addLayer_form:
  assumes inv: "map_inv str s" and False: "ld_id d \<noteq> []"
  shows "\<exists>t. base_inv str {} t \<and> addLayer str pal d beforeId s = updateAllLayerZIndices str pal t"
proof -
  let ?lid = "ld_id d"
  define s1 where "s1 = (if getLayerRecord s ?lid \<noteq> None then removeLayer str pal ?lid s else s)"
  define l where "l = \<lparr>ly_type = ld_type d, ly_source = ld_source d, ly_filter = ld_filter d, ly_layout = ld_layout d,
    ly_paint = ld_paint d, ly_overlays = [], ly_rendered = []\<rparr>"
  define t where "t = (link_layer (ld_source d) ?lid (set_layer ?lid l s1))\<lparr>mp_order := insert_before beforeId ?lid (mp_order s1)\<rparr>"
  have eq: "addLayer str pal d beforeId s = updateAllLayerZIndices str pal (rerenderLayer str pal ?lid t)"
    using False by (simp add: addLayer_def s1_def l_def t_def Let_def)
  have inv1: "map_inv str s1" and new: "getLayerRecord s1 ?lid = None" using removeLayer_inv [OF inv, of pal ?lid] inv by (auto simp: s1_def)
  note i = map_invD [OF inv1]
  have get: "getLayerRecord t m = (if m = ?lid then Some l else getLayerRecord s1 m)" for m by (simp add: t_def)
  have "overlays_ok t"
    by (rule overlays_ok_empty [OF i(3), where lid = ?lid]) (auto simp: get new l_def, auto simp: t_def)
  moreover have "listeners_ok t"
    by (rule listeners_fewer [OF i(4)]) (auto simp: layer_overlays_def get l_def split: if_splits, auto simp: t_def)
  moreover have "order_ok t"
  proof -
    have "?lid \<notin> set (mp_order s1)" using i(5) new by (simp add: order_ok_def)
    then show ?thesis using i(5) unfolding order_ok_def get by (simp add: t_def insert_before_set insert_before_distinct)
  qed
  moreover have "linked_ok str {?lid} t"
    unfolding linked_ok_def
  proof (intro allI impI)
    fix a q m assume q: "getSourceRecord t a = Some q \<and> m \<in> set (so_layerIds q)"
    show "\<exists>k. getLayerRecord t m = Some k \<and> ly_source k = Some a \<and> (m \<notin> {?lid} \<longrightarrow> shown_of k = wanted_of str t m k)"
    proof (cases "\<exists>p. getSourceRecord s1 a = Some p \<and> m \<in> set (so_layerIds p)")
      case True
      then obtain p where p: "getSourceRecord s1 a = Some p" "m \<in> set (so_layerIds p)" by blast
      from linked_okD [OF i(6) p] obtain k where k: "getLayerRecord s1 m = Some k" "ly_source k = Some a" "shown_of k = wanted_of str s1 m k" by blast
      have "wanted_of str t m k = wanted_of str s1 m k"
        by (rule wanted_cong) (simp_all add: t_def option.map_comp comp_def)
      then show ?thesis using k new by (auto simp: get)
    next
      case False
      then have "m = ?lid" "ld_source d = Some a" using q by (auto simp: t_def split: if_splits)
      then show ?thesis by (simp add: get l_def)
    qed
  qed
  ultimately have base: "base_inv str {?lid} t" by (simp add: base_inv_def)
  show ?thesis unfolding eq using rerender_base(1) [OF base, where lid = ?lid and pal = pal] by auto
qed

lemma addLayer_inv:
  assumes "map_inv str s"
  shows "map_inv str (addLayer str pal d beforeId s)"
proof (cases "ld_id d = []")
  case False
  then show ?thesis using addLayer_form [OF assms False, of pal beforeId] update_all_inv by auto
qed (simp add: addLayer_def assms)

lemma remove_map_inv: "map_inv str s \<Longrightarrow> map_inv str (remove_map s)"
proof -
  assume inv: "map_inv str s"
  note i = map_invD [OF inv]
  let ?u = "drop_listeners (\<lambda>r. True) s"
  let ?v = "fold clearLayerOverlays (map fst (mp_layers s)) ?u"
  let ?t = "remove_map s"
  have u: "overlays_ok ?u" "listeners_ok ?u" using drop_inv [OF inv] map_invD(3,4) by blast+
  note c = clear_list [OF u, of "map fst (mp_layers s)"]
  have t: "?t = ?v\<lparr>mp_order := [], mp_sources := [], mp_featureStates := [], mp_layers := []\<rparr>" by (simp add: remove_map_def Let_def)
  have empty: "layer_overlays ?v m = []" for m
  proof (cases "getLayerRecord s m")
    case (Some l)
    then have "m \<in> fst ` set (mp_layers s)" by (auto simp: getLayerRecord_def dest: map_of_SomeD intro: rev_image_eqI)
    then show ?thesis using c Some by (simp add: layer_overlays_def)
  qed (use c in \<open>simp add: layer_overlays_def\<close>)
  have "gm_drawn ?v = shown_ids ?v" using c overlays_ok_drawn by blast
  also have "\<dots> = {}" using empty by (fastforce simp: shown_ids_def overlay_ids_def layer_overlays_def split: option.splits)
  finally have "gm_drawn ?t = {}" by (simp add: t)
  then have "overlays_ok ?t" by (simp add: overlays_ok_def shown_ids_def t getLayerRecord_def)
  moreover have "listeners_ok ?t"
  proof (rule listeners_fewer)
    show "listeners_ok ?v" using c by blast
  qed (simp_all add: t layer_overlays_def getLayerRecord_def)
  ultimately show ?thesis
    by (simp add: map_inv_def order_ok_def index_ok_def linked_ok_def) (simp add: t layer_overlays_def getLayerRecord_def getSourceRecord_def)
qed

text \<open>The adapter as an event system.\<close>

definition map_start :: "map_state \<Rightarrow> bool" where
  "map_start s \<longleftrightarrow> (\<exists>z. s = new_map z)"

lemma new_map_inv: "map_inv str (new_map z)"
  by (simp add: new_map_def map_inv_def overlays_ok_def listeners_ok_def listeners_core_def bound_to_def layer_overlays_def order_ok_def
      index_ok_def linked_ok_def shown_ids_def getLayerRecord_def getSourceRecord_def)

lemma map_step_inv: "map_inv str s \<Longrightarrow> map_step str pal s e t \<Longrightarrow> map_inv str t"
  by (erule map_stepE, cases e)
    (auto simp: addSource_inv setData_inv removeSource_inv addLayer_inv removeLayer_inv setLayout_inv setPaint_inv setFilter_inv
      move_inv on_inv once_inv drop_inv off_layer_def deliver_inv setFeatureState_inv removeFeatureState_inv zoom_inv remove_map_inv)

interpretation google_map: event_system map_start "map_step str pal" "map_inv str" for str pal
  by unfold_locales (auto simp: map_start_def new_map_inv map_step_inv)

abbreviation map_reach :: "(sv \<Rightarrow> string) \<Rightarrow> palette \<Rightarrow> map_state \<Rightarrow> bool" where
  "map_reach str pal \<equiv> reach map_start (map_step str pal)"

end
