(* ===== verification/MapClaims.thy ===== *)
theory MapClaims
  imports MapRuns
begin

text \<open>
  What the Google map adapter promises its clients, from the invariant of \<open>MapRuns\<close>: what is on the map and in which
  order, what layers show, which handlers an event reaches, how often a handler of \<open>once\<close> runs, and when styles are
  current; at the end three runs in which the map no longer follows the calls.
\<close>

section \<open>Handlers of once\<close>

text \<open>Rendering and styling leave records and calls; numbers only grow.\<close>

definition quiet :: "map_state \<Rightarrow> map_state \<Rightarrow> bool" where
  "quiet s t \<longleftrightarrow> listener_key ` set (mp_listeners t) \<subseteq> listener_key ` set (mp_listeners s) \<and> gm_calls t = gm_calls s \<and> mp_fresh s \<le> mp_fresh t"

lemma quiet_map_refl [simp]: "quiet s s"
  by (simp add: quiet_def)

lemma quiet_map_trans: "quiet s t \<Longrightarrow> quiet t u \<Longrightarrow> quiet s u"
  unfolding quiet_def by (elim conjE, intro conjI) (erule (1) subset_trans, simp, erule (1) le_trans)

lemma quiet_fold: "(\<And>x s. quiet s (f x s)) \<Longrightarrow> quiet s (fold f xs s)"
  by (induction xs arbitrary: s) (auto intro: quiet_map_trans)

lemma quiet_same: "mp_listeners t = mp_listeners s \<Longrightarrow> gm_calls t = gm_calls s \<Longrightarrow> mp_fresh s \<le> mp_fresh t \<Longrightarrow> quiet s t"
  by (simp add: quiet_def)

lemma rebind_records_quiet:
  "rebind_records lid rs s = (rs1, t) \<Longrightarrow> gm_calls t = gm_calls s \<and> mp_fresh s \<le> mp_fresh t"
proof (induction rs arbitrary: s rs1)
  case (Cons r rs)
  obtain r1 s1 where b: "(if ls_layer r = lid then bindLayerListenerRecord r s else (r, s)) = (r1, s1)" by (rule prod.exhaust)
  then have "gm_calls s1 = gm_calls s \<and> mp_fresh s \<le> mp_fresh s1" using bind_record_frame [of r s r1 s1] by (cases "ls_layer r = lid") auto
  moreover obtain rs2 where "rebind_records lid rs s1 = (rs2, t)" using Cons.prems b by (simp add: Let_def split: prod.splits)
  ultimately show ?case using Cons.IH by fastforce
qed simp

lemma rebind_quiet: "quiet s (rebindLayerListeners lid s)"
proof -
  obtain rs t where r: "rebind_records lid (mp_listeners s) s = (rs, t)" by (rule prod.exhaust)
  have "listener_key ` set rs = listener_key ` set (mp_listeners s)" using arg_cong [OF rebound_registry [OF r], of set] by simp
  then show ?thesis using rebind_records_quiet [OF r] by (simp add: rebindLayerListeners_def r quiet_def)
qed

lemma clear_quiet: "quiet s (clearLayerOverlays lid s)"
  by (rule quiet_same) simp_all

lemma style_quiet: "quiet s (applyLayerStyle str pal lid s)"
  by (rule quiet_same) (simp_all add: applyLayerStyle_def split: option.split)

lemma draw_quiet: "quiet s (draw_overlays str pal sid lid shapes s)"
  by (rule quiet_same) (simp_all add: draw_overlays_def Let_def split: option.split)

lemma rerender_quiet: "quiet s (rerenderLayer str pal lid s)"
proof (cases "getLayerRecord s lid")
  case None
  then show ?thesis by (simp add: rerenderLayer_def)
next
  case (Some l)
  then show ?thesis
    by (cases rule: rerender_cases [where str = str and pal = pal])
      (use clear_quiet rebind_quiet draw_quiet quiet_map_trans in \<open>metis\<close>)+
qed

lemma source_quiet: "quiet s (rerenderSourceLayers str pal sid s)"
  unfolding rerenderSourceLayers_def by (auto intro: quiet_fold rerender_quiet split: option.split)

lemma update_quiet: "quiet s (updateAllLayerZIndices str pal s)"
  unfolding updateAllLayerZIndices_def by (intro quiet_fold style_quiet)

lemma drop_quiet: "quiet s (drop_listeners P s)"
  by (auto simp: quiet_def)

lemma removeLayer_quiet: "quiet s (removeLayer str pal lid s)"
proof (cases "getLayerRecord s lid")
  case (Some l)
  let ?u = "unlink_layer (ly_source l) lid (clearLayerOverlays lid s)"
  let ?v = "?u\<lparr>mp_layers := AList.delete lid (mp_layers ?u), mp_order := remove1 lid (mp_order ?u)\<rparr>"
  have "gm_calls ?u = gm_calls s" by (simp add: unlink_layer_def set_source_def split: option.split)
  then have "quiet s ?v" by (intro quiet_same) simp_all
  then show ?thesis using Some quiet_map_trans [OF quiet_map_trans [OF _ drop_quiet] update_quiet] by (simp add: removeLayer_def Let_def)
qed (simp add: removeLayer_def)

lemma addLayer_quiet: "quiet s (addLayer str pal d beforeId s)"
proof (cases "ld_id d = []")
  case False
  define s1 where "s1 = (if getLayerRecord s (ld_id d) \<noteq> None then removeLayer str pal (ld_id d) s else s)"
  define s2 where "s2 = (link_layer (ld_source d) (ld_id d) (set_layer (ld_id d) \<lparr>ly_type = ld_type d, ly_source = ld_source d,
    ly_filter = ld_filter d, ly_layout = ld_layout d, ly_paint = ld_paint d, ly_overlays = [], ly_rendered = []\<rparr> s1))
    \<lparr>mp_order := insert_before beforeId (ld_id d) (mp_order s1)\<rparr>"
  have "quiet s s1" by (simp add: s1_def removeLayer_quiet)
  moreover have "quiet s1 s2"
    by (rule quiet_same) (simp_all add: s2_def link_layer_def set_source_def split: option.split)
  ultimately have "quiet s s2" by (rule quiet_map_trans)
  then show ?thesis using False quiet_map_trans [OF quiet_map_trans [OF _ rerender_quiet] update_quiet]
    by (simp add: addLayer_def s1_def s2_def Let_def)
qed (simp add: addLayer_def)

lemma set_update_quiet: "quiet (set_source sid src s) t \<Longrightarrow> quiet s t" "quiet (set_layer lid l s) t \<Longrightarrow> quiet s t"
  "quiet (s\<lparr>mp_featureStates := m\<rparr>) t \<Longrightarrow> quiet s t" "quiet (s\<lparr>mp_order := ord\<rparr>) t \<Longrightarrow> quiet s t" "quiet (s\<lparr>gm_zoom := z\<rparr>) t \<Longrightarrow> quiet s t"
  by (simp_all add: quiet_def)

lemma remove_map_quiet: "quiet s (remove_map s)"
proof -
  let ?u = "fold clearLayerOverlays (map fst (mp_layers s)) (drop_listeners (\<lambda>r. True) s)"
  have "quiet (drop_listeners (\<lambda>r. True) s) ?u" by (intro quiet_fold clear_quiet)
  then have "quiet s ?u" using drop_quiet quiet_map_trans by blast
  then show ?thesis by (simp add: remove_map_def Let_def quiet_def)
qed

lemma removeSource_quiet: "quiet s (removeSource sid s)"
proof -
  have "quiet s (fold clearLayerOverlays lids s)" for lids by (intro quiet_fold clear_quiet)
  then show ?thesis by (simp add: removeSource_def Let_def quiet_def split: option.split)
qed

definition listens :: "map_event \<Rightarrow> bool" where
  "listens e \<longleftrightarrow> (case e of OnLayer _ _ _ \<Rightarrow> True | OnceLayer _ _ _ \<Rightarrow> True | Deliver _ \<Rightarrow> True | _ \<Rightarrow> False)"

lemma quiet_step: "map_step str pal s e t \<Longrightarrow> \<not> listens e \<Longrightarrow> quiet s t"
  by (erule map_stepE, cases e)
    (auto simp: listens_def removeSource_quiet remove_map_quiet addLayer_quiet removeLayer_quiet off_layer_def drop_quiet
      setLayoutProperty_def applyLayerVisibility_def setPaintProperty_def setFilter_def moveLayer_def zoom_changed_def setData_def
      setFeatureState_def removeFeatureState_def Let_def addSource_def
      intro: set_update_quiet rerender_quiet update_quiet style_quiet source_quiet quiet_same split: option.splits if_splits)

definition handler_known :: "map_state \<Rightarrow> layer_listener \<Rightarrow> bool" where
  "handler_known s r \<longleftrightarrow> (case ls_handler r of Plain _ \<Rightarrow> True
     | OnceHandler k event lid n \<Rightarrow> k < mp_fresh s \<and> ls_event r = event \<and> ls_layer r = lid)"

definition call_known :: "map_state \<Rightarrow> handler \<Rightarrow> bool" where
  "call_known s h \<longleftrightarrow> (case h of Plain _ \<Rightarrow> True
     | OnceHandler k event lid n \<Rightarrow> k < mp_fresh s \<and> (\<forall>r \<in> set (mp_listeners s). ls_handler r \<noteq> h))"

definition calls_of :: "handler \<Rightarrow> map_state \<Rightarrow> nat" where
  "calls_of h s = length (filter (\<lambda>c. fst c = h) (gm_calls s))"

definition once_ok :: "map_state \<Rightarrow> bool" where
  "once_ok s \<longleftrightarrow> (\<forall>r \<in> set (mp_listeners s). handler_known s r) \<and> (\<forall>c \<in> set (gm_calls s). call_known s (fst c)) \<and>
     (\<forall>k event lid n. calls_of (OnceHandler k event lid n) s \<le> 1)"

lemma known_calls [simp]:
  "handler_known (gm_calls_update f s) r = handler_known s r" "call_known (gm_calls_update f s) h = call_known s h" "call_known s (Plain n)"
  by (simp_all add: handler_known_def call_known_def cong: handler.case_cong)

lemma quiet_once:
  assumes "quiet s t" "once_ok s"
  shows "once_ok t"
proof -
  have q: "\<exists>q \<in> set (mp_listeners s). ls_handler q = ls_handler r \<and> ls_event q = ls_event r \<and> ls_layer q = ls_layer r"
    if "r \<in> set (mp_listeners t)" for r
  proof -
    have "listener_key r \<in> listener_key ` set (mp_listeners s)" using assms(1) that by (auto simp: quiet_def)
    then show ?thesis by (auto simp: listener_key_def record_of_def)
  qed
  have "handler_known t r" if r: "r \<in> set (mp_listeners t)" for r
  proof -
    obtain q where "q \<in> set (mp_listeners s)" "ls_handler q = ls_handler r" "ls_event q = ls_event r" "ls_layer q = ls_layer r" using q [OF r] by blast
    moreover from this have "handler_known s q" using assms(2) by (simp add: once_ok_def)
    ultimately show ?thesis using assms(1) by (auto simp: handler_known_def quiet_def split: handler.splits)
  qed
  moreover have "call_known t (fst c)" if "c \<in> set (gm_calls t)" for c
  proof -
    have "call_known s (fst c)" using assms that by (simp add: once_ok_def quiet_def)
    then show ?thesis using q assms(1) by (fastforce simp: call_known_def quiet_def split: handler.splits)
  qed
  moreover have "calls_of h t = calls_of h s" for h using assms(1) by (simp add: calls_of_def quiet_def)
  ultimately show ?thesis using assms(2) by (simp add: once_ok_def)
qed

lemma on_once:
  assumes inv: "map_inv str s" and ok: "once_ok s" and h: "\<And>k event1 lid1 n. h = OnceHandler k event1 lid1 n \<Longrightarrow>
    k < mp_fresh s \<and> event1 = event \<and> lid1 = lid \<and> (\<forall>c \<in> set (gm_calls s). fst c \<noteq> h)"
  shows "once_ok (on_layer event lid h s)"
proof -
  note i = map_invD [OF inv]
  obtain att n r where t: "on_layer event lid h s = s\<lparr>gm_attached := att, mp_fresh := n, mp_listeners := mp_listeners s @ [r]\<rparr>"
      "ls_handler r = h" "ls_event r = event" "ls_layer r = lid" "mp_fresh s < n"
    using on_ok(3) [OF i(3,4), of event lid h] by (auto simp: listener_key_def record_of_def)
  have "handler_known (on_layer event lid h s) q" if "q \<in> set (mp_listeners s) \<or> q = r" for q
    using that ok h t by (fastforce simp: once_ok_def handler_known_def split: handler.splits)
  moreover have "call_known (on_layer event lid h s) (fst c)" if c: "c \<in> set (gm_calls s)" for c
  proof (cases "fst c")
    case (OnceHandler k e l m)
    then have "call_known s (fst c)" "fst c \<noteq> h" using ok c h by (auto simp: once_ok_def)
    then show ?thesis using OnceHandler t by (auto simp: call_known_def)
  qed (simp add: call_known_def)
  ultimately show ?thesis using ok t(1) by (simp add: once_ok_def calls_of_def)
qed

lemma deliver_once:
  assumes inv: "map_inv str s" and ok: "once_ok s"
  shows "once_ok (deliver handle s)"
proof (cases "find (\<lambda>a. at_handle a = handle) (gm_attached s)")
  case None
  then show ?thesis using ok by (simp add: deliver_def)
next
  case (Some a)
  let ?s = "s\<lparr>gm_calls := gm_calls s @ [(at_handler a, at_feature a)]\<rparr>"
  have core: "listeners_core (mp_listeners s) s" using map_invD(4) [OF inv] by (simp add: listeners_ok_def)
  have "a \<in> set (gm_attached s)" using Some by (metis find_Some_iff nth_mem)
  then obtain r where r: "r \<in> set (mp_listeners s)" "ls_handler r = at_handler a"
    using listeners_coreD(7) [OF core] by (force simp: attachment_of_def record_of_def)
  show ?thesis
  proof (cases "at_handler a")
    case (Plain n)
    then have "deliver handle s = ?s" by (simp add: deliver_def Some)
    then show ?thesis using ok Plain by (auto simp: once_ok_def calls_of_def)
  next
    case (OnceHandler k event lid n)
    let ?h = "at_handler a"
    let ?t = "off_layer event lid (Some ?h) ?s"
    have t: "deliver handle s = ?t" by (simp add: deliver_def Some OnceHandler)
    have known: "handler_known s q" if "q \<in> set (mp_listeners s)" for q using ok that by (simp add: once_ok_def)
    have gone: "ls_handler q \<noteq> ?h" if "q \<in> set (mp_listeners ?t)" for q
      using known [of q] that OnceHandler by (auto simp: off_layer_def listener_matches_def handler_known_def)
    have new: "c \<in> set (gm_calls s) \<Longrightarrow> fst c \<noteq> ?h" for c
      using ok r OnceHandler by (fastforce simp: once_ok_def call_known_def)
    have k: "k < mp_fresh s" using known [OF r(1)] r(2) OnceHandler by (simp add: handler_known_def)
    have "call_known ?t (fst c)" if "c \<in> set (gm_calls ?t)" for c
    proof (cases "fst c = ?h")
      case True
      then show ?thesis using gone k OnceHandler by (auto simp: call_known_def off_layer_def)
    next
      case False
      then have "call_known s (fst c)" using ok that by (auto simp: once_ok_def off_layer_def)
      then show ?thesis by (auto simp: call_known_def off_layer_def split: handler.splits)
    qed
    moreover have "handler_known ?t q" if "q \<in> set (mp_listeners ?t)" for q
      using known [of q] that by (auto simp: off_layer_def handler_known_def split: handler.splits)
    moreover have "calls_of (OnceHandler k1 e1 l1 n1) ?t \<le> 1" for k1 e1 l1 n1
    proof (cases "OnceHandler k1 e1 l1 n1 = ?h")
      case True
      then have "filter (\<lambda>c. fst c = OnceHandler k1 e1 l1 n1) (gm_calls s) = []" using new by (auto simp: filter_empty_conv)
      then show ?thesis by (simp add: calls_of_def off_layer_def)
    next
      case False
      then have "?h \<noteq> OnceHandler k1 e1 l1 n1" by simp
      then show ?thesis using ok by (simp add: calls_of_def off_layer_def once_ok_def)
    qed
    ultimately show ?thesis unfolding t once_ok_def by blast
  qed
qed

lemma once_step:
  assumes "map_inv str s \<and> once_ok s" "map_step str pal s e t"
  shows "map_inv str t \<and> once_ok t"
proof
  show "map_inv str t" using map_step_inv assms by blast
  show "once_ok t"
  proof (cases "listens e")
    case False
    then show ?thesis using quiet_once [OF quiet_step [OF assms(2)]] assms(1) by blast
  next
    case True
    have h: "map_handler str pal e s = Some t" using assms(2) by (rule map_stepE)
    from True consider (on) ev lid n where "e = OnLayer ev lid n" | (once) ev lid n where "e = OnceLayer ev lid n" | (deliver) k where "e = Deliver k"
      by (cases e) (auto simp: listens_def)
    then show ?thesis
    proof cases
      case on
      then show ?thesis using on_once [of str s "Plain n" ev lid] assms(1) h by auto
    next
      case once
      let ?s = "s\<lparr>mp_fresh := mp_fresh s + 1\<rparr>" and ?h = "OnceHandler (mp_fresh s) ev lid n"
      have "once_ok ?s" by (rule quiet_once [of s]) (use assms(1) in \<open>auto intro: quiet_same\<close>)
      moreover have "\<forall>c \<in> set (gm_calls s). fst c \<noteq> ?h" using assms(1) by (force simp: once_ok_def call_known_def)
      ultimately have "once_ok (on_layer ev lid ?h ?s)" using assms(1) by (intro on_once [of str]) (auto simp: fresh_inv)
      then show ?thesis using once h by (auto simp: once_layer_def)
    next
      case deliver
      then show ?thesis using deliver_once assms(1) h by auto
    qed
  qed
qed

lemma once_start: "map_start s \<Longrightarrow> map_inv str s \<and> once_ok s"
  unfolding map_start_def using new_map_inv by (auto simp: once_ok_def new_map_def calls_of_def)

interpretation once_handlers: event_system map_start "map_step str pal" "\<lambda>s. map_inv str s \<and> once_ok s" for str pal
  by unfold_locales (rule once_start, assumption, rule once_step)

section \<open>Styles\<close>

definition styled :: "(sv \<Rightarrow> string) \<Rightarrow> palette \<Rightarrow> map_state \<Rightarrow> bool" where
  "styled str pal s \<longleftrightarrow> (\<forall>m l. getLayerRecord s m = Some l \<longrightarrow>
     (\<forall>v \<in> set (ly_overlays l). ov_style v = layer_style str pal (gm_zoom s) l (ov_feature v)))"

text \<open>Every call but the change of a blur.\<close>

definition calm :: "map_event \<Rightarrow> bool" where
  "calm e \<longleftrightarrow> (case e of SetPaint lid k v \<Rightarrow> k \<noteq> ''line-blur'' | _ \<Rightarrow> True)"

lemma styledD: "styled str pal s \<Longrightarrow> getLayerRecord s m = Some l \<Longrightarrow> v \<in> set (ly_overlays l) \<Longrightarrow> ov_style v = layer_style str pal (gm_zoom s) l (ov_feature v)"
  by (simp add: styled_def)

text \<open>A layer that keeps its overlays, type and paint keeps their styles current.\<close>

lemma styled_carry:
  assumes "styled str pal s" "gm_zoom t = gm_zoom s"
    and "\<And>m k. getLayerRecord t m = Some k \<Longrightarrow> ly_overlays k = [] \<or>
      (\<exists>l. getLayerRecord s m = Some l \<and> ly_overlays k = ly_overlays l \<and> ly_type k = ly_type l \<and> ly_paint k = ly_paint l)"
  shows "styled str pal t"
  unfolding styled_def
proof (intro allI impI ballI)
  fix m k v assume k: "getLayerRecord t m = Some k" "v \<in> set (ly_overlays k)"
  then obtain l where "getLayerRecord s m = Some l" "ly_overlays k = ly_overlays l" "ly_type k = ly_type l" "ly_paint k = ly_paint l"
    using assms(3) by fastforce
  then show "ov_style v = layer_style str pal (gm_zoom t) k (ov_feature v)"
    using styledD [OF assms(1)] k layer_style_cong [of k l] by (simp add: assms(2))
qed

lemma styled_layers: "styled str pal s \<Longrightarrow> mp_layers t = mp_layers s \<Longrightarrow> gm_zoom t = gm_zoom s \<Longrightarrow> styled str pal t"
  by (simp add: styled_def getLayerRecord_def)

lemma update_styled:
  assumes "base_inv str X s"
  shows "styled str pal (updateAllLayerZIndices str pal s)"
  unfolding styled_def using update_all(4) [OF assms, of pal] by (auto simp: current_layer_def)

lemma rerender_styled:
  assumes b: "base_inv str X s" and st: "styled str pal s"
  shows "styled str pal (rerenderLayer str pal lid s)"
  unfolding styled_def
proof (intro allI impI ballI)
  let ?t = "rerenderLayer str pal lid s"
  have r: "rendered_from str pal s lid ?t" using b by (intro rerender_ok) (simp_all add: base_inv_def)
  then have z: "gm_zoom ?t = gm_zoom s" by (simp add: rendered_from_def same_registry_def)
  fix m k v assume k: "getLayerRecord ?t m = Some k" "v \<in> set (ly_overlays k)"
  show "ov_style v = layer_style str pal (gm_zoom ?t) k (ov_feature v)"
  proof (cases "m = lid")
    case False
    then show ?thesis using r k styledD [OF st] by (simp add: z rendered_from_def)
  next
    case True
    then have "getLayerRecord s lid \<noteq> None" using k by (auto simp: rerenderLayer_def split: option.splits)
    then obtain l vs where "k = l\<lparr>ly_overlays := vs, ly_rendered := map ov_feature vs\<rparr>" "current_layer str pal s lid (l\<lparr>ly_overlays := vs\<rparr>)"
      using r k(1) True by (auto simp: rendered_from_def)
    then show ?thesis using k(2) z by (simp add: current_layer_def layer_style_def)
  qed
qed

lemma rerender_list_styled:
  assumes "base_inv str X s" "styled str pal s"
  shows "styled str pal (fold (rerenderLayer str pal) lids s)"
  using assms
proof (induction lids arbitrary: X s)
  case (Cons lid lids)
  show ?case using Cons.IH [OF rerender_base(1) [OF Cons.prems(1)] rerender_styled [OF Cons.prems]] by simp
qed simp

lemma source_styled: "base_inv str X s \<Longrightarrow> styled str pal s \<Longrightarrow> styled str pal (rerenderSourceLayers str pal sid s)"
  by (auto simp: rerenderSourceLayers_def intro: rerender_list_styled split: option.split)

lemma setData_styled:
  assumes inv: "map_inv str s" and st: "styled str pal s"
  shows "styled str pal (setData str pal sid data s)"
proof (cases "getSourceRecord s sid")
  case (Some src)
  let ?t = "set_source sid (src\<lparr>so_data := normalizeGeoJsonFeatureCollection data\<rparr>) s"
  have "base_inv str (set (so_layerIds src)) ?t"
    by (rule source_change_inv(1) [OF inv, where sid = sid]; use Some in \<open>auto split: if_splits\<close>)
  then show ?thesis using source_styled styled_layers [OF st, of ?t] by (simp add: setData_def Some)
qed (use st in \<open>simp add: setData_def\<close>)

lemma feature_state_styled:
  assumes inv: "map_inv str s" and st: "styled str pal s"
  shows "styled str pal (rerenderSourceLayers str pal sid (s\<lparr>mp_featureStates := AList.update sid m (mp_featureStates s)\<rparr>))"
proof -
  let ?X = "case getSourceRecord s sid of None \<Rightarrow> {} | Some src \<Rightarrow> set (so_layerIds src)"
  have "base_inv str ?X (s\<lparr>mp_featureStates := AList.update sid m (mp_featureStates s)\<rparr>)"
    by (rule source_change_inv(1) [OF inv, where sid = sid]; auto simp: update_conv')
  then show ?thesis by (rule source_styled) (rule styled_layers [OF st], simp_all)
qed

lemma removeSource_styled:
  assumes inv: "map_inv str s" and st: "styled str pal s"
  shows "styled str pal (removeSource sid s)"
proof -
  define lids where "lids = (case getSourceRecord s sid of None \<Rightarrow> [] | Some src \<Rightarrow> so_layerIds src)"
  let ?u = "fold clearLayerOverlays lids s"
  have t: "removeSource sid s = ?u\<lparr>mp_sources := AList.delete sid (mp_sources ?u), mp_featureStates := AList.delete sid (mp_featureStates ?u)\<rparr>"
    by (simp add: removeSource_def lids_def Let_def split: option.split)
  note c = clear_list [OF map_invD(3,4) [OF inv], of lids]
  show ?thesis
  proof (rule styled_carry [OF st])
    show "gm_zoom (removeSource sid s) = gm_zoom s" using c by (simp add: t same_registry_def)
    show "ly_overlays k = [] \<or> (\<exists>l. getLayerRecord s m = Some l \<and> ly_overlays k = ly_overlays l \<and> ly_type k = ly_type l \<and> ly_paint k = ly_paint l)"
      if "getLayerRecord (removeSource sid s) m = Some k" for m k
      using c that by (auto simp: t split: if_splits)
  qed
qed

lemma paint_irrelevant:
  assumes "ly_type l \<in> {''line'', ''circle'', ''fill''}" "k \<notin> set (paint_properties (ly_type l))" "k \<noteq> ''line-blur''"
  shows "layer_style str pal z (l\<lparr>ly_paint := AList.update k v (ly_paint l)\<rparr>) f = layer_style str pal z l f"
proof -
  have p: "prop_at (AList.update k v ps) q = prop_at ps q" if "q \<noteq> k" for ps q using that by (simp add: prop_at_def update_conv')
  show ?thesis using assms
    by (auto simp: layer_style_def paint_properties_def resolveLineStyleForLayer_def resolveCircleStyleForLayer_def
        resolveFillStyleForLayer_def Let_def p)
qed

lemma overlays_ok_kind: "overlays_ok s \<Longrightarrow> getLayerRecord s lid = Some l \<Longrightarrow> ly_overlays l \<noteq> [] \<Longrightarrow> ly_type l \<in> {''line'', ''circle'', ''fill''}"
  unfolding overlays_ok_def layer_ok_def by blast

lemma setPaint_styled:
  assumes inv: "map_inv str s" and st: "styled str pal s" and k: "k \<noteq> ''line-blur''"
  shows "styled str pal (setPaintProperty str pal lid k v s)"
proof (cases "getLayerRecord s lid")
  case (Some l)
  let ?l = "l\<lparr>ly_paint := AList.update k v (ly_paint l)\<rparr>"
  let ?t = "set_layer lid ?l s"
  have invt: "map_inv str ?t" by (rule set_base(1) [OF inv Some]) simp_all
  show ?thesis
  proof (cases "k \<in> set (paint_properties (ly_type l))")
    case True
    let ?u = "applyLayerStyle str pal lid ?t"
    have z: "gm_zoom ?u = gm_zoom s" by (simp add: applyLayerStyle_def)
    have "styled str pal ?u"
      unfolding styled_def z
    proof (intro allI impI ballI)
      fix m q w assume q: "getLayerRecord ?u m = Some q" "w \<in> set (ly_overlays q)"
      show "ov_style w = layer_style str pal (gm_zoom s) q (ov_feature w)"
      proof (cases "m = lid")
        case True
        then have "q = restyle str pal ?t lid ?l" using q(1) style_get [OF map_invD(3) [OF invt]] by simp
        then show ?thesis using q(2) by (auto simp: restyle_def layer_style_def)
      next
        case False
        then show ?thesis using q styledD [OF st] style_get [OF map_invD(3) [OF invt]] by simp
      qed
    qed
    then show ?thesis using True by (simp add: setPaintProperty_def Some Let_def)
  next
    case False
    have "styled str pal ?t"
      unfolding styled_def
    proof (intro allI impI ballI)
      fix m q w assume q: "getLayerRecord ?t m = Some q" "w \<in> set (ly_overlays q)"
      show "ov_style w = layer_style str pal (gm_zoom ?t) q (ov_feature w)"
      proof (cases "m = lid")
        case True
        then have w: "w \<in> set (ly_overlays l)" "q = ?l" using q by auto
        then have "ly_overlays l \<noteq> []" by auto
        then have "ly_type l \<in> {''line'', ''circle'', ''fill''}" by (rule overlays_ok_kind [OF map_invD(3) [OF inv] Some])
        then show ?thesis using paint_irrelevant [OF _ False k] styledD [OF st Some w(1)] w(2) by simp
      qed (use q styledD [OF st] in simp)
    qed
    then show ?thesis using False by (simp add: setPaintProperty_def Some Let_def)
  qed
qed (use st in \<open>simp add: setPaintProperty_def\<close>)

lemma setFilter_styled:
  assumes inv: "map_inv str s" and st: "styled str pal s"
  shows "styled str pal (setFilter str pal lid e s)"
proof (cases "getLayerRecord s lid")
  case (Some l)
  let ?t = "set_layer lid (l\<lparr>ly_filter := (if sv_truthy e then e else SNull)\<rparr>) s"
  have "base_inv str {lid} ?t" by (rule set_base(2) [OF inv Some]; simp)
  moreover have "styled str pal ?t" by (rule styled_carry [OF st]) (use Some in \<open>auto split: if_splits\<close>)
  ultimately show ?thesis using rerender_styled by (simp add: setFilter_def Some)
qed (use st in \<open>simp add: setFilter_def\<close>)

lemma listeners_styled:
  assumes inv: "map_inv str s" and st: "styled str pal s"
  shows "styled str pal (on_layer event lid h s)" "styled str pal (drop_listeners P s)" "styled str pal (deliver k s)"
proof -
  show "styled str pal (on_layer event lid h s)"
    using on_ok(3) [OF map_invD(3,4) [OF inv], of event lid h] by (auto intro!: styled_layers [OF st])
  show "styled str pal (drop_listeners P s)" by (rule styled_layers [OF st]) simp_all
  show "styled str pal (deliver k s)"
    by (rule styled_layers [OF st]) (simp_all add: deliver_def off_layer_def Let_def split: option.split handler.split)
qed

lemma setLayout_styled:
  assumes inv: "map_inv str s" and st: "styled str pal s"
  shows "styled str pal (setLayoutProperty lid k v s)"
proof (cases "getLayerRecord s lid")
  case (Some l)
  note o = layout_ok [OF map_invD(3,4) [OF inv] Some, of k v]
  show ?thesis
    by (rule styled_carry [OF st]) (use o(3) Some in \<open>auto simp: same_registry_def o(4) split: if_splits\<close>)
qed (use st in \<open>simp add: setLayoutProperty_def\<close>)

lemma styled_step:
  assumes inv: "map_inv str s" and st: "styled str pal s" and step: "map_step str pal s e t" and c: "calm e"
  shows "styled str pal t"
proof -
  have h: "map_handler str pal e s = Some t" using step by (rule map_stepE)
  have add: "styled str pal (addLayer str pal d b s)" for d b
    using addLayer_form [OF inv, of d pal b] update_styled st by (cases "ld_id d = []") (auto simp: addLayer_def)
  have remove: "styled str pal (removeLayer str pal lid s)" for lid
    using removeLayer_form [OF inv, of lid _ pal] update_styled st by (cases "getLayerRecord s lid") (auto simp: removeLayer_def)
  have move: "styled str pal (moveLayer str pal lid b s)" for lid b
    using move_form [OF inv, of pal lid b] update_styled st by auto
  have zoom: "styled str pal (zoom_changed str pal z s)" for z
    unfolding zoom_changed_def by (rule update_styled [OF zoom_form [OF inv]])
  have once: "styled str pal (once_layer ev lid n s)" for ev lid n
    unfolding once_layer_def by (rule listeners_styled(1)) (use inv st in \<open>auto simp: fresh_inv intro: styled_layers\<close>)
  have source: "styled str pal (addSource sid data s)" for sid data
    by (rule styled_layers [OF st]) (simp_all add: addSource_def)
  have "styled str pal (remove_map s)" by (simp add: styled_def remove_map_def getLayerRecord_def Let_def)
  then show ?thesis using st h c add remove move zoom once source setData_styled [OF inv st] feature_state_styled [OF inv st]
      removeSource_styled [OF inv st] setPaint_styled [OF inv st] setFilter_styled [OF inv st] listeners_styled [OF inv st] setLayout_styled [OF inv st]
    by (cases e) (auto simp: calm_def off_layer_def setFeatureState_def removeFeatureState_def Let_def split: if_splits option.splits)
qed

definition calm_step :: "(sv \<Rightarrow> string) \<Rightarrow> palette \<Rightarrow> map_state \<Rightarrow> map_event \<Rightarrow> map_state \<Rightarrow> bool" where
  "calm_step str pal s e t \<longleftrightarrow> map_step str pal s e t \<and> calm e"

lemma styled_start: "map_start s \<Longrightarrow> map_inv str s \<and> styled str pal s"
  unfolding map_start_def using new_map_inv by (auto simp: styled_def new_map_def getLayerRecord_def)

interpretation calm_map: event_system map_start "calm_step str pal" "\<lambda>s. map_inv str s \<and> styled str pal s" for str pal
  by unfold_locales (rule styled_start, assumption, use map_step_inv styled_step in \<open>auto simp: calm_step_def\<close>)

section \<open>A map with a source and a layer\<close>

definition demo_str :: "sv \<Rightarrow> string" where
  "demo_str v = ''7''"

definition demo_palette :: palette where
  "demo_palette = \<lparr>pal_line = SText ''#d4a24a'', pal_circle = SText ''#b68433'', pal_circleStroke = SText ''#ffffff'',
     pal_fill = SText ''#b68433'', pal_fillOutline = SText ''#b68433''\<rparr>"

definition demo_trip :: feature where
  "demo_trip = \<lparr>f_id = SNum 7, f_properties = [(''name'', SText ''work'')],
     f_geometry = Some \<lparr>g_type = ''LineString'', g_coordinates = SArr 0 [SArr 1 [SNum 0, SNum 0], SArr 2 [SNum 1, SNum 2]]\<rparr>, f_state = []\<rparr>"

definition demo_layer :: layer_definition where
  "demo_layer = \<lparr>ld_id = ''trips'', ld_type = ''line'', ld_source = Some ''data'', ld_filter = SNull, ld_layout = [],
     ld_paint = [(''line-width'', SNum 4)]\<rparr>"

definition demo_map :: map_state where
  "demo_map = addLayer demo_str demo_palette demo_layer [] (addSource ''data'' (FeatureCollection [demo_trip]) (new_map 4))"

lemma demo_calm: "reach map_start (calm_step demo_str demo_palette) demo_map"
proof -
  have "reach map_start (calm_step demo_str demo_palette) (new_map 4)" by (rule reach_init) (auto simp: map_start_def)
  then have "reach map_start (calm_step demo_str demo_palette) (addSource ''data'' (FeatureCollection [demo_trip]) (new_map 4))"
    by (rule reach_step [where e = "AddSource ''data'' (FeatureCollection [demo_trip])"]) (simp add: calm_step_def calm_def handled)
  then show ?thesis unfolding demo_map_def
    by (rule reach_step [where e = "AddLayer demo_layer []"]) (simp add: calm_step_def calm_def handled)
qed

lemma calm_reach: "reach map_start (calm_step str pal) s \<Longrightarrow> reach map_start (map_step str pal) s"
  by (induction rule: reach.induct) (auto intro: reach.intros simp: calm_step_def)

lemma demo_reach: "map_reach demo_str demo_palette demo_map"
  by (rule calm_reach [OF demo_calm])

lemmas demo_simps = demo_layer_def demo_trip_def addLayer_def addSource_def set_source_def new_map_def set_layer_def link_layer_def
  getLayerRecord_def getSourceRecord_def insert_before_def updateAllLayerZIndices_def rerenderLayer_def rerenderLineLayer_def rerender_as_def
  line_shapes_def collectLineSegments_def feature_lines_def coordinates_of_def own_coordinates_def line_segment_def toPathFromCoordinates_def
  path_point_def both_numbers_def parseNumber_def clearLayerOverlays_def rebindLayerListeners_def draw_overlays_def applyLayerStyle_def
  normalizeGeoJsonFeatureCollection_def set_add_def with_geometry_def cloneBaseFeature_def new_overlay_def overlay_ids_def
  getLayerZIndex_def index_in_def enrichLayerFeature_def spread_def readFeatureState_def sv_nullish_def getLayerVisibility_def prop_at_def

lemma demo_source: "getSourceRecord demo_map ''data'' = Some \<lparr>so_data = [demo_trip], so_layerIds = [''trips'']\<rparr>"
  by (simp add: demo_map_def demo_simps Let_def)

lemma demo_shown:
  "\<exists>l v. getLayerRecord demo_map ''trips'' = Some l \<and> ly_overlays l = [v] \<and> ov_id v = 0 \<and> ov_shape v = Polyline [(0, 0), (1, 2)] \<and>
     ov_feature v = \<lparr>rf_feature = demo_trip, rf_layer = ''trips'', rf_type = ''line'', rf_source = ''data''\<rparr>"
  by (simp add: demo_map_def demo_simps Let_def)

section \<open>Properties\<close>

lemma reach_invD: "map_reach str pal s \<Longrightarrow> map_inv str s"
  by (rule google_map.reachable_inv)

text \<open>
  C9. A layer that is linked to a source shows the source, after any sequence of calls and events: its overlays are, in
  order, the shapes of the data that pass its filter, each with the feature and its state at that moment, and the
  features that queries see are those of the overlays.
\<close>

theorem layers_show_sources:
  assumes "map_reach str pal s" "getSourceRecord s sid = Some src" "lid \<in> set (so_layerIds src)"
  shows "\<exists>l. getLayerRecord s lid = Some l \<and> ly_source l = Some sid \<and> ly_rendered l = map ov_feature (ly_overlays l) \<and>
    map (\<lambda>v. (ov_shape v, ov_feature v)) (ly_overlays l) =
      map (\<lambda>p. (fst p, enrichLayerFeature str s sid lid (ly_type l) (snd p))) (shapes_of l (so_data src))"
proof -
  note i = map_invD [OF reach_invD [OF assms(1)]]
  from linked_okD [OF i(6) assms(2,3)] obtain l where
    l: "getLayerRecord s lid = Some l" "ly_source l = Some sid" "shown_of l = wanted_of str s lid l" by blast
  then show ?thesis using assms(2) overlays_okD(3) [OF i(3) l(1)] by (simp add: shown_of_def wanted_of_def)
qed

theorem layers_show_sources_witness:
  "\<exists>l. getLayerRecord demo_map ''trips'' = Some l \<and> length (ly_overlays l) = length (shapes_of l [demo_trip])"
  using layers_show_sources [OF demo_reach demo_source, of "''trips''"] by (auto dest: arg_cong [of _ _ length])

text \<open>
  C12. No overlay is lost or left behind: the overlays on Google's map are those of the visible registered layers, no two
  overlays are the same, and after \<open>remove\<close> nothing is drawn and no listener is attached.
\<close>

theorem no_stray_overlays:
  assumes "map_reach str pal s"
  shows "gm_drawn s = {i. \<exists>lid l. getLayerRecord s lid = Some l \<and> getLayerVisibility l \<and> i \<in> set (map ov_id (ly_overlays l))} \<and>
    (\<forall>lid l. getLayerRecord s lid = Some l \<longrightarrow> distinct (map ov_id (ly_overlays l))) \<and>
    (\<forall>a b l m. getLayerRecord s a = Some l \<and> getLayerRecord s b = Some m \<and> a \<noteq> b \<longrightarrow>
       set (map ov_id (ly_overlays l)) \<inter> set (map ov_id (ly_overlays m)) = {}) \<and>
    gm_drawn (remove_map s) = {} \<and> gm_attached (remove_map s) = []"
proof -
  note i = map_invD [OF reach_invD [OF assms]]
  note j = map_invD [OF remove_map_inv [OF reach_invD [OF assms]]]
  have none: "getLayerRecord (remove_map s) m = None" for m by (simp add: remove_map_def getLayerRecord_def Let_def)
  then have "gm_drawn (remove_map s) = {}" using overlays_ok_drawn [OF j(3)] by (simp add: shown_ids_def)
  moreover have "mp_listeners (remove_map s) = []"
  proof -
    have "mp_listeners (fold clearLayerOverlays lids u) = mp_listeners u" for lids u by (induction lids arbitrary: u) simp_all
    then show ?thesis by (simp add: remove_map_def Let_def)
  qed
  then have "gm_attached (remove_map s) = []"
    using j(4) listeners_coreD(7) [of "mp_listeners (remove_map s)" "remove_map s"] by (cases "gm_attached (remove_map s)") (auto simp: listeners_ok_def)
  moreover have "\<forall>a b l m. getLayerRecord s a = Some l \<and> getLayerRecord s b = Some m \<and> a \<noteq> b \<longrightarrow>
      set (map ov_id (ly_overlays l)) \<inter> set (map ov_id (ly_overlays m)) = {}"
    using i(3) unfolding overlays_ok_def overlay_ids_def by blast
  ultimately show ?thesis
    using overlays_ok_drawn [OF i(3)] overlays_okD(1) [OF i(3)] unfolding shown_ids_def overlay_ids_def by blast
qed

theorem no_stray_overlays_witness: "gm_drawn demo_map = {0} \<and> gm_drawn (remove_map demo_map) = {}"
proof -
  have "getLayerRecord demo_map m \<noteq> None \<Longrightarrow> m = ''trips''" for m by (simp add: demo_map_def demo_simps Let_def split: if_splits)
  moreover obtain l v where "getLayerRecord demo_map ''trips'' = Some l" "ly_overlays l = [v]" "ov_id v = 0" "getLayerVisibility l"
    by (simp add: demo_map_def demo_simps Let_def)
  ultimately have "{i. \<exists>lid l. getLayerRecord demo_map lid = Some l \<and> getLayerVisibility l \<and> i \<in> set (map ov_id (ly_overlays l))} = {0}"
    by fastforce
  then show ?thesis using no_stray_overlays [OF demo_reach] by simp
qed

text \<open>
  C27. The drawing order lists every registered layer once, and the index of an overlay is the place of its layer in it, so
  that layers are drawn in this order whatever was added, moved and removed before.
\<close>

theorem drawing_order:
  assumes "map_reach str pal s"
  shows "distinct (mp_order s) \<and> (\<forall>m. m \<in> set (mp_order s) \<longleftrightarrow> getLayerRecord s m \<noteq> None) \<and>
    (\<forall>k < length (mp_order s). \<forall>l. getLayerRecord s (mp_order s ! k) = Some l \<longrightarrow> (\<forall>v \<in> set (ly_overlays l). ov_zIndex v = k + 1))"
proof -
  note i = map_invD [OF reach_invD [OF assms]]
  have dist: "distinct (mp_order s)" using i(5) by (simp add: order_ok_def)
  have at: "index_in (mp_order s ! k) (mp_order s) = k" if k: "k < length (mp_order s)" for k
  proof -
    have "takeWhile (\<lambda>y. y \<noteq> mp_order s ! k) (mp_order s) = take k (mp_order s)"
      by (rule takeWhile_eq_take_P_nth) (use dist k in \<open>auto simp: nth_eq_iff_index_eq\<close>)
    then show ?thesis using k by (simp add: index_in_def)
  qed
  have "ov_zIndex v = k + 1" if "k < length (mp_order s)" "getLayerRecord s (mp_order s ! k) = Some l" "v \<in> set (ly_overlays l)" for k l v
  proof -
    have "v \<in> set (layer_overlays s (mp_order s ! k))" using that(2,3) by (simp add: layer_overlays_def)
    then show ?thesis using i(2) at [OF that(1)] that(1) by (simp add: index_ok_def getLayerZIndex_def)
  qed
  then show ?thesis using i(5) by (simp add: order_ok_def)
qed

theorem drawing_order_witness: "mp_order demo_map = [''trips''] \<and> getLayerRecord demo_map ''trips'' \<noteq> None"
  using drawing_order [OF demo_reach] by (simp add: demo_map_def demo_simps Let_def)

text \<open>
  Moving a layer before another one puts it directly before it and leaves the others in their order.
\<close>

theorem moveLayer_before:
  assumes "map_reach str pal s" "getLayerRecord s lid \<noteq> None" "b \<in> set (mp_order s)" "b \<noteq> lid" "b \<noteq> []"
  shows "\<exists>below above. mp_order (moveLayer str pal lid b s) = below @ lid # b # above \<and> removeAll lid (mp_order s) = below @ b # above"
proof -
  note i = map_invD [OF reach_invD [OF assms(1)]]
  let ?rest = "remove1 lid (mp_order s)"
  have mem: "lid \<in> set (mp_order s)" "b \<in> set ?rest" using i(5) assms by (auto simp: order_ok_def)
  have upd: "mp_order (updateAllLayerZIndices str pal t) = mp_order t" for t
  proof -
    have "mp_order (fold (applyLayerStyle str pal) ids u) = mp_order u" for ids u
      by (induction ids arbitrary: u) (simp_all add: applyLayerStyle_def split: option.split)
    then show ?thesis by (simp add: updateAllLayerZIndices_def)
  qed
  have "mp_order (moveLayer str pal lid b s) = takeWhile (\<lambda>y. y \<noteq> b) ?rest @ lid # dropWhile (\<lambda>y. y \<noteq> b) ?rest"
  proof -
    have "take (index_in b ?rest) ?rest = takeWhile (\<lambda>y. y \<noteq> b) ?rest" "drop (index_in b ?rest) ?rest = dropWhile (\<lambda>y. y \<noteq> b) ?rest"
      by (simp_all add: index_in_def takeWhile_eq_take [symmetric] dropWhile_eq_drop [symmetric])
    then show ?thesis using assms mem by (auto simp: moveLayer_def upd insert_before_def)
  qed
  moreover obtain above where "dropWhile (\<lambda>y. y \<noteq> b) ?rest = b # above"
    using mem(2) by (metis (mono_tags, lifting) dropWhile_eq_Nil_conv hd_dropWhile list.collapse)
  moreover have "removeAll lid (mp_order s) = ?rest" using i(5) by (simp add: order_ok_def distinct_remove1_removeAll)
  ultimately show ?thesis by (metis takeWhile_dropWhile_id)
qed

theorem moveLayer_before_witness:
  "let s = addLayer demo_str demo_palette (demo_layer\<lparr>ld_id := ''top''\<rparr>) [] demo_map
   in \<exists>below above. mp_order (moveLayer demo_str demo_palette ''top'' ''trips'' s) = below @ ''top'' # ''trips'' # above"
proof -
  let ?s = "addLayer demo_str demo_palette (demo_layer\<lparr>ld_id := ''top''\<rparr>) [] demo_map"
  have r: "map_reach demo_str demo_palette ?s"
    by (rule reach_step [OF demo_reach, where e = "AddLayer (demo_layer\<lparr>ld_id := ''top''\<rparr>) []"]) (simp add: handled)
  have "getLayerRecord ?s ''top'' \<noteq> None" "''trips'' \<in> set (mp_order ?s)" by (simp_all add: demo_map_def demo_simps Let_def)
  from moveLayer_before [OF r this] show ?thesis unfolding Let_def by fastforce
qed

text \<open>
  C10. An event on an overlay reaches the handlers of its layer, each exactly once and in the order in which they were
  registered, whatever was drawn again in between; each gets the feature of the overlay.
\<close>

theorem events_reach_handlers:
  assumes "map_reach str pal s" "getLayerRecord s lid = Some l" "v \<in> set (ly_overlays l)"
  shows "map (\<lambda>a. (at_event a, at_handler a, at_feature a)) (filter (\<lambda>a. at_overlay a = ov_id v) (gm_attached s)) =
      map (\<lambda>r. (toGoogleEventName (ls_event r), ls_handler r, ov_feature v)) (filter (\<lambda>r. ls_layer r = lid) (mp_listeners s)) \<and>
    (\<forall>a \<in> set (gm_attached s). gm_calls (deliver (at_handle a) s) = gm_calls s @ [(at_handler a, at_feature a)])"
proof
  note i = map_invD [OF reach_invD [OF assms(1)]]
  let ?as = "filter (\<lambda>a. at_overlay a = ov_id v) (gm_attached s)" and ?rs = "filter (\<lambda>r. ls_layer r = lid) (mp_listeners s)"
  have core: "listeners_core (mp_listeners s) s" using i(4) by (simp add: listeners_ok_def)
  have "v \<in> set (layer_overlays s lid)" using assms(2,3) by (simp add: layer_overlays_def)
  then have b: "map (\<lambda>a. (at_key a, at_feature a)) ?as = map (\<lambda>r. (ls_key r, ov_feature v)) ?rs"
    using i(4) by (simp add: listeners_ok_def bound_to_def bound_at_def)
  show "map (\<lambda>a. (at_event a, at_handler a, at_feature a)) ?as =
      map (\<lambda>r. (toGoogleEventName (ls_event r), ls_handler r, ov_feature v)) ?rs"
  proof (rule nth_equalityI)
    show len: "length (map (\<lambda>a. (at_event a, at_handler a, at_feature a)) ?as) =
        length (map (\<lambda>r. (toGoogleEventName (ls_event r), ls_handler r, ov_feature v)) ?rs)"
      using arg_cong [OF b, of length] by simp
    fix k assume "k < length (map (\<lambda>a. (at_event a, at_handler a, at_feature a)) ?as)"
    then have k: "k < length ?as" "k < length ?rs" using len by simp_all
    have e: "at_key (?as ! k) = ls_key (?rs ! k)" "at_feature (?as ! k) = ov_feature v"
      using arg_cong [OF b, of "\<lambda>xs. xs ! k"] k by simp_all
    have "?as ! k \<in> set (gm_attached s)" "?rs ! k \<in> set (mp_listeners s)" using nth_mem [OF k(1)] nth_mem [OF k(2)] by simp_all
    moreover from this obtain r where r: "r \<in> set (mp_listeners s)" "attachment_of (?as ! k) = record_of r"
      using listeners_coreD(7) [OF core] by blast
    ultimately have "r = ?rs ! k" using e(1) listeners_coreD(2) [OF core] by (auto simp: attachment_of_def record_of_def distinct_map inj_on_def)
    then show "map (\<lambda>a. (at_event a, at_handler a, at_feature a)) ?as ! k =
        map (\<lambda>r. (toGoogleEventName (ls_event r), ls_handler r, ov_feature v)) ?rs ! k"
      using r(2) e(2) k by (simp add: attachment_of_def record_of_def)
  qed
  show "\<forall>a \<in> set (gm_attached s). gm_calls (deliver (at_handle a) s) = gm_calls s @ [(at_handler a, at_feature a)]"
  proof
    fix a assume a: "a \<in> set (gm_attached s)"
    have "find (\<lambda>b. at_handle b = at_handle a) (gm_attached s) = Some a"
    proof (cases "find (\<lambda>b. at_handle b = at_handle a) (gm_attached s)")
      case None
      then show ?thesis using a by (auto simp: find_None_iff)
    next
      case (Some c)
      then have "c \<in> set (gm_attached s)" "at_handle c = at_handle a" unfolding find_Some_iff by auto
      then show ?thesis using same_handle [OF core _ a] Some by simp
    qed
    then show "gm_calls (deliver (at_handle a) s) = gm_calls s @ [(at_handler a, at_feature a)]"
      by (simp add: deliver_def off_layer_def Let_def split: handler.split)
  qed
qed

definition demo_clicks :: map_state where
  "demo_clicks = on_layer ''click'' ''trips'' (Plain 1) (once_layer ''mouseenter'' ''trips'' 2 demo_map)"

lemma clicks_reach: "map_reach demo_str demo_palette demo_clicks"
proof -
  have "map_reach demo_str demo_palette (once_layer ''mouseenter'' ''trips'' 2 demo_map)"
    by (rule reach_step [OF demo_reach, where e = "OnceLayer ''mouseenter'' ''trips'' 2"]) (simp add: handled)
  then show ?thesis unfolding demo_clicks_def
    by (rule reach_step [where e = "OnLayer ''click'' ''trips'' 1"]) (simp add: handled)
qed

lemmas click_simps = demo_clicks_def demo_map_def demo_simps once_layer_def on_layer_def bindLayerListenerRecord_def clearLayerBindings_def
  attach_def toGoogleEventName_def

theorem events_reach_handlers_witness:
  "\<exists>a b. map at_event (filter (\<lambda>a. at_overlay a = 0) (gm_attached demo_clicks)) = [''mouseover'', ''click''] \<and>
     gm_attached demo_clicks = [a, b] \<and> gm_calls (deliver (at_handle b) demo_clicks) = [(Plain 1, at_feature b)]"
proof -
  obtain l v where l: "getLayerRecord demo_clicks ''trips'' = Some l" "ly_overlays l = [v]" "ov_id v = 0"
    by (simp add: click_simps Let_def)
  have ls: "map ls_event (filter (\<lambda>r. ls_layer r = ''trips'') (mp_listeners demo_clicks)) = [''mouseenter'', ''click'']"
    by (simp add: click_simps Let_def)
  obtain a b where ab: "gm_attached demo_clicks = [a, b]" "at_handler b = Plain 1" by (simp add: click_simps Let_def)
  have calls: "gm_calls demo_clicks = []" by (simp add: click_simps Let_def)
  note t = events_reach_handlers [OF clicks_reach l(1), of v]
  have "map fst (map (\<lambda>a. (at_event a, at_handler a, at_feature a)) (filter (\<lambda>a. at_overlay a = 0) (gm_attached demo_clicks))) =
      map toGoogleEventName (map ls_event (filter (\<lambda>r. ls_layer r = ''trips'') (mp_listeners demo_clicks)))"
    using t l(2,3) by (simp add: comp_def)
  then have "map at_event (filter (\<lambda>a. at_overlay a = 0) (gm_attached demo_clicks)) = [''mouseover'', ''click'']"
    unfolding ls by (simp add: comp_def toGoogleEventName_def)
  then show ?thesis using t l(2) ab calls by auto
qed

text \<open>
  C11. A handler given to \<open>once\<close> runs at most once, over all overlays of its layer and whatever is drawn again; when it has
  run, nothing is attached that could run it again.
\<close>

theorem once_runs_once:
  assumes "map_reach str pal s"
  shows "length (filter (\<lambda>c. fst c = OnceHandler k event lid n) (gm_calls s)) \<le> 1 \<and>
    (\<forall>c \<in> set (gm_calls s). fst c = OnceHandler k event lid n \<longrightarrow> (\<forall>a \<in> set (gm_attached s). at_handler a \<noteq> fst c))"
proof -
  have s: "listeners_ok s" "once_ok s" using once_handlers.reachable_inv [OF assms] by (simp_all add: map_inv_def)
  have "at_handler a \<noteq> fst c" if c: "c \<in> set (gm_calls s)" "fst c = OnceHandler k event lid n" and a: "a \<in> set (gm_attached s)" for c a
  proof -
    obtain r where "r \<in> set (mp_listeners s)" "ls_handler r = at_handler a"
      using s(1) listeners_coreD(7) [of "mp_listeners s" s a] a by (auto simp: listeners_ok_def attachment_of_def record_of_def)
    moreover have "call_known s (fst c)" using s(2) c(1) by (simp add: once_ok_def)
    ultimately show ?thesis using c(2) by (auto simp: call_known_def)
  qed
  then show ?thesis using s(2) by (auto simp: once_ok_def calls_of_def)
qed

theorem once_runs_once_witness:
  "\<exists>h. length (filter (\<lambda>c. fst c = h) (gm_calls (deliver 3 demo_clicks))) = 1 \<and> (\<forall>a \<in> set (gm_attached (deliver 3 demo_clicks)). at_handler a \<noteq> h)"
proof -
  have r: "map_reach demo_str demo_palette (deliver 3 demo_clicks)"
    by (rule reach_step [OF clicks_reach, where e = "Deliver 3"]) (simp add: handled)
  have "\<exists>f. gm_calls (deliver 3 demo_clicks) = [(OnceHandler 1 ''mouseenter'' ''trips'' 2, f)]"
    by (simp add: click_simps Let_def deliver_def off_layer_def drop_listeners_def fold_clear_bindings)
  then show ?thesis using once_runs_once [OF r, of 1 "''mouseenter''" "''trips''" 2]
    by (intro exI [of _ "OnceHandler 1 ''mouseenter'' ''trips'' 2"]) auto
qed

text \<open>
  C26. Unless a blur is set, every overlay has the style that the paint of its layer gives at the present zoom, after any
  calls, changes of the zoom and of the data.
\<close>

theorem styles_current:
  assumes "reach map_start (calm_step str pal) s" "getLayerRecord s lid = Some l" "v \<in> set (ly_overlays l)"
  shows "ov_style v =
    (if ly_type l = ''line'' then resolveLineStyleForLayer str pal (gm_zoom s) (ly_paint l) (Some (rf_feature (ov_feature v)))
     else if ly_type l = ''circle'' then resolveCircleStyleForLayer str pal (gm_zoom s) (ly_paint l)
     else resolveFillStyleForLayer str pal (gm_zoom s) (ly_paint l))"
proof -
  have "styled str pal s" using calm_map.reachable_inv [OF assms(1)] by simp
  from styledD [OF this assms(2,3)] show ?thesis by (simp add: layer_style_def)
qed

theorem styles_current_witness:
  "\<exists>l v. getLayerRecord demo_map ''trips'' = Some l \<and> ly_overlays l = [v] \<and>
     ov_style v = resolveLineStyleForLayer demo_str demo_palette (gm_zoom demo_map) (ly_paint l) (Some demo_trip)"
proof -
  obtain l v where "getLayerRecord demo_map ''trips'' = Some l" "ly_overlays l = [v]" "rf_feature (ov_feature v) = demo_trip" "ly_type l = ''line''"
    by (simp add: demo_map_def demo_simps Let_def)
  then show ?thesis using styles_current [OF demo_calm, of "''trips''" l v] by simp
qed

text \<open>
  What a query finds: nothing in hidden or unknown layers, all features of a visible layer when no area is given or it
  cannot be read, never more than that for a point or a rectangle, and only features of the layers asked for.
\<close>

theorem query_finds:
  assumes "map_reach str pal s"
  shows "(\<forall>l. getLayerRecord s lid = Some l \<longrightarrow>
       queryRenderedFeatures project None [lid] s = (if getLayerVisibility l then map ov_feature (ly_overlays l) else [])) \<and>
    set (queryRenderedFeatures project area lids s) \<subseteq> set (queryRenderedFeatures project None lids s) \<and>
    (\<forall>f \<in> set (queryRenderedFeatures project area lids s). rf_layer f \<in> set lids)"
proof -
  note i = map_invD [OF reach_invD [OF assms]]
  have ren: "ly_rendered l = map ov_feature (ly_overlays l)" if "getLayerRecord s m = Some l" for m l
    by (rule overlays_okD(3) [OF i(3) that])
  have sub: "set (layer_hits project a l) \<subseteq> set (layer_hits project Everywhere l)"
    "\<forall>f \<in> set (layer_hits project a l). rf_layer f = m" if "getLayerRecord s m = Some l" for m l a
    using ren [OF that] overlays_okD(4) [OF i(3) that] by (auto simp: layer_hits_def split: query_area.splits if_splits)
  have mem: "f \<in> set (queryRenderedFeatures project a lids s) \<longleftrightarrow>
      (\<exists>m \<in> set lids. \<exists>l. getLayerRecord s m = Some l \<and> f \<in> set (layer_hits project (area_of a) l))" for f a
  proof -
    have "f \<in> set (case getLayerRecord s m of None \<Rightarrow> [] | Some l \<Rightarrow> layer_hits project (area_of a) l) \<longleftrightarrow>
        (\<exists>l. getLayerRecord s m = Some l \<and> f \<in> set (layer_hits project (area_of a) l))" for m
      by (cases "getLayerRecord s m") simp_all
    then show ?thesis by (simp add: queryRenderedFeatures_def)
  qed
  have none: "area_of None = Everywhere" by (simp add: area_of_def)
  have "f \<in> set (queryRenderedFeatures project None lids s) \<and> rf_layer f \<in> set lids"
    if found: "f \<in> set (queryRenderedFeatures project area lids s)" for f
  proof -
    obtain m l where m: "m \<in> set lids" "getLayerRecord s m = Some l" "f \<in> set (layer_hits project (area_of area) l)"
      using found unfolding mem by blast
    show ?thesis unfolding mem none using m(1,2) subsetD [OF sub(1) [OF m(2)] m(3)] bspec [OF sub(2) [OF m(2)] m(3)] by auto
  qed
  moreover have "queryRenderedFeatures project None [lid] s = (if getLayerVisibility l then map ov_feature (ly_overlays l) else [])"
    if "getLayerRecord s lid = Some l" for l
    using that ren [OF that] by (simp add: queryRenderedFeatures_def none layer_hits_def)
  ultimately show ?thesis by blast
qed

theorem query_finds_witness:
  "map rf_feature (queryRenderedFeatures (\<lambda>p. Some p) None [''trips''] demo_map) = [demo_trip]"
proof -
  obtain l v where "getLayerRecord demo_map ''trips'' = Some l" "ly_overlays l = [v]" "rf_feature (ov_feature v) = demo_trip" "getLayerVisibility l"
    by (simp add: demo_map_def demo_simps Let_def)
  then show ?thesis using query_finds [OF demo_reach, of "''trips''" "\<lambda>p. Some p"] by simp
qed

section \<open>Where the map stops following\<close>

text \<open>Setting a blur changes the width a line should have, but not the line, which keeps its width until the zoom changes.\<close>

lemma line_blur_stale:
  "\<exists>l v. getLayerRecord (setPaintProperty demo_str demo_palette ''trips'' ''line-blur'' (SNum 3) demo_map) ''trips'' = Some l \<and> ly_overlays l = [v] \<and>
     ov_style v = LineStyle (SText ''#d4a24a'') (85 / 100) 4 \<and>
     layer_style demo_str demo_palette 4 l (ov_feature v) = LineStyle (SText ''#d4a24a'') (85 / 100) 10"
  by (simp add: demo_map_def demo_simps Let_def setPaintProperty_def paint_properties_def layer_style_def resolveLineStyleForLayer_def
      demo_palette_def resolveNumericStyle_def resolveColorStyle_def first_value_def isColorLike_def clamp_real_def
      starts_with_def str_lower_def array_elements_def evaluateNumericExpression_def DEFAULT_LINE_WIDTH_def)

text \<open>A source that is added again forgets its layers: they keep their old overlays, and new data no longer
  reaches them. The same holds for layers that were added before their source.\<close>

lemma readded_source_forgets:
  assumes "sid \<noteq> []"
  shows "mp_layers (setData str pal sid data (addSource sid old s)) = mp_layers s"
  using assms by (simp add: setData_def addSource_def rerenderSourceLayers_def getSourceRecord_def set_source_def update_conv')

text \<open>A feature state for the source with the empty name is an error, where other bad arguments are ignored.\<close>

lemma empty_source_raises: "setFeatureState str pal [] (SNum x) st s = None"
  by (simp add: setFeatureState_def sv_nullish_def)

end
