(* ===== verification/Spec2Isabelle.thy ===== *)
theory Spec2Isabelle
  imports CoverageStall GenerationStream NavRuns RequestPool StoreShape StoreRequests DataUtils JobRuns
    DriveSimulation TripSync LoadingManager TaskTracking MemoryStrata InsightStats TerrainMesh FormatDates
    MapClaims
begin

text \<open>
  Verification of the browser front end of EveryStreet (\<^verbatim>\<open>static/js/modules\<close>), the program that plans and
  follows routes over the streets of an area that have not been driven yet.

  \<^bold>\<open>The program.\<close> A page is a set of modules that share a store, an HTTP client and a few utilities. The
  live navigation takes positions from the browser, matches them to a route loaded from the server, drives
  a state machine that the panel and the map show, and marks street segments as driven, which it sends to the
  server in batches. Route generation, coverage jobs and trip synchronisation run on the server; modules
  of the page follow them through event streams with polling as a fallback. Requests, timers and streams
  interleave, and most of what can go wrong is in their order.

  \<^bold>\<open>How it is modelled.\<close> A module or class is a record of its variables, an operation a function on it. An
  \<^verbatim>\<open>async\<close> function is split at each \<^verbatim>\<open>await\<close>: the part before it puts what waits into the state, and one
  function per outcome continues. The listeners, timers and answers of a component are the events of a step
  function or relation, in any order the browser allows. Calls to the page, the map and other parts that are
  not modelled are recorded in order. Numbers are exact reals with the infinities and \<open>NaN\<close> (\<open>jsnum\<close>);
  sets and maps keep their insertion order. The network, the clock, the browser's storage quota, JSON
  and the answers of the server are parameters or parts of the events. Recursion is structural or has a
  termination proof, and nothing uses fuel.

  \<^bold>\<open>Theories.\<close>
  \<^item> \<open>JSBase\<close>: JavaScript numbers, sets, maps, strings; the locales \<open>js_set\<close> (what a \<^verbatim>\<open>Set\<close> promises its
    clients) and \<open>event_system\<close> (start states, steps, an invariant, and its theorem for all reachable
    states), which every component with events interprets.
  \<^item> \<open>GeoMath\<close>: \<^verbatim>\<open>utils/geo-math.js\<close> and \<^verbatim>\<open>live-navigation/live-navigation-geo.js\<close>; distances, bearings, the
    projection on a segment and its optimality.
  \<^item> \<open>NavCoverage\<close>, \<open>CoverageRuns\<close>, \<open>CoverageStall\<close>: class \<^verbatim>\<open>LiveNavigationCoverage\<close>; driven and undriven
    segments make up the loaded ones, and partition them when loads do not overlap; the spatial index
    finds every segment in reach, a driven segment is never lost by failing requests; and runs in which
    overlapping loads and persistence go wrong.
  \<^item> \<open>NavState\<close>, \<open>NavGps\<close>, \<open>NavRoute\<close>, \<open>GenerationStream\<close>: the state machine with its searches for a start
    point, the geolocation service and the smoothing of positions, the route computations and the area
    cache of \<^verbatim>\<open>features/navigation-core\<close>, and the progress stream of route generation.
  \<^item> \<open>Navigator\<close>, \<open>NavRuns\<close>: the controller \<^verbatim>\<open>LiveNavigationNavigator\<close> that composes them; its invariant over all
    events, the edges of the state machine, arrival, the end of navigation and late answers.
  \<^item> \<open>ApiClient\<close>, \<open>RequestPool\<close>: \<^verbatim>\<open>core/api-client.js\<close> and \<^verbatim>\<open>features/server-logs/request-pool.js\<close>; retries,
    response handling and cache, and the pool of workers as a refinement of the plain map.
  \<^item> \<open>Store\<close>, \<open>StoreShape\<close>, \<open>StoreRequests\<close>: \<^verbatim>\<open>core/store.js\<close> and \<^verbatim>\<open>core/url-state.js\<close>; paths, what of the
    filters and layers survives a reload of the address, the type of the state tree, and the request management with
    \<^verbatim>\<open>fetchWithRetry\<close> of \<^verbatim>\<open>utils/data.js\<close>.
  \<^item> \<open>DataUtils\<close>: the rest of \<^verbatim>\<open>utils/data.js\<close>; debounce and throttle against direct descriptions, storage, errors.
  \<^item> \<open>JobTracker\<close>, \<open>JobRuns\<close>: \<^verbatim>\<open>ui/global-job-tracker.js\<close>; the stored job is the active one, polling gives up.
  \<^item> \<open>DriveSimulation\<close>: \<^verbatim>\<open>optimal-route/simulation.js\<close>; results are never shown for another selection.
  \<^item> \<open>TripSync\<close>: \<^verbatim>\<open>trip-sync.js\<close>; how many automatic starts are made, when completion is reported.
  \<^item> \<open>LoadingManager\<close>, \<open>TaskTracking\<close>: \<^verbatim>\<open>ui/loading-manager.js\<close> and \<^verbatim>\<open>features/settings/task-manager/sse.js\<close>.
  \<^item> \<open>JSDate\<close>: days, months and years of the Gregorian calendar as \<^verbatim>\<open>Date\<close> computes them, used by the next ones.
  \<^item> \<open>StrataChapters\<close>, \<open>MemoryStrata\<close>: \<^verbatim>\<open>features/memory-city/strata.js\<close>; chapters partition the memories of a city, the
    search for a point of the timeline, colours and heights.
  \<^item> \<open>InsightPeriods\<close>, \<open>InsightStats\<close>: \<^verbatim>\<open>features/insights/derived-insights.js\<close>; periods cover the trips once each, scores.
  \<^item> \<open>Terrain\<close>, \<open>TerrainStreets\<close>, \<open>TerrainMesh\<close>: \<^verbatim>\<open>features/coverage-diorama/terrain.js\<close>; tiles and the mosaic of heights,
    streets and boundaries on it, and the mesh, which is closed.
  \<^item> \<open>Formatting\<close>, \<open>FormatDates\<close>: \<^verbatim>\<open>utils/formatting.js\<close>; numbers, durations, escaping, dates and week ranges.
  \<^item> \<open>StyleExpr\<close>, \<open>MapShapes\<close>, \<open>MapLayers\<close>, \<open>MapMethods\<close>: \<^verbatim>\<open>maps/google_map.js\<close>, the adapter that gives Google's map the
    interface of Mapbox; style expressions and the meaning of filters, shapes and hits on the screen, the registries of sources,
    layers and overlays, and the methods on them. \<open>MapInvariant\<close> and \<open>MapRuns\<close> show that overlays, listeners and
    registries stay consistent under every method; \<open>MapClaims\<close> draws from it what a client relies on: layers show
    what their sources hold, no overlay is left behind, handlers run once per event, styles are current.

  \<^bold>\<open>Interaction.\<close> \<open>Navigator\<close> calls the operations of the navigation theories on the fields of its state.
  \<open>StoreRequests\<close> and \<open>DataUtils\<close> take errors of \<open>ApiClient\<close>. The
  theories of the map adapter build on each other and take texts and numbers from \<open>Formatting\<close>. The other components meet only through the
  server, the address and the storages.

  \<^bold>\<open>Findings.\<close> Some theorems and lemmas state behaviour the code does not mean to have, each with the run or
  the inputs that show it: segments counted twice, or driven and undriven at once, after overlapping loads,
  stalled persistence after overlapping requests, routes installed for another area, a stale date in the
  address that wins over a chosen one, abort keys that forget a request, controllers of searches that stay
  registered, automatic starts made after the clean-up of the page that armed them, jobs
  stopped by the delayed end of another, completions that are not reported, network errors that are not
  recognised, layers that no longer follow a source that was added again, line widths that ignore a new blur.

  \<^bold>\<open>Not modelled.\<close> Rounding of floating point numbers; drawing on the page; the map libraries, of which the
  adapter uses overlays, listeners, zoom and projection; cameras, popups and markers of the adapter and the features
  that draw through it; the pages that render tables, charts and forms around requests (trips, recurring routes,
  coverage management and journal, map matching, insights, visits, settings, imports); the
  three-dimensional scenes; page transitions; the Python back end.
\<close>

section \<open>Properties that span components\<close>

lemma not_found_settles:
  assumes "net 0 = Response r" "status r = 404"
  shows "fetchWithRetry net retryAttempts = (Inr r, [])"
  using assms by (simp add: fetchWithRetry_def retryAttempts_def fetchFrom.simps)

lemma not_found_request:
  assumes "net 0 = Response r" "status r = 404"
  shows "api_request tr efs net late now stored url (with_verb ''GET'' default_options) c =
    (c, Inl (final_error late url \<lparr>ae_name = ''Error'', ae_message = errorDetail efs r, ae_status = Some 404\<rparr>), Some [])"
  using assms by (simp add: api_request_def api_fetch_def with_verb_def default_options_def not_found_settles
      handleResponse_def response_ok_def)

text \<open>
  C40. A job the server does not know ends its tracking at once: when the status request of a poll is answered
  with 404, the HTTP client makes no second attempt and gives an error that carries the status, and the
  job tracker, which gets this error, stops, closes its stream and forgets the stored job.
\<close>

theorem unknown_job_stops_tracking:
  assumes "net 0 = Response r" "status r = 404" "t \<in> set (polls s)"
  shows "\<exists>e u. api_request tr efs net late now stored (''/api/coverage/jobs/'' @ pt_job t)
      (with_verb ''GET'' default_options) c = (c, Inl e, Some []) \<and>
    tracker_step s (PollFailure (ae_status e) t) = Some u \<and>
    activeJob u = None \<and> stored_job u = None \<and> eventSource u = None"
proof -
  let ?e = "final_error late (''/api/coverage/jobs/'' @ pt_job t)
    \<lparr>ae_name = ''Error'', ae_message = errorDetail efs r, ae_status = Some 404\<rparr>"
  let ?u = "stopTracking (s\<lparr>polls := remove1 t (polls s)\<rparr>)"
  have "ae_status ?e = Some 404" by (simp add: final_error_def ApiClient.handleError_def)
  then have "tracker_step s (PollFailure (ae_status ?e) t) = Some ?u" using assms(3) by (simp add: poll_failed_def)
  moreover have "activeJob ?u = None" "stored_job ?u = None" using core_parts [OF core_stopTracking] by auto
  moreover have "eventSource ?u = None"
    by (simp add: stopTracking_def out_def saveJobState_def clearPoll_def disconnectSSE_def)
  ultimately show ?thesis using not_found_request [of net r, OF assms(1,2)] by blast
qed

theorem unknown_job_stops_tracking_witness:
  "let s = job_started True 1000 rebuild_config (new_tracker None); t = \<lparr>pt_job = ''j1'', pt_errors = 0\<rparr>
   in activeJob s \<noteq> None \<and> (\<exists>e u. api_request (\<lambda>_. True) (\<lambda>_. []) (\<lambda>_. Response not_found) False 0 0
      (''/api/coverage/jobs/'' @ pt_job t) (with_verb ''GET'' default_options) [] = ([], Inl e, Some []) \<and>
      tracker_step s (PollFailure (ae_status e) t) = Some u \<and> activeJob u = None)"
proof -
  let ?s = "job_started True 1000 rebuild_config (new_tracker None)" and ?t = "\<lparr>pt_job = ''j1'', pt_errors = 0\<rparr>"
  have "?t \<in> set (polls ?s)" "activeJob ?s \<noteq> None" by (simp_all add: job_exec Let_def)
  moreover have "status not_found = 404" by (simp add: not_found_def)
  ultimately show ?thesis
    using unknown_job_stops_tracking [of "\<lambda>_. Response not_found" not_found ?t ?s "\<lambda>_. True" "\<lambda>_. []" False 0 0 "[]"]
    unfolding Let_def by blast
qed

text \<open>
  A request that ran out of time is reported as such, unless its address contains one of the words by
  which the reporter recognises a network failure.
\<close>

lemma timeout_reported:
  assumes "rq_timedOut r" "\<not> str_includes (''Request timeout: '' @ rq_url r) ''fetch''"
    "\<not> str_includes (''Request timeout: '' @ rq_url r) ''network''"
  shows "\<exists>e. fst (fetch_answered r (Inl abort_error) now s) = Inl e \<and>
    userMessage context e = ''The operation timed out. Please try again.''"
proof -
  have "fst (fetch_answered r (Inl abort_error) now s) = Inl (timeoutError (rq_url r))"
    using assms(1) by (simp add: fetch_answered_def isAbortError_def abort_error_def Let_def)
  moreover have "str_includes (''Request timeout: '' @ rq_url r) ''timeout''" by (simp add: starts_with_def)
  moreover from this have "userMessage context (timeoutError (rq_url r)) = ''The operation timed out. Please try again.''"
    using assms(2,3) unfolding userMessage_def timeoutError_def Let_def
    by (simp del: str_includes.simps append.simps)
  ultimately show ?thesis by blast
qed

end
